(* ===== verification/Prelude.thy ===== *)
theory Prelude
  imports Main "HOL-Library.Monad_Syntax" "HOL-Library.Multiset" "HOL-Library.Word"
begin

text \<open>
  Shared base of the development: the model of a C++ \<open>std::vector\<close> that is changed by
  inserting and erasing at an \<open>int\<close> position, truncating division, the option monad used for
  code that can stop the process, and the hint collections of the component theories.

  Convention: an operation of type \<open>'a option\<close> is \<open>None\<close> where the source does not return
  normally (a failing \<open>CHECK\<close>, \<open>vector::at\<close> out of range, a null dereference, unbounded
  recursion). A \<open>DCHECK\<close> or \<open>NOTREACHED\<close> is compiled out of release builds and is
  not a branch of the model.
\<close>

named_theorems vec_simps \<open>reading and measuring a vector after an insert or an erase\<close>

subsection \<open>Vectors changed at a position\<close>

definition insert_at :: "nat \<Rightarrow> 'a \<Rightarrow> 'a list \<Rightarrow> 'a list" where
  "insert_at i x xs = take i xs @ x # drop i xs"

definition erase_at :: "nat \<Rightarrow> 'a list \<Rightarrow> 'a list" where
  "erase_at i xs = take i xs @ drop (Suc i) xs"

lemma length_insert_at [vec_simps]: "length (insert_at i x xs) = Suc (length xs)"
  by (simp add: insert_at_def)

lemma length_erase_at [vec_simps]: "i < length xs \<Longrightarrow> length (erase_at i xs) = length xs - 1"
  by (simp add: erase_at_def)

lemma set_insert_at [vec_simps]: "set (insert_at i x xs) = insert x (set xs)"
  by (simp add: insert_at_def)
     (metis append_take_drop_id set_append)

lemma mset_insert_at [vec_simps]: "mset (insert_at i x xs) = add_mset x (mset xs)"
  by (simp add: insert_at_def)
     (metis append_take_drop_id mset_append)

lemma mset_erase_at: "i < length xs \<Longrightarrow> add_mset (xs ! i) (mset (erase_at i xs)) = mset xs"
  by (simp add: erase_at_def) (metis id_take_nth_drop mset_append mset.simps(2) union_mset_add_mset_right)

lemma set_erase_at_subset: "set (erase_at i xs) \<subseteq> set xs"
  by (auto simp: erase_at_def dest: in_set_takeD in_set_dropD)

lemma nth_insert_at [vec_simps]:
  "i \<le> length xs \<Longrightarrow> j \<le> length xs \<Longrightarrow>
   insert_at i x xs ! j = (if j < i then xs ! j else if j = i then x else xs ! (j - 1))"
  by (auto simp: insert_at_def nth_append min_def nth_Cons')

lemma nth_erase_at [vec_simps]:
  "i < length xs \<Longrightarrow> j < length xs - 1 \<Longrightarrow>
   erase_at i xs ! j = (if j < i then xs ! j else xs ! Suc j)"
  by (auto simp: erase_at_def nth_append min_def)

lemma nth_list_update_at:
  "j < length xs \<Longrightarrow> xs[k := y] ! j = (if j = k then y else xs ! j)"
  by auto

lemma map_insert_at: "map f (insert_at i x xs) = insert_at i (f x) (map f xs)"
  by (simp add: insert_at_def take_map drop_map)

lemma map_erase_at: "map f (erase_at i xs) = erase_at i (map f xs)"
  by (simp add: erase_at_def take_map drop_map)

lemma distinct_erase_at: "distinct xs \<Longrightarrow> distinct (erase_at i xs)"
  by (auto simp: erase_at_def dest: in_set_takeD in_set_dropD)
     (metis append_take_drop_id distinct_append disjoint_iff set_drop_subset_set_drop le_SucI order_refl subsetD)

text \<open>Reading an element at an \<open>int\<close> position: \<open>vector::at\<close> and \<open>operator[]\<close>,
  \<open>None\<close> out of range.\<close>

definition vec_at :: "'a list \<Rightarrow> int \<Rightarrow> 'a option" where
  "vec_at xs i = (if 0 \<le> i \<and> i < int (length xs) then Some (xs ! nat i) else None)"

lemma vec_at_Some: "0 \<le> i \<Longrightarrow> i < int (length xs) \<Longrightarrow> vec_at xs i = Some (xs ! nat i)"
  by (simp add: vec_at_def)

lemma vec_at_eq_Some: "vec_at xs i = Some x \<longleftrightarrow> 0 \<le> i \<and> i < int (length xs) \<and> x = xs ! nat i"
  by (auto simp: vec_at_def)

lemma vec_at_mem: "vec_at xs i = Some x \<Longrightarrow> x \<in> set xs"
  by (auto simp: vec_at_def split: if_splits)

lemma vec_at_nat [simp]: "n < length xs \<Longrightarrow> vec_at xs (int n) = Some (xs ! n)"
  by (simp add: vec_at_def)

text \<open>The least position from \<open>i\<close> on whose element satisfies \<open>P\<close>, or \<open>-1\<close>: the
  search loops that return an index or a "not found" constant.\<close>

fun find_from :: "('a \<Rightarrow> bool) \<Rightarrow> 'a list \<Rightarrow> int \<Rightarrow> int" where
  "find_from P [] i = -1"
| "find_from P (x # xs) i = (if P x then i else find_from P xs (i + 1))"

lemma find_from_range:
  "find_from P xs i = -1 \<and> (\<forall>x \<in> set xs. \<not> P x) \<or>
   (\<exists>k < length xs. find_from P xs i = i + int k \<and> P (xs ! k) \<and> (\<forall>j < k. \<not> P (xs ! j)))"
proof (induction xs arbitrary: i)
  case (Cons x xs)
  show ?case
  proof (cases "P x")
    case True
    then show ?thesis by auto
  next
    case False
    from Cons.IH [of "i + 1"] show ?thesis
    proof
      assume "\<exists>k < length xs. find_from P xs (i + 1) = i + 1 + int k \<and> P (xs ! k) \<and> (\<forall>j < k. \<not> P (xs ! j))"
      then obtain k where "k < length xs" "find_from P xs (i + 1) = i + 1 + int k" "P (xs ! k)"
        "\<forall>j < k. \<not> P (xs ! j)" by blast
      with False show ?thesis
        by (intro disjI2 exI [of _ "Suc k"]) (auto simp: less_Suc_eq_0_disj)
    qed (use False in auto)
  qed
qed auto

lemma find_from_bounds:
  "find_from P xs 0 \<noteq> -1 \<Longrightarrow>
     0 \<le> find_from P xs 0 \<and> find_from P xs 0 < int (length xs) \<and> P (xs ! nat (find_from P xs 0))"
  using find_from_range [of P xs 0] by auto

lemma find_from_none: "find_from P xs 0 = -1 \<longleftrightarrow> (\<forall>x \<in> set xs. \<not> P x)"
  using find_from_range [of P xs 0] nth_mem by fastforce

lemma find_from_map: "find_from P (map f xs) i = find_from (P \<circ> f) xs i"
  by (induction xs arbitrary: i) auto

subsection \<open>Integers as C++ computes with them\<close>

text \<open>C++ division truncates towards zero; the remainder takes the dividend's sign.\<close>

definition c_rem :: "int \<Rightarrow> int \<Rightarrow> int" where
  "c_rem a b = (if 0 \<le> a then a mod \<bar>b\<bar> else - ((- a) mod \<bar>b\<bar>))"

definition c_div :: "int \<Rightarrow> int \<Rightarrow> int" where
  "c_div a b = (if (0 \<le> a) = (0 < b) then \<bar>a\<bar> div \<bar>b\<bar> else - (\<bar>a\<bar> div \<bar>b\<bar>))"

lemma c_rem_nonneg: "0 \<le> a \<Longrightarrow> 0 < b \<Longrightarrow> c_rem a b = a mod b"
  by (simp add: c_rem_def)

lemma c_div_nonneg: "0 \<le> a \<Longrightarrow> 0 < b \<Longrightarrow> c_div a b = a div b"
  by (simp add: c_div_def)

lemma sorted_filter_conv: "sorted xs \<Longrightarrow> sorted (filter P xs)"
  by (metis list.map_ident sorted_filter)

end
