(* ===== verification/TabSelection.thy ===== *)
theory TabSelection
  imports Prelude
begin

text \<open>
  The selection of the tab strip, \<open>TabStripSelectionModel\<close> of
  \<open>chrome/browser/tabs/tab_strip_selection_model.cc\<close>: the selected indices in ascending order,
  the active index and the anchor, with \<open>-1\<close> for none.

  \<open>SetSelectedIndex\<close> and \<open>SetSelectionFromAnchorTo\<close> call each other while the anchor is
  unset, which does not end for the index \<open>-1\<close>: they are \<open>option\<close> valued.
\<close>

definition kUnselectedIndex :: int where
  "kUnselectedIndex = -1"

record sel_model =
  selected_indices :: "int list"
  active :: int
  anchor :: int

definition empty_selection :: sel_model where
  "empty_selection = \<lparr>selected_indices = [], active = kUnselectedIndex, anchor = kUnselectedIndex\<rparr>"

definition increment_from_impl :: "int \<Rightarrow> int \<Rightarrow> int" where
  "increment_from_impl index v = (if index \<le> v then v + 1 else v)"

text \<open>The new value, and whether the value was \<open>index\<close> itself.\<close>

definition decrement_from_impl :: "int \<Rightarrow> int \<Rightarrow> int \<times> bool" where
  "decrement_from_impl index v =
     (if v = index then (kUnselectedIndex, True)
      else if index < v then (v - 1, False) else (v, False))"

definition IncrementFrom :: "sel_model \<Rightarrow> int \<Rightarrow> sel_model" where
  "IncrementFrom s index =
     \<lparr>selected_indices = map (increment_from_impl index) (selected_indices s),
      active = increment_from_impl index (active s),
      anchor = increment_from_impl index (anchor s)\<rparr>"

fun decrement_indices :: "int \<Rightarrow> int list \<Rightarrow> int list" where
  "decrement_indices index [] = []"
| "decrement_indices index (v # vs) =
     (case decrement_from_impl index v of
        (v', erased) \<Rightarrow> if erased then decrement_indices index vs
                       else v' # decrement_indices index vs)"

definition DecrementFrom :: "sel_model \<Rightarrow> int \<Rightarrow> sel_model" where
  "DecrementFrom s index =
     \<lparr>selected_indices = decrement_indices index (selected_indices s),
      active = fst (decrement_from_impl index (active s)),
      anchor = fst (decrement_from_impl index (anchor s))\<rparr>"

text \<open>The new contents of \<open>selected_indices_\<close> built by \<open>SetSelectionFromAnchorTo\<close>.\<close>

definition anchor_range :: "int \<Rightarrow> int \<Rightarrow> int list" where
  "anchor_range index anch =
     map (\<lambda>i. int i + min index anch) [0..<nat (\<bar>index - anch\<bar> + 1)]"

partial_function (option) SetSelectedIndex :: "sel_model \<Rightarrow> int \<Rightarrow> sel_model option" where
  "SetSelectedIndex s index =
     (let s1 = s\<lparr>anchor := index, active := index\<rparr>
      in if anchor s1 = kUnselectedIndex then SetSelectedIndex s1 index
         else Some (s1\<lparr>selected_indices := anchor_range index (anchor s1), active := index\<rparr>))"

declare SetSelectedIndex.simps [code]

definition SetSelectionFromAnchorTo :: "sel_model \<Rightarrow> int \<Rightarrow> sel_model option" where
  "SetSelectionFromAnchorTo s index =
     (if anchor s = kUnselectedIndex then SetSelectedIndex s index
      else Some (s\<lparr>selected_indices := anchor_range index (anchor s), active := index\<rparr>))"

definition IsSelected :: "sel_model \<Rightarrow> int \<Rightarrow> bool" where
  "IsSelected s index = (index \<in> set (selected_indices s))"

definition AddIndexToSelection :: "sel_model \<Rightarrow> int \<Rightarrow> sel_model" where
  "AddIndexToSelection s index =
     (if \<not> IsSelected s index
      then s\<lparr>selected_indices := sort (selected_indices s @ [index])\<rparr> else s)"

definition RemoveIndexFromSelection :: "sel_model \<Rightarrow> int \<Rightarrow> sel_model" where
  "RemoveIndexFromSelection s index = s\<lparr>selected_indices := remove1 index (selected_indices s)\<rparr>"

definition push_unselected :: "int list \<Rightarrow> int \<Rightarrow> int list" where
  "push_unselected sel i = (if i \<in> set sel then sel else sel @ [i])"

definition AddSelectionFromAnchorTo :: "sel_model \<Rightarrow> int \<Rightarrow> sel_model option" where
  "AddSelectionFromAnchorTo s index =
     (if anchor s = kUnselectedIndex then SetSelectedIndex s index
      else Some (s\<lparr>selected_indices :=
                     sort (foldl push_unselected (selected_indices s)
                             [min index (anchor s)..max index (anchor s)]),
                   active := index\<rparr>))"

definition Move :: "sel_model \<Rightarrow> int \<Rightarrow> int \<Rightarrow> sel_model" where
  "Move s from to =
     (let was_anchor = (from = anchor s);
          was_active = (from = active s);
          was_selected = IsSelected s from;
          s1 = (if to < from then DecrementFrom (IncrementFrom s to) (from + 1)
                else IncrementFrom (DecrementFrom s from) to);
          s2 = (if was_active then s1\<lparr>active := to\<rparr> else s1);
          s3 = (if was_anchor then s2\<lparr>anchor := to\<rparr> else s2)
      in if was_selected then AddIndexToSelection s3 to else s3)"

definition Clear :: "sel_model \<Rightarrow> sel_model" where
  "Clear s = s\<lparr>selected_indices := [], active := kUnselectedIndex, anchor := kUnselectedIndex\<rparr>"

definition Copy :: "sel_model \<Rightarrow> sel_model \<Rightarrow> sel_model" where
  "Copy s source = s\<lparr>selected_indices := selected_indices source, active := active source,
                      anchor := anchor source\<rparr>"

subsection \<open>What the index shifts compute\<close>

lemma SetSelectedIndex_Some [simp]:
  "index \<noteq> kUnselectedIndex \<Longrightarrow> SetSelectedIndex s index =
     Some (s\<lparr>selected_indices := [index], active := index, anchor := index\<rparr>)"
  by (simp add: SetSelectedIndex.simps anchor_range_def Let_def)

lemma SetSelectedIndex_Some_imp: "SetSelectedIndex s index = Some t \<Longrightarrow> index \<noteq> kUnselectedIndex"
proof (rule SetSelectedIndex.raw_induct [where P = "\<lambda>s i t. i \<noteq> kUnselectedIndex"])
  fix f s index t
  assume IH: "\<And>s index t. f s index = Some t \<Longrightarrow> index \<noteq> kUnselectedIndex"
    and eq: "(let s1 = s\<lparr>anchor := index, active := index\<rparr>
              in if anchor s1 = kUnselectedIndex then f s1 index
                 else Some (s1\<lparr>selected_indices := anchor_range index (anchor s1), active := index\<rparr>)) = Some t"
  show "index \<noteq> kUnselectedIndex"
    using eq IH by (auto simp: Let_def split: if_splits)
qed

lemma SetSelectedIndex_diverges: "SetSelectedIndex s kUnselectedIndex = None"
  using SetSelectedIndex_Some_imp [of s kUnselectedIndex] by (cases "SetSelectedIndex s kUnselectedIndex") auto

text \<open>Where an index ends up when the one at \<open>i\<close>, another one, is taken out.\<close>

definition drop_pos :: "int \<Rightarrow> int \<Rightarrow> int" where
  "drop_pos i v = (if i < v then v - 1 else v)"

lemma decrement_indices_conv:
  "decrement_indices i vs = map (drop_pos i) (filter (\<lambda>v. v \<noteq> i) vs)"
  by (induction vs) (auto simp: decrement_from_impl_def drop_pos_def)

lemma set_decrement_indices: "set (decrement_indices i vs) = drop_pos i ` (set vs - {i})"
  by (auto simp: decrement_indices_conv)

lemma sorted_increment_indices:
  "sorted_wrt (<) vs \<Longrightarrow> sorted_wrt (<) (map (increment_from_impl i) vs)"
  by (induction vs) (auto simp: increment_from_impl_def)

lemma sorted_decrement_indices:
  "sorted_wrt (<) vs \<Longrightarrow> sorted_wrt (<) (decrement_indices i vs)"
  by (induction vs) (auto simp: decrement_indices_conv drop_pos_def)

lemma strict_sorted_conv: "sorted_wrt (<) vs \<longleftrightarrow> sorted vs \<and> distinct (vs :: int list)"
  by (rule strict_sorted_iff)

lemma set_foldl_push: "set (foldl push_unselected xs ys) = set xs \<union> set ys"
  by (induction ys arbitrary: xs) (auto simp: push_unselected_def)

lemma distinct_foldl_push: "distinct xs \<Longrightarrow> distinct (foldl push_unselected xs ys)"
  by (induction ys arbitrary: xs) (auto simp: push_unselected_def)

lemma set_anchor_range: "set (anchor_range i a) = {min i a..max i a}"
proof -
  have "x \<in> set (anchor_range i a)" if "min i a \<le> x" "x \<le> max i a" for x
    using that unfolding anchor_range_def
    by (auto intro!: image_eqI [where x = "nat (x - min i a)"])
  then show ?thesis by (auto simp: anchor_range_def)
qed

lemma sorted_anchor_range: "sorted_wrt (<) (anchor_range i a)"
  by (simp add: anchor_range_def sorted_wrt_map)

subsection \<open>The selection of a strip of \<open>n\<close> tabs\<close>

text \<open>Ascending, inside the strip, with an active index and an anchor that are unset or inside.\<close>

definition sel_wf :: "int \<Rightarrow> sel_model \<Rightarrow> bool" where
  "sel_wf n s \<longleftrightarrow> sorted_wrt (<) (selected_indices s) \<and>
     (\<forall>v \<in> set (selected_indices s). 0 \<le> v \<and> v < n) \<and>
     -1 \<le> active s \<and> active s < n \<and> -1 \<le> anchor s \<and> anchor s < n"

text \<open>Where a tab ends up when the tab at \<open>from\<close> is moved to \<open>to\<close>.\<close>

definition move_pos :: "int \<Rightarrow> int \<Rightarrow> int \<Rightarrow> int" where
  "move_pos from to i =
     (if i = from then to
      else if from < i \<and> i \<le> to then i - 1
      else if to \<le> i \<and> i < from then i + 1 else i)"

lemma IncrementFrom_sel [simp]:
  "selected_indices (IncrementFrom s i) = map (increment_from_impl i) (selected_indices s)"
  "active (IncrementFrom s i) = increment_from_impl i (active s)"
  "anchor (IncrementFrom s i) = increment_from_impl i (anchor s)"
  by (simp_all add: IncrementFrom_def)

lemma DecrementFrom_sel [simp]:
  "selected_indices (DecrementFrom s i) = decrement_indices i (selected_indices s)"
  "active (DecrementFrom s i) = fst (decrement_from_impl i (active s))"
  "anchor (DecrementFrom s i) = fst (decrement_from_impl i (anchor s))"
  by (simp_all add: DecrementFrom_def)

lemma sel_wf_IncrementFrom:
  "sel_wf n s \<Longrightarrow> 0 \<le> i \<Longrightarrow> sel_wf (n + 1) (IncrementFrom s i)"
  by (auto simp: sel_wf_def increment_from_impl_def intro: sorted_increment_indices)

lemma sel_wf_DecrementFrom:
  "sel_wf n s \<Longrightarrow> 0 \<le> i \<Longrightarrow> i < n \<Longrightarrow> sel_wf (n - 1) (DecrementFrom s i)"
  by (auto simp: sel_wf_def decrement_from_impl_def set_decrement_indices kUnselectedIndex_def drop_pos_def
           intro: sorted_decrement_indices)

lemma AddIndexToSelection_sel [simp]:
  "set (selected_indices (AddIndexToSelection s i)) = insert i (set (selected_indices s))"
  "active (AddIndexToSelection s i) = active s"
  "anchor (AddIndexToSelection s i) = anchor s"
  by (auto simp: AddIndexToSelection_def IsSelected_def)

lemma sorted_AddIndexToSelection:
  "sorted_wrt (<) (selected_indices s) \<Longrightarrow> sorted_wrt (<) (selected_indices (AddIndexToSelection s i))"
  by (auto simp: AddIndexToSelection_def IsSelected_def strict_sorted_conv)

lemma move_pos_bounds:
  "0 \<le> from \<Longrightarrow> from < n \<Longrightarrow> 0 \<le> to \<Longrightarrow> to < n \<Longrightarrow> 0 \<le> i \<Longrightarrow> i < n \<Longrightarrow>
   0 \<le> move_pos from to i \<and> move_pos from to i < n"
  by (auto simp: move_pos_def)

lemma move_pos_unset [simp]: "0 \<le> from \<Longrightarrow> 0 \<le> to \<Longrightarrow> move_pos from to (-1) = -1"
  by (simp add: move_pos_def)

text \<open>The two shifts \<open>Move\<close> composes, on one index that is not the moved one.\<close>

lemma shifts_move_pos:
  "v \<noteq> from \<Longrightarrow> to < from \<Longrightarrow>
     drop_pos (from + 1) (increment_from_impl to v) = move_pos from to v"
  "v \<noteq> from \<Longrightarrow> \<not> to < from \<Longrightarrow>
     increment_from_impl to (drop_pos from v) = move_pos from to v"
  by (auto simp: increment_from_impl_def move_pos_def drop_pos_def)

lemma Move_selected:
  assumes "from \<noteq> to"
  shows "set (selected_indices (Move s from to)) = move_pos from to ` set (selected_indices s)"
proof -
  let ?rest = "move_pos from to ` (set (selected_indices s) - {from})"
  have down: "set (decrement_indices (from + 1) (map (increment_from_impl to) (selected_indices s))) = ?rest"
    if lt: "to < from"
  proof -
    have "increment_from_impl to ` set (selected_indices s) - {from + 1}
          = increment_from_impl to ` (set (selected_indices s) - {from})"
      using lt by (auto simp: increment_from_impl_def split: if_splits)
    then show ?thesis
      by (simp add: set_decrement_indices image_image)
         (rule image_cong, simp, simp add: shifts_move_pos(1) lt)
  qed
  have up: "set (map (increment_from_impl to) (decrement_indices from (selected_indices s))) = ?rest"
    if ge: "\<not> to < from"
    by (simp add: set_decrement_indices image_image)
       (rule image_cong, simp, simp add: shifts_move_pos(2) ge)
  have to: "move_pos from to from = to" by (simp add: move_pos_def)
  have img: "move_pos from to ` set (selected_indices s) =
      (if from \<in> set (selected_indices s) then insert to ?rest else ?rest)"
    by (auto simp: image_iff to intro!: bexI [where x = "from"])
  have upd: "\<And>b X. selected_indices (if b then X\<lparr>active := to\<rparr> else X) = selected_indices X"
    "\<And>b X. selected_indices (if b then X\<lparr>anchor := to\<rparr> else X) = selected_indices X"
    by simp_all
  show ?thesis
    unfolding img using down up
    by (cases "to < from"; cases "from \<in> set (selected_indices s)")
       (simp_all add: Move_def Let_def IsSelected_def upd split del: if_split)
qed

lemma Move_active:
  "from \<noteq> to \<Longrightarrow> 0 \<le> from \<Longrightarrow> 0 \<le> to \<Longrightarrow> -1 \<le> active s \<Longrightarrow> active (Move s from to) = move_pos from to (active s)"
  "from \<noteq> to \<Longrightarrow> 0 \<le> from \<Longrightarrow> 0 \<le> to \<Longrightarrow> -1 \<le> anchor s \<Longrightarrow> anchor (Move s from to) = move_pos from to (anchor s)"
  by (auto simp: Move_def Let_def move_pos_def increment_from_impl_def decrement_from_impl_def)

lemma sorted_Move:
  "sorted_wrt (<) (selected_indices s) \<Longrightarrow> sorted_wrt (<) (selected_indices (Move s from to))"
  by (auto simp: Move_def Let_def intro!: sorted_AddIndexToSelection sorted_decrement_indices
           sorted_increment_indices)

lemma sel_wf_Move:
  assumes "sel_wf n s" "from \<noteq> to" "0 \<le> from" "from < n" "0 \<le> to" "to < n"
  shows "sel_wf n (Move s from to)"
proof -
  have act: "-1 \<le> active s" "-1 \<le> anchor s" using assms(1) by (auto simp: sel_wf_def)
  have in_range: "-1 \<le> move_pos from to v \<and> move_pos from to v < n" if "-1 \<le> v" "v < n" for v
    using that assms by (cases "v = -1") (auto simp: move_pos_def)
  show ?thesis
    using assms act in_range
    by (auto simp: sel_wf_def Move_selected Move_active sorted_Move move_pos_bounds)
qed

text \<open>C25. Moving a tab keeps the selection on the same tabs: after \<open>TabStripSelectionModel::Move\<close>
  the selected indices, the active index and the anchor are exactly the images of the old ones under
  the permutation that moving a tab from \<open>from\<close> to \<open>to\<close> is, still ascending and inside the
  strip.\<close>

theorem selection_move_tracks_tabs:
  assumes "sel_wf n s" "from \<noteq> to" "0 \<le> from" "from < n" "0 \<le> to" "to < n"
  shows "sel_wf n (Move s from to) \<and>
    set (selected_indices (Move s from to)) = move_pos from to ` set (selected_indices s) \<and>
    active (Move s from to) = move_pos from to (active s) \<and>
    anchor (Move s from to) = move_pos from to (anchor s)"
proof -
  have "-1 \<le> active s" "-1 \<le> anchor s" using assms(1) by (auto simp: sel_wf_def)
  then show ?thesis
    using sel_wf_Move [OF assms] assms(2-) by (simp add: Move_selected Move_active)
qed

theorem selection_move_tracks_tabs_witness:
  "set (selected_indices (Move \<lparr>selected_indices = [0, 2], active = 2, anchor = 0\<rparr> 0 3)) =
     move_pos 0 3 ` {0, 2} \<and>
   active (Move \<lparr>selected_indices = [0, 2], active = 2, anchor = 0\<rparr> 0 3) = 1"
  using selection_move_tracks_tabs
          [of 4 "\<lparr>selected_indices = [0, 2], active = 2, anchor = 0\<rparr>" 0 3]
  by (simp add: sel_wf_def) (simp add: move_pos_def)

end
