(* ===== verification/TabStripData.thy ===== *)
theory TabStripData
  imports TabSelection
begin

text \<open>
  The tab strip's state and its queries: \<open>TabStripModel::TabContentsData\<close> and the read-only
  methods of \<open>chrome/browser/tabs/tab_strip_model.cc\<close>, with the three small updates of the
  group and opener links that the order controller calls back into.

  A tab is named by an identity (\<open>tab_id\<close>). A \<open>TabContentsWrapper\<close> owns its \<open>TabContents\<close>
  and that owns its \<open>NavigationController\<close>, one each, so one identity stands for the three
  pointers. What the strip reads of a tab (its URL, whether it is an app, ...) is the record
  \<open>tab_env\<close>. A null pointer is \<open>None\<close>.
\<close>

type_synonym tab_id = nat
type_synonym controller = tab_id

datatype insertion_policy = INSERT_AFTER | INSERT_BEFORE

record tab_data =
  contents :: tab_id
  group :: "controller option"
  opener :: "controller option"
  reset_group_on_select :: bool
  pinned :: bool
  need_phantom :: bool
  blocked :: bool
  last_visit_time :: int

definition new_tab_data :: "tab_id \<Rightarrow> tab_data" where
  "new_tab_data c = \<lparr>contents = c, group = None, opener = None, reset_group_on_select = False,
     pinned = False, need_phantom = False, blocked = False, last_visit_time = 0\<rparr>"

definition SetGroup :: "controller option \<Rightarrow> tab_data \<Rightarrow> tab_data" where
  "SetGroup g d = d\<lparr>group := g, opener := g\<rparr>"

definition ForgetOpener :: "tab_data \<Rightarrow> tab_data" where
  "ForgetOpener d = d\<lparr>opener := None\<rparr>"

text \<open>What the observers are told, in the order they are told it.\<close>

datatype tab_event =
    TabInsertedAt tab_id int bool
  | TabClosingAt tab_id int
  | TabDetachedAt tab_id int
  | TabDeselected tab_id
  | TabSelectedAt "tab_id option" "tab_id option" int bool
  | TabMoved tab_id int int
  | TabChangedAt tab_id int
  | TabReplacedAt tab_id tab_id int
  | TabPinnedStateChanged tab_id int
  | TabMiniStateChanged tab_id int
  | TabBlockedStateChanged tab_id int
  | TabStripEmpty
  | HistoricalTab tab_id
  | TabHidden tab_id
  | TabReloaded tab_id
  | AddBlankTabAt int bool
  | RestoreTab
  | BookmarkAllTabs
  | ToggleUseVerticalTabs

record tab_strip =
  contents_data :: "tab_data list"
  selection_model :: sel_model
  closing_all :: bool
  tabs_limit :: int
  policy :: insertion_policy
  closed_by_user_gesture :: "tab_id \<Rightarrow> bool"
  events :: "tab_event list"

text \<open>What the strip reads of the tabs, of the delegate and of the clock. \<open>GURL\<close> is outside
  the repository: \<open>url_spec\<close>, \<open>url_scheme\<close> and \<open>url_host\<close> are the parts of a tab's URL, and
  \<open>gurl_spec\<close> is the canonical spec of \<open>GURL(str)\<close>; two \<open>GURL\<close>s are equal when their specs
  are.\<close>

record tab_env =
  is_app :: "tab_id \<Rightarrow> bool"
  gurl_spec :: "string \<Rightarrow> string"
  url_spec :: "tab_id \<Rightarrow> string"
  url_scheme :: "tab_id \<Rightarrow> string"
  url_host :: "tab_id \<Rightarrow> string"
  needs_reload :: "tab_id \<Rightarrow> bool"
  entry_count :: "tab_id \<Rightarrow> int"
  is_loading :: "tab_id \<Rightarrow> bool"
  extension_app :: "tab_id \<Rightarrow> nat option"
  CanReloadContents :: "tab_id \<Rightarrow> bool"
  CloneAndMakePhantom :: "tab_id \<Rightarrow> tab_id"
  CanCloseContentsAt :: "tab_strip \<Rightarrow> int \<Rightarrow> bool"
  RunUnloadListenerBeforeClosing :: "tab_id \<Rightarrow> bool"
  CanCloseTab :: "tab_strip \<Rightarrow> bool"
  CanDuplicateContentsAt :: "tab_strip \<Rightarrow> int \<Rightarrow> bool"
  DuplicateContentsAt :: "tab_strip \<Rightarrow> int \<Rightarrow> tab_strip option"
  CanRestoreTab :: bool
  CanBookmarkAllTabs :: bool
  UseVerticalTabs :: bool
  has_profile :: bool
  now :: int

definition kNoTab :: int where
  "kNoTab = -1"

definition emit :: "tab_event \<Rightarrow> tab_strip \<Rightarrow> tab_strip" where
  "emit e s = s\<lparr>events := events s @ [e]\<rparr>"

definition update_data :: "int \<Rightarrow> (tab_data \<Rightarrow> tab_data) \<Rightarrow> tab_strip \<Rightarrow> tab_strip" where
  "update_data i f s = s\<lparr>contents_data := (contents_data s)[nat i := f (contents_data s ! nat i)]\<rparr>"

subsection \<open>Queries\<close>

definition count :: "tab_strip \<Rightarrow> int" where
  "count s = int (length (contents_data s))"

definition active_index :: "tab_strip \<Rightarrow> int" where
  "active_index s = active (selection_model s)"

definition ContainsIndex :: "tab_strip \<Rightarrow> int \<Rightarrow> bool" where
  "ContainsIndex s i \<longleftrightarrow> 0 \<le> i \<and> i < count s"

text \<open>\<open>GetContentsAt\<close> fails a \<open>CHECK\<close> out of range; \<open>GetTabContentsAt\<close> returns null.\<close>

definition GetContentsAt :: "tab_strip \<Rightarrow> int \<Rightarrow> tab_id option" where
  "GetContentsAt s i = map_option contents (vec_at (contents_data s) i)"

definition GetTabContentsAt :: "tab_strip \<Rightarrow> int \<Rightarrow> tab_id option" where
  "GetTabContentsAt s i = (if ContainsIndex s i then GetContentsAt s i else None)"

definition GetSelectedTabContents :: "tab_strip \<Rightarrow> tab_id option" where
  "GetSelectedTabContents s = GetTabContentsAt s (active_index s)"

definition GetIndexOfTabContents :: "tab_strip \<Rightarrow> tab_id \<Rightarrow> int" where
  "GetIndexOfTabContents s c = find_from (\<lambda>d. contents d = c) (contents_data s) 0"

definition GetWrapperIndex :: "tab_strip \<Rightarrow> tab_id \<Rightarrow> int" where
  "GetWrapperIndex s c = find_from (\<lambda>d. contents d = c) (contents_data s) 0"

definition GetIndexOfController :: "tab_strip \<Rightarrow> controller \<Rightarrow> int" where
  "GetIndexOfController s c = find_from (\<lambda>d. contents d = c) (contents_data s) 0"

definition TabsAreLoading :: "tab_env \<Rightarrow> tab_strip \<Rightarrow> bool" where
  "TabsAreLoading env s = list_ex (\<lambda>d. is_loading env (contents d)) (contents_data s)"

definition GetOpenerOfTabContentsAt :: "tab_strip \<Rightarrow> int \<Rightarrow> controller option option" where
  "GetOpenerOfTabContentsAt s i = map_option opener (vec_at (contents_data s) i)"

definition OpenerMatches :: "tab_data \<Rightarrow> controller \<Rightarrow> bool \<Rightarrow> bool" where
  "OpenerMatches d op use_group \<longleftrightarrow> opener d = Some op \<or> (use_group \<and> group d = Some op)"

definition found_index :: "int option \<Rightarrow> int" where
  "found_index r = (case r of None \<Rightarrow> kNoTab | Some i \<Rightarrow> i)"

text \<open>The tabs after \<open>start_index\<close> upwards, then those before it downwards.\<close>

definition GetIndexOfNextTabContentsOpenedBy :: "tab_strip \<Rightarrow> controller \<Rightarrow> int \<Rightarrow> bool \<Rightarrow> int" where
  "GetIndexOfNextTabContentsOpenedBy s op start_index use_group =
     found_index (find (\<lambda>i. OpenerMatches (contents_data s ! nat i) op use_group)
                       ([start_index + 1..count s - 1] @ rev [0..start_index - 1]))"

definition GetIndexOfFirstTabContentsOpenedBy :: "tab_strip \<Rightarrow> controller \<Rightarrow> int \<Rightarrow> int" where
  "GetIndexOfFirstTabContentsOpenedBy s op start_index =
     found_index (find (\<lambda>i. opener (contents_data s ! nat i) = Some op) [0..start_index - 1])"

definition GetIndexOfLastTabContentsOpenedBy :: "tab_strip \<Rightarrow> controller \<Rightarrow> int \<Rightarrow> int" where
  "GetIndexOfLastTabContentsOpenedBy s op start_index =
     found_index (find (\<lambda>i. opener (contents_data s ! nat i) = Some op)
                       (rev [start_index + 1..count s - 1]))"

definition ShouldResetGroupOnSelect :: "tab_strip \<Rightarrow> tab_id \<Rightarrow> bool option" where
  "ShouldResetGroupOnSelect s c =
     map_option reset_group_on_select (vec_at (contents_data s) (GetIndexOfTabContents s c))"

definition IsTabPinned :: "tab_strip \<Rightarrow> int \<Rightarrow> bool option" where
  "IsTabPinned s i = map_option pinned (vec_at (contents_data s) i)"

definition IsAppTab :: "tab_env \<Rightarrow> tab_strip \<Rightarrow> int \<Rightarrow> bool" where
  "IsAppTab env s i = (case GetTabContentsAt s i of None \<Rightarrow> False | Some c \<Rightarrow> is_app env c)"

definition IsMiniTab :: "tab_env \<Rightarrow> tab_strip \<Rightarrow> int \<Rightarrow> bool option" where
  "IsMiniTab env s i = do { p \<leftarrow> IsTabPinned s i; Some (p \<or> IsAppTab env s i) }"

definition IsTabBlocked :: "tab_strip \<Rightarrow> int \<Rightarrow> bool option" where
  "IsTabBlocked s i = map_option blocked (vec_at (contents_data s) i)"

definition IsPhantomTab :: "tab_env \<Rightarrow> tab_strip \<Rightarrow> int \<Rightarrow> bool option" where
  "IsPhantomTab env s i = map_option (needs_reload env) (GetTabContentsAt s i)"

definition HasNonPhantomTabs :: "tab_env \<Rightarrow> tab_strip \<Rightarrow> bool" where
  "HasNonPhantomTabs env s = list_ex (\<lambda>d. \<not> needs_reload env (contents d)) (contents_data s)"

definition is_mini :: "tab_env \<Rightarrow> tab_data \<Rightarrow> bool" where
  "is_mini env d \<longleftrightarrow> pinned d \<or> is_app env (contents d)"

text \<open>The loop returns the first index that is no mini-tab, and the count if there is none.\<close>

fun first_non_mini_from :: "tab_env \<Rightarrow> tab_data list \<Rightarrow> int \<Rightarrow> int" where
  "first_non_mini_from env [] i = i"
| "first_non_mini_from env (d # ds) i =
     (if \<not> is_mini env d then i else first_non_mini_from env ds (i + 1))"

definition IndexOfFirstNonMiniTab :: "tab_env \<Rightarrow> tab_strip \<Rightarrow> int" where
  "IndexOfFirstNonMiniTab env s = first_non_mini_from env (contents_data s) 0"

definition ConstrainInsertionIndex :: "tab_env \<Rightarrow> tab_strip \<Rightarrow> int \<Rightarrow> bool \<Rightarrow> int" where
  "ConstrainInsertionIndex env s index mini_tab =
     (if mini_tab then min (max 0 index) (IndexOfFirstNonMiniTab env s)
      else min (count s) (max index (IndexOfFirstNonMiniTab env s)))"

definition IsTabSelected :: "tab_strip \<Rightarrow> int \<Rightarrow> bool" where
  "IsTabSelected s i = IsSelected (selection_model s) i"

subsection \<open>Group and opener links\<close>

definition ForgetAllOpeners :: "tab_strip \<Rightarrow> tab_strip" where
  "ForgetAllOpeners s = s\<lparr>contents_data := map ForgetOpener (contents_data s)\<rparr>"

definition ForgetGroup :: "tab_strip \<Rightarrow> tab_id \<Rightarrow> tab_strip option" where
  "ForgetGroup s c =
     (let i = GetIndexOfTabContents s c
      in if ContainsIndex s i then Some (update_data i (ForgetOpener \<circ> SetGroup None) s) else None)"

definition forget_referencing :: "controller \<Rightarrow> tab_data \<Rightarrow> tab_data" where
  "forget_referencing tab d =
     (let d1 = (if group d = Some tab then d\<lparr>group := None\<rparr> else d)
      in if opener d1 = Some tab then d1\<lparr>opener := None\<rparr> else d1)"

definition ForgetOpenersAndGroupsReferencing :: "controller \<Rightarrow> tab_strip \<Rightarrow> tab_strip" where
  "ForgetOpenersAndGroupsReferencing tab s =
     s\<lparr>contents_data := map (forget_referencing tab) (contents_data s)\<rparr>"

end
