(* ===== verification/PageTransition.thy ===== *)
theory PageTransition
  imports Prelude
begin

text \<open>
  Page transitions (\<open>content/common/page_transition_types.h\<close>): a core value in the low byte of an
  unsigned 32-bit word, qualifiers in the rest.
\<close>

unbundle bit_operations_syntax

definition LINK :: "32 word" where "LINK = 0"
definition TYPED :: "32 word" where "TYPED = 1"
definition AUTO_BOOKMARK :: "32 word" where "AUTO_BOOKMARK = 2"
definition AUTO_SUBFRAME :: "32 word" where "AUTO_SUBFRAME = 3"
definition MANUAL_SUBFRAME :: "32 word" where "MANUAL_SUBFRAME = 4"
definition GENERATED :: "32 word" where "GENERATED = 5"
definition START_PAGE :: "32 word" where "START_PAGE = 6"
definition RELOAD_transition :: "32 word" where "RELOAD_transition = 8"
definition KEYWORD :: "32 word" where "KEYWORD = 9"
definition LAST_CORE :: "32 word" where "LAST_CORE = 10"
definition FORWARD_BACK :: "32 word" where "FORWARD_BACK = 0x01000000"
definition IS_REDIRECT_MASK :: "32 word" where "IS_REDIRECT_MASK = 0xC0000000"
definition QUALIFIER_MASK :: "32 word" where "QUALIFIER_MASK = 0xFFFFFF00"

definition StripQualifier :: "32 word \<Rightarrow> 32 word" where
  "StripQualifier t = t AND NOT QUALIFIER_MASK"

definition GetQualifier :: "32 word \<Rightarrow> 32 word" where
  "GetQualifier t = t AND QUALIFIER_MASK"

definition ValidType :: "32 word \<Rightarrow> bool" where
  "ValidType t \<longleftrightarrow> StripQualifier t \<le> LAST_CORE"

definition IsMainFrame :: "32 word \<Rightarrow> bool" where
  "IsMainFrame t \<longleftrightarrow> StripQualifier t \<noteq> AUTO_SUBFRAME \<and> StripQualifier t \<noteq> MANUAL_SUBFRAME"

definition IsRedirect_transition :: "32 word \<Rightarrow> bool" where
  "IsRedirect_transition t \<longleftrightarrow> t AND IS_REDIRECT_MASK \<noteq> 0"

end
