(* ===== verification/TabOrder.thy ===== *)
theory TabOrder
  imports TabStripData PageTransition
begin

text \<open>
  \<open>TabStripModelOrderController\<close> of
  \<open>chrome/browser/tabs/tab_strip_model_order_controller.cc\<close>: where a new tab is inserted, which
  tab is selected after a removal, and which opener links a selection change forgets. The
  controller's own state, its insertion policy, is the strip's field \<open>policy\<close>.
\<close>

definition DetermineInsertionIndexForAppending :: "tab_strip \<Rightarrow> int" where
  "DetermineInsertionIndexForAppending s = (if policy s = INSERT_AFTER then count s else 0)"

definition DetermineInsertionIndex :: "tab_strip \<Rightarrow> 32 word \<Rightarrow> bool \<Rightarrow> int option" where
  "DetermineInsertionIndex s transition foreground =
     (if count s = 0 then Some 0
      else if transition = LINK \<and> active_index s \<noteq> -1 then
        let delta = (if policy s = INSERT_AFTER then 1 else 0)
        in if foreground then Some (active_index s + delta)
           else do {
             op \<leftarrow> GetSelectedTabContents s;
             let index = (if policy s = INSERT_AFTER
                          then GetIndexOfLastTabContentsOpenedBy s op (active_index s)
                          else GetIndexOfFirstTabContentsOpenedBy s op (active_index s));
             if index \<noteq> kNoTab then Some (index + delta) else Some (active_index s + delta)
           }
      else Some (DetermineInsertionIndexForAppending s))"

definition GetValidIndex :: "int \<Rightarrow> int \<Rightarrow> int" where
  "GetValidIndex index removing_index =
     (if removing_index < index then max 0 (index - 1) else index)"

text \<open>The default: stay at the active index, or step left at the end of the strip.\<close>

definition default_new_index :: "tab_strip \<Rightarrow> int" where
  "default_new_index s =
     (if active_index s \<ge> count s - 1 then active_index s - 1 else active_index s)"

definition DetermineNewSelectedIndex :: "tab_strip \<Rightarrow> int \<Rightarrow> int option" where
  "DetermineNewSelectedIndex s removing_index = do {
     parent_opener \<leftarrow> GetOpenerOfTabContentsAt s removing_index;
     removed_controller \<leftarrow> GetTabContentsAt s removing_index;
     let index = GetIndexOfNextTabContentsOpenedBy s removed_controller removing_index False;
     if index \<noteq> kNoTab then Some (GetValidIndex index removing_index)
     else case parent_opener of
            None \<Rightarrow> Some (default_new_index s)
          | Some parent \<Rightarrow>
              let index = GetIndexOfNextTabContentsOpenedBy s parent removing_index False
              in if index \<noteq> kNoTab then Some (GetValidIndex index removing_index)
                 else let index = GetIndexOfController s parent
                      in if index \<noteq> kNoTab then Some (GetValidIndex index removing_index)
                         else Some (default_new_index s)
   }"

text \<open>
  The observer callback. \<open>old_contents->controller()\<close> and \<open>new_contents->controller()\<close> are
  read last, and only where the conditions before them hold; on a null pointer they crash.
\<close>

definition old_tab_links :: "tab_strip \<Rightarrow> tab_id option \<Rightarrow> (controller option \<times> tab_strip) option" where
  "old_tab_links s old =
     (case old of
        None \<Rightarrow> Some (None, s)
      | Some oc \<Rightarrow>
          (let i = GetIndexOfTabContents s oc
           in if i = kNoTab then Some (None, s)
              else do {
                old_opener \<leftarrow> GetOpenerOfTabContentsAt s i;
                reset \<leftarrow> ShouldResetGroupOnSelect s oc;
                s' \<leftarrow> (if reset then ForgetGroup s oc else Some s);
                Some (old_opener, s')
              }))"

definition order_TabSelectedAt ::
  "tab_strip \<Rightarrow> tab_id option \<Rightarrow> tab_id option \<Rightarrow> int \<Rightarrow> bool \<Rightarrow> tab_strip option" where
  "order_TabSelectedAt s old new index user_gesture =
     (if old = new then Some s
      else do {
        (old_opener, s1) \<leftarrow> old_tab_links s old;
        new_opener \<leftarrow> GetOpenerOfTabContentsAt s1 index;
        if user_gesture \<and> new_opener \<noteq> old_opener then do {
          oc \<leftarrow> old;
          if new_opener \<noteq> Some oc then do {
            nc \<leftarrow> new;
            if old_opener \<noteq> Some nc then Some (ForgetAllOpeners s1) else Some s1
          } else Some s1
        } else Some s1
      })"

end
