(* ===== verification/TabStrip.thy ===== *)
theory TabStrip
  imports TabOrder
begin

text \<open>
  The operations of \<open>TabStripModel\<close> that change the strip
  (\<open>chrome/browser/tabs/tab_strip_model.cc\<close>). The order controller is the strip's first
  observer: a \<open>TabSelectedAt\<close> notification runs its callback and is then recorded in
  \<open>events\<close>, the trace the other observers see.
\<close>

unbundle bit_operations_syntax

definition ADD_NONE :: "32 word" where "ADD_NONE = 0"
definition ADD_ACTIVE :: "32 word" where "ADD_ACTIVE = 1"
definition ADD_PINNED :: "32 word" where "ADD_PINNED = 2"
definition ADD_FORCE_INDEX :: "32 word" where "ADD_FORCE_INDEX = 4"
definition ADD_INHERIT_GROUP :: "32 word" where "ADD_INHERIT_GROUP = 8"
definition ADD_INHERIT_OPENER :: "32 word" where "ADD_INHERIT_OPENER = 16"

definition CLOSE_NONE :: "32 word" where "CLOSE_NONE = 0"
definition CLOSE_USER_GESTURE :: "32 word" where "CLOSE_USER_GESTURE = 1"
definition CLOSE_CREATE_HISTORICAL_TAB :: "32 word" where "CLOSE_CREATE_HISTORICAL_TAB = 2"

definition has_flag :: "32 word \<Rightarrow> 32 word \<Rightarrow> bool" where
  "has_flag types flag \<longleftrightarrow> types AND flag \<noteq> 0"

definition kChromeUIBookmarksURL :: string where "kChromeUIBookmarksURL = ''chrome://bookmarks/''"
definition kChromeUIDownloadsURL :: string where "kChromeUIDownloadsURL = ''chrome://downloads/''"
definition kChromeUINewTabURL :: string where "kChromeUINewTabURL = ''chrome://newtab''"

definition MAX_TABS_LIMIT :: int where "MAX_TABS_LIMIT = 65535"
definition MIN_TABS_LIMIT :: int where "MIN_TABS_LIMIT = 2"

text \<open>The constructor: the limit of the command line switch, if it parses, clamped.\<close>

definition clamp_tabs_limit :: "int \<Rightarrow> int" where
  "clamp_tabs_limit limit =
     (if limit < MIN_TABS_LIMIT then MIN_TABS_LIMIT
      else if limit > MAX_TABS_LIMIT then MAX_TABS_LIMIT else limit)"

definition new_tab_strip :: "int option \<Rightarrow> tab_strip" where
  "new_tab_strip switch_value =
     \<lparr>contents_data = [], selection_model = empty_selection, closing_all = False,
      tabs_limit = clamp_tabs_limit (case switch_value of None \<Rightarrow> MAX_TABS_LIMIT | Some v \<Rightarrow> v),
      policy = INSERT_AFTER, closed_by_user_gesture = (\<lambda>_. False), events = []\<rparr>"

definition SetInsertionPolicy :: "insertion_policy \<Rightarrow> tab_strip \<Rightarrow> tab_strip" where
  "SetInsertionPolicy p s = s\<lparr>policy := p\<rparr>"

definition ShouldForgetOpenersForTransition :: "32 word \<Rightarrow> bool" where
  "ShouldForgetOpenersForTransition t \<longleftrightarrow>
     t = TYPED \<or> t = AUTO_BOOKMARK \<or> t = GENERATED \<or> t = KEYWORD \<or> t = START_PAGE"

subsection \<open>Notifications\<close>

definition notify_TabSelectedAt ::
  "tab_strip \<Rightarrow> tab_id option \<Rightarrow> tab_id option \<Rightarrow> bool \<Rightarrow> tab_strip option" where
  "notify_TabSelectedAt s old new user_gesture = do {
     s1 \<leftarrow> order_TabSelectedAt s old new (active_index s) user_gesture;
     Some (emit (TabSelectedAt old new (active_index s1) user_gesture) s1)
   }"

definition NotifyTabSelectedIfChanged ::
  "tab_env \<Rightarrow> tab_strip \<Rightarrow> tab_id option \<Rightarrow> int \<Rightarrow> bool \<Rightarrow> tab_strip option" where
  "NotifyTabSelectedIfChanged env s old to_index user_gesture = do {
     new \<leftarrow> GetContentsAt s to_index;
     if old = Some new then Some s
     else do {
       let s1 = update_data to_index (\<lambda>d. d\<lparr>last_visit_time := now env\<rparr>) s;
       let s2 = (case old of None \<Rightarrow> s1 | Some oc \<Rightarrow> emit (TabDeselected oc) s1);
       notify_TabSelectedAt s2 old (Some new) user_gesture
     }
   }"

definition NotifySelectionChanged :: "tab_strip \<Rightarrow> int \<Rightarrow> tab_strip option" where
  "NotifySelectionChanged s old_selected_index =
     (let old_tab = (if old_selected_index = kUnselectedIndex then None
                     else GetTabContentsAt s old_selected_index);
          new_tab = (if active_index s = kUnselectedIndex then None
                     else GetTabContentsAt s (active_index s))
      in notify_TabSelectedAt s old_tab new_tab True)"

definition set_selection :: "tab_strip \<Rightarrow> sel_model \<Rightarrow> tab_strip" where
  "set_selection s sel = s\<lparr>selection_model := sel\<rparr>"

definition select_index :: "tab_strip \<Rightarrow> int \<Rightarrow> tab_strip option" where
  "select_index s i = map_option (set_selection s) (SetSelectedIndex (selection_model s) i)"

subsection \<open>The tab limit\<close>

definition is_chrome_tab :: "tab_env \<Rightarrow> tab_data \<Rightarrow> bool" where
  "is_chrome_tab env d \<longleftrightarrow>
     url_spec env (contents d) = gurl_spec env kChromeUIDownloadsURL \<or>
     url_spec env (contents d) = gurl_spec env kChromeUIBookmarksURL"

definition IsReachTabsLimit :: "tab_env \<Rightarrow> tab_strip \<Rightarrow> bool" where
  "IsReachTabsLimit env s \<longleftrightarrow>
     count s - int (length (filter (is_chrome_tab env) (contents_data s))) \<ge> tabs_limit s"

text \<open>The loop that picks the tab to replace: from index 1 on, the first New Tab, else the least
  recently visited, index 0 winning ties.\<close>

fun replace_index_from :: "tab_env \<Rightarrow> tab_data list \<Rightarrow> int \<Rightarrow> int \<Rightarrow> int \<Rightarrow> int" where
  "replace_index_from env [] i best best_time = best"
| "replace_index_from env (d # ds) i best best_time =
     (let (best', time') = (if best_time > last_visit_time d then (i, last_visit_time d)
                            else (best, best_time))
      in if url_spec env (contents d) = gurl_spec env kChromeUINewTabURL then i
         else replace_index_from env ds (i + 1) best' time')"

definition replace_index :: "tab_env \<Rightarrow> tab_strip \<Rightarrow> int" where
  "replace_index env s =
     (case contents_data s of
        [] \<Rightarrow> 0
      | d # ds \<Rightarrow> replace_index_from env ds 1 0 (last_visit_time d))"

subsection \<open>Inserting, replacing, detaching\<close>

definition ReplaceTabContentsAt :: "tab_strip \<Rightarrow> int \<Rightarrow> tab_id \<Rightarrow> (tab_id \<times> tab_strip) option" where
  "ReplaceTabContentsAt s index new_contents = do {
     old_contents \<leftarrow> GetContentsAt s index;
     let s1 = ForgetOpenersAndGroupsReferencing old_contents s;
     let s2 = update_data index (\<lambda>d. d\<lparr>contents := new_contents\<rparr>) s1;
     let s3 = emit (TabReplacedAt old_contents new_contents index) s2;
     s4 \<leftarrow> (if active_index s3 = index
            then notify_TabSelectedAt s3 (Some old_contents) (Some new_contents) False else Some s3);
     Some (old_contents, s4)
   }"

definition replace_at_limit :: "tab_env \<Rightarrow> tab_strip \<Rightarrow> tab_id \<Rightarrow> bool \<Rightarrow> tab_strip option" where
  "replace_at_limit env s c active_flag = do {
     let ri = replace_index env s;
     let selected_contents = GetSelectedTabContents s;
     (_, s1) \<leftarrow> ReplaceTabContentsAt s ri c;
     if active_flag then do {
       s2 \<leftarrow> select_index s1 ri;
       NotifyTabSelectedIfChanged env s2 selected_contents ri False
     } else Some s1
   }"

definition inherit_links :: "tab_strip \<Rightarrow> tab_data \<Rightarrow> 32 word \<Rightarrow> tab_data \<times> tab_strip" where
  "inherit_links s d add_types =
     (let sel = GetSelectedTabContents s;
          s' = (if has_flag add_types ADD_ACTIVE then ForgetAllOpeners s else s)
      in if has_flag add_types ADD_INHERIT_GROUP \<and> sel \<noteq> None then (SetGroup sel d, s')
         else if has_flag add_types ADD_INHERIT_OPENER \<and> sel \<noteq> None then (d\<lparr>opener := sel\<rparr>, s')
         else (d, s))"

definition insert_new_tab :: "tab_env \<Rightarrow> tab_strip \<Rightarrow> int \<Rightarrow> tab_id \<Rightarrow> 32 word \<Rightarrow> tab_strip option" where
  "insert_new_tab env s index0 c add_types = do {
     let active_flag = has_flag add_types ADD_ACTIVE;
     let pin = (is_app env c \<or> has_flag add_types ADD_PINNED);
     let index = ConstrainInsertionIndex env s index0 pin;
     let s1 = s\<lparr>closing_all := False\<rparr>;
     let selected_contents = GetSelectedTabContents s1;
     let (d, s2) = inherit_links s1 ((new_tab_data c)\<lparr>pinned := pin\<rparr>) add_types;
     let s3 = s2\<lparr>contents_data := insert_at (nat index) d (contents_data s2),
                 selection_model := IncrementFrom (selection_model s2) index\<rparr>;
     let s4 = emit (TabInsertedAt c index active_flag) s3;
     if active_flag then do {
       s5 \<leftarrow> select_index s4 index;
       NotifyTabSelectedIfChanged env s5 selected_contents index False
     } else Some s4
   }"

definition InsertTabContentsAt ::
  "tab_env \<Rightarrow> tab_strip \<Rightarrow> int \<Rightarrow> tab_id \<Rightarrow> 32 word \<Rightarrow> tab_strip option" where
  "InsertTabContentsAt env s index c add_types =
     (if url_scheme env c \<noteq> ''chrome'' \<and> url_scheme env c \<noteq> ''chrome-extension''
         \<and> IsReachTabsLimit env s
      then replace_at_limit env s c (has_flag add_types ADD_ACTIVE)
      else insert_new_tab env s index c add_types)"

definition AppendTabContents :: "tab_env \<Rightarrow> tab_strip \<Rightarrow> tab_id \<Rightarrow> bool \<Rightarrow> tab_strip option" where
  "AppendTabContents env s c foreground =
     InsertTabContentsAt env s (DetermineInsertionIndexForAppending s) c
       (if foreground then ADD_INHERIT_GROUP OR ADD_ACTIVE else ADD_NONE)"

text \<open>The selection after the tab at \<open>index\<close> has been taken out of a strip that is not empty.\<close>

definition reselect_after_detach ::
  "tab_env \<Rightarrow> tab_strip \<Rightarrow> int \<Rightarrow> tab_id \<Rightarrow> int \<Rightarrow> tab_strip option" where
  "reselect_after_detach env s index removed next_selected_index =
     (let old_active = active_index s;
          sel = DecrementFrom (selection_model s) index;
          s1 = set_selection s sel
      in if index = old_active then
           (case selected_indices sel of
              first # _ \<Rightarrow>
                NotifyTabSelectedIfChanged env (set_selection s1 (sel\<lparr>active := first, anchor := first\<rparr>))
                  (Some removed) first False
            | [] \<Rightarrow> do {
                s2 \<leftarrow> select_index s1 next_selected_index;
                NotifyTabSelectedIfChanged env s2 (Some removed) next_selected_index False
              })
         else Some s1)"

definition DetachTabContentsAt ::
  "tab_env \<Rightarrow> tab_strip \<Rightarrow> int \<Rightarrow> (tab_id option \<times> tab_strip) option" where
  "DetachTabContentsAt env s index =
     (if contents_data s = [] then Some (None, s)
      else do {
        removed \<leftarrow> GetContentsAt s index;
        next_selected_index \<leftarrow> DetermineNewSelectedIndex s index;
        let s1 = s\<lparr>contents_data := erase_at (nat index) (contents_data s)\<rparr>;
        let s2 = ForgetOpenersAndGroupsReferencing removed s1;
        let s3 = (if contents_data s2 = [] then s2\<lparr>closing_all := True\<rparr> else s2);
        let s4 = emit (TabDetachedAt removed index) s3;
        s5 \<leftarrow> (if contents_data s4 = [] then Some (emit TabStripEmpty s4)
               else reselect_after_detach env s4 index removed next_selected_index);
        Some (Some removed, s5)
      })"

definition ActivateTabAt :: "tab_strip \<Rightarrow> int \<Rightarrow> bool \<Rightarrow> tab_strip option" where
  "ActivateTabAt s index user_gesture = do {
     let had_multi = (length (selected_indices (selection_model s)) > 1);
     let old_contents = (if active_index s = kUnselectedIndex then None else GetSelectedTabContents s);
     s1 \<leftarrow> select_index s index;
     new_contents \<leftarrow> GetContentsAt s1 index;
     let s2 = (case old_contents of
                 None \<Rightarrow> s1
               | Some oc \<Rightarrow> if oc \<noteq> new_contents then emit (TabDeselected oc) s1 else s1);
     if old_contents \<noteq> Some new_contents \<or> had_multi
     then notify_TabSelectedAt s2 old_contents (Some new_contents) user_gesture
     else Some s2
   }"

end
