(* ===== verification/AsciiText.thy ===== *)
theory AsciiText
  imports Prelude
begin

text \<open>
  The ASCII helpers of \<open>src/base/string_util.h\<close> and \<open>src/base/string_util.cc\<close> that several
  components call. A C++ \<open>std::string\<close> is a list of characters; the C string it is compared with
  is the list of its characters before the terminating zero.
\<close>

definition ToLowerASCII :: "char \<Rightarrow> char" where
  "ToLowerASCII c =
    (if 65 \<le> (of_char c :: nat) \<and> (of_char c :: nat) \<le> 90 then char_of (of_char c + 32 :: nat) else c)"

fun LowerCaseEqualsASCII :: "string \<Rightarrow> string \<Rightarrow> bool" where
  "LowerCaseEqualsASCII [] b = (b = [])"
| "LowerCaseEqualsASCII (x # a) [] = False"
| "LowerCaseEqualsASCII (x # a) (y # b) =
    (if ToLowerASCII x \<noteq> y then False else LowerCaseEqualsASCII a b)"

lemma LowerCaseEqualsASCII_map: "LowerCaseEqualsASCII a b \<longleftrightarrow> map ToLowerASCII a = b"
  by (induction a b rule: LowerCaseEqualsASCII.induct) auto

lemma ToLowerASCII_idem: "ToLowerASCII (ToLowerASCII c) = ToLowerASCII c"
  by (simp add: ToLowerASCII_def)

text \<open>The scheme of a page shown as its source (\<open>chrome/common/url_constants.cc\<close>), which both the
  navigation entries and the security policy test.\<close>

definition kViewSourceScheme :: string where "kViewSourceScheme = ''view-source''"

end
