(* ===== verification/TabStripOps.thy ===== *)
theory TabStripOps
  imports TabStrip AsciiText
begin

text \<open>
  The rest of \<open>TabStripModel\<close> (\<open>chrome/browser/tabs/tab_strip_model.cc\<close>): moving and pinning,
  phantom tabs, closing, the selection commands and the context menu.
\<close>

subsection \<open>Moving\<close>

text \<open>\<open>IsSelected\<close> is given the flag itself, which converts to the index 0 or 1.\<close>

definition MoveTabContentsAtImpl :: "tab_strip \<Rightarrow> int \<Rightarrow> int \<Rightarrow> bool \<Rightarrow> tab_strip option" where
  "MoveTabContentsAtImpl s index to_position select_after_move = do {
     moved_data \<leftarrow> vec_at (contents_data s) index;
     if ContainsIndex s to_position then do {
       let s1 = s\<lparr>contents_data := insert_at (nat to_position) moved_data
                                    (erase_at (nat index) (contents_data s)),
                  selection_model := Move (selection_model s) index to_position\<rparr>;
       s2 \<leftarrow> (if \<not> IsSelected (selection_model s1) (of_bool select_after_move) \<and> select_after_move
              then select_index s1 to_position else Some s1);
       Some (emit (TabMoved (contents moved_data) index to_position) s2)
     } else None
   }"

definition MoveTabContentsAt :: "tab_env \<Rightarrow> tab_strip \<Rightarrow> int \<Rightarrow> int \<Rightarrow> bool \<Rightarrow> tab_strip option" where
  "MoveTabContentsAt env s index to_position select_after_move =
     (if index = to_position then Some s
      else let first_non_mini_tab = IndexOfFirstNonMiniTab env s
           in if (index < first_non_mini_tab \<and> to_position \<ge> first_non_mini_tab) \<or>
                 (to_position < first_non_mini_tab \<and> index \<ge> first_non_mini_tab)
              then Some s
              else MoveTabContentsAtImpl s index to_position select_after_move)"

fun count_before_index :: "int list \<Rightarrow> int \<Rightarrow> int \<Rightarrow> int" where
  "count_before_index [] index n = n"
| "count_before_index (v # vs) index n =
     (if v < index + n then count_before_index vs index (n + 1) else n)"

text \<open>The first loop; the second result is how many of the tabs are still to be moved.\<close>

fun move_those_before ::
  "tab_env \<Rightarrow> tab_strip \<Rightarrow> int \<Rightarrow> int \<Rightarrow> nat \<Rightarrow> nat \<Rightarrow> (tab_strip \<times> nat) option" where
  "move_those_before env s index target start 0 = Some (s, 0)"
| "move_those_before env s index target start (Suc left) = do {
     v \<leftarrow> vec_at (selected_indices (selection_model s)) (int start);
     if v < index then do {
       s' \<leftarrow> MoveTabContentsAt env s v (target - 1) False;
       move_those_before env s' index target start left
     } else Some (s, Suc left)
   }"

fun move_those_after :: "tab_env \<Rightarrow> tab_strip \<Rightarrow> int \<Rightarrow> nat \<Rightarrow> nat \<Rightarrow> tab_strip option" where
  "move_those_after env s target tab_index 0 = Some s"
| "move_those_after env s target tab_index (Suc left) = do {
     v \<leftarrow> vec_at (selected_indices (selection_model s)) (int tab_index);
     s' \<leftarrow> (if v \<noteq> target then MoveTabContentsAt env s v target False else Some s);
     move_those_after env s' (target + 1) (Suc tab_index) left
   }"

definition MoveSelectedTabsToImpl ::
  "tab_env \<Rightarrow> tab_strip \<Rightarrow> int \<Rightarrow> nat \<Rightarrow> nat \<Rightarrow> tab_strip option" where
  "MoveSelectedTabsToImpl env s index start len = do {
     let target_index = index + count_before_index
           (take len (drop start (selected_indices (selection_model s)))) index 0;
     (s1, left) \<leftarrow> move_those_before env s index target_index start len;
     move_those_after env s1 target_index (start + len - left) left
   }"

fun leading_minis :: "tab_env \<Rightarrow> tab_strip \<Rightarrow> int list \<Rightarrow> nat option" where
  "leading_minis env s [] = Some 0"
| "leading_minis env s (v # vs) = do {
     m \<leftarrow> IsMiniTab env s v;
     if m then map_option Suc (leading_minis env s vs) else Some 0
   }"

definition MoveSelectedTabsTo :: "tab_env \<Rightarrow> tab_strip \<Rightarrow> int \<Rightarrow> tab_strip option" where
  "MoveSelectedTabsTo env s index = do {
     let total_mini_count = IndexOfFirstNonMiniTab env s;
     let selected_count = length (selected_indices (selection_model s));
     selected_mini_count \<leftarrow> leading_minis env s (selected_indices (selection_model s));
     let limit = total_mini_count - int selected_mini_count;
     s1 \<leftarrow> (if selected_mini_count > 0
            then MoveSelectedTabsToImpl env s (min limit index) 0 selected_mini_count else Some s);
     let index' = (if selected_mini_count > 0 \<and> index > limit
                   then index + int selected_mini_count else index);
     if selected_mini_count = selected_count then Some s1
     else MoveSelectedTabsToImpl env s1 (max index' total_mini_count) selected_mini_count
            (selected_count - selected_mini_count)
   }"

definition MoveTabNext :: "tab_env \<Rightarrow> tab_strip \<Rightarrow> tab_strip option" where
  "MoveTabNext env s =
     MoveTabContentsAt env s (active_index s) (min (active_index s + 1) (count s - 1)) True"

definition MoveTabPrevious :: "tab_env \<Rightarrow> tab_strip \<Rightarrow> tab_strip option" where
  "MoveTabPrevious env s =
     MoveTabContentsAt env s (active_index s) (max (active_index s - 1) 0) True"

subsection \<open>Tab states\<close>

definition SetTabBlocked :: "tab_strip \<Rightarrow> int \<Rightarrow> bool \<Rightarrow> tab_strip option" where
  "SetTabBlocked s index b = do {
     d \<leftarrow> vec_at (contents_data s) index;
     if blocked d = b then Some s
     else Some (emit (TabBlockedStateChanged (contents d) index)
                     (update_data index (\<lambda>d. d\<lparr>blocked := b\<rparr>) s))
   }"

definition SetTabPinned :: "tab_env \<Rightarrow> tab_strip \<Rightarrow> int \<Rightarrow> bool \<Rightarrow> tab_strip option" where
  "SetTabPinned env s index pin = do {
     d \<leftarrow> vec_at (contents_data s) index;
     if pinned d = pin then Some s
     else if IsAppTab env s index then
       (if \<not> pin then Some s
        else Some (emit (TabPinnedStateChanged (contents d) index)
                        (update_data index (\<lambda>d. d\<lparr>pinned := pin\<rparr>) s)))
     else do {
       let non_mini_tab_index = IndexOfFirstNonMiniTab env s;
       let s1 = update_data index (\<lambda>d. d\<lparr>pinned := pin\<rparr>) s;
       (s2, index') \<leftarrow>
         (if pin \<and> index \<noteq> non_mini_tab_index
          then map_option (\<lambda>t. (t, non_mini_tab_index))
                 (MoveTabContentsAtImpl s1 index non_mini_tab_index False)
          else if \<not> pin \<and> index + 1 \<noteq> non_mini_tab_index
          then map_option (\<lambda>t. (t, non_mini_tab_index - 1))
                 (MoveTabContentsAtImpl s1 index (non_mini_tab_index - 1) False)
          else Some (s1, index));
       c \<leftarrow> GetContentsAt s2 index';
       Some (emit (TabPinnedStateChanged c index') (emit (TabMiniStateChanged c index') s2))
     }
   }"

definition UpdateTabContentsStateAt :: "tab_strip \<Rightarrow> int \<Rightarrow> tab_strip option" where
  "UpdateTabContentsStateAt s index = do {
     c \<leftarrow> GetContentsAt s index;
     Some (emit (TabChangedAt c index) s)
   }"

definition IsNewTabAtEndOfTabStrip :: "tab_env \<Rightarrow> tab_strip \<Rightarrow> tab_id \<Rightarrow> bool option" where
  "IsNewTabAtEndOfTabStrip env s c =
     (if LowerCaseEqualsASCII (url_spec env c) kChromeUINewTabURL then do {
        last_contents \<leftarrow> GetContentsAt s (count s - 1);
        Some (c = last_contents \<and> entry_count env c = 1)
      } else Some False)"

definition TabNavigating :: "tab_env \<Rightarrow> tab_strip \<Rightarrow> tab_id \<Rightarrow> 32 word \<Rightarrow> tab_strip option" where
  "TabNavigating env s c transition =
     (if ShouldForgetOpenersForTransition transition then do {
        new_tab \<leftarrow> IsNewTabAtEndOfTabStrip env s c;
        if \<not> new_tab then ForgetGroup (ForgetAllOpeners s) c else Some s
      } else Some s)"

definition AddTabContents ::
  "tab_env \<Rightarrow> tab_strip \<Rightarrow> tab_id \<Rightarrow> int \<Rightarrow> 32 word \<Rightarrow> 32 word \<Rightarrow> tab_strip option" where
  "AddTabContents env s c index0 transition add_types = do {
     let is_link = (transition = LINK \<and> add_types AND ADD_FORCE_INDEX = 0);
     index \<leftarrow> (if is_link
               then DetermineInsertionIndex s transition (has_flag add_types ADD_ACTIVE)
               else if index0 < 0 \<or> index0 > count s
               then Some (DetermineInsertionIndexForAppending s) else Some index0);
     let inherit_group = (is_link \<or> add_types AND ADD_INHERIT_GROUP = ADD_INHERIT_GROUP \<or>
                          (transition = TYPED \<and> index = count s));
     s1 \<leftarrow> InsertTabContentsAt env s index c
             (add_types OR (if inherit_group then ADD_INHERIT_GROUP else 0));
     let new_index = GetIndexOfTabContents s1 c;
     s2 \<leftarrow> (if inherit_group \<and> transition = TYPED
            then (if ContainsIndex s1 new_index
                  then Some (update_data new_index (\<lambda>d. d\<lparr>reset_group_on_select := True\<rparr>) s1)
                  else None)
            else Some s1);
     if GetSelectedTabContents s2 \<noteq> None \<and> add_types AND ADD_ACTIVE = 0
     then Some (emit (TabHidden c) s2) else Some s2
   }"

subsection \<open>Selection commands\<close>

definition ExtendSelectionTo :: "tab_strip \<Rightarrow> int \<Rightarrow> tab_strip option" where
  "ExtendSelectionTo s index = do {
     sel \<leftarrow> SetSelectionFromAnchorTo (selection_model s) index;
     NotifySelectionChanged (set_selection s sel) (active_index s)
   }"

definition ToggleSelectionAt :: "tab_strip \<Rightarrow> int \<Rightarrow> tab_strip option" where
  "ToggleSelectionAt s index =
     (let sel = selection_model s; old_active = active_index s
      in if IsSelected sel index then
           (if length (selected_indices sel) = 1 then Some s
            else do {
              let sel1 = (RemoveIndexFromSelection sel index)\<lparr>anchor := index\<rparr>;
              sel2 \<leftarrow> (if active sel1 = kUnselectedIndex
                       then (case selected_indices sel1 of
                               [] \<Rightarrow> None | first # _ \<Rightarrow> Some (sel1\<lparr>active := first\<rparr>))
                       else Some sel1);
              NotifySelectionChanged (set_selection s sel2) old_active
            })
         else NotifySelectionChanged
                (set_selection s ((AddIndexToSelection sel index)\<lparr>anchor := index, active := index\<rparr>))
                old_active)"

definition strip_AddSelectionFromAnchorTo :: "tab_strip \<Rightarrow> int \<Rightarrow> tab_strip option" where
  "strip_AddSelectionFromAnchorTo s index = do {
     sel \<leftarrow> AddSelectionFromAnchorTo (selection_model s) index;
     NotifySelectionChanged (set_selection s sel) (active_index s)
   }"

definition SetSelectionFromModel :: "tab_strip \<Rightarrow> sel_model \<Rightarrow> tab_strip option" where
  "SetSelectionFromModel s source =
     NotifySelectionChanged (set_selection s (Copy (selection_model s) source)) (active_index s)"

definition SelectRelativeTab :: "tab_strip \<Rightarrow> bool \<Rightarrow> tab_strip option" where
  "SelectRelativeTab s next_flag =
     (if contents_data s = [] then Some s
      else ActivateTabAt s
             (c_rem (active_index s + count s + (if next_flag then 1 else -1)) (count s)) True)"

definition SelectNextTab :: "tab_strip \<Rightarrow> tab_strip option" where
  "SelectNextTab s = SelectRelativeTab s True"

definition SelectPreviousTab :: "tab_strip \<Rightarrow> tab_strip option" where
  "SelectPreviousTab s = SelectRelativeTab s False"

definition SelectLastTab :: "tab_strip \<Rightarrow> tab_strip option" where
  "SelectLastTab s = ActivateTabAt s (count s - 1) True"

subsection \<open>Phantom tabs and closing\<close>

text \<open>The \<open>do ... while\<close> loop looks at every index once, from the clamped one on, cyclically.\<close>

definition IndexOfNextNonPhantomTab :: "tab_env \<Rightarrow> tab_strip \<Rightarrow> int \<Rightarrow> int \<Rightarrow> int" where
  "IndexOfNextNonPhantomTab env s index ignore_index =
     (if index = kNoTab then kNoTab
      else if contents_data s = [] then index
      else let start = min (count s - 1) (max 0 index)
           in case find (\<lambda>i. i \<noteq> ignore_index \<and> IsPhantomTab env s i = Some False)
                        (map (\<lambda>k. (start + k) mod count s) [0..count s - 1]) of
                Some i \<Rightarrow> i
              | None \<Rightarrow> start)"

definition ShouldMakePhantomOnClose :: "tab_env \<Rightarrow> tab_strip \<Rightarrow> int \<Rightarrow> bool option" where
  "ShouldMakePhantomOnClose env s index = do {
     d \<leftarrow> vec_at (contents_data s) index;
     Some (need_phantom d \<and> \<not> needs_reload env (contents d) \<and> \<not> closing_all s \<and> has_profile env)
   }"

definition MakePhantom :: "tab_env \<Rightarrow> tab_strip \<Rightarrow> int \<Rightarrow> tab_strip option" where
  "MakePhantom env s index = do {
     old_contents \<leftarrow> GetContentsAt s index;
     let new_contents = CloneAndMakePhantom env old_contents;
     let s1 = update_data index (\<lambda>d. d\<lparr>contents := new_contents\<rparr>) s;
     let s2 = emit (TabReplacedAt old_contents new_contents index) s1;
     s3 \<leftarrow> (if active_index s2 = index \<and> HasNonPhantomTabs env s2 then do {
              n \<leftarrow> DetermineNewSelectedIndex s2 index;
              ActivateTabAt s2 (IndexOfNextNonPhantomTab env s2 n index) True
            } else Some s2);
     Some (update_data index (\<lambda>d. d\<lparr>need_phantom := False\<rparr>) s3)
   }"

text \<open>\<open>Observe\<close>, for \<open>TAB_CONTENTS_DESTROYED\<close>.\<close>

definition Observe_destroyed :: "tab_env \<Rightarrow> tab_strip \<Rightarrow> tab_id \<Rightarrow> tab_strip option" where
  "Observe_destroyed env s c =
     (let index = GetWrapperIndex s c
      in if index \<noteq> kNoTab then do {
           phantom \<leftarrow> ShouldMakePhantomOnClose env s index;
           if phantom then MakePhantom env s index
           else map_option snd (DetachTabContentsAt env s index)
         } else Some s)"

definition InternalCloseTab :: "tab_env \<Rightarrow> tab_strip \<Rightarrow> tab_id \<Rightarrow> int \<Rightarrow> bool \<Rightarrow> tab_strip option" where
  "InternalCloseTab env s c index create_historical_tabs =
     (let s1 = emit (TabClosingAt c index) s;
          s2 = (if create_historical_tabs then emit (HistoricalTab c) s1 else s1)
      in Observe_destroyed env s2 c)"

fun close_each :: "tab_env \<Rightarrow> 32 word \<Rightarrow> tab_id list \<Rightarrow> bool \<Rightarrow> tab_strip \<Rightarrow> (bool \<times> tab_strip) option" where
  "close_each env close_types [] retval s = Some (retval, s)"
| "close_each env close_types (c # cs) retval s =
     (let index = GetIndexOfTabContents s c
      in if index = kNoTab then close_each env close_types cs retval s
         else if \<not> CanCloseContentsAt env s index then close_each env close_types cs False s
         else let s1 = (if \<not> closed_by_user_gesture s c
                        then s\<lparr>closed_by_user_gesture :=
                               (closed_by_user_gesture s)(c := has_flag close_types CLOSE_USER_GESTURE)\<rparr>
                        else s)
              in if RunUnloadListenerBeforeClosing env c then close_each env close_types cs False s1
                 else do {
                   s2 \<leftarrow> InternalCloseTab env s1 c index
                           (close_types AND CLOSE_CREATE_HISTORICAL_TAB \<noteq> 0);
                   close_each env close_types cs retval s2
                 })"

fun contents_of_indices :: "tab_strip \<Rightarrow> int list \<Rightarrow> tab_id list option" where
  "contents_of_indices s [] = Some []"
| "contents_of_indices s (i # is) = do {
     c \<leftarrow> GetContentsAt s i;
     cs \<leftarrow> contents_of_indices s is;
     Some (c # cs)
   }"

definition InternalCloseTabs ::
  "tab_env \<Rightarrow> tab_strip \<Rightarrow> int list \<Rightarrow> 32 word \<Rightarrow> (bool \<times> tab_strip) option" where
  "InternalCloseTabs env s indices close_types =
     (if indices = [] then Some (True, s)
      else do {
        tabs \<leftarrow> contents_of_indices s indices;
        close_each env close_types tabs True s
      })"

definition CloseAllTabs :: "tab_env \<Rightarrow> tab_strip \<Rightarrow> tab_strip option" where
  "CloseAllTabs env s =
     map_option snd (InternalCloseTabs env (s\<lparr>closing_all := True\<rparr>) (rev [0..count s - 1])
                       CLOSE_CREATE_HISTORICAL_TAB)"

definition CloseTabContentsAt :: "tab_env \<Rightarrow> tab_strip \<Rightarrow> int \<Rightarrow> 32 word \<Rightarrow> (bool \<times> tab_strip) option" where
  "CloseTabContentsAt env s index close_types = InternalCloseTabs env s [index] close_types"

definition CloseSelectedTabs :: "tab_env \<Rightarrow> tab_strip \<Rightarrow> tab_strip option" where
  "CloseSelectedTabs env s =
     map_option snd (InternalCloseTabs env s (selected_indices (selection_model s))
                       (CLOSE_CREATE_HISTORICAL_TAB OR CLOSE_USER_GESTURE))"

definition SetTabToPhantom :: "tab_env \<Rightarrow> tab_strip \<Rightarrow> int \<Rightarrow> tab_strip option" where
  "SetTabToPhantom env s index = do {
     d \<leftarrow> vec_at (contents_data s) index;
     if need_phantom d \<or> needs_reload env (contents d) then Some s
     else map_option snd
            (CloseTabContentsAt env (update_data index (\<lambda>d. d\<lparr>need_phantom := True\<rparr>) s) index
               (CLOSE_CREATE_HISTORICAL_TAB OR CLOSE_USER_GESTURE))
   }"

definition ReplaceNavigationControllerAt :: "tab_env \<Rightarrow> tab_strip \<Rightarrow> int \<Rightarrow> tab_id \<Rightarrow> tab_strip option" where
  "ReplaceNavigationControllerAt env s index c = do {
     s1 \<leftarrow> InsertTabContentsAt env s (index + 1) c (ADD_ACTIVE OR ADD_INHERIT_GROUP);
     map_option snd (InternalCloseTabs env s1 [index] CLOSE_NONE)
   }"

text \<open>\<open>Observe\<close>, for \<open>EXTENSION_UNLOADED\<close>: backwards over the strip as it is at each step.\<close>

fun unload_from :: "tab_env \<Rightarrow> nat \<Rightarrow> nat \<Rightarrow> tab_strip \<Rightarrow> tab_strip option" where
  "unload_from env ext 0 s = Some s"
| "unload_from env ext (Suc i) s = do {
     c \<leftarrow> GetTabContentsAt s (int i);
     s' \<leftarrow> (if extension_app env c = Some ext then InternalCloseTab env s c (int i) False else Some s);
     unload_from env ext i s'
   }"

definition Observe_extension_unloaded :: "tab_env \<Rightarrow> nat \<Rightarrow> tab_strip \<Rightarrow> tab_strip option" where
  "Observe_extension_unloaded env ext s = unload_from env ext (length (contents_data s)) s"

end
