(* ===== verification/TabMenu.thy ===== *)
theory TabMenu
  imports TabStripOps
begin

text \<open>
  The context menu of a tab (\<open>TabStripModel\<close>, \<open>chrome/browser/tabs/tab_strip_model.cc\<close>): which
  commands are enabled, which tabs a command applies to, and what it does.
\<close>

datatype menu_command =
    CommandNewTab | CommandReload | CommandDuplicate | CommandCloseTab | CommandCloseOtherTabs
  | CommandCloseTabsToRight | CommandRestoreTab | CommandTogglePinned | CommandBookmarkAllTabs
  | CommandUseVerticalTabs | CommandSelectByDomain | CommandSelectByOpener

definition GetIndicesForCommand :: "tab_strip \<Rightarrow> int \<Rightarrow> int list" where
  "GetIndicesForCommand s index =
     (if \<not> IsTabSelected s index then [index] else selected_indices (selection_model s))"

text \<open>The loop over the indices, each mini-tab test being on an index of the strip.\<close>

fun closed_indices :: "tab_env \<Rightarrow> tab_strip \<Rightarrow> int \<Rightarrow> bool \<Rightarrow> int list \<Rightarrow> int list option" where
  "closed_indices env s index sel [] = Some []"
| "closed_indices env s index sel (i # is) = do {
     rest \<leftarrow> closed_indices env s index sel is;
     if i = index then Some rest
     else do {
       m \<leftarrow> IsMiniTab env s i;
       if \<not> m \<and> (\<not> sel \<or> \<not> IsTabSelected s i) then Some (i # rest) else Some rest
     }
   }"

definition GetIndicesClosedByCommand :: "tab_env \<Rightarrow> tab_strip \<Rightarrow> int \<Rightarrow> menu_command \<Rightarrow> int list option" where
  "GetIndicesClosedByCommand env s index cmd =
     (let is_selected = IsTabSelected s index;
          start = (if cmd = CommandCloseTabsToRight then
                     (if is_selected then last (selected_indices (selection_model s)) + 1
                      else index + 1)
                   else 0)
      in closed_indices env s index is_selected (rev [start..count s - 1]))"

text \<open>\<open>all_pinned\<close>: the loop asks \<open>IsAppTab\<close> of the clicked tab, not of the tab it is at.\<close>

fun all_pinned_from :: "tab_env \<Rightarrow> tab_strip \<Rightarrow> int \<Rightarrow> int list \<Rightarrow> bool \<Rightarrow> bool option" where
  "all_pinned_from env s index [] all_pinned = Some all_pinned"
| "all_pinned_from env s index (i # is) all_pinned =
     (if \<not> all_pinned then Some all_pinned
      else if \<not> IsAppTab env s index then do {
        p \<leftarrow> IsTabPinned s i;
        all_pinned_from env s index is p
      } else all_pinned_from env s index is all_pinned)"

definition WillContextMenuPin :: "tab_env \<Rightarrow> tab_strip \<Rightarrow> int \<Rightarrow> bool option" where
  "WillContextMenuPin env s index =
     map_option Not (all_pinned_from env s index (GetIndicesForCommand s index) True)"

definition GetIndicesWithSameDomain :: "tab_env \<Rightarrow> tab_strip \<Rightarrow> int \<Rightarrow> int list option" where
  "GetIndicesWithSameDomain env s index = do {
     c \<leftarrow> GetTabContentsAt s index;
     let domain = url_host env c;
     if domain = [] then Some []
     else Some (filter (\<lambda>i. i \<noteq> index \<and> url_host env (contents (contents_data s ! nat i)) = domain)
                       [0..count s - 1])
   }"

definition GetIndicesWithSameOpener :: "tab_strip \<Rightarrow> int \<Rightarrow> int list option" where
  "GetIndicesWithSameOpener s index = do {
     d \<leftarrow> vec_at (contents_data s) index;
     let op = (case group d of None \<Rightarrow> contents d | Some g \<Rightarrow> g);
     Some (filter (\<lambda>i. i \<noteq> index \<and> (group (contents_data s ! nat i) = Some op \<or>
                                        contents (contents_data s ! nat i) = op))
                  [0..count s - 1])
   }"

definition can_reload_at :: "tab_env \<Rightarrow> tab_strip \<Rightarrow> int \<Rightarrow> bool" where
  "can_reload_at env s i =
     (case GetTabContentsAt s i of None \<Rightarrow> False | Some c \<Rightarrow> CanReloadContents env c)"

fun IsContextMenuCommandEnabled :: "tab_env \<Rightarrow> bool \<Rightarrow> tab_strip \<Rightarrow> int \<Rightarrow> menu_command \<Rightarrow> bool option" where
  "IsContextMenuCommandEnabled env bookmarks_enabled s ci CommandNewTab = Some True"
| "IsContextMenuCommandEnabled env bookmarks_enabled s ci CommandCloseTab = Some (CanCloseTab env s)"
| "IsContextMenuCommandEnabled env bookmarks_enabled s ci CommandReload =
     Some (list_ex (can_reload_at env s) (GetIndicesForCommand s ci))"
| "IsContextMenuCommandEnabled env bookmarks_enabled s ci CommandCloseOtherTabs =
     map_option (\<lambda>is. is \<noteq> []) (GetIndicesClosedByCommand env s ci CommandCloseOtherTabs)"
| "IsContextMenuCommandEnabled env bookmarks_enabled s ci CommandCloseTabsToRight =
     map_option (\<lambda>is. is \<noteq> []) (GetIndicesClosedByCommand env s ci CommandCloseTabsToRight)"
| "IsContextMenuCommandEnabled env bookmarks_enabled s ci CommandDuplicate =
     Some (list_ex (CanDuplicateContentsAt env s) (GetIndicesForCommand s ci))"
| "IsContextMenuCommandEnabled env bookmarks_enabled s ci CommandRestoreTab = Some (CanRestoreTab env)"
| "IsContextMenuCommandEnabled env bookmarks_enabled s ci CommandTogglePinned =
     Some (list_ex (\<lambda>i. \<not> IsAppTab env s i) (GetIndicesForCommand s ci))"
| "IsContextMenuCommandEnabled env bookmarks_enabled s ci CommandBookmarkAllTabs =
     Some (bookmarks_enabled \<and> CanBookmarkAllTabs env)"
| "IsContextMenuCommandEnabled env bookmarks_enabled s ci CommandUseVerticalTabs = Some True"
| "IsContextMenuCommandEnabled env bookmarks_enabled s ci CommandSelectByDomain = Some True"
| "IsContextMenuCommandEnabled env bookmarks_enabled s ci CommandSelectByOpener = Some True"

fun IsContextMenuCommandChecked :: "tab_env \<Rightarrow> menu_command \<Rightarrow> bool" where
  "IsContextMenuCommandChecked env CommandUseVerticalTabs = UseVerticalTabs env"
| "IsContextMenuCommandChecked env _ = False"

text \<open>The loops of \<open>ExecuteContextMenuCommand\<close>.\<close>

fun reload_each :: "tab_env \<Rightarrow> int list \<Rightarrow> tab_strip \<Rightarrow> tab_strip" where
  "reload_each env [] s = s"
| "reload_each env (i # is) s =
     reload_each env is
       (case GetTabContentsAt s i of
          None \<Rightarrow> s
        | Some c \<Rightarrow> if CanReloadContents env c then emit (TabReloaded c) s else s)"

fun duplicate_each :: "tab_env \<Rightarrow> tab_id option list \<Rightarrow> tab_strip \<Rightarrow> tab_strip option" where
  "duplicate_each env [] s = Some s"
| "duplicate_each env (t # ts) s =
     (let index = (case t of None \<Rightarrow> -1 | Some c \<Rightarrow> GetIndexOfTabContents s c)
      in do {
        s' \<leftarrow> (if index \<noteq> -1 \<and> CanDuplicateContentsAt env s index
               then DuplicateContentsAt env s index else Some s);
        duplicate_each env ts s'
      })"

fun close_tabs_while_allowed :: "tab_env \<Rightarrow> tab_id option list \<Rightarrow> tab_strip \<Rightarrow> tab_strip option" where
  "close_tabs_while_allowed env [] s = Some s"
| "close_tabs_while_allowed env (t # ts) s =
     (if \<not> CanCloseTab env s then Some s
      else let index = (case t of None \<Rightarrow> -1 | Some c \<Rightarrow> GetIndexOfTabContents s c)
           in do {
             s' \<leftarrow> (if index \<noteq> -1
                    then map_option snd (CloseTabContentsAt env s index
                           (CLOSE_CREATE_HISTORICAL_TAB OR CLOSE_USER_GESTURE))
                    else Some s);
             close_tabs_while_allowed env ts s'
           })"

fun set_pinned_each :: "tab_env \<Rightarrow> bool \<Rightarrow> int list \<Rightarrow> tab_strip \<Rightarrow> tab_strip option" where
  "set_pinned_each env pin [] s = Some s"
| "set_pinned_each env pin (i # is) s = do {
     s' \<leftarrow> (if \<not> IsAppTab env s i then SetTabPinned env s i pin else Some s);
     set_pinned_each env pin is s'
   }"

definition select_with :: "tab_strip \<Rightarrow> int \<Rightarrow> int list \<Rightarrow> tab_strip option" where
  "select_with s context_index indices = do {
     sel \<leftarrow> SetSelectedIndex empty_selection context_index;
     SetSelectionFromModel s (foldl AddIndexToSelection sel indices)
   }"

fun ExecuteContextMenuCommand :: "tab_env \<Rightarrow> tab_strip \<Rightarrow> int \<Rightarrow> menu_command \<Rightarrow> tab_strip option" where
  "ExecuteContextMenuCommand env s ci CommandNewTab = Some (emit (AddBlankTabAt (ci + 1) True) s)"
| "ExecuteContextMenuCommand env s ci CommandReload =
     Some (reload_each env (GetIndicesForCommand s ci) s)"
| "ExecuteContextMenuCommand env s ci CommandDuplicate =
     duplicate_each env (map (GetTabContentsAt s) (GetIndicesForCommand s ci)) s"
| "ExecuteContextMenuCommand env s ci CommandCloseTab =
     close_tabs_while_allowed env (map (GetTabContentsAt s) (GetIndicesForCommand s ci)) s"
| "ExecuteContextMenuCommand env s ci CommandCloseOtherTabs = do {
     is \<leftarrow> GetIndicesClosedByCommand env s ci CommandCloseOtherTabs;
     map_option snd (InternalCloseTabs env s is CLOSE_CREATE_HISTORICAL_TAB)
   }"
| "ExecuteContextMenuCommand env s ci CommandCloseTabsToRight = do {
     is \<leftarrow> GetIndicesClosedByCommand env s ci CommandCloseTabsToRight;
     map_option snd (InternalCloseTabs env s is CLOSE_CREATE_HISTORICAL_TAB)
   }"
| "ExecuteContextMenuCommand env s ci CommandRestoreTab = Some (emit RestoreTab s)"
| "ExecuteContextMenuCommand env s ci CommandTogglePinned = do {
     let indices = GetIndicesForCommand s ci;
     pin \<leftarrow> WillContextMenuPin env s ci;
     set_pinned_each env pin (if pin then indices else rev indices) s
   }"
| "ExecuteContextMenuCommand env s ci CommandBookmarkAllTabs = Some (emit BookmarkAllTabs s)"
| "ExecuteContextMenuCommand env s ci CommandUseVerticalTabs = Some (emit ToggleUseVerticalTabs s)"
| "ExecuteContextMenuCommand env s ci CommandSelectByDomain = do {
     is \<leftarrow> GetIndicesWithSameDomain env s ci;
     select_with s ci is
   }"
| "ExecuteContextMenuCommand env s ci CommandSelectByOpener = do {
     is \<leftarrow> GetIndicesWithSameOpener s ci;
     select_with s ci is
   }"

end
