(* ===== verification/TabInv.thy ===== *)
theory TabInv
  imports TabMenu
begin

text \<open>
  What every operation of the tab strip keeps: the invariant \<open>strip_wf\<close>, the order in which
  updates may lose opener links (\<open>loses_links\<close>), and the contract of the order controller.
\<close>

subsection \<open>Updates that only lose links\<close>

definition core :: "tab_data \<Rightarrow> tab_data" where
  "core d = d\<lparr>group := None, opener := None\<rparr>"

definition weaker :: "tab_data \<Rightarrow> tab_data \<Rightarrow> bool" where
  "weaker d e \<longleftrightarrow> core e = core d \<and> (opener e = None \<or> opener e = opener d) \<and>
                 (group e = None \<or> group e = group d)"

definition loses_links :: "tab_strip \<Rightarrow> tab_strip \<Rightarrow> bool" where
  "loses_links s t \<longleftrightarrow> list_all2 weaker (contents_data s) (contents_data t) \<and>
     t\<lparr>contents_data := []\<rparr> = s\<lparr>contents_data := []\<rparr>"

lemma weaker_refl [simp]: "weaker d d"
  by (simp add: weaker_def)

lemma weaker_trans: "weaker d e \<Longrightarrow> weaker e f \<Longrightarrow> weaker d f"
  by (auto simp: weaker_def)

lemma weaker_core:
  assumes "weaker d e"
  shows "contents e = contents d" "pinned e = pinned d" "blocked e = blocked d"
    "need_phantom e = need_phantom d" "reset_group_on_select e = reset_group_on_select d"
    "last_visit_time e = last_visit_time d"
proof -
  have c: "core e = core d" using assms by (simp add: weaker_def)
  show "contents e = contents d" using arg_cong [OF c, of contents] by (simp add: core_def)
  show "pinned e = pinned d" using arg_cong [OF c, of pinned] by (simp add: core_def)
  show "blocked e = blocked d" using arg_cong [OF c, of blocked] by (simp add: core_def)
  show "need_phantom e = need_phantom d" using arg_cong [OF c, of need_phantom] by (simp add: core_def)
  show "reset_group_on_select e = reset_group_on_select d"
    using arg_cong [OF c, of reset_group_on_select] by (simp add: core_def)
  show "last_visit_time e = last_visit_time d"
    using arg_cong [OF c, of last_visit_time] by (simp add: core_def)
qed

lemma loses_links_refl [simp]: "loses_links s s"
  by (simp add: loses_links_def list_all2_refl)

lemma loses_links_trans: "loses_links s t \<Longrightarrow> loses_links t u \<Longrightarrow> loses_links s u"
  unfolding loses_links_def list_all2_conv_all_nth by (metis weaker_trans)

lemma loses_links_fields:
  assumes "loses_links s t"
  shows "selection_model t = selection_model s" "events t = events s" "policy t = policy s"
    "closing_all t = closing_all s" "tabs_limit t = tabs_limit s"
    "closed_by_user_gesture t = closed_by_user_gesture s"
    "length (contents_data t) = length (contents_data s)"
    "map contents (contents_data t) = map contents (contents_data s)"
    "map pinned (contents_data t) = map pinned (contents_data s)"
    "count t = count s" "active_index t = active_index s"
proof -
  have eq: "t\<lparr>contents_data := []\<rparr> = s\<lparr>contents_data := []\<rparr>"
    and l: "list_all2 weaker (contents_data s) (contents_data t)"
    using assms by (auto simp: loses_links_def)
  show "selection_model t = selection_model s" using arg_cong [OF eq, of selection_model] by simp
  then show "active_index t = active_index s" by (simp add: active_index_def)
  show "events t = events s" using arg_cong [OF eq, of events] by simp
  show "policy t = policy s" using arg_cong [OF eq, of policy] by simp
  show "closing_all t = closing_all s" using arg_cong [OF eq, of closing_all] by simp
  show "tabs_limit t = tabs_limit s" using arg_cong [OF eq, of tabs_limit] by simp
  show "closed_by_user_gesture t = closed_by_user_gesture s"
    using arg_cong [OF eq, of closed_by_user_gesture] by simp
  show len: "length (contents_data t) = length (contents_data s)"
    using l by (simp add: list_all2_lengthD)
  then show "count t = count s" by (simp add: count_def)
  show "map contents (contents_data t) = map contents (contents_data s)"
    "map pinned (contents_data t) = map pinned (contents_data s)"
    using l by (auto simp: list_eq_iff_nth_eq list_all2_conv_all_nth weaker_core)
qed

lemma loses_links_mapI:
  "(\<And>d. d \<in> set (contents_data s) \<Longrightarrow> weaker d (f d)) \<Longrightarrow>
   loses_links s (s\<lparr>contents_data := map f (contents_data s)\<rparr>)"
  by (simp add: loses_links_def list_all2_conv_all_nth)

lemma loses_links_ForgetAllOpeners: "loses_links s (ForgetAllOpeners s)"
  unfolding ForgetAllOpeners_def by (rule loses_links_mapI) (simp add: weaker_def core_def ForgetOpener_def)

lemma weaker_forget_referencing: "weaker d (forget_referencing c d)"
  by (simp add: forget_referencing_def weaker_def core_def Let_def)

lemma loses_links_ForgetReferencing: "loses_links s (ForgetOpenersAndGroupsReferencing c s)"
  unfolding ForgetOpenersAndGroupsReferencing_def
  by (rule loses_links_mapI) (rule weaker_forget_referencing)

lemma loses_links_update:
  assumes "\<And>d. weaker d (f d)"
  shows "loses_links s (update_data i f s)"
  using assms by (auto simp: loses_links_def update_data_def list_all2_conv_all_nth nth_list_update_at)

lemma loses_links_ForgetGroup: "ForgetGroup s c = Some t \<Longrightarrow> loses_links s t"
  by (auto simp: ForgetGroup_def Let_def split: if_splits
           intro!: loses_links_update simp: weaker_def core_def ForgetOpener_def SetGroup_def)

lemma loses_links_old_tab_links: "old_tab_links s old = Some (oo, t) \<Longrightarrow> loses_links s t"
  by (auto simp: old_tab_links_def Let_def bind_eq_Some_conv split: option.splits if_splits
           dest: loses_links_ForgetGroup)

lemma loses_links_order:
  assumes "order_TabSelectedAt s old new i g = Some t"
  shows "loses_links s t"
proof (cases "old = new")
  case True
  with assms show ?thesis by (simp add: order_TabSelectedAt_def)
next
  case False
  with assms obtain oo s1 where s1: "old_tab_links s old = Some (oo, s1)"
    and t: "t = s1 \<or> t = ForgetAllOpeners s1"
    by (auto simp: order_TabSelectedAt_def bind_eq_Some_conv split: if_splits)
  from s1 have "loses_links s s1" by (rule loses_links_old_tab_links)
  with t show ?thesis by (auto intro: loses_links_trans loses_links_ForgetAllOpeners)
qed

subsection \<open>The invariant\<close>

text \<open>
  The tabs are distinct, an app tab is pinned, the pinned tabs come first, no tab is its own opener,
  and the selection of a strip that is not empty is inside it.
\<close>

definition pinned_first :: "bool list \<Rightarrow> bool" where
  "pinned_first ps \<longleftrightarrow> sorted_wrt (\<lambda>p q. q \<longrightarrow> p) ps"

definition tabs_wf :: "tab_env \<Rightarrow> tab_data list \<Rightarrow> bool" where
  "tabs_wf env ds \<longleftrightarrow> distinct (map contents ds) \<and>
     (\<forall>d \<in> set ds. is_app env (contents d) \<longrightarrow> pinned d) \<and>
     (\<forall>d \<in> set ds. opener d \<noteq> Some (contents d)) \<and> pinned_first (map pinned ds)"

definition strip_wf :: "tab_env \<Rightarrow> tab_strip \<Rightarrow> bool" where
  "strip_wf env s \<longleftrightarrow> tabs_wf env (contents_data s) \<and>
     (contents_data s \<noteq> [] \<longrightarrow> sel_wf (count s) (selection_model s))"

text \<open>A tab that is neither in the strip nor anybody's opener.\<close>

definition fresh_tab :: "tab_strip \<Rightarrow> tab_id \<Rightarrow> bool" where
  "fresh_tab s c \<longleftrightarrow> (\<forall>d \<in> set (contents_data s). contents d \<noteq> c \<and> opener d \<noteq> Some c)"

lemma tabs_wf_weaker:
  assumes "tabs_wf env ds" "list_all2 weaker ds es"
  shows "tabs_wf env es"
proof -
  have eqs: "map contents es = map contents ds" "map pinned es = map pinned ds"
    using assms(2) by (auto simp: list_eq_iff_nth_eq list_all2_conv_all_nth weaker_core)
  have "(is_app env (contents e) \<longrightarrow> pinned e) \<and> opener e \<noteq> Some (contents e)" if "e \<in> set es" for e
  proof -
    from that obtain i where i: "i < length es" "e = es ! i" by (auto simp: in_set_conv_nth)
    with assms(2) have w: "weaker (ds ! i) e" "ds ! i \<in> set ds"
      by (auto simp: list_all2_conv_all_nth)
    from w(1) have "opener e = None \<or> opener e = opener (ds ! i)" by (simp add: weaker_def)
    moreover have "is_app env (contents (ds ! i)) \<longrightarrow> pinned (ds ! i)"
      "opener (ds ! i) \<noteq> Some (contents (ds ! i))"
      using assms(1) w(2) by (auto simp: tabs_wf_def)
    ultimately show ?thesis using weaker_core(1,2) [OF w(1)] by auto
  qed
  with assms(1) eqs show ?thesis by (simp add: tabs_wf_def)
qed

lemma strip_wf_loses_links:
  assumes "strip_wf env s" "loses_links s t"
  shows "strip_wf env t"
proof -
  note f = loses_links_fields [OF assms(2)]
  have "tabs_wf env (contents_data t)"
    using assms by (auto simp: strip_wf_def loses_links_def intro: tabs_wf_weaker)
  moreover have "contents_data t \<noteq> [] \<Longrightarrow> contents_data s \<noteq> []"
    using f(7) by (metis length_0_conv)
  ultimately show ?thesis
    using assms(1) unfolding strip_wf_def f(1) f(10) by blast
qed

lemma emit_fields [simp]:
  "contents_data (emit e s) = contents_data s" "selection_model (emit e s) = selection_model s"
  "closing_all (emit e s) = closing_all s" "tabs_limit (emit e s) = tabs_limit s"
  "policy (emit e s) = policy s" "closed_by_user_gesture (emit e s) = closed_by_user_gesture s"
  "count (emit e s) = count s" "active_index (emit e s) = active_index s"
  "ContainsIndex (emit e s) i = ContainsIndex s i" "GetContentsAt (emit e s) i = GetContentsAt s i"
  "events (emit e s) = events s @ [e]"
  by (simp_all add: emit_def count_def active_index_def ContainsIndex_def GetContentsAt_def)

lemma strip_wf_emit [simp]: "strip_wf env (emit e s) = strip_wf env s"
  by (simp add: strip_wf_def)

lemma set_selection_fields [simp]:
  "contents_data (set_selection s sel) = contents_data s" "selection_model (set_selection s sel) = sel"
  "count (set_selection s sel) = count s" "active_index (set_selection s sel) = active sel"
  "events (set_selection s sel) = events s" "tabs_limit (set_selection s sel) = tabs_limit s"
  "closing_all (set_selection s sel) = closing_all s" "policy (set_selection s sel) = policy s"
  "ContainsIndex (set_selection s sel) i = ContainsIndex s i"
  "GetContentsAt (set_selection s sel) i = GetContentsAt s i"
  by (simp_all add: set_selection_def count_def active_index_def ContainsIndex_def GetContentsAt_def)

lemma update_data_fields [simp]:
  "selection_model (update_data i f s) = selection_model s" "events (update_data i f s) = events s"
  "count (update_data i f s) = count s" "active_index (update_data i f s) = active_index s"
  "tabs_limit (update_data i f s) = tabs_limit s" "closing_all (update_data i f s) = closing_all s"
  "length (contents_data (update_data i f s)) = length (contents_data s)"
  "ContainsIndex (update_data i f s) j = ContainsIndex s j"
  by (simp_all add: update_data_def count_def active_index_def ContainsIndex_def)

lemma GetContentsAt_Some:
  "GetContentsAt s i = Some c \<longleftrightarrow> ContainsIndex s i \<and> c = contents (contents_data s ! nat i)"
  by (auto simp: GetContentsAt_def vec_at_def ContainsIndex_def count_def)

lemma GetContentsAt_in_range:
  "ContainsIndex s i \<Longrightarrow> GetContentsAt s i = Some (contents (contents_data s ! nat i))"
  by (simp add: GetContentsAt_Some)

lemma GetTabContentsAt_eq: "GetTabContentsAt s i = GetContentsAt s i"
  by (auto simp: GetTabContentsAt_def GetContentsAt_def vec_at_def ContainsIndex_def count_def)

lemma update_data_wf:
  assumes "tabs_wf env (contents_data s)" "\<And>d. contents (f d) = contents d"
    "\<And>d. pinned (f d) = pinned d" "\<And>d. opener (f d) = None \<or> opener (f d) = opener d"
  shows "tabs_wf env (contents_data (update_data i f s))"
proof -
  have c: "map contents (contents_data (update_data i f s)) = map contents (contents_data s)"
    "map pinned (contents_data (update_data i f s)) = map pinned (contents_data s)"
    using assms(2,3) by (auto simp: update_data_def list_eq_iff_nth_eq nth_list_update_at)
  have "(is_app env (contents e) \<longrightarrow> pinned e) \<and> opener e \<noteq> Some (contents e)"
    if "e \<in> set (contents_data (update_data i f s))" for e
  proof -
    from that obtain j where j: "j < length (contents_data s)"
      and e: "e = contents_data s ! j \<or> e = f (contents_data s ! j)"
      by (auto simp: update_data_def in_set_conv_nth nth_list_update_at split: if_splits)
    from j have m: "contents_data s ! j \<in> set (contents_data s)" by simp
    then have "is_app env (contents (contents_data s ! j)) \<longrightarrow> pinned (contents_data s ! j)"
      "opener (contents_data s ! j) \<noteq> Some (contents (contents_data s ! j))"
      using assms(1) by (auto simp: tabs_wf_def)
    with e assms(2-4) show ?thesis by (metis option.distinct(1))
  qed
  with assms(1) c show ?thesis by (simp add: tabs_wf_def)
qed

lemma update_data_strip_wf:
  "strip_wf env s \<Longrightarrow> (\<And>d. contents (f d) = contents d) \<Longrightarrow> (\<And>d. pinned (f d) = pinned d) \<Longrightarrow>
   (\<And>d. opener (f d) = None \<or> opener (f d) = opener d) \<Longrightarrow> strip_wf env (update_data i f s)"
  using update_data_wf [of env s f i] by (auto simp: strip_wf_def update_data_def count_def)

subsection \<open>The order controller's contract\<close>

text \<open>
  What the strip relies on when it asks its order controller: the callback only loses links and
  returns for a selection change between two tabs, and the index chosen for a removal is one of the
  strip that is left.
\<close>

locale tab_order_controller =
  fixes env :: tab_env
    and new_index :: "tab_strip \<Rightarrow> int \<Rightarrow> int option"
    and selected_at :: "tab_strip \<Rightarrow> tab_id option \<Rightarrow> tab_id option \<Rightarrow> int \<Rightarrow> bool \<Rightarrow> tab_strip option"
  assumes selected_at_loses: "selected_at s old new i g = Some t \<Longrightarrow> loses_links s t"
    and selected_at_returns: "ContainsIndex s i \<Longrightarrow> \<exists>t. selected_at s (Some oc) (Some nc) i g = Some t"
    and new_index_valid:
      "strip_wf env s \<Longrightarrow> 0 \<le> active_index s \<Longrightarrow> ContainsIndex s i \<Longrightarrow> 1 < count s \<Longrightarrow>
       \<exists>k. new_index s i = Some k \<and> 0 \<le> k \<and> k < count s - 1"
begin

lemma selected_at_wf: "selected_at s old new i g = Some t \<Longrightarrow> strip_wf env s \<Longrightarrow> strip_wf env t"
  using selected_at_loses strip_wf_loses_links by blast

lemma selected_at_same:
  assumes "selected_at s old new i g = Some t"
  shows "selection_model t = selection_model s" "count t = count s" "active_index t = active_index s"
    "map contents (contents_data t) = map contents (contents_data s)"
    "map pinned (contents_data t) = map pinned (contents_data s)" "events t = events s"
    "tabs_limit t = tabs_limit s" "policy t = policy s"
  using loses_links_fields [OF selected_at_loses [OF assms]] by auto

lemma new_index_of_rest:
  assumes "strip_wf env s" "0 \<le> active_index s" "ContainsIndex s i" "1 < count s"
    and "count t = count s - 1"
  shows "\<exists>k. new_index s i = Some k \<and> ContainsIndex t k"
  using new_index_valid [OF assms(1-4)] assms(5) by (auto simp: ContainsIndex_def)

end

lemma found_index_find:
  "found_index (find P xs) \<noteq> kNoTab \<Longrightarrow> found_index (find P xs) \<in> set xs \<and> P (found_index (find P xs))"
proof (cases "find P xs")
  case (Some x)
  then have "x \<in> set xs \<and> P x" unfolding find_Some_iff by auto
  with Some show ?thesis by (simp add: found_index_def)
qed (simp add: found_index_def)

lemma next_opened_by_bounds:
  assumes "GetIndexOfNextTabContentsOpenedBy s op start g \<noteq> kNoTab" "0 \<le> start" "start < count s"
  shows "GetIndexOfNextTabContentsOpenedBy s op start g \<in> {0..count s - 1} - {start}"
  using found_index_find assms unfolding GetIndexOfNextTabContentsOpenedBy_def by fastforce

lemma GetValidIndex_bounds:
  "k \<in> {0..n - 1} - {r} \<Longrightarrow> 0 \<le> r \<Longrightarrow> r < n \<Longrightarrow> 0 \<le> GetValidIndex k r \<and> GetValidIndex k r < n - 1"
  by (auto simp: GetValidIndex_def)

lemma index_of_controller_bounds:
  assumes "GetIndexOfController s c \<noteq> kNoTab"
  shows "ContainsIndex s (GetIndexOfController s c) \<and>
         contents (contents_data s ! nat (GetIndexOfController s c)) = c"
  using find_from_bounds [of "\<lambda>d. contents d = c" "contents_data s"] assms
  by (auto simp: GetIndexOfController_def kNoTab_def ContainsIndex_def count_def)

lemma ContainsIndex_nat: "ContainsIndex s i \<Longrightarrow> nat i < length (contents_data s) \<and> 0 \<le> i"
  by (auto simp: ContainsIndex_def count_def)

lemma DetermineNewSelectedIndex_valid:
  assumes wf: "strip_wf env s" and act: "0 \<le> active_index s" and i: "ContainsIndex s i"
    and n: "1 < count s"
  shows "\<exists>k. DetermineNewSelectedIndex s i = Some k \<and> 0 \<le> k \<and> k < count s - 1"
proof -
  let ?d = "contents_data s ! nat i"
  have i': "0 \<le> i" "i < count s" and m: "?d \<in> set (contents_data s)"
    using i ContainsIndex_nat [OF i] by (auto simp: ContainsIndex_def)
  have op: "GetOpenerOfTabContentsAt s i = Some (opener ?d)"
    and tc: "GetTabContentsAt s i = Some (contents ?d)"
    using i by (auto simp: GetOpenerOfTabContentsAt_def vec_at_def ContainsIndex_def count_def
                  GetTabContentsAt_eq GetContentsAt_Some)
  have "sel_wf (count s) (selection_model s)" using wf n by (auto simp: strip_wf_def count_def)
  then have def_ok: "0 \<le> default_new_index s \<and> default_new_index s < count s - 1"
    using act n by (auto simp: default_new_index_def sel_wf_def active_index_def)
  have next_ok: "0 \<le> GetValidIndex k i \<and> GetValidIndex k i < count s - 1"
    if "k = GetIndexOfNextTabContentsOpenedBy s c i False" "k \<noteq> kNoTab" for k c
    using next_opened_by_bounds [of s c i False] that i' GetValidIndex_bounds by metis
  have ctl_ok: "0 \<le> GetValidIndex k i \<and> GetValidIndex k i < count s - 1"
    if k: "k = GetIndexOfController s p" "k \<noteq> kNoTab" and p: "opener ?d = Some p" for k p
  proof -
    from k have b: "ContainsIndex s k" "contents (contents_data s ! nat k) = p"
      using index_of_controller_bounds by auto
    moreover have "p \<noteq> contents ?d" using p wf m by (auto simp: strip_wf_def tabs_wf_def)
    ultimately have "k \<in> {0..count s - 1} - {i}" by (auto simp: ContainsIndex_def)
    then show ?thesis using GetValidIndex_bounds i' by blast
  qed
  show ?thesis
    using def_ok next_ok ctl_ok
    by (auto simp: DetermineNewSelectedIndex_def op tc Let_def split: option.splits)
qed

lemma old_tab_links_returns: "\<exists>r. old_tab_links s (Some oc) = Some r"
proof (cases "GetIndexOfTabContents s oc = kNoTab")
  case False
  then have "ContainsIndex s (GetIndexOfTabContents s oc)"
    using find_from_bounds [of "\<lambda>d. contents d = oc" "contents_data s"]
    by (auto simp: GetIndexOfTabContents_def kNoTab_def ContainsIndex_def count_def)
  then show ?thesis
    by (auto simp: old_tab_links_def Let_def GetOpenerOfTabContentsAt_def ShouldResetGroupOnSelect_def
          ForgetGroup_def vec_at_def ContainsIndex_def count_def)
qed (simp add: old_tab_links_def)

lemma order_TabSelectedAt_returns:
  assumes "ContainsIndex s i"
  shows "\<exists>t. order_TabSelectedAt s (Some oc) (Some nc) i g = Some t"
proof -
  obtain oo s1 where s1: "old_tab_links s (Some oc) = Some (oo, s1)"
    using old_tab_links_returns [of s oc] by fastforce
  have "count s1 = count s" using loses_links_old_tab_links [OF s1] by (simp add: loses_links_fields)
  then obtain no where "GetOpenerOfTabContentsAt s1 i = Some no"
    using assms by (auto simp: GetOpenerOfTabContentsAt_def vec_at_def ContainsIndex_def count_def)
  then show ?thesis using s1 by (auto simp: order_TabSelectedAt_def)
qed

interpretation order: tab_order_controller env DetermineNewSelectedIndex order_TabSelectedAt
  by unfold_locales (auto intro: loses_links_order order_TabSelectedAt_returns DetermineNewSelectedIndex_valid)

subsection \<open>Updates that keep the tabs in place\<close>

definition keeps :: "tab_env \<Rightarrow> tab_strip \<Rightarrow> tab_strip \<Rightarrow> bool" where
  "keeps env s t \<longleftrightarrow> (strip_wf env s \<longrightarrow> strip_wf env t) \<and> selection_model t = selection_model s \<and>
     map contents (contents_data t) = map contents (contents_data s) \<and>
     map pinned (contents_data t) = map pinned (contents_data s) \<and>
     tabs_limit t = tabs_limit s \<and> policy t = policy s"

lemma keeps_refl [simp]: "keeps env s s"
  by (simp add: keeps_def)

lemma keeps_trans: "keeps env s t \<Longrightarrow> keeps env t u \<Longrightarrow> keeps env s u"
  by (auto simp: keeps_def)

lemma keeps_loses: "loses_links s t \<Longrightarrow> keeps env s t"
  using strip_wf_loses_links loses_links_fields [of s t] by (simp add: keeps_def)

lemma keeps_emit [simp]: "keeps env s (emit e s)"
  by (simp add: keeps_def emit_def strip_wf_def count_def)

lemma keeps_count: "keeps env s t \<Longrightarrow> count t = count s"
  unfolding keeps_def count_def by (metis length_map)

lemma keeps_update:
  assumes "\<And>d. contents (f d) = contents d" "\<And>d. pinned (f d) = pinned d"
    "\<And>d. opener (f d) = None \<or> opener (f d) = opener d"
  shows "keeps env s (update_data i f s)"
  using update_data_strip_wf [of env s f i] assms
  by (simp add: keeps_def update_data_def list_eq_iff_nth_eq nth_list_update_at)

lemma keeps_notify: "notify_TabSelectedAt s old new g = Some t \<Longrightarrow> keeps env s t"
  by (auto simp: notify_TabSelectedAt_def bind_eq_Some_conv
           intro: keeps_trans [OF keeps_loses [OF loses_links_order] keeps_emit])

lemma keeps_NotifyTabSelectedIfChanged:
  assumes "NotifyTabSelectedIfChanged env s old i g = Some t"
  shows "keeps env s t"
proof -
  have u: "keeps env s (update_data i (\<lambda>d. d\<lparr>last_visit_time := now env\<rparr>) s)"
    by (rule keeps_update) auto
  show ?thesis
    using assms keeps_trans [OF u keeps_notify]
      keeps_trans [OF keeps_trans [OF u keeps_emit] keeps_notify]
    by (auto simp: NotifyTabSelectedIfChanged_def bind_eq_Some_conv Let_def
             split: if_splits option.splits)
qed

lemma keeps_NotifySelectionChanged: "NotifySelectionChanged s i = Some t \<Longrightarrow> keeps env s t"
  by (auto simp: NotifySelectionChanged_def Let_def intro: keeps_notify)

lemma notify_returns:
  "ContainsIndex s (active_index s) \<Longrightarrow> \<exists>t. notify_TabSelectedAt s (Some oc) (Some nc) g = Some t"
  using order_TabSelectedAt_returns [of s "active_index s" oc nc g]
  by (auto simp: notify_TabSelectedAt_def)

lemma NotifyTabSelectedIfChanged_returns:
  assumes "ContainsIndex s i" "ContainsIndex s (active_index s)"
  shows "\<exists>t. NotifyTabSelectedIfChanged env s (Some oc) i g = Some t"
  using assms notify_returns [of "emit (TabDeselected oc) (update_data i (\<lambda>d. d\<lparr>last_visit_time := now env\<rparr>) s)"]
  by (auto simp: NotifyTabSelectedIfChanged_def GetContentsAt_in_range Let_def)

end
