(* ===== verification/TabProps.thy ===== *)
theory TabProps
  imports TabInv
begin

text \<open>
  Correctness of the tab strip: the operations keep \<open>strip_wf\<close>, return, and do what their
  descriptions in \<open>tab_strip_model.h\<close> say, with the cases where they do not.
\<close>

subsection \<open>A concrete strip for the examples\<close>

definition demo_env :: tab_env where
  "demo_env = \<lparr>is_app = (\<lambda>c. c = 9), gurl_spec = (\<lambda>x. x), url_spec = (\<lambda>_. ''http://a/''),
     url_scheme = (\<lambda>_. ''http''), url_host = (\<lambda>_. ''a''), needs_reload = (\<lambda>_. False),
     entry_count = (\<lambda>_. 1), is_loading = (\<lambda>_. False), extension_app = (\<lambda>_. None),
     CanReloadContents = (\<lambda>_. True), CloneAndMakePhantom = (\<lambda>c. c + 100),
     CanCloseContentsAt = (\<lambda>_ _. True), RunUnloadListenerBeforeClosing = (\<lambda>_. False),
     CanCloseTab = (\<lambda>_. True), CanDuplicateContentsAt = (\<lambda>_ _. True),
     DuplicateContentsAt = (\<lambda>s _. Some s), CanRestoreTab = False, CanBookmarkAllTabs = True,
     UseVerticalTabs = False, has_profile = True, now = 50\<rparr>"

text \<open>Tabs 0, 1, ... with the given pinned flags, each opened by the one before it, the first
  one active.\<close>

definition demo_strip :: "bool list \<Rightarrow> tab_strip" where
  "demo_strip ps = (new_tab_strip (Some 3))
     \<lparr>contents_data := map (\<lambda>(i, p). (new_tab_data i)\<lparr>pinned := p,
          opener := (if i = 0 then None else Some (i - 1)), last_visit_time := 10 - int i\<rparr>)
          (zip [0..<length ps] ps),
      selection_model := \<lparr>selected_indices = [0], active = 0, anchor = 0\<rparr>\<rparr>"

subsection \<open>The boundary between pinned and other tabs\<close>

definition pin_split :: "nat \<Rightarrow> bool list \<Rightarrow> bool" where
  "pin_split L ps \<longleftrightarrow> L \<le> length ps \<and> (\<forall>i < length ps. ps ! i \<longleftrightarrow> i < L)"

lemma pin_split_takeWhile:
  assumes "pinned_first ps"
  shows "pin_split (length (takeWhile id ps)) ps"
proof -
  let ?L = "length (takeWhile id ps)"
  have le: "?L \<le> length ps" by (rule length_takeWhile_le)
  have "ps ! i" if "i < ?L" for i
    using that by (metis id_apply nth_mem set_takeWhileD takeWhile_nth)
  moreover have "\<not> ps ! i" if "i < length ps" "\<not> i < ?L" for i
  proof
    assume pi: "ps ! i"
    from that le have "?L < length ps" by simp
    then have nL: "\<not> ps ! ?L" using nth_length_takeWhile [of id ps] by simp
    with pi that(2) have "?L < i" by (metis linorder_neqE_nat)
    with assms pi that nL show False
      by (auto simp: pinned_first_def sorted_wrt_iff_nth_less)
  qed
  ultimately show ?thesis using le unfolding pin_split_def by blast
qed

lemma pin_split_first: "pin_split L ps \<Longrightarrow> pinned_first ps"
  by (auto simp: pin_split_def pinned_first_def sorted_wrt_iff_nth_less)

lemma pin_split_insert:
  "pin_split L ps \<Longrightarrow> k \<le> length ps \<Longrightarrow> (p \<longrightarrow> k \<le> L) \<Longrightarrow> (\<not> p \<longrightarrow> L \<le> k) \<Longrightarrow>
   pin_split (if p then Suc L else L) (insert_at k p ps)"
  by (auto simp: pin_split_def vec_simps)

lemma pin_split_erase:
  "pin_split L ps \<Longrightarrow> k < length ps \<Longrightarrow> pin_split (if k < L then L - 1 else L) (erase_at k ps)"
  by (auto simp: pin_split_def vec_simps)

lemma first_non_mini_conv:
  "first_non_mini_from env ds i = i + int (length (takeWhile (is_mini env) ds))"
  by (induction ds arbitrary: i) auto

lemma first_non_mini_split:
  assumes "tabs_wf env ds"
  obtains L where "first_non_mini_from env ds 0 = int L" "pin_split L (map pinned ds)"
proof
  have "takeWhile (is_mini env) ds = takeWhile pinned ds"
    using assms by (intro takeWhile_cong) (auto simp: tabs_wf_def is_mini_def)
  then have "length (takeWhile (is_mini env) ds) = length (takeWhile id (map pinned ds))"
    by (simp add: takeWhile_map)
  then show "first_non_mini_from env ds 0 = int (length (takeWhile id (map pinned ds)))"
    by (simp add: first_non_mini_conv)
  show "pin_split (length (takeWhile id (map pinned ds))) (map pinned ds)"
    using assms by (intro pin_split_takeWhile) (simp add: tabs_wf_def)
qed

lemma constrain_index_facts:
  assumes "tabs_wf env (contents_data s)"
  shows "0 \<le> ConstrainInsertionIndex env s i mini \<and> ConstrainInsertionIndex env s i mini \<le> count s \<and>
    (if mini then ConstrainInsertionIndex env s i mini \<le> IndexOfFirstNonMiniTab env s
     else IndexOfFirstNonMiniTab env s \<le> ConstrainInsertionIndex env s i mini) \<and>
    ((if mini then 0 \<le> i \<and> i \<le> IndexOfFirstNonMiniTab env s
      else IndexOfFirstNonMiniTab env s \<le> i \<and> i \<le> count s)
     \<longrightarrow> ConstrainInsertionIndex env s i mini = i)"
proof -
  obtain L where "first_non_mini_from env (contents_data s) 0 = int L"
    "pin_split L (map pinned (contents_data s))"
    using first_non_mini_split [OF assms] by blast
  then show ?thesis
    by (auto simp: ConstrainInsertionIndex_def IndexOfFirstNonMiniTab_def count_def pin_split_def)
qed

text \<open>The insertion index: \<open>ConstrainInsertionIndex\<close> returns an index of the strip (or its
  end), on the pinned side of \<open>IndexOfFirstNonMiniTab\<close> for a mini-tab and on the other side
  otherwise, and the proposed index itself when that already is on the right side.\<close>

theorem ConstrainInsertionIndex_side:
  assumes "tabs_wf env (contents_data s)"
  shows "0 \<le> ConstrainInsertionIndex env s i mini \<and> ConstrainInsertionIndex env s i mini \<le> count s \<and>
    (if mini then ConstrainInsertionIndex env s i mini \<le> IndexOfFirstNonMiniTab env s
     else IndexOfFirstNonMiniTab env s \<le> ConstrainInsertionIndex env s i mini) \<and>
    ((if mini then 0 \<le> i \<and> i \<le> IndexOfFirstNonMiniTab env s
      else IndexOfFirstNonMiniTab env s \<le> i \<and> i \<le> count s)
     \<longrightarrow> ConstrainInsertionIndex env s i mini = i)"
  using constrain_index_facts [OF assms] by blast

theorem ConstrainInsertionIndex_side_witness:
  "ConstrainInsertionIndex demo_env (demo_strip [True, True, False]) 0 False = 2 \<and>
   ConstrainInsertionIndex demo_env (demo_strip [True, True, False]) 3 True = 2 \<and>
   2 \<le> count (demo_strip [True, True, False])"
proof -
  have "tabs_wf demo_env (contents_data (demo_strip [True, True, False]))" by code_simp
  from ConstrainInsertionIndex_side [OF this, of 0 False] ConstrainInsertionIndex_side [OF this, of 3 True]
  show ?thesis by code_simp
qed

subsection \<open>Inserting\<close>

lemma tabs_wf_insert:
  assumes wf: "tabs_wf env ds" and "contents d \<notin> contents ` set ds"
    and "is_app env (contents d) \<longrightarrow> pinned d" "opener d \<noteq> Some (contents d)"
    and split: "pin_split L (map pinned ds)" and k: "k \<le> length ds"
    and side: "if pinned d then k \<le> L else L \<le> k"
  shows "tabs_wf env (insert_at k d ds)"
proof -
  have "pinned_first (map pinned (insert_at k d ds))"
    unfolding map_insert_at
    by (rule pin_split_first, rule pin_split_insert [OF split]) (use k side in \<open>auto split: if_splits\<close>)
  moreover have "distinct (map contents (insert_at k d ds))"
  proof -
    have "mset (map contents (insert_at k d ds)) = add_mset (contents d) (mset (map contents ds))"
      by (simp add: map_insert_at vec_simps)
    also have "\<dots> = mset (contents d # map contents ds)" by simp
    finally show ?thesis
      using assms(1,2) mset_eq_imp_distinct_iff by (fastforce simp: tabs_wf_def)
  qed
  ultimately show ?thesis
    using assms by (auto simp: tabs_wf_def vec_simps)
qed

lemma inherit_links_loses: "inherit_links s d t = (d', s') \<Longrightarrow> loses_links s s'"
  by (auto simp: inherit_links_def Let_def loses_links_ForgetAllOpeners split: if_splits)

lemma GetSelectedTabContents_in: "GetSelectedTabContents s = Some c \<Longrightarrow> c \<in> contents ` set (contents_data s)"
  by (auto simp: GetSelectedTabContents_def GetTabContentsAt_eq GetContentsAt_Some dest!: ContainsIndex_nat)

lemma inherit_links_data:
  assumes "inherit_links s d t = (d', s')"
  shows "contents d' = contents d" "pinned d' = pinned d"
    "opener d' = opener d \<or> opener d' = GetSelectedTabContents s"
  using assms by (auto simp: inherit_links_def Let_def SetGroup_def split: if_splits)

lemma sel_wf_single: "0 \<le> i \<Longrightarrow> i < n \<Longrightarrow> sel_wf n (s\<lparr>selected_indices := [i], active := i, anchor := i\<rparr>)"
  by (simp add: sel_wf_def)

lemma select_index_eq:
  "0 \<le> i \<Longrightarrow> select_index s i =
     Some (set_selection s ((selection_model s)\<lparr>selected_indices := [i], active := i, anchor := i\<rparr>))"
  by (simp add: select_index_def kUnselectedIndex_def)

text \<open>The strip after the tab and the index shift are in, before anything is selected.\<close>

definition with_tab :: "tab_strip \<Rightarrow> nat \<Rightarrow> tab_data \<Rightarrow> tab_strip" where
  "with_tab s k d = s\<lparr>contents_data := insert_at k d (contents_data s),
                      selection_model := IncrementFrom (selection_model s) (int k)\<rparr>"

lemma with_tab_fields [simp]:
  "contents_data (with_tab s k d) = insert_at k d (contents_data s)"
  "selection_model (with_tab s k d) = IncrementFrom (selection_model s) (int k)"
  "count (with_tab s k d) = count s + 1"
  "events (with_tab s k d) = events s" "closing_all (with_tab s k d) = closing_all s"
  by (simp_all add: with_tab_def count_def vec_simps)

lemma insert_new_tab_cases:
  assumes wf: "tabs_wf env (contents_data s)" and fresh: "fresh_tab s c"
    and k: "k = nat (ConstrainInsertionIndex env s i pin)" and pin: "pin = (is_app env c \<or> has_flag t ADD_PINNED)"
  obtains d s2 where
    "insert_new_tab env s i c t =
       (let s4 = emit (TabInsertedAt c (int k) (has_flag t ADD_ACTIVE)) (with_tab s2 k d)
        in if has_flag t ADD_ACTIVE then do {
             s5 \<leftarrow> select_index s4 (int k);
             NotifyTabSelectedIfChanged env s5 (GetSelectedTabContents s) (int k) False
           } else Some s4)"
    "loses_links (s\<lparr>closing_all := False\<rparr>) s2" "contents d = c" "pinned d = pin"
    "k \<le> length (contents_data s)" "tabs_wf env (insert_at k d (contents_data s2))"
proof -
  let ?s1 = "s\<lparr>closing_all := False\<rparr>"
  obtain d s2 where il: "inherit_links ?s1 ((new_tab_data c)\<lparr>pinned := pin\<rparr>) t = (d, s2)"
    by fastforce
  obtain L where L: "first_non_mini_from env (contents_data s) 0 = int L"
    "pin_split L (map pinned (contents_data s))"
    using first_non_mini_split [OF wf] by blast
  have k': "int k = ConstrainInsertionIndex env s i pin" "k \<le> length (contents_data s)"
    "if pin then k \<le> L else L \<le> k"
    using L k constrain_index_facts [OF wf, of i pin]
    by (auto simp: IndexOfFirstNonMiniTab_def count_def split: if_splits)
  have sel: "GetSelectedTabContents ?s1 = GetSelectedTabContents s"
    by (simp add: GetSelectedTabContents_def GetTabContentsAt_eq GetContentsAt_def active_index_def)
  have lose: "loses_links ?s1 s2" by (rule inherit_links_loses [OF il])
  have d: "contents d = c" "pinned d = pin" "opener d = None \<or> opener d = GetSelectedTabContents s"
    using inherit_links_data [OF il] sel by (auto simp: new_tab_data_def)
  have not_in: "c \<notin> contents ` set (contents_data s)" using fresh by (auto simp: fresh_tab_def)
  have wf2: "tabs_wf env (contents_data s2)"
    using wf lose tabs_wf_weaker by (auto simp: loses_links_def)
  have same: "map contents (contents_data s2) = map contents (contents_data s)"
    "map pinned (contents_data s2) = map pinned (contents_data s)"
    "length (contents_data s2) = length (contents_data s)"
    using loses_links_fields [OF lose] by auto
  have "tabs_wf env (insert_at k d (contents_data s2))"
  proof (rule tabs_wf_insert [OF wf2])
    show "contents d \<notin> contents ` set (contents_data s2)"
      using not_in same(1) d(1) by (metis list.set_map)
    show "opener d \<noteq> Some (contents d)"
      using d not_in GetSelectedTabContents_in [of s] by auto
    show "pin_split L (map pinned (contents_data s2))" using L same by simp
  qed (use d pin k' same in auto)
  moreover have "insert_new_tab env s i c t =
       (let s4 = emit (TabInsertedAt c (int k) (has_flag t ADD_ACTIVE)) (with_tab s2 k d)
        in if has_flag t ADD_ACTIVE then do {
             s5 \<leftarrow> select_index s4 (int k);
             NotifyTabSelectedIfChanged env s5 (GetSelectedTabContents s) (int k) False
           } else Some s4)"
    using il sel k'(1) [symmetric] by (simp add: insert_new_tab_def Let_def pin [symmetric] with_tab_def)
  ultimately show ?thesis using that lose d k' by blast
qed

lemma with_tab_strip_wf:
  assumes wf: "strip_wf env s" and sel: "contents_data s \<noteq> [] \<or> selection_model s = empty_selection"
    and lose: "loses_links (s\<lparr>closing_all := False\<rparr>) s2"
    and k: "k \<le> length (contents_data s)" and t: "tabs_wf env (insert_at k d (contents_data s2))"
  shows "strip_wf env (with_tab s2 k d)"
proof -
  note f = loses_links_fields [OF lose]
  have c: "count s2 = count s" using f(10) by (simp add: count_def)
  have "sel_wf (count s + 1) (IncrementFrom (selection_model s) (int k))"
  proof (cases "contents_data s = []")
    case True
    with sel show ?thesis
      by (simp add: sel_wf_def count_def empty_selection_def kUnselectedIndex_def increment_from_impl_def)
  next
    case False
    with wf show ?thesis by (intro sel_wf_IncrementFrom) (auto simp: strip_wf_def)
  qed
  then show ?thesis using t f(1) c by (simp add: strip_wf_def)
qed

lemma insert_active_wf:
  assumes t: "tabs_wf env (contents_data u)" and k: "0 \<le> k" "k < count u"
    and r: "do { s5 \<leftarrow> select_index u k; NotifyTabSelectedIfChanged env s5 old k False } = Some v"
  shows "strip_wf env v \<and> active_index v = k \<and> selected_indices (selection_model v) = [k] \<and>
    map contents (contents_data v) = map contents (contents_data u) \<and> tabs_limit v = tabs_limit u"
proof -
  let ?u = "set_selection u ((selection_model u)\<lparr>selected_indices := [k], active := k, anchor := k\<rparr>)"
  have "strip_wf env ?u" using t k by (simp add: strip_wf_def sel_wf_single)
  moreover have "keeps env ?u v"
    using r k by (auto simp: select_index_eq intro: keeps_NotifyTabSelectedIfChanged)
  ultimately show ?thesis by (simp add: keeps_def active_index_def)
qed

lemma insert_new_tab_wf:
  assumes wf: "strip_wf env s" and fresh: "fresh_tab s c"
    and sel: "contents_data s \<noteq> [] \<or> selection_model s = empty_selection \<or> has_flag t ADD_ACTIVE"
    and r: "insert_new_tab env s i c t = Some v"
  shows "strip_wf env v \<and>
    mset (map contents (contents_data v)) = add_mset c (mset (map contents (contents_data s))) \<and>
    (has_flag t ADD_ACTIVE \<longrightarrow> GetSelectedTabContents v = Some c) \<and> tabs_limit v = tabs_limit s \<and>
    (has_flag t ADD_ACTIVE \<or> 0 \<le> active_index s \<longrightarrow> 0 \<le> active_index v)"
proof -
  define pin where "pin = (is_app env c \<or> has_flag t ADD_PINNED)"
  define k where "k = nat (ConstrainInsertionIndex env s i pin)"
  have twf: "tabs_wf env (contents_data s)" using wf by (simp add: strip_wf_def)
  obtain d s2 where eq: "insert_new_tab env s i c t =
       (let s4 = emit (TabInsertedAt c (int k) (has_flag t ADD_ACTIVE)) (with_tab s2 k d)
        in if has_flag t ADD_ACTIVE then do {
             s5 \<leftarrow> select_index s4 (int k);
             NotifyTabSelectedIfChanged env s5 (GetSelectedTabContents s) (int k) False
           } else Some s4)"
    and lose: "loses_links (s\<lparr>closing_all := False\<rparr>) s2" and d: "contents d = c"
    and k: "k \<le> length (contents_data s)" and t: "tabs_wf env (insert_at k d (contents_data s2))"
    using insert_new_tab_cases [OF twf fresh k_def pin_def] by metis
  have c2: "map contents (contents_data s2) = map contents (contents_data s)"
    "length (contents_data s2) = length (contents_data s)"
    using loses_links_fields [OF lose] by auto
  have lim: "tabs_limit (with_tab s2 k d) = tabs_limit s" and f1: "selection_model s2 = selection_model s"
    using loses_links_fields [OF lose] by (simp_all add: with_tab_def)
  let ?s4 = "emit (TabInsertedAt c (int k) (has_flag t ADD_ACTIVE)) (with_tab s2 k d)"
  have m: "mset (map contents (contents_data ?s4)) = add_mset c (mset (map contents (contents_data s)))"
    by (simp add: map_insert_at vec_simps d c2)
  show ?thesis
  proof (cases "has_flag t ADD_ACTIVE")
    case True
    have "strip_wf env v \<and> active_index v = int k \<and> selected_indices (selection_model v) = [int k] \<and>
        map contents (contents_data v) = map contents (contents_data ?s4) \<and> tabs_limit v = tabs_limit ?s4"
      using r eq True k c2 t
      by (intro insert_active_wf [where old = "GetSelectedTabContents s"]) (auto simp: Let_def count_def vec_simps)
    moreover from this have "GetSelectedTabContents v = Some c"
    proof -
      assume v: "strip_wf env v \<and> active_index v = int k \<and> selected_indices (selection_model v) = [int k] \<and>
        map contents (contents_data v) = map contents (contents_data ?s4) \<and> tabs_limit v = tabs_limit ?s4"
      then have "length (contents_data v) = Suc (length (contents_data s))"
        using c2(2) by (metis length_insert_at length_map emit_fields(1) with_tab_fields(1))
      moreover have "map contents (contents_data v) ! k = c"
        using v k c2 d by (simp add: map_insert_at vec_simps)
      ultimately have "k < length (contents_data v)" "contents (contents_data v ! k) = c"
        using k by (simp_all add: nth_map [symmetric] del: nth_map)
      then show ?thesis
        using v by (simp add: GetSelectedTabContents_def GetTabContentsAt_eq GetContentsAt_def)
    qed
    ultimately show ?thesis using m True lim by simp
  next
    case False
    with r eq have v: "v = ?s4" by (simp add: Let_def)
    have "strip_wf env (with_tab s2 k d)"
      using with_tab_strip_wf [OF wf _ lose k t] sel False by auto
    then show ?thesis using v m False lim f1 by (auto simp: active_index_def increment_from_impl_def)
  qed
qed

subsection \<open>Replacing a tab\<close>

lemma tabs_wf_replace:
  assumes wf: "tabs_wf env ds" and i: "i < length ds"
    and fresh: "\<forall>d \<in> set ds. contents d \<noteq> c \<and> opener d \<noteq> Some c"
    and app: "is_app env c \<longrightarrow> pinned (ds ! i)"
  shows "tabs_wf env (ds[i := (ds ! i)\<lparr>contents := c\<rparr>])"
proof -
  have "map pinned (ds[i := (ds ! i)\<lparr>contents := c\<rparr>]) = map pinned ds"
    by (auto simp: list_eq_iff_nth_eq nth_list_update_at)
  moreover have "distinct (map contents (ds[i := (ds ! i)\<lparr>contents := c\<rparr>]))"
    using wf fresh by (auto simp: map_update tabs_wf_def intro!: distinct_list_update)
  moreover have "ds ! i \<in> set ds" using i by simp
  ultimately show ?thesis
    using wf fresh app by (auto simp: tabs_wf_def dest!: set_update_subset_insert [THEN subsetD])
qed

lemma fresh_tab_loses:
  assumes "loses_links s t" "fresh_tab s c"
  shows "fresh_tab t c"
  unfolding fresh_tab_def
proof
  fix e assume "e \<in> set (contents_data t)"
  then obtain j where "j < length (contents_data t)" "e = contents_data t ! j"
    by (auto simp: in_set_conv_nth)
  with assms(1) have "weaker (contents_data s ! j) e" "contents_data s ! j \<in> set (contents_data s)"
    by (auto simp: loses_links_def list_all2_conv_all_nth)
  with assms(2) show "contents e \<noteq> c \<and> opener e \<noteq> Some c"
    by (auto simp: fresh_tab_def weaker_core(1)) (auto simp: weaker_def)
qed

lemma ReplaceTabContentsAt_wf:
  assumes wf: "strip_wf env s" and fresh: "fresh_tab s c"
    and app: "is_app env c \<longrightarrow> IsTabPinned s i = Some True"
    and r: "ReplaceTabContentsAt s i c = Some (oc, v)"
  shows "strip_wf env v \<and> GetContentsAt s i = Some oc \<and> selection_model v = selection_model s \<and>
    tabs_limit v = tabs_limit s \<and> map contents (contents_data v) = (map contents (contents_data s))[nat i := c]"
proof -
  let ?s1 = "ForgetOpenersAndGroupsReferencing oc s"
  let ?s2 = "update_data i (\<lambda>d. d\<lparr>contents := c\<rparr>) ?s1"
  have oc: "GetContentsAt s i = Some oc"
    using r by (auto simp: ReplaceTabContentsAt_def bind_eq_Some_conv Let_def split: if_splits)
  then have i: "ContainsIndex s i" by (simp add: GetContentsAt_Some)
  have lose: "loses_links s ?s1" by (rule loses_links_ForgetReferencing)
  note f = loses_links_fields [OF lose]
  have i1: "nat i < length (contents_data ?s1)" using f(7) ContainsIndex_nat [OF i] by simp
  have fresh1: "\<forall>d \<in> set (contents_data ?s1). contents d \<noteq> c \<and> opener d \<noteq> Some c"
    using fresh_tab_loses [OF lose fresh] by (simp add: fresh_tab_def)
  have app1: "is_app env c \<longrightarrow> pinned (contents_data ?s1 ! nat i)"
    using app i i1 f(7,9) by (auto simp: IsTabPinned_def vec_at_def ContainsIndex_def count_def)
      (metis nth_map)
  have wf1: "strip_wf env ?s1" using wf lose by (rule strip_wf_loses_links)
  then have "tabs_wf env (contents_data ?s2)"
    using tabs_wf_replace [OF _ i1 fresh1 app1] by (simp add: strip_wf_def update_data_def)
  then have wf2: "strip_wf env ?s2"
    using wf1 i1 by (auto simp: strip_wf_def update_data_def count_def)
  have "keeps env ?s2 v"
    using r oc by (auto simp: ReplaceTabContentsAt_def bind_eq_Some_conv Let_def split: if_splits
                     intro: keeps_trans [OF keeps_emit keeps_notify])
  then show ?thesis
    using wf2 oc f(1,5,8) by (simp add: keeps_def update_data_def map_update)
qed

lemma ReplaceTabContentsAt_returns:
  assumes "ContainsIndex s i"
  shows "\<exists>r. ReplaceTabContentsAt s i c = Some r"
proof -
  let ?oc = "contents (contents_data s ! nat i)"
  let ?s3 = "emit (TabReplacedAt ?oc c i)
     (update_data i (\<lambda>d. d\<lparr>contents := c\<rparr>) (ForgetOpenersAndGroupsReferencing ?oc s))"
  have "count ?s3 = count s" using loses_links_ForgetReferencing [of s ?oc] by (simp add: loses_links_fields)
  then have "active_index ?s3 = i \<Longrightarrow> \<exists>t. notify_TabSelectedAt ?s3 (Some ?oc) (Some c) False = Some t"
    using assms by (intro notify_returns) (simp add: ContainsIndex_def)
  then show ?thesis
    using assms by (auto simp: ReplaceTabContentsAt_def GetContentsAt_in_range Let_def)
qed

lemma replace_index_from_bounds:
  "0 \<le> best \<Longrightarrow> best < i + int (length ds) \<Longrightarrow> 0 \<le> i \<Longrightarrow>
   0 \<le> replace_index_from env ds i best t \<and>
   replace_index_from env ds i best t < i + int (length ds)"
proof (induction ds arbitrary: i best t)
  case (Cons d ds)
  show ?case
    using Cons.IH [of i "i + 1" "last_visit_time d"] Cons.IH [of best "i + 1" t] Cons.prems
    by (auto simp: Let_def)
qed auto

lemma replace_index_bounds: "contents_data s \<noteq> [] \<Longrightarrow> ContainsIndex s (replace_index env s)"
  using replace_index_from_bounds [of 0 1]
  by (cases "contents_data s") (auto simp: replace_index_def ContainsIndex_def count_def add.commute)

lemma replace_at_limit_wf:
  assumes wf: "strip_wf env s" and fresh: "fresh_tab s c" and ne: "contents_data s \<noteq> []"
    and app: "is_app env c \<longrightarrow> IsTabPinned s (replace_index env s) = Some True"
    and r: "replace_at_limit env s c act = Some v"
  shows "strip_wf env v \<and>
    map contents (contents_data v) = (map contents (contents_data s))[nat (replace_index env s) := c] \<and>
    (if act then active_index v = replace_index env s else selection_model v = selection_model s) \<and>
    tabs_limit v = tabs_limit s"
proof -
  let ?ri = "replace_index env s"
  obtain oc s1 where s1: "ReplaceTabContentsAt s ?ri c = Some (oc, s1)"
    and v: "if act then do { s2 \<leftarrow> select_index s1 ?ri;
                NotifyTabSelectedIfChanged env s2 (GetSelectedTabContents s) ?ri False } = Some v
            else v = s1"
    using r by (auto simp: replace_at_limit_def bind_eq_Some_conv Let_def split: if_splits)
  note w = ReplaceTabContentsAt_wf [OF wf fresh app s1]
  have "length (contents_data s1) = length (contents_data s)"
    using w by (metis length_list_update length_map)
  then have ri: "0 \<le> ?ri" "?ri < count s1"
    using replace_index_bounds [OF ne, of env] by (auto simp: ContainsIndex_def count_def)
  show ?thesis
  proof (cases act)
    case True
    with v have "strip_wf env v \<and> active_index v = ?ri \<and> selected_indices (selection_model v) = [?ri] \<and>
        map contents (contents_data v) = map contents (contents_data s1) \<and> tabs_limit v = tabs_limit s1"
      using w ri by (intro insert_active_wf [where old = "GetSelectedTabContents s"]) (auto simp: strip_wf_def)
    then show ?thesis using w True by simp
  next
    case False
    then show ?thesis using w v by simp
  qed
qed

end
