(* ===== verification/TabSteps.thy ===== *)
theory TabSteps
  imports TabProps
begin

text \<open>
  The tab strip as a state machine: what detaching, moving, pinning and activating keep, the step
  relation whose steps are the calls of the strip's clients, and the invariant of its reachable
  states.
\<close>

subsection \<open>Detaching\<close>

definition no_links :: "tab_id \<Rightarrow> tab_strip \<Rightarrow> bool" where
  "no_links c s \<longleftrightarrow> (\<forall>d \<in> set (contents_data s). opener d \<noteq> Some c \<and> group d \<noteq> Some c)"

lemma no_links_loses:
  assumes "loses_links s t" "no_links c s"
  shows "no_links c t"
  unfolding no_links_def
proof
  fix e assume "e \<in> set (contents_data t)"
  then obtain j where "j < length (contents_data t)" "e = contents_data t ! j"
    by (auto simp: in_set_conv_nth)
  with assms(1) have "weaker (contents_data s ! j) e" "contents_data s ! j \<in> set (contents_data s)"
    by (auto simp: loses_links_def list_all2_conv_all_nth)
  with assms(2) show "opener e \<noteq> Some c \<and> group e \<noteq> Some c"
    by (auto simp: no_links_def weaker_def)
qed

lemma no_links_emit [simp]: "no_links c (emit e s) = no_links c s"
  by (simp add: no_links_def)

lemma no_links_set_selection [simp]: "no_links c (set_selection s sel) = no_links c s"
  by (simp add: no_links_def)

lemma no_links_update:
  assumes "no_links c s" "\<And>d. opener (f d) = opener d" "\<And>d. group (f d) = group d"
  shows "no_links c (update_data i f s)"
  unfolding no_links_def
proof
  fix e assume "e \<in> set (contents_data (update_data i f s))"
  then obtain j where "j < length (contents_data s)"
    "e = contents_data s ! j \<or> e = f (contents_data s ! j)"
    by (auto simp: update_data_def in_set_conv_nth nth_list_update_at split: if_splits)
  then show "opener e \<noteq> Some c \<and> group e \<noteq> Some c"
    using assms nth_mem [of j "contents_data s"] by (auto simp: no_links_def)
qed

lemma no_links_notify: "notify_TabSelectedAt s old new g = Some t \<Longrightarrow> no_links c s \<Longrightarrow> no_links c t"
  by (auto simp: notify_TabSelectedAt_def bind_eq_Some_conv intro: no_links_loses [OF order.selected_at_loses])

lemma no_links_NotifyTabSelectedIfChanged:
  "NotifyTabSelectedIfChanged env s old i g = Some t \<Longrightarrow> no_links c s \<Longrightarrow> no_links c t"
  by (auto simp: NotifyTabSelectedIfChanged_def bind_eq_Some_conv Let_def no_links_update
           split: if_splits option.splits intro: no_links_notify)

lemma no_links_ForgetReferencing: "no_links c (ForgetOpenersAndGroupsReferencing c s)"
  by (auto simp: no_links_def ForgetOpenersAndGroupsReferencing_def forget_referencing_def Let_def
           split: if_splits)

lemma tabs_wf_erase:
  assumes "tabs_wf env ds" "k < length ds"
  shows "tabs_wf env (erase_at k ds)"
proof -
  have "pin_split (length (takeWhile id (map pinned ds))) (map pinned ds)"
    using assms(1) by (intro pin_split_takeWhile) (simp add: tabs_wf_def)
  then have "pinned_first (map pinned (erase_at k ds))"
    unfolding map_erase_at using assms(2) by (intro pin_split_first [OF pin_split_erase]) auto
  moreover have "distinct (map contents (erase_at k ds))"
    unfolding map_erase_at using assms(1) by (intro distinct_erase_at) (simp add: tabs_wf_def)
  ultimately show ?thesis
    using assms(1) set_erase_at_subset [of k ds] by (auto simp: tabs_wf_def)
qed

text \<open>What a change of the active tab to an index of the strip gives, once the tabs are in place.\<close>

lemma NotifyTabSelectedIfChanged_to:
  assumes t: "tabs_wf env (contents_data s)" and a: "active_index s = i"
    and w: "sel_wf (count s) (selection_model s)" and i: "ContainsIndex s i"
  shows "\<exists>v. NotifyTabSelectedIfChanged env s (Some oc) i g = Some v \<and> keeps env s v \<and> strip_wf env v"
proof -
  obtain v where v: "NotifyTabSelectedIfChanged env s (Some oc) i g = Some v"
    using NotifyTabSelectedIfChanged_returns [of s i env oc g] a i by auto
  moreover have "keeps env s v" by (rule keeps_NotifyTabSelectedIfChanged [OF v])
  ultimately show ?thesis using t w by (auto simp: keeps_def strip_wf_def)
qed

lemma set_decrement_range:
  "sel_wf n sel \<Longrightarrow> 0 \<le> i \<Longrightarrow> i < n \<Longrightarrow> v \<in> set (selected_indices (DecrementFrom sel i)) \<Longrightarrow>
   0 \<le> v \<and> v < n - 1"
  using sel_wf_DecrementFrom [of n sel i] by (auto simp: sel_wf_def)

lemma reselect_after_detach_ok:
  assumes t: "tabs_wf env (contents_data s)" and w: "sel_wf (count s + 1) (selection_model s)"
    and i: "0 \<le> i" "i < count s + 1"
    and n: "active_index s = i \<Longrightarrow> ContainsIndex s n"
  shows "\<exists>v. reselect_after_detach env s i c n = Some v \<and> strip_wf env v \<and>
    map contents (contents_data v) = map contents (contents_data s) \<and>
    (no_links c s \<longrightarrow> no_links c v) \<and> tabs_limit v = tabs_limit s \<and>
    (active_index s = i \<longrightarrow> ContainsIndex v (active_index v))"
proof -
  let ?sel = "DecrementFrom (selection_model s) i"
  let ?s1 = "set_selection s ?sel"
  have w1: "sel_wf (count s) ?sel" using sel_wf_DecrementFrom [OF w i] by simp
  show ?thesis
  proof (cases "active_index s = i")
    case False
    then show ?thesis
      using t w1 by (auto simp: reselect_after_detach_def Let_def strip_wf_def)
  next
    case True
    have to: "\<exists>v. NotifyTabSelectedIfChanged env (set_selection s sel) (Some c) k False = Some v \<and>
        strip_wf env v \<and> map contents (contents_data v) = map contents (contents_data s) \<and>
        (no_links c s \<longrightarrow> no_links c v) \<and> tabs_limit v = tabs_limit s \<and> ContainsIndex v (active_index v)"
      if "sel_wf (count s) sel" "active sel = k" "ContainsIndex s k" for sel k
    proof -
      note a = that
      obtain v where v: "NotifyTabSelectedIfChanged env (set_selection s sel) (Some c) k False = Some v"
        "keeps env (set_selection s sel) v" "strip_wf env v"
        using NotifyTabSelectedIfChanged_to [of env "set_selection s sel" k c False] t a
        unfolding set_selection_fields by blast
      have "active_index v = k" using v(2) that by (simp add: keeps_def active_index_def)
      moreover have "count v = count s" using keeps_count [OF v(2)] by simp
      ultimately show ?thesis
        using v no_links_NotifyTabSelectedIfChanged [OF v(1)] that(3)
        by (auto simp: keeps_def ContainsIndex_def)
    qed
    show ?thesis
    proof (cases "selected_indices ?sel")
      case Nil
      have "select_index ?s1 n = Some (set_selection s (?sel\<lparr>selected_indices := [n], active := n, anchor := n\<rparr>))"
        using n True by (simp add: select_index_eq ContainsIndex_def set_selection_def)
      then show ?thesis
        using True Nil to [of "?sel\<lparr>selected_indices := [n], active := n, anchor := n\<rparr>" n] n
        by (simp add: reselect_after_detach_def Let_def sel_wf_single ContainsIndex_def)
    next
      case (Cons k ks)
      then have k: "0 \<le> k" "k < count s"
        using set_decrement_range [OF w i, of k] by auto
      have "sel_wf (count s) (?sel\<lparr>active := k, anchor := k\<rparr>)"
        using w1 k by (simp add: sel_wf_def)
      then show ?thesis
        using True Cons k to [of "?sel\<lparr>active := k, anchor := k\<rparr>" k]
        by (simp add: reselect_after_detach_def Let_def ContainsIndex_def set_selection_def)
    qed
  qed
qed

lemma DetermineNewSelectedIndex_Some:
  "ContainsIndex s i \<Longrightarrow> \<exists>k. DetermineNewSelectedIndex s i = Some k"
  by (auto simp: DetermineNewSelectedIndex_def GetOpenerOfTabContentsAt_def vec_at_def GetTabContentsAt_eq
        GetContentsAt_in_range ContainsIndex_def count_def Let_def split: option.splits)

lemma detach_ok:
  assumes wf: "strip_wf env s" and i: "ContainsIndex s i"
  shows "\<exists>t. DetachTabContentsAt env s i = Some (Some (contents (contents_data s ! nat i)), t) \<and>
    strip_wf env t \<and> no_links (contents (contents_data s ! nat i)) t \<and>
    map contents (contents_data t) = erase_at (nat i) (map contents (contents_data s)) \<and>
    tabs_limit t = tabs_limit s \<and>
    (i = active_index s \<and> contents_data t \<noteq> [] \<longrightarrow> ContainsIndex t (active_index t))"
proof -
  let ?c = "contents (contents_data s ! nat i)"
  let ?s1 = "s\<lparr>contents_data := erase_at (nat i) (contents_data s)\<rparr>"
  let ?s2 = "ForgetOpenersAndGroupsReferencing ?c ?s1"
  define s4 where "s4 = emit (TabDetachedAt ?c i)
     (if contents_data ?s2 = [] then ?s2\<lparr>closing_all := True\<rparr> else ?s2)"
  have ir: "nat i < length (contents_data s)" "0 \<le> i" "i < count s"
    using i ContainsIndex_nat [OF i] by (auto simp: ContainsIndex_def)
  have lose: "loses_links ?s1 ?s2" by (rule loses_links_ForgetReferencing)
  note f = loses_links_fields [OF lose]
  have s4: "contents_data s4 = contents_data ?s2" "selection_model s4 = selection_model s"
    "active_index s4 = active_index s" "tabs_limit s4 = tabs_limit s" "count s4 = count s - 1"
    using f ir by (auto simp: s4_def count_def active_index_def vec_simps)
  have t4: "tabs_wf env (contents_data s4)"
    using tabs_wf_weaker [OF tabs_wf_erase [of env "contents_data s" "nat i"]] wf ir lose
    by (simp add: s4(1) loses_links_def strip_wf_def)
  have n4: "no_links ?c s4"
    using no_links_ForgetReferencing [of ?c ?s1] by (simp add: no_links_def s4(1))
  have m4: "map contents (contents_data s4) = erase_at (nat i) (map contents (contents_data s))"
    using f(8) by (simp add: s4(1) map_erase_at)
  obtain k where k: "DetermineNewSelectedIndex s i = Some k"
    using DetermineNewSelectedIndex_Some [OF i] by blast
  have ne: "contents_data s \<noteq> []" using ir by auto
  then have eq: "DetachTabContentsAt env s i = map_option (Pair (Some ?c))
      (if contents_data s4 = [] then Some (emit TabStripEmpty s4)
       else reselect_after_detach env s4 i ?c k)"
    using i k by (simp add: DetachTabContentsAt_def GetContentsAt_in_range Let_def s4_def
      map_conv_bind_option comp_def)
  show ?thesis
  proof (cases "contents_data s4 = []")
    case True
    then show ?thesis
      using eq t4 n4 m4 s4 by (auto simp: strip_wf_def)
  next
    case False
    then have "1 < count s" using s4(5) by (cases "contents_data s4") (auto simp: count_def)
    then have "active_index s = i \<Longrightarrow> ContainsIndex s4 k"
      using order.new_index_of_rest [OF wf _ i, of s4] s4 ir k by auto
    moreover have "sel_wf (count s4 + 1) (selection_model s4)"
      using wf ne s4 by (simp add: strip_wf_def)
    ultimately obtain v where "reselect_after_detach env s4 i ?c k = Some v" "strip_wf env v"
      "map contents (contents_data v) = map contents (contents_data s4)" "no_links ?c v"
      "tabs_limit v = tabs_limit s4" "active_index s = i \<longrightarrow> ContainsIndex v (active_index v)"
      using reselect_after_detach_ok [OF t4, of i k ?c] s4 ir n4 by auto
    then show ?thesis using eq False m4 s4 by auto
  qed
qed

subsection \<open>Activating\<close>

lemma ActivateTabAt_ok:
  assumes wf: "strip_wf env s" and i: "ContainsIndex s i" and a: "ContainsIndex s (active_index s)"
  shows "\<exists>t. ActivateTabAt s i g = Some t \<and> strip_wf env t \<and> active_index t = i \<and>
    selected_indices (selection_model t) = [i] \<and> tabs_limit t = tabs_limit s \<and>
    map contents (contents_data t) = map contents (contents_data s)"
proof -
  let ?s1 = "set_selection s ((selection_model s)\<lparr>selected_indices := [i], active := i, anchor := i\<rparr>)"
  have i': "0 \<le> i" "i < count s" using i by (auto simp: ContainsIndex_def)
  have w1: "strip_wf env ?s1" using wf i' by (simp add: strip_wf_def sel_wf_single)
  have act: "active_index s \<noteq> kUnselectedIndex" using a by (auto simp: ContainsIndex_def kUnselectedIndex_def)
  have sel: "GetSelectedTabContents s = Some (contents (contents_data s ! nat (active_index s)))"
    using a by (simp add: GetSelectedTabContents_def GetTabContentsAt_eq GetContentsAt_in_range)
  have ret: "\<exists>t. notify_TabSelectedAt u (Some oc) (Some nc) g = Some t" if "u = ?s1 \<or> u = emit e ?s1" for u oc nc e
    using that i by (intro notify_returns) auto
  have k: "keeps env ?s1 t" if "u = ?s1 \<or> u = emit e ?s1" "notify_TabSelectedAt u x y g = Some t" for t u x y e
    using that by (auto intro: keeps_notify keeps_trans [OF keeps_emit])
  have "\<exists>t. ActivateTabAt s i g = Some t \<and> keeps env ?s1 t"
    using i i' act sel ret [of ?s1] ret [of "emit e ?s1" e for e] k
    by (simp add: ActivateTabAt_def select_index_eq GetContentsAt_in_range Let_def) blast
  then show ?thesis using w1 by (auto simp: keeps_def active_index_def)
qed

subsection \<open>Moving and pinning\<close>

lemma erase_at_update: "erase_at k (xs[k := x]) = erase_at k xs"
  by (simp add: erase_at_def)

lemma insert_erase_same: "k < length xs \<Longrightarrow> insert_at k x (erase_at k xs) = xs[k := x]"
  by (simp add: insert_at_def erase_at_def min_def upd_conv_take_nth_drop)

text \<open>The tabs after one of them has been taken out and put back, with a new pinned flag.\<close>

lemma tabs_wf_move:
  assumes wf: "tabs_wf env ds" and split: "pin_split L (map pinned ds)" and i: "i < length ds"
    and d: "contents d = contents (ds ! i)" "opener d = opener (ds ! i)" "is_app env (contents d) \<longrightarrow> pinned d"
    and k: "k < length ds" and side: "if pinned d then k \<le> (if i < L then L - 1 else L)
                                     else (if i < L then L - 1 else L) \<le> k"
  shows "tabs_wf env (insert_at k d (erase_at i ds))"
proof (rule tabs_wf_insert [OF tabs_wf_erase [OF wf i]])
  have m: "ds ! i \<in> set ds" using i by simp
  show "contents d \<notin> contents ` set (erase_at i ds)"
  proof -
    have "mset (map contents ds) = add_mset (contents d) (mset (map contents (erase_at i ds)))"
      using mset_erase_at [of i "map contents ds"] i d(1) by (simp add: map_erase_at)
    also have "\<dots> = mset (contents d # map contents (erase_at i ds))" by simp
    finally have "distinct (contents d # map contents (erase_at i ds))"
      using wf mset_eq_imp_distinct_iff by (fastforce simp: tabs_wf_def)
    then show ?thesis by simp
  qed
  show "pin_split (if i < L then L - 1 else L) (map pinned (erase_at i ds))"
    unfolding map_erase_at using pin_split_erase [OF split] i by simp
  show "opener d \<noteq> Some (contents d)" using wf m d(1,2) by (simp add: tabs_wf_def)
qed (use d k i side in \<open>auto simp: vec_simps\<close>)

lemma MoveTabContentsAtImpl_ok:
  assumes i: "ContainsIndex s i" and k: "ContainsIndex s k" and w: "sel_wf (count s) (selection_model s)"
    and ne: "i \<noteq> k"
    and t: "tabs_wf env (insert_at (nat k) (contents_data s ! nat i) (erase_at (nat i) (contents_data s)))"
  shows "\<exists>t. MoveTabContentsAtImpl s i k b = Some t \<and> strip_wf env t \<and>
    contents_data t = insert_at (nat k) (contents_data s ! nat i) (erase_at (nat i) (contents_data s)) \<and>
    tabs_limit t = tabs_limit s \<and>
    (if b \<and> \<not> IsSelected (Move (selection_model s) i k) 1
     then selected_indices (selection_model t) = [k] \<and> active_index t = k
     else selection_model t = Move (selection_model s) i k)"
proof -
  have ik: "0 \<le> i" "i < count s" "0 \<le> k" "k < count s" "nat i < length (contents_data s)"
    using i k by (auto simp: ContainsIndex_def count_def)
  let ?ds = "insert_at (nat k) (contents_data s ! nat i) (erase_at (nat i) (contents_data s))"
  let ?s1 = "s\<lparr>contents_data := ?ds, selection_model := Move (selection_model s) i k\<rparr>"
  have c: "int (length ?ds) = count s" using ik by (simp add: vec_simps count_def)
  have w1: "sel_wf (count s) (Move (selection_model s) i k)"
    using sel_wf_Move [OF w ne] ik by simp
  have at: "vec_at (contents_data s) i = Some (contents_data s ! nat i)"
    using ik by (simp add: vec_at_def count_def)
  have "strip_wf env ?s1"
    using t w1 c by (simp add: strip_wf_def count_def)
  moreover have "strip_wf env (set_selection ?s1
      ((selection_model ?s1)\<lparr>selected_indices := [k], active := k, anchor := k\<rparr>))"
    using t ik c by (simp add: strip_wf_def sel_wf_single count_def)
  ultimately show ?thesis
    using at k ik by (simp add: MoveTabContentsAtImpl_def Let_def select_index_eq active_index_def)
qed

lemma MoveTabContentsAt_ok:
  assumes wf: "strip_wf env s" and i: "ContainsIndex s i" and k: "ContainsIndex s k"
  shows "\<exists>t. MoveTabContentsAt env s i k b = Some t \<and> strip_wf env t \<and> tabs_limit t = tabs_limit s \<and>
    mset (map contents (contents_data t)) = mset (map contents (contents_data s)) \<and>
    (active_index s \<noteq> -1 \<longrightarrow> active_index t \<noteq> -1)"
proof -
  obtain L where L: "first_non_mini_from env (contents_data s) 0 = int L"
    "pin_split L (map pinned (contents_data s))"
    using first_non_mini_split wf unfolding strip_wf_def by blast
  have ik: "0 \<le> i" "i < count s" "0 \<le> k" "k < count s" "nat i < length (contents_data s)"
    "nat k < length (contents_data s)"
    using i k by (auto simp: ContainsIndex_def count_def)
  show ?thesis
  proof (cases "i = k \<or> (i < int L \<and> int L \<le> k) \<or> (k < int L \<and> int L \<le> i)")
    case True
    then show ?thesis using wf L by (auto simp: MoveTabContentsAt_def IndexOfFirstNonMiniTab_def)
  next
    case False
    let ?d = "contents_data s ! nat i"
    have "pinned ?d \<longleftrightarrow> nat i < L" using L(2) ik by (simp add: pin_split_def)
    moreover have "?d \<in> set (contents_data s)" using ik by simp
    ultimately have t: "tabs_wf env (insert_at (nat k) ?d (erase_at (nat i) (contents_data s)))"
      using wf L False ik by (intro tabs_wf_move) (auto simp: strip_wf_def tabs_wf_def)
    have w: "sel_wf (count s) (selection_model s)" using wf ik by (auto simp: strip_wf_def)
    obtain t where t': "MoveTabContentsAtImpl s i k b = Some t" "strip_wf env t"
      "contents_data t = insert_at (nat k) ?d (erase_at (nat i) (contents_data s))"
      "tabs_limit t = tabs_limit s"
      "if b \<and> \<not> IsSelected (Move (selection_model s) i k) 1
       then selected_indices (selection_model t) = [k] \<and> active_index t = k
       else selection_model t = Move (selection_model s) i k"
      using MoveTabContentsAtImpl_ok [OF i k w _ t] False by blast
    have "mset (map contents (contents_data t)) = mset (map contents (contents_data s))"
      using mset_erase_at [of "nat i" "map contents (contents_data s)"] ik(5)
      by (simp add: t'(3) map_insert_at map_erase_at mset_insert_at del: mset_map)
    moreover have "active_index s \<noteq> -1 \<longrightarrow> active_index t \<noteq> -1"
    proof
      assume "active_index s \<noteq> -1"
      then have "0 \<le> active (selection_model s)" using w by (simp add: sel_wf_def active_index_def)
      then show "active_index t \<noteq> -1"
        using t'(5) ik False w Move_active [of i k "selection_model s"]
          move_pos_bounds [of i "count s" k "active (selection_model s)"]
        by (auto simp: active_index_def sel_wf_def split: if_splits)
    qed
    ultimately show ?thesis
      using t' False L by (auto simp: MoveTabContentsAt_def IndexOfFirstNonMiniTab_def)
  qed
qed

lemma SetTabPinned_ok:
  assumes wf: "strip_wf env s" and i: "ContainsIndex s i"
  shows "\<exists>t k. SetTabPinned env s i p = Some t \<and> strip_wf env t \<and> tabs_limit t = tabs_limit s \<and>
    mset (map contents (contents_data t)) = mset (map contents (contents_data s)) \<and>
    (active_index s \<noteq> -1 \<longrightarrow> active_index t \<noteq> -1) \<and>
    ((\<not> p \<and> IsAppTab env s i \<and> t = s) \<or>
     (GetContentsAt t k = GetContentsAt s i \<and> IsTabPinned t k = Some p))"
proof -
  let ?ds = "contents_data s" let ?d = "contents_data s ! nat i"
  obtain L where L: "first_non_mini_from env ?ds 0 = int L" "pin_split L (map pinned ?ds)"
    using first_non_mini_split wf unfolding strip_wf_def by blast
  have ik: "0 \<le> i" "i < count s" "nat i < length ?ds" using i by (auto simp: ContainsIndex_def count_def)
  have at: "vec_at ?ds i = Some ?d" using ik by (simp add: vec_at_def)
  have mem: "?d \<in> set ?ds" using ik by simp
  have app: "IsAppTab env s i = is_app env (contents ?d)"
    using i by (simp add: IsAppTab_def GetTabContentsAt_eq GetContentsAt_in_range)
  have app_pin: "is_app env (contents ?d) \<longrightarrow> pinned ?d" using wf mem by (auto simp: strip_wf_def tabs_wf_def)
  show ?thesis
  proof (cases "pinned ?d = p \<or> is_app env (contents ?d)")
    case True
    then have "SetTabPinned env s i p = Some s"
      using at app app_pin by (auto simp: SetTabPinned_def)
    moreover have "\<not> p \<and> IsAppTab env s i \<or> IsTabPinned s i = Some p"
      using True at app app_pin by (auto simp: IsTabPinned_def)
    ultimately show ?thesis using wf by blast
  next
    case False
    define k where "k = (if p then L else L - 1)"
    define s1 where "s1 = update_data i (\<lambda>d. d\<lparr>pinned := p\<rparr>) s"
    let ?new = "insert_at k (?d\<lparr>pinned := p\<rparr>) (erase_at (nat i) ?ds)"
    have side: "nat i < L \<longleftrightarrow> \<not> p" using False L(2) ik by (auto simp: pin_split_def)
    have k: "k < length ?ds" using side L(2) ik by (auto simp: k_def pin_split_def)
    have t: "tabs_wf env ?new"
      using wf L(2) ik(3) k side False by (intro tabs_wf_move) (auto simp: strip_wf_def k_def)
    have w: "sel_wf (count s) (selection_model s)" using wf ik by (auto simp: strip_wf_def)
    have s1: "count s1 = count s" "ContainsIndex s1 i" "ContainsIndex s1 (int k)"
      "selection_model s1 = selection_model s" "tabs_limit s1 = tabs_limit s"
      "contents_data s1 = ?ds[nat i := ?d\<lparr>pinned := p\<rparr>]"
      using i k by (auto simp: s1_def ContainsIndex_def count_def update_data_def)
    have moved: "\<exists>v. (if i \<noteq> int k then map_option (\<lambda>t. (t, int k)) (MoveTabContentsAtImpl s1 i (int k) False)
                      else Some (s1, i)) = Some (v, int k) \<and> strip_wf env v \<and> contents_data v = ?new \<and>
        tabs_limit v = tabs_limit s \<and> (active_index s \<noteq> -1 \<longrightarrow> active_index v \<noteq> -1)"
    proof (cases "i = int k")
      case True
      then have eq: "contents_data s1 = ?new" using s1(6) ik by (simp add: insert_erase_same)
      then have "strip_wf env s1" using t w s1(1,4) by (simp add: strip_wf_def)
      then show ?thesis using True eq s1 by (simp add: active_index_def)
    next
      case False
      have "tabs_wf env (insert_at (nat (int k)) (contents_data s1 ! nat i) (erase_at (nat i) (contents_data s1)))"
        using t ik(3) by (simp add: s1(6) erase_at_update)
      from MoveTabContentsAtImpl_ok [OF s1(2,3) _ False this, of False]
      obtain v where v: "MoveTabContentsAtImpl s1 i (int k) False = Some v" "strip_wf env v"
        "contents_data v = ?new" "tabs_limit v = tabs_limit s"
        "selection_model v = Move (selection_model s) i (int k)"
        using w s1 ik(3) by (auto simp: erase_at_update)
      have "active_index s \<noteq> -1 \<longrightarrow> active_index v \<noteq> -1"
      proof
        assume "active_index s \<noteq> -1"
        then have "0 \<le> active (selection_model s)" using w by (simp add: sel_wf_def active_index_def)
        then show "active_index v \<noteq> -1"
          using v(5) ik False w k Move_active [of i "int k" "selection_model s"]
            move_pos_bounds [of i "count s" "int k" "active (selection_model s)"]
          by (auto simp: active_index_def sel_wf_def count_def)
      qed
      then show ?thesis using False v by simp
    qed
    then obtain v where v: "(if i \<noteq> int k then map_option (\<lambda>t. (t, int k)) (MoveTabContentsAtImpl s1 i (int k) False)
                      else Some (s1, i)) = Some (v, int k)" "strip_wf env v" "contents_data v = ?new"
        "tabs_limit v = tabs_limit s" "active_index s \<noteq> -1 \<longrightarrow> active_index v \<noteq> -1"
      by blast
    have vk: "vec_at (contents_data v) (int k) = Some (?d\<lparr>pinned := p\<rparr>)"
      using k ik(3) by (simp add: v(3) vec_at_def vec_simps)
    let ?t = "emit (TabPinnedStateChanged (contents ?d) (int k)) (emit (TabMiniStateChanged (contents ?d) (int k)) v)"
    have nL: "nat (int L - 1) = L - Suc 0" by simp
    have "SetTabPinned env s i p = Some ?t"
      using nL at app False v(1) vk side ik L(1)
      by (auto simp: SetTabPinned_def Let_def IndexOfFirstNonMiniTab_def GetContentsAt_def k_def
                     s1_def [symmetric] of_nat_diff split: if_splits)
    moreover have "mset (map contents (contents_data ?t)) = mset (map contents ?ds)"
      using mset_erase_at [of "nat i" "map contents ?ds"] ik(3)
      by (simp add: v(3) map_insert_at map_erase_at mset_insert_at del: mset_map)
    moreover have "GetContentsAt ?t (int k) = GetContentsAt s i \<and> IsTabPinned ?t (int k) = Some p"
      using vk at by (simp add: GetContentsAt_def IsTabPinned_def)
    ultimately show ?thesis using v(2,4,5) by (intro exI [of _ ?t] exI [of _ "int k"]) auto
  qed
qed

subsection \<open>The strip's clients\<close>

text \<open>
  One step is one call of a client that returns. A new tab is one the strip has never seen; the
  first tab of an empty strip is inserted active; and at the tab limit an app tab may only take the
  place of a pinned one (the code does not check this, see \<open>limit_breaks_mini_order\<close>).
\<close>

inductive strip_step :: "tab_env \<Rightarrow> tab_strip \<Rightarrow> tab_strip \<Rightarrow> bool" for env where
  insert: "fresh_tab s c \<Longrightarrow> contents_data s \<noteq> [] \<or> has_flag types ADD_ACTIVE \<Longrightarrow>
    (is_app env c \<longrightarrow> IsTabPinned s (replace_index env s) = Some True \<or> \<not> IsReachTabsLimit env s) \<Longrightarrow>
    InsertTabContentsAt env s i c types = Some t \<Longrightarrow> strip_step env s t"
| detach: "DetachTabContentsAt env s i = Some (c, t) \<Longrightarrow> strip_step env s t"
| activate: "ActivateTabAt s i g = Some t \<Longrightarrow> strip_step env s t"
| move: "ContainsIndex s i \<Longrightarrow> MoveTabContentsAt env s i k b = Some t \<Longrightarrow> strip_step env s t"
| pin: "SetTabPinned env s i p = Some t \<Longrightarrow> strip_step env s t"
| block: "SetTabBlocked s i p = Some t \<Longrightarrow> strip_step env s t"
| toggle: "ContainsIndex s i \<Longrightarrow> ToggleSelectionAt s i = Some t \<Longrightarrow> strip_step env s t"
| extend: "ContainsIndex s i \<Longrightarrow> ExtendSelectionTo s i = Some t \<Longrightarrow> strip_step env s t"
| navigate: "TabNavigating env s c tr = Some t \<Longrightarrow> strip_step env s t"
| policy: "SetInsertionPolicy p s = t \<Longrightarrow> strip_step env s t"

inductive_cases strip_stepE: "strip_step env s t"

inductive reachable :: "tab_env \<Rightarrow> int option \<Rightarrow> tab_strip \<Rightarrow> bool" for env limit where
  start: "reachable env limit (new_tab_strip limit)"
| step: "reachable env limit s \<Longrightarrow> strip_step env s t \<Longrightarrow> reachable env limit t"

text \<open>What holds between two calls: \<open>strip_wf\<close>, and a strip with tabs has an active one.\<close>

definition strip_ok :: "tab_env \<Rightarrow> tab_strip \<Rightarrow> bool" where
  "strip_ok env s \<longleftrightarrow> strip_wf env s \<and> (contents_data s \<noteq> [] \<longrightarrow> ContainsIndex s (active_index s)) \<and>
     2 \<le> tabs_limit s"

lemma strip_okI:
  "strip_wf env s \<Longrightarrow> (contents_data s \<noteq> [] \<Longrightarrow> active_index s \<noteq> -1) \<Longrightarrow> 2 \<le> tabs_limit s \<Longrightarrow> strip_ok env s"
  by (auto simp: strip_ok_def strip_wf_def sel_wf_def ContainsIndex_def active_index_def)

lemma strip_ok_active: "strip_ok env s \<Longrightarrow> contents_data s \<noteq> [] \<Longrightarrow> active_index s \<noteq> -1"
  by (auto simp: strip_ok_def ContainsIndex_def)

lemma keeps_ok:
  assumes "strip_ok env s" "keeps env s t"
  shows "strip_ok env t"
proof -
  have "contents_data t = [] \<longleftrightarrow> contents_data s = []"
    using assms(2) unfolding keeps_def by (metis map_is_Nil_conv)
  then show ?thesis
    using assms keeps_count [OF assms(2)]
    by (auto simp: keeps_def strip_ok_def ContainsIndex_def active_index_def)
qed

lemma with_selection_ok:
  "strip_ok env s \<Longrightarrow> sel_wf (count s) sel \<Longrightarrow> 0 \<le> active sel \<Longrightarrow> strip_ok env (set_selection s sel)"
  by (auto simp: strip_ok_def strip_wf_def sel_wf_def ContainsIndex_def)

lemma ok_sel: "strip_ok env s \<Longrightarrow> contents_data s \<noteq> [] \<Longrightarrow> sel_wf (count s) (selection_model s)"
  by (simp add: strip_ok_def strip_wf_def)

lemma ContainsIndex_nonempty: "ContainsIndex s i \<Longrightarrow> contents_data s \<noteq> []"
  by (auto simp: ContainsIndex_def count_def)

lemma reach_limit_nonempty: "strip_ok env s \<Longrightarrow> IsReachTabsLimit env s \<Longrightarrow> contents_data s \<noteq> []"
  by (auto simp: strip_ok_def IsReachTabsLimit_def count_def)

subsection \<open>Inserting returns\<close>

lemma notify_returns_quiet:
  assumes "ContainsIndex s (active_index s)"
  shows "\<exists>t. notify_TabSelectedAt s old (Some nc) False = Some t"
proof (cases old)
  case None
  then show ?thesis
    using assms by (auto simp: notify_TabSelectedAt_def order_TabSelectedAt_def old_tab_links_def
      GetOpenerOfTabContentsAt_def vec_at_def ContainsIndex_def count_def)
next
  case (Some oc)
  then show ?thesis using notify_returns [OF assms] by simp
qed

lemma NotifyTabSelectedIfChanged_returns_quiet:
  assumes "ContainsIndex s i" "ContainsIndex s (active_index s)"
  shows "\<exists>t. NotifyTabSelectedIfChanged env s old i False = Some t"
proof -
  let ?u = "update_data i (\<lambda>d. d\<lparr>last_visit_time := now env\<rparr>) s"
  have "\<exists>t. notify_TabSelectedAt u old (Some nc) False = Some t" if "u = ?u \<or> u = emit e ?u" for u nc e
    using that assms by (intro notify_returns_quiet) auto
  then show ?thesis
    using assms by (auto simp: NotifyTabSelectedIfChanged_def GetContentsAt_in_range Let_def split: option.split)
qed

lemma select_and_notify_returns:
  assumes "0 \<le> k" "k < count u"
  shows "\<exists>v. do { s5 \<leftarrow> select_index u k; NotifyTabSelectedIfChanged env s5 old k False } = Some v"
  using assms by (simp add: select_index_eq NotifyTabSelectedIfChanged_returns_quiet ContainsIndex_def)

lemma insert_new_tab_returns:
  assumes wf: "tabs_wf env (contents_data s)" and fresh: "fresh_tab s c"
  shows "\<exists>v. insert_new_tab env s i c t = Some v"
proof -
  define pin where "pin = (is_app env c \<or> has_flag t ADD_PINNED)"
  define k where "k = nat (ConstrainInsertionIndex env s i pin)"
  obtain d s2 where eq: "insert_new_tab env s i c t =
       (let s4 = emit (TabInsertedAt c (int k) (has_flag t ADD_ACTIVE)) (with_tab s2 k d)
        in if has_flag t ADD_ACTIVE then do {
             s5 \<leftarrow> select_index s4 (int k);
             NotifyTabSelectedIfChanged env s5 (GetSelectedTabContents s) (int k) False
           } else Some s4)"
    and lose: "loses_links (s\<lparr>closing_all := False\<rparr>) s2" and k: "k \<le> length (contents_data s)"
    using insert_new_tab_cases [OF wf fresh k_def pin_def] by metis
  have "count s2 = count s" using loses_links_fields [OF lose] by (simp add: count_def)
  then have "int k < count (emit e (with_tab s2 k d))" for e using k by (simp add: count_def vec_simps)
  then show ?thesis
    unfolding eq Let_def using select_and_notify_returns [of "int k"] by auto
qed

lemma replace_at_limit_returns:
  assumes "contents_data s \<noteq> []"
  shows "\<exists>v. replace_at_limit env s c act = Some v"
proof -
  let ?ri = "replace_index env s"
  have ri: "ContainsIndex s ?ri" using assms by (rule replace_index_bounds)
  obtain oc s1 where s1: "ReplaceTabContentsAt s ?ri c = Some (oc, s1)"
    using ReplaceTabContentsAt_returns [OF ri, of c] by auto
  have c: "count s1 = count s"
    using s1 loses_links_fields(10) [OF loses_links_ForgetReferencing [of s]] keeps_count [OF keeps_notify]
    by (fastforce simp: ReplaceTabContentsAt_def bind_eq_Some_conv Let_def split: if_splits)
  have "\<exists>v. do { s5 \<leftarrow> select_index s1 ?ri;
                 NotifyTabSelectedIfChanged env s5 (GetSelectedTabContents s) ?ri False } = Some v"
    using ri c by (intro select_and_notify_returns) (auto simp: ContainsIndex_def)
  then show ?thesis using s1 by (auto simp: replace_at_limit_def Let_def)
qed

text \<open>One statement for the two ways an insertion ends.\<close>

definition at_limit :: "tab_env \<Rightarrow> tab_strip \<Rightarrow> tab_id \<Rightarrow> bool" where
  "at_limit env s c \<longleftrightarrow> url_scheme env c \<noteq> ''chrome'' \<and> url_scheme env c \<noteq> ''chrome-extension'' \<and>
     IsReachTabsLimit env s"

lemma insert_at_limit_ok:
  assumes ok: "strip_ok env s" and fresh: "fresh_tab s c" and lim: "at_limit env s c"
    and app: "is_app env c \<longrightarrow> IsTabPinned s (replace_index env s) = Some True"
  shows "\<exists>v. InsertTabContentsAt env s i c t = Some v \<and> strip_ok env v \<and> tabs_limit v = tabs_limit s \<and>
    map contents (contents_data v) = (map contents (contents_data s))[nat (replace_index env s) := c] \<and>
    (has_flag t ADD_ACTIVE \<longrightarrow> active_index v = replace_index env s)"
proof -
  have ne: "contents_data s \<noteq> []" using reach_limit_nonempty [OF ok] lim by (simp add: at_limit_def)
  obtain v where v: "replace_at_limit env s c (has_flag t ADD_ACTIVE) = Some v"
    using replace_at_limit_returns [OF ne, of env c "has_flag t ADD_ACTIVE"] by blast
  have "strip_wf env s" using ok by (simp add: strip_ok_def)
  note r = replace_at_limit_wf [OF this fresh ne app v]
  have "0 \<le> replace_index env s" using replace_index_bounds [OF ne, of env] by (simp add: ContainsIndex_def)
  then have "active_index v \<noteq> -1"
    using r strip_ok_active [OF ok ne] by (auto simp: active_index_def split: if_splits)
  then have "strip_ok env v" using r ok by (intro strip_okI) (auto simp: strip_ok_def)
  then show ?thesis using r v lim by (auto simp: InsertTabContentsAt_def at_limit_def)
qed

lemma insert_below_limit_ok:
  assumes ok: "strip_ok env s" and fresh: "fresh_tab s c" and lim: "\<not> at_limit env s c"
    and first: "contents_data s \<noteq> [] \<or> has_flag t ADD_ACTIVE"
  shows "\<exists>v. InsertTabContentsAt env s i c t = Some v \<and> strip_ok env v \<and> tabs_limit v = tabs_limit s \<and>
    mset (map contents (contents_data v)) = add_mset c (mset (map contents (contents_data s))) \<and>
    (has_flag t ADD_ACTIVE \<longrightarrow> GetSelectedTabContents v = Some c)"
proof -
  have wf: "strip_wf env s" using ok by (simp add: strip_ok_def)
  then obtain v where v: "insert_new_tab env s i c t = Some v"
    using insert_new_tab_returns fresh unfolding strip_wf_def by blast
  note r = insert_new_tab_wf [OF wf fresh _ v]
  have "has_flag t ADD_ACTIVE \<or> 0 \<le> active_index s"
    using ok first by (auto simp: strip_ok_def ContainsIndex_def)
  then have "strip_ok env v" using r first ok by (intro strip_okI) (auto simp: strip_ok_def)
  then show ?thesis using r first v lim by (auto simp: InsertTabContentsAt_def at_limit_def)
qed

subsection \<open>The other steps\<close>

lemma ActivateTabAt_Some_contains: "ActivateTabAt s i g = Some t \<Longrightarrow> ContainsIndex s i"
  by (auto simp: ActivateTabAt_def bind_eq_Some_conv Let_def GetContentsAt_Some select_index_def)

lemma activate_step_ok:
  assumes ok: "strip_ok env s" and r: "ActivateTabAt s i g = Some t"
  shows "strip_ok env t"
proof -
  have i: "ContainsIndex s i" by (rule ActivateTabAt_Some_contains [OF r])
  then have "ContainsIndex s (active_index s)" using ok by (auto simp: strip_ok_def dest: ContainsIndex_nonempty)
  from ActivateTabAt_ok [OF _ i this, of env g] ok r i show ?thesis
    by (intro strip_okI) (auto simp: strip_ok_def ContainsIndex_def)
qed

lemma detach_step_ok:
  assumes ok: "strip_ok env s" and r: "DetachTabContentsAt env s i = Some (c, t)"
  shows "strip_ok env t"
proof (cases "contents_data s = []")
  case True
  then show ?thesis using r ok by (simp add: DetachTabContentsAt_def)
next
  case False
  then have i: "ContainsIndex s i"
    using r by (auto simp: DetachTabContentsAt_def bind_eq_Some_conv GetContentsAt_Some)
  have wf: "strip_wf env s" using ok by (simp add: strip_ok_def)
  note d = detach_ok [OF wf i]
  have "active_index t \<noteq> -1" if ne: "contents_data t \<noteq> []"
  proof (cases "i = active_index s")
    case True
    then show ?thesis using d r ne by (auto simp: ContainsIndex_def)
  next
    case other: False
    have "selection_model t = DecrementFrom (selection_model s) i"
      using r other ne loses_links_fields(1) [OF loses_links_ForgetReferencing]
      by (auto simp: DetachTabContentsAt_def reselect_after_detach_def bind_eq_Some_conv Let_def
            active_index_def split: if_splits)
    then show ?thesis
      using ok False i other
      by (auto simp: strip_ok_def active_index_def decrement_from_impl_def ContainsIndex_def)
  qed
  then show ?thesis using d r ok by (intro strip_okI) (auto simp: strip_ok_def)
qed

lemma NotifySelectionChanged_ok:
  assumes "strip_ok env s" "contents_data s \<noteq> []" "sel_wf (count s) sel" "0 \<le> active sel"
    and "NotifySelectionChanged (set_selection s sel) k = Some t"
  shows "strip_ok env t"
  using keeps_ok [OF with_selection_ok [OF assms(1,3,4)] keeps_NotifySelectionChanged [OF assms(5)]] .

lemma move_step_ok:
  assumes ok: "strip_ok env s" and i: "ContainsIndex s i" and r: "MoveTabContentsAt env s i k b = Some t"
  shows "strip_ok env t"
proof (cases "t = s")
  case False
  then have k: "ContainsIndex s k"
    using r by (auto simp: MoveTabContentsAt_def MoveTabContentsAtImpl_def bind_eq_Some_conv Let_def split: if_splits)
  have wf: "strip_wf env s" using ok by (simp add: strip_ok_def)
  show ?thesis
    using MoveTabContentsAt_ok [OF wf i k, of b] r ok strip_ok_active [OF ok ContainsIndex_nonempty [OF i]]
    by (intro strip_okI) (auto simp: strip_ok_def)
qed (use ok in simp)

lemma SetTabPinned_contains: "SetTabPinned env s i p = Some t \<Longrightarrow> ContainsIndex s i"
  by (auto simp: SetTabPinned_def bind_eq_Some_conv vec_at_eq_Some ContainsIndex_def count_def)

lemma pin_step_ok:
  assumes ok: "strip_ok env s" and r: "SetTabPinned env s i p = Some t"
  shows "strip_ok env t"
proof -
  have i: "ContainsIndex s i" by (rule SetTabPinned_contains [OF r])
  have wf: "strip_wf env s" using ok by (simp add: strip_ok_def)
  show ?thesis
    using SetTabPinned_ok [OF wf i, of p] r ok strip_ok_active [OF ok ContainsIndex_nonempty [OF i]]
    by (intro strip_okI) (auto simp: strip_ok_def)
qed

lemma block_step_ok: "strip_ok env s \<Longrightarrow> SetTabBlocked s i p = Some t \<Longrightarrow> strip_ok env t"
  by (auto simp: SetTabBlocked_def bind_eq_Some_conv split: if_splits
           intro!: keeps_ok [of env s] keeps_trans [OF keeps_update keeps_emit])

lemma remove1_wf:
  "sel_wf n sel \<Longrightarrow> 0 \<le> i \<Longrightarrow> i < n \<Longrightarrow> sel_wf n ((RemoveIndexFromSelection sel i)\<lparr>anchor := i\<rparr>)"
  by (auto simp: sel_wf_def RemoveIndexFromSelection_def strict_sorted_conv sorted_remove1
           dest: set_remove1_subset [THEN subsetD])

lemma toggle_step_ok:
  assumes ok: "strip_ok env s" and i: "ContainsIndex s i" and r: "ToggleSelectionAt s i = Some t"
  shows "strip_ok env t"
proof -
  let ?sel = "selection_model s"
  have ne: "contents_data s \<noteq> []" by (rule ContainsIndex_nonempty [OF i])
  have w: "sel_wf (count s) ?sel" by (rule ok_sel [OF ok ne])
  have i': "0 \<le> i" "i < count s" using i by (auto simp: ContainsIndex_def)
  have a: "0 \<le> active ?sel" using ok ne by (auto simp: strip_ok_def ContainsIndex_def active_index_def)
  note nk = NotifySelectionChanged_ok [OF ok ne]
  show ?thesis
  proof (cases "IsSelected ?sel i")
    case True
    have "sel_wf (count s) ((RemoveIndexFromSelection ?sel i)\<lparr>anchor := i\<rparr>)"
      using remove1_wf [OF w i'] .
    moreover have "active (RemoveIndexFromSelection ?sel i) = active ?sel"
      by (simp add: RemoveIndexFromSelection_def)
    ultimately show ?thesis
      using r True ok a nk [of "(RemoveIndexFromSelection ?sel i)\<lparr>anchor := i\<rparr>"]
      by (auto simp: ToggleSelectionAt_def Let_def kUnselectedIndex_def split: if_splits)
  next
    case False
    have "sel_wf (count s) ((AddIndexToSelection ?sel i)\<lparr>anchor := i, active := i\<rparr>)"
      using w i' by (simp add: sel_wf_def sorted_AddIndexToSelection)
    then show ?thesis
      using r False nk [of "(AddIndexToSelection ?sel i)\<lparr>anchor := i, active := i\<rparr>"] i'
      by (simp add: ToggleSelectionAt_def Let_def)
  qed
qed

lemma SetSelectionFromAnchorTo_wf:
  assumes "sel_wf n sel" "0 \<le> i" "i < n" "SetSelectionFromAnchorTo sel i = Some sel'"
  shows "sel_wf n sel' \<and> active sel' = i"
proof (cases "anchor sel = kUnselectedIndex")
  case True
  then show ?thesis using assms by (auto simp: SetSelectionFromAnchorTo_def sel_wf_def kUnselectedIndex_def)
next
  case False
  then have "sel' = sel\<lparr>selected_indices := anchor_range i (anchor sel), active := i\<rparr>"
    using assms(4) by (simp add: SetSelectionFromAnchorTo_def)
  then show ?thesis
    using assms(1-3) False
    by (auto simp: sel_wf_def sorted_anchor_range set_anchor_range kUnselectedIndex_def)
qed

lemma extend_step_ok:
  assumes ok: "strip_ok env s" and i: "ContainsIndex s i" and r: "ExtendSelectionTo s i = Some t"
  shows "strip_ok env t"
proof -
  have ne: "contents_data s \<noteq> []" by (rule ContainsIndex_nonempty [OF i])
  obtain sel where "SetSelectionFromAnchorTo (selection_model s) i = Some sel"
    and t: "NotifySelectionChanged (set_selection s sel) (active_index s) = Some t"
    using r by (auto simp: ExtendSelectionTo_def bind_eq_Some_conv)
  with ok_sel [OF ok ne] i have "sel_wf (count s) sel" "0 \<le> active sel"
    by (auto simp: ContainsIndex_def dest: SetSelectionFromAnchorTo_wf)
  then show ?thesis using NotifySelectionChanged_ok [OF ok ne _ _ t] by blast
qed

lemma navigate_step_ok: "strip_ok env s \<Longrightarrow> TabNavigating env s c tr = Some t \<Longrightarrow> strip_ok env t"
  by (auto simp: TabNavigating_def bind_eq_Some_conv split: if_splits
      intro: keeps_ok [OF _ keeps_loses [OF loses_links_trans [OF loses_links_ForgetAllOpeners loses_links_ForgetGroup]]])

lemma strip_step_ok:
  assumes "strip_step env s t" "strip_ok env s"
  shows "strip_ok env t"
  using assms
proof (induction rule: strip_step.induct)
  case (insert s c types i t)
  show ?case
  proof (cases "at_limit env s c")
    case True
    then have "is_app env c \<longrightarrow> IsTabPinned s (replace_index env s) = Some True"
      using insert.hyps(3) by (auto simp: at_limit_def)
    from insert_at_limit_ok [OF insert.prems insert.hyps(1) True this, of i types] insert.hyps(4)
    show ?thesis by auto
  next
    case False
    from insert_below_limit_ok [OF insert.prems insert.hyps(1) False insert.hyps(2), of i] insert.hyps(4)
    show ?thesis by auto
  qed
next
  case (policy p s t)
  then show ?case
    by (auto simp: SetInsertionPolicy_def strip_ok_def strip_wf_def count_def ContainsIndex_def active_index_def)
qed (auto intro: detach_step_ok activate_step_ok move_step_ok pin_step_ok block_step_ok toggle_step_ok
                 extend_step_ok navigate_step_ok)

lemma clamp_bounds: "2 \<le> clamp_tabs_limit n \<and> clamp_tabs_limit n \<le> 65535"
  by (simp add: clamp_tabs_limit_def MIN_TABS_LIMIT_def MAX_TABS_LIMIT_def)

lemma reachable_ok: "reachable env limit s \<Longrightarrow> strip_ok env s"
proof (induction rule: reachable.induct)
  case start
  show ?case
    using clamp_bounds
    by (auto simp: strip_ok_def strip_wf_def new_tab_strip_def tabs_wf_def pinned_first_def)
qed (rule strip_step_ok)

end
