(* ===== verification/TabSpec.thy ===== *)
theory TabSpec
  imports TabSteps
begin

text \<open>
  The promises of \<open>tab_strip_model.h\<close>, stated over the strip's operations, and the places where
  the code does not keep them.
\<close>

subsection \<open>A concrete run\<close>

definition demo_insert :: "int \<Rightarrow> tab_id \<Rightarrow> 32 word \<Rightarrow> tab_strip \<Rightarrow> tab_strip" where
  "demo_insert i c types s = the (InsertTabContentsAt demo_env s i c types)"

definition demo_run :: tab_strip where
  "demo_run = demo_insert 1 2 ADD_NONE (demo_insert 0 1 ADD_ACTIVE (new_tab_strip (Some 2)))"

lemma demo_insert_step:
  assumes "reachable demo_env (Some 2) s" "fresh_tab s c" "c \<noteq> 9"
    and "contents_data s \<noteq> [] \<or> has_flag types ADD_ACTIVE"
    and r: "\<not> Option.is_none (InsertTabContentsAt demo_env s i c types)"
  shows "reachable demo_env (Some 2) (demo_insert i c types s)"
proof (rule reachable.step [OF assms(1)])
  show "strip_step demo_env s (demo_insert i c types s)"
    using assms(2-4) r
    by (intro strip_step.insert [where types = types and c = c and i = i])
       (auto simp: demo_insert_def demo_env_def Option.is_none_def)
qed

lemma demo_run_reachable: "reachable demo_env (Some 2) demo_run"
  unfolding demo_run_def
  by (intro demo_insert_step reachable.start) (code_simp, simp, code_simp, code_simp, code_simp, simp, code_simp, code_simp)

lemma demo_run_ok: "strip_ok demo_env demo_run"
  using demo_run_reachable by (rule reachable_ok)

subsection \<open>Properties\<close>





text \<open>Detaching a tab returns it, leaves every other tab where it was, leaves no tab whose
  opener or group is the removed one, keeps the strip consistent, and a strip that still has tabs
  has a selected one.\<close>

theorem DetachTabContentsAt_removes_tab:
  assumes "strip_ok env s" "ContainsIndex s i"
  shows "\<exists>t c. DetachTabContentsAt env s i = Some (Some c, t) \<and> GetContentsAt s i = Some c \<and>
    map contents (contents_data t) = erase_at (nat i) (map contents (contents_data s)) \<and>
    (\<forall>d \<in> set (contents_data t). opener d \<noteq> Some c \<and> group d \<noteq> Some c) \<and>
    strip_ok env t \<and> (contents_data t \<noteq> [] \<longrightarrow> GetSelectedTabContents t \<noteq> None)"
proof -
  have "strip_wf env s" using assms(1) by (simp add: strip_ok_def)
  from detach_ok [OF this assms(2)] obtain t where
    t: "DetachTabContentsAt env s i = Some (Some (contents (contents_data s ! nat i)), t)"
      "no_links (contents (contents_data s ! nat i)) t"
      "map contents (contents_data t) = erase_at (nat i) (map contents (contents_data s))" by blast
  have "strip_ok env t" using detach_step_ok [OF assms(1) t(1)] .
  then show ?thesis
    using t assms(2)
    by (auto simp: no_links_def strip_ok_def GetContentsAt_in_range GetSelectedTabContents_def GetTabContentsAt_eq)
qed

theorem DetachTabContentsAt_removes_tab_witness:
  "\<exists>t. DetachTabContentsAt demo_env demo_run 0 = Some (Some 1, t) \<and> map contents (contents_data t) = [2]"
proof -
  have "ContainsIndex demo_run 0" "GetContentsAt demo_run 0 = Some 1"
    "erase_at (nat 0) (map contents (contents_data demo_run)) = [2]" by code_simp+
  with DetachTabContentsAt_removes_tab [OF demo_run_ok this(1)] show ?thesis by auto
qed

text \<open>Pinning and unpinning: \<open>SetTabPinned\<close> returns, permutes the tabs, and the tab it was
  called for is afterwards at an index where it has the wanted state, unless it is an app tab that
  cannot be unpinned, which leaves the strip as it was. The mini-tabs stay first.\<close>

theorem SetTabPinned_moves_to_boundary:
  assumes "strip_ok env s" "ContainsIndex s i"
  shows "\<exists>t. SetTabPinned env s i p = Some t \<and> strip_ok env t \<and>
    mset (map contents (contents_data t)) = mset (map contents (contents_data s)) \<and>
    ((\<not> p \<and> IsAppTab env s i \<and> t = s) \<or>
     (\<exists>k. GetContentsAt t k = GetContentsAt s i \<and> IsTabPinned t k = Some p))"
proof -
  have "strip_wf env s" using assms(1) by (simp add: strip_ok_def)
  from SetTabPinned_ok [OF this assms(2), of p] obtain t where "SetTabPinned env s i p = Some t"
    "mset (map contents (contents_data t)) = mset (map contents (contents_data s))"
    "(\<not> p \<and> IsAppTab env s i \<and> t = s) \<or>
     (\<exists>k. GetContentsAt t k = GetContentsAt s i \<and> IsTabPinned t k = Some p)" by blast
  then show ?thesis using pin_step_ok [OF assms(1)] by blast
qed

theorem SetTabPinned_moves_to_boundary_witness:
  "\<exists>t k. SetTabPinned demo_env demo_run 1 True = Some t \<and> GetContentsAt t k = Some 2 \<and>
         IsTabPinned t k = Some True"
proof -
  have "ContainsIndex demo_run 1" "GetContentsAt demo_run 1 = Some 2" by code_simp+
  with SetTabPinned_moves_to_boundary [OF demo_run_ok this(1), of True] show ?thesis by auto
qed

text \<open>The tab limit breaks the order of the mini-tabs: at the limit, inserting an app tab puts
  it in place of the least recently visited tab without pinning it, so a mini-tab follows a tab that
  is none.\<close>

theorem limit_breaks_mini_order:
  "\<exists>s t. reachable demo_env (Some 2) s \<and> fresh_tab s 9 \<and> is_app demo_env 9 \<and>
     InsertTabContentsAt demo_env s 0 9 ADD_ACTIVE = Some t \<and>
     IsMiniTab demo_env t 0 = Some False \<and> IsMiniTab demo_env t 1 = Some True"
proof -
  have "\<not> Option.is_none (InsertTabContentsAt demo_env demo_run 0 9 ADD_ACTIVE)"
    "IsMiniTab demo_env (demo_insert 0 9 ADD_ACTIVE demo_run) 0 = Some False"
    "IsMiniTab demo_env (demo_insert 0 9 ADD_ACTIVE demo_run) 1 = Some True"
    "fresh_tab demo_run 9" "is_app demo_env 9" by code_simp+
  then show ?thesis
    using demo_run_reachable by (auto simp: Option.is_none_def demo_insert_def)
qed

text \<open>\<open>select_after_move\<close>: after \<open>MoveTabContentsAt\<close> with the flag set the moved tab is
  selected, provided the index 1 is not selected then; when index 1 is selected the selection is
  only carried along, since the test reads the flag as the index, and a tab that was not selected
  before the move is not selected after it.\<close>

theorem select_after_move_depends_on_index_1:
  assumes "strip_ok env s" "ContainsIndex s i" "ContainsIndex s k" "i \<noteq> k" "\<not> IsTabSelected s i"
    and "MoveTabContentsAt env s i k True = Some t" "t \<noteq> s"
  shows "IsTabSelected t k \<longleftrightarrow> \<not> IsSelected (Move (selection_model s) i k) 1"
proof -
  have ik: "0 \<le> i" "0 \<le> k" "i < count s" "k < count s" using assms(2,3) by (auto simp: ContainsIndex_def)
  have impl: "MoveTabContentsAtImpl s i k True = Some t"
    using assms(6,7) by (auto simp: MoveTabContentsAt_def Let_def split: if_splits)
  have "k \<notin> move_pos i k ` set (selected_indices (selection_model s))"
    using assms(4,5) ik by (auto simp: IsTabSelected_def IsSelected_def move_pos_def split: if_splits)
  then have "\<not> IsSelected (Move (selection_model s) i k) k"
    using Move_selected [OF assms(4), of "selection_model s"] by (simp add: IsSelected_def)
  then show ?thesis
    using impl ik
    by (auto simp: MoveTabContentsAtImpl_def bind_eq_Some_conv Let_def select_index_eq IsTabSelected_def
          IsSelected_def split: if_splits)
qed

theorem select_after_move_depends_on_index_1_witness:
  "\<exists>t. MoveTabContentsAt demo_env demo_run 1 0 True = Some t \<and> \<not> IsTabSelected t 0"
proof -
  define t where "t = the (MoveTabContentsAt demo_env demo_run 1 0 True)"
  have "\<not> Option.is_none (MoveTabContentsAt demo_env demo_run 1 0 True)" by code_simp
  then have t: "MoveTabContentsAt demo_env demo_run 1 0 True = Some t" by (simp add: t_def Option.is_none_def)
  have "map contents (contents_data t) \<noteq> map contents (contents_data demo_run)"
    unfolding t_def by code_simp
  then have "t \<noteq> demo_run" by auto
  moreover have "ContainsIndex demo_run 1" "ContainsIndex demo_run 0" "\<not> IsTabSelected demo_run 1"
    "IsSelected (Move (selection_model demo_run) 1 0) 1" by code_simp+
  ultimately show ?thesis
    using select_after_move_depends_on_index_1 [OF demo_run_ok _ _ _ _ t] t by auto
qed

text \<open>The tabs a close command closes: \<open>GetIndicesClosedByCommand\<close> returns, in descending
  order (so that closing one does not shift the next), exactly the indices from the command's start
  on that are not mini-tabs, not the clicked tab, and not selected when the clicked tab is.\<close>

theorem GetIndicesClosedByCommand_exact:
  assumes "0 \<le> index"
    and "cmd = CommandCloseTabsToRight \<longrightarrow> (\<forall>i \<in> set (selected_indices (selection_model s)). 0 \<le> i)"
  shows "\<exists>is. GetIndicesClosedByCommand env s index cmd = Some is \<and> sorted_wrt (>) is \<and>
    set is = {i. ContainsIndex s i \<and> i \<noteq> index \<and> IsMiniTab env s i = Some False \<and>
                 (cmd = CommandCloseTabsToRight \<longrightarrow>
                   (if IsTabSelected s index then last (selected_indices (selection_model s)) else index) < i) \<and>
                 (IsTabSelected s index \<longrightarrow> \<not> IsTabSelected s i)}"
proof -
  define start where "start = (if cmd = CommandCloseTabsToRight then
      (if IsTabSelected s index then last (selected_indices (selection_model s)) + 1 else index + 1) else 0)"
  have start: "0 \<le> start"
    using assms by (auto simp: start_def IsTabSelected_def IsSelected_def)
      (metis empty_iff last_in_set list.set(1) add_increasing2 zero_le_one)
  have mini: "\<exists>m. IsMiniTab env s i = Some m" if "ContainsIndex s i" for i
    using that by (auto simp: IsMiniTab_def IsTabPinned_def vec_at_def ContainsIndex_def count_def)
  have f: "closed_indices env s index sel is = Some (filter (\<lambda>i. i \<noteq> index \<and> IsMiniTab env s i = Some False \<and>
             (sel \<longrightarrow> \<not> IsTabSelected s i)) is)" if "\<forall>i \<in> set is. ContainsIndex s i" for sel "is"
    using that
  proof (induction "is")
    case (Cons i "is")
    then obtain m where "IsMiniTab env s i = Some m" using mini by auto
    with Cons show ?case by auto
  qed simp
  have "GetIndicesClosedByCommand env s index cmd = Some (filter (\<lambda>i. i \<noteq> index \<and> IsMiniTab env s i = Some False \<and>
      (IsTabSelected s index \<longrightarrow> \<not> IsTabSelected s i)) (rev [start..count s - 1]))"
    unfolding GetIndicesClosedByCommand_def Let_def start_def [symmetric]
    using start by (intro f) (auto simp: ContainsIndex_def)
  moreover have "sorted_wrt (>) (filter P (rev [start..count s - 1]))" for P
    by (intro sorted_wrt_filter) (simp add: sorted_wrt_rev)
  ultimately show ?thesis
    using start assms(1) by (auto simp: ContainsIndex_def start_def split: if_splits)
qed

theorem GetIndicesClosedByCommand_exact_witness:
  "\<exists>is. GetIndicesClosedByCommand demo_env demo_run 0 CommandCloseOtherTabs = Some is \<and> 1 \<in> set is"
proof -
  have "ContainsIndex demo_run 1" "IsMiniTab demo_env demo_run 1 = Some False" "\<not> IsTabSelected demo_run 1"
    by code_simp+
  with GetIndicesClosedByCommand_exact [of 0 CommandCloseOtherTabs demo_run demo_env]
  show ?thesis by auto
qed

end
