(* ===== verification/NavEntry.thy ===== *)
theory NavEntry
  imports PageTransition AsciiText
begin

text \<open>
  The entries of a tab's session history (\<open>content/browser/tab_contents/navigation_entry\<close>), what
  the controller is told by the renderer (\<open>ViewHostMsg_FrameNavigate_Params\<close>), and what it asks of
  the code around it. The title caches, favicon and SSL status are not read by the controller and
  are left out.

  \<open>GURL\<close> is outside the repository. A URL is its spec, and the parts the controller reads of it
  are functions of the environment record \<open>nav_env\<close>.
\<close>

type_synonym gurl = string
type_synonym site = nat

datatype page_type = NORMAL_PAGE | ERROR_PAGE | INTERSTITIAL_PAGE
datatype restore_type = RESTORE_LAST_SESSION | RESTORE_CURRENT_SESSION | RESTORE_NONE
datatype reload_type = NO_RELOAD | RELOAD | RELOAD_IGNORING_CACHE

datatype navigation_type =
    NT_UNKNOWN | NEW_PAGE | EXISTING_PAGE | SAME_PAGE | IN_PAGE | NEW_SUBFRAME
  | NT_AUTO_SUBFRAME | NAV_IGNORE

record nav_entry =
  unique_id :: int
  site_instance :: "site option"
  entry_page_type :: page_type
  entry_url :: gurl
  entry_referrer :: gurl
  virtual_url_field :: gurl
  update_virtual_url_with_url :: bool
  entry_title :: string
  entry_content_state :: string
  entry_page_id :: int
  transition_type :: "32 word"
  user_typed_url :: gurl
  has_post_data :: bool
  entry_restore_type :: restore_type

text \<open>The two constructors; the identity is the next value of the process-wide counter.\<close>

definition NavigationEntry ::
  "int \<Rightarrow> site option \<Rightarrow> int \<Rightarrow> gurl \<Rightarrow> gurl \<Rightarrow> string \<Rightarrow> 32 word \<Rightarrow> nav_entry" where
  "NavigationEntry uid instance pid u ref title t =
     \<lparr>unique_id = uid, site_instance = instance, entry_page_type = NORMAL_PAGE, entry_url = u,
      entry_referrer = ref, virtual_url_field = [], update_virtual_url_with_url = False,
      entry_title = title, entry_content_state = [], entry_page_id = pid, transition_type = t,
      user_typed_url = [], has_post_data = False, entry_restore_type = RESTORE_NONE\<rparr>"

definition empty_entry :: "int \<Rightarrow> nav_entry" where
  "empty_entry uid = NavigationEntry uid None (-1) [] [] [] LINK"

definition set_virtual_url :: "gurl \<Rightarrow> nav_entry \<Rightarrow> nav_entry" where
  "set_virtual_url u e = e\<lparr>virtual_url_field := (if u = entry_url e then [] else u)\<rparr>"

definition virtual_url :: "nav_entry \<Rightarrow> gurl" where
  "virtual_url e = (if virtual_url_field e = [] then entry_url e else virtual_url_field e)"

text \<open>The message of the renderer, with the fields the controller reads.\<close>

record frame_params =
  p_page_id :: int
  p_url :: gurl
  p_referrer :: gurl
  p_transition :: "32 word"
  p_redirects :: "gurl list"
  p_gesture_auto :: bool
  p_is_post :: bool
  p_content_state :: string
  p_security_info :: string
  p_http_status_code :: int

record committed_details =
  d_entry :: "nat option"
  d_type :: navigation_type
  d_previous_entry_index :: int
  d_previous_url :: gurl
  d_is_auto :: bool
  d_did_replace_entry :: bool
  d_is_in_page :: bool
  d_is_main_frame :: bool
  d_security_info :: string
  d_http_status_code :: int

definition new_details :: committed_details where
  "new_details = \<lparr>d_entry = None, d_type = NT_UNKNOWN, d_previous_entry_index = -1,
     d_previous_url = [], d_is_auto = False, d_did_replace_entry = False, d_is_in_page = False,
     d_is_main_frame = True, d_security_info = [], d_http_status_code = 0\<rparr>"

text \<open>
  What the controller asks of \<open>GURL\<close>, of the browser's URL handlers, of the security policy and of
  its \<open>TabContents\<close>: whether \<open>NavigateToPendingEntry\<close> starts the navigation, the site instance,
  whether an interstitial is showing.
\<close>

record nav_env =
  url_has_ref :: "gurl \<Rightarrow> bool"
  url_clear_ref :: "gurl \<Rightarrow> gurl"
  scheme_of :: "gurl \<Rightarrow> string"
  RewriteURLIfNecessary :: "gurl \<Rightarrow> gurl \<times> bool"
  ReverseURLRewrite :: "gurl \<Rightarrow> gurl \<Rightarrow> gurl option"
  IsDisabledScheme_policy :: "string \<Rightarrow> bool"
  HandleNonNavigationAboutURL :: "gurl \<Rightarrow> bool"
  CreateHistoryStateForURL :: "gurl \<Rightarrow> string"
  tab_navigates :: "nav_entry \<Rightarrow> reload_type \<Rightarrow> bool"
  tab_site :: site
  has_interstitial :: bool
  supported_mime_type :: bool


definition IsViewSourceMode :: "nav_env \<Rightarrow> nav_entry \<Rightarrow> bool" where
  "IsViewSourceMode env e \<longleftrightarrow> scheme_of env (virtual_url_field e) = kViewSourceScheme"

definition AreURLsInPageNavigation :: "nav_env \<Rightarrow> gurl \<Rightarrow> gurl \<Rightarrow> bool" where
  "AreURLsInPageNavigation env existing_url new_url =
     (if existing_url = new_url \<or> \<not> url_has_ref env new_url then False
      else url_clear_ref env existing_url = url_clear_ref env new_url)"

text \<open>\<open>NavigationController::IsRedirect\<close>.\<close>

definition IsRedirect :: "frame_params \<Rightarrow> bool" where
  "IsRedirect params =
     (if IsMainFrame (p_transition params) then IsRedirect_transition (p_transition params)
      else length (p_redirects params) > 1)"

definition UpdateVirtualURLToURL :: "nav_env \<Rightarrow> gurl \<Rightarrow> nav_entry \<Rightarrow> nav_entry" where
  "UpdateVirtualURLToURL env new_url e =
     (case ReverseURLRewrite env new_url (virtual_url e) of
        Some u \<Rightarrow> set_virtual_url u e
      | None \<Rightarrow> e)"

definition update_virtual :: "nav_env \<Rightarrow> gurl \<Rightarrow> nav_entry \<Rightarrow> nav_entry" where
  "update_virtual env new_url e =
     (if update_virtual_url_with_url e then UpdateVirtualURLToURL env new_url e else e)"

definition SetContentStateIfEmpty :: "nav_env \<Rightarrow> nav_entry \<Rightarrow> nav_entry" where
  "SetContentStateIfEmpty env e =
     (if entry_content_state e = []
      then e\<lparr>entry_content_state := CreateHistoryStateForURL env (entry_url e)\<rparr> else e)"

definition configure_for_restore :: "nav_env \<Rightarrow> bool \<Rightarrow> nav_entry \<Rightarrow> nav_entry" where
  "configure_for_restore env from_last_session e =
     SetContentStateIfEmpty env
       (e\<lparr>transition_type := RELOAD_transition,
          entry_restore_type := (if from_last_session then RESTORE_LAST_SESSION
                                 else RESTORE_CURRENT_SESSION)\<rparr>)"

end
