(* ===== verification/NavController.thy ===== *)
theory NavController
  imports NavEntry
begin

text \<open>
  \<open>NavigationController\<close> (\<open>content/browser/tab_contents/navigation_controller.cc\<close>).

  Entries live in a heap, since the pending entry may be an object of its own or one that the list
  of entries owns: \<open>heap\<close> maps the addresses of live entries to them, the list \<open>entries\<close> holds
  the addresses its \<open>linked_ptr\<close>s own, and a pointer is an \<open>addr option\<close>. Freeing an entry takes
  it out of the heap, and reading or freeing one that is not in the heap gives \<open>None\<close>, as does
  indexing or erasing out of range.

  The notifications and the calls on \<open>TabContents\<close> and the interstitial page are recorded in
  \<open>nav_events\<close>; the callbacks they may make into the controller are calls of its clients.
\<close>

type_synonym addr = nat

datatype nav_event =
    NAV_LIST_PRUNED bool int
  | NAV_ENTRY_PENDING
  | NAV_ENTRY_COMMITTED committed_details
  | NAV_ENTRY_CHANGED addr int
  | NavigationStateChanged
  | REPOST_WARNING_SHOWN
  | TAB_PARENTED
  | ShowRepostFormWarningDialog
  | InterstitialDontProceed
  | InterstitialCancelForNavigation
  | InterstitialReloadOnDontProceed

record nav_ctl =
  heap :: "addr \<Rightarrow> nav_entry option"
  next_addr :: addr
  next_unique_id :: int
  entries :: "addr list"
  pending_entry :: "addr option"
  last_committed_entry_index :: int
  pending_entry_index :: int
  transient_entry_index :: int
  max_page_id :: int
  max_restored_page_id :: int
  needs_reload :: bool
  pending_reload :: reload_type
  check_for_repost_flag :: bool
  document_loaded :: bool
  nav_events :: "nav_event list"

definition new_controller :: "int \<Rightarrow> nav_ctl" where
  "new_controller uid =
     \<lparr>heap = (\<lambda>_. None), next_addr = 0, next_unique_id = uid, entries = [], pending_entry = None,
      last_committed_entry_index = -1, pending_entry_index = -1, transient_entry_index = -1,
      max_page_id = -1, max_restored_page_id = -1, needs_reload = False, pending_reload = NO_RELOAD,
      check_for_repost_flag = True, document_loaded = False, nav_events = []\<rparr>"

definition max_entry_count :: int where
  "max_entry_count = 50"

subsection \<open>Memory\<close>

definition alloc :: "nav_entry \<Rightarrow> nav_ctl \<Rightarrow> addr \<times> nav_ctl" where
  "alloc e s = (next_addr s, s\<lparr>heap := (heap s)(next_addr s := Some e), next_addr := next_addr s + 1\<rparr>)"

definition delete_entry :: "addr option \<Rightarrow> nav_ctl \<Rightarrow> nav_ctl option" where
  "delete_entry p s =
     (case p of
        None \<Rightarrow> Some s
      | Some a \<Rightarrow> (case heap s a of None \<Rightarrow> None | Some _ \<Rightarrow> Some (s\<lparr>heap := (heap s)(a := None)\<rparr>)))"

definition write_entry :: "addr \<Rightarrow> (nav_entry \<Rightarrow> nav_entry) \<Rightarrow> nav_ctl \<Rightarrow> nav_ctl option" where
  "write_entry a f s = (case heap s a of None \<Rightarrow> None | Some e \<Rightarrow> Some (s\<lparr>heap := (heap s)(a := Some (f e))\<rparr>))"

definition entry_at :: "nav_ctl \<Rightarrow> int \<Rightarrow> nav_entry option" where
  "entry_at s i = do { a \<leftarrow> vec_at (entries s) i; heap s a }"

text \<open>\<open>entries_.erase\<close> of one position, of the first \<open>n\<close>, and of all but the first \<open>n\<close>: the
  list owned the erased entries.\<close>

definition erase_entry :: "int \<Rightarrow> nav_ctl \<Rightarrow> nav_ctl option" where
  "erase_entry i s = do {
     a \<leftarrow> vec_at (entries s) i;
     delete_entry (Some a) (s\<lparr>entries := erase_at (nat i) (entries s)\<rparr>)
   }"

fun delete_all :: "addr list \<Rightarrow> nav_ctl \<Rightarrow> nav_ctl option" where
  "delete_all [] s = Some s"
| "delete_all (a # as) s = do { s' \<leftarrow> delete_entry (Some a) s; delete_all as s' }"

definition erase_front :: "int \<Rightarrow> nav_ctl \<Rightarrow> nav_ctl option" where
  "erase_front n s =
     (if 0 \<le> n \<and> n \<le> int (length (entries s))
      then delete_all (take (nat n) (entries s)) (s\<lparr>entries := drop (nat n) (entries s)\<rparr>)
      else None)"

definition erase_back :: "int \<Rightarrow> nav_ctl \<Rightarrow> nav_ctl option" where
  "erase_back n s =
     (if 0 \<le> n \<and> n \<le> int (length (entries s))
      then delete_all (drop (nat n) (entries s)) (s\<lparr>entries := take (nat n) (entries s)\<rparr>)
      else None)"

definition nav_emit :: "nav_event \<Rightarrow> nav_ctl \<Rightarrow> nav_ctl" where
  "nav_emit e s = s\<lparr>nav_events := nav_events s @ [e]\<rparr>"

definition fresh_id :: "nav_ctl \<Rightarrow> int \<times> nav_ctl" where
  "fresh_id s = (next_unique_id s, s\<lparr>next_unique_id := next_unique_id s + 1\<rparr>)"

subsection \<open>Queries\<close>

definition entry_count :: "nav_ctl \<Rightarrow> int" where
  "entry_count s = int (length (entries s))"

definition GetEntryAtIndex :: "nav_ctl \<Rightarrow> int \<Rightarrow> addr option" where
  "GetEntryAtIndex s i = vec_at (entries s) i"

text \<open>The outer option is a read out of range; the inner one is the null pointer.\<close>

definition GetLastCommittedEntry :: "nav_ctl \<Rightarrow> addr option option" where
  "GetLastCommittedEntry s =
     (if last_committed_entry_index s = -1 then Some None
      else map_option Some (vec_at (entries s) (last_committed_entry_index s)))"

definition GetActiveEntry :: "nav_ctl \<Rightarrow> addr option option" where
  "GetActiveEntry s =
     (if transient_entry_index s \<noteq> -1
      then map_option Some (vec_at (entries s) (transient_entry_index s))
      else if pending_entry s \<noteq> None then Some (pending_entry s)
      else GetLastCommittedEntry s)"

definition GetTransientEntry :: "nav_ctl \<Rightarrow> addr option option" where
  "GetTransientEntry s =
     (if transient_entry_index s = -1 then Some None
      else map_option Some (vec_at (entries s) (transient_entry_index s)))"

definition GetCurrentEntryIndex :: "nav_ctl \<Rightarrow> int" where
  "GetCurrentEntryIndex s =
     (if transient_entry_index s \<noteq> -1 then transient_entry_index s
      else if pending_entry_index s \<noteq> -1 then pending_entry_index s
      else last_committed_entry_index s)"

definition offset_index :: "nav_ctl \<Rightarrow> int \<Rightarrow> int" where
  "offset_index s offset =
     (if transient_entry_index s \<noteq> -1 then transient_entry_index s + offset
      else last_committed_entry_index s + offset)"

definition GetEntryAtOffset :: "nav_ctl \<Rightarrow> int \<Rightarrow> addr option" where
  "GetEntryAtOffset s offset =
     (let index = offset_index s offset
      in if index < 0 \<or> index \<ge> entry_count s then None else vec_at (entries s) index)"

definition CanGoBack :: "nav_ctl \<Rightarrow> bool" where
  "CanGoBack s \<longleftrightarrow> entry_count s > 1 \<and> GetCurrentEntryIndex s > 0"

definition CanGoForward :: "nav_ctl \<Rightarrow> bool" where
  "CanGoForward s \<longleftrightarrow> GetCurrentEntryIndex s \<ge> 0 \<and> GetCurrentEntryIndex s < entry_count s - 1"

definition CanViewSource :: "nav_env \<Rightarrow> nav_ctl \<Rightarrow> bool option" where
  "CanViewSource env s = do {
     active \<leftarrow> GetActiveEntry s;
     case active of
       None \<Rightarrow> Some False
     | Some a \<Rightarrow> do { e \<leftarrow> heap s a; Some (\<not> IsViewSourceMode env e \<and> supported_mime_type env) }
   }"

definition IsInitialNavigation :: "nav_ctl \<Rightarrow> bool" where
  "IsInitialNavigation s \<longleftrightarrow> \<not> document_loaded s"

text \<open>The loop runs from the last entry down. The entries of the list are live as long as they are
  in it.\<close>

definition has_page_id :: "nav_ctl \<Rightarrow> site option \<Rightarrow> int \<Rightarrow> int \<Rightarrow> bool" where
  "has_page_id s instance pid i \<longleftrightarrow>
     (case entry_at s i of
        None \<Rightarrow> False
      | Some e \<Rightarrow> site_instance e = instance \<and> entry_page_id e = pid)"

definition GetEntryIndexWithPageID :: "nav_ctl \<Rightarrow> site option \<Rightarrow> int \<Rightarrow> int" where
  "GetEntryIndexWithPageID s instance pid =
     (case find (has_page_id s instance pid) (rev [0..entry_count s - 1]) of
        None \<Rightarrow> -1
      | Some i \<Rightarrow> i)"

definition GetEntryWithPageID :: "nav_ctl \<Rightarrow> site option \<Rightarrow> int \<Rightarrow> addr option" where
  "GetEntryWithPageID s instance pid =
     (let index = GetEntryIndexWithPageID s instance pid
      in if index \<noteq> -1 then vec_at (entries s) index else None)"

definition GetIndexOfEntry :: "nav_ctl \<Rightarrow> addr \<Rightarrow> int" where
  "GetIndexOfEntry s a = find_from (\<lambda>b. b = a) (entries s) 0"

definition IsURLInPageNavigation :: "nav_env \<Rightarrow> nav_ctl \<Rightarrow> gurl \<Rightarrow> bool option" where
  "IsURLInPageNavigation env s u = do {
     last \<leftarrow> GetLastCommittedEntry s;
     case last of
       None \<Rightarrow> Some False
     | Some a \<Rightarrow> do { e \<leftarrow> heap s a; Some (AreURLsInPageNavigation env (entry_url e) u) }
   }"

subsection \<open>Discarding\<close>

definition DiscardTransientEntry :: "nav_ctl \<Rightarrow> nav_ctl option" where
  "DiscardTransientEntry s =
     (if transient_entry_index s = -1 then Some s
      else do {
        s1 \<leftarrow> erase_entry (transient_entry_index s) s;
        Some (s1\<lparr>last_committed_entry_index :=
                   (if last_committed_entry_index s > transient_entry_index s
                    then last_committed_entry_index s - 1 else last_committed_entry_index s),
                 transient_entry_index := -1\<rparr>)
      })"

definition DiscardNonCommittedEntriesInternal :: "nav_ctl \<Rightarrow> nav_ctl option" where
  "DiscardNonCommittedEntriesInternal s = do {
     s1 \<leftarrow> (if pending_entry_index s = -1 then delete_entry (pending_entry s) s else Some s);
     DiscardTransientEntry (s1\<lparr>pending_entry := None, pending_entry_index := -1\<rparr>)
   }"

definition DiscardNonCommittedEntries :: "nav_ctl \<Rightarrow> nav_ctl option" where
  "DiscardNonCommittedEntries s = do {
     s1 \<leftarrow> DiscardNonCommittedEntriesInternal s;
     Some (if transient_entry_index s \<noteq> -1 then nav_emit NavigationStateChanged s1 else s1)
   }"

subsection \<open>Navigating\<close>

definition NavigateToPendingEntry :: "nav_env \<Rightarrow> reload_type \<Rightarrow> nav_ctl \<Rightarrow> nav_ctl option" where
  "NavigateToPendingEntry env reload s = do {
     let s1 = s\<lparr>needs_reload := False\<rparr>;
     a \<leftarrow> (case pending_entry s1 of Some a \<Rightarrow> Some a | None \<Rightarrow> vec_at (entries s1) (pending_entry_index s1));
     let s2 = s1\<lparr>pending_entry := Some a\<rparr>;
     e \<leftarrow> heap s2 a;
     if tab_navigates env e reload then Some s2 else DiscardNonCommittedEntries s2
   }"

text \<open>\<open>pending_entry_index_\<close> is set to an entry whose transition the caller rewrites first.\<close>

definition navigate_to_index ::
  "nav_env \<Rightarrow> (32 word \<Rightarrow> 32 word) \<Rightarrow> reload_type \<Rightarrow> int \<Rightarrow> nav_ctl \<Rightarrow> nav_ctl option" where
  "navigate_to_index env tr reload index s = do {
     a \<leftarrow> vec_at (entries s) index;
     s1 \<leftarrow> write_entry a (\<lambda>e. e\<lparr>transition_type := tr (transition_type e)\<rparr>)
             (s\<lparr>pending_entry_index := index\<rparr>);
     NavigateToPendingEntry env reload s1
   }"

definition CreateNavigationEntry ::
  "nav_env \<Rightarrow> gurl \<Rightarrow> gurl \<Rightarrow> 32 word \<Rightarrow> int \<Rightarrow> nav_entry" where
  "CreateNavigationEntry env u ref transition uid =
     (let (loaded_url, reverse_on_redirect) = RewriteURLIfNecessary env u;
          entry = NavigationEntry uid None (-1) loaded_url ref [] transition
      in (set_virtual_url u entry)\<lparr>user_typed_url := u, update_virtual_url_with_url := reverse_on_redirect\<rparr>)"

text \<open>\<open>LoadEntry\<close> owns the entry at \<open>a\<close>.\<close>

definition LoadEntry :: "nav_env \<Rightarrow> addr \<Rightarrow> nav_ctl \<Rightarrow> nav_ctl option" where
  "LoadEntry env a s = do {
     e \<leftarrow> heap s a;
     if IsDisabledScheme_policy env (scheme_of env (entry_url e)) \<or>
        IsDisabledScheme_policy env (scheme_of env (virtual_url e))
     then delete_entry (Some a) s
     else if HandleNonNavigationAboutURL env (entry_url e) then delete_entry (Some a) s
     else do {
       s1 \<leftarrow> DiscardNonCommittedEntriesInternal s;
       NavigateToPendingEntry env NO_RELOAD (nav_emit NAV_ENTRY_PENDING (s1\<lparr>pending_entry := Some a\<rparr>))
     }
   }"

definition LoadURL :: "nav_env \<Rightarrow> gurl \<Rightarrow> gurl \<Rightarrow> 32 word \<Rightarrow> nav_ctl \<Rightarrow> nav_ctl option" where
  "LoadURL env u ref transition s =
     (let (uid, s1) = fresh_id (s\<lparr>needs_reload := False\<rparr>);
          (a, s2) = alloc (CreateNavigationEntry env u ref transition uid) s1
      in LoadEntry env a s2)"

definition ReloadInternal :: "nav_env \<Rightarrow> bool \<Rightarrow> reload_type \<Rightarrow> nav_ctl \<Rightarrow> nav_ctl option" where
  "ReloadInternal env check_for_repost reload s =
     (if transient_entry_index s \<noteq> -1 then Some s
      else do {
        s1 \<leftarrow> DiscardNonCommittedEntriesInternal s;
        let current_index = GetCurrentEntryIndex s1;
        if current_index = -1 then Some s1
        else do {
          e \<leftarrow> entry_at s1 current_index;
          if check_for_repost_flag s1 \<and> check_for_repost \<and> has_post_data e
          then Some (nav_emit ShowRepostFormWarningDialog
                       ((nav_emit REPOST_WARNING_SHOWN s1)\<lparr>pending_reload := reload\<rparr>))
          else do {
            s2 \<leftarrow> DiscardNonCommittedEntriesInternal s1;
            navigate_to_index env (\<lambda>_. RELOAD_transition) reload current_index s2
          }
        }
      })"

definition Reload :: "nav_env \<Rightarrow> bool \<Rightarrow> nav_ctl \<Rightarrow> nav_ctl option" where
  "Reload env check s = ReloadInternal env check RELOAD s"

definition ReloadIgnoringCache :: "nav_env \<Rightarrow> bool \<Rightarrow> nav_ctl \<Rightarrow> nav_ctl option" where
  "ReloadIgnoringCache env check s = ReloadInternal env check RELOAD_IGNORING_CACHE s"

definition CancelPendingReload :: "nav_ctl \<Rightarrow> nav_ctl" where
  "CancelPendingReload s = s\<lparr>pending_reload := NO_RELOAD\<rparr>"

definition ContinuePendingReload :: "nav_env \<Rightarrow> nav_ctl \<Rightarrow> nav_ctl option" where
  "ContinuePendingReload env s =
     (if pending_reload s = NO_RELOAD then Some s
      else map_option (\<lambda>t. t\<lparr>pending_reload := NO_RELOAD\<rparr>)
             (ReloadInternal env False (pending_reload s) s))"

definition GoBack :: "nav_env \<Rightarrow> nav_ctl \<Rightarrow> nav_ctl option" where
  "GoBack env s =
     (if \<not> CanGoBack s then Some s
      else if has_interstitial env then Some (nav_emit InterstitialDontProceed s)
      else do {
        let current_index = GetCurrentEntryIndex s;
        s1 \<leftarrow> DiscardNonCommittedEntries s;
        navigate_to_index env (\<lambda>t. t OR FORWARD_BACK) NO_RELOAD (current_index - 1) s1
      })"

definition GoForward :: "nav_env \<Rightarrow> nav_ctl \<Rightarrow> nav_ctl option" where
  "GoForward env s =
     (if \<not> CanGoForward s then Some s
      else do {
        let s0 = (if has_interstitial env then nav_emit InterstitialCancelForNavigation s else s);
        let transient = (transient_entry_index s0 \<noteq> -1);
        let current_index = GetCurrentEntryIndex s0;
        s1 \<leftarrow> DiscardNonCommittedEntries s0;
        navigate_to_index env (\<lambda>t. t OR FORWARD_BACK) NO_RELOAD
          (if transient then current_index else current_index + 1) s1
      })"

definition GoToIndex :: "nav_env \<Rightarrow> int \<Rightarrow> nav_ctl \<Rightarrow> nav_ctl option" where
  "GoToIndex env index0 s =
     (if index0 < 0 \<or> index0 \<ge> entry_count s then Some s
      else if transient_entry_index s \<noteq> -1 \<and> index0 = transient_entry_index s then Some s
      else
        let index = (if transient_entry_index s \<noteq> -1 \<and> index0 > transient_entry_index s
                     then index0 - 1 else index0)
        in if has_interstitial env \<and> index = GetCurrentEntryIndex s - 1
           then Some (nav_emit InterstitialDontProceed s)
           else do {
             s1 \<leftarrow> DiscardNonCommittedEntries
                     (if has_interstitial env then nav_emit InterstitialCancelForNavigation s else s);
             navigate_to_index env (\<lambda>t. t OR FORWARD_BACK) NO_RELOAD index s1
           })"

definition GoToOffset :: "nav_env \<Rightarrow> int \<Rightarrow> nav_ctl \<Rightarrow> nav_ctl option" where
  "GoToOffset env offset s =
     (let index = offset_index s offset
      in if index < 0 \<or> index \<ge> entry_count s then Some s else GoToIndex env index s)"

definition LoadIfNecessary :: "nav_env \<Rightarrow> nav_ctl \<Rightarrow> nav_ctl option" where
  "LoadIfNecessary env s =
     (if \<not> needs_reload s then Some s
      else NavigateToPendingEntry env NO_RELOAD
             (s\<lparr>pending_entry_index := last_committed_entry_index s\<rparr>))"

definition SetActive :: "nav_env \<Rightarrow> bool \<Rightarrow> nav_ctl \<Rightarrow> nav_ctl option" where
  "SetActive env is_active s = (if is_active \<and> needs_reload s then LoadIfNecessary env s else Some s)"

definition AddTransientEntry :: "addr \<Rightarrow> nav_ctl \<Rightarrow> nav_ctl option" where
  "AddTransientEntry a s = do {
     let index = (if last_committed_entry_index s \<noteq> -1 then last_committed_entry_index s + 1 else 0);
     s1 \<leftarrow> DiscardTransientEntry s;
     if 0 \<le> index \<and> index \<le> entry_count s1
     then Some (nav_emit NavigationStateChanged
                  (s1\<lparr>entries := insert_at (nat index) a (entries s1), transient_entry_index := index\<rparr>))
     else None
   }"

end
