(* ===== verification/NavCommit.thy ===== *)
theory NavCommit
  imports NavController
begin

text \<open>
  Committing navigations in \<open>NavigationController\<close>
  (\<open>content/browser/tab_contents/navigation_controller.cc\<close>): removing entries, the classification of
  a renderer's navigation and its six handlers, restoring, copying and pruning.
\<close>

definition RemoveEntryAtIndexInternal :: "int \<Rightarrow> nav_ctl \<Rightarrow> nav_ctl option" where
  "RemoveEntryAtIndexInternal index s = do {
     s1 \<leftarrow> DiscardNonCommittedEntries s;
     s2 \<leftarrow> erase_entry index s1;
     Some (if last_committed_entry_index s2 = index \<or> last_committed_entry_index s2 > index
           then s2\<lparr>last_committed_entry_index := last_committed_entry_index s2 - 1\<rparr> else s2)
   }"

definition RemoveEntryAtIndex :: "nav_env \<Rightarrow> int \<Rightarrow> gurl \<Rightarrow> nav_ctl \<Rightarrow> nav_ctl option" where
  "RemoveEntryAtIndex env index default_url s = do {
     let is_current = (index = last_committed_entry_index s);
     s1 \<leftarrow> RemoveEntryAtIndexInternal index s;
     if is_current then
       (if last_committed_entry_index s1 \<noteq> -1
        then NavigateToPendingEntry env NO_RELOAD
               (s1\<lparr>pending_entry_index := last_committed_entry_index s1\<rparr>)
        else LoadURL env (if default_url = [] then ''about:blank'' else default_url) [] START_PAGE s1)
     else Some s1
   }"

definition UpdateMaxPageID :: "int \<Rightarrow> nav_ctl \<Rightarrow> nav_ctl" where
  "UpdateMaxPageID pid s = (if pid > max_page_id s then s\<lparr>max_page_id := pid\<rparr> else s)"

text \<open>The loop that pops the entries after the current one, or from the current one on.\<close>

definition prune_back :: "bool \<Rightarrow> nav_ctl \<Rightarrow> nav_ctl option" where
  "prune_back replace s =
     (let current_size = entry_count s;
          prune_up_to = (if replace then last_committed_entry_index s - 1 else last_committed_entry_index s)
      in if current_size > 0 \<and> prune_up_to < current_size - 1 then do {
           s1 \<leftarrow> erase_back (prune_up_to + 1) s;
           Some (nav_emit (NAV_LIST_PRUNED False (current_size - 1 - prune_up_to)) s1)
         } else Some s)"

text \<open>\<open>InsertOrReplaceEntry\<close> owns the entry at \<open>a\<close>.\<close>

definition InsertOrReplaceEntry :: "nav_env \<Rightarrow> addr \<Rightarrow> bool \<Rightarrow> nav_ctl \<Rightarrow> nav_ctl option" where
  "InsertOrReplaceEntry env a replace s = do {
     p \<leftarrow> (if pending_entry_index s = -1 then Some (pending_entry s)
          else map_option Some (vec_at (entries s) (pending_entry_index s)));
     s1 \<leftarrow> (case p of
              None \<Rightarrow> Some s
            | Some pa \<Rightarrow> do { pe \<leftarrow> heap s pa; write_entry a (\<lambda>e. e\<lparr>unique_id := unique_id pe\<rparr>) s });
     s2 \<leftarrow> DiscardNonCommittedEntriesInternal s1;
     s3 \<leftarrow> prune_back replace s2;
     s4 \<leftarrow> (if entry_count s3 \<ge> max_entry_count
           then map_option (nav_emit (NAV_LIST_PRUNED True 1)) (RemoveEntryAtIndex env 0 [] s3)
           else Some s3);
     let s5 = s4\<lparr>entries := entries s4 @ [a]\<rparr>;
     e \<leftarrow> heap s5 a;
     Some (UpdateMaxPageID (entry_page_id e)
             (s5\<lparr>last_committed_entry_index := entry_count s5 - 1\<rparr>))
   }"

subsection \<open>The renderer's navigations\<close>

definition ClassifyNavigation :: "nav_env \<Rightarrow> nav_ctl \<Rightarrow> frame_params \<Rightarrow> navigation_type option" where
  "ClassifyNavigation env s params =
     (if p_page_id params = -1 then Some NAV_IGNORE
      else if p_page_id params > max_page_id s then
        (if IsMainFrame (p_transition params) then Some NEW_PAGE
         else do {
           last \<leftarrow> GetLastCommittedEntry s;
           Some (if last = None then NAV_IGNORE else NEW_SUBFRAME)
         })
      else
        let existing_index = GetEntryIndexWithPageID s (Some (tab_site env)) (p_page_id params)
        in if existing_index = -1 then Some NAV_IGNORE
           else do {
             existing \<leftarrow> vec_at (entries s) existing_index;
             existing_entry \<leftarrow> heap s existing;
             if \<not> IsMainFrame (p_transition params) then Some NT_AUTO_SUBFRAME
             else do {
               same \<leftarrow> (case pending_entry s of
                         None \<Rightarrow> Some False
                       | Some pa \<Rightarrow>
                           if existing = pa then Some False
                           else do {
                             pe \<leftarrow> heap s pa;
                             if entry_page_id pe \<noteq> -1 then Some False
                             else do { last \<leftarrow> GetLastCommittedEntry s; Some (last = Some existing) }
                           });
               Some (if same then SAME_PAGE
                     else if AreURLsInPageNavigation env (entry_url existing_entry) (p_url params)
                     then IN_PAGE else EXISTING_PAGE)
             }
           })"

definition new_page_entry :: "nav_env \<Rightarrow> frame_params \<Rightarrow> nav_entry \<Rightarrow> nav_entry" where
  "new_page_entry env params e =
     (update_virtual env (p_url params) (e\<lparr>entry_url := p_url params\<rparr>))
        \<lparr>entry_referrer := p_referrer params, entry_page_id := p_page_id params,
         transition_type := p_transition params, site_instance := Some (tab_site env),
         has_post_data := p_is_post params\<rparr>"

definition RendererDidNavigateToNewPage ::
  "nav_env \<Rightarrow> frame_params \<Rightarrow> bool \<Rightarrow> nav_ctl \<Rightarrow> nav_ctl option" where
  "RendererDidNavigateToNewPage env params replace s = do {
     (e, s1) \<leftarrow> (case pending_entry s of
                   Some pa \<Rightarrow> do { pe \<leftarrow> heap s pa; Some (pe\<lparr>entry_page_type := NORMAL_PAGE\<rparr>, s) }
                 | None \<Rightarrow> (let (uid, s') = fresh_id s in Some (empty_entry uid, s')));
     let (a, s2) = alloc (new_page_entry env params e) s1;
     InsertOrReplaceEntry env a replace s2
   }"

definition RendererDidNavigateToExistingPage ::
  "nav_env \<Rightarrow> frame_params \<Rightarrow> nav_ctl \<Rightarrow> nav_ctl option" where
  "RendererDidNavigateToExistingPage env params s = do {
     a \<leftarrow> vec_at (entries s) (GetEntryIndexWithPageID s (Some (tab_site env)) (p_page_id params));
     s1 \<leftarrow> write_entry a (\<lambda>e. (update_virtual env (p_url params) (e\<lparr>entry_url := p_url params\<rparr>))
                               \<lparr>site_instance := Some (tab_site env), has_post_data := p_is_post params\<rparr>) s;
     s2 \<leftarrow> (if pending_entry s1 \<noteq> None then DiscardNonCommittedEntriesInternal s1 else Some s1);
     Some (s2\<lparr>last_committed_entry_index :=
                GetEntryIndexWithPageID s2 (Some (tab_site env)) (p_page_id params)\<rparr>)
   }"

definition RendererDidNavigateToSamePage ::
  "nav_env \<Rightarrow> frame_params \<Rightarrow> nav_ctl \<Rightarrow> nav_ctl option" where
  "RendererDidNavigateToSamePage env params s = do {
     a \<leftarrow> GetEntryWithPageID s (Some (tab_site env)) (p_page_id params);
     pa \<leftarrow> pending_entry s;
     pe \<leftarrow> heap s pa;
     s1 \<leftarrow> write_entry a (\<lambda>e. (update_virtual env (p_url params) (e\<lparr>unique_id := unique_id pe\<rparr>))
                               \<lparr>entry_url := p_url params\<rparr>) s;
     DiscardNonCommittedEntries s1
   }"

definition RendererDidNavigateInPage ::
  "nav_env \<Rightarrow> frame_params \<Rightarrow> nav_ctl \<Rightarrow> nav_ctl option" where
  "RendererDidNavigateInPage env params s = do {
     a \<leftarrow> GetEntryWithPageID s (Some (tab_site env)) (p_page_id params);
     e \<leftarrow> heap s a;
     let (b, s1) = alloc ((update_virtual env (p_url params) (e\<lparr>entry_page_id := p_page_id params\<rparr>))
                            \<lparr>entry_url := p_url params\<rparr>) s;
     InsertOrReplaceEntry env b True s1
   }"

definition RendererDidNavigateNewSubframe ::
  "nav_env \<Rightarrow> frame_params \<Rightarrow> nav_ctl \<Rightarrow> nav_ctl option" where
  "RendererDidNavigateNewSubframe env params s =
     (if StripQualifier (p_transition params) = AUTO_SUBFRAME then Some s
      else do {
        last \<leftarrow> GetLastCommittedEntry s;
        a \<leftarrow> last;
        e \<leftarrow> heap s a;
        let (b, s1) = alloc (e\<lparr>entry_page_id := p_page_id params\<rparr>) s;
        InsertOrReplaceEntry env b False s1
      })"

definition RendererDidNavigateAutoSubframe ::
  "nav_env \<Rightarrow> frame_params \<Rightarrow> nav_ctl \<Rightarrow> bool \<times> nav_ctl" where
  "RendererDidNavigateAutoSubframe env params s =
     (let entry_index = GetEntryIndexWithPageID s (Some (tab_site env)) (p_page_id params)
      in if entry_index < 0 \<or> entry_index \<ge> entry_count s then (False, s)
         else if entry_index \<noteq> last_committed_entry_index s
         then (True, s\<lparr>last_committed_entry_index := entry_index\<rparr>)
         else (False, s))"

text \<open>\<open>NotifyNavigationEntryCommitted\<close> fills in the entry again.\<close>

definition NotifyNavigationEntryCommitted ::
  "committed_details \<Rightarrow> nav_ctl \<Rightarrow> (committed_details \<times> nav_ctl) option" where
  "NotifyNavigationEntryCommitted details s = do {
     active \<leftarrow> GetActiveEntry s;
     let d = details\<lparr>d_entry := active\<rparr>;
     Some (d, nav_emit (NAV_ENTRY_COMMITTED d) (nav_emit NavigationStateChanged s))
   }"

definition previous_details :: "nav_ctl \<Rightarrow> committed_details \<Rightarrow> committed_details option" where
  "previous_details s details = do {
     last \<leftarrow> GetLastCommittedEntry s;
     case last of
       None \<Rightarrow> Some (details\<lparr>d_previous_url := [], d_previous_entry_index := -1\<rparr>)
     | Some a \<Rightarrow> do {
         e \<leftarrow> heap s a;
         Some (details\<lparr>d_previous_url := entry_url e,
                       d_previous_entry_index := last_committed_entry_index s\<rparr>)
       }
   }"

text \<open>A restored entry gets its site instance when it is first committed.\<close>

definition fill_pending_site :: "nav_env \<Rightarrow> nav_ctl \<Rightarrow> nav_ctl option" where
  "fill_pending_site env s =
     (if pending_entry_index s \<ge> 0 then do {
        pa \<leftarrow> pending_entry s;
        pe \<leftarrow> heap s pa;
        if site_instance pe = None
        then write_entry pa (\<lambda>e. e\<lparr>site_instance := Some (tab_site env), entry_restore_type := RESTORE_NONE\<rparr>) s
        else Some s
      } else Some s)"

text \<open>The handler the type selects: whether the navigation goes on to be reported.\<close>

fun dispatch_navigation ::
  "nav_env \<Rightarrow> navigation_type \<Rightarrow> frame_params \<Rightarrow> committed_details \<Rightarrow> nav_ctl \<Rightarrow>
   (bool \<times> committed_details \<times> nav_ctl) option" where
  "dispatch_navigation env NEW_PAGE params d s =
     map_option (\<lambda>t. (True, d, t)) (RendererDidNavigateToNewPage env params (d_did_replace_entry d) s)"
| "dispatch_navigation env EXISTING_PAGE params d s =
     map_option (\<lambda>t. (True, d, t)) (RendererDidNavigateToExistingPage env params s)"
| "dispatch_navigation env SAME_PAGE params d s =
     map_option (\<lambda>t. (True, d, t)) (RendererDidNavigateToSamePage env params s)"
| "dispatch_navigation env IN_PAGE params d s =
     map_option (\<lambda>t. (True, d\<lparr>d_did_replace_entry := True\<rparr>, t)) (RendererDidNavigateInPage env params s)"
| "dispatch_navigation env NEW_SUBFRAME params d s =
     map_option (\<lambda>t. (True, d, t)) (RendererDidNavigateNewSubframe env params s)"
| "dispatch_navigation env NT_AUTO_SUBFRAME params d s =
     (case RendererDidNavigateAutoSubframe env params s of (b, t) \<Rightarrow> Some (b, d, t))"
| "dispatch_navigation env NAV_IGNORE params d s =
     (if pending_entry s \<noteq> None
      then map_option (\<lambda>t. (False, d, nav_emit NavigationStateChanged t)) (DiscardNonCommittedEntries s)
      else Some (False, d, s))"
| "dispatch_navigation env NT_UNKNOWN params d s = Some (True, d, s)"

definition RendererDidNavigate ::
  "nav_env \<Rightarrow> frame_params \<Rightarrow> committed_details \<Rightarrow> nav_ctl \<Rightarrow> (bool \<times> committed_details \<times> nav_ctl) option" where
  "RendererDidNavigate env params details s = do {
     d1 \<leftarrow> previous_details s details;
     s1 \<leftarrow> fill_pending_site env s;
     in_page \<leftarrow> IsURLInPageNavigation env s1 (p_url params);
     ntype \<leftarrow> ClassifyNavigation env s1 params;
     (go_on, d2, s2) \<leftarrow> dispatch_navigation env ntype params
                          (d1\<lparr>d_is_in_page := in_page, d_type := ntype\<rparr>) s1;
     if \<not> go_on then Some (False, d2, s2)
     else do {
       active \<leftarrow> GetActiveEntry s2;
       a \<leftarrow> active;
       s3 \<leftarrow> write_entry a (\<lambda>e. e\<lparr>entry_content_state := p_content_state params\<rparr>) s2;
       let d3 = d2\<lparr>d_is_auto := (IsRedirect_transition (p_transition params) \<and> pending_entry s3 = None)
                                 \<or> p_gesture_auto params,
                   d_entry := Some a,
                   d_is_main_frame := IsMainFrame (p_transition params),
                   d_security_info := p_security_info params,
                   d_http_status_code := p_http_status_code params\<rparr>;
       (d4, s4) \<leftarrow> NotifyNavigationEntryCommitted d3 s3;
       Some (True, d4, s4)
     }
   }"

definition CommitPendingEntry :: "nav_env \<Rightarrow> nav_ctl \<Rightarrow> nav_ctl option" where
  "CommitPendingEntry env s = do {
     s1 \<leftarrow> DiscardTransientEntry s;
     case pending_entry s1 of
       None \<Rightarrow> Some s1
     | Some pa \<Rightarrow> do {
         d1 \<leftarrow> previous_details s1 new_details;
         (d2, s2) \<leftarrow>
           (if pending_entry_index s1 \<ge> 0 then do {
              t \<leftarrow> DiscardNonCommittedEntriesInternal s1;
              Some (d1\<lparr>d_type := EXISTING_PAGE\<rparr>, t\<lparr>last_committed_entry_index := pending_entry_index s1\<rparr>)
            } else do {
              let pid = max_page_id s1 + 1;
              t1 \<leftarrow> write_entry pa (\<lambda>e. e\<lparr>entry_page_id := pid\<rparr>) s1;
              pe \<leftarrow> heap t1 pa;
              let (b, t2) = alloc pe (UpdateMaxPageID pid t1);
              t3 \<leftarrow> InsertOrReplaceEntry env b False t2;
              Some (d1\<lparr>d_type := NEW_PAGE\<rparr>, t3)
            });
         active \<leftarrow> GetActiveEntry s2;
         a \<leftarrow> active;
         e \<leftarrow> heap s2 a;
         (_, s3) \<leftarrow> NotifyNavigationEntryCommitted
           (d2\<lparr>d_entry := Some a, d_is_auto := False, d_is_main_frame := True,
               d_is_in_page := AreURLsInPageNavigation env (d_previous_url d2) (entry_url e)\<rparr>) s2;
         Some s3
       }
   }"

subsection \<open>Restoring, copying and pruning\<close>

record tab_navigation =
  tn_virtual_url :: gurl
  tn_referrer :: gurl
  tn_title :: string
  tn_state :: string
  tn_has_post_data :: bool

definition ToNavigationEntry :: "nav_env \<Rightarrow> int \<Rightarrow> int \<Rightarrow> tab_navigation \<Rightarrow> nav_entry" where
  "ToNavigationEntry env uid pid n =
     (CreateNavigationEntry env (tn_virtual_url n) (tn_referrer n) RELOAD_transition uid)
       \<lparr>entry_page_id := pid, entry_title := tn_title n, entry_content_state := tn_state n,
        has_post_data := tn_has_post_data n\<rparr>"

fun CreateNavigationEntriesFromTabNavigations ::
  "nav_env \<Rightarrow> int \<Rightarrow> tab_navigation list \<Rightarrow> nav_ctl \<Rightarrow> nav_ctl" where
  "CreateNavigationEntriesFromTabNavigations env pid [] s = s"
| "CreateNavigationEntriesFromTabNavigations env pid (n # ns) s =
     (let (uid, s1) = fresh_id s;
          (a, s2) = alloc (ToNavigationEntry env uid pid n) s1
      in CreateNavigationEntriesFromTabNavigations env (pid + 1) ns (s2\<lparr>entries := entries s2 @ [a]\<rparr>))"

fun configure_entries :: "nav_env \<Rightarrow> bool \<Rightarrow> addr list \<Rightarrow> nav_ctl \<Rightarrow> nav_ctl option" where
  "configure_entries env from_last_session [] s = Some s"
| "configure_entries env from_last_session (a # as) s = do {
     s' \<leftarrow> write_entry a (configure_for_restore env from_last_session) s;
     configure_entries env from_last_session as s'
   }"

definition FinishRestore :: "nav_env \<Rightarrow> int \<Rightarrow> bool \<Rightarrow> nav_ctl \<Rightarrow> nav_ctl option" where
  "FinishRestore env selected_index from_last_session s = do {
     s1 \<leftarrow> configure_entries env from_last_session (entries s) s;
     Some (s1\<lparr>max_restored_page_id := entry_count s1, last_committed_entry_index := selected_index\<rparr>)
   }"

definition RestoreFromState ::
  "nav_env \<Rightarrow> tab_navigation list \<Rightarrow> int \<Rightarrow> bool \<Rightarrow> nav_ctl \<Rightarrow> nav_ctl option" where
  "RestoreFromState env navigations selected_navigation from_last_session s =
     FinishRestore env selected_navigation from_last_session
       (CreateNavigationEntriesFromTabNavigations env 0 navigations (s\<lparr>needs_reload := True\<rparr>))"

text \<open>The copies of the source's first entries, interstitials left out, in front of the entries.\<close>

fun insert_copies :: "nat \<Rightarrow> nav_ctl \<Rightarrow> addr list \<Rightarrow> nav_ctl \<Rightarrow> nav_ctl option" where
  "insert_copies pos source [] s = Some s"
| "insert_copies pos source (a # as) s = do {
     e \<leftarrow> heap source a;
     if entry_page_type e \<noteq> INTERSTITIAL_PAGE then
       (let (b, s1) = alloc e s
        in insert_copies (Suc pos) source as (s1\<lparr>entries := insert_at pos b (entries s1)\<rparr>))
     else insert_copies pos source as s
   }"

definition InsertEntriesFrom :: "nav_ctl \<Rightarrow> int \<Rightarrow> nav_ctl \<Rightarrow> nav_ctl option" where
  "InsertEntriesFrom source max_index s =
     (if max_index \<le> entry_count source then insert_copies 0 source (take (nat max_index) (entries source)) s
      else None)"

definition CopyStateFrom :: "nav_env \<Rightarrow> nav_ctl \<Rightarrow> nav_ctl \<Rightarrow> nav_ctl option" where
  "CopyStateFrom env source s =
     (if entry_count source = 0 then Some s
      else do {
        s1 \<leftarrow> InsertEntriesFrom source (entry_count source) (s\<lparr>needs_reload := True\<rparr>);
        FinishRestore env (last_committed_entry_index source) False s1
      })"

definition PruneAllButActive :: "nav_env \<Rightarrow> nav_ctl \<Rightarrow> nav_ctl option" where
  "PruneAllButActive env s =
     (let done = (\<lambda>t. Some (if has_interstitial env then nav_emit InterstitialReloadOnDontProceed t else t))
      in if transient_entry_index s \<noteq> -1 then do {
           s1 \<leftarrow> erase_front (transient_entry_index s) s;
           done (s1\<lparr>transient_entry_index := 0, last_committed_entry_index := -1, pending_entry_index := -1\<rparr>)
         } else if pending_entry s = None then
           (if entry_count s = 0 then Some s
            else do {
              s1 \<leftarrow> erase_front (last_committed_entry_index s) s;
              s2 \<leftarrow> erase_back 1 s1;
              done (s2\<lparr>last_committed_entry_index := 0\<rparr>)
            })
         else if pending_entry_index s \<noteq> -1 then do {
           s1 \<leftarrow> erase_front (pending_entry_index s) s;
           s2 \<leftarrow> erase_back 1 s1;
           done (s2\<lparr>pending_entry_index := 0, last_committed_entry_index := 0\<rparr>)
         } else do {
           s1 \<leftarrow> erase_back 0 s;
           done (s1\<lparr>pending_entry_index := -1, last_committed_entry_index := -1\<rparr>)
         })"

text \<open>The first entry is removed with the pending entry put aside.\<close>

definition remove_first_keeping_pending :: "nav_ctl \<Rightarrow> nav_ctl option" where
  "remove_first_keeping_pending s = do {
     let saved = pending_entry s;
     let saved_index = pending_entry_index s;
     s1 \<leftarrow> RemoveEntryAtIndexInternal 0 (s\<lparr>pending_entry := None\<rparr>);
     if saved_index \<noteq> -1 then do {
       let s2 = s1\<lparr>pending_entry_index := saved_index - 1\<rparr>;
       if saved_index - 1 \<noteq> -1
       then map_option (\<lambda>a. s2\<lparr>pending_entry := Some a\<rparr>) (vec_at (entries s2) (saved_index - 1))
       else Some s2
     } else Some (if saved \<noteq> None then s1\<lparr>pending_entry := saved\<rparr> else s1)
   }"

definition CopyStateFromAndPrune :: "nav_env \<Rightarrow> nav_ctl \<Rightarrow> bool \<Rightarrow> nav_ctl \<Rightarrow> nav_ctl option" where
  "CopyStateFromAndPrune env source remove_first_entry s = do {
     s1 \<leftarrow> (if remove_first_entry \<and> entry_count s \<noteq> 0 then remove_first_keeping_pending s else Some s);
     s2 \<leftarrow> PruneAllButActive env s1;
     let max_source_index = (if pending_entry_index source \<noteq> -1 then pending_entry_index source
                             else last_committed_entry_index source);
     s3 \<leftarrow> InsertEntriesFrom source
             (if max_source_index = -1 then entry_count source else max_source_index + 1) s2;
     let n = entry_count s3;
     let s4 = s3\<lparr>last_committed_entry_index := n - 1,
                 pending_entry_index := (if pending_entry_index s3 \<noteq> -1 then n - 1 else -1)\<rparr>;
     Some (if transient_entry_index s4 \<noteq> -1
           then s4\<lparr>transient_entry_index := n - 1,
                   last_committed_entry_index := (if n - 1 \<noteq> -1 then n - 2 else n - 1)\<rparr>
           else s4)
   }"

subsection \<open>The rest\<close>

definition DocumentLoadedInFrame :: "nav_ctl \<Rightarrow> nav_ctl" where
  "DocumentLoadedInFrame s = s\<lparr>document_loaded := True\<rparr>"

definition SetWindowID :: "nav_ctl \<Rightarrow> nav_ctl" where
  "SetWindowID s = nav_emit TAB_PARENTED s"

definition NotifyEntryChanged :: "addr \<Rightarrow> int \<Rightarrow> nav_ctl \<Rightarrow> nav_ctl" where
  "NotifyEntryChanged a index s = nav_emit (NAV_ENTRY_CHANGED a index) s"

definition DisablePromptOnRepost :: "nav_ctl \<Rightarrow> nav_ctl" where
  "DisablePromptOnRepost s = s\<lparr>check_for_repost_flag := False\<rparr>"

end
