(* ===== verification/NavInv.thy ===== *)
theory NavInv
  imports NavCommit
begin

text \<open>
  The invariant of the navigation controller and what its memory operations do to it: no entry is
  read or freed after it was freed, the indices stay inside the list, and the list stays within
  \<open>max_entry_count\<close>.
\<close>

definition nav_mem :: "nav_ctl \<Rightarrow> bool" where
  "nav_mem s \<longleftrightarrow> distinct (entries s) \<and> (\<forall>a \<in> set (entries s). heap s a \<noteq> None) \<and>
     (\<forall>a. heap s a \<noteq> None \<longrightarrow> a < next_addr s)"

text \<open>The entries without the transient one, and the last committed index among them.\<close>

definition committed_entries :: "nav_ctl \<Rightarrow> addr list" where
  "committed_entries s =
     (if transient_entry_index s = -1 then entries s
      else erase_at (nat (transient_entry_index s)) (entries s))"

definition committed_index :: "nav_ctl \<Rightarrow> int" where
  "committed_index s =
     (if transient_entry_index s \<noteq> -1 \<and> last_committed_entry_index s > transient_entry_index s
      then last_committed_entry_index s - 1 else last_committed_entry_index s)"

definition pending_ok :: "nav_ctl \<Rightarrow> bool" where
  "pending_ok s \<longleftrightarrow>
     (case pending_entry s of
        None \<Rightarrow> pending_entry_index s = -1
      | Some a \<Rightarrow> heap s a \<noteq> None \<and>
          (if pending_entry_index s = -1 then a \<notin> set (entries s)
           else 0 \<le> pending_entry_index s \<and> pending_entry_index s < int (length (committed_entries s)) \<and>
                a \<in> set (committed_entries s)))"

definition transient_ok :: "nav_ctl \<Rightarrow> bool" where
  "transient_ok s \<longleftrightarrow> transient_entry_index s = -1 \<or>
     (0 \<le> transient_entry_index s \<and> transient_entry_index s < entry_count s \<and>
      transient_entry_index s \<noteq> last_committed_entry_index s \<and>
      (\<forall>e. entry_at s (transient_entry_index s) = Some e \<longrightarrow> entry_page_id e = -1))"

definition nav_ok :: "nav_ctl \<Rightarrow> bool" where
  "nav_ok s \<longleftrightarrow> nav_mem s \<and> pending_ok s \<and> transient_ok s \<and>
     -1 \<le> last_committed_entry_index s \<and> last_committed_entry_index s < entry_count s \<and>
     (committed_entries s \<noteq> [] \<longrightarrow> 0 \<le> last_committed_entry_index s) \<and>
     int (length (committed_entries s)) \<le> max_entry_count"

definition quiet :: "nav_ctl \<Rightarrow> bool" where
  "quiet s \<longleftrightarrow> pending_entry s = None \<and> pending_entry_index s = -1 \<and> transient_entry_index s = -1"

definition freed :: "nav_ctl \<Rightarrow> addr set" where
  "freed s = {a. (pending_entry_index s = -1 \<and> pending_entry s = Some a) \<or>
                 (transient_entry_index s \<noteq> -1 \<and> a = entries s ! nat (transient_entry_index s))}"

definition discarded :: "nav_ctl \<Rightarrow> nav_ctl" where
  "discarded s = s\<lparr>heap := (\<lambda>a. if a \<in> freed s then None else heap s a),
     entries := committed_entries s, pending_entry := None,
     last_committed_entry_index := committed_index s, pending_entry_index := -1,
     transient_entry_index := -1\<rparr>"

lemma nav_emit_fields [simp]:
  "heap (nav_emit e s) = heap s" "next_addr (nav_emit e s) = next_addr s"
  "entries (nav_emit e s) = entries s" "pending_entry (nav_emit e s) = pending_entry s"
  "last_committed_entry_index (nav_emit e s) = last_committed_entry_index s"
  "pending_entry_index (nav_emit e s) = pending_entry_index s"
  "transient_entry_index (nav_emit e s) = transient_entry_index s"
  "max_page_id (nav_emit e s) = max_page_id s" "needs_reload (nav_emit e s) = needs_reload s"
  "entry_count (nav_emit e s) = entry_count s" "entry_at (nav_emit e s) i = entry_at s i"
  "nav_events (nav_emit e s) = nav_events s @ [e]"
  by (simp_all add: nav_emit_def entry_count_def entry_at_def)

lemma committed_emit [simp]:
  "committed_entries (nav_emit e s) = committed_entries s" "committed_index (nav_emit e s) = committed_index s"
  "quiet (nav_emit e s) = quiet s" "GetCurrentEntryIndex (nav_emit e s) = GetCurrentEntryIndex s"
  by (simp_all add: committed_entries_def committed_index_def quiet_def GetCurrentEntryIndex_def)

text \<open>Only seven fields matter to the invariant.\<close>

lemma nav_ok_cong:
  assumes "heap t = heap s" "next_addr t = next_addr s" "entries t = entries s"
    "pending_entry t = pending_entry s" "last_committed_entry_index t = last_committed_entry_index s"
    "pending_entry_index t = pending_entry_index s" "transient_entry_index t = transient_entry_index s"
  shows "nav_ok t = nav_ok s"
  using assms by (simp add: nav_ok_def nav_mem_def pending_ok_def transient_ok_def committed_entries_def
      entry_count_def entry_at_def cong: option.case_cong)

lemma nav_ok_emit [simp]: "nav_ok (nav_emit e s) = nav_ok s"
  by (rule nav_ok_cong) simp_all

lemma set_committed: "set (committed_entries s) \<subseteq> set (entries s)"
  by (auto simp: committed_entries_def dest: set_erase_at_subset [THEN subsetD])

lemma transient_not_committed:
  assumes "nav_ok s" "transient_entry_index s \<noteq> -1"
  shows "entries s ! nat (transient_entry_index s) \<notin> set (committed_entries s)"
    "entries s ! nat (transient_entry_index s) \<in> set (entries s)"
proof -
  let ?i = "nat (transient_entry_index s)"
  have i: "?i < length (entries s)" and d: "distinct (entries s)"
    using assms by (auto simp: nav_ok_def nav_mem_def transient_ok_def entry_count_def)
  then show "entries s ! ?i \<in> set (entries s)" by simp
  have "mset (entries s) = add_mset (entries s ! ?i) (mset (erase_at ?i (entries s)))"
    using mset_erase_at [OF i] by simp
  also have "\<dots> = mset (entries s ! ?i # erase_at ?i (entries s))" by simp
  finally have "distinct (entries s ! ?i # erase_at ?i (entries s))"
    using d mset_eq_imp_distinct_iff by blast
  then show "entries s ! ?i \<notin> set (committed_entries s)"
    using assms(2) by (simp add: committed_entries_def)
qed

lemma freed_not_committed: "nav_ok s \<Longrightarrow> a \<in> freed s \<Longrightarrow> a \<notin> set (committed_entries s)"
  using transient_not_committed(1) [of s] set_committed [of s]
  by (auto simp: freed_def nav_ok_def pending_ok_def split: option.splits if_splits)

lemma erase_entry_eq:
  "nav_mem s \<Longrightarrow> 0 \<le> i \<Longrightarrow> i < entry_count s \<Longrightarrow>
   erase_entry i s = Some (s\<lparr>entries := erase_at (nat i) (entries s),
                             heap := (heap s)(entries s ! nat i := None)\<rparr>)"
  by (auto simp: erase_entry_def vec_at_def entry_count_def delete_entry_def nav_mem_def
      split: option.split dest!: bspec)

lemma discard_eq:
  assumes ok: "nav_ok s"
  shows "DiscardNonCommittedEntriesInternal s = Some (discarded s)"
proof -
  let ?p = "pending_entry_index s = -1"
  define s1 where "s1 = s\<lparr>heap := (\<lambda>a. if ?p \<and> pending_entry s = Some a then None else heap s a)\<rparr>"
  have d: "(if ?p then delete_entry (pending_entry s) s else Some s) = Some s1"
    using ok by (auto simp: nav_ok_def pending_ok_def delete_entry_def s1_def fun_upd_def
        split: option.splits intro!: arg_cong [where f = "\<lambda>h. heap_update h s" for s])
       (auto simp: fun_eq_iff)
  define s2 where "s2 = s1\<lparr>pending_entry := None, pending_entry_index := -1\<rparr>"
  have m: "nav_mem s2"
    using ok by (auto simp: s2_def s1_def nav_ok_def nav_mem_def pending_ok_def split: option.splits if_splits)
  have t: "transient_entry_index s = -1 \<or> (0 \<le> transient_entry_index s \<and> transient_entry_index s < entry_count s)"
    using ok by (auto simp: nav_ok_def transient_ok_def)
  have "DiscardTransientEntry s2 = Some (discarded s)"
  proof (cases "transient_entry_index s = -1")
    case True
    then show ?thesis
      by (simp add: DiscardTransientEntry_def s2_def s1_def discarded_def committed_entries_def
          committed_index_def freed_def)
  next
    case False
    have h: "(heap s2)(entries s ! nat (transient_entry_index s) := None) =
        (\<lambda>a. if a \<in> freed s then None else heap s a)"
      using False by (auto simp: s2_def s1_def freed_def fun_eq_iff)
    have "erase_entry (transient_entry_index s2) s2 =
        Some (s2\<lparr>entries := erase_at (nat (transient_entry_index s)) (entries s),
                 heap := (\<lambda>a. if a \<in> freed s then None else heap s a)\<rparr>)"
      using m t False erase_entry_eq [of s2 "transient_entry_index s"] h
      by (simp add: s2_def s1_def entry_count_def)
    then show ?thesis
      using False
      by (simp add: DiscardTransientEntry_def s2_def s1_def discarded_def committed_entries_def
          committed_index_def)
  qed
  then show ?thesis using d by (simp add: DiscardNonCommittedEntriesInternal_def s2_def)
qed

lemma quietD:
  "quiet s \<Longrightarrow> pending_entry s = None" "quiet s \<Longrightarrow> pending_entry_index s = -1"
  "quiet s \<Longrightarrow> transient_entry_index s = -1" "quiet s \<Longrightarrow> committed_entries s = entries s"
  "quiet s \<Longrightarrow> committed_index s = last_committed_entry_index s"
  by (simp_all add: quiet_def committed_entries_def committed_index_def)

lemma discarded_fields [simp]:
  "entries (discarded s) = committed_entries s" "quiet (discarded s)"
  "last_committed_entry_index (discarded s) = committed_index s"
  "next_addr (discarded s) = next_addr s" "next_unique_id (discarded s) = next_unique_id s"
  "max_page_id (discarded s) = max_page_id s" "needs_reload (discarded s) = needs_reload s"
  "max_restored_page_id (discarded s) = max_restored_page_id s"
  "nav_events (discarded s) = nav_events s" "document_loaded (discarded s) = document_loaded s"
  "pending_reload (discarded s) = pending_reload s"
  "check_for_repost_flag (discarded s) = check_for_repost_flag s"
  "entry_count (discarded s) = int (length (committed_entries s))"
  by (simp_all add: discarded_def quiet_def entry_count_def)

lemma discarded_heap:
  "nav_ok s \<Longrightarrow> a \<in> set (committed_entries s) \<Longrightarrow> heap (discarded s) a = heap s a"
  using freed_not_committed by (auto simp: discarded_def)

text \<open>The invariant of a quiet state.\<close>

lemma nav_ok_quiet:
  "quiet s \<Longrightarrow> nav_ok s \<longleftrightarrow> nav_mem s \<and> -1 \<le> last_committed_entry_index s \<and>
     last_committed_entry_index s < entry_count s \<and>
     (entries s \<noteq> [] \<longrightarrow> 0 \<le> last_committed_entry_index s) \<and> entry_count s \<le> max_entry_count"
  by (auto simp: quietD nav_ok_def pending_ok_def transient_ok_def entry_count_def)

lemma length_committed:
  "nav_ok s \<Longrightarrow> int (length (committed_entries s)) =
     (if transient_entry_index s = -1 then entry_count s else entry_count s - 1)"
  by (auto simp: committed_entries_def nav_ok_def transient_ok_def entry_count_def vec_simps)

lemma committed_index_bounds:
  assumes "nav_ok s"
  shows "-1 \<le> committed_index s" "committed_index s < int (length (committed_entries s))"
    "committed_entries s \<noteq> [] \<Longrightarrow> 0 \<le> committed_index s"
  using assms length_committed [OF assms]
  by (auto simp: committed_index_def nav_ok_def transient_ok_def)

lemma nav_mem_discarded:
  assumes "nav_ok s"
  shows "nav_mem (discarded s)"
proof -
  have "distinct (committed_entries s)"
    using assms by (auto simp: committed_entries_def nav_ok_def nav_mem_def intro: distinct_erase_at)
  moreover have "heap (discarded s) a \<noteq> None" if "a \<in> set (committed_entries s)" for a
    using that discarded_heap [OF assms that] set_committed [of s] assms
    by (auto simp: nav_ok_def nav_mem_def)
  moreover have "heap (discarded s) a \<noteq> None \<longrightarrow> a < next_addr s" for a
    using assms by (auto simp: nav_ok_def nav_mem_def discarded_def)
  ultimately show ?thesis by (auto simp: nav_mem_def)
qed

lemma discarded_ok: "nav_ok s \<Longrightarrow> nav_ok (discarded s)"
  using nav_mem_discarded [of s] committed_index_bounds [of s]
  by (simp add: nav_ok_quiet) (simp add: nav_ok_def)

lemma discard_notify_eq:
  "nav_ok s \<Longrightarrow> DiscardNonCommittedEntries s =
     Some (if transient_entry_index s \<noteq> -1 then nav_emit NavigationStateChanged (discarded s) else discarded s)"
  by (simp add: DiscardNonCommittedEntries_def discard_eq)

lemma entry_at_live:
  assumes "nav_mem s" "0 \<le> i" "i < entry_count s"
  shows "\<exists>e. entry_at s i = Some e \<and> heap s (entries s ! nat i) = Some e"
proof -
  have "entries s ! nat i \<in> set (entries s)" using assms by (simp add: entry_count_def)
  then have "heap s (entries s ! nat i) \<noteq> None" using assms(1) by (simp add: nav_mem_def)
  then show ?thesis using assms by (auto simp: entry_at_def vec_at_def entry_count_def)
qed

subsection \<open>Allocating and writing\<close>

lemma alloc_fields [simp]:
  assumes "alloc e s = (a, t)"
  shows "a = next_addr s" "heap t = (heap s)(next_addr s := Some e)" "next_addr t = next_addr s + 1"
    "entries t = entries s" "pending_entry t = pending_entry s"
    "last_committed_entry_index t = last_committed_entry_index s"
    "pending_entry_index t = pending_entry_index s" "transient_entry_index t = transient_entry_index s"
    "max_page_id t = max_page_id s" "nav_events t = nav_events s" "needs_reload t = needs_reload s"
  using assms by (auto simp: alloc_def)

lemma nav_mem_next: "nav_mem s \<Longrightarrow> heap s (next_addr s) = None"
  by (auto simp: nav_mem_def)

lemma nav_mem_next_notin: "nav_mem s \<Longrightarrow> next_addr s \<notin> set (entries s)"
  by (auto simp: nav_mem_def)

lemma alloc_ok:
  assumes ok: "nav_ok s" and r: "alloc e s = (a, t)"
  shows "nav_ok t" "heap t a = Some e" "a \<notin> set (entries t)" "pending_entry t \<noteq> Some a"
proof -
  have m: "nav_mem s" using ok by (simp add: nav_ok_def)
  have n: "next_addr s \<notin> set (entries s)" by (rule nav_mem_next_notin [OF m])
  note f = alloc_fields [OF r]
  show "heap t a = Some e" "a \<notin> set (entries t)" using f n by auto
  have p: "pending_entry s \<noteq> Some (next_addr s)"
    using ok nav_mem_next [OF m] by (auto simp: nav_ok_def pending_ok_def)
  then show "pending_entry t \<noteq> Some a" using f by simp
  have c: "committed_entries t = committed_entries s" using f by (simp add: committed_entries_def)
  have "nav_mem t" using m f n by (auto simp: nav_mem_def less_Suc_eq)
  moreover have "pending_ok t"
    using ok f c p by (auto simp: nav_ok_def pending_ok_def split: option.splits)
  moreover have "transient_ok t"
  proof -
    have "entry_at t i = entry_at s i" for i
      using n f(2,4) vec_at_mem [of "entries s" i] by (cases "vec_at (entries s) i") (auto simp: entry_at_def)
    then show ?thesis using ok f by (auto simp: nav_ok_def transient_ok_def entry_count_def)
  qed
  ultimately show "nav_ok t" using ok f c by (auto simp: nav_ok_def entry_count_def)
qed

text \<open>Writing to a live entry keeps the invariant unless it gives the transient entry a page id.\<close>

definition wrote :: "addr \<Rightarrow> nav_entry \<Rightarrow> nav_ctl \<Rightarrow> nav_ctl" where
  "wrote a e s = s\<lparr>heap := (heap s)(a := Some e)\<rparr>"

lemma write_entry_eq: "heap s a = Some e \<Longrightarrow> write_entry a f s = Some (wrote a (f e) s)"
  by (simp add: write_entry_def wrote_def)

lemma wrote_fields [simp]:
  "heap (wrote a e s) b = (if b = a then Some e else heap s b)" "next_addr (wrote a e s) = next_addr s"
  "entries (wrote a e s) = entries s" "pending_entry (wrote a e s) = pending_entry s"
  "last_committed_entry_index (wrote a e s) = last_committed_entry_index s"
  "pending_entry_index (wrote a e s) = pending_entry_index s"
  "transient_entry_index (wrote a e s) = transient_entry_index s"
  "max_page_id (wrote a e s) = max_page_id s" "committed_entries (wrote a e s) = committed_entries s"
  "committed_index (wrote a e s) = committed_index s" "entry_count (wrote a e s) = entry_count s"
  "needs_reload (wrote a e s) = needs_reload s" "nav_events (wrote a e s) = nav_events s"
  "freed (wrote a e s) = freed s" "quiet (wrote a e s) = quiet s"
  by (auto simp: wrote_def committed_entries_def committed_index_def entry_count_def freed_def quiet_def)

lemma wrote_ok:
  assumes ok: "nav_ok s" and a: "heap s a \<noteq> None"
    and pid: "transient_entry_index s \<noteq> -1 \<Longrightarrow> a = entries s ! nat (transient_entry_index s) \<Longrightarrow> entry_page_id e = -1"
  shows "nav_ok (wrote a e s)"
proof -
  have "nav_mem (wrote a e s)" using ok a by (auto simp: nav_ok_def nav_mem_def)
  moreover have "pending_ok (wrote a e s)"
    using ok by (auto simp: nav_ok_def pending_ok_def split: option.splits)
  moreover have "transient_ok (wrote a e s)"
    using ok pid by (auto simp: nav_ok_def transient_ok_def entry_at_def vec_at_def entry_count_def split: if_splits)
  ultimately show ?thesis using ok by (simp add: nav_ok_def)
qed

subsection \<open>Navigating\<close>

lemma discarded_quiet: "quiet s \<Longrightarrow> discarded s = s"
  by (simp add: discarded_def quietD freed_def)

lemma discard_committed [simp]:
  "committed_entries (discarded s) = committed_entries s" "committed_index (discarded s) = committed_index s"
  by (simp_all add: discarded_def committed_entries_def committed_index_def)

lemma NavigateToPendingEntry_ok:
  assumes ok: "nav_ok s" and p: "pending_entry s = Some a"
  shows "\<exists>t. NavigateToPendingEntry env r s = Some t \<and> nav_ok t \<and> needs_reload t = False \<and>
    committed_entries t = committed_entries s \<and> committed_index t = committed_index s \<and>
    max_page_id t = max_page_id s \<and>
    (quiet t \<or> t = s\<lparr>needs_reload := False, pending_entry := Some a\<rparr>)"
proof -
  let ?u = "s\<lparr>needs_reload := False, pending_entry := Some a\<rparr>"
  have u: "nav_ok ?u" using ok p by (subst nav_ok_cong [of _ s]) simp_all
  have c: "committed_entries ?u = committed_entries s" "committed_index ?u = committed_index s"
    by (simp_all add: committed_entries_def committed_index_def)
  obtain e where e: "heap s a = Some e" using ok p by (auto simp: nav_ok_def pending_ok_def)
  show ?thesis
  proof (cases "tab_navigates env e r")
    case True
    then show ?thesis using u c e p by (simp add: NavigateToPendingEntry_def)
  next
    case False
    then have "NavigateToPendingEntry env r s = Some (if transient_entry_index s \<noteq> -1
        then nav_emit NavigationStateChanged (discarded ?u) else discarded ?u)"
      using discard_notify_eq [OF u] e p by (simp add: NavigateToPendingEntry_def)
    then show ?thesis using discarded_ok [OF u] c by simp
  qed
qed

lemma set_pending_index_ok:
  assumes ok: "nav_ok s" and q: "quiet s" and i: "0 \<le> i" "i < entry_count s"
  shows "nav_ok (s\<lparr>pending_entry_index := i, pending_entry := Some (entries s ! nat i)\<rparr>)"
proof -
  let ?u = "s\<lparr>pending_entry_index := i, pending_entry := Some (entries s ! nat i)\<rparr>"
  have c: "committed_entries ?u = entries s" using q by (simp add: committed_entries_def quietD)
  have m: "nav_mem ?u" using ok by (auto simp: nav_ok_def nav_mem_def)
  have "entries s ! nat i \<in> set (entries s)" using i by (simp add: entry_count_def)
  then have "pending_ok ?u"
    using m i c by (auto simp: pending_ok_def nav_mem_def entry_count_def)
  then show ?thesis
    using ok m c q by (auto simp: nav_ok_def transient_ok_def quietD entry_count_def)
qed

lemma navigate_to_index_ok:
  assumes ok: "nav_ok s" and q: "quiet s" and i: "0 \<le> i" "i < entry_count s"
  shows "\<exists>t. navigate_to_index env tr r i s = Some t \<and> nav_ok t \<and> entries t = entries s \<and>
    last_committed_entry_index t = last_committed_entry_index s \<and>
    max_page_id t = max_page_id s \<and> transient_entry_index t = -1 \<and>
    (quiet t \<or> pending_entry_index t = i \<and> pending_entry t = Some (entries s ! nat i))"
proof -
  let ?a = "entries s ! nat i"
  have mem: "?a \<in> set (entries s)" using i by (simp add: entry_count_def)
  then obtain e where e: "heap s ?a = Some e" using ok by (auto simp: nav_ok_def nav_mem_def)
  let ?w = "wrote ?a (e\<lparr>transition_type := tr (transition_type e)\<rparr>) s"
  have w: "nav_ok ?w" using ok q e by (intro wrote_ok) (auto simp: quietD)
  let ?u = "?w\<lparr>pending_entry_index := i, pending_entry := Some ?a\<rparr>"
  have u: "nav_ok ?u" using set_pending_index_ok [OF w _ i(1)] q i by simp
  have eq: "NavigateToPendingEntry env r (wrote ?a (e\<lparr>transition_type := tr (transition_type e)\<rparr>)
      (s\<lparr>pending_entry_index := i\<rparr>)) = NavigateToPendingEntry env r ?u"
  proof -
    define w where "w = ?u\<lparr>needs_reload := False\<rparr>"
    have w: "wrote ?a (e\<lparr>transition_type := tr (transition_type e)\<rparr>) (s\<lparr>pending_entry_index := i\<rparr>)
        \<lparr>needs_reload := False, pending_entry := Some ?a\<rparr> = w"
      by (simp add: w_def wrote_def)
    have w': "?u\<lparr>needs_reload := False, pending_entry := Some ?a\<rparr> = w"
      by (simp add: w_def)
    have at: "vec_at (entries s) i = Some ?a" using i by (simp add: vec_at_def entry_count_def)
    show ?thesis
      unfolding NavigateToPendingEntry_def Let_def using q w w' at by (simp add: quietD)
  qed
  obtain t where t: "NavigateToPendingEntry env r ?u = Some t" "nav_ok t"
    "committed_entries t = committed_entries ?u" "committed_index t = committed_index ?u"
    "max_page_id t = max_page_id ?u"
    "quiet t \<or> t = ?u\<lparr>needs_reload := False, pending_entry := Some ?a\<rparr>"
    using NavigateToPendingEntry_ok [OF u, of ?a env r] by auto
  have "navigate_to_index env tr r i s = Some t"
    using i e t(1) eq by (simp add: navigate_to_index_def vec_at_def entry_count_def write_entry_eq)
  moreover have "committed_entries ?u = entries s" "committed_index ?u = last_committed_entry_index s"
    using q by (simp_all add: committed_entries_def committed_index_def quietD)
  ultimately show ?thesis using t quietD(3) [OF q] by (auto simp: quietD)
qed

subsection \<open>Inserting an entry\<close>

lemma delete_all_eq:
  "distinct as \<Longrightarrow> (\<forall>a \<in> set as. heap s a \<noteq> None) \<Longrightarrow>
   delete_all as s = Some (s\<lparr>heap := (\<lambda>b. if b \<in> set as then None else heap s b)\<rparr>)"
proof (induction as arbitrary: s)
  case (Cons a as)
  let ?s = "s\<lparr>heap := (heap s)(a := None)\<rparr>"
  have "delete_entry (Some a) s = Some ?s" using Cons.prems by (auto simp: delete_entry_def)
  moreover have "delete_all as ?s = Some (?s\<lparr>heap := (\<lambda>b. if b \<in> set as then None else heap ?s b)\<rparr>)"
    using Cons.prems by (intro Cons.IH) auto
  moreover have "(\<lambda>b. if b \<in> set as then None else heap ?s b) = (\<lambda>b. if b \<in> set (a # as) then None else heap s b)"
    by (auto simp: fun_eq_iff)
  ultimately show ?case by simp
qed simp

lemma nav_mem_take:
  assumes "nav_mem s"
  shows "nav_mem (s\<lparr>heap := (\<lambda>b. if b \<in> set (drop n (entries s)) then None else heap s b),
                    entries := take n (entries s)\<rparr>)"
proof -
  have "set (take n (entries s)) \<inter> set (drop n (entries s)) = {}" "distinct (take n (entries s))"
    using assms by (auto simp: nav_mem_def set_take_disj_set_drop_if_distinct)
  then show ?thesis using assms by (auto simp: nav_mem_def dest: in_set_takeD)
qed

lemma nav_mem_erase:
  assumes "nav_mem s" "k < length (entries s)"
  shows "nav_mem (s\<lparr>entries := erase_at k (entries s), heap := (heap s)(entries s ! k := None)\<rparr>)"
proof -
  have "mset (entries s) = mset (entries s ! k # erase_at k (entries s))"
    using mset_erase_at [OF assms(2)] by simp
  then have "distinct (entries s ! k # erase_at k (entries s))"
    using assms(1) mset_eq_imp_distinct_iff unfolding nav_mem_def by blast
  then show ?thesis using assms(1) set_erase_at_subset [of k "entries s"] by (auto simp: nav_mem_def)
qed

lemma erase_back_eq:
  assumes "nav_mem s" "0 \<le> k" "k \<le> entry_count s"
  shows "erase_back k s = Some (s\<lparr>heap := (\<lambda>b. if b \<in> set (drop (nat k) (entries s)) then None else heap s b),
                                  entries := take (nat k) (entries s)\<rparr>)"
proof -
  have "distinct (drop (nat k) (entries s))" "\<forall>a \<in> set (drop (nat k) (entries s)). heap s a \<noteq> None"
    using assms(1) by (auto simp: nav_mem_def dest: in_set_dropD)
  then show ?thesis using assms(2,3) by (simp add: erase_back_def entry_count_def delete_all_eq cong: if_cong)
qed

definition kept_entries :: "bool \<Rightarrow> nav_ctl \<Rightarrow> addr list" where
  "kept_entries replace s =
     take (nat (committed_index s + (if replace then 0 else 1))) (committed_entries s)"

lemma prune_back_eq:
  assumes ok: "nav_ok s" and q: "quiet s"
  shows "\<exists>t. prune_back replace s = Some t \<and> nav_mem t \<and> quiet t \<and> entries t = kept_entries replace s \<and>
    last_committed_entry_index t = last_committed_entry_index s \<and> next_addr t = next_addr s \<and>
    max_page_id t = max_page_id s \<and>
    (\<forall>b. b \<in> set (kept_entries replace s) \<or> b \<notin> set (entries s) \<longrightarrow> heap t b = heap s b)"
proof -
  let ?k = "last_committed_entry_index s + (if replace then 0 else 1)"
  have kept: "kept_entries replace s = take (nat ?k) (entries s)" using q by (simp add: kept_entries_def quietD)
  have b: "-1 \<le> last_committed_entry_index s" "last_committed_entry_index s < entry_count s"
    "entries s \<noteq> [] \<Longrightarrow> 0 \<le> last_committed_entry_index s" and m: "nav_mem s"
    using ok q by (auto simp: nav_ok_quiet)
  show ?thesis
  proof (cases "entry_count s > 0 \<and> ?k - 1 < entry_count s - 1")
    case True
    let ?d = "drop (nat ?k) (entries s)"
    have k: "0 \<le> ?k" "?k \<le> entry_count s" using True b by (auto simp: entry_count_def)
    have "erase_back ?k s = Some (s\<lparr>heap := (\<lambda>b. if b \<in> set ?d then None else heap s b),
        entries := take (nat ?k) (entries s)\<rparr>)" by (rule erase_back_eq [OF m k])
    then have eq: "prune_back replace s = Some (nav_emit (NAV_LIST_PRUNED False (entry_count s - ?k))
        (s\<lparr>heap := (\<lambda>b. if b \<in> set ?d then None else heap s b), entries := take (nat ?k) (entries s)\<rparr>))"
      using True by (auto simp: prune_back_def Let_def algebra_simps split: if_splits)
    have dis: "set (take (nat ?k) (entries s)) \<inter> set ?d = {}"
      using m by (auto simp: nav_mem_def set_take_disj_set_drop_if_distinct)
    show ?thesis
      using eq nav_mem_take [OF m, of "nat ?k"] q dis
      by (auto simp: kept nav_mem_def quiet_def dest: in_set_dropD)
  next
    case False
    have "take (nat ?k) (entries s) = entries s"
    proof (cases "entries s")
      case (Cons x xs)
      then have "entry_count s \<le> ?k" using False by (auto simp: entry_count_def)
      then show ?thesis by (simp add: entry_count_def nat_le_iff take_all_iff le_nat_iff)
    qed simp
    moreover have "prune_back replace s = Some s" using False by (auto simp: prune_back_def Let_def)
    ultimately show ?thesis using m q by (simp add: kept)
  qed
qed

lemma remove_first_eq:
  assumes m: "nav_mem s" and q: "quiet s" and n: "0 < entry_count s"
    and lc: "0 < last_committed_entry_index s" "last_committed_entry_index s < entry_count s"
    and sz: "entry_count s \<le> max_entry_count"
  shows "\<exists>t. RemoveEntryAtIndex env 0 u s = Some t \<and> nav_mem t \<and> quiet t \<and> entries t = tl (entries s) \<and>
    max_page_id t = max_page_id s \<and> next_addr t = next_addr s \<and>
    (\<forall>b. b \<in> set (tl (entries s)) \<or> b \<notin> set (entries s) \<longrightarrow> heap t b = heap s b)"
proof -
  have ok: "nav_ok s" using m q lc sz by (simp add: nav_ok_quiet)
  obtain x xs where xs: "entries s = x # xs" using n by (cases "entries s") (auto simp: entry_count_def)
  let ?t = "s\<lparr>entries := erase_at 0 (entries s), heap := (heap s)(entries s ! 0 := None)\<rparr>"
  have "DiscardNonCommittedEntries s = Some s"
    using discard_notify_eq [OF ok] discarded_quiet [OF q] q by (simp add: quietD)
  moreover have "erase_entry 0 s = Some ?t"
    using erase_entry_eq [OF m, of 0] n by simp
  ultimately have eq: "RemoveEntryAtIndex env 0 u s =
      Some (?t\<lparr>last_committed_entry_index := last_committed_entry_index s - 1\<rparr>)"
    using lc by (simp add: RemoveEntryAtIndex_def RemoveEntryAtIndexInternal_def)
  have "nav_mem ?t" using nav_mem_erase [OF m, of 0] xs by simp
  moreover have "x \<notin> set xs" using m xs by (simp add: nav_mem_def)
  ultimately show ?thesis
    using eq xs q by (auto simp: erase_at_def nav_mem_def quiet_def)
qed

definition inserted_after :: "bool \<Rightarrow> nav_ctl \<Rightarrow> addr list" where
  "inserted_after replace s =
     (let kept = kept_entries replace s
      in if int (length kept) \<ge> max_entry_count then tl kept else kept)"

lemma wrote_same: "heap s a = Some e \<Longrightarrow> wrote a e s = s"
  by (simp add: wrote_def fun_upd_idem)

lemma kept_wrote [simp]: "kept_entries replace (wrote a e s) = kept_entries replace s"
  by (simp add: kept_entries_def)

lemma kept_discarded [simp]: "kept_entries replace (discarded s) = kept_entries replace s"
  by (simp add: kept_entries_def)

lemma set_inserted_after: "set (inserted_after replace s) \<subseteq> set (kept_entries replace s)"
  "set (kept_entries replace s) \<subseteq> set (committed_entries s)"
  by (auto simp: inserted_after_def Let_def kept_entries_def dest: in_set_takeD list.set_sel(2) split: if_splits)
     (metis list.sel(2) list.set_sel(2) tl_Nil)+

text \<open>The pruning and the removal of the oldest entry, from a quiet state.\<close>

lemma prune_and_shift:
  assumes ok: "nav_ok s" and q: "quiet s"
  shows "\<exists>t3 t4. prune_back replace s = Some t3 \<and>
    (if entry_count t3 \<ge> max_entry_count
     then map_option (nav_emit (NAV_LIST_PRUNED True 1)) (RemoveEntryAtIndex env 0 [] t3)
     else Some t3) = Some t4 \<and>
    nav_mem t4 \<and> quiet t4 \<and> entries t4 = inserted_after replace s \<and> max_page_id t4 = max_page_id s \<and>
    int (length (entries t4)) < max_entry_count \<and>
    (\<forall>b. b \<in> set (entries t4) \<or> b \<notin> set (entries s) \<longrightarrow> heap t4 b = heap s b)"
proof -
  obtain t3 where t3: "prune_back replace s = Some t3" "nav_mem t3" "quiet t3"
    "entries t3 = kept_entries replace s" "last_committed_entry_index t3 = last_committed_entry_index s"
    "max_page_id t3 = max_page_id s"
    "\<forall>b. b \<in> set (kept_entries replace s) \<or> b \<notin> set (entries s) \<longrightarrow> heap t3 b = heap s b"
    using prune_back_eq [OF ok q] by blast
  have b: "last_committed_entry_index s < entry_count s" "entry_count s \<le> max_entry_count"
    using ok q by (auto simp: nav_ok_quiet)
  have len: "int (length (kept_entries replace s)) \<le> last_committed_entry_index s + (if replace then 0 else 1) \<or>
      kept_entries replace s = []"
    using q by (auto simp: kept_entries_def quietD)
  show ?thesis
  proof (cases "entry_count t3 \<ge> max_entry_count")
    case False
    then have "inserted_after replace s = kept_entries replace s"
      by (simp add: inserted_after_def entry_count_def t3(4))
    then show ?thesis using t3 False by (simp add: entry_count_def)
  next
    case True
    have cnt: "entry_count t3 = max_entry_count" "last_committed_entry_index t3 = max_entry_count - 1"
      using True len b t3(4,5) by (auto simp: entry_count_def max_entry_count_def split: if_splits)
    obtain t where t: "RemoveEntryAtIndex env 0 [] t3 = Some t" "nav_mem t" "quiet t" "entries t = tl (entries t3)"
      "max_page_id t = max_page_id t3"
      "\<forall>b. b \<in> set (tl (entries t3)) \<or> b \<notin> set (entries t3) \<longrightarrow> heap t b = heap t3 b"
      using remove_first_eq [OF t3(2,3), of env "[]"] cnt by (auto simp: max_entry_count_def)
    have ins: "inserted_after replace s = tl (entries t3)"
      using True by (simp add: inserted_after_def entry_count_def t3(4))
    have sub: "set (entries t3) \<subseteq> set (entries s)"
      using set_inserted_after(2) [of replace s] q by (simp add: t3(4) quietD)
    have sub2: "set (tl (entries t3)) \<subseteq> set (entries t3)" by (cases "entries t3") auto
    have "nav_mem (nav_emit e t)" for e using t(2) by (simp add: nav_mem_def)
    moreover have "heap t b = heap s b" if "b \<in> set (tl (entries t3)) \<or> b \<notin> set (entries s)" for b
      using that t(6) t3(4,7) sub sub2 by (metis subsetD)
    moreover have "int (length (tl (entries t3))) < max_entry_count"
      using cnt(1) by (simp add: entry_count_def max_entry_count_def)
    ultimately show ?thesis using t t3 True ins by simp
  qed
qed

text \<open>Equal but for the identity, which the committed entry takes from the pending one.\<close>

definition same_entry :: "nav_entry \<Rightarrow> nav_entry \<Rightarrow> bool" where
  "same_entry e e' \<longleftrightarrow> e'\<lparr>unique_id := 0\<rparr> = e\<lparr>unique_id := 0\<rparr>"

lemma same_entry_refl [simp]: "same_entry e e" "same_entry e (e\<lparr>unique_id := i\<rparr>)"
  by (simp_all add: same_entry_def)

lemma same_entry_fields:
  assumes "same_entry e e'"
  shows "entry_url e' = entry_url e" "entry_page_id e' = entry_page_id e" "site_instance e' = site_instance e"
    "transition_type e' = transition_type e" "entry_page_type e' = entry_page_type e"
    "entry_referrer e' = entry_referrer e" "has_post_data e' = has_post_data e"
  using assms by (cases e; cases e'; simp add: same_entry_def)+

lemma copy_unique_id:
  assumes ok: "nav_ok s" and e: "heap s a = Some e"
  shows "\<exists>p e1. (if pending_entry_index s = -1 then Some (pending_entry s)
          else map_option Some (vec_at (entries s) (pending_entry_index s))) = Some p \<and>
    (case p of None \<Rightarrow> Some s
     | Some pa \<Rightarrow> do { pe \<leftarrow> heap s pa; write_entry a (\<lambda>e. e\<lparr>unique_id := unique_id pe\<rparr>) s }) =
      Some (wrote a e1 s) \<and> same_entry e e1 \<and>
    (case p of None \<Rightarrow> e1 = e | Some pa \<Rightarrow> map_option unique_id (heap s pa) = Some (unique_id e1))"
proof (cases "pending_entry s")
  case None
  then have "pending_entry_index s = -1" using ok by (simp add: nav_ok_def pending_ok_def)
  then show ?thesis using None wrote_same [OF e] by (intro exI [of _ None] exI [of _ e]) simp
next
  case (Some pa)
  define q where "q = (if pending_entry_index s = -1 then pa else entries s ! nat (pending_entry_index s))"
  have "int (length (committed_entries s)) \<le> entry_count s"
    using length_committed [OF ok] by (simp split: if_splits)
  then have at: "pending_entry_index s \<noteq> -1 \<Longrightarrow>
      vec_at (entries s) (pending_entry_index s) = Some q \<and> q \<in> set (entries s)"
    using ok Some by (auto simp: nav_ok_def pending_ok_def vec_at_def q_def entry_count_def)
  then have "heap s q \<noteq> None"
    using ok Some by (cases "pending_entry_index s = -1") (auto simp: nav_ok_def pending_ok_def nav_mem_def q_def)
  then obtain pe where pe: "heap s q = Some pe" by blast
  show ?thesis
    using at pe e Some
    by (intro exI [of _ "Some q"] exI [of _ "e\<lparr>unique_id := unique_id pe\<rparr>"])
       (auto simp: write_entry_eq q_def)
qed

lemma InsertOrReplaceEntry_ok:
  assumes ok: "nav_ok s" and e: "heap s a = Some e" and fresh: "a \<notin> set (entries s)" "pending_entry s \<noteq> Some a"
  shows "\<exists>t e1. InsertOrReplaceEntry env a replace s = Some t \<and> nav_ok t \<and> quiet t \<and>
    entries t = inserted_after replace s @ [a] \<and> heap t a = Some e1 \<and> same_entry e e1 \<and>
    last_committed_entry_index t = entry_count t - 1 \<and>
    max_page_id t = max (max_page_id s) (entry_page_id e) \<and>
    (\<forall>b \<in> set (inserted_after replace s). heap t b = heap s b)"
proof -
  obtain p e1 where p: "(if pending_entry_index s = -1 then Some (pending_entry s)
          else map_option Some (vec_at (entries s) (pending_entry_index s))) = Some p"
    and s1: "(case p of None \<Rightarrow> Some s
     | Some pa \<Rightarrow> do { pe \<leftarrow> heap s pa; write_entry a (\<lambda>e. e\<lparr>unique_id := unique_id pe\<rparr>) s }) =
      Some (wrote a e1 s)" and same: "same_entry e e1"
    using copy_unique_id [OF ok e] by blast
  let ?s1 = "wrote a e1 s" and ?s2 = "discarded (wrote a e1 s)"
  have mem: "transient_entry_index s \<noteq> -1 \<Longrightarrow> entries s ! nat (transient_entry_index s) \<in> set (entries s)"
    using transient_not_committed(2) [OF ok] .
  have ok1: "nav_ok ?s1" using ok e fresh mem by (intro wrote_ok) auto
  have s2: "DiscardNonCommittedEntriesInternal ?s1 = Some ?s2" by (rule discard_eq [OF ok1])
  have "a \<notin> freed s" using fresh mem by (auto simp: freed_def)
  then have ha: "heap ?s2 a = Some e1" by (simp add: discarded_def)
  have hb: "heap ?s2 b = heap s b" if "b \<in> set (committed_entries s)" for b
    using discarded_heap [OF ok1, of b] that fresh set_committed [of s] by auto
  obtain t3 t4 where t: "prune_back replace ?s2 = Some t3"
    "(if entry_count t3 \<ge> max_entry_count
     then map_option (nav_emit (NAV_LIST_PRUNED True 1)) (RemoveEntryAtIndex env 0 [] t3)
     else Some t3) = Some t4" "nav_mem t4" "quiet t4" "entries t4 = inserted_after replace ?s2"
    "max_page_id t4 = max_page_id ?s2" "int (length (entries t4)) < max_entry_count"
    "\<forall>b. b \<in> set (entries t4) \<or> b \<notin> set (entries ?s2) \<longrightarrow> heap t4 b = heap ?s2 b"
    using prune_and_shift [OF discarded_ok [OF ok1]] by fastforce
  have ins: "inserted_after replace ?s2 = inserted_after replace s" by (simp add: inserted_after_def)
  have sub: "set (inserted_after replace s) \<subseteq> set (committed_entries s)"
    using set_inserted_after by blast
  have a4: "heap t4 a = Some e1" using t(8) ha fresh set_committed [of s] by auto
  define t5 where "t5 = t4\<lparr>entries := entries t4 @ [a]\<rparr>"
  define t where "t = UpdateMaxPageID (entry_page_id e1) (t5\<lparr>last_committed_entry_index := entry_count t5 - 1\<rparr>)"
  have f: "entries t = inserted_after replace s @ [a]" "heap t = heap t4" "quiet t"
    "last_committed_entry_index t = entry_count t - 1" "next_addr t = next_addr t4"
    "max_page_id t = max (max_page_id s) (entry_page_id e)"
    using t(4-6) ins same_entry_fields(2) [OF same]
    by (auto simp: t_def t5_def UpdateMaxPageID_def entry_count_def quiet_def)
  have "InsertOrReplaceEntry env a replace s = Some t"
    unfolding InsertOrReplaceEntry_def p
    using s1 s2 t(1,2) a4 by (simp add: t_def t5_def Let_def)
  moreover have "nav_mem t"
    using t(3) f a4 ins t(5) sub fresh set_committed [of s] by (auto simp: nav_mem_def)
  then have "nav_ok t" using f t(5,7) ins by (auto simp: nav_ok_quiet entry_count_def)
  moreover have "\<forall>b \<in> set (inserted_after replace s). heap t b = heap s b"
    using t(5,8) ins hb sub f(2) by auto
  ultimately show ?thesis using f a4 same by auto
qed

end
