(* ===== verification/NavSteps.thy ===== *)
theory NavSteps
  imports NavInv
begin

text \<open>
  The navigation controller as a state machine: every call of a client returns and keeps
  \<open>nav_ok\<close>, with the exceptions the properties name.
\<close>

subsection \<open>Loading, going back and forward\<close>

lemma LoadEntry_ok:
  assumes ok: "nav_ok s" and e: "heap s a = Some e" and fresh: "a \<notin> set (entries s)" "pending_entry s \<noteq> Some a"
  shows "\<exists>t. LoadEntry env a s = Some t \<and> nav_ok t \<and> committed_entries t = committed_entries s \<and>
    committed_index t = committed_index s \<and> max_page_id t = max_page_id s"
proof (cases "IsDisabledScheme_policy env (scheme_of env (entry_url e)) \<or>
        IsDisabledScheme_policy env (scheme_of env (virtual_url e)) \<or> HandleNonNavigationAboutURL env (entry_url e)")
  case True
  let ?t = "s\<lparr>heap := (heap s)(a := None)\<rparr>"
  have "LoadEntry env a s = Some ?t" using True e by (auto simp: LoadEntry_def delete_entry_def)
  moreover have c: "committed_entries ?t = committed_entries s" "committed_index ?t = committed_index s"
    by (simp_all add: committed_entries_def committed_index_def)
  moreover have "nav_ok ?t"
  proof -
    have "nav_mem ?t" using ok fresh by (auto simp: nav_ok_def nav_mem_def)
    moreover have "pending_ok ?t" using ok fresh c by (auto simp: nav_ok_def pending_ok_def split: option.splits)
    moreover have "entry_at ?t i = entry_at s i" for i
      using fresh vec_at_mem [of "entries s" i] by (cases "vec_at (entries s) i") (auto simp: entry_at_def)
    then have "transient_ok ?t" using ok by (simp add: nav_ok_def transient_ok_def entry_count_def)
    ultimately show ?thesis using ok c by (simp add: nav_ok_def entry_count_def)
  qed
  ultimately show ?thesis by simp
next
  case False
  have mem: "transient_entry_index s \<noteq> -1 \<Longrightarrow> entries s ! nat (transient_entry_index s) \<in> set (entries s)"
    using transient_not_committed(2) [OF ok] .
  let ?d = "discarded s"
  let ?u = "nav_emit NAV_ENTRY_PENDING (?d\<lparr>pending_entry := Some a\<rparr>)"
  have d: "nav_ok ?d" "quiet ?d" using discarded_ok [OF ok] by simp_all
  have "heap ?d a = Some e" using e fresh mem by (auto simp: discarded_def freed_def)
  moreover have "a \<notin> set (entries ?d)" using fresh set_committed [of s] by auto
  ultimately have "nav_ok (?d\<lparr>pending_entry := Some a\<rparr>)"
    using d by (auto simp: nav_ok_def nav_mem_def pending_ok_def transient_ok_def entry_count_def
        committed_entries_def quietD)
  then have u: "nav_ok ?u" by simp
  have c: "committed_entries ?u = committed_entries s" "committed_index ?u = committed_index s"
    by (simp_all add: committed_entries_def committed_index_def discarded_def)
  show ?thesis
    using NavigateToPendingEntry_ok [OF u, of a env NO_RELOAD] False e discard_eq [OF ok] c
    by (auto simp: LoadEntry_def)
qed

lemma LoadURL_ok:
  assumes ok: "nav_ok s"
  shows "\<exists>t. LoadURL env u ref tr s = Some t \<and> nav_ok t \<and> committed_entries t = committed_entries s \<and>
    committed_index t = committed_index s \<and> max_page_id t = max_page_id s"
proof -
  let ?s1 = "s\<lparr>needs_reload := False, next_unique_id := next_unique_id s + 1\<rparr>"
  have ok1: "nav_ok ?s1" using ok by (subst nav_ok_cong [of _ s]) simp_all
  have c: "committed_entries ?s1 = committed_entries s" "committed_index ?s1 = committed_index s"
    by (simp_all add: committed_entries_def committed_index_def)
  obtain a t where al: "alloc (CreateNavigationEntry env u ref tr (next_unique_id s)) ?s1 = (a, t)"
    by fastforce
  note f = alloc_fields [OF al] and o = alloc_ok [OF ok1 al]
  have "committed_entries t = committed_entries s" "committed_index t = committed_index s"
    using f c by (simp_all add: committed_entries_def committed_index_def)
  then show ?thesis
    using LoadEntry_ok [OF o, of env] al f by (auto simp: LoadURL_def fresh_id_def)
qed

lemma discard_notify_ok:
  assumes "nav_ok s"
  shows "\<exists>t. DiscardNonCommittedEntries s = Some t \<and> nav_ok t \<and> quiet t \<and> entries t = committed_entries s \<and>
    last_committed_entry_index t = committed_index s \<and> max_page_id t = max_page_id s"
  using discard_notify_eq [OF assms] discarded_ok [OF assms] by auto

lemma discard_then_navigate:
  assumes ok: "nav_ok s" and i: "0 \<le> i" "i < int (length (committed_entries s))"
  shows "\<exists>t. do { s1 \<leftarrow> DiscardNonCommittedEntries s; navigate_to_index env tr r i s1 } = Some t \<and> nav_ok t \<and>
    committed_entries t = committed_entries s \<and> committed_index t = committed_index s \<and>
    (quiet t \<or> pending_entry_index t = i \<and> pending_entry t = Some (committed_entries s ! nat i) \<and>
               transient_entry_index t = -1)"
proof -
  obtain s1 where s1: "DiscardNonCommittedEntries s = Some s1" "nav_ok s1" "quiet s1"
    "entries s1 = committed_entries s" "last_committed_entry_index s1 = committed_index s"
    using discard_notify_ok [OF ok] by blast
  obtain t where t: "navigate_to_index env tr r i s1 = Some t" "nav_ok t" "entries t = entries s1"
    "last_committed_entry_index t = last_committed_entry_index s1" "transient_entry_index t = -1"
    "quiet t \<or> pending_entry_index t = i \<and> pending_entry t = Some (entries s1 ! nat i)"
    using navigate_to_index_ok [OF s1(2,3), of i env tr r] i s1(4) by (auto simp: entry_count_def)
  then show ?thesis using s1 by (auto simp: committed_entries_def committed_index_def)
qed

text \<open>The current index, as an index of the committed entries.\<close>

lemma current_index_bounds:
  assumes "nav_ok s"
  shows "-1 \<le> GetCurrentEntryIndex s" "GetCurrentEntryIndex s < entry_count s"
    "transient_entry_index s = -1 \<Longrightarrow> GetCurrentEntryIndex s < int (length (committed_entries s))"
proof -
  have p: "-1 \<le> pending_entry_index s" "pending_entry_index s < int (length (committed_entries s)) \<or>
      pending_entry_index s = -1"
    using assms by (auto simp: nav_ok_def pending_ok_def split: option.splits if_splits)
  have t: "transient_entry_index s = -1 \<or> 0 \<le> transient_entry_index s \<and> transient_entry_index s < entry_count s"
    "-1 \<le> last_committed_entry_index s" "last_committed_entry_index s < entry_count s"
    using assms by (auto simp: nav_ok_def transient_ok_def)
  have l: "int (length (committed_entries s)) \<le> entry_count s"
    "transient_entry_index s \<noteq> -1 \<or> int (length (committed_entries s)) = entry_count s"
    using length_committed [OF assms] by (auto split: if_splits)
  show "-1 \<le> GetCurrentEntryIndex s" "GetCurrentEntryIndex s < entry_count s"
    "transient_entry_index s = -1 \<Longrightarrow> GetCurrentEntryIndex s < int (length (committed_entries s))"
    using p t l unfolding GetCurrentEntryIndex_def by presburger+
qed

lemma GoBack_ok:
  assumes ok: "nav_ok s" and can: "CanGoBack s" and "\<not> has_interstitial env"
  shows "\<exists>t. GoBack env s = Some t \<and> nav_ok t \<and> committed_entries t = committed_entries s \<and>
    committed_index t = committed_index s \<and>
    (quiet t \<or> pending_entry_index t = GetCurrentEntryIndex s - 1 \<and>
       pending_entry t = Some (committed_entries s ! nat (GetCurrentEntryIndex s - 1)) \<and> transient_entry_index t = -1)"
proof -
  have "0 \<le> GetCurrentEntryIndex s - 1" "GetCurrentEntryIndex s - 1 < int (length (committed_entries s))"
    using can current_index_bounds [OF ok] length_committed [OF ok] by (auto simp: CanGoBack_def split: if_splits)
  from discard_then_navigate [OF ok this, of env "\<lambda>t. t OR FORWARD_BACK" NO_RELOAD] show ?thesis
    using assms(2,3) by (simp add: GoBack_def Let_def)
qed

lemma GoForward_ok:
  assumes ok: "nav_ok s" and can: "CanGoForward s"
  shows "\<exists>t. GoForward env s = Some t \<and> nav_ok t \<and> committed_entries t = committed_entries s \<and>
    committed_index t = committed_index s"
proof -
  let ?i = "if transient_entry_index s \<noteq> -1 then GetCurrentEntryIndex s else GetCurrentEntryIndex s + 1"
  define u where "u = (if has_interstitial env then nav_emit InterstitialCancelForNavigation s else s)"
  have u: "nav_ok u" "committed_entries u = committed_entries s" "committed_index u = committed_index s"
    "GetCurrentEntryIndex u = GetCurrentEntryIndex s" "transient_entry_index u = transient_entry_index s"
    using ok by (simp_all add: u_def)
  have i: "0 \<le> ?i" "?i < int (length (committed_entries u))"
    using can current_index_bounds [OF ok] length_committed [OF ok] u(2)
    by (auto simp: CanGoForward_def split: if_splits)
  have eq: "GoForward env s = do { s1 \<leftarrow> DiscardNonCommittedEntries u;
      navigate_to_index env (\<lambda>t. t OR FORWARD_BACK) NO_RELOAD ?i s1 }"
    using can u(4,5) by (simp add: GoForward_def u_def Let_def)
  show ?thesis
    using discard_then_navigate [OF u(1) i, of env "\<lambda>t. t OR FORWARD_BACK" NO_RELOAD] u(2,3)
    unfolding eq by auto
qed

lemma GoToIndex_ok:
  assumes ok: "nav_ok s"
  shows "\<exists>t. GoToIndex env i s = Some t \<and> nav_ok t \<and> committed_entries t = committed_entries s \<and>
    committed_index t = committed_index s"
proof -
  let ?s = "if has_interstitial env then nav_emit InterstitialCancelForNavigation s else s"
  let ?i = "if transient_entry_index s \<noteq> -1 \<and> i > transient_entry_index s then i - 1 else i"
  show ?thesis
  proof (cases "i < 0 \<or> i \<ge> entry_count s \<or> (transient_entry_index s \<noteq> -1 \<and> i = transient_entry_index s) \<or>
      (has_interstitial env \<and> ?i = GetCurrentEntryIndex s - 1)")
    case True
    then show ?thesis using ok by (auto simp: GoToIndex_def Let_def)
  next
    case False
    have ok': "nav_ok ?s" using ok by simp
    have c: "committed_entries ?s = committed_entries s" "committed_index ?s = committed_index s" by simp_all
    have "0 \<le> ?i" "?i < int (length (committed_entries ?s))"
      using False ok length_committed [OF ok]
      unfolding c by (auto simp: nav_ok_def transient_ok_def split: if_splits)
    from discard_then_navigate [OF ok' this, of env "\<lambda>t. t OR FORWARD_BACK" NO_RELOAD] show ?thesis
      using False unfolding GoToIndex_def Let_def c by auto
  qed
qed

lemma GoToOffset_ok: "nav_ok s \<Longrightarrow> \<exists>t. GoToOffset env k s = Some t \<and> nav_ok t"
  using GoToIndex_ok [of s env "offset_index s k"] by (auto simp: GoToOffset_def Let_def)

lemma ReloadInternal_ok:
  assumes ok: "nav_ok s"
  shows "\<exists>t. ReloadInternal env c r s = Some t \<and> nav_ok t"
proof (cases "transient_entry_index s = -1")
  case False
  then show ?thesis using ok by (simp add: ReloadInternal_def)
next
  case True
  let ?d = "discarded s"
  let ?i = "GetCurrentEntryIndex ?d"
  have d: "nav_ok ?d" "quiet ?d" using discarded_ok [OF ok] by simp_all
  show ?thesis
  proof (cases "?i = -1")
    case at_none: True
    then show ?thesis using True d discard_eq [OF ok] by (simp add: ReloadInternal_def)
  next
    case False
    then have i: "0 \<le> ?i" "?i < entry_count ?d" using current_index_bounds [OF d(1)] by auto
    obtain e where e: "entry_at ?d ?i = Some e"
      using entry_at_live [OF _ i] d(1) by (auto simp: nav_ok_def)
    have o: "nav_ok (u\<lparr>pending_reload := r\<rparr>) = nav_ok u" for u by (rule nav_ok_cong) simp_all
    have dd: "DiscardNonCommittedEntriesInternal ?d = Some ?d"
      using discard_eq [OF d(1)] discarded_quiet [OF d(2)] by simp
    show ?thesis
      using True False d e dd o discard_eq [OF ok] navigate_to_index_ok [OF d i, of env "\<lambda>_. RELOAD_transition" r]
      by (auto simp: ReloadInternal_def Let_def)
  qed
qed

lemma ContinuePendingReload_ok: "nav_ok s \<Longrightarrow> \<exists>t. ContinuePendingReload env s = Some t \<and> nav_ok t"
proof -
  assume ok: "nav_ok s"
  have o: "nav_ok (u\<lparr>pending_reload := NO_RELOAD\<rparr>) = nav_ok u" for u by (rule nav_ok_cong) simp_all
  show ?thesis
    using ReloadInternal_ok [OF ok, of env False "pending_reload s"] ok o
    by (auto simp: ContinuePendingReload_def)
qed

lemma RemoveEntryAtIndexInternal_ok:
  assumes ok: "nav_ok s" and i: "0 \<le> i" "i < int (length (committed_entries s))"
    and rest: "i = committed_index s \<Longrightarrow> i = 0 \<Longrightarrow> length (committed_entries s) = 1"
  shows "\<exists>t. RemoveEntryAtIndexInternal i s = Some t \<and> nav_ok t \<and> quiet t \<and>
    entries t = erase_at (nat i) (committed_entries s) \<and> max_page_id t = max_page_id s \<and>
    last_committed_entry_index t = (if committed_index s \<ge> i then committed_index s - 1 else committed_index s)"
proof -
  obtain s1 where s1: "DiscardNonCommittedEntries s = Some s1" "nav_ok s1" "quiet s1"
    "entries s1 = committed_entries s" "last_committed_entry_index s1 = committed_index s"
    "max_page_id s1 = max_page_id s"
    using discard_notify_ok [OF ok] by blast
  have m: "nav_mem s1" using s1(2) by (simp add: nav_ok_def)
  have b: "nat i < length (entries s1)" using i s1(4) by simp
  let ?t = "s1\<lparr>entries := erase_at (nat i) (entries s1), heap := (heap s1)(entries s1 ! nat i := None)\<rparr>"
  have "erase_entry i s1 = Some ?t" using erase_entry_eq [OF m i(1)] i s1(4) by (simp add: entry_count_def)
  moreover have "nav_mem ?t" by (rule nav_mem_erase [OF m b])
  moreover have "committed_entries s \<noteq> []" using i by auto
  then have "committed_index s < int (length (committed_entries s))"
    "0 \<le> committed_index s" "int (length (committed_entries s)) \<le> max_entry_count"
    using committed_index_bounds [OF ok] ok by (simp_all add: nav_ok_def)
  moreover define v where "v = ?t\<lparr>last_committed_entry_index :=
      (if committed_index s \<ge> i then committed_index s - 1 else committed_index s)\<rparr>"
  ultimately have c: "nav_mem v" "quiet v" "entries v = erase_at (nat i) (committed_entries s)"
    "max_page_id v = max_page_id s"
    "last_committed_entry_index v = (if committed_index s \<ge> i then committed_index s - 1 else committed_index s)"
    and bounds: "committed_index s < int (length (committed_entries s))" "0 \<le> committed_index s"
      "int (length (committed_entries s)) \<le> max_entry_count"
    using s1 by (simp_all add: v_def nav_mem_def quiet_def)
  have len: "int (length (entries v)) = int (length (committed_entries s)) - 1"
    using b s1(4) by (simp add: c(3) vec_simps)
  have "0 \<le> last_committed_entry_index v" if "entries v \<noteq> []"
  proof -
    have "length (committed_entries s) \<noteq> 1" using that len by (cases "entries v") auto
    then show ?thesis using rest bounds i by (cases "committed_index s = 0") (auto simp: c(5))
  qed
  then have "nav_ok v"
    using c bounds len i by (auto simp: nav_ok_quiet entry_count_def)
  moreover have "RemoveEntryAtIndexInternal i s = Some v"
    using s1(1,5) \<open>erase_entry i s1 = Some ?t\<close>
    by (auto simp: RemoveEntryAtIndexInternal_def v_def)
  ultimately show ?thesis using c by blast
qed

subsection \<open>The renderer's navigations\<close>

lemma find_rev_index:
  "(case find P (rev [0..n - 1]) of None \<Rightarrow> -1 | Some i \<Rightarrow> i) = (i::int) \<Longrightarrow>
   (i = -1 \<and> (\<forall>j. 0 \<le> j \<longrightarrow> j < n \<longrightarrow> \<not> P j)) \<or>
   (0 \<le> i \<and> i < n \<and> P i)"
proof (cases "find P (rev [0..n - 1])")
  case None
  assume "(case find P (rev [0..n - 1]) of None \<Rightarrow> -1 | Some i \<Rightarrow> i) = i"
  then show ?thesis using None by (auto simp: find_None_iff)
next
  case (Some k)
  assume "(case find P (rev [0..n - 1]) of None \<Rightarrow> -1 | Some i \<Rightarrow> i) = i"
  moreover from Some have "k \<in> set (rev [0..n - 1])" "P k"
    unfolding find_Some_iff by (metis nth_mem)+
  ultimately show ?thesis using Some by auto
qed

lemma page_id_lookup:
  "GetEntryIndexWithPageID s inst pid = -1 \<and> (\<forall>j. 0 \<le> j \<longrightarrow> j < entry_count s \<longrightarrow> \<not> has_page_id s inst pid j) \<or>
   (0 \<le> GetEntryIndexWithPageID s inst pid \<and> GetEntryIndexWithPageID s inst pid < entry_count s \<and>
    has_page_id s inst pid (GetEntryIndexWithPageID s inst pid))"
  unfolding GetEntryIndexWithPageID_def by (rule find_rev_index) simp

text \<open>An entry found by a valid page id is not the transient one.\<close>

lemma page_id_entry:
  assumes ok: "nav_ok s" and pid: "pid \<noteq> -1" and found: "GetEntryIndexWithPageID s inst pid = i" "i \<noteq> -1"
  obtains e where "0 \<le> i" "i < entry_count s" "i \<noteq> transient_entry_index s"
    "vec_at (entries s) i = Some (entries s ! nat i)" "heap s (entries s ! nat i) = Some e"
    "site_instance e = inst" "entry_page_id e = pid" "entries s ! nat i \<in> set (committed_entries s)"
    "transient_entry_index s \<noteq> -1 \<Longrightarrow> entries s ! nat i \<noteq> entries s ! nat (transient_entry_index s)"
proof -
  have i: "0 \<le> i" "i < entry_count s" "has_page_id s inst pid i"
    using page_id_lookup [of s inst pid] found by auto
  have m: "nav_mem s" using ok by (simp add: nav_ok_def)
  obtain e where e: "entry_at s i = Some e" "heap s (entries s ! nat i) = Some e"
    using entry_at_live [OF m i(1,2)] by blast
  have f: "site_instance e = inst" "entry_page_id e = pid" using i(3) e by (auto simp: has_page_id_def)
  have t: "i \<noteq> transient_entry_index s"
  proof -
    have "transient_ok s" using ok by (simp add: nav_ok_def)
    then show ?thesis using e(1) f(2) pid found(2) unfolding transient_ok_def by metis
  qed
  have ne: "entries s ! nat i \<noteq> entries s ! nat (transient_entry_index s)" if "transient_entry_index s \<noteq> -1"
  proof -
    have "transient_ok s" using ok by (simp add: nav_ok_def)
    then have tb: "0 \<le> transient_entry_index s" "transient_entry_index s < entry_count s"
      using that unfolding transient_ok_def by blast+
    have "nat i \<noteq> nat (transient_entry_index s)" using t i(1) tb(1) by simp
    moreover have "nat (transient_entry_index s) < length (entries s)" "nat i < length (entries s)"
      using tb i(1,2) by (simp_all add: entry_count_def)
    ultimately show ?thesis using m by (simp add: nav_mem_def nth_eq_iff_index_eq)
  qed
  have "entries s ! nat i \<in> set (committed_entries s)"
  proof (cases "transient_entry_index s = -1")
    case True
    then show ?thesis using i by (simp add: committed_entries_def entry_count_def)
  next
    case False
    have "transient_ok s" using ok by (simp add: nav_ok_def)
    then have tb: "nat (transient_entry_index s) < length (entries s)"
      using False unfolding transient_ok_def entry_count_def by linarith
    have "entries s ! nat i \<in> set (entries s)" using i by (simp add: entry_count_def)
    moreover have "set (entries s) = insert (entries s ! nat (transient_entry_index s)) (set (committed_entries s))"
      using mset_erase_at [OF tb] False by (simp add: committed_entries_def flip: set_mset_mset)
        (metis set_mset_add_mset_insert set_mset_mset)
    ultimately show ?thesis using ne [OF False] by auto
  qed
  then show ?thesis
    using that i(1,2) e f t ne by (simp add: vec_at_def entry_count_def)
qed

lemma inserted_after_cong:
  "entries t = entries s \<Longrightarrow> transient_entry_index t = transient_entry_index s \<Longrightarrow>
   last_committed_entry_index t = last_committed_entry_index s \<Longrightarrow>
   inserted_after replace t = inserted_after replace s"
  by (simp add: inserted_after_def kept_entries_def committed_entries_def committed_index_def)

text \<open>Allocating an entry and inserting it, as three handlers do.\<close>

lemma alloc_insert_ok:
  assumes ok: "nav_ok s"
  shows "\<exists>t e1. (let (a, s1) = alloc e s in InsertOrReplaceEntry env a replace s1) = Some t \<and> nav_ok t \<and>
    quiet t \<and> entries t = inserted_after replace s @ [next_addr s] \<and> heap t (next_addr s) = Some e1 \<and>
    same_entry e e1 \<and> last_committed_entry_index t = entry_count t - 1 \<and>
    max_page_id t = max (max_page_id s) (entry_page_id e) \<and>
    (\<forall>b \<in> set (inserted_after replace s). heap t b = heap s b)"
proof -
  obtain a s1 where al: "alloc e s = (a, s1)" by fastforce
  note f = alloc_fields [OF al]
  have ins: "inserted_after replace s1 = inserted_after replace s" using f by (intro inserted_after_cong) auto
  have n: "next_addr s \<notin> set (inserted_after replace s)"
    using nav_mem_next_notin [of s] ok set_inserted_after [of replace s] set_committed [of s]
    unfolding nav_ok_def by blast
  obtain t e1 where t: "InsertOrReplaceEntry env a replace s1 = Some t" "nav_ok t" "quiet t"
    "entries t = inserted_after replace s1 @ [a]" "heap t a = Some e1" "same_entry e e1"
    "last_committed_entry_index t = entry_count t - 1"
    "max_page_id t = max (max_page_id s1) (entry_page_id e)"
    "\<forall>b \<in> set (inserted_after replace s1). heap t b = heap s1 b"
    using InsertOrReplaceEntry_ok [OF alloc_ok [OF ok al], of env replace] by blast
  have "\<forall>b \<in> set (inserted_after replace s). heap t b = heap s b"
    using t(9) n unfolding ins f(2) by (metis fun_upd_other)
  then show ?thesis using t(1-8) unfolding ins al f by auto
qed

lemma active_entry_ok:
  assumes ok: "nav_ok s" and ne: "committed_entries s \<noteq> []"
  shows "\<exists>a e. GetActiveEntry s = Some (Some a) \<and> heap s a = Some e \<and>
    (transient_entry_index s \<noteq> -1 \<longrightarrow> a = entries s ! nat (transient_entry_index s) \<and> entry_page_id e = -1)"
proof -
  have m: "nav_mem s" using ok by (simp add: nav_ok_def)
  show ?thesis
  proof (cases "transient_entry_index s = -1")
    case False
    then have t: "0 \<le> transient_entry_index s" "transient_entry_index s < entry_count s"
      using ok by (auto simp: nav_ok_def transient_ok_def)
    obtain e where "entry_at s (transient_entry_index s) = Some e" "heap s (entries s ! nat (transient_entry_index s)) = Some e"
      using entry_at_live [OF m t] by blast
    then show ?thesis
      using False t ok by (auto simp: GetActiveEntry_def vec_at_def entry_count_def nav_ok_def transient_ok_def)
  next
    case True
    show ?thesis
    proof (cases "pending_entry s")
      case (Some a)
      then show ?thesis using True ok by (auto simp: GetActiveEntry_def nav_ok_def pending_ok_def)
    next
      case None
      have l: "0 \<le> last_committed_entry_index s" "last_committed_entry_index s < entry_count s"
        using ok ne by (auto simp: nav_ok_def)
      then show ?thesis
        using entry_at_live [OF m l] True None
        by (auto simp: GetActiveEntry_def GetLastCommittedEntry_def vec_at_def entry_count_def)
    qed
  qed
qed

lemma last_committed_ok:
  assumes "nav_ok s"
  shows "\<exists>p. GetLastCommittedEntry s = Some p \<and> (\<forall>a. p = Some a \<longrightarrow> heap s a \<noteq> None) \<and>
    (p \<noteq> None \<longrightarrow> committed_entries s \<noteq> [])"
proof (cases "last_committed_entry_index s = -1")
  case True
  then show ?thesis by (simp add: GetLastCommittedEntry_def)
next
  case False
  then have l: "0 \<le> last_committed_entry_index s" "last_committed_entry_index s < entry_count s"
    using assms by (auto simp: nav_ok_def)
  have "0 < int (length (committed_entries s))"
    using length_committed [OF assms] l assms by (auto simp: nav_ok_def transient_ok_def split: if_splits)
  then show ?thesis
    using entry_at_live [OF _ l] assms False l
    by (auto simp: GetLastCommittedEntry_def vec_at_def entry_count_def nav_ok_def)
qed

lemma same_page_id_update [simp]:
  "entry_page_id (update_virtual env u e) = entry_page_id e"
  "entry_page_id (set_virtual_url v e) = entry_page_id e"
  "site_instance (update_virtual env u e) = site_instance e"
  "entry_url (update_virtual env u e) = entry_url e"
  by (simp_all add: update_virtual_def UpdateVirtualURLToURL_def set_virtual_url_def split: option.split)

lemma fresh_id_ok: "fresh_id s = (uid, t) \<Longrightarrow> nav_ok t = nav_ok s"
  by (rule nav_ok_cong) (auto simp: fresh_id_def)

text \<open>What a handler gives back: a consistent state with a committed entry.\<close>

definition handled :: "nav_ctl \<Rightarrow> bool" where
  "handled t \<longleftrightarrow> nav_ok t \<and> committed_entries t \<noteq> []"

lemma new_page_ok:
  assumes ok: "nav_ok s"
  shows "\<exists>t e. RendererDidNavigateToNewPage env params r s = Some t \<and> handled t \<and> quiet t \<and>
    entries t = inserted_after r s @ [next_addr s] \<and> heap t (next_addr s) = Some e \<and>
    entry_url e = p_url params \<and> entry_page_id e = p_page_id params \<and>
    site_instance e = Some (tab_site env) \<and> transition_type e = p_transition params \<and>
    last_committed_entry_index t = entry_count t - 1 \<and> max_page_id t = max (max_page_id s) (p_page_id params)"
proof -
  have "\<exists>e0 u. RendererDidNavigateToNewPage env params r s =
      (let (a, s1) = alloc (new_page_entry env params e0) u in InsertOrReplaceEntry env a r s1) \<and> nav_ok u \<and>
      next_addr u = next_addr s \<and> max_page_id u = max_page_id s \<and> inserted_after r u = inserted_after r s"
  proof (cases "pending_entry s")
    case None
    obtain uid u where u: "fresh_id s = (uid, u)" by fastforce
    then have "inserted_after r u = inserted_after r s" by (intro inserted_after_cong) (auto simp: fresh_id_def)
    then show ?thesis
      using None u ok fresh_id_ok [OF u]
      by (intro exI [of _ "empty_entry uid"] exI [of _ u])
         (auto simp: RendererDidNavigateToNewPage_def fresh_id_def)
  next
    case (Some a)
    then obtain e where "heap s a = Some e" using ok by (auto simp: nav_ok_def pending_ok_def)
    then show ?thesis
      using Some ok by (auto simp: RendererDidNavigateToNewPage_def Let_def)
  qed
  then obtain e0 u where eq: "RendererDidNavigateToNewPage env params r s =
      (let (a, s1) = alloc (new_page_entry env params e0) u in InsertOrReplaceEntry env a r s1)"
    and u: "nav_ok u" "next_addr u = next_addr s" "max_page_id u = max_page_id s"
      "inserted_after r u = inserted_after r s" by blast
  have "entry_url (new_page_entry env params e0) = p_url params"
    "entry_page_id (new_page_entry env params e0) = p_page_id params"
    "site_instance (new_page_entry env params e0) = Some (tab_site env)"
    "transition_type (new_page_entry env params e0) = p_transition params"
    by (simp_all add: new_page_entry_def)
  then show ?thesis
    using alloc_insert_ok [OF u(1), of "new_page_entry env params e0" env r]
    unfolding eq [symmetric] u(2-4) by (fastforce simp: handled_def quietD dest: same_entry_fields)
qed

lemma has_page_id_last:
  "0 \<le> j \<Longrightarrow> j < entry_count s \<Longrightarrow> has_page_id s inst pid j \<Longrightarrow> GetEntryIndexWithPageID s inst pid \<noteq> -1"
  using page_id_lookup [of s inst pid] by auto

lemma set_last_committed_ok:
  assumes ok: "nav_ok s" and pid: "pid \<noteq> -1" and found: "GetEntryIndexWithPageID s inst pid = i" "i \<noteq> -1"
  shows "handled (s\<lparr>last_committed_entry_index := i\<rparr>)"
proof -
  let ?t = "s\<lparr>last_committed_entry_index := i\<rparr>"
  obtain e where e: "0 \<le> i" "i < entry_count s" "i \<noteq> transient_entry_index s"
    "entries s ! nat i \<in> set (committed_entries s)"
    using page_id_entry [OF ok pid found] by blast
  have "nav_mem ?t" "committed_entries ?t = committed_entries s" "pending_ok ?t"
    using ok by (auto simp: nav_ok_def nav_mem_def committed_entries_def pending_ok_def split: option.splits)
  moreover have "transient_ok ?t"
    using ok e(3) by (auto simp: nav_ok_def transient_ok_def entry_count_def entry_at_def)
  ultimately show ?thesis
    using e ok by (auto simp: handled_def nav_ok_def entry_count_def)
qed

lemma existing_page_ok:
  assumes ok: "nav_ok s" and pid: "p_page_id params \<noteq> -1"
    and found: "GetEntryIndexWithPageID s (Some (tab_site env)) (p_page_id params) \<noteq> -1"
  shows "\<exists>t. RendererDidNavigateToExistingPage env params s = Some t \<and> handled t"
proof -
  let ?inst = "Some (tab_site env)" and ?pid = "p_page_id params"
  define i where "i = GetEntryIndexWithPageID s ?inst ?pid"
  obtain e where e: "0 \<le> i" "i < entry_count s" "vec_at (entries s) i = Some (entries s ! nat i)"
    "heap s (entries s ! nat i) = Some e" "entry_page_id e = ?pid"
    "entries s ! nat i \<in> set (committed_entries s)"
    "transient_entry_index s \<noteq> -1 \<Longrightarrow> entries s ! nat i \<noteq> entries s ! nat (transient_entry_index s)"
    using page_id_entry [OF ok pid i_def [symmetric]] found by (auto simp: i_def)
  define e1 where "e1 = (update_virtual env (p_url params) (e\<lparr>entry_url := p_url params\<rparr>))
                               \<lparr>site_instance := ?inst, has_post_data := p_is_post params\<rparr>"
  let ?s1 = "wrote (entries s ! nat i) e1 s"
  have ok1: "nav_ok ?s1" using ok e by (intro wrote_ok) auto
  define s2 where "s2 = (if pending_entry s \<noteq> None then discarded ?s1 else ?s1)"
  have ok2: "nav_ok s2" using ok1 discarded_ok by (simp add: s2_def)
  have mem: "entries s ! nat i \<in> set (entries s2)"
    using e(6) set_committed [of s] by (auto simp: s2_def)
  have "heap s2 (entries s ! nat i) = Some e1"
    using discarded_heap [OF ok1, of "entries s ! nat i"] e(6) by (simp add: s2_def)
  moreover obtain j where "j < length (entries s2)" "entries s2 ! j = entries s ! nat i"
    using mem by (auto simp: in_set_conv_nth)
  ultimately have "has_page_id s2 ?inst ?pid (int j)" "int j < entry_count s2"
    using e(5) by (auto simp: has_page_id_def entry_at_def e1_def entry_count_def)
  then have f2: "GetEntryIndexWithPageID s2 ?inst ?pid \<noteq> -1" using has_page_id_last [of "int j" s2] by simp
  have "RendererDidNavigateToExistingPage env params s =
      Some (s2\<lparr>last_committed_entry_index := GetEntryIndexWithPageID s2 ?inst ?pid\<rparr>)"
    using e(3,4) discard_eq [OF ok1]
    by (auto simp: RendererDidNavigateToExistingPage_def i_def [symmetric] write_entry_eq e1_def s2_def)
  then show ?thesis using set_last_committed_ok [OF ok2 pid refl f2] by blast
qed

lemma same_page_ok:
  assumes ok: "nav_ok s" and pid: "p_page_id params \<noteq> -1" and p: "pending_entry s \<noteq> None"
    and found: "GetEntryIndexWithPageID s (Some (tab_site env)) (p_page_id params) \<noteq> -1"
  shows "\<exists>t. RendererDidNavigateToSamePage env params s = Some t \<and> handled t"
proof -
  let ?inst = "Some (tab_site env)" and ?pid = "p_page_id params"
  define i where "i = GetEntryIndexWithPageID s ?inst ?pid"
  obtain e where e: "vec_at (entries s) i = Some (entries s ! nat i)"
    "heap s (entries s ! nat i) = Some e" "entries s ! nat i \<in> set (committed_entries s)"
    "transient_entry_index s \<noteq> -1 \<Longrightarrow> entries s ! nat i \<noteq> entries s ! nat (transient_entry_index s)"
    using page_id_entry [OF ok pid i_def [symmetric]] found by (auto simp: i_def)
  obtain pa where pa: "pending_entry s = Some pa" using p by blast
  then have "heap s pa \<noteq> None" using ok by (auto simp: nav_ok_def pending_ok_def)
  then obtain pe where pe: "heap s pa = Some pe" by blast
  define e1 where "e1 = (update_virtual env (p_url params) (e\<lparr>unique_id := unique_id pe\<rparr>))
                               \<lparr>entry_url := p_url params\<rparr>"
  let ?s1 = "wrote (entries s ! nat i) e1 s"
  have ok1: "nav_ok ?s1" using ok e by (intro wrote_ok) auto
  have "RendererDidNavigateToSamePage env params s = DiscardNonCommittedEntries ?s1"
    using e(1,2) pa pe found
    by (simp add: RendererDidNavigateToSamePage_def GetEntryWithPageID_def i_def [symmetric] write_entry_eq e1_def Let_def)
  then show ?thesis
    using discard_notify_ok [OF ok1] e(3) by (auto simp: handled_def quietD)
qed

lemma in_page_ok:
  assumes ok: "nav_ok s" and pid: "p_page_id params \<noteq> -1"
    and found: "GetEntryIndexWithPageID s (Some (tab_site env)) (p_page_id params) \<noteq> -1"
  shows "\<exists>t. RendererDidNavigateInPage env params s = Some t \<and> handled t"
proof -
  let ?inst = "Some (tab_site env)" and ?pid = "p_page_id params"
  define i where "i = GetEntryIndexWithPageID s ?inst ?pid"
  obtain e where e: "vec_at (entries s) i = Some (entries s ! nat i)" "heap s (entries s ! nat i) = Some e"
    using page_id_entry [OF ok pid i_def [symmetric]] found by (auto simp: i_def)
  have "RendererDidNavigateInPage env params s = (let (b, s1) = alloc
      ((update_virtual env (p_url params) (e\<lparr>entry_page_id := ?pid\<rparr>))\<lparr>entry_url := p_url params\<rparr>) s
      in InsertOrReplaceEntry env b True s1)"
    using e found by (simp add: RendererDidNavigateInPage_def GetEntryWithPageID_def i_def [symmetric] Let_def)
  then show ?thesis
    using alloc_insert_ok [OF ok, of _ env True] by (fastforce simp: handled_def quietD)
qed

lemma new_subframe_ok:
  assumes ok: "nav_ok s" and last: "GetLastCommittedEntry s = Some (Some a)"
  shows "\<exists>t. RendererDidNavigateNewSubframe env params s = Some t \<and> handled t"
proof -
  obtain e where e: "heap s a = Some e" and ne: "committed_entries s \<noteq> []"
    using last_committed_ok [OF ok] last by auto
  show ?thesis
    using alloc_insert_ok [OF ok, of "e\<lparr>entry_page_id := p_page_id params\<rparr>" env False] e ne last ok
    by (fastforce simp: handled_def RendererDidNavigateNewSubframe_def quietD Let_def)
qed

lemma auto_subframe_ok:
  assumes ok: "nav_ok s" and pid: "p_page_id params \<noteq> -1"
    and r: "RendererDidNavigateAutoSubframe env params s = (b, t)"
  shows "nav_ok t \<and> (b \<longrightarrow> handled t)"
  using r ok set_last_committed_ok [OF ok pid refl]
  by (auto simp: RendererDidNavigateAutoSubframe_def Let_def handled_def split: if_splits)

lemma fill_pending_site_ok:
  assumes ok: "nav_ok s"
  shows "\<exists>t. fill_pending_site env s = Some t \<and> nav_ok t \<and> entries t = entries s \<and>
    pending_entry t = pending_entry s \<and> next_addr t = next_addr s \<and> max_page_id t = max_page_id s \<and>
    last_committed_entry_index t = last_committed_entry_index s \<and>
    transient_entry_index t = transient_entry_index s"
proof (cases "pending_entry_index s \<ge> 0")
  case False
  then show ?thesis using ok by (simp add: fill_pending_site_def)
next
  case True
  then obtain a where a: "pending_entry s = Some a" "a \<in> set (committed_entries s)" "heap s a \<noteq> None"
    using ok by (auto simp: nav_ok_def pending_ok_def split: option.splits)
  then obtain e where e: "heap s a = Some e" by blast
  let ?e = "e\<lparr>site_instance := Some (tab_site env), entry_restore_type := RESTORE_NONE\<rparr>"
  have "nav_ok (wrote a ?e s)"
    using ok e a transient_not_committed(1) [OF ok] by (intro wrote_ok) auto
  then show ?thesis
    using True a(1) e ok by (auto simp: fill_pending_site_def write_entry_eq)
qed

text \<open>What the classification guarantees the handlers.\<close>

lemma ClassifyNavigation_ok:
  assumes ok: "nav_ok s"
  shows "\<exists>ty. ClassifyNavigation env s params = Some ty \<and> ty \<noteq> NT_UNKNOWN \<and>
    (ty \<noteq> NAV_IGNORE \<longrightarrow> p_page_id params \<noteq> -1) \<and>
    (ty = NEW_SUBFRAME \<longrightarrow> (\<exists>a. GetLastCommittedEntry s = Some (Some a))) \<and>
    (ty = SAME_PAGE \<longrightarrow> pending_entry s \<noteq> None) \<and>
    (ty \<in> {EXISTING_PAGE, SAME_PAGE, IN_PAGE} \<longrightarrow>
      GetEntryIndexWithPageID s (Some (tab_site env)) (p_page_id params) \<noteq> -1)"
proof -
  let ?i = "GetEntryIndexWithPageID s (Some (tab_site env)) (p_page_id params)"
  obtain lc where lc: "GetLastCommittedEntry s = Some lc" using last_committed_ok [OF ok] by blast
  show ?thesis
  proof (cases "p_page_id params = -1 \<or> p_page_id params > max_page_id s \<or> ?i = -1")
    case True
    then show ?thesis using lc by (auto simp: ClassifyNavigation_def Let_def)
  next
    case False
    then obtain e where e: "vec_at (entries s) ?i = Some (entries s ! nat ?i)"
      "heap s (entries s ! nat ?i) = Some e"
      using page_id_entry [OF ok _ refl] by metis
    have pend: "heap s a \<noteq> None" if "pending_entry s = Some a" for a
      using ok that by (auto simp: nav_ok_def pending_ok_def)
    show ?thesis
    proof (cases "pending_entry s")
      case None
      then show ?thesis using False e by (auto simp: ClassifyNavigation_def Let_def)
    next
      case (Some a)
      then obtain pe where "heap s a = Some pe" using pend by blast
      then show ?thesis using False e Some lc by (auto simp: ClassifyNavigation_def Let_def)
    qed
  qed
qed

lemma dispatch_ok:
  assumes ok: "nav_ok s" and c: "ClassifyNavigation env s params = Some ty"
  shows "\<exists>b d' t. dispatch_navigation env ty params d s = Some (b, d', t) \<and> nav_ok t \<and> (b \<longrightarrow> handled t)"
proof -
  have g: "ty \<noteq> NT_UNKNOWN" "ty \<noteq> NAV_IGNORE \<longrightarrow> p_page_id params \<noteq> -1"
    "ty = NEW_SUBFRAME \<longrightarrow> (\<exists>a. GetLastCommittedEntry s = Some (Some a))"
    "ty = SAME_PAGE \<longrightarrow> pending_entry s \<noteq> None"
    "ty \<in> {EXISTING_PAGE, SAME_PAGE, IN_PAGE} \<longrightarrow>
      GetEntryIndexWithPageID s (Some (tab_site env)) (p_page_id params) \<noteq> -1"
    using ClassifyNavigation_ok [OF ok, of env params] c by auto
  show ?thesis
  proof (cases ty)
    case NT_AUTO_SUBFRAME
    then show ?thesis
      using auto_subframe_ok [OF ok, of params env] g
      by (cases "RendererDidNavigateAutoSubframe env params s") auto
  next
    case NAV_IGNORE
    then show ?thesis using discard_notify_ok [OF ok] ok by (cases "pending_entry s") auto
  next
    case NEW_PAGE
    then show ?thesis using new_page_ok [OF ok, of env params "d_did_replace_entry d"] by (auto simp: handled_def)
  qed (use g existing_page_ok [OF ok, of params env] same_page_ok [OF ok, of params env]
        in_page_ok [OF ok, of params env] new_subframe_ok [OF ok, of _ env params] in \<open>auto simp: handled_def intro: exI [where x = True]\<close>)
qed

lemma RendererDidNavigate_ok:
  assumes ok: "nav_ok s"
  shows "\<exists>b d t. RendererDidNavigate env params details s = Some (b, d, t) \<and> nav_ok t"
proof -
  obtain p where p: "GetLastCommittedEntry s = Some p" "\<forall>a. p = Some a \<longrightarrow> heap s a \<noteq> None"
    using last_committed_ok [OF ok] by blast
  obtain d1 where d1: "previous_details s details = Some d1"
    using p by (cases p) (auto simp: previous_details_def)
  obtain s1 where s1: "fill_pending_site env s = Some s1" "nav_ok s1"
    using fill_pending_site_ok [OF ok] by blast
  obtain p1 where p1: "GetLastCommittedEntry s1 = Some p1" "\<forall>a. p1 = Some a \<longrightarrow> heap s1 a \<noteq> None"
    using last_committed_ok [OF s1(2)] by blast
  obtain ip where ip: "IsURLInPageNavigation env s1 (p_url params) = Some ip"
    using p1 by (cases p1) (auto simp: IsURLInPageNavigation_def)
  obtain ty where ty: "ClassifyNavigation env s1 params = Some ty"
    using ClassifyNavigation_ok [OF s1(2)] by blast
  obtain b d2 s2 where s2: "dispatch_navigation env ty params (d1\<lparr>d_is_in_page := ip, d_type := ty\<rparr>) s1 =
      Some (b, d2, s2)" "nav_ok s2" "b \<longrightarrow> handled s2"
    using dispatch_ok [OF s1(2) ty] by blast
  show ?thesis
  proof (cases b)
    case False
    then show ?thesis using d1 s1 ip ty s2
      by (intro exI [of _ False] exI [of _ d2] exI [of _ s2]) (simp add: RendererDidNavigate_def)
  next
    case True
    then have h: "committed_entries s2 \<noteq> []" using s2(3) by (simp add: handled_def)
    obtain a e where a: "GetActiveEntry s2 = Some (Some a)" "heap s2 a = Some e"
      "transient_entry_index s2 \<noteq> -1 \<longrightarrow> a = entries s2 ! nat (transient_entry_index s2) \<and> entry_page_id e = -1"
      using active_entry_ok [OF s2(2) h] by blast
    let ?s3 = "wrote a (e\<lparr>entry_content_state := p_content_state params\<rparr>) s2"
    have ok3: "nav_ok ?s3" using s2(2) a by (intro wrote_ok) auto
    have "GetActiveEntry ?s3 = GetActiveEntry s2"
      by (simp add: GetActiveEntry_def GetLastCommittedEntry_def)
    then have "GetActiveEntry ?s3 = Some (Some a)" using a(1) by simp
    then show ?thesis
      using True d1 s1 ip ty s2(1) a(1,2) ok3
      by (auto simp: RendererDidNavigate_def write_entry_eq NotifyNavigationEntryCommitted_def Let_def
          intro: exI [where x = True])
  qed
qed

subsection \<open>The other clients\<close>

lemma DiscardTransientEntry_eq:
  assumes ok: "nav_ok s"
  shows "\<exists>t. DiscardTransientEntry s = Some t \<and> nav_ok t \<and> entries t = committed_entries s \<and>
    last_committed_entry_index t = committed_index s \<and> transient_entry_index t = -1 \<and>
    pending_entry t = pending_entry s \<and> pending_entry_index t = pending_entry_index s \<and>
    max_page_id t = max_page_id s \<and> next_addr t = next_addr s \<and>
    (\<forall>a. a \<notin> set (entries s) \<longrightarrow> heap t a = heap s a)"
proof (cases "transient_entry_index s = -1")
  case True
  then show ?thesis using ok by (simp add: DiscardTransientEntry_def committed_entries_def committed_index_def)
next
  case False
  let ?ti = "transient_entry_index s"
  have "transient_ok s" and m: "nav_mem s" using ok by (simp_all add: nav_ok_def)
  then have tb: "0 \<le> ?ti" "?ti < entry_count s" using False unfolding transient_ok_def by blast+
  let ?t = "s\<lparr>entries := committed_entries s, heap := (heap s)(entries s ! nat ?ti := None),
              last_committed_entry_index := committed_index s, transient_entry_index := -1\<rparr>"
  have eq: "DiscardTransientEntry s = Some ?t"
    using False erase_entry_eq [OF m tb]
    by (simp add: DiscardTransientEntry_def committed_entries_def committed_index_def)
  have not: "entries s ! nat ?ti \<notin> set (committed_entries s)" "entries s ! nat ?ti \<in> set (entries s)"
    using transient_not_committed [OF ok False] by auto
  have mt: "nav_mem ?t"
    using nav_mem_erase [OF m, of "nat ?ti"] tb False
    by (simp add: nav_mem_def committed_entries_def entry_count_def)
  have ct: "committed_entries ?t = committed_entries s" by (simp add: committed_entries_def)
  have "pending_ok ?t"
    using ok not set_committed [of s] ct
    by (auto simp: nav_ok_def pending_ok_def split: option.splits if_splits)
  moreover have "transient_ok ?t" by (simp add: transient_ok_def)
  moreover have "int (length (committed_entries s)) \<le> max_entry_count" using ok by (simp add: nav_ok_def)
  ultimately have "nav_ok ?t"
    using mt ct committed_index_bounds [OF ok] by (simp add: nav_ok_def entry_count_def)
  then show ?thesis using eq not by auto
qed

text \<open>The index is computed before the old transient entry goes: it is inside the list unless the
  committed entry is the last and comes after the transient one.\<close>

lemma AddTransientEntry_ok:
  assumes ok: "nav_ok s" and e: "heap s a = Some e" "entry_page_id e = -1"
    and fresh: "a \<notin> set (entries s)" "pending_entry s \<noteq> Some a"
    and inside: "last_committed_entry_index s < int (length (committed_entries s))"
  shows "\<exists>t. AddTransientEntry a s = Some t \<and> nav_ok t \<and> GetActiveEntry t = Some (Some a) \<and>
    committed_entries t = committed_entries s \<and> pending_entry t = pending_entry s"
proof -
  obtain u where u: "DiscardTransientEntry s = Some u" "nav_ok u" "entries u = committed_entries s"
    "last_committed_entry_index u = committed_index s" "transient_entry_index u = -1"
    "pending_entry u = pending_entry s" "pending_entry_index u = pending_entry_index s"
    "heap u a = heap s a"
    using DiscardTransientEntry_eq [OF ok] fresh by blast
  define i where "i = (if last_committed_entry_index s \<noteq> -1 then last_committed_entry_index s + 1 else 0)"
  have lb: "-1 \<le> last_committed_entry_index s" using ok by (simp add: nav_ok_def)
  then have i: "0 \<le> i" "i \<le> entry_count u" using inside u(3) by (auto simp: i_def entry_count_def)
  define t where "t = nav_emit NavigationStateChanged
      (u\<lparr>entries := insert_at (nat i) a (entries u), transient_entry_index := i\<rparr>)"
  have eq: "AddTransientEntry a s = Some t"
    using u(1) i by (simp add: AddTransientEntry_def i_def [symmetric] t_def Let_def)
  have ni: "nat i \<le> length (entries u)" using i by (simp add: entry_count_def)
  have au: "a \<notin> set (entries u)" using fresh set_committed [of s] u(3) by auto
  have tf: "entries t = insert_at (nat i) a (entries u)" "transient_entry_index t = i" "heap t = heap u"
    "pending_entry t = pending_entry u" "pending_entry_index t = pending_entry_index u"
    "last_committed_entry_index t = last_committed_entry_index u" "next_addr t = next_addr u"
    by (simp_all add: t_def)
  have ci: "committed_entries t = entries u"
    using i ni by (simp add: committed_entries_def tf insert_at_def erase_at_def min_def)
  have nth: "entries t ! nat i = a" using ni by (simp add: tf nth_insert_at)
  have m: "nav_mem t"
  proof -
    have "distinct (a # entries u)" using u(2) au by (simp add: nav_ok_def nav_mem_def)
    moreover have "mset (entries t) = mset (a # entries u)" by (simp add: tf mset_insert_at)
    ultimately have "distinct (entries t)" using mset_eq_imp_distinct_iff by blast
    then show ?thesis using u(2,8) e au by (auto simp: nav_ok_def nav_mem_def tf set_insert_at)
  qed
  have "pending_ok t"
    using u(2,5,6) ci fresh by (auto simp: nav_ok_def pending_ok_def tf set_insert_at committed_entries_def split: option.splits if_splits)
  moreover have lc: "last_committed_entry_index t \<noteq> i" "last_committed_entry_index t < i \<or> last_committed_entry_index t = -1"
    using lb by (auto simp: tf u(4) committed_index_def i_def)
  have "transient_ok t"
    using i lc nth e u(8) ni
    by (auto simp: transient_ok_def tf(2) entry_count_def tf(1) length_insert_at entry_at_def vec_at_def tf(3))
  moreover have "-1 \<le> last_committed_entry_index t" "last_committed_entry_index t < entry_count t"
    "committed_entries t \<noteq> [] \<longrightarrow> 0 \<le> last_committed_entry_index t" "int (length (committed_entries t)) \<le> max_entry_count"
    using u(2,5) ci ni by (auto simp: nav_ok_def tf(6) tf(1) entry_count_def length_insert_at committed_entries_def)
  ultimately have "nav_ok t" using m by (simp add: nav_ok_def)
  moreover have "GetActiveEntry t = Some (Some a)"
    using i ni nth by (simp add: GetActiveEntry_def tf(2) vec_at_def tf(1) length_insert_at)
  ultimately show ?thesis using eq ci u(3,6) tf(4) by auto
qed

lemma navigate_pending_index_ok:
  assumes ok: "nav_ok s" and q: "quiet s" and i: "0 \<le> i" "i < entry_count s"
  shows "\<exists>t. NavigateToPendingEntry env r (s\<lparr>pending_entry_index := i\<rparr>) = Some t \<and> nav_ok t"
proof -
  let ?u = "s\<lparr>pending_entry_index := i, pending_entry := Some (entries s ! nat i)\<rparr>"
  have u: "nav_ok ?u" by (rule set_pending_index_ok [OF ok q i])
  have at: "vec_at (entries s) i = Some (entries s ! nat i)" using i by (simp add: vec_at_def entry_count_def)
  have "NavigateToPendingEntry env r (s\<lparr>pending_entry_index := i\<rparr>) = NavigateToPendingEntry env r ?u"
    unfolding NavigateToPendingEntry_def Let_def using q at by (simp add: quietD cong: if_cong)
  then show ?thesis using NavigateToPendingEntry_ok [OF u, of _ env r] by auto
qed

lemma RemoveEntryAtIndex_ok:
  assumes ok: "nav_ok s" and i: "0 \<le> i" "i < int (length (committed_entries s))"
    and rest: "i = committed_index s \<Longrightarrow> i = 0 \<Longrightarrow> length (committed_entries s) = 1"
  shows "\<exists>t. RemoveEntryAtIndex env i u s = Some t \<and> nav_ok t"
proof -
  obtain t where t: "RemoveEntryAtIndexInternal i s = Some t" "nav_ok t" "quiet t"
    using RemoveEntryAtIndexInternal_ok [OF ok i rest] by blast
  show ?thesis
  proof (cases "i = last_committed_entry_index s \<and> last_committed_entry_index t \<noteq> -1")
    case True
    then have "0 \<le> last_committed_entry_index t" "last_committed_entry_index t < entry_count t"
      using t by (auto simp: nav_ok_quiet)
    from navigate_pending_index_ok [OF t(2,3) this, of env NO_RELOAD] show ?thesis
      using t True by (auto simp: RemoveEntryAtIndex_def)
  next
    case False
    then show ?thesis
      using t LoadURL_ok [OF t(2), of env "if u = [] then ''about:blank'' else u" "[]" START_PAGE]
      by (auto simp: RemoveEntryAtIndex_def)
  qed
qed

lemma LoadIfNecessary_ok:
  assumes ok: "nav_ok s" and q: "quiet s" and n: "0 \<le> last_committed_entry_index s \<or> \<not> needs_reload s"
  shows "\<exists>t. LoadIfNecessary env s = Some t \<and> nav_ok t"
proof (cases "needs_reload s")
  case True
  then have "0 \<le> last_committed_entry_index s" "last_committed_entry_index s < entry_count s"
    using ok n by (auto simp: nav_ok_def)
  then show ?thesis using navigate_pending_index_ok [OF ok q] True by (simp add: LoadIfNecessary_def)
qed (use ok in \<open>simp add: LoadIfNecessary_def\<close>)

lemma UpdateMaxPageID_ok [simp]: "nav_ok (UpdateMaxPageID pid s) = nav_ok s"
  by (rule nav_ok_cong) (simp_all add: UpdateMaxPageID_def)

lemma commit_tail:
  assumes "handled s"
  shows "\<exists>d t. do { active \<leftarrow> GetActiveEntry s; a \<leftarrow> active; e \<leftarrow> heap s a;
      (d, u) \<leftarrow> NotifyNavigationEntryCommitted (f a e) s; Some u } = Some t \<and> nav_ok t"
proof -
  have ok: "nav_ok s" and ne: "committed_entries s \<noteq> []" using assms by (simp_all add: handled_def)
  obtain a e where "GetActiveEntry s = Some (Some a)" "heap s a = Some e"
    using active_entry_ok [OF ok ne] by blast
  then show ?thesis using ok by (simp add: NotifyNavigationEntryCommitted_def Let_def)
qed

lemma CommitPendingEntry_ok:
  assumes ok: "nav_ok s"
  shows "\<exists>t. CommitPendingEntry env s = Some t \<and> nav_ok t"
proof -
  obtain u where u: "DiscardTransientEntry s = Some u" "nav_ok u" "transient_entry_index u = -1"
    using DiscardTransientEntry_eq [OF ok] by blast
  show ?thesis
  proof (cases "pending_entry u")
    case None
    then show ?thesis using u by (simp add: CommitPendingEntry_def)
  next
    case (Some pa)
    then obtain pe where pe: "heap u pa = Some pe" using u(2) by (auto simp: nav_ok_def pending_ok_def)
    obtain p where "GetLastCommittedEntry u = Some p" "\<forall>a. p = Some a \<longrightarrow> heap u a \<noteq> None"
      using last_committed_ok [OF u(2)] by blast
    then obtain d1 where d1: "previous_details u new_details = Some d1"
      by (cases p) (auto simp: previous_details_def)
    have "\<exists>d2 v. (if pending_entry_index u \<ge> 0 then do {
              t \<leftarrow> DiscardNonCommittedEntriesInternal u;
              Some (d1\<lparr>d_type := EXISTING_PAGE\<rparr>, t\<lparr>last_committed_entry_index := pending_entry_index u\<rparr>)
            } else do {
              let pid = max_page_id u + 1;
              t1 \<leftarrow> write_entry pa (\<lambda>e. e\<lparr>entry_page_id := pid\<rparr>) u;
              pe \<leftarrow> heap t1 pa;
              let (b, t2) = alloc pe (UpdateMaxPageID pid t1);
              t3 \<leftarrow> InsertOrReplaceEntry env b False t2;
              Some (d1\<lparr>d_type := NEW_PAGE\<rparr>, t3)
            }) = Some (d2, v) \<and> handled v"
    proof (cases "pending_entry_index u \<ge> 0")
      case True
      let ?v = "(discarded u)\<lparr>last_committed_entry_index := pending_entry_index u\<rparr>"
      have b: "pending_entry_index u < int (length (committed_entries u))"
        using u(2) Some True by (auto simp: nav_ok_def pending_ok_def split: if_splits)
      have q: "quiet ?v" by (simp add: quiet_def discarded_def)
      have "nav_mem (discarded u)" "int (length (committed_entries u)) \<le> max_entry_count"
        using discarded_ok [OF u(2)] u(2) by (simp_all add: nav_ok_def)
      then have "nav_ok ?v" using b True q by (simp add: nav_ok_quiet nav_mem_def entry_count_def)
      moreover have "committed_entries ?v \<noteq> []" using b True q by (auto simp: quietD)
      ultimately show ?thesis using True discard_eq [OF u(2)] by (simp add: handled_def)
    next
      case False
      let ?e = "pe\<lparr>entry_page_id := max_page_id u + 1\<rparr>"
      let ?w = "UpdateMaxPageID (max_page_id u + 1) (wrote pa ?e u)"
      have "nav_ok (wrote pa ?e u)" using u pe by (intro wrote_ok) auto
      then have w: "nav_ok ?w" by simp
      have "heap (wrote pa ?e u) pa = Some ?e" by simp
      then show ?thesis
        using False pe alloc_insert_ok [OF w, of ?e env False]
        by (fastforce simp: write_entry_eq handled_def quietD Let_def split: prod.splits)
    qed
    then obtain d2 v where v: "(if pending_entry_index u \<ge> 0 then do {
              t \<leftarrow> DiscardNonCommittedEntriesInternal u;
              Some (d1\<lparr>d_type := EXISTING_PAGE\<rparr>, t\<lparr>last_committed_entry_index := pending_entry_index u\<rparr>)
            } else do {
              let pid = max_page_id u + 1;
              t1 \<leftarrow> write_entry pa (\<lambda>e. e\<lparr>entry_page_id := pid\<rparr>) u;
              pe \<leftarrow> heap t1 pa;
              let (b, t2) = alloc pe (UpdateMaxPageID pid t1);
              t3 \<leftarrow> InsertOrReplaceEntry env b False t2;
              Some (d1\<lparr>d_type := NEW_PAGE\<rparr>, t3)
            }) = Some (d2, v)" "handled v" by blast
    show ?thesis
      unfolding CommitPendingEntry_def using u(1) Some d1 v(1) commit_tail [OF v(2)] by simp
  qed
qed

subsection \<open>Reachable controllers\<close>

text \<open>
  One step is one call of a client that returns. Three calls have a precondition: a transient entry
  is a new one without a page id; an entry is removed at an index of the committed entries, and the
  committed one at index 0 only if it is the only one; and \<open>LoadIfNecessary\<close> is called when nothing is
  pending. A restore is not among the steps.
\<close>

inductive nav_step :: "nav_env \<Rightarrow> nav_ctl \<Rightarrow> nav_ctl \<Rightarrow> bool" for env where
  load: "LoadURL env u ref tr s = Some t \<Longrightarrow> nav_step env s t"
| go_back: "GoBack env s = Some t \<Longrightarrow> \<not> has_interstitial env \<Longrightarrow> nav_step env s t"
| go_forward: "GoForward env s = Some t \<Longrightarrow> nav_step env s t"
| to_index: "GoToIndex env i s = Some t \<Longrightarrow> nav_step env s t"
| to_offset: "GoToOffset env k s = Some t \<Longrightarrow> nav_step env s t"
| reload: "ReloadInternal env c r s = Some t \<Longrightarrow> nav_step env s t"
| continue_reload: "ContinuePendingReload env s = Some t \<Longrightarrow> nav_step env s t"
| discard: "DiscardNonCommittedEntries s = Some t \<Longrightarrow> nav_step env s t"
| renderer: "RendererDidNavigate env params d s = Some (b, d', t) \<Longrightarrow> nav_step env s t"
| commit: "CommitPendingEntry env s = Some t \<Longrightarrow> nav_step env s t"
| transient: "alloc e s = (a, u) \<Longrightarrow> entry_page_id e = -1 \<Longrightarrow> AddTransientEntry a u = Some t \<Longrightarrow> nav_step env s t"
| remove: "0 \<le> i \<Longrightarrow> i < int (length (committed_entries s)) \<Longrightarrow>
    (i = committed_index s \<and> i = 0 \<longrightarrow> length (committed_entries s) = 1) \<Longrightarrow>
    RemoveEntryAtIndex env i u s = Some t \<Longrightarrow> nav_step env s t"
| load_if_necessary: "quiet s \<Longrightarrow> 0 \<le> last_committed_entry_index s \<Longrightarrow> LoadIfNecessary env s = Some t \<Longrightarrow> nav_step env s t"

inductive_cases nav_stepE: "nav_step env s t"

inductive nav_reachable :: "nav_env \<Rightarrow> nav_ctl \<Rightarrow> bool" for env where
  start: "nav_reachable env (new_controller uid)"
| step: "nav_reachable env s \<Longrightarrow> nav_step env s t \<Longrightarrow> nav_reachable env t"

lemma AddTransientEntry_Some_ok:
  assumes ok: "nav_ok s" and al: "alloc e s = (a, u)" and pid: "entry_page_id e = -1"
    and r: "AddTransientEntry a u = Some t"
  shows "nav_ok t"
proof -
  note o = alloc_ok [OF ok al]
  obtain w where w: "DiscardTransientEntry u = Some w" "entries w = committed_entries u"
    using DiscardTransientEntry_eq [OF o(1)] by blast
  have "last_committed_entry_index u < int (length (committed_entries u))"
  proof (cases "last_committed_entry_index u = -1")
    case True
    then show ?thesis by simp
  next
    case False
    then show ?thesis
      using r w by (auto simp: AddTransientEntry_def Let_def entry_count_def split: if_splits)
  qed
  from AddTransientEntry_ok [OF o(1,2) pid o(3,4) this] r show ?thesis by auto
qed

lemma nav_step_ok: "nav_step env s t \<Longrightarrow> nav_ok s \<Longrightarrow> nav_ok t"
proof (induction rule: nav_step.induct)
  case (load u ref tr s t)
  then show ?case using LoadURL_ok [of s env u ref tr] by auto
next
  case (go_back s t)
  then show ?case using GoBack_ok [of s env] by (cases "CanGoBack s") (auto simp: GoBack_def)
next
  case (go_forward s t)
  then show ?case using GoForward_ok [of s env] by (cases "CanGoForward s") (auto simp: GoForward_def)
next
  case (to_index i s t)
  then show ?case using GoToIndex_ok [of s env i] by auto
next
  case (to_offset k s t)
  then show ?case using GoToOffset_ok [of s env k] by auto
next
  case (reload c r s t)
  then show ?case using ReloadInternal_ok [of s env c r] by auto
next
  case (continue_reload s t)
  then show ?case using ContinuePendingReload_ok [of s env] by auto
next
  case (discard s t)
  then show ?case using discard_notify_ok [of s] by auto
next
  case (renderer params d s b d' t)
  then show ?case using RendererDidNavigate_ok [of s env params d] by auto
next
  case (commit s t)
  then show ?case using CommitPendingEntry_ok [of s env] by auto
next
  case (transient e s a u t)
  then show ?case using AddTransientEntry_Some_ok by blast
next
  case (remove i s u t)
  then show ?case using RemoveEntryAtIndex_ok [of s i env u] by auto
next
  case (load_if_necessary s t)
  then show ?case using LoadIfNecessary_ok [of s env] by auto
qed

lemma new_controller_ok: "nav_ok (new_controller uid)"
  by (simp add: nav_ok_def nav_mem_def pending_ok_def transient_ok_def new_controller_def entry_count_def
      committed_entries_def max_entry_count_def)

lemma nav_reachable_ok: "nav_reachable env s \<Longrightarrow> nav_ok s"
  by (induction rule: nav_reachable.induct) (auto intro: new_controller_ok nav_step_ok)

end
