(* ===== verification/NavSpec.thy ===== *)
theory NavSpec
  imports NavSteps
begin

text \<open>
  What \<open>navigation_controller.h\<close> promises of the session history, and the calls that break it.
\<close>

subsection \<open>A concrete run\<close>

definition demo_nav_env :: nav_env where
  "demo_nav_env = \<lparr>url_has_ref = (\<lambda>u. CHR ''#'' \<in> set u), url_clear_ref = takeWhile (\<lambda>c. c \<noteq> CHR ''#''),
     scheme_of = takeWhile (\<lambda>c. c \<noteq> CHR '':''), RewriteURLIfNecessary = (\<lambda>u. (u, False)),
     ReverseURLRewrite = (\<lambda>_ _. None), IsDisabledScheme_policy = (\<lambda>_. False),
     HandleNonNavigationAboutURL = (\<lambda>_. False), CreateHistoryStateForURL = (\<lambda>u. u),
     tab_navigates = (\<lambda>_ _. True), tab_site = 1, has_interstitial = False,
     supported_mime_type = True\<rparr>"

definition demo_params :: "gurl \<Rightarrow> int \<Rightarrow> frame_params" where
  "demo_params u pid = \<lparr>p_page_id = pid, p_url = u, p_referrer = [], p_transition = LINK,
     p_redirects = [], p_gesture_auto = False, p_is_post = False, p_content_state = ''s'',
     p_security_info = [], p_http_status_code = 200\<rparr>"

text \<open>The states after loading a URL, and after the renderer has reported a page.\<close>

definition demo_load :: "gurl \<Rightarrow> nav_ctl \<Rightarrow> nav_ctl" where
  "demo_load u s = the (LoadURL demo_nav_env u [] LINK s)"

definition demo_report :: "gurl \<Rightarrow> int \<Rightarrow> nav_ctl \<Rightarrow> nav_ctl" where
  "demo_report u pid s = snd (snd (the (RendererDidNavigate demo_nav_env (demo_params u pid) new_details s)))"

definition demo_nav :: nav_ctl where
  "demo_nav = demo_report ''http://b'' 2 (demo_load ''http://b''
                (demo_report ''http://a'' 1 (demo_load ''http://a'' (new_controller 1))))"

lemma demo_load_reachable:
  "nav_reachable demo_nav_env s \<Longrightarrow> nav_reachable demo_nav_env (demo_load u s)"
  using LoadURL_ok [OF nav_reachable_ok, of demo_nav_env s demo_nav_env u "[]" LINK]
  by (auto simp: demo_load_def intro: nav_reachable.step [OF _ nav_step.load])

lemma demo_report_reachable:
  "nav_reachable demo_nav_env s \<Longrightarrow> nav_reachable demo_nav_env (demo_report u pid s)"
  using RendererDidNavigate_ok [OF nav_reachable_ok, of demo_nav_env s demo_nav_env "demo_params u pid" new_details]
  by (auto simp: demo_report_def intro: nav_reachable.step [OF _ nav_step.renderer])

lemma demo_nav_reachable: "nav_reachable demo_nav_env demo_nav"
  unfolding demo_nav_def by (intro demo_load_reachable demo_report_reachable nav_reachable.start)

text \<open>Back to the first page, and a transient entry on top of a state.\<close>

definition demo_back :: "nav_ctl \<Rightarrow> nav_ctl" where
  "demo_back s = the (GoBack demo_nav_env s)"

definition demo_forward :: "nav_ctl \<Rightarrow> nav_ctl" where
  "demo_forward s = the (GoForward demo_nav_env s)"

definition demo_transient :: "nav_ctl \<Rightarrow> nav_ctl option" where
  "demo_transient s = (let (a, u) = alloc (empty_entry 77) s in AddTransientEntry a u)"

lemma demo_back_reachable:
  assumes "nav_reachable demo_nav_env s" "CanGoBack s"
  shows "nav_reachable demo_nav_env (demo_back s)"
  using GoBack_ok [OF nav_reachable_ok [OF assms(1)] assms(2), of demo_nav_env] assms(1)
  by (auto simp: demo_back_def demo_nav_env_def intro: nav_reachable.step [OF _ nav_step.go_back])

lemma demo_forward_reachable:
  assumes "nav_reachable demo_nav_env s" "CanGoForward s"
  shows "nav_reachable demo_nav_env (demo_forward s)"
  using GoForward_ok [OF nav_reachable_ok [OF assms(1)] assms(2), of demo_nav_env] assms(1)
  by (auto simp: demo_forward_def intro: nav_reachable.step [OF _ nav_step.go_forward])

lemma demo_transient_reachable:
  assumes "nav_reachable demo_nav_env s" "\<not> Option.is_none (demo_transient s)"
  shows "nav_reachable demo_nav_env (the (demo_transient s))"
proof -
  obtain a u where al: "alloc (empty_entry 77) s = (a, u)" by fastforce
  then obtain t where t: "AddTransientEntry a u = Some t"
    using assms(2) by (auto simp: demo_transient_def Option.is_none_def)
  have "entry_page_id (empty_entry 77) = -1" by (simp add: empty_entry_def NavigationEntry_def)
  from nav_step.transient [OF al this t] assms(1) have "nav_reachable demo_nav_env t"
    by (rule nav_reachable.step [rotated])
  then show ?thesis using al t by (simp add: demo_transient_def)
qed

definition demo_first :: nav_ctl where
  "demo_first = demo_report ''http://a'' 1 (demo_back demo_nav)"

lemma demo_first_reachable: "nav_reachable demo_nav_env demo_first"
  unfolding demo_first_def
  by (intro demo_report_reachable demo_back_reachable demo_nav_reachable) code_simp

subsection \<open>Properties\<close>





text \<open>C30. Committing a new page: when the renderer reports a main frame page with a page id above
  all it has used, the entries after the current one are dropped, the oldest entry is dropped if the
  list would exceed the limit, the new entry is the last one with the reported URL and page id, it is
  the committed one and nothing is pending.\<close>

theorem new_page_is_committed:
  assumes "nav_reachable env s" "p_page_id params > max_page_id s" "p_page_id params \<noteq> -1"
    and "IsMainFrame (p_transition params)" "\<not> d_did_replace_entry details"
  shows "\<exists>d t a e. RendererDidNavigate env params details s = Some (True, d, t) \<and> d_type d = NEW_PAGE \<and>
    entries t = (let kept = take (nat (committed_index s + 1)) (committed_entries s)
                 in if length kept \<ge> 50 then tl kept else kept) @ [a] \<and>
    heap t a = Some e \<and> entry_url e = p_url params \<and> entry_page_id e = p_page_id params \<and>
    last_committed_entry_index t = entry_count t - 1 \<and>
    pending_entry t = None \<and> max_page_id t = p_page_id params"
proof -
  have ok: "nav_ok s" using assms(1) by (rule nav_reachable_ok)
  obtain p where p: "GetLastCommittedEntry s = Some p" "\<forall>a. p = Some a \<longrightarrow> heap s a \<noteq> None"
    using last_committed_ok [OF ok] by blast
  obtain d1 where d1: "previous_details s details = Some d1" "\<not> d_did_replace_entry d1"
    using p assms(5) by (cases p) (auto simp: previous_details_def)
  obtain s1 where s1: "fill_pending_site env s = Some s1" "nav_ok s1" "entries s1 = entries s"
    "last_committed_entry_index s1 = last_committed_entry_index s"
    "transient_entry_index s1 = transient_entry_index s" "max_page_id s1 = max_page_id s"
    using fill_pending_site_ok [OF ok] by blast
  obtain p1 where p1: "GetLastCommittedEntry s1 = Some p1" "\<forall>a. p1 = Some a \<longrightarrow> heap s1 a \<noteq> None"
    using last_committed_ok [OF s1(2)] by blast
  obtain ip where ip: "IsURLInPageNavigation env s1 (p_url params) = Some ip"
    using p1 by (cases p1) (auto simp: IsURLInPageNavigation_def)
  have ty: "ClassifyNavigation env s1 params = Some NEW_PAGE"
    using assms(2-4) s1(6) by (simp add: ClassifyNavigation_def)
  obtain t e where t: "RendererDidNavigateToNewPage env params False s1 = Some t" "handled t" "quiet t"
    "entries t = inserted_after False s1 @ [next_addr s1]" "heap t (next_addr s1) = Some e"
    "entry_url e = p_url params" "entry_page_id e = p_page_id params"
    "last_committed_entry_index t = entry_count t - 1" "max_page_id t = max (max_page_id s1) (p_page_id params)"
    using new_page_ok [OF s1(2), of env params False] by blast
  let ?a = "next_addr s1"
  have act: "GetActiveEntry t = Some (Some ?a)"
    using t(3,4,8) by (simp add: GetActiveEntry_def GetLastCommittedEntry_def quietD vec_at_def entry_count_def)
  let ?v = "wrote ?a (e\<lparr>entry_content_state := p_content_state params\<rparr>) t"
  have "GetActiveEntry ?v = GetActiveEntry t" by (simp add: GetActiveEntry_def GetLastCommittedEntry_def)
  then obtain d where r: "RendererDidNavigate env params details s =
      Some (True, d, nav_emit (NAV_ENTRY_COMMITTED d) (nav_emit NavigationStateChanged ?v))" "d_type d = NEW_PAGE"
    using d1 s1(1) ip ty t(1,5) act
    by (simp add: RendererDidNavigate_def write_entry_eq NotifyNavigationEntryCommitted_def Let_def)
  have "inserted_after False s1 = inserted_after False s" using s1 by (intro inserted_after_cong) auto
  then have "inserted_after False s1 = (let kept = take (nat (committed_index s + 1)) (committed_entries s)
                 in if length kept \<ge> 50 then tl kept else kept)"
    by (simp add: inserted_after_def kept_entries_def max_entry_count_def Let_def)
  then show ?thesis
    using r t assms(2) s1(6)
    by (intro exI [of _ d] exI [of _ "nav_emit (NAV_ENTRY_COMMITTED d) (nav_emit NavigationStateChanged ?v)"]
          exI [of _ ?a] exI [of _ "e\<lparr>entry_content_state := p_content_state params\<rparr>"])
       (simp add: quietD)
qed

theorem new_page_is_committed_witness:
  "\<exists>d t. RendererDidNavigate demo_nav_env (demo_params ''http://c'' 3) new_details demo_nav = Some (True, d, t) \<and>
     last_committed_entry_index t = entry_count t - 1 \<and> pending_entry t = None"
proof -
  have "p_page_id (demo_params ''http://c'' 3) > max_page_id demo_nav"
    "IsMainFrame (p_transition (demo_params ''http://c'' 3))" by code_simp+
  with new_page_is_committed [OF demo_nav_reachable this(1) _ this(2), of new_details] show ?thesis
    by (auto simp: demo_params_def new_details_def)
qed

text \<open>Going back: when it is possible, \<open>GoBack\<close> leaves the committed entries and the committed
  index as they are and makes the entry before the current one the pending one; if the tab refuses
  the navigation nothing is pending.\<close>

theorem GoBack_selects_previous:
  assumes "nav_reachable env s" "CanGoBack s" "\<not> has_interstitial env"
  shows "\<exists>t. GoBack env s = Some t \<and> nav_reachable env t \<and>
    committed_entries t = committed_entries s \<and> committed_index t = committed_index s \<and>
    (quiet t \<or> pending_entry_index t = GetCurrentEntryIndex s - 1 \<and>
       pending_entry t = Some (committed_entries s ! nat (GetCurrentEntryIndex s - 1)) \<and>
       transient_entry_index t = -1)"
proof -
  obtain t where t: "GoBack env s = Some t" "committed_entries t = committed_entries s"
    "committed_index t = committed_index s"
    "quiet t \<or> pending_entry_index t = GetCurrentEntryIndex s - 1 \<and>
       pending_entry t = Some (committed_entries s ! nat (GetCurrentEntryIndex s - 1)) \<and>
       transient_entry_index t = -1"
    using GoBack_ok [OF nav_reachable_ok [OF assms(1)] assms(2,3)] by blast
  then show ?thesis using assms(1,3) by (auto intro: nav_reachable.step nav_step.go_back)
qed

theorem GoBack_selects_previous_witness:
  "\<exists>t. GoBack demo_nav_env demo_nav = Some t \<and> committed_index t = 1 \<and> committed_entries t = entries demo_nav"
proof -
  have "CanGoBack demo_nav" "committed_index demo_nav = 1" "committed_entries demo_nav = entries demo_nav"
    by code_simp+
  with GoBack_selects_previous [OF demo_nav_reachable this(1)] show ?thesis by (auto simp: demo_nav_env_def)
qed

text \<open>\<open>AddTransientEntry\<close> computes where to insert before it removes the old transient entry:
  when the committed entry is the last one and comes after the transient one, the insertion is one
  position past the end of the list.\<close>

theorem AddTransientEntry_past_the_end:
  "\<exists>s. nav_reachable demo_nav_env s \<and> transient_entry_index s = 1 \<and> entry_count s = 3 \<and>
     last_committed_entry_index s = 2 \<and> demo_transient s = None"
proof -
  let ?s = "demo_report ''http://b'' 2 (the (demo_transient demo_first))"
  have "nav_reachable demo_nav_env ?s"
    by (intro demo_report_reachable demo_transient_reachable demo_first_reachable) code_simp
  moreover have "transient_entry_index ?s = 1" "entry_count ?s = 3" "last_committed_entry_index ?s = 2"
    "Option.is_none (demo_transient ?s)" by code_simp+
  ultimately show ?thesis by (auto simp: Option.is_none_def split: option.splits)
qed

text \<open>C31. \<open>PruneAllButActive\<close> with a transient entry frees the other entries and clears the pending
  index, but keeps \<open>pending_entry_\<close>: when the pending entry was one of those, it dangles, and the
  next discard frees it a second time.\<close>

theorem prune_leaves_dangling_pending:
  "\<exists>s t. nav_reachable demo_nav_env s \<and> transient_entry_index s = entry_count s - 1 \<and>
     PruneAllButActive demo_nav_env s = Some t \<and> pending_entry t = Some 1 \<and> heap t 1 = None \<and>
     DiscardNonCommittedEntries t = None"
proof -
  let ?s = "the (demo_transient (demo_back demo_nav))"
  let ?t = "the (PruneAllButActive demo_nav_env ?s)"
  have "nav_reachable demo_nav_env ?s"
    by (intro demo_transient_reachable demo_back_reachable demo_nav_reachable) code_simp+
  moreover have "transient_entry_index ?s = entry_count ?s - 1"
    "\<not> Option.is_none (PruneAllButActive demo_nav_env ?s)" 
    "pending_entry ?t = Some 1 \<and> Option.is_none (heap ?t 1) \<and> Option.is_none (DiscardNonCommittedEntries ?t)"
    by code_simp+
  ultimately show ?thesis
    by (intro exI [of _ ?s] exI [of _ ?t]) (auto simp: Option.is_none_def)
qed

text \<open>A transient entry inserted before the pending one makes \<open>pending_entry_index_\<close> and
  \<open>pending_entry_\<close> disagree: the entry committed next takes its identity from the transient entry,
  not from the pending one.\<close>

theorem transient_shifts_pending_index:
  "\<exists>s a p. nav_reachable demo_nav_env s \<and> pending_entry s = Some p \<and>
     vec_at (entries s) (pending_entry_index s) = Some a \<and> a \<noteq> p \<and> transient_entry_index s = pending_entry_index s \<and>
     (let t = demo_report ''http://c'' 3 s
      in map_option unique_id (entry_at t (last_committed_entry_index t)) = map_option unique_id (heap s a) \<and>
         map_option unique_id (heap s a) \<noteq> map_option unique_id (heap s p))"
proof -
  let ?s = "the (demo_transient (demo_forward demo_first))"
  let ?a = "the (vec_at (entries ?s) (pending_entry_index ?s))"
  let ?p = "the (pending_entry ?s)"
  let ?t = "demo_report ''http://c'' 3 ?s"
  have "nav_reachable demo_nav_env ?s"
    by (intro demo_transient_reachable demo_forward_reachable demo_first_reachable) code_simp+
  moreover have "pending_entry ?s = Some ?p" "vec_at (entries ?s) (pending_entry_index ?s) = Some ?a" "?a \<noteq> ?p"
    "transient_entry_index ?s = pending_entry_index ?s"
    "map_option unique_id (entry_at ?t (last_committed_entry_index ?t)) = map_option unique_id (heap ?s ?a)"
    "map_option unique_id (heap ?s ?a) \<noteq> map_option unique_id (heap ?s ?p)" by code_simp+
  ultimately show ?thesis unfolding Let_def by blast
qed

end
