(* ===== verification/FilePaths.thy ===== *)
theory FilePaths
  imports Prelude
begin

text \<open>
  The POSIX build of \<open>FilePath\<close> (\<open>src/base/file_path.cc\<close>): splitting a path into its parent
  and its last component, appending, and the comparison of paths by components. \<open>FindDriveLetter\<close>
  always answers \<open>npos\<close> there, so \<open>letter + 1\<close> is \<open>0\<close>; \<open>FILE_PATH_USES_DRIVE_LETTERS\<close> code is
  absent. A path is the string it holds; \<open>'/'\<close> is the only separator.

  The lemmas describe every operation on a path that is a root followed by plain components,
  which is how \<open>ChildProcessSecurityPolicy\<close> walks a path upwards.
\<close>

subsection \<open>The operations\<close>

definition kCurrentDirectory :: string where "kCurrentDirectory = ''.''"
definition kParentDirectory :: string where "kParentDirectory = ''..''"

definition IsSeparator :: "char \<Rightarrow> bool" where
  "IsSeparator c = (c = CHR ''/'')"

definition AreAllSeparators :: "string \<Rightarrow> bool" where
  "AreAllSeparators s = list_all IsSeparator s"

text \<open>The loop of \<open>StripTrailingSeparatorsInternal\<close> at position \<open>pos\<close>, with \<open>start = 1\<close>;
  \<open>last_stripped\<close> is \<open>None\<close> for \<open>npos\<close>.\<close>

fun strip_loop :: "nat \<Rightarrow> string \<Rightarrow> nat option \<Rightarrow> string" where
  "strip_loop 0 path last_stripped = path"
| "strip_loop (Suc n) path last_stripped =
    (if Suc n > 1 \<and> IsSeparator (path ! n) then
       if Suc n \<noteq> 2 \<or> last_stripped = Some 3 \<or> \<not> IsSeparator (path ! 0)
       then strip_loop n (take n path) (Some (Suc n))
       else strip_loop n path last_stripped
     else path)"

definition StripTrailingSeparators :: "string \<Rightarrow> string" where
  "StripTrailingSeparators path = strip_loop (length path) path None"

fun find_last_separator :: "string \<Rightarrow> nat option" where
  "find_last_separator [] = None"
| "find_last_separator (c # s) =
    (case find_last_separator s of
       Some i \<Rightarrow> Some (Suc i)
     | None \<Rightarrow> if IsSeparator c then Some 0 else None)"

definition DirName :: "string \<Rightarrow> string" where
  "DirName path =
    (let p = StripTrailingSeparators path;
         q = (case find_last_separator p of
                None \<Rightarrow> take 0 p
              | Some last_separator \<Rightarrow>
                  if last_separator = 0 then take 1 p
                  else if last_separator = 1 \<and> IsSeparator (p ! 0) then take 2 p
                  else take last_separator p);
         r = StripTrailingSeparators q
     in if length r = 0 then kCurrentDirectory else r)"

definition BaseName :: "string \<Rightarrow> string" where
  "BaseName path =
    (let p = StripTrailingSeparators path
     in case find_last_separator p of
          None \<Rightarrow> p
        | Some last_separator \<Rightarrow>
            if last_separator < length p - 1 then drop (Suc last_separator) p else p)"

definition IsAbsolute :: "string \<Rightarrow> bool" where
  "IsAbsolute path = (length path > 0 \<and> IsSeparator (path ! 0))"

definition Append :: "string \<Rightarrow> string \<Rightarrow> string" where
  "Append path component =
    (if path = kCurrentDirectory then component
     else let p = StripTrailingSeparators path;
              q = (if length component > 0 \<and> length p > 0 \<and> \<not> IsSeparator (p ! (length p - 1))
                   then p @ ''/'' else p)
          in q @ component)"

subsection \<open>What stripping does\<close>

lemma strip_loop_keep:
  "n = length p \<Longrightarrow> p = [] \<or> last p \<noteq> CHR ''/'' \<Longrightarrow> strip_loop n p l = p"
  by (cases p rule: rev_cases) (auto simp: IsSeparator_def nth_append)

text \<open>A path is a front part that does not end in a separator, followed by separators; with a
  non-empty front part all of them go.\<close>

lemma strip_loop_front:
  "p \<noteq> [] \<Longrightarrow> last p \<noteq> CHR ''/'' \<Longrightarrow> n = length p + k \<Longrightarrow>
   strip_loop n (p @ replicate k (CHR ''/'')) l = p"
proof (induction k arbitrary: n l)
  case 0 thus ?case by (simp add: strip_loop_keep)
next
  case (Suc k)
  let ?p = "p @ replicate (Suc k) (CHR ''/'')"
  have n: "n = Suc (length p + k)" using Suc.prems by simp
  have at: "?p ! (length p + k) = CHR ''/''" by (simp add: nth_append del: replicate_Suc)
  have tk: "take (length p + k) ?p = p @ replicate k (CHR ''/'')"
    by (simp add: min_def del: replicate_Suc)
  have two: "Suc (length p + k) = 2 \<Longrightarrow> ?p ! 0 \<noteq> CHR ''/''"
    using Suc.prems(1,2) by (cases p) auto
  have one: "length p + k \<noteq> 0" using Suc.prems(1) by simp
  show ?case unfolding n strip_loop.simps
    using Suc.IH [OF Suc.prems(1,2) refl, of "Some (Suc (length p + k))"] at tk two one
    by (simp add: IsSeparator_def del: replicate_Suc)
qed

lemma strip_loop_seps:
  "strip_loop (Suc (Suc n)) (replicate (Suc (Suc n)) (CHR ''/'')) (Some (n + 3)) = ''/''"
proof (induction n)
  case 0 show ?case by (simp add: IsSeparator_def numeral_2_eq_2 numeral_3_eq_3)
next
  case (Suc n)
  have "take (Suc (Suc n)) (replicate (Suc (Suc (Suc n))) (CHR ''/''))
        = replicate (Suc (Suc n)) (CHR ''/'')" by (simp del: replicate_Suc)
  moreover have "replicate (Suc (Suc (Suc n))) (CHR ''/'') ! (Suc (Suc n)) = CHR ''/''"
    by (simp del: replicate_Suc)
  ultimately show ?case using Suc
    by (simp add: IsSeparator_def eval_nat_numeral del: replicate_Suc)
qed

lemma Strip_seps:
  "StripTrailingSeparators (replicate n (CHR ''/'')) = (if n = 2 then ''//'' else replicate (min n 1) (CHR ''/''))"
proof -
  consider "n = 0" | "n = 1" | "n = 2" | k where "n = Suc (Suc (Suc k))"
    by (metis One_nat_def Suc_1 not0_implies_Suc)
  thus ?thesis
  proof cases
    case 4
    have tk: "take (Suc (Suc k)) (replicate n (CHR ''/'')) = replicate (Suc (Suc k)) (CHR ''/'')"
      by (simp add: 4 del: replicate_Suc)
    have at: "replicate n (CHR ''/'') ! (Suc (Suc k)) = CHR ''/''"
      by (simp add: 4 del: replicate_Suc)
    have "strip_loop n (replicate n (CHR ''/'')) None = ''/''"
      using strip_loop_seps [of k] tk at by (simp add: 4 IsSeparator_def eval_nat_numeral del: replicate_Suc)
    thus ?thesis by (simp add: StripTrailingSeparators_def 4 del: replicate_Suc) simp
  qed (simp_all add: StripTrailingSeparators_def IsSeparator_def eval_nat_numeral)
qed

lemma Strip_front:
  "p \<noteq> [] \<Longrightarrow> last p \<noteq> CHR ''/'' \<Longrightarrow> StripTrailingSeparators (p @ replicate k (CHR ''/'')) = p"
  by (simp add: StripTrailingSeparators_def strip_loop_front)

lemma Strip_plain: "p \<noteq> [] \<Longrightarrow> last p \<noteq> CHR ''/'' \<Longrightarrow> StripTrailingSeparators p = p"
  using Strip_front [of p 0] by simp

lemma Strip_Nil [simp]: "StripTrailingSeparators [] = []"
  by (simp add: StripTrailingSeparators_def)

lemma Strip_root [simp]: "StripTrailingSeparators ''/'' = ''/''"
  using Strip_seps [of 1] by simp

lemma Strip_double_root [simp]: "StripTrailingSeparators ''//'' = ''//''"
  using Strip_seps [of 2] by (simp add: numeral_2_eq_2)

text \<open>Every path is either all separators or a front part followed by separators.\<close>

lemma path_cases:
  obtains (seps) n where "path = replicate n (CHR ''/'')"
    | (front) p k where "p \<noteq> []" "last p \<noteq> CHR ''/''" "path = p @ replicate k (CHR ''/'')"
proof (cases "\<exists>n. path = replicate n (CHR ''/'')")
  case True thus ?thesis using seps by blast
next
  case False
  have "(\<exists>n. path = replicate n (CHR ''/'')) \<or>
        (\<exists>p k. p \<noteq> [] \<and> last p \<noteq> CHR ''/'' \<and> path = p @ replicate k (CHR ''/''))"
  proof (induction path rule: rev_induct)
    case Nil show ?case by (intro disjI1 exI [of _ 0]) simp
  next
    case (snoc c s)
    show ?case
    proof (cases "c = CHR ''/''")
      case c: True
      from snoc show ?thesis
      proof (elim disjE exE conjE)
        fix n assume "s = replicate n (CHR ''/'')"
        hence "s @ [c] = replicate (Suc n) (CHR ''/'')" by (simp add: c replicate_append_same)
        thus ?thesis by blast
      next
        fix p k assume p: "p \<noteq> []" "last p \<noteq> CHR ''/''" "s = p @ replicate k (CHR ''/'')"
        hence "s @ [c] = p @ replicate (Suc k) (CHR ''/'')" by (simp add: c replicate_append_same)
        thus ?thesis using p by blast
      qed
    next
      case False
      hence "s @ [c] \<noteq> [] \<and> last (s @ [c]) \<noteq> CHR ''/'' \<and> s @ [c] = (s @ [c]) @ replicate 0 (CHR ''/'')"
        by simp
      thus ?thesis by blast
    qed
  qed
  thus ?thesis using False front by blast
qed

lemma Strip_idem: "StripTrailingSeparators (StripTrailingSeparators path) = StripTrailingSeparators path"
proof (cases path rule: path_cases)
  case (seps n) thus ?thesis by (auto simp: Strip_seps min_def)
next
  case (front p k) thus ?thesis by (simp add: Strip_front Strip_plain)
qed

lemma length_Strip: "length (StripTrailingSeparators path) \<le> length path"
proof (cases path rule: path_cases)
  case (seps n) thus ?thesis by (auto simp: Strip_seps)
next
  case (front p k) thus ?thesis by (simp add: Strip_front)
qed

subsection \<open>What the parent and the last component are\<close>

lemma find_last_separator_none: "find_last_separator s = None \<longleftrightarrow> CHR ''/'' \<notin> set s"
  by (induction s) (auto simp: IsSeparator_def split: option.splits)

lemma find_last_separator_app:
  "CHR ''/'' \<notin> set x \<Longrightarrow> find_last_separator (s @ CHR ''/'' # x) = Some (length s)"
  by (induction s)
     (auto simp: IsSeparator_def find_last_separator_none [THEN iffD2] split: option.splits)

text \<open>A component is a non-empty name without a separator; \<open>'.'\<close> and \<open>'..'\<close> are components
  like any other, since the code never resolves them.\<close>

definition component :: "string \<Rightarrow> bool" where
  "component x \<longleftrightarrow> x \<noteq> [] \<and> CHR ''/'' \<notin> set x"

lemma component_last: "component x \<Longrightarrow> x \<noteq> [] \<and> last x \<noteq> CHR ''/''"
  unfolding component_def using last_in_set by metis

lemma Strip_component: "component x \<Longrightarrow> StripTrailingSeparators (s @ x) = s @ x"
  using component_last [of x] by (intro Strip_plain) auto

lemma DirName_single: "component x \<Longrightarrow> DirName x = ''.''"
  using Strip_component [of x "[]"]
  by (simp add: DirName_def component_def find_last_separator_none [THEN iffD2] kCurrentDirectory_def)

lemma DirName_root_child: "component x \<Longrightarrow> DirName (''/'' @ x) = ''/''"
  using find_last_separator_app [of x "[]"] Strip_component [of x "''/''"]
  by (simp add: DirName_def component_def)

lemma DirName_child:
  assumes "s \<noteq> []" "last s \<noteq> CHR ''/''" "component x"
  shows "DirName (s @ ''/'' @ x) = s"
proof -
  have "s ! 0 \<noteq> CHR ''/'' \<or> length s \<noteq> 1" using assms(1,2) by (cases s) auto
  moreover have "StripTrailingSeparators (s @ ''/'' @ x) = s @ ''/'' @ x"
    using Strip_component [OF assms(3), of "s @ ''/''"] by simp
  moreover have "find_last_separator (s @ ''/'' @ x) = Some (length s)"
    using find_last_separator_app [of x s] assms(3) by (simp add: component_def)
  ultimately show ?thesis using assms
    by (auto simp: DirName_def IsSeparator_def nth_append Strip_plain)
qed

lemma DirName_double_root_child: "component x \<Longrightarrow> DirName (''//'' @ x) = ''//''"
  using find_last_separator_app [of x "''/''"] Strip_component [of x "''//''"]
  by (simp add: DirName_def component_def IsSeparator_def numeral_2_eq_2)

lemma DirName_root [simp]: "DirName ''/'' = ''/''" by code_simp
lemma DirName_double_root [simp]: "DirName ''//'' = ''//''" by code_simp
lemma DirName_current [simp]: "DirName ''.'' = ''.''" by code_simp
lemma DirName_empty [simp]: "DirName [] = ''.''" by code_simp

text \<open>Going to the parent ends: the weight falls until \<open>DirName\<close> no longer changes the path.\<close>

definition path_weight :: "string \<Rightarrow> nat" where
  "path_weight p = (if p = [] then 2 else if p = kCurrentDirectory then 0 else length p + 1)"

lemma split_last_component:
  assumes "p \<noteq> []" "last p \<noteq> CHR ''/''"
  obtains (single) "component p" | (child) s x where "component x" "p = s @ ''/'' @ x"
proof (cases "CHR ''/'' \<in> set p")
  case True
  then obtain s x where "p = s @ CHR ''/'' # x" "CHR ''/'' \<notin> set x" by (metis split_list_last)
  moreover have "x \<noteq> []" using calculation assms by auto
  ultimately show ?thesis using child [of x s] by (simp add: component_def)
next
  case False thus ?thesis using single assms by (simp add: component_def)
qed

lemma DirName_Strip: "DirName (StripTrailingSeparators p) = DirName p"
  by (simp add: DirName_def Strip_idem)

lemma length_DirName_less:
  assumes "p \<noteq> []" "last p \<noteq> CHR ''/''" "\<not> component p"
  shows "length (DirName p) < length p"
  using assms(1,2)
proof (cases p rule: split_last_component)
  case (child s x)
  hence sep: "find_last_separator p = Some (length s)"
    using find_last_separator_app [of x s] by (simp add: component_def)
  have x: "x \<noteq> []" using child by (simp add: component_def)
  have strip: "StripTrailingSeparators p = p" using assms by (simp add: Strip_plain)
  let ?q = "if length s = 0 then take 1 p
            else if length s = 1 \<and> IsSeparator (p ! 0) then take 2 p else take (length s) p"
  have "length ?q < length p" "?q \<noteq> []" using child x by (auto simp: neq_Nil_conv)
  moreover have "length (StripTrailingSeparators ?q) \<le> length ?q" by (rule length_Strip)
  moreover have "length p \<ge> 2" using child x by (cases x) auto
  moreover have "DirName p = (if length (StripTrailingSeparators ?q) = 0 then ''.'' else StripTrailingSeparators ?q)"
    by (simp add: DirName_def strip sep kCurrentDirectory_def Let_def)
  ultimately show ?thesis by auto
qed (use assms in simp)

lemma DirName_weight: "DirName p \<noteq> p \<Longrightarrow> path_weight (DirName p) < path_weight p \<or> p = []"
proof (cases p rule: path_cases)
  case (seps n)
  assume "DirName p \<noteq> p"
  hence "n \<noteq> 0 \<longrightarrow> n \<ge> 3" using seps
    by (metis DirName_double_root DirName_root One_nat_def Suc_1 less_2_cases linorder_not_less not_less_eq_eq numeral_3_eq_3 replicate_0 replicate_Suc le_antisym)
  moreover have "DirName p = ''/''" if "n \<ge> 3"
    using DirName_Strip [of p] that by (simp add: seps Strip_seps min_def)
  ultimately show ?thesis using seps by (auto simp: path_weight_def kCurrentDirectory_def)
next
  case (front s k)
  assume ne: "DirName p \<noteq> p"
  have Ds: "DirName p = DirName s" using DirName_Strip [of p] front by (simp add: Strip_front)
  show ?thesis
  proof (cases "component s")
    case True
    hence "DirName p = ''.''" using Ds DirName_single by simp
    thus ?thesis using ne front by (auto simp: path_weight_def kCurrentDirectory_def)
  next
    case False
    have "length (DirName p) < length p" using length_DirName_less [of s] front Ds False by simp
    moreover have "s \<noteq> ''.''" "length s \<ge> 2" using False front
      by (auto simp: component_def) (cases s; cases "tl s"; auto)
    ultimately have "length (DirName p) < length p" "s \<noteq> ''.''" "length s \<ge> 2" by simp_all
    moreover have "p \<noteq> ''.''" using calculation(3) front by (cases s; cases "tl s"; auto)
    ultimately show ?thesis using front by (simp add: path_weight_def kCurrentDirectory_def)
  qed
qed

subsection \<open>Components of a path\<close>

text \<open>The loop of \<open>GetComponents\<close>; the result is collected back to front, as in the code.\<close>

function components_loop :: "string \<Rightarrow> string list \<Rightarrow> string \<times> string list" where
  "components_loop current ret_val =
    (if current \<noteq> DirName current
     then components_loop (DirName current)
            (if \<not> AreAllSeparators (BaseName current) then ret_val @ [BaseName current] else ret_val)
     else (current, ret_val))"
  by pat_completeness auto

text \<open>\<open>DirName\<close> of the empty path is \<open>'.'\<close>, which has less weight than the empty path.\<close>

lemma DirName_decreases: "p \<noteq> DirName p \<Longrightarrow> path_weight (DirName p) < path_weight p"
  using DirName_weight [of p] by (cases "p = []") (auto simp: path_weight_def kCurrentDirectory_def)

termination components_loop
  by (relation "measure (\<lambda>(c, r). path_weight c)") (auto intro: DirName_decreases)

declare components_loop.simps [simp del]

definition GetComponents :: "string \<Rightarrow> string list" where
  "GetComponents path =
    (if path = [] then []
     else let (current, ret_val) = components_loop path [];
              base = BaseName current
          in rev (if base \<noteq> [] \<and> base \<noteq> kCurrentDirectory then ret_val @ [base] else ret_val))"

text \<open>\<open>AppendRelativePath\<close> with its output path, \<open>None\<close> where it returns \<open>false\<close>.\<close>

definition AppendRelativePath :: "string \<Rightarrow> string \<Rightarrow> string \<Rightarrow> string option" where
  "AppendRelativePath parent child path =
    (let parent_components = GetComponents parent; child_components = GetComponents child
     in if parent_components = [] \<or> length parent_components \<ge> length child_components then None
        else if take (length parent_components) child_components \<noteq> parent_components then None
        else Some (foldl Append path (drop (length parent_components) child_components)))"

definition IsParent :: "string \<Rightarrow> string \<Rightarrow> bool" where
  "IsParent parent child = (AppendRelativePath parent child [] \<noteq> None)"

definition ReferencesParent :: "string \<Rightarrow> bool" where
  "ReferencesParent path = list_ex (\<lambda>c. c = kParentDirectory) (GetComponents path)"

subsection \<open>Absolute paths by components\<close>

text \<open>The absolute path with the given components, the view in which the walk upwards is taking
  the front of a list.\<close>

definition abs_path :: "string list \<Rightarrow> string" where
  "abs_path cs = (if cs = [] then ''/'' else concat (map (\<lambda>c. CHR ''/'' # c) cs))"

definition components_ok :: "string list \<Rightarrow> bool" where
  "components_ok cs = list_all component cs"

lemma component_code [code]: "component x = (x \<noteq> [] \<and> list_all (\<lambda>c. c \<noteq> CHR ''/'') x)"
  by (auto simp: component_def list_all_iff)

lemma components_ok_snoc: "components_ok (cs @ [x]) \<longleftrightarrow> components_ok cs \<and> component x"
  by (simp add: components_ok_def)

lemma components_ok_take: "components_ok cs \<Longrightarrow> components_ok (take n cs)"
  by (simp add: components_ok_def list_all_iff) (meson in_set_takeD)

lemma abs_path_ne [simp]: "abs_path cs \<noteq> []" "abs_path cs \<noteq> ''.''"
  by (cases cs; auto simp: abs_path_def)+

lemma abs_path_snoc: "cs \<noteq> [] \<Longrightarrow> abs_path (cs @ [x]) = abs_path cs @ ''/'' @ x"
  by (simp add: abs_path_def)

lemma abs_path_last: "components_ok cs \<Longrightarrow> cs \<noteq> [] \<Longrightarrow> last (abs_path cs) \<noteq> CHR ''/''"
  by (cases cs rule: rev_cases) (auto simp: abs_path_def components_ok_snoc dest: component_last)

lemma Strip_abs_path: "components_ok cs \<Longrightarrow> StripTrailingSeparators (abs_path cs) = abs_path cs"
  using abs_path_last [of cs] by (cases "cs = []") (auto simp: Strip_plain, simp add: abs_path_def)

lemma DirName_abs_path:
  assumes "components_ok (cs @ [x])"
  shows "DirName (abs_path (cs @ [x])) = abs_path cs"
proof (cases "cs = []")
  case True thus ?thesis
    using assms DirName_root_child [of x] by (simp add: abs_path_def components_ok_def)
next
  case False
  have "components_ok cs" "component x" using assms by (simp_all add: components_ok_snoc)
  thus ?thesis using DirName_child [of "abs_path cs" x] abs_path_last False
    by (simp add: abs_path_snoc)
qed

lemma DirName_abs_root: "DirName (abs_path []) = abs_path []"
  by (simp add: abs_path_def)

lemma BaseName_abs_path:
  assumes "components_ok (cs @ [x])"
  shows "BaseName (abs_path (cs @ [x])) = x"
proof -
  have ok: "component x" using assms by (simp add: components_ok_snoc)
  obtain s where s: "abs_path (cs @ [x]) = s @ CHR ''/'' # x"
    by (cases "cs = []") (auto simp: abs_path_def)
  have "find_last_separator (s @ CHR ''/'' # x) = Some (length s)"
    using ok find_last_separator_app [of x s] by (simp add: component_def)
  thus ?thesis using Strip_abs_path [OF assms] s ok
    by (simp add: BaseName_def component_def)
qed

lemma BaseName_abs_root: "BaseName (abs_path []) = ''/''"
  by code_simp

lemma abs_path_Cons_eq:
  "CHR ''/'' \<notin> set x \<Longrightarrow> CHR ''/'' \<notin> set y \<Longrightarrow>
   x @ concat (map (\<lambda>c. CHR ''/'' # c) cs) = y @ concat (map (\<lambda>c. CHR ''/'' # c) ds) \<longleftrightarrow>
   x = y \<and> concat (map (\<lambda>c. CHR ''/'' # c) cs) = concat (map (\<lambda>c. CHR ''/'' # c) ds)"
proof (induction x arbitrary: y)
  case Nil
  thus ?case by (cases cs; cases ds; cases y) auto
next
  case (Cons a x)
  thus ?case by (cases y; cases ds) auto
qed

lemma abs_path_inj:
  assumes "components_ok cs" "components_ok ds" "abs_path cs = abs_path ds"
  shows "cs = ds"
proof -
  have "concat (map (\<lambda>c. CHR ''/'' # c) cs) = concat (map (\<lambda>c. CHR ''/'' # c) ds) \<Longrightarrow> cs = ds"
    using assms(1,2)
  proof (induction cs arbitrary: ds)
    case Nil thus ?case by (cases ds) (auto simp: components_ok_def)
  next
    case (Cons c cs)
    obtain d ds' where ds: "ds = d # ds'" using Cons.prems(1) by (cases ds) auto
    have "CHR ''/'' \<notin> set c" "CHR ''/'' \<notin> set d"
      using Cons.prems ds by (simp_all add: components_ok_def component_def)
    from Cons.prems(1) ds abs_path_Cons_eq [OF this] Cons.IH [of ds'] Cons.prems(2,3)
    show ?case by (simp add: components_ok_def)
  qed
  moreover have "(cs = []) = (ds = [])"
    using assms by (cases cs; cases ds) (auto simp: abs_path_def components_ok_def component_def)
  ultimately show ?thesis using assms(3) by (auto simp: abs_path_def split: if_splits)
qed

lemma Append_abs_path:
  assumes "components_ok cs" "component x"
  shows "Append (abs_path cs) x = abs_path (cs @ [x])"
proof (cases "cs = []")
  case True
  have "StripTrailingSeparators ''/'' = ''/''" by simp
  thus ?thesis using True by (simp add: Append_def abs_path_def kCurrentDirectory_def IsSeparator_def Let_def)
next
  case False
  have "abs_path cs ! (length (abs_path cs) - 1) \<noteq> CHR ''/''"
    using abs_path_last [OF assms(1) False] by (simp add: last_conv_nth)
  thus ?thesis using assms False
    by (simp add: Append_def abs_path_snoc Strip_abs_path kCurrentDirectory_def IsSeparator_def component_def)
qed

lemma foldl_Append_abs_path:
  "components_ok cs \<Longrightarrow> components_ok ds \<Longrightarrow> foldl Append (abs_path cs) ds = abs_path (cs @ ds)"
proof (induction ds arbitrary: cs)
  case Nil thus ?case by simp
next
  case (Cons d ds)
  hence "components_ok (cs @ [d])" "component d" by (simp_all add: components_ok_def)
  thus ?case using Cons Append_abs_path [of cs d] by (simp add: components_ok_def)
qed

lemma components_loop_abs_path:
  "components_ok cs \<Longrightarrow> components_loop (abs_path cs) r = (''/'', r @ rev cs)"
proof (induction cs arbitrary: r rule: rev_induct)
  case Nil
  show ?case by (subst components_loop.simps) (simp add: abs_path_def)
next
  case (snoc x cs)
  have ok: "components_ok cs" "component x" using snoc.prems by (simp_all add: components_ok_snoc)
  have "\<not> AreAllSeparators x"
    using ok(2) by (cases x) (auto simp: component_def AreAllSeparators_def IsSeparator_def)
  moreover have "abs_path (cs @ [x]) \<noteq> abs_path cs"
    using abs_path_inj [OF snoc.prems ok(1)] by auto
  ultimately show ?case
    by (subst components_loop.simps)
       (simp add: DirName_abs_path [OF snoc.prems] BaseName_abs_path [OF snoc.prems] snoc.IH [OF ok(1)])
qed

lemma GetComponents_abs_path: "components_ok cs \<Longrightarrow> GetComponents (abs_path cs) = ''/'' # cs"
  using BaseName_abs_root [unfolded abs_path_def]
  by (simp add: GetComponents_def components_loop_abs_path kCurrentDirectory_def)

lemma AppendRelativePath_abs_path:
  assumes "components_ok cs" "components_ok ds"
  shows "AppendRelativePath (abs_path cs) (abs_path ds) path =
    (if length cs < length ds \<and> take (length cs) ds = cs
     then Some (foldl Append path (drop (length cs) ds)) else None)"
  by (simp add: AppendRelativePath_def GetComponents_abs_path assms Let_def)

lemma ReferencesParent_abs_path:
  "components_ok cs \<Longrightarrow> ReferencesParent (abs_path cs) \<longleftrightarrow> ''..'' \<in> set cs"
  by (auto simp: ReferencesParent_def GetComponents_abs_path kParentDirectory_def list_ex_iff)

subsection \<open>Properties\<close>

text \<open>Appending a component to an absolute path and taking the parent or the base name gives
  back the path and the component, so that repeated \<open>DirName\<close> visits exactly the ancestors.\<close>

theorem append_then_split:
  assumes "components_ok cs" "component x"
  shows "DirName (Append (abs_path cs) x) = abs_path cs \<and> BaseName (Append (abs_path cs) x) = x \<and>
    GetComponents (Append (abs_path cs) x) = GetComponents (abs_path cs) @ [x]"
proof -
  have "components_ok (cs @ [x])" using assms by (simp add: components_ok_snoc)
  thus ?thesis
    using Append_abs_path [OF assms] DirName_abs_path BaseName_abs_path GetComponents_abs_path assms(1)
    by simp
qed

theorem append_then_split_witness:
  "DirName (Append ''/usr'' ''lib'') = ''/usr'' \<and> BaseName (Append ''/usr'' ''lib'') = ''lib''"
proof -
  have "components_ok [''usr'']" "component ''lib''" by code_simp+
  from append_then_split [OF this] show ?thesis by (simp add: abs_path_def)
qed

text \<open>A path is the parent of another, in the sense of \<open>IsParent\<close>, exactly when its components
  are a proper front of the other's; then appending the rest of the components to it gives the
  other path.\<close>

theorem IsParent_proper_front:
  assumes "components_ok cs" "components_ok ds"
  shows "(IsParent (abs_path cs) (abs_path ds) \<longleftrightarrow> (\<exists>rest. rest \<noteq> [] \<and> ds = cs @ rest)) \<and>
    AppendRelativePath (abs_path cs) (abs_path ds) (abs_path cs) =
      (if \<exists>rest. rest \<noteq> [] \<and> ds = cs @ rest then Some (abs_path ds) else None)"
proof (rule conjI)
  have front: "length cs < length ds \<and> take (length cs) ds = cs \<longleftrightarrow> (\<exists>rest. rest \<noteq> [] \<and> ds = cs @ rest)"
  proof
    assume "length cs < length ds \<and> take (length cs) ds = cs"
    thus "\<exists>rest. rest \<noteq> [] \<and> ds = cs @ rest"
      by (intro exI [of _ "drop (length cs) ds"]) (metis append_take_drop_id drop_eq_Nil not_less)
  qed auto
  show "IsParent (abs_path cs) (abs_path ds) \<longleftrightarrow> (\<exists>rest. rest \<noteq> [] \<and> ds = cs @ rest)"
    unfolding IsParent_def AppendRelativePath_abs_path [OF assms] front by simp
  have "foldl Append (abs_path cs) (drop (length cs) ds) = abs_path ds"
    if "take (length cs) ds = cs"
    using foldl_Append_abs_path [of cs "drop (length cs) ds"] assms that
    by (metis append_take_drop_id components_ok_def list_all_append)
  thus "AppendRelativePath (abs_path cs) (abs_path ds) (abs_path cs) =
      (if \<exists>rest. rest \<noteq> [] \<and> ds = cs @ rest then Some (abs_path ds) else None)"
    unfolding AppendRelativePath_abs_path [OF assms] front [symmetric] by auto
qed

theorem IsParent_proper_front_witness:
  "IsParent ''/usr'' ''/usr/lib/x'' \<and> \<not> IsParent ''/usr'' ''/usr''"
proof -
  have ok: "components_ok [''usr'']" "components_ok [''usr'', ''lib'', ''x'']" by code_simp+
  show ?thesis
    using IsParent_proper_front [OF ok] IsParent_proper_front [OF ok(1) ok(1)]
    by (simp add: abs_path_def)
qed

end
