(* ===== verification/SecurityPolicy.thy ===== *)
theory SecurityPolicy
  imports FilePaths AsciiText
begin

unbundle bit_operations_syntax

text \<open>
  \<open>ChildProcessSecurityPolicy\<close> (\<open>src/content/browser/child_process_security_policy.cc\<close>): the
  browser process asks it, for every request of a child process, whether that child may make it.
  The state holds one \<open>SecurityState\<close> for each child (schemes, files, bindings, raw cookies), the
  scheme registries and the map from a worker to its renderer.

  \<open>GURL\<close> is the URL library the repository fetches; it is the parameter \<open>url_lib\<close> of the
  definitions that look at a URL. Each public operation holds the lock for its whole effect except
  \<open>GrantRequestURL\<close> and \<open>CanRequestURL\<close>, whose parts are atomic; they run here without another
  call in between.
\<close>

subsection \<open>Constants\<close>

definition PLATFORM_FILE_OPEN :: "32 word" where "PLATFORM_FILE_OPEN = 1"
definition PLATFORM_FILE_READ :: "32 word" where "PLATFORM_FILE_READ = 16"
definition PLATFORM_FILE_EXCLUSIVE_READ :: "32 word" where "PLATFORM_FILE_EXCLUSIVE_READ = 64"
definition PLATFORM_FILE_ASYNC :: "32 word" where "PLATFORM_FILE_ASYNC = 256"
definition PLATFORM_FILE_ENUMERATE :: "32 word" where "PLATFORM_FILE_ENUMERATE = 16384"

definition kReadFilePermissions :: "32 word" where
  "kReadFilePermissions =
    PLATFORM_FILE_OPEN OR PLATFORM_FILE_READ OR PLATFORM_FILE_EXCLUSIVE_READ OR PLATFORM_FILE_ASYNC"

definition kEnumerateDirectoryPermissions :: "32 word" where
  "kEnumerateDirectoryPermissions = kReadFilePermissions OR PLATFORM_FILE_ENUMERATE"

definition WEB_UI :: "32 word" where "WEB_UI = 1"
definition EXTENSION :: "32 word" where "EXTENSION = push_bit 3 1"

definition is_web_ui_enabled :: "32 word \<Rightarrow> bool" where
  "is_web_ui_enabled flags = (flags AND WEB_UI \<noteq> 0)"

definition is_extension_enabled :: "32 word \<Rightarrow> bool" where
  "is_extension_enabled flags = (flags AND EXTENSION \<noteq> 0)"

definition kAboutBlankURL :: string where "kAboutBlankURL = ''about:blank''"

subsection \<open>URLs\<close>

text \<open>What the code reads of a \<open>GURL\<close>, and the constructor from a string.\<close>

record 'u url_lib =
  is_valid :: "'u \<Rightarrow> bool"
  url_scheme :: "'u \<Rightarrow> string"
  SchemeIs :: "'u \<Rightarrow> string \<Rightarrow> bool"
  url_path :: "'u \<Rightarrow> string"
  url_spec :: "'u \<Rightarrow> string"
  parse_url :: "string \<Rightarrow> 'u"

text \<open>The request layer's table of protocols (\<open>src/net/url_request/url_request_job_manager.cc\<close>);
  \<open>factories\<close> are the schemes registered at run time.\<close>

definition kBuiltinFactories :: "string list" where
  "kBuiltinFactories = [''http'', ''https'', ''file'', ''ftp'', ''about'', ''data'']"

definition SupportsScheme :: "string set \<Rightarrow> string \<Rightarrow> bool" where
  "SupportsScheme factories s =
    (s \<in> factories \<or> list_ex (LowerCaseEqualsASCII s) kBuiltinFactories)"

definition IsHandledURL :: "'u url_lib \<Rightarrow> string set \<Rightarrow> 'u \<Rightarrow> bool" where
  "IsHandledURL L factories url =
    (if \<not> is_valid L url then True else SupportsScheme factories (url_scheme L url))"

subsection \<open>The state of one child\<close>

record SecurityState =
  scheme_policy :: "string \<rightharpoonup> bool"
  file_permissions :: "string \<rightharpoonup> 32 word"
  enabled_bindings :: "32 word"
  can_read_raw_cookies :: bool

definition new_SecurityState :: SecurityState where
  "new_SecurityState = \<lparr> scheme_policy = Map.empty, file_permissions = Map.empty,
     enabled_bindings = 0, can_read_raw_cookies = False \<rparr>"

definition state_GrantScheme :: "string \<Rightarrow> SecurityState \<Rightarrow> SecurityState" where
  "state_GrantScheme s st = st \<lparr> scheme_policy := (scheme_policy st)(s \<mapsto> True) \<rparr>"

definition state_RevokeScheme :: "string \<Rightarrow> SecurityState \<Rightarrow> SecurityState" where
  "state_RevokeScheme s st = st \<lparr> scheme_policy := (scheme_policy st)(s \<mapsto> False) \<rparr>"

text \<open>\<open>map::operator[]\<close> makes a missing entry \<open>0\<close> before the \<open>|=\<close>.\<close>

definition state_GrantPermissionsForFile ::
  "string \<Rightarrow> 32 word \<Rightarrow> SecurityState \<Rightarrow> SecurityState" where
  "state_GrantPermissionsForFile file permissions st =
    (let key = StripTrailingSeparators file;
         old = (case file_permissions st key of None \<Rightarrow> 0 | Some v \<Rightarrow> v)
     in st \<lparr> file_permissions := (file_permissions st)(key \<mapsto> old OR permissions) \<rparr>)"

definition state_RevokeAllPermissionsForFile :: "string \<Rightarrow> SecurityState \<Rightarrow> SecurityState" where
  "state_RevokeAllPermissionsForFile file st =
    st \<lparr> file_permissions := (file_permissions st)(StripTrailingSeparators file := None) \<rparr>"

definition state_GrantBindings :: "32 word \<Rightarrow> SecurityState \<Rightarrow> SecurityState" where
  "state_GrantBindings bindings st = st \<lparr> enabled_bindings := enabled_bindings st OR bindings \<rparr>"

definition state_GrantReadRawCookies :: "SecurityState \<Rightarrow> SecurityState" where
  "state_GrantReadRawCookies st = st \<lparr> can_read_raw_cookies := True \<rparr>"

definition state_RevokeReadRawCookies :: "SecurityState \<Rightarrow> SecurityState" where
  "state_RevokeReadRawCookies st = st \<lparr> can_read_raw_cookies := False \<rparr>"

definition state_CanRequestURL :: "'u url_lib \<Rightarrow> 'u \<Rightarrow> SecurityState \<Rightarrow> bool" where
  "state_CanRequestURL L url st =
    (case scheme_policy st (url_scheme L url) of None \<Rightarrow> False | Some judgment \<Rightarrow> judgment)"

text \<open>The walk of \<open>HasPermissionsForFile\<close> from the path upwards; the first entry found decides.\<close>

function permission_walk :: "(string \<rightharpoonup> 32 word) \<Rightarrow> 32 word \<Rightarrow> string \<Rightarrow> string \<Rightarrow> bool" where
  "permission_walk files permissions current_path last_path =
    (if current_path \<noteq> last_path then
       case files current_path of
         Some v \<Rightarrow> v AND permissions = permissions
       | None \<Rightarrow> permission_walk files permissions (DirName current_path) current_path
     else False)"
  by pat_completeness auto

termination
proof (relation "measure (\<lambda>(f, p, c, l). if c = l then 0 else Suc (path_weight c))")
  fix files :: "string \<rightharpoonup> 32 word" and permissions :: "32 word" and c l :: string
  assume "c \<noteq> l"
  thus "((files, permissions, DirName c, c), files, permissions, c, l)
        \<in> measure (\<lambda>(f, p, c, l). if c = l then 0 else Suc (path_weight c))"
    using DirName_decreases [of c] by auto
qed simp

declare permission_walk.simps [simp del]

definition state_HasPermissionsForFile :: "string \<Rightarrow> 32 word \<Rightarrow> SecurityState \<Rightarrow> bool" where
  "state_HasPermissionsForFile file permissions st =
    permission_walk (file_permissions st) permissions (StripTrailingSeparators file) []"

subsection \<open>The policy\<close>

record policy =
  web_safe_schemes :: "string set"
  pseudo_schemes :: "string set"
  disabled_schemes :: "string set"
  security_state :: "int \<rightharpoonup> SecurityState"
  worker_map :: "int \<rightharpoonup> int"

definition RegisterWebSafeScheme :: "string \<Rightarrow> policy \<Rightarrow> policy" where
  "RegisterWebSafeScheme s P = P \<lparr> web_safe_schemes := insert s (web_safe_schemes P) \<rparr>"

definition IsWebSafeScheme :: "string \<Rightarrow> policy \<Rightarrow> bool" where
  "IsWebSafeScheme s P = (s \<in> web_safe_schemes P)"

definition RegisterPseudoScheme :: "string \<Rightarrow> policy \<Rightarrow> policy" where
  "RegisterPseudoScheme s P = P \<lparr> pseudo_schemes := insert s (pseudo_schemes P) \<rparr>"

definition IsPseudoScheme :: "string \<Rightarrow> policy \<Rightarrow> bool" where
  "IsPseudoScheme s P = (s \<in> pseudo_schemes P)"

definition RegisterDisabledSchemes :: "string set \<Rightarrow> policy \<Rightarrow> policy" where
  "RegisterDisabledSchemes S P = P \<lparr> disabled_schemes := S \<rparr>"

definition IsDisabledScheme :: "string \<Rightarrow> policy \<Rightarrow> bool" where
  "IsDisabledScheme s P = (s \<in> disabled_schemes P)"

definition new_policy :: policy where
  "new_policy =
    (let P0 = \<lparr> web_safe_schemes = {}, pseudo_schemes = {}, disabled_schemes = {},
                security_state = Map.empty, worker_map = Map.empty \<rparr>;
         P1 = fold RegisterWebSafeScheme
                [''http'', ''https'', ''ftp'', ''data'', ''feed'', ''chrome-extension'', ''blob'',
                 ''filesystem''] P0
     in fold RegisterPseudoScheme [''about'', ''javascript'', kViewSourceScheme] P1)"

definition AddChild :: "int \<Rightarrow> policy \<Rightarrow> policy" where
  "AddChild child_id P =
    (if security_state P child_id \<noteq> None then P
     else P \<lparr> security_state := (security_state P)(child_id \<mapsto> new_SecurityState) \<rparr>)"

definition Add :: "int \<Rightarrow> policy \<Rightarrow> policy" where
  "Add child_id P = AddChild child_id P"

definition AddWorker :: "int \<Rightarrow> int \<Rightarrow> policy \<Rightarrow> policy" where
  "AddWorker child_id main_render_process_id P =
    (let P = AddChild child_id P
     in P \<lparr> worker_map := (worker_map P)(child_id \<mapsto> main_render_process_id) \<rparr>)"

definition Remove :: "int \<Rightarrow> policy \<Rightarrow> policy" where
  "Remove child_id P =
    (if security_state P child_id = None then P
     else P \<lparr> security_state := (security_state P)(child_id := None),
              worker_map := (worker_map P)(child_id := None) \<rparr>)"

text \<open>The prologue the grants share: a child that is not there changes nothing.\<close>

definition with_child :: "int \<Rightarrow> (SecurityState \<Rightarrow> SecurityState) \<Rightarrow> policy \<Rightarrow> policy" where
  "with_child child_id f P =
    (case security_state P child_id of
       None \<Rightarrow> P
     | Some st \<Rightarrow> P \<lparr> security_state := (security_state P)(child_id \<mapsto> f st) \<rparr>)"

definition GrantPermissionsForFile :: "int \<Rightarrow> string \<Rightarrow> 32 word \<Rightarrow> policy \<Rightarrow> policy" where
  "GrantPermissionsForFile child_id file permissions =
    with_child child_id (state_GrantPermissionsForFile file permissions)"

definition GrantReadFile :: "int \<Rightarrow> string \<Rightarrow> policy \<Rightarrow> policy" where
  "GrantReadFile child_id file = GrantPermissionsForFile child_id file kReadFilePermissions"

definition GrantReadDirectory :: "int \<Rightarrow> string \<Rightarrow> policy \<Rightarrow> policy" where
  "GrantReadDirectory child_id directory =
    GrantPermissionsForFile child_id directory kEnumerateDirectoryPermissions"

definition RevokeAllPermissionsForFile :: "int \<Rightarrow> string \<Rightarrow> policy \<Rightarrow> policy" where
  "RevokeAllPermissionsForFile child_id file =
    with_child child_id (state_RevokeAllPermissionsForFile file)"

definition GrantScheme :: "int \<Rightarrow> string \<Rightarrow> policy \<Rightarrow> policy" where
  "GrantScheme child_id s = with_child child_id (state_GrantScheme s)"

definition GrantWebUIBindings :: "int \<Rightarrow> policy \<Rightarrow> policy" where
  "GrantWebUIBindings child_id =
    with_child child_id
      (state_GrantScheme ''file'' \<circ> state_GrantScheme ''chrome'' \<circ> state_GrantBindings WEB_UI)"

definition GrantExtensionBindings :: "int \<Rightarrow> policy \<Rightarrow> policy" where
  "GrantExtensionBindings child_id = with_child child_id (state_GrantBindings EXTENSION)"

definition GrantReadRawCookies :: "int \<Rightarrow> policy \<Rightarrow> policy" where
  "GrantReadRawCookies child_id = with_child child_id state_GrantReadRawCookies"

definition RevokeReadRawCookies :: "int \<Rightarrow> policy \<Rightarrow> policy" where
  "RevokeReadRawCookies child_id = with_child child_id state_RevokeReadRawCookies"

text \<open>\<open>GrantRequestURL\<close> calls itself on the embedded URL of a view-source URL, without a bound of
  its own: \<open>None\<close> where the recursion does not end.\<close>

partial_function (option) GrantRequestURL ::
  "'u url_lib \<Rightarrow> int \<Rightarrow> 'u \<Rightarrow> policy \<Rightarrow> policy option" where
  "GrantRequestURL L child_id url pol =
    (if \<not> is_valid L url then Some pol
     else if IsWebSafeScheme (url_scheme L url) pol then Some pol
     else if IsPseudoScheme (url_scheme L url) pol then
       (if SchemeIs L url kViewSourceScheme
        then GrantRequestURL L child_id (parse_url L (url_path L url)) pol
        else Some pol)
     else Some (with_child child_id (state_GrantScheme (url_scheme L url)) pol))"

function CanRequestURL ::
  "'u url_lib \<Rightarrow> string set \<Rightarrow> int \<Rightarrow> 'u \<Rightarrow> policy \<Rightarrow> bool" where
  "CanRequestURL L factories child_id url P =
    (if \<not> is_valid L url then False
     else if IsDisabledScheme (url_scheme L url) P then False
     else if IsWebSafeScheme (url_scheme L url) P then True
     else if IsPseudoScheme (url_scheme L url) P then
       (if SchemeIs L url kViewSourceScheme then
          let child_url = parse_url L (url_path L url)
          in if SchemeIs L child_url kViewSourceScheme \<and> SchemeIs L url kViewSourceScheme
             then False
             else CanRequestURL L factories child_id child_url P
        else if LowerCaseEqualsASCII (url_spec L url) kAboutBlankURL then True
        else False)
     else if \<not> IsHandledURL L factories url then True
     else case security_state P child_id of
            None \<Rightarrow> False
          | Some st \<Rightarrow> state_CanRequestURL L url st)"
  by pat_completeness auto

text \<open>The embedded URL of a view-source URL is looked at only when it is no view-source URL.\<close>

termination
  by (relation "measure (\<lambda>(L, f, c, url, P). if SchemeIs L url kViewSourceScheme then 1 else 0)") auto

declare CanRequestURL.simps [simp del]

definition ChildProcessHasPermissionsForFile :: "int \<Rightarrow> string \<Rightarrow> 32 word \<Rightarrow> policy \<Rightarrow> bool" where
  "ChildProcessHasPermissionsForFile child_id file permissions P =
    (case security_state P child_id of
       None \<Rightarrow> False
     | Some st \<Rightarrow> state_HasPermissionsForFile file permissions st)"

definition HasPermissionsForFile :: "int \<Rightarrow> string \<Rightarrow> 32 word \<Rightarrow> policy \<Rightarrow> bool" where
  "HasPermissionsForFile child_id file permissions P =
    (let result = ChildProcessHasPermissionsForFile child_id file permissions P
     in if \<not> result then
          case worker_map P child_id of
            Some main_id \<Rightarrow>
              if main_id \<noteq> 0 then ChildProcessHasPermissionsForFile main_id file permissions P
              else result
          | None \<Rightarrow> result
        else result)"

definition CanReadFile :: "int \<Rightarrow> string \<Rightarrow> policy \<Rightarrow> bool" where
  "CanReadFile child_id file P = HasPermissionsForFile child_id file kReadFilePermissions P"

definition CanReadDirectory :: "int \<Rightarrow> string \<Rightarrow> policy \<Rightarrow> bool" where
  "CanReadDirectory child_id directory P =
    HasPermissionsForFile child_id directory kEnumerateDirectoryPermissions P"

definition HasWebUIBindings :: "int \<Rightarrow> policy \<Rightarrow> bool" where
  "HasWebUIBindings child_id P =
    (case security_state P child_id of
       None \<Rightarrow> False | Some st \<Rightarrow> is_web_ui_enabled (enabled_bindings st))"

definition HasExtensionBindings :: "int \<Rightarrow> policy \<Rightarrow> bool" where
  "HasExtensionBindings child_id P =
    (case security_state P child_id of
       None \<Rightarrow> False | Some st \<Rightarrow> is_extension_enabled (enabled_bindings st))"

definition CanReadRawCookies :: "int \<Rightarrow> policy \<Rightarrow> bool" where
  "CanReadRawCookies child_id P =
    (case security_state P child_id of None \<Rightarrow> False | Some st \<Rightarrow> can_read_raw_cookies st)"

end
