(* ===== verification/SecuritySpec.thy ===== *)
theory SecuritySpec
  imports SecurityPolicy
begin

text \<open>
  What \<open>ChildProcessSecurityPolicy\<close> promises. The state after any sequence of calls is compared
  with a specification that only looks at the history of calls: a child holds what was granted to
  it since it was added, and nothing else. The walk over the file permissions is compared with the
  nearest ancestor that has an entry.
\<close>

subsection \<open>Calls and histories\<close>

datatype 'u policy_call =
    CallAdd int
  | CallAddWorker int int
  | CallRemove int
  | CallRegisterWebSafeScheme string
  | CallRegisterPseudoScheme string
  | CallRegisterDisabledSchemes "string set"
  | CallGrantRequestURL int 'u
  | CallGrantPermissionsForFile int string "32 word"
  | CallRevokeAllPermissionsForFile int string
  | CallGrantScheme int string
  | CallGrantWebUIBindings int
  | CallGrantExtensionBindings int
  | CallGrantReadRawCookies int
  | CallRevokeReadRawCookies int

fun policy_step :: "'u url_lib \<Rightarrow> 'u policy_call \<Rightarrow> policy \<Rightarrow> policy option" where
  "policy_step L (CallAdd c) P = Some (Add c P)"
| "policy_step L (CallAddWorker c m) P = Some (AddWorker c m P)"
| "policy_step L (CallRemove c) P = Some (Remove c P)"
| "policy_step L (CallRegisterWebSafeScheme s) P = Some (RegisterWebSafeScheme s P)"
| "policy_step L (CallRegisterPseudoScheme s) P = Some (RegisterPseudoScheme s P)"
| "policy_step L (CallRegisterDisabledSchemes S) P = Some (RegisterDisabledSchemes S P)"
| "policy_step L (CallGrantRequestURL c url) P = GrantRequestURL L c url P"
| "policy_step L (CallGrantPermissionsForFile c file p) P = Some (GrantPermissionsForFile c file p P)"
| "policy_step L (CallRevokeAllPermissionsForFile c file) P = Some (RevokeAllPermissionsForFile c file P)"
| "policy_step L (CallGrantScheme c s) P = Some (GrantScheme c s P)"
| "policy_step L (CallGrantWebUIBindings c) P = Some (GrantWebUIBindings c P)"
| "policy_step L (CallGrantExtensionBindings c) P = Some (GrantExtensionBindings c P)"
| "policy_step L (CallGrantReadRawCookies c) P = Some (GrantReadRawCookies c P)"
| "policy_step L (CallRevokeReadRawCookies c) P = Some (RevokeReadRawCookies c P)"

text \<open>A history lists the calls, the latest first.\<close>

fun policy_run :: "'u url_lib \<Rightarrow> 'u policy_call list \<Rightarrow> policy option" where
  "policy_run L [] = Some new_policy"
| "policy_run L (call # history) = (case policy_run L history of
      None \<Rightarrow> None | Some P \<Rightarrow> policy_step L call P)"

text \<open>The calls since the child was added, \<open>None\<close> when it is not there.\<close>

fun lifetime :: "int \<Rightarrow> 'u policy_call list \<Rightarrow> 'u policy_call list option" where
  "lifetime c [] = None"
| "lifetime c (call # history) =
    (case lifetime c history of
       None \<Rightarrow> (case call of CallAdd d \<Rightarrow> if d = c then Some [] else None
                | CallAddWorker d m \<Rightarrow> if d = c then Some [] else None
                | _ \<Rightarrow> None)
     | Some calls \<Rightarrow> if call = CallRemove c then None else Some (call # calls))"

text \<open>What the calls of a lifetime grant the child.\<close>

fun files_granted :: "int \<Rightarrow> 'u policy_call list \<Rightarrow> string \<rightharpoonup> 32 word" where
  "files_granted c [] = Map.empty"
| "files_granted c (call # calls) =
    (let m = files_granted c calls
     in case call of
          CallGrantPermissionsForFile d file p \<Rightarrow>
            if d = c then m(StripTrailingSeparators file \<mapsto>
                             (case m (StripTrailingSeparators file) of None \<Rightarrow> 0 | Some v \<Rightarrow> v) OR p)
            else m
        | CallRevokeAllPermissionsForFile d file \<Rightarrow>
            if d = c then m(StripTrailingSeparators file := None) else m
        | _ \<Rightarrow> m)"

fun cookies_granted :: "int \<Rightarrow> 'u policy_call list \<Rightarrow> bool" where
  "cookies_granted c [] = False"
| "cookies_granted c (call # calls) =
    (if call = CallGrantReadRawCookies c then True
     else if call = CallRevokeReadRawCookies c then False
     else cookies_granted c calls)"

text \<open>The schemes a call may grant: the one it names, those of web UI, or the scheme of a URL
  inside the URL the child was told to request.\<close>

inductive embedded :: "'u url_lib \<Rightarrow> 'u \<Rightarrow> 'u \<Rightarrow> bool" for L where
  itself: "embedded L url url"
| inside: "SchemeIs L url kViewSourceScheme \<Longrightarrow> embedded L (parse_url L (url_path L url)) url' \<Longrightarrow>
    embedded L url url'"

fun grants_scheme :: "'u url_lib \<Rightarrow> int \<Rightarrow> string \<Rightarrow> 'u policy_call \<Rightarrow> bool" where
  "grants_scheme L c s (CallGrantScheme d s') = (d = c \<and> s' = s)"
| "grants_scheme L c s (CallGrantWebUIBindings d) = (d = c \<and> (s = ''chrome'' \<or> s = ''file''))"
| "grants_scheme L c s (CallGrantRequestURL d url) =
    (d = c \<and> (\<exists>url'. embedded L url url' \<and> url_scheme L url' = s))"
| "grants_scheme L c s _ = False"

subsection \<open>One grant\<close>

lemmas child_defs = GrantPermissionsForFile_def RevokeAllPermissionsForFile_def GrantScheme_def
  GrantWebUIBindings_def GrantExtensionBindings_def GrantReadRawCookies_def RevokeReadRawCookies_def

lemmas state_defs = state_GrantScheme_def state_GrantPermissionsForFile_def
  state_RevokeAllPermissionsForFile_def state_GrantBindings_def state_GrantReadRawCookies_def
  state_RevokeReadRawCookies_def Let_def

lemmas registry_defs = Add_def AddChild_def AddWorker_def Remove_def RegisterWebSafeScheme_def
  RegisterPseudoScheme_def RegisterDisabledSchemes_def Let_def

lemma with_child_state:
  "security_state (with_child c f P) d =
    (if d = c then map_option f (security_state P c) else security_state P d)"
  by (auto simp: with_child_def split: option.splits)

lemma with_child_rest [simp]:
  "worker_map (with_child c f P) = worker_map P"
  "web_safe_schemes (with_child c f P) = web_safe_schemes P"
  "pseudo_schemes (with_child c f P) = pseudo_schemes P"
  "disabled_schemes (with_child c f P) = disabled_schemes P"
  by (simp_all add: with_child_def split: option.splits)

text \<open>A call to \<open>GrantRequestURL\<close> that returns grants nothing or the scheme of an embedded URL.\<close>

lemma GrantRequestURL_effect:
  fixes L :: "'u url_lib"
  assumes "GrantRequestURL L c url P = Some P'"
  shows "P' = P \<or> (\<exists>url'. embedded L url url' \<and> P' = with_child c (state_GrantScheme (url_scheme L url')) P)"
proof (rule GrantRequestURL.raw_induct [where P = "\<lambda>L c url P P'. P' = P \<or>
    (\<exists>url'. embedded L url url' \<and> P' = with_child c (state_GrantScheme (url_scheme L url')) P)", OF _ assms])
  fix rec L c url P P'
  assume IH: "\<And>L c url P P'. rec L c url P = Some P' \<Longrightarrow> P' = P \<or>
      (\<exists>url'. embedded (L :: 'u url_lib) url url' \<and> P' = with_child c (state_GrantScheme (url_scheme L url')) P)"
    and eq: "(if \<not> is_valid L url then Some P
     else if IsWebSafeScheme (url_scheme L url) P then Some P
     else if IsPseudoScheme (url_scheme L url) P then
       (if SchemeIs L url kViewSourceScheme then rec L c (parse_url L (url_path L url)) P else Some P)
     else Some (with_child c (state_GrantScheme (url_scheme L url)) P)) = Some P'"
  show "P' = P \<or> (\<exists>url'. embedded L url url' \<and> P' = with_child c (state_GrantScheme (url_scheme L url')) P)"
  proof (cases "is_valid L url \<and> \<not> IsWebSafeScheme (url_scheme L url) P \<and>
                IsPseudoScheme (url_scheme L url) P \<and> SchemeIs L url kViewSourceScheme")
    case True
    hence "rec L c (parse_url L (url_path L url)) P = Some P'" using eq by (simp cong: if_cong)
    from IH [OF this] show ?thesis using True embedded.inside by metis
  next
    case False
    hence "P' = P \<or> P' = with_child c (state_GrantScheme (url_scheme L url)) P"
      using eq by (simp split: if_splits)
    moreover have "embedded L url url" by (rule embedded.itself)
    ultimately show ?thesis by metis
  qed
qed

subsection \<open>The state after a history\<close>

text \<open>What the state of a child says of the calls of its lifetime.\<close>

definition child_ok :: "'u url_lib \<Rightarrow> int \<Rightarrow> 'u policy_call list \<Rightarrow> SecurityState \<Rightarrow> bool" where
  "child_ok L c calls st \<longleftrightarrow>
     file_permissions st = files_granted c calls \<and>
     (is_web_ui_enabled (enabled_bindings st) \<longleftrightarrow> CallGrantWebUIBindings c \<in> set calls) \<and>
     (is_extension_enabled (enabled_bindings st) \<longleftrightarrow> CallGrantExtensionBindings c \<in> set calls) \<and>
     can_read_raw_cookies st = cookies_granted c calls \<and>
     (\<forall>s. scheme_policy st s \<noteq> Some False) \<and>
     (\<forall>s. scheme_policy st s = Some True \<longrightarrow> list_ex (grants_scheme L c s) calls) \<and>
     (\<forall>s. CallGrantScheme c s \<in> set calls \<longrightarrow> scheme_policy st s = Some True)"

definition history_ok :: "'u url_lib \<Rightarrow> 'u policy_call list \<Rightarrow> policy \<Rightarrow> bool" where
  "history_ok L history P \<longleftrightarrow>
     (\<forall>c. case lifetime c history of
            None \<Rightarrow> security_state P c = None \<and> worker_map P c = None
          | Some calls \<Rightarrow> \<exists>st. security_state P c = Some st \<and> child_ok L c calls st)"

lemma binding_bits:
  "is_web_ui_enabled (b OR WEB_UI)" "is_extension_enabled (b OR EXTENSION)"
  "is_web_ui_enabled (b OR EXTENSION) = is_web_ui_enabled b"
  "is_extension_enabled (b OR WEB_UI) = is_extension_enabled b"
proof -
  have w: "is_web_ui_enabled v \<longleftrightarrow> bit v 0" for v
    unfolding is_web_ui_enabled_def WEB_UI_def
    by (simp add: and_one_eq bit_0 odd_iff_mod_2_eq_one)
  have e: "is_extension_enabled v \<longleftrightarrow> bit v 3" for v
    unfolding is_extension_enabled_def EXTENSION_def push_bit_of_1 and_exp_eq_0_iff_not_bit by simp
  show "is_web_ui_enabled (b OR WEB_UI)" by (simp add: w bit_or_iff WEB_UI_def)
  show "is_extension_enabled (b OR EXTENSION)" by (simp add: e bit_or_iff EXTENSION_def bit_push_bit_iff)
  show "is_web_ui_enabled (b OR EXTENSION) = is_web_ui_enabled b"
    by (simp add: w bit_or_iff EXTENSION_def bit_push_bit_iff)
  show "is_extension_enabled (b OR WEB_UI) = is_extension_enabled b"
    by (simp add: e bit_or_iff WEB_UI_def bit_1_iff)
qed

lemma child_ok_new: "child_ok L c [] new_SecurityState"
  by (simp add: child_ok_def new_SecurityState_def is_web_ui_enabled_def is_extension_enabled_def)

text \<open>How a grant to a child moves its state along with the history.\<close>

lemma child_ok_GrantPermissionsForFile:
  "child_ok L c calls st \<Longrightarrow>
   child_ok L c (CallGrantPermissionsForFile c file p # calls) (state_GrantPermissionsForFile file p st)"
  by (simp add: child_ok_def state_defs)

lemma child_ok_RevokeAllPermissionsForFile:
  "child_ok L c calls st \<Longrightarrow>
   child_ok L c (CallRevokeAllPermissionsForFile c file # calls) (state_RevokeAllPermissionsForFile file st)"
  by (simp add: child_ok_def state_defs)

lemma child_ok_scheme:
  assumes "child_ok L c calls st" "grants_scheme L c s call"
    and "files_granted c (call # calls) = files_granted c calls"
    and "call \<noteq> CallGrantWebUIBindings c" "call \<noteq> CallGrantExtensionBindings c"
    and "cookies_granted c (call # calls) = cookies_granted c calls"
    and "\<And>s'. call = CallGrantScheme c s' \<Longrightarrow> s' = s"
  shows "child_ok L c (call # calls) (state_GrantScheme s st)"
  using assms unfolding child_ok_def state_defs by (auto simp del: files_granted.simps cookies_granted.simps)

lemma child_ok_web_ui:
  "child_ok L c calls st \<Longrightarrow>
   child_ok L c (CallGrantWebUIBindings c # calls)
     ((state_GrantScheme ''file'' \<circ> state_GrantScheme ''chrome'' \<circ> state_GrantBindings WEB_UI) st)"
  by (auto simp: child_ok_def state_defs binding_bits)

lemma child_ok_extension:
  "child_ok L c calls st \<Longrightarrow>
   child_ok L c (CallGrantExtensionBindings c # calls) (state_GrantBindings EXTENSION st)"
  by (auto simp: child_ok_def state_defs binding_bits)

lemma child_ok_cookies:
  "child_ok L c calls st \<Longrightarrow> child_ok L c (CallGrantReadRawCookies c # calls) (state_GrantReadRawCookies st)"
  "child_ok L c calls st \<Longrightarrow> child_ok L c (CallRevokeReadRawCookies c # calls) (state_RevokeReadRawCookies st)"
  by (auto simp: child_ok_def state_defs)

text \<open>The child a call grants to or revokes from.\<close>

fun call_child :: "'u policy_call \<Rightarrow> int option" where
  "call_child (CallGrantRequestURL c url) = Some c"
| "call_child (CallGrantPermissionsForFile c file p) = Some c"
| "call_child (CallRevokeAllPermissionsForFile c file) = Some c"
| "call_child (CallGrantScheme c s) = Some c"
| "call_child (CallGrantWebUIBindings c) = Some c"
| "call_child (CallGrantExtensionBindings c) = Some c"
| "call_child (CallGrantReadRawCookies c) = Some c"
| "call_child (CallRevokeReadRawCookies c) = Some c"
| "call_child _ = None"

lemma child_ok_other: "child_ok L c calls st \<Longrightarrow> call_child call \<noteq> Some c \<Longrightarrow> child_ok L c (call # calls) st"
  by (cases call) (auto simp: child_ok_def)

text \<open>A call that names a child changes only that child's state.\<close>

lemma policy_step_child:
  assumes "call_child call = Some c" "policy_step L call P = Some P'"
  shows "\<exists>f. P' = with_child c f P \<and>
    (\<forall>calls st. child_ok L c calls st \<longrightarrow> child_ok L c (call # calls) (f st))"
proof (cases call)
  case (CallGrantRequestURL d url)
  hence d: "d = c" "GrantRequestURL L c url P = Some P'" using assms by simp_all
  from GrantRequestURL_effect [OF d(2)] show ?thesis
  proof (elim disjE exE conjE)
    assume "P' = P"
    hence "P' = with_child c (\<lambda>st. st) P" by (auto simp: with_child_def map_upd_triv split: option.splits)
    moreover have "child_ok L c (call # calls) st" if "child_ok L c calls st" for calls st
      using that by (auto simp: child_ok_def CallGrantRequestURL)
    ultimately show ?thesis by (intro exI [of _ "\<lambda>st. st"]) simp
  next
    fix url' assume e: "embedded L url url'"
      and P': "P' = with_child c (state_GrantScheme (url_scheme L url')) P"
    have "child_ok L c (call # calls) (state_GrantScheme (url_scheme L url') st)"
      if "child_ok L c calls st" for calls st
      by (rule child_ok_scheme [OF that]) (use e in \<open>auto simp: CallGrantRequestURL d(1)\<close>)
    thus ?thesis using P' by blast
  qed
next
  case (CallGrantScheme d s)
  hence "d = c" "P' = with_child c (state_GrantScheme s) P"
    using assms by (simp_all add: GrantScheme_def)
  moreover have "child_ok L c (CallGrantScheme c s # calls) (state_GrantScheme s st)"
    if "child_ok L c calls st" for calls st
    by (rule child_ok_scheme [OF that]) simp_all
  ultimately show ?thesis using CallGrantScheme by blast
qed (use assms child_ok_GrantPermissionsForFile child_ok_RevokeAllPermissionsForFile child_ok_web_ui
      child_ok_extension child_ok_cookies in \<open>auto simp: child_defs intro!: exI\<close>)

lemma lifetime_child:
  "call_child call = Some d \<Longrightarrow> lifetime c (call # h) = map_option ((#) call) (lifetime c h)"
  by (cases call; cases "lifetime c h") auto

lemma lifetime_registry:
  "call_child call = None \<Longrightarrow> lifetime c (call # h) =
    (case lifetime c h of
       None \<Rightarrow> if (\<exists>m. call = CallAddWorker c m) \<or> call = CallAdd c then Some [] else None
     | Some calls \<Rightarrow> if call = CallRemove c then None else Some (call # calls))"
  by (cases call) (auto split: option.splits)

lemma registry_step:
  "call_child call = None \<Longrightarrow> policy_step L call P = Some P' \<Longrightarrow>
   security_state P' c =
     (case security_state P c of
        None \<Rightarrow> if (\<exists>m. call = CallAddWorker c m) \<or> call = CallAdd c then Some new_SecurityState else None
      | Some st \<Rightarrow> if call = CallRemove c then None else Some st) \<and>
   (call \<noteq> CallRemove c \<and> (\<forall>m. call \<noteq> CallAddWorker c m) \<longrightarrow> worker_map P' c = worker_map P c) \<and>
   (call = CallRemove c \<longrightarrow> security_state P c \<noteq> None \<longrightarrow> worker_map P' c = None) \<and>
   (call = CallRemove c \<longrightarrow> security_state P c = None \<longrightarrow> worker_map P' c = worker_map P c)"
  by (cases call) (auto simp: registry_defs split: option.splits)

lemma history_ok_step:
  assumes ok: "history_ok L h P" and step: "policy_step L call P = Some P'"
  shows "history_ok L (call # h) P'"
proof (cases "call_child call")
  case (Some d)
  obtain f where f: "P' = with_child d f P"
    "\<And>calls st. child_ok L d calls st \<Longrightarrow> child_ok L d (call # calls) (f st)"
    using policy_step_child [OF Some step] by blast
  show ?thesis unfolding history_ok_def
  proof (rule allI)
    fix c
    have c: "case lifetime c h of
            None \<Rightarrow> security_state P c = None \<and> worker_map P c = None
          | Some calls \<Rightarrow> \<exists>st. security_state P c = Some st \<and> child_ok L c calls st"
      using ok unfolding history_ok_def by blast
    show "case lifetime c (call # h) of
            None \<Rightarrow> security_state P' c = None \<and> worker_map P' c = None
          | Some calls \<Rightarrow> \<exists>st. security_state P' c = Some st \<and> child_ok L c calls st"
      using c f Some child_ok_other [of L c _ _ call]
      by (auto simp: lifetime_child [OF Some] with_child_state simp del: lifetime.simps split: option.splits)
  qed
next
  case None
  have inert: "child_ok L c (call # calls) st" if "child_ok L c calls st" for c calls st
    using that None child_ok_other [of L c calls st call] by simp
  have ok': "(\<And>calls. lifetime c h = Some calls \<Longrightarrow> \<exists>st. security_state P c = Some st \<and> child_ok L c calls st)"
    "(lifetime c h = None \<Longrightarrow> security_state P c = None \<and> worker_map P c = None)" for c
    using ok [unfolded history_ok_def, rule_format, of c] by simp_all
  show ?thesis unfolding history_ok_def
  proof (rule allI)
    fix c
    show "case lifetime c (call # h) of
            None \<Rightarrow> security_state P' c = None \<and> worker_map P' c = None
          | Some calls \<Rightarrow> \<exists>st. security_state P' c = Some st \<and> child_ok L c calls st"
    proof (cases "lifetime c h")
      case n: None
      note empty = ok'(2) [OF n]
      show ?thesis
      proof (cases "(\<exists>m. call = CallAddWorker c m) \<or> call = CallAdd c")
        case True
        thus ?thesis using empty registry_step [OF None step, of c] child_ok_new [of L c]
          by (simp add: lifetime_registry [OF None] n del: lifetime.simps)
      next
        case False
        thus ?thesis using empty registry_step [OF None step, of c]
          by (cases "call = CallRemove c")
             (simp add: n, simp add: lifetime_registry [OF None] n del: lifetime.simps)
      qed
    next
      case (Some calls)
      then obtain st where st: "security_state P c = Some st" "child_ok L c calls st"
        using ok'(1) by blast
      show ?thesis using registry_step [OF None step, of c] inert [OF st(2)]
        by (cases "call = CallRemove c")
           (simp add: Some st(1), simp add: lifetime_registry [OF None] Some st(1) del: lifetime.simps)
    qed
  qed
qed

lemma new_policy_children [simp]: "security_state new_policy = Map.empty" "worker_map new_policy = Map.empty"
  by (simp_all add: new_policy_def Let_def RegisterWebSafeScheme_def RegisterPseudoScheme_def)

lemma history_ok_run: "policy_run L h = Some P \<Longrightarrow> history_ok L h P"
proof (induction h arbitrary: P)
  case Nil thus ?case by (auto simp: history_ok_def)
next
  case (Cons call h)
  thus ?case using history_ok_step by (auto split: option.splits)
qed

lemma child_absent:
  "policy_run L h = Some P \<Longrightarrow> lifetime c h = None \<Longrightarrow> security_state P c = None \<and> worker_map P c = None"
  using history_ok_run [of L h P] unfolding history_ok_def by (auto dest: spec [of _ c])

lemma child_present:
  assumes "policy_run L h = Some P" "lifetime c h = Some calls"
  obtains st where "security_state P c = Some st" "child_ok L c calls st"
proof -
  from history_ok_run [OF assms(1)] have "case lifetime c h of
      None \<Rightarrow> security_state P c = None \<and> worker_map P c = None
    | Some calls \<Rightarrow> \<exists>st. security_state P c = Some st \<and> child_ok L c calls st"
    unfolding history_ok_def by blast
  thus ?thesis using assms(2) that by auto
qed

subsection \<open>The walk over the file permissions\<close>

text \<open>The entry of the nearest ancestor, the path itself first.\<close>

fun nearest_entry :: "(string \<rightharpoonup> 32 word) \<Rightarrow> string list \<Rightarrow> 32 word option" where
  "nearest_entry m cs =
    (case m (abs_path cs) of
       Some v \<Rightarrow> Some v
     | None \<Rightarrow> if cs = [] then None else nearest_entry m (butlast cs))"

declare nearest_entry.simps [simp del]

lemma permission_walk_abs_path:
  "components_ok cs \<Longrightarrow> abs_path cs \<noteq> last_path \<Longrightarrow>
   permission_walk m p (abs_path cs) last_path =
     (case nearest_entry m cs of None \<Rightarrow> False | Some v \<Rightarrow> v AND p = p)"
proof (induction cs arbitrary: last_path rule: rev_induct)
  case Nil
  thus ?case
    by (subst permission_walk.simps, subst nearest_entry.simps)
       (simp add: DirName_abs_root permission_walk.simps [of m p "abs_path []" "abs_path []"] split: option.splits)
next
  case (snoc x cs)
  hence ok: "components_ok cs" by (simp add: components_ok_snoc)
  have "abs_path cs \<noteq> abs_path (cs @ [x])"
    using abs_path_inj [OF ok snoc.prems(1)] by auto
  from snoc.IH [OF ok this] show ?case
    using snoc.prems(2)
    by (subst permission_walk.simps, subst nearest_entry.simps)
       (simp add: DirName_abs_path [OF snoc.prems(1)] split: option.splits)
qed

lemma state_HasPermissionsForFile_abs_path:
  "components_ok cs \<Longrightarrow> state_HasPermissionsForFile (abs_path cs) p st =
     (case nearest_entry (file_permissions st) cs of None \<Rightarrow> False | Some v \<Rightarrow> v AND p = p)"
  by (simp add: state_HasPermissionsForFile_def Strip_abs_path permission_walk_abs_path)



lemma and_or_self: "(a OR p) AND p = (p :: 32 word)"
  by (rule bit_word_eqI) (auto simp: bit_simps)

lemma read_within_enumerate: "kEnumerateDirectoryPermissions AND kReadFilePermissions = kReadFilePermissions"
  by (simp add: kEnumerateDirectoryPermissions_def and.commute and_or_self [of kReadFilePermissions, symmetric])

subsection \<open>Requests for URLs\<close>

lemma CanRequestURL_restricted:
  assumes "\<not> IsWebSafeScheme (url_scheme L url) P" "\<not> IsPseudoScheme (url_scheme L url) P"
    and "IsHandledURL L F url"
  shows "CanRequestURL L F c url P \<longleftrightarrow>
    is_valid L url \<and> \<not> IsDisabledScheme (url_scheme L url) P \<and>
    (\<exists>st. security_state P c = Some st \<and> scheme_policy st (url_scheme L url) = Some True)"
  using assms
  by (subst CanRequestURL.simps) (auto simp: state_CanRequestURL_def split: option.splits)

text \<open>Nesting a view-source URL in another makes it longer: the documented behaviour of the URL
  library on which the recursion of \<open>GrantRequestURL\<close> rests, since a view-source URL's text is the
  scheme, a colon and the text of the URL inside.\<close>

definition view_source_shrinks :: "'u url_lib \<Rightarrow> bool" where
  "view_source_shrinks L \<longleftrightarrow>
     (\<forall>u. SchemeIs L u kViewSourceScheme \<and> SchemeIs L (parse_url L (url_path L u)) kViewSourceScheme \<longrightarrow>
          length (url_spec L (parse_url L (url_path L u))) < length (url_spec L u))"

lemma GrantRequestURL_plain:
  "\<not> SchemeIs L url kViewSourceScheme \<Longrightarrow> \<exists>P'. GrantRequestURL L c url P = Some P'"
  by (subst GrantRequestURL.simps) simp

lemma GrantRequestURL_returns_aux:
  assumes "view_source_shrinks L"
  shows "\<exists>P'. GrantRequestURL L c url P = Some P'"
proof (induction "length (url_spec L url)" arbitrary: url rule: less_induct)
  case less
  let ?inner = "parse_url L (url_path L url)"
  have "\<exists>P'. GrantRequestURL L c ?inner P = Some P'" if "SchemeIs L url kViewSourceScheme"
  proof (cases "SchemeIs L ?inner kViewSourceScheme")
    case True
    hence "length (url_spec L ?inner) < length (url_spec L url)"
      using assms that unfolding view_source_shrinks_def by blast
    thus ?thesis by (rule less)
  next
    case False thus ?thesis by (rule GrantRequestURL_plain)
  qed
  thus ?case by (subst GrantRequestURL.simps) (simp cong: if_cong)
qed

text \<open>A small URL library for the witnesses: a URL is its text, the scheme what stands before the
  first colon.\<close>

definition text_urls :: "string url_lib" where
  "text_urls = \<lparr> is_valid = list_ex (\<lambda>c. c = CHR '':''),
     url_scheme = takeWhile (\<lambda>c. c \<noteq> CHR '':''),
     SchemeIs = (\<lambda>u s. takeWhile (\<lambda>c. c \<noteq> CHR '':'') u = s),
     url_path = (\<lambda>u. tl (dropWhile (\<lambda>c. c \<noteq> CHR '':'') u)),
     url_spec = (\<lambda>u. u), parse_url = (\<lambda>u. u) \<rparr>"

lemma text_urls_shrink: "view_source_shrinks text_urls"
proof -
  have "length (tl (dropWhile (\<lambda>c. c \<noteq> CHR '':'') u)) < length u" if "u \<noteq> []" for u :: string
  proof -
    have "length (dropWhile (\<lambda>c. c \<noteq> CHR '':'') u) \<le> length u" by (rule length_dropWhile_le)
    thus ?thesis using that by (cases u) (auto simp: less_Suc_eq_le)
  qed
  moreover have "u \<noteq> []" if "takeWhile (\<lambda>c. c \<noteq> CHR '':'') u = ''view-source''" for u
    using that by auto
  ultimately show ?thesis
    by (simp add: view_source_shrinks_def text_urls_def kViewSourceScheme_def del: length_tl)
qed

subsection \<open>Properties\<close>

text \<open>A concrete history for the witnesses: renderer 1 with a granted directory and web UI, worker
  2 of it, and renderer 3, which was removed and added again.\<close>

definition demo_history :: "string policy_call list" where
  "demo_history =
    [CallAdd 3, CallRemove 3, CallGrantScheme 3 ''chrome'', CallAdd 3, CallAddWorker 2 1,
     CallGrantWebUIBindings 1, CallGrantPermissionsForFile 1 ''/a/'' kEnumerateDirectoryPermissions,
     CallAdd 1]"

definition demo_policy :: policy where
  "demo_policy = the (policy_run text_urls demo_history)"

lemma demo_policy_run: "policy_run text_urls demo_history = Some demo_policy"
  by (simp add: demo_policy_def demo_history_def)

text \<open>C32. After any sequence of calls a child that is not there has no file, no binding and no
  cookies; a child that is there has exactly what the calls since it was added grant it: the
  bindings granted, the cookies by the latest grant or revocation, and the files by a walk over the
  union of the permissions granted to each path since its latest revocation.\<close>

theorem child_holds_what_was_granted:
  assumes "policy_run L h = Some P"
  shows "case lifetime c h of
      None \<Rightarrow> \<not> HasWebUIBindings c P \<and> \<not> HasExtensionBindings c P \<and> \<not> CanReadRawCookies c P \<and>
              (\<forall>file p. \<not> HasPermissionsForFile c file p P)
    | Some calls \<Rightarrow>
        HasWebUIBindings c P = (CallGrantWebUIBindings c \<in> set calls) \<and>
        HasExtensionBindings c P = (CallGrantExtensionBindings c \<in> set calls) \<and>
        CanReadRawCookies c P = cookies_granted c calls \<and>
        (\<forall>file p. ChildProcessHasPermissionsForFile c file p P =
           permission_walk (files_granted c calls) p (StripTrailingSeparators file) [])"
proof (cases "lifetime c h")
  case None
  hence "security_state P c = None" "worker_map P c = None" using child_absent [OF assms] by simp_all
  thus ?thesis
    by (simp add: None HasWebUIBindings_def HasExtensionBindings_def CanReadRawCookies_def
        HasPermissionsForFile_def ChildProcessHasPermissionsForFile_def)
next
  case (Some calls)
  then obtain st where "security_state P c = Some st" "child_ok L c calls st"
    by (rule child_present [OF assms])
  thus ?thesis
    by (simp add: Some HasWebUIBindings_def HasExtensionBindings_def CanReadRawCookies_def
        ChildProcessHasPermissionsForFile_def state_HasPermissionsForFile_def child_ok_def)
qed

theorem child_holds_what_was_granted_witness:
  "HasWebUIBindings 1 demo_policy \<and> \<not> HasWebUIBindings 3 demo_policy \<and>
   \<not> HasExtensionBindings 1 demo_policy"
  using child_holds_what_was_granted [OF demo_policy_run, of 1]
    child_holds_what_was_granted [OF demo_policy_run, of 3]
  by (simp add: demo_history_def)

text \<open>C33. A child can request a URL whose scheme is handled by the browser and neither web-safe nor
  a pseudo scheme only when the URL is valid, the scheme is not disabled by policy, and some call
  since the child was added granted that scheme; an explicit grant of the scheme since then is
  always enough. Nothing a removed child was granted survives its being added again.\<close>

theorem restricted_schemes_need_a_grant:
  assumes "policy_run L h = Some P" "IsHandledURL L F url"
    and "\<not> IsWebSafeScheme (url_scheme L url) P" "\<not> IsPseudoScheme (url_scheme L url) P"
  shows "(CanRequestURL L F c url P \<longrightarrow>
      is_valid L url \<and> \<not> IsDisabledScheme (url_scheme L url) P \<and>
      (\<exists>calls. lifetime c h = Some calls \<and> list_ex (grants_scheme L c (url_scheme L url)) calls)) \<and>
    (\<forall>calls. is_valid L url \<and> \<not> IsDisabledScheme (url_scheme L url) P \<and> lifetime c h = Some calls \<and>
      CallGrantScheme c (url_scheme L url) \<in> set calls \<longrightarrow> CanRequestURL L F c url P)"
proof (cases "lifetime c h")
  case None
  thus ?thesis using child_absent [OF assms(1) None] CanRequestURL_restricted [OF assms(3,4,2)] by simp
next
  case (Some calls)
  then obtain st where "security_state P c = Some st" "child_ok L c calls st"
    by (rule child_present [OF assms(1)])
  thus ?thesis using CanRequestURL_restricted [OF assms(3,4,2)] by (simp add: child_ok_def Some)
qed

theorem restricted_schemes_need_a_grant_witness:
  "CanRequestURL text_urls {} 1 ''file:x'' (GrantScheme 1 ''file'' demo_policy)"
proof -
  let ?h = "CallGrantScheme 1 ''file'' # demo_history"
  have run: "policy_run text_urls ?h = Some (GrantScheme 1 ''file'' demo_policy)"
    by (simp add: demo_policy_run)
  have facts: "IsHandledURL text_urls {} ''file:x''"
    "\<not> IsWebSafeScheme (url_scheme text_urls ''file:x'') (GrantScheme 1 ''file'' demo_policy)"
    "\<not> IsPseudoScheme (url_scheme text_urls ''file:x'') (GrantScheme 1 ''file'' demo_policy)"
    "\<not> IsDisabledScheme (url_scheme text_urls ''file:x'') (GrantScheme 1 ''file'' demo_policy)"
    "is_valid text_urls ''file:x''"
    by code_simp+
  have "lifetime 1 ?h = Some (CallGrantScheme 1 ''file'' # the (lifetime 1 demo_history))"
    by (simp add: demo_history_def)
  moreover have "url_scheme text_urls ''file:x'' = ''file''" by code_simp
  ultimately show ?thesis
    using restricted_schemes_need_a_grant [OF run facts(1-3), of 1] facts(4,5) by auto
qed

text \<open>C34. Whether a child has permissions for an absolute path is decided by the entry of the
  nearest ancestor that has one, the path itself first; without one the answer is no.\<close>

theorem nearest_ancestor_decides:
  assumes "components_ok cs"
  shows "ChildProcessHasPermissionsForFile c (abs_path cs) p P \<longleftrightarrow>
    (\<exists>st v. security_state P c = Some st \<and> nearest_entry (file_permissions st) cs = Some v \<and> v AND p = p)"
  by (simp add: ChildProcessHasPermissionsForFile_def state_HasPermissionsForFile_abs_path assms
      split: option.splits)

theorem nearest_ancestor_decides_witness:
  "components_ok [''a'', ''b''] \<and> ChildProcessHasPermissionsForFile 1 ''/a/b'' kReadFilePermissions demo_policy"
proof -
  have ok: "components_ok [''a'', ''b'']" by code_simp
  have path: "abs_path [''a'', ''b''] = ''/a/b''" by (simp add: abs_path_def)
  have m: "security_state demo_policy 1 \<noteq> None \<and>
      nearest_entry (file_permissions (the (security_state demo_policy 1))) [''a'', ''b''] = Some kEnumerateDirectoryPermissions"
    by code_simp
  then obtain st where "security_state demo_policy 1 = Some st"
    "nearest_entry (file_permissions st) [''a'', ''b''] = Some kEnumerateDirectoryPermissions" by auto
  thus ?thesis
    using nearest_ancestor_decides [OF ok, of 1 kReadFilePermissions demo_policy] ok path read_within_enumerate
    by auto
qed



text \<open>A grant can take a right away: in a directory whose listing was granted, granting the
  reading of a child directory alone makes the nearer entry decide, so that the listing of the
  child, allowed before, is refused.\<close>

theorem read_grant_hides_directory_grant:
  assumes "security_state P c = Some new_SecurityState" "worker_map P c = None" "components_ok (cs @ [x])"
  shows "CanReadDirectory c (abs_path (cs @ [x])) (GrantReadDirectory c (abs_path cs) P) \<and>
         \<not> CanReadDirectory c (abs_path (cs @ [x]))
           (GrantReadFile c (abs_path (cs @ [x])) (GrantReadDirectory c (abs_path cs) P))"
proof -
  have ok: "components_ok cs" using assms(3) by (simp add: components_ok_snoc)
  have ne: "abs_path (cs @ [x]) \<noteq> abs_path cs" using abs_path_inj [OF assms(3) ok] by auto
  have st1: "nearest_entry [abs_path cs \<mapsto> kEnumerateDirectoryPermissions] (cs @ [x]) = Some kEnumerateDirectoryPermissions"
    by (subst nearest_entry.simps, subst nearest_entry.simps) (simp add: ne)
  have st2: "nearest_entry [abs_path cs \<mapsto> kEnumerateDirectoryPermissions,
      abs_path (cs @ [x]) \<mapsto> kReadFilePermissions] (cs @ [x]) = Some kReadFilePermissions"
    by (subst nearest_entry.simps) simp
  have diff: "kReadFilePermissions AND kEnumerateDirectoryPermissions \<noteq> kEnumerateDirectoryPermissions"
    by code_simp
  have "CanReadDirectory c (abs_path (cs @ [x])) (GrantReadDirectory c (abs_path cs) P)"
    using assms st1
    by (simp add: CanReadDirectory_def HasPermissionsForFile_def ChildProcessHasPermissionsForFile_def
        GrantReadDirectory_def GrantPermissionsForFile_def with_child_state state_defs new_SecurityState_def
        state_HasPermissionsForFile_abs_path Strip_abs_path ok)
  moreover have "\<not> CanReadDirectory c (abs_path (cs @ [x]))
           (GrantReadFile c (abs_path (cs @ [x])) (GrantReadDirectory c (abs_path cs) P))"
    using assms st2 diff ne
    by (simp add: CanReadDirectory_def HasPermissionsForFile_def ChildProcessHasPermissionsForFile_def
        GrantReadFile_def GrantReadDirectory_def GrantPermissionsForFile_def with_child_state state_defs
        new_SecurityState_def state_HasPermissionsForFile_abs_path Strip_abs_path ok)
  ultimately show ?thesis by simp
qed

theorem read_grant_hides_directory_grant_witness:
  "\<not> CanReadDirectory 3 ''/a/b'' (GrantReadFile 3 ''/a/b'' (GrantReadDirectory 3 ''/a'' demo_policy))"
proof -
  have st: "security_state demo_policy 3 = Some new_SecurityState" "worker_map demo_policy 3 = None"
    by (simp_all add: demo_policy_def demo_history_def registry_defs child_defs with_child_state)
  have "components_ok ([''a''] @ [''b''])" by code_simp
  from read_grant_hides_directory_grant [OF st this] show ?thesis by (simp add: abs_path_def)
qed

text \<open>Telling a child to request a URL always returns, however deep view-source URLs are
  nested, when a nested view-source URL is longer than the one inside it.\<close>

theorem GrantRequestURL_returns:
  assumes "view_source_shrinks L"
  shows "\<exists>P'. GrantRequestURL L c url P = Some P'"
  using GrantRequestURL_returns_aux [OF assms] .

theorem GrantRequestURL_returns_witness:
  "\<exists>P'. GrantRequestURL text_urls 1 ''view-source:view-source:chrome:x'' demo_policy = Some P'"
  using GrantRequestURL_returns [OF text_urls_shrink] .

text \<open>Being told to request a view-source URL grants what being told to request the URL inside
  grants, and a view-source URL may be requested exactly when the URL inside may be and is not a
  view-source URL itself: a nested one is refused whatever was granted.\<close>

theorem view_source_follows_inner_URL:
  assumes "is_valid L url" "SchemeIs L url kViewSourceScheme"
    and "url_scheme L url = kViewSourceScheme"
    and "\<not> IsDisabledScheme kViewSourceScheme P" "\<not> IsWebSafeScheme kViewSourceScheme P"
    and "IsPseudoScheme kViewSourceScheme P"
  shows "(CanRequestURL L F c url P \<longleftrightarrow>
      \<not> SchemeIs L (parse_url L (url_path L url)) kViewSourceScheme \<and>
      CanRequestURL L F c (parse_url L (url_path L url)) P) \<and>
    GrantRequestURL L c url P = GrantRequestURL L c (parse_url L (url_path L url)) P"
proof (rule conjI)
  show "CanRequestURL L F c url P \<longleftrightarrow>
      \<not> SchemeIs L (parse_url L (url_path L url)) kViewSourceScheme \<and>
      CanRequestURL L F c (parse_url L (url_path L url)) P"
    using assms by (subst CanRequestURL.simps) (simp add: Let_def)
  show "GrantRequestURL L c url P = GrantRequestURL L c (parse_url L (url_path L url)) P"
    using assms by (subst (1) GrantRequestURL.simps) simp
qed

theorem view_source_follows_inner_URL_witness:
  "\<not> CanRequestURL text_urls {} 1 ''view-source:view-source:http:x'' demo_policy"
proof -
  let ?u = "''view-source:view-source:http:x''"
  have "is_valid text_urls ?u" "SchemeIs text_urls ?u kViewSourceScheme"
    "url_scheme text_urls ?u = kViewSourceScheme" "\<not> IsDisabledScheme kViewSourceScheme demo_policy"
    "\<not> IsWebSafeScheme kViewSourceScheme demo_policy" "IsPseudoScheme kViewSourceScheme demo_policy"
    by (code_simp)+
  from view_source_follows_inner_URL [OF this, of "{}" 1]
  have "CanRequestURL text_urls {} 1 ?u demo_policy \<longrightarrow>
      \<not> SchemeIs text_urls (parse_url text_urls (url_path text_urls ?u)) kViewSourceScheme" by blast
  moreover have "SchemeIs text_urls (parse_url text_urls (url_path text_urls ?u)) kViewSourceScheme"
    by code_simp
  ultimately show ?thesis by blast
qed

end
