(* ===== verification/Bytes.thy ===== *)
theory Bytes
  imports Prelude
begin

unbundle bit_operations_syntax

text \<open>
  Memory as bytes: overwriting a range, and a little-endian machine integer as its bytes.
\<close>

definition overwrite :: "nat \<Rightarrow> 'a list \<Rightarrow> 'a list \<Rightarrow> 'a list" where
  "overwrite i ys xs = take i xs @ ys @ drop (i + length ys) xs"

lemma length_overwrite: "i + length ys \<le> length xs \<Longrightarrow> length (overwrite i ys xs) = length xs"
  by (simp add: overwrite_def)

lemma overwrite_Nil [simp]: "overwrite i [] xs = xs"
  by (simp add: overwrite_def)

lemma nth_overwrite:
  "i + length ys \<le> length xs \<Longrightarrow> j < length xs \<Longrightarrow>
   overwrite i ys xs ! j = (if i \<le> j \<and> j < i + length ys then ys ! (j - i) else xs ! j)"
  by (auto simp: overwrite_def nth_append min_def)

lemma read_overwrite:
  "i + length ys \<le> length xs \<Longrightarrow> take (length ys) (drop i (overwrite i ys xs)) = ys"
  by (simp add: overwrite_def)

lemma read_overwrite_away:
  "i + length ys \<le> length xs \<Longrightarrow> j + n \<le> i \<or> i + length ys \<le> j \<Longrightarrow>
   take n (drop j (overwrite i ys xs)) = take n (drop j xs)"
  by (rule nth_equalityI) (auto simp: length_overwrite nth_overwrite)

primrec le_bytes :: "nat \<Rightarrow> 'a::len word \<Rightarrow> 8 word list" where
  "le_bytes 0 w = []"
| "le_bytes (Suc n) w = ucast w # le_bytes n (drop_bit 8 w)"

fun word_of_bytes :: "8 word list \<Rightarrow> 'a::len word" where
  "word_of_bytes [] = 0"
| "word_of_bytes (b # bs) = ucast b OR push_bit 8 (word_of_bytes bs)"

lemma length_le_bytes [simp]: "length (le_bytes n w) = n"
  by (induction n arbitrary: w) auto

lemma le_bytes_Nil [simp]: "le_bytes n w = [] \<longleftrightarrow> n = 0"
  by (cases n) auto

lemma word_of_le_bytes: "word_of_bytes (le_bytes n w) = take_bit (8 * n) w"
proof (induction n arbitrary: w)
  case (Suc n)
  show ?case
    by (rule bit_eqI)
       (auto simp: Suc bit_or_iff bit_push_bit_iff bit_ucast_iff bit_take_bit_iff bit_drop_bit_eq)
qed simp

lemma word_of_le_bytes_full:
  fixes w :: "'a::len word"
  assumes "LENGTH('a) \<le> 8 * n"
  shows "word_of_bytes (le_bytes n w) = w"
  using assms by (simp add: word_of_le_bytes take_bit_word_eq_self)

lemma sint_nonneg: "0 \<le> sint (n :: 32 word) \<Longrightarrow> uint n = sint n"
  using sint_less [of n] by (simp add: uint_sint take_bit_int_eq_self)

lemma unat_sint_nonneg: "0 \<le> sint (n :: 32 word) \<Longrightarrow> int (unat n) = sint n"
  by (metis sint_nonneg uint_nat)

lemma unat_nonneg_less:
  assumes "0 \<le> sint (n :: 32 word)"
  shows "unat n < 2 ^ 31"
proof -
  have "int (unat n) < 2 ^ 31" unfolding unat_sint_nonneg [OF assms] using sint_less [of n] by simp
  thus ?thesis by (metis of_nat_less_iff of_nat_numeral of_nat_power)
qed

lemma sint_of_nat_small: "k < 2 ^ 31 \<Longrightarrow> sint (of_nat k :: 32 word) = int k"
  by (simp add: signed_of_nat signed_take_bit_int_eq_self)

lemma sint_unat_small: "unat (n :: 32 word) < 2 ^ 31 \<Longrightarrow> sint n = int (unat n)"
  using sint_of_nat_small [of "unat n"] by simp

lemma word_sum_small: "unat a + unat b < 2 ^ 32 \<Longrightarrow> unat (a + b :: 32 word) = unat a + unat b"
  using unat_add_lem [of a b] by simp

lemma word_prod_small: "unat a * unat b < 2 ^ 32 \<Longrightarrow> unat (a * b :: 32 word) = unat a * unat b"
  using unat_mult_lem [of a b] by simp

end
