(* ===== verification/Pickle.thy ===== *)
theory Pickle
  imports Bytes
begin

unbundle bit_operations_syntax

text \<open>
  \<open>Pickle\<close> (\<open>src/base/pickle.cc\<close>): the buffer that every message between the browser's processes
  is written to and read from. It is a header followed by a payload of values, each starting at a
  multiple of four bytes.

  The build is the 32 bit one: pointers, \<open>size_t\<close>, \<open>long\<close> and \<open>wchar_t\<close> have four bytes. A pickle holds
  the address \<open>pk_header\<close> of its memory and the bytes there; \<open>None\<close> is an access outside of them, a
  failed \<open>CHECK\<close> or a null header. An iterator is an address, null to start from the payload. What
  \<open>realloc\<close> answers is the argument \<open>reallocator\<close>: nothing, or a new address and the contents of the
  bytes the block gained.
\<close>

record pickle =
  pk_header :: "32 word"
  pickle_mem :: "8 word list"
  pk_header_size :: "32 word"
  pk_capacity :: "32 word"
  pk_variable_buffer_offset :: "32 word"

type_synonym reallocator = "pickle \<Rightarrow> 32 word \<Rightarrow> (32 word \<times> (nat \<Rightarrow> 8 word)) option"

definition kPayloadUnit :: "32 word" where "kPayloadUnit = 64"
definition kCapacityReadOnly :: "32 word" where "kCapacityReadOnly = -1"
definition sizeof_Header :: "32 word" where "sizeof_Header = 4"

definition AlignInt :: "32 word \<Rightarrow> 32 word \<Rightarrow> 32 word" where
  "AlignInt i alignment = i + (alignment - i mod alignment) mod alignment"

subsection \<open>Memory\<close>

definition load_mem :: "32 word \<Rightarrow> 8 word list \<Rightarrow> 32 word \<Rightarrow> nat \<Rightarrow> 8 word list option" where
  "load_mem base m a n =
    (if n = 0 then Some []
     else if base \<noteq> 0 \<and> base \<le> a \<and> unat (a - base) + n \<le> length m
     then Some (take n (drop (unat (a - base)) m)) else None)"

definition load :: "pickle \<Rightarrow> 32 word \<Rightarrow> nat \<Rightarrow> 8 word list option" where
  "load p = load_mem (pk_header p) (pickle_mem p)"

definition store :: "32 word \<Rightarrow> 8 word list \<Rightarrow> pickle \<Rightarrow> pickle option" where
  "store a bs p =
    (if bs = [] then Some p
     else if pk_header p \<noteq> 0 \<and> pk_header p \<le> a \<and> unat (a - pk_header p) + length bs \<le> length (pickle_mem p)
     then Some (p \<lparr> pickle_mem := overwrite (unat (a - pk_header p)) bs (pickle_mem p) \<rparr>) else None)"

definition payload_size :: "pickle \<Rightarrow> 32 word option" where
  "payload_size p = map_option word_of_bytes (load p (pk_header p) 4)"

definition set_payload_size :: "32 word \<Rightarrow> pickle \<Rightarrow> pickle option" where
  "set_payload_size n p = store (pk_header p) (le_bytes 4 n) p"

definition payload :: "pickle \<Rightarrow> 32 word" where
  "payload p = pk_header p + pk_header_size p"

definition end_of_payload :: "pickle \<Rightarrow> 32 word option" where
  "end_of_payload p =
    (if pk_header p = 0 then Some 0 else map_option (\<lambda>n. payload p + n) (payload_size p))"

definition pickle_size :: "pickle \<Rightarrow> 32 word option" where
  "pickle_size p = map_option (\<lambda>n. pk_header_size p + n) (payload_size p)"

subsection \<open>Reading\<close>

definition IteratorHasRoomFor :: "pickle \<Rightarrow> 32 word \<Rightarrow> 32 word \<Rightarrow> bool option" where
  "IteratorHasRoomFor p iter n =
    (if n <s 0 \<or> iter < pk_header p then Some False
     else do {
       e \<leftarrow> end_of_payload p;
       if iter > e then Some False
       else let end_of_region = iter + n in Some (iter \<le> end_of_region \<and> end_of_region \<le> e) })"

definition UpdateIter :: "32 word \<Rightarrow> 32 word \<Rightarrow> 32 word" where
  "UpdateIter iter n = iter + AlignInt n 4"

text \<open>A read returns the result, \<open>None\<close> where the code returns \<open>false\<close>, and the new iterator.\<close>

type_synonym 'a reading = "('a option \<times> 32 word) option"

definition start_iter :: "pickle \<Rightarrow> 32 word \<Rightarrow> 32 word" where
  "start_iter p iter = (if iter = 0 then payload p else iter)"

definition read_at :: "pickle \<Rightarrow> 32 word \<Rightarrow> 32 word \<Rightarrow> (8 word list \<Rightarrow> 'a) \<Rightarrow> 'a reading" where
  "read_at p iter n f = do {
     room \<leftarrow> IteratorHasRoomFor p iter n;
     if \<not> room then Some (None, iter)
     else do { bs \<leftarrow> load p iter (unat n); Some (Some (f bs), UpdateIter iter n) } }"

definition ReadInt :: "pickle \<Rightarrow> 32 word \<Rightarrow> 32 word reading" where
  "ReadInt p iter = read_at p (start_iter p iter) 4 word_of_bytes"

definition ReadBool :: "pickle \<Rightarrow> 32 word \<Rightarrow> bool reading" where
  "ReadBool p iter = map_option (\<lambda>(r, iter). (map_option (\<lambda>tmp. tmp \<noteq> 0) r, iter)) (ReadInt p iter)"

definition ReadLong :: "pickle \<Rightarrow> 32 word \<Rightarrow> 32 word reading" where
  "ReadLong p iter = read_at p (start_iter p iter) 4 word_of_bytes"

definition ReadSize :: "pickle \<Rightarrow> 32 word \<Rightarrow> 32 word reading" where
  "ReadSize p iter = read_at p (start_iter p iter) 4 word_of_bytes"

definition ReadUInt16 :: "pickle \<Rightarrow> 32 word \<Rightarrow> 16 word reading" where
  "ReadUInt16 p iter = read_at p (start_iter p iter) 2 word_of_bytes"

definition ReadUInt32 :: "pickle \<Rightarrow> 32 word \<Rightarrow> 32 word reading" where
  "ReadUInt32 p iter = read_at p (start_iter p iter) 4 word_of_bytes"

definition ReadInt64 :: "pickle \<Rightarrow> 32 word \<Rightarrow> 64 word reading" where
  "ReadInt64 p iter = read_at p (start_iter p iter) 8 word_of_bytes"

definition ReadUInt64 :: "pickle \<Rightarrow> 32 word \<Rightarrow> 64 word reading" where
  "ReadUInt64 p iter = read_at p (start_iter p iter) 8 word_of_bytes"

definition ReadLength :: "pickle \<Rightarrow> 32 word \<Rightarrow> 32 word reading" where
  "ReadLength p iter =
    map_option (\<lambda>(r, iter). (case r of None \<Rightarrow> None | Some n \<Rightarrow> if n <s 0 then None else Some n, iter))
      (ReadInt p iter)"

definition then_read :: "'a reading \<Rightarrow> ('a \<Rightarrow> 32 word \<Rightarrow> 'b reading) \<Rightarrow> 'b reading" where
  "then_read r f = do { (x, iter) \<leftarrow> r; case x of None \<Rightarrow> Some (None, iter) | Some a \<Rightarrow> f a iter }"

definition ReadString :: "pickle \<Rightarrow> 32 word \<Rightarrow> 8 word list reading" where
  "ReadString p iter = then_read (ReadLength p iter) (\<lambda>n iter. read_at p iter n id)"

text \<open>Characters of \<open>w\<close> bytes; what is checked is \<open>len * w\<close> converted to \<open>int\<close>, what is copied
  is \<open>len\<close> characters.\<close>

function chars_of :: "nat \<Rightarrow> 8 word list \<Rightarrow> 'a::len word list" where
  "chars_of w bs = (if bs = [] \<or> w = 0 then [] else word_of_bytes (take w bs) # chars_of w (drop w bs))"
  by pat_completeness auto
termination by (relation "measure (length \<circ> snd)") auto

declare chars_of.simps [simp del]

definition read_chars_at :: "pickle \<Rightarrow> 32 word \<Rightarrow> 32 word \<Rightarrow> nat \<Rightarrow> 'a::len word list reading" where
  "read_chars_at p iter n w = do {
     room \<leftarrow> IteratorHasRoomFor p iter (n * of_nat w);
     if \<not> room then Some (None, iter)
     else do { bs \<leftarrow> load p iter (unat n * w); Some (Some (chars_of w bs), UpdateIter iter (n * of_nat w)) } }"

definition ReadWString :: "pickle \<Rightarrow> 32 word \<Rightarrow> 32 word list reading" where
  "ReadWString p iter = then_read (ReadLength p iter)
    (\<lambda>n iter. if sint n > 2147483647 div 4 then Some (None, iter) else read_chars_at p iter n 4)"

definition ReadString16 :: "pickle \<Rightarrow> 32 word \<Rightarrow> 16 word list reading" where
  "ReadString16 p iter = then_read (ReadLength p iter) (\<lambda>n iter. read_chars_at p iter n 2)"

text \<open>The result is the address of the bytes.\<close>

definition ReadBytes :: "pickle \<Rightarrow> 32 word \<Rightarrow> 32 word \<Rightarrow> 32 word reading" where
  "ReadBytes p iter n = (let iter = start_iter p iter in do {
     room \<leftarrow> IteratorHasRoomFor p iter n;
     if \<not> room then Some (None, iter) else Some (Some iter, UpdateIter iter n) })"

definition ReadData :: "pickle \<Rightarrow> 32 word \<Rightarrow> (32 word \<times> 32 word) reading" where
  "ReadData p iter = then_read (ReadLength p iter)
    (\<lambda>n iter. then_read (ReadBytes p iter n) (\<lambda>data iter. Some (Some (data, n), iter)))"

subsection \<open>Writing\<close>

definition Resize :: "reallocator \<Rightarrow> 32 word \<Rightarrow> pickle \<Rightarrow> (bool \<times> pickle) option" where
  "Resize R new_capacity p =
    (let new_capacity = AlignInt new_capacity kPayloadUnit
     in if pk_capacity p = kCapacityReadOnly then None
        else case R p new_capacity of
               None \<Rightarrow> Some (False, p)
             | Some (a, fresh) \<Rightarrow>
                 Some (True, p \<lparr> pk_header := a, pk_capacity := new_capacity,
                   pickle_mem := take (unat new_capacity) (pickle_mem p) @
                                 map fresh [length (pickle_mem p)..<unat new_capacity] \<rparr>))"

definition BeginWrite :: "reallocator \<Rightarrow> 32 word \<Rightarrow> pickle \<Rightarrow> (32 word option \<times> pickle) option" where
  "BeginWrite R n p = do {
     sz \<leftarrow> payload_size p;
     let offset = AlignInt sz 4;
     let new_size = offset + n;
     let needed_size = pk_header_size p + new_size;
     (ok, p) \<leftarrow> (if needed_size > pk_capacity p then Resize R (max (pk_capacity p * 2) needed_size) p
                 else Some (True, p));
     if \<not> ok then Some (None, p)
     else do { p \<leftarrow> set_payload_size new_size p; Some (Some (payload p + offset), p) } }"

definition EndWrite :: "32 word \<Rightarrow> 32 word \<Rightarrow> pickle \<Rightarrow> pickle option" where
  "EndWrite dest n p =
    (if n mod 4 \<noteq> 0 then store (dest + n) (replicate (unat (4 - n mod 4)) 0) p else Some p)"

text \<open>The source of the copy is given by its bytes; copying more than there are is \<open>None\<close>.\<close>

definition WriteBytes :: "reallocator \<Rightarrow> 8 word list \<Rightarrow> 32 word \<Rightarrow> pickle \<Rightarrow> (bool \<times> pickle) option" where
  "WriteBytes R data data_len p = do {
     (dest, p) \<leftarrow> BeginWrite R data_len p;
     case dest of
       None \<Rightarrow> Some (False, p)
     | Some dest \<Rightarrow>
         if unat data_len > length data then None
         else do {
           p \<leftarrow> store dest (take (unat data_len) data) p;
           p \<leftarrow> EndWrite dest data_len p;
           Some (True, p) } }"

definition WriteInt :: "reallocator \<Rightarrow> 32 word \<Rightarrow> pickle \<Rightarrow> (bool \<times> pickle) option" where
  "WriteInt R v = WriteBytes R (le_bytes 4 v) 4"

definition WriteBool :: "reallocator \<Rightarrow> bool \<Rightarrow> pickle \<Rightarrow> (bool \<times> pickle) option" where
  "WriteBool R v = WriteInt R (if v then 1 else 0)"

definition WriteLong :: "reallocator \<Rightarrow> 32 word \<Rightarrow> pickle \<Rightarrow> (bool \<times> pickle) option" where
  "WriteLong R v = WriteBytes R (le_bytes 4 v) 4"

definition WriteSize :: "reallocator \<Rightarrow> 32 word \<Rightarrow> pickle \<Rightarrow> (bool \<times> pickle) option" where
  "WriteSize R v = WriteBytes R (le_bytes 4 v) 4"

definition WriteUInt16 :: "reallocator \<Rightarrow> 16 word \<Rightarrow> pickle \<Rightarrow> (bool \<times> pickle) option" where
  "WriteUInt16 R v = WriteBytes R (le_bytes 2 v) 2"

definition WriteUInt32 :: "reallocator \<Rightarrow> 32 word \<Rightarrow> pickle \<Rightarrow> (bool \<times> pickle) option" where
  "WriteUInt32 R v = WriteBytes R (le_bytes 4 v) 4"

definition WriteInt64 :: "reallocator \<Rightarrow> 64 word \<Rightarrow> pickle \<Rightarrow> (bool \<times> pickle) option" where
  "WriteInt64 R v = WriteBytes R (le_bytes 8 v) 8"

definition WriteUInt64 :: "reallocator \<Rightarrow> 64 word \<Rightarrow> pickle \<Rightarrow> (bool \<times> pickle) option" where
  "WriteUInt64 R v = WriteBytes R (le_bytes 8 v) 8"

definition then_write :: "(bool \<times> pickle) option \<Rightarrow> (pickle \<Rightarrow> (bool \<times> pickle) option) \<Rightarrow> (bool \<times> pickle) option" where
  "then_write r f = do { (ok, p) \<leftarrow> r; if \<not> ok then Some (False, p) else f p }"

definition WriteString :: "reallocator \<Rightarrow> 8 word list \<Rightarrow> pickle \<Rightarrow> (bool \<times> pickle) option" where
  "WriteString R v p =
    then_write (WriteInt R (of_nat (length v)) p) (WriteBytes R v (of_nat (length v)))"

definition WriteWString :: "reallocator \<Rightarrow> 32 word list \<Rightarrow> pickle \<Rightarrow> (bool \<times> pickle) option" where
  "WriteWString R v p =
    then_write (WriteInt R (of_nat (length v)) p)
      (WriteBytes R (concat (map (le_bytes 4) v)) (of_nat (length v) * 4))"

definition WriteString16 :: "reallocator \<Rightarrow> 16 word list \<Rightarrow> pickle \<Rightarrow> (bool \<times> pickle) option" where
  "WriteString16 R v p =
    then_write (WriteInt R (of_nat (length v)) p)
      (WriteBytes R (concat (map (le_bytes 2) v)) (of_nat (length v) * 2))"

definition WriteData :: "reallocator \<Rightarrow> 8 word list \<Rightarrow> 32 word \<Rightarrow> pickle \<Rightarrow> (bool \<times> pickle) option" where
  "WriteData R data n p =
    (if n <s 0 then Some (False, p) else then_write (WriteInt R n p) (WriteBytes R data n))"

definition BeginWriteData :: "reallocator \<Rightarrow> 32 word \<Rightarrow> pickle \<Rightarrow> (32 word option \<times> pickle) option" where
  "BeginWriteData R n p =
    (if n <s 0 then Some (None, p)
     else do {
       (ok, p) \<leftarrow> WriteInt R n p;
       if \<not> ok then Some (None, p)
       else do {
         (data_ptr, p) \<leftarrow> BeginWrite R n p;
         case data_ptr of
           None \<Rightarrow> Some (None, p)
         | Some a \<Rightarrow> do {
             p \<leftarrow> EndWrite a n (p \<lparr> pk_variable_buffer_offset := a - pk_header p - 4 \<rparr>);
             Some (Some a, p) } } })"

definition TrimWriteData :: "32 word \<Rightarrow> pickle \<Rightarrow> pickle option" where
  "TrimWriteData new_length p = (let cur = pk_header p + pk_variable_buffer_offset p in do {
     bs \<leftarrow> load p cur 4;
     let cur_length = (word_of_bytes bs :: 32 word);
     if new_length <s 0 \<or> cur_length <s new_length then Some p
     else do {
       sz \<leftarrow> payload_size p;
       p \<leftarrow> set_payload_size (sz - (cur_length - new_length)) p;
       store cur (le_bytes 4 new_length) p } })"

subsection \<open>Construction\<close>

definition no_pickle :: "32 word \<Rightarrow> pickle" where
  "no_pickle header_size = \<lparr> pk_header = 0, pickle_mem = [], pk_header_size = header_size, pk_capacity = 0,
    pk_variable_buffer_offset = 0 \<rparr>"

definition Pickle_of_header_size :: "reallocator \<Rightarrow> 32 word \<Rightarrow> pickle option" where
  "Pickle_of_header_size R header_size = do {
     (ok, p) \<leftarrow> Resize R kPayloadUnit (no_pickle (AlignInt header_size 4));
     set_payload_size 0 p }"

definition new_Pickle :: "reallocator \<Rightarrow> pickle option" where
  "new_Pickle R = do {
     (ok, p) \<leftarrow> Resize R kPayloadUnit (no_pickle sizeof_Header);
     set_payload_size 0 p }"

text \<open>A pickle over the bytes \<open>data\<close> at \<open>a\<close>.\<close>

definition Pickle_of_data :: "32 word \<Rightarrow> 8 word list \<Rightarrow> pickle option" where
  "Pickle_of_data a data = (let data_len = of_nat (length data) :: 32 word;
       p = \<lparr> pk_header = a, pickle_mem = data, pk_header_size = 0, pk_capacity = kCapacityReadOnly,
             pk_variable_buffer_offset = 0 \<rparr>
     in do {
       hs \<leftarrow> (if 4 \<le> sint data_len then map_option (\<lambda>n. data_len - n) (payload_size p) else Some 0);
       let hs = (if hs > data_len then 0 else hs);
       let hs = (if hs \<noteq> AlignInt hs 4 then 0 else hs);
       Some (p \<lparr> pk_header_size := hs, pk_header := (if hs = 0 then 0 else a) \<rparr>) })"

definition copy_data :: "reallocator \<Rightarrow> pickle \<Rightarrow> pickle \<Rightarrow> pickle option" where
  "copy_data R other p = do {
     n \<leftarrow> pickle_size other;
     (ok, p) \<leftarrow> Resize R n p;
     if \<not> ok then None
     else do { bs \<leftarrow> load other (pk_header other) (unat n); store (pk_header p) bs p } }"

definition Pickle_copy :: "reallocator \<Rightarrow> pickle \<Rightarrow> pickle option" where
  "Pickle_copy R other =
    map_option (\<lambda>p. p \<lparr> pk_variable_buffer_offset := pk_variable_buffer_offset other \<rparr>)
      (copy_data R other (no_pickle (pk_header_size other)))"

text \<open>Assignment from another object.\<close>

definition Pickle_assign :: "reallocator \<Rightarrow> pickle \<Rightarrow> pickle \<Rightarrow> pickle option" where
  "Pickle_assign R other p =
    (let p = (if pk_capacity p = kCapacityReadOnly
              then p \<lparr> pk_header := 0, pickle_mem := [], pk_capacity := 0 \<rparr> else p);
         p = (if pk_header_size p \<noteq> pk_header_size other
              then p \<lparr> pk_header := 0, pickle_mem := [], pk_header_size := pk_header_size other \<rparr> else p)
     in map_option (\<lambda>p. p \<lparr> pk_variable_buffer_offset := pk_variable_buffer_offset other \<rparr>)
          (copy_data R other p))"

text \<open>The search for the end of a pickle in the bytes \<open>m\<close> at \<open>base\<close>; \<open>Some None\<close> is a null result.\<close>

definition FindNext :: "32 word \<Rightarrow> 32 word \<Rightarrow> 8 word list \<Rightarrow> 32 word \<Rightarrow> 32 word \<Rightarrow> 32 word option option" where
  "FindNext header_size base m start end_at =
    (if end_at - start < sizeof_Header then Some None
     else do {
       bs \<leftarrow> load_mem base m start 4;
       let payload_base = start + header_size;
       let payload_end = payload_base + word_of_bytes bs;
       if payload_end < payload_base then Some None
       else Some (if payload_end > end_at then None else Some payload_end) })"

end
