(* ===== verification/PickleSpec.thy ===== *)
theory PickleSpec
  imports Pickle
begin

text \<open>
  What \<open>Pickle\<close> promises: reading a message never leaves its bytes whatever they are, what was
  written is read back, and messages in a stream are found one after the other.
\<close>

subsection \<open>Values\<close>

datatype pvalue =
    VBool bool | VInt "32 word" | VLong "32 word" | VSize "32 word" | VUInt16 "16 word"
  | VUInt32 "32 word" | VInt64 "64 word" | VUInt64 "64 word" | VString "8 word list"
  | VWString "32 word list" | VString16 "16 word list" | VData "8 word list" | VBytes "8 word list"

text \<open>What a reader asks for: the kind of value, and the length where the reader has to know it.\<close>

datatype ptype =
    TBool | TInt | TLong | TSize | TUInt16 | TUInt32 | TInt64 | TUInt64 | TString | TWString
  | TString16 | TData | TBytes "32 word"

fun ptype_of :: "pvalue \<Rightarrow> ptype" where
  "ptype_of (VBool _) = TBool"
| "ptype_of (VInt _) = TInt"
| "ptype_of (VLong _) = TLong"
| "ptype_of (VSize _) = TSize"
| "ptype_of (VUInt16 _) = TUInt16"
| "ptype_of (VUInt32 _) = TUInt32"
| "ptype_of (VInt64 _) = TInt64"
| "ptype_of (VUInt64 _) = TUInt64"
| "ptype_of (VString _) = TString"
| "ptype_of (VWString _) = TWString"
| "ptype_of (VString16 _) = TString16"
| "ptype_of (VData _) = TData"
| "ptype_of (VBytes bs) = TBytes (of_nat (length bs))"

definition wrap :: "('a \<Rightarrow> 'b) \<Rightarrow> 'a reading \<Rightarrow> 'b reading" where
  "wrap f = map_option (map_prod (map_option f) id)"

text \<open>A caller of \<open>ReadBytes\<close> and \<open>ReadData\<close> reads the bytes it was given the address of.\<close>

definition fetch :: "pickle \<Rightarrow> (32 word \<times> 32 word) reading \<Rightarrow> 8 word list reading" where
  "fetch p r = do {
     (x, iter) \<leftarrow> r;
     case x of None \<Rightarrow> Some (None, iter)
     | Some (a, n) \<Rightarrow> do { bs \<leftarrow> load p a (unat n); Some (Some bs, iter) } }"

fun read_value :: "pickle \<Rightarrow> ptype \<Rightarrow> 32 word \<Rightarrow> pvalue reading" where
  "read_value p TBool it = wrap VBool (ReadBool p it)"
| "read_value p TInt it = wrap VInt (ReadInt p it)"
| "read_value p TLong it = wrap VLong (ReadLong p it)"
| "read_value p TSize it = wrap VSize (ReadSize p it)"
| "read_value p TUInt16 it = wrap VUInt16 (ReadUInt16 p it)"
| "read_value p TUInt32 it = wrap VUInt32 (ReadUInt32 p it)"
| "read_value p TInt64 it = wrap VInt64 (ReadInt64 p it)"
| "read_value p TUInt64 it = wrap VUInt64 (ReadUInt64 p it)"
| "read_value p TString it = wrap VString (ReadString p it)"
| "read_value p TWString it = wrap VWString (ReadWString p it)"
| "read_value p TString16 it = wrap VString16 (ReadString16 p it)"
| "read_value p TData it = wrap VData (fetch p (ReadData p it))"
| "read_value p (TBytes n) it = wrap VBytes (fetch p (wrap (\<lambda>a. (a, n)) (ReadBytes p it n)))"

text \<open>The values a reader gets until a read fails, and the iterator it is left with.\<close>

fun read_values :: "pickle \<Rightarrow> ptype list \<Rightarrow> 32 word \<Rightarrow> (pvalue list \<times> 32 word) option" where
  "read_values p [] it = Some ([], it)"
| "read_values p (t # ts) it = do {
     (x, it) \<leftarrow> read_value p t it;
     case x of None \<Rightarrow> Some ([], it)
     | Some v \<Rightarrow> do { (vs, it) \<leftarrow> read_values p ts it; Some (v # vs, it) } }"

subsection \<open>Reading untrusted bytes\<close>

definition readable :: "pickle \<Rightarrow> bool" where
  "readable p \<longleftrightarrow> pk_header p = 0 \<and> pk_header_size p = 0 \<or>
     pk_header p \<noteq> 0 \<and> 4 \<le> length (pickle_mem p) \<and> unat (pk_header p) + length (pickle_mem p) < 2 ^ 32 \<and>
     (\<exists>n. payload_size p = Some n \<and> unat (pk_header_size p) + unat n \<le> length (pickle_mem p))"

lemma readable_end:
  assumes "readable p"
  obtains e where "end_of_payload p = Some e"
    "pk_header p = 0 \<Longrightarrow> e = 0"
    "pk_header p \<noteq> 0 \<Longrightarrow> unat e \<le> unat (pk_header p) + length (pickle_mem p)"
proof (cases "pk_header p = 0")
  case False
  then obtain n where n: "payload_size p = Some n"
    "unat (pk_header_size p) + unat n \<le> length (pickle_mem p)"
    "unat (pk_header p) + length (pickle_mem p) < 2 ^ 32"
    using assms by (auto simp: readable_def)
  have "unat (payload p) = unat (pk_header p) + unat (pk_header_size p)"
    unfolding payload_def by (rule word_sum_small) (use n in linarith)
  hence "unat (payload p + n) = unat (pk_header p) + unat (pk_header_size p) + unat n"
    using n by (subst word_sum_small) linarith+
  thus ?thesis using that [of "payload p + n"] n False by (simp add: end_of_payload_def)
qed (auto simp: end_of_payload_def intro: that)

lemma room_returns:
  assumes "readable p"
  shows "IteratorHasRoomFor p it n \<noteq> None"
proof -
  from assms obtain e where "end_of_payload p = Some e" by (rule readable_end)
  thus ?thesis by (simp add: IteratorHasRoomFor_def Let_def del: not_None_eq)
qed

lemma room_load:
  assumes p: "readable p" and room: "IteratorHasRoomFor p it n = Some True" and m: "m \<le> unat n"
  shows "load p it m \<noteq> None"
proof (cases "m = 0")
  case False
  from p obtain e where e: "end_of_payload p = Some e" "pk_header p = 0 \<Longrightarrow> e = 0"
    "pk_header p \<noteq> 0 \<Longrightarrow> unat e \<le> unat (pk_header p) + length (pickle_mem p)"
    using readable_end by blast
  have r: "pk_header p \<le> it" "it \<le> it + n" "it + n \<le> e"
    using room e(1) by (auto simp: IteratorHasRoomFor_def Let_def split: if_splits)
  have sum: "unat (it + n) = unat it + unat n" using r(2) unat_plus_simple by blast
  hence "unat it + unat n \<le> unat e" using r(3) by (simp add: word_le_nat_alt)
  moreover have "pk_header p \<noteq> 0" using e(2) r sum False m by auto
  moreover have "unat (it - pk_header p) = unat it - unat (pk_header p)"
    using r(1) by (simp add: unat_sub)
  moreover have "unat (pk_header p) \<le> unat it" using r(1) by (simp add: word_le_nat_alt)
  ultimately show ?thesis using e(3) m r(1) False
    by (simp add: load_def load_mem_def)
qed (simp add: load_def load_mem_def)

lemma read_at_returns:
  assumes "readable p"
  shows "read_at p it n f \<noteq> None"
  using room_returns [OF assms, of it n] room_load [OF assms, of it n "unat n"]
  by (auto simp: read_at_def bind_eq_None_conv)

lemma read_chars_at_returns:
  assumes "readable p" "unat n * w \<le> unat (n * of_nat w)"
  shows "read_chars_at p it n w \<noteq> None"
  using room_returns [OF assms(1), of it "n * of_nat w"] room_load [OF assms(1) _ assms(2), of it]
  by (auto simp: read_chars_at_def bind_eq_None_conv)

lemma then_read_returns:
  "r \<noteq> None \<Longrightarrow> (\<And>a it. r = Some (Some a, it) \<Longrightarrow> f a it \<noteq> None) \<Longrightarrow> then_read r f \<noteq> None"
  by (auto simp: then_read_def bind_eq_None_conv split: option.splits prod.splits)

lemma ReadLength_returns: "readable p \<Longrightarrow> ReadLength p it \<noteq> None"
  using read_at_returns [of p "start_iter p it" 4 word_of_bytes] by (simp add: ReadLength_def ReadInt_def)

lemma ReadLength_nonneg: "ReadLength p it = Some (Some n, it') \<Longrightarrow> 0 \<le> sint n"
  by (auto simp: ReadLength_def word_sless_alt split: option.splits if_splits)

lemma wrap_returns [simp]: "wrap f r = None \<longleftrightarrow> r = None"
  by (simp add: wrap_def)

lemma fetch_ReadBytes_returns:
  assumes p: "readable p"
  shows "ReadBytes p it n \<noteq> None \<and> (ReadBytes p it n = Some (Some a, it') \<longrightarrow> load p a (unat n) \<noteq> None)"
  using room_returns [OF p, of "start_iter p it" n] room_load [OF p, of "start_iter p it" n "unat n"]
  by (auto simp: ReadBytes_def Let_def bind_eq_None_conv bind_eq_Some_conv split: if_splits)

lemma read_value_returns:
  assumes p: "readable p"
  shows "read_value p t it \<noteq> None"
proof (cases t)
  case TString
  then show ?thesis
    using then_read_returns [OF ReadLength_returns [OF p] read_at_returns [OF p]] by (simp add: ReadString_def)
next
  case TWString
  have "then_read (ReadLength p it) (\<lambda>n iter. if sint n > 2147483647 div 4 then Some (None, iter)
      else read_chars_at p iter n 4 :: 32 word list reading) \<noteq> None"
  proof (rule then_read_returns)
    fix n :: "32 word" and it'
    assume "ReadLength p it = Some (Some n, it')"
    note u = unat_sint_nonneg [OF ReadLength_nonneg [OF this]]
    have "unat n * 4 \<le> unat (n * of_nat 4)" if "sint n \<le> 2147483647 div 4"
    proof -
      have "unat n \<le> 536870911" using that u by linarith
      thus ?thesis using word_prod_small [of n 4] by simp
    qed
    thus "(if sint n > 2147483647 div 4 then Some (None, it') else read_chars_at p it' n 4 :: 32 word list reading) \<noteq> None"
      by (simp add: not_less read_chars_at_returns [OF p] del: not_None_eq)
  qed (rule ReadLength_returns [OF p])
  then show ?thesis using TWString by (simp add: ReadWString_def)
next
  case TString16
  have "then_read (ReadLength p it) (\<lambda>n iter. read_chars_at p iter n 2 :: 16 word list reading) \<noteq> None"
  proof (rule then_read_returns)
    fix n :: "32 word" and it'
    assume "ReadLength p it = Some (Some n, it')"
    from unat_nonneg_less [OF ReadLength_nonneg [OF this]]
    have "unat n * 2 \<le> unat (n * of_nat 2)" using word_prod_small [of n 2] by simp
    thus "(read_chars_at p it' n 2 :: 16 word list reading) \<noteq> None"
      by (rule read_chars_at_returns [OF p])
  qed (rule ReadLength_returns [OF p])
  then show ?thesis using TString16 by (simp add: ReadString16_def)
next
  case TData
  have "fetch p (then_read (ReadBytes p it' n) (\<lambda>data iter. Some (Some (data, n), iter))) \<noteq> None" for it' n
  proof -
    obtain r it'' where r: "ReadBytes p it' n = Some (r, it'')"
      using fetch_ReadBytes_returns [OF p, of it' n] by fastforce
    show ?thesis
    proof (cases r)
      case (Some a)
      then obtain bs where "load p a (unat n) = Some bs"
        using fetch_ReadBytes_returns [OF p, of it' n a it''] r by auto
      with Some r show ?thesis by (simp add: fetch_def then_read_def)
    qed (simp add: r fetch_def then_read_def)
  qed
  then show ?thesis
    using ReadLength_returns [OF p, of it] TData
    by (auto simp: ReadData_def fetch_def then_read_def split: option.splits)
next
  case (TBytes n)
  then show ?thesis
    using fetch_ReadBytes_returns [OF p, of it n]
    by (fastforce simp: fetch_def wrap_def bind_eq_None_conv split: option.splits)
qed (use read_at_returns [OF p] in \<open>auto simp: ReadBool_def ReadInt_def ReadLong_def ReadSize_def
      ReadUInt16_def ReadUInt32_def ReadInt64_def ReadUInt64_def\<close>)

lemma read_values_return:
  assumes p: "readable p"
  shows "read_values p ts it \<noteq> None"
proof (induction ts arbitrary: it)
  case (Cons t ts)
  obtain x it' where "read_value p t it = Some (x, it')" using read_value_returns [OF p, of t it] by auto
  with Cons [of it'] show ?case by (auto split: option.split)
qed simp

lemma payload_size_of_data:
  assumes "pk_header p \<noteq> 0" "4 \<le> length (pickle_mem p)"
  shows "payload_size p = Some (word_of_bytes (take 4 (pickle_mem p)))"
  using assms by (simp add: payload_size_def load_def load_mem_def)

text \<open>What the constructor over foreign bytes checks is enough.\<close>

lemma Pickle_of_data_readable:
  assumes "Pickle_of_data a data = Some p" "a \<noteq> 0" "unat a + length data < 2 ^ 32"
  shows "readable p"
proof (cases "pk_header_size p = 0")
  case True
  thus ?thesis using assms(1) by (auto simp: Pickle_of_data_def readable_def Let_def bind_eq_Some_conv split: if_splits)
next
  case False
  let ?n = "word_of_bytes (take 4 data) :: 32 word"
  let ?l = "of_nat (length data) :: 32 word"
  have len: "unat ?l = length data" using assms(3) by (simp add: unat_of_nat take_bit_nat_eq_self)
  have big: "4 \<le> sint ?l" using assms(1) False
    by (auto simp: Pickle_of_data_def Let_def bind_eq_Some_conv split: if_splits)
  hence 4: "4 \<le> length data" using len unat_sint_nonneg [of ?l] by linarith
  have hs: "pk_header_size p = ?l - ?n" "?l - ?n \<le> ?l" and p: "pk_header p = a" "pickle_mem p = data"
    using assms(1,2) False big 4
    by (auto simp: Pickle_of_data_def Let_def bind_eq_Some_conv payload_size_of_data split: if_splits)
  have "unat (?l - ?n) + unat ?n = unat ?l"
    using hs(2) by (metis diff_add_cancel unat_plus_simple word_sub_le_iff le_add_diff_inverse2 unat_sub)
  thus ?thesis using assms(2,3) 4 p hs len by (simp add: readable_def payload_size_of_data)
qed

subsection \<open>Alignment\<close>

definition al :: "nat \<Rightarrow> nat" where "al n = (n + 3) div 4 * 4"

lemma al_bounds: "n \<le> al n" "al n < n + 4" "al n mod 4 = 0" "n mod 4 = 0 \<Longrightarrow> al n = n"
  unfolding al_def by presburger+

lemma al_add: "k mod 4 = 0 \<Longrightarrow> al (k + n) = k + al n"
  unfolding al_def by presburger

lemma align_nat:
  assumes "0 < (a :: nat)"
  shows "i + (a - i mod a) mod a = (i + a - 1) div a * a"
proof -
  obtain q r where i: "i = a * q + r" "r < a" using assms by (metis mult_div_mod_eq mod_less_divisor)
  show ?thesis
  proof (cases "r = 0")
    case True
    have "(a * q + a - 1) div a = q" using assms by (intro div_nat_eqI) (auto simp: algebra_simps)
    thus ?thesis using True i by (simp add: algebra_simps)
  next
    case False
    hence "(a * q + r + a - 1) div a = q + 1" using i(2) assms
      by (intro div_nat_eqI) (auto simp: algebra_simps)
    thus ?thesis using False i by (simp add: algebra_simps)
  qed
qed

lemma unat_AlignInt:
  assumes "0 < unat a" "unat i + unat a \<le> 2 ^ 32"
  shows "unat (AlignInt i a) = (unat i + unat a - 1) div unat a * unat a"
proof -
  have r: "unat (i mod a) = unat i mod unat a" by (simp add: unat_mod)
  hence "i mod a \<le> a" using assms(1) by (simp add: word_le_nat_alt less_imp_le)
  hence d: "unat ((a - i mod a) mod a) = (unat a - unat i mod unat a) mod unat a"
    using r by (simp add: unat_mod unat_sub)
  have "(unat a - unat i mod unat a) mod unat a < unat a" using assms(1) by simp
  hence "unat (AlignInt i a) = unat i + (unat a - unat i mod unat a) mod unat a"
    unfolding AlignInt_def using assms(2) d word_sum_small [of i "(a - i mod a) mod a"] by linarith
  thus ?thesis using align_nat [OF assms(1)] by simp
qed

lemma unat_AlignInt_4: "unat i + 4 \<le> 2 ^ 32 \<Longrightarrow> unat (AlignInt i 4) = al (unat i)"
  using unat_AlignInt [of 4 i] by (simp add: al_def)

lemma unat_AlignInt_64:
  "unat i + 64 \<le> 2 ^ 32 \<Longrightarrow> unat i \<le> unat (AlignInt i 64) \<and> unat (AlignInt i 64) mod 64 = 0"
  using unat_AlignInt [of 64 i] by simp

subsection \<open>Writing\<close>

text \<open>What the C library says of \<open>realloc\<close>: a block lies inside the address space.\<close>

definition realloc_ok :: "reallocator \<Rightarrow> bool" where
  "realloc_ok R \<longleftrightarrow> (\<forall>p n a fresh. R p n = Some (a, fresh) \<longrightarrow> a \<noteq> 0 \<and> unat a + unat n < 2 ^ 32)"

text \<open>The memory runs out: some size that a pickle asks for is refused.\<close>

definition refuses :: "reallocator \<Rightarrow> bool" where
  "refuses R \<longleftrightarrow> (\<exists>p n. unat n mod 64 = 0 \<and> R p n = None)"

definition placed :: "pickle \<Rightarrow> bool" where
  "placed p \<longleftrightarrow> pk_header p \<noteq> 0 \<and> unat (pk_header p) + length (pickle_mem p) < 2 ^ 32"

definition stored_size :: "pickle \<Rightarrow> 32 word" where
  "stored_size p = word_of_bytes (take 4 (pickle_mem p))"

definition contents :: "pickle \<Rightarrow> 8 word list" where
  "contents p = take (unat (stored_size p)) (drop (unat (pk_header_size p)) (pickle_mem p))"

definition owned :: "pickle \<Rightarrow> bool" where
  "owned p \<longleftrightarrow> placed p \<and> length (pickle_mem p) = unat (pk_capacity p) \<and> unat (pk_capacity p) mod 64 = 0 \<and>
     4 \<le> unat (pk_header_size p) \<and> unat (pk_header_size p) mod 4 = 0 \<and>
     unat (pk_header_size p) + unat (stored_size p) \<le> length (pickle_mem p)"

lemma load_at:
  "placed p \<Longrightarrow> unat a = unat (pk_header p) + off \<Longrightarrow> off + n \<le> length (pickle_mem p) \<Longrightarrow>
   load p a n = Some (take n (drop off (pickle_mem p)))"
  by (simp add: placed_def load_def load_mem_def word_le_nat_alt unat_sub)

lemma store_at:
  "placed p \<Longrightarrow> unat a = unat (pk_header p) + off \<Longrightarrow> off + length bs \<le> length (pickle_mem p) \<Longrightarrow>
   store a bs p = Some (p \<lparr> pickle_mem := overwrite off bs (pickle_mem p) \<rparr>)"
  by (simp add: placed_def store_def word_le_nat_alt unat_sub)

lemma placed_sum:
  "placed p \<Longrightarrow> unat b \<le> length (pickle_mem p) \<Longrightarrow> unat (pk_header p + b) = unat (pk_header p) + unat b"
  by (rule word_sum_small) (simp add: placed_def)

lemma owned_payload_size: "placed p \<Longrightarrow> 4 \<le> length (pickle_mem p) \<Longrightarrow> payload_size p = Some (stored_size p)"
  by (simp add: placed_def payload_size_of_data stored_size_def)

lemma owned_length: "owned p \<Longrightarrow> length (contents p) = unat (stored_size p)"
  by (auto simp: owned_def contents_def)

lemma stored_size_set:
  "4 \<le> length m \<Longrightarrow> stored_size (p \<lparr> pickle_mem := overwrite 0 (le_bytes 4 n) m \<rparr>) = n"
  by (simp add: stored_size_def overwrite_def word_of_le_bytes_full)

lemma take4_overwrite: "4 \<le> off \<Longrightarrow> off \<le> length m \<Longrightarrow> take 4 (overwrite off bs m) = take 4 m"
  by (simp add: overwrite_def)

lemma Resize_effect:
  assumes "realloc_ok R" "pk_capacity p \<noteq> kCapacityReadOnly" "unat n + 64 \<le> 2 ^ 32"
    "length (pickle_mem p) \<le> unat n"
  shows "Resize R n p = Some (False, p) \<and> refuses R \<or>
    (\<exists>a c more. Resize R n p = Some (True, p \<lparr> pk_header := a, pk_capacity := c, pickle_mem := pickle_mem p @ more \<rparr>) \<and>
       a \<noteq> 0 \<and> unat a + unat c < 2 ^ 32 \<and> length (pickle_mem p @ more) = unat c \<and> unat c mod 64 = 0 \<and>
       unat n \<le> unat c)"
proof (cases "R p (AlignInt n 64)")
  case (Some r)
  obtain a fresh where r: "r = (a, fresh)" by fastforce
  note c = unat_AlignInt_64 [OF assms(3)]
  have "a \<noteq> 0 \<and> unat a + unat (AlignInt n 64) < 2 ^ 32"
    using assms(1) Some r unfolding realloc_ok_def by blast
  moreover have "length (pickle_mem p @ map fresh [length (pickle_mem p)..<unat (AlignInt n 64)]) = unat (AlignInt n 64)"
    using c assms(4) by simp
  moreover have "take (unat (AlignInt n 64)) (pickle_mem p) = pickle_mem p" using c assms(4) by simp
  ultimately show ?thesis using Some r assms(2) c
    unfolding Resize_def kPayloadUnit_def Let_def
    by (intro disjI2 exI [of _ a] exI [of _ "AlignInt n 64"]
         exI [of _ "map fresh [length (pickle_mem p)..<unat (AlignInt n 64)]"]) auto
next
  case None
  hence "refuses R" unfolding refuses_def
    using unat_AlignInt_64 [OF assms(3)] by (intro exI [of _ p] exI [of _ "AlignInt n 64"]) simp
  thus ?thesis using None assms(2) by (simp add: Resize_def kPayloadUnit_def)
qed

lemma owned_not_read_only: "owned p \<Longrightarrow> pk_capacity p \<noteq> kCapacityReadOnly"
  by (auto simp: owned_def kCapacityReadOnly_def unsigned_minus_1_eq_mask mask_eq_exp_minus_1)

lemma doubled_capacity: "unat c mod 64 = 0 \<Longrightarrow> unat (c * 2 :: 32 word) + 64 \<le> 2 ^ 32"
proof -
  assume "unat c mod 64 = 0"
  then obtain k where k: "unat c = 64 * k" by (auto simp: mod_eq_0_iff_dvd dvd_def)
  have "unat (c * 2) = (128 * k) mod 2 ^ 32" using k by (simp add: unat_word_ariths)
  moreover have "(128 * k) mod (2 ^ 32) + 128 \<le> (2 :: nat) ^ 32"
    using mult_mod_right [of 128 k "2 ^ 25"] mod_less_divisor [of "2 ^ 25" k] by simp
  ultimately show ?thesis by linarith
qed

text \<open>Room for \<open>n\<close> more bytes after the contents \<open>c\<close>.\<close>

definition room_made :: "pickle \<Rightarrow> nat \<Rightarrow> 32 word \<Rightarrow> pickle \<Rightarrow> bool" where
  "room_made p n a p' \<longleftrightarrow> (let c = contents p; start = unat (pk_header_size p) + al (length c) in
     owned p' \<and> pk_header_size p' = pk_header_size p \<and> unat a = unat (pk_header p') + start \<and>
     unat (stored_size p') = al (length c) + n \<and> start + al n \<le> length (pickle_mem p') \<and>
     take (length c) (drop (unat (pk_header_size p)) (pickle_mem p')) = c)"

lemma set_payload_size_at:
  "placed p \<Longrightarrow> 4 \<le> length (pickle_mem p) \<Longrightarrow>
   set_payload_size n p = Some (p \<lparr> pickle_mem := overwrite 0 (le_bytes 4 n) (pickle_mem p) \<rparr>)"
  unfolding set_payload_size_def by (rule store_at) auto

lemma room_set:
  assumes p: "placed p" "length (pickle_mem p) = unat (pk_capacity p)" "unat (pk_capacity p) mod 64 = 0"
    and hs: "4 \<le> unat (pk_header_size p)" "unat (pk_header_size p) mod 4 = 0"
    and fits: "unat (pk_header_size p) + al (length c) + n \<le> length (pickle_mem p)"
    and c: "take (length c) (drop (unat (pk_header_size p)) (pickle_mem p)) = c"
    and k: "unat k = al (length c) + n"
  shows "\<exists>q. set_payload_size k p = Some q \<and> owned q \<and> pk_header_size q = pk_header_size p \<and>
    unat (payload q + AlignInt (of_nat (length c)) 4) = unat (pk_header q) + (unat (pk_header_size p) + al (length c)) \<and>
    stored_size q = k \<and> unat (pk_header_size p) + al (length c) + al n \<le> length (pickle_mem q) \<and>
    take (length c) (drop (unat (pk_header_size p)) (pickle_mem q)) = c"
proof -
  have 4: "4 \<le> length (pickle_mem p)" using fits hs by linarith
  let ?q = "p \<lparr> pickle_mem := overwrite 0 (le_bytes 4 k) (pickle_mem p) \<rparr>"
  have len: "length (pickle_mem ?q) = length (pickle_mem p)" using 4 by (simp add: length_overwrite)
  have drop: "drop (unat (pk_header_size p)) (pickle_mem ?q) = drop (unat (pk_header_size p)) (pickle_mem p)"
    using hs(1) 4 by (simp add: overwrite_def)
  have st: "stored_size ?q = k" by (rule stored_size_set [OF 4])
  have small: "unat (pk_header p) + length (pickle_mem p) < 2 ^ 32" using p(1) by (simp add: placed_def)
  have lc: "length c \<le> al (length c)" by (rule al_bounds)
  hence "unat (of_nat (length c) :: 32 word) = length c"
    using fits small by (simp add: unat_of_nat take_bit_nat_eq_self)
  moreover have "al (length c) < 2 ^ 32 - 4" using fits small hs by linarith
  ultimately have A: "unat (AlignInt (of_nat (length c)) 4) = al (length c)"
    using lc by (subst unat_AlignInt_4) simp_all
  have P: "unat (payload ?q) = unat (pk_header p) + unat (pk_header_size p)"
    using placed_sum [OF p(1), of "pk_header_size p"] fits by (simp add: payload_def)
  have "unat (payload ?q + AlignInt (of_nat (length c)) 4) = unat (pk_header p) + (unat (pk_header_size p) + al (length c))"
    using A P fits small by (subst word_sum_small) linarith+
  moreover have "unat (pk_header_size p) + al (length c) + al n \<le> length (pickle_mem p)"
  proof -
    have "(unat (pk_header_size p) + al (length c)) mod 4 = 0" using hs(2) al_bounds(3) [of "length c"] by presburger
    moreover have "length (pickle_mem p) mod 4 = 0" using p(2,3) by presburger
    ultimately show ?thesis using fits unfolding al_def [of n] by presburger
  qed
  moreover have "owned ?q"
    using p hs fits st k len by (auto simp: owned_def placed_def)
  ultimately show ?thesis
    using set_payload_size_at [OF p(1) 4] st len drop c by (intro exI [of _ ?q]) simp
qed

lemma BeginWrite_effect:
  assumes R: "realloc_ok R" and p: "owned p"
    and small: "unat (pk_header_size p) + al (length (contents p)) + unat n < 2 ^ 31"
  shows "\<exists>p'. BeginWrite R n p = Some (None, p') \<and> refuses R \<or>
    (\<exists>a. BeginWrite R n p = Some (Some a, p') \<and> room_made p (unat n) a p')"
proof -
  let ?c = "contents p" and ?hs = "unat (pk_header_size p)"
  note o = p [unfolded owned_def]
  have sz: "payload_size p = Some (stored_size p)" using o by (intro owned_payload_size) linarith+
  have lc: "unat (stored_size p) = length ?c" using owned_length [OF p] by simp
  have sizes: "stored_size p = of_nat (length ?c)" using lc [symmetric] by simp
  have al: "unat (AlignInt (stored_size p) 4) = al (length ?c)"
    using lc small al_bounds(1) [of "length ?c"] by (subst unat_AlignInt_4) simp_all
  define k where "k = AlignInt (stored_size p) 4 + n"
  have kk: "AlignInt (of_nat (length ?c)) 4 + n = k" using sizes by (simp add: k_def)
  have k: "unat k = al (length ?c) + unat n" unfolding k_def using al small by (subst word_sum_small) simp_all
  have need: "unat (pk_header_size p + k) = ?hs + al (length ?c) + unat n"
    using k small by (subst word_sum_small) simp_all
  have c: "take (length ?c) (drop ?hs (pickle_mem p)) = ?c" using lc by (simp add: contents_def)
  show ?thesis
  proof (cases "pk_header_size p + k > pk_capacity p")
    case False
    hence fits: "?hs + al (length ?c) + unat n \<le> length (pickle_mem p)"
      using need o by (simp add: word_less_nat_alt)
    from room_set [OF _ _ _ _ _ fits c k] o show ?thesis
      using False sz sizes k by (auto simp: BeginWrite_def kk room_made_def Let_def)
  next
    case True
    let ?m = "max (pk_capacity p * 2) (pk_header_size p + k)"
    have le: "length (pickle_mem p) \<le> unat ?m" "?hs + al (length ?c) + unat n \<le> unat ?m"
      using True need o by (auto simp: word_less_nat_alt word_le_nat_alt max_def)
    have "unat ?m + 64 \<le> 2 ^ 32"
      using doubled_capacity [of "pk_capacity p"] o need small by (simp add: max_def)
    from Resize_effect [OF R owned_not_read_only [OF p] this le(1)] show ?thesis
    proof (elim disjE exE conjE)
      assume "Resize R ?m p = Some (False, p)" "refuses R"
      thus ?thesis using True sz sizes by (simp add: BeginWrite_def kk)
    next
      fix b cap more
      let ?q = "p \<lparr> pk_header := b, pk_capacity := cap, pickle_mem := pickle_mem p @ more \<rparr>"
      assume r: "Resize R ?m p = Some (True, ?q)" "b \<noteq> 0" "unat b + unat cap < 2 ^ 32"
        "length (pickle_mem p @ more) = unat cap" "unat cap mod 64 = 0" "unat ?m \<le> unat cap"
      have "\<exists>q. set_payload_size k ?q = Some q \<and> owned q \<and> pk_header_size q = pk_header_size ?q \<and>
        unat (payload q + AlignInt (of_nat (length ?c)) 4) = unat (pk_header q) + (unat (pk_header_size ?q) + al (length ?c)) \<and>
        stored_size q = k \<and> unat (pk_header_size ?q) + al (length ?c) + al (unat n) \<le> length (pickle_mem q) \<and>
        take (length ?c) (drop (unat (pk_header_size ?q)) (pickle_mem q)) = ?c"
        by (rule room_set) (use r o le(2) c k lc in \<open>auto simp: placed_def\<close>)
      then obtain q where "set_payload_size k ?q = Some q" "owned q" "pk_header_size q = pk_header_size p"
        "unat (payload q + AlignInt (of_nat (length ?c)) 4) = unat (pk_header q) + (?hs + al (length ?c))"
        "stored_size q = k" "?hs + al (length ?c) + al (unat n) \<le> length (pickle_mem q)"
        "take (length ?c) (drop ?hs (pickle_mem q)) = ?c" by auto
      thus ?thesis using True sz sizes r(1) k
        by (intro exI [of _ q] disjI2 exI [of _ "payload q + AlignInt (of_nat (length ?c)) 4"])
           (simp add: BeginWrite_def kk room_made_def Let_def)
    qed
  qed
qed

text \<open>Segments lie one after the other, each from the next multiple of four on.\<close>

fun lays :: "nat \<Rightarrow> 8 word list list \<Rightarrow> 8 word list \<Rightarrow> bool" where
  "lays k [] c = (k = al (length c))"
| "lays k (s # ss) c = (k + length s \<le> length c \<and> take (length s) (drop k c) = s \<and>
     lays (al (k + length s)) ss c)"

lemma lays_snoc:
  "lays k ss c \<Longrightarrow> length pad = al (length c) - length c \<Longrightarrow> lays k (ss @ [s]) (c @ pad @ s)"
proof (induction ss arbitrary: k)
  case Nil
  with al_bounds(1) [of "length c"] show ?case by (simp add: al_bounds(3,4))
qed auto

definition appended :: "pickle \<Rightarrow> 8 word list list \<Rightarrow> pickle \<Rightarrow> bool" where
  "appended p ss p' \<longleftrightarrow> owned p' \<and> pk_header_size p' = pk_header_size p \<and>
     al (length (contents p')) = al (length (contents p)) + sum_list (map (al \<circ> length) ss) \<and>
     (\<forall>k ts. lays k ts (contents p) \<longrightarrow> lays k (ts @ ss) (contents p'))"

lemma appended_trans: "appended p ss q \<Longrightarrow> appended q ts r \<Longrightarrow> appended p (ss @ ts) r"
  by (simp add: appended_def) (metis append.assoc)

lemma take_split:
  assumes "i \<le> j"
  shows "take (j + n) (drop h m) = take i (drop h m) @ take (j - i) (drop (h + i) m) @ take n (drop (h + j) m)"
  using take_add [of i "j - i" "drop h m"] take_add [of j n "drop h m"] assms by (simp add: add.commute)

lemma appendedI:
  assumes "owned p'" "pk_header_size p' = pk_header_size p" "contents p' = contents p @ pad @ s"
    "length pad = al (length (contents p)) - length (contents p)"
  shows "appended p [s] p'"
  unfolding appended_def
proof (intro conjI allI impI)
  show "al (length (contents p')) = al (length (contents p)) + sum_list (map (al \<circ> length) [s])"
    using assms(3,4) al_bounds(1) [of "length (contents p)"] al_add [OF al_bounds(3) [of "length (contents p)"]] by simp
qed (use assms lays_snoc in auto)

lemma room_made_store:
  assumes "room_made p (length bs) a p'"
  shows "\<exists>q. store a bs p' = Some q \<and> (\<exists>q'. EndWrite a (of_nat (length bs)) q = Some q' \<and> appended p [bs] q')"
proof -
  let ?c = "contents p" and ?hs = "unat (pk_header_size p)" and ?m = "pickle_mem p'"
  let ?st = "?hs + al (length ?c)"
  have p': "owned p'" "pk_header_size p' = pk_header_size p" "unat a = unat (pk_header p') + ?st"
    "unat (stored_size p') = al (length ?c) + length bs" "?st + al (length bs) \<le> length ?m"
    "take (length ?c) (drop ?hs ?m) = ?c"
    using assms by (auto simp: room_made_def Let_def)
  note o = p'(1) [unfolded owned_def]
  have lb: "length bs \<le> al (length bs)" "length ?c \<le> al (length ?c)" by (rule al_bounds)+
  let ?m1 = "overwrite ?st bs ?m"
  let ?q = "p' \<lparr> pickle_mem := ?m1 \<rparr>"
  have s1: "store a bs p' = Some ?q" by (rule store_at) (use o p' lb in auto)
  have len1: "length ?m1 = length ?m" using p'(5) lb by (intro length_overwrite) linarith
  have placed1: "placed ?q" using o len1 by (simp add: placed_def)
  define z where "z = (if length bs mod 4 = 0 then [] else replicate (4 - length bs mod 4) (0 :: 8 word))"
  have z: "length bs + length z = al (length bs)" unfolding z_def al_def by simp presburger
  let ?m2 = "overwrite (?st + length bs) z ?m1"
  let ?q' = "p' \<lparr> pickle_mem := ?m2 \<rparr>"
  have small: "unat (pk_header p') + length ?m < 2 ^ 32" using o by (simp add: placed_def)
  have n: "unat (of_nat (length bs) :: 32 word) = length bs"
    using small p'(5) lb by (simp add: unat_of_nat take_bit_nat_eq_self)
  have fin: "unat (a + of_nat (length bs)) = unat (pk_header p') + (?st + length bs)"
    using n p'(3,5) lb small by (subst word_sum_small) simp_all
  have fill: "replicate (unat (4 - of_nat (length bs) mod 4 :: 32 word)) 0 = z" if "length bs mod 4 \<noteq> 0"
  proof -
    have "unat (of_nat (length bs) mod 4 :: 32 word) = length bs mod 4" using n by (simp add: unat_mod)
    thus ?thesis using that by (simp add: z_def unat_sub word_le_nat_alt less_imp_le)
  qed
  have e: "EndWrite a (of_nat (length bs)) ?q = Some ?q'"
  proof (cases "length bs mod 4 = 0")
    case True
    hence "(of_nat (length bs) mod 4 :: 32 word) = 0" using n by (simp add: word_unat_eq_iff unat_mod)
    thus ?thesis using True by (simp add: EndWrite_def z_def)
  next
    case False
    hence "(of_nat (length bs) mod 4 :: 32 word) \<noteq> 0" using n by (simp add: word_unat_eq_iff unat_mod)
    moreover have "store (a + of_nat (length bs)) z ?q = Some (?q \<lparr> pickle_mem := overwrite (?st + length bs) z (pickle_mem ?q) \<rparr>)"
      by (rule store_at [OF placed1]) (use fin len1 z p'(5) in auto)
    ultimately show ?thesis using fill [OF False] by (simp add: EndWrite_def)
  qed
  have len2: "length ?m2 = length ?m"
    using z p'(5) len1 length_overwrite [of "?st + length bs" z ?m1] by simp
  have st2: "stored_size ?q' = stored_size p'"
    using o p'(2,5) len1 lb z by (simp add: stored_size_def take4_overwrite)
  have parts: "contents ?q' = ?c @ take (al (length ?c) - length ?c) (drop (?hs + length ?c) ?m) @ bs"
  proof -
    have away: "take n (drop j ?m2) = take n (drop j ?m)" if "j + n \<le> ?st" for n j
      using that z p'(5) len1 lb by (simp add: read_overwrite_away)
    have here: "take (length bs) (drop ?st ?m2) = bs"
      using z p'(5) len1 lb read_overwrite [of ?st bs ?m] by (simp add: read_overwrite_away)
    have "contents ?q' = take (al (length ?c) + length bs) (drop ?hs ?m2)"
      using st2 p'(2,4) by (simp add: contents_def)
    thus ?thesis unfolding take_split [OF lb(2)] here using p'(6) lb by (simp add: away)
  qed
  have "owned ?q'"
    using o p' len2 st2 lb by (auto simp: owned_def placed_def)
  hence "appended p [bs] ?q'"
    by (rule appendedI) (use p'(2,5) parts lb in auto)
  thus ?thesis using s1 e by blast
qed

lemma WriteBytes_effect:
  assumes "realloc_ok R" "owned p" "unat (pk_header_size p) + al (length (contents p)) + length bs < 2 ^ 31"
  shows "\<exists>p'. WriteBytes R bs (of_nat (length bs)) p = Some (False, p') \<and> refuses R \<or>
    WriteBytes R bs (of_nat (length bs)) p = Some (True, p') \<and> appended p [bs] p'"
proof -
  have n: "unat (of_nat (length bs) :: 32 word) = length bs"
    using assms(3) by (simp add: unat_of_nat take_bit_nat_eq_self)
  from BeginWrite_effect [OF assms(1,2), of "of_nat (length bs)"] assms(3) n
  obtain p' where "BeginWrite R (of_nat (length bs)) p = Some (None, p') \<and> refuses R \<or>
      (\<exists>a. BeginWrite R (of_nat (length bs)) p = Some (Some a, p') \<and> room_made p (length bs) a p')" by auto
  thus ?thesis
  proof (elim disjE exE conjE)
    fix a
    assume *: "BeginWrite R (of_nat (length bs)) p = Some (Some a, p')" "room_made p (length bs) a p'"
    from room_made_store [OF *(2)] *(1) n show ?thesis by (auto simp: WriteBytes_def)
  qed (simp add: WriteBytes_def)
qed

end
