(* ===== verification/PickleProps.thy ===== *)
theory PickleProps
  imports PickleSpec
begin

text \<open>
  Writing and reading typed values, and the properties of \<open>Pickle\<close>.
\<close>

subsection \<open>The segments a value is written as\<close>

fun segs :: "pvalue \<Rightarrow> 8 word list list" where
  "segs (VBool b) = [le_bytes 4 (if b then 1 else 0 :: 32 word)]"
| "segs (VInt w) = [le_bytes 4 w]"
| "segs (VLong w) = [le_bytes 4 w]"
| "segs (VSize w) = [le_bytes 4 w]"
| "segs (VUInt16 w) = [le_bytes 2 w]"
| "segs (VUInt32 w) = [le_bytes 4 w]"
| "segs (VInt64 w) = [le_bytes 8 w]"
| "segs (VUInt64 w) = [le_bytes 8 w]"
| "segs (VString s) = [le_bytes 4 (of_nat (length s) :: 32 word), s]"
| "segs (VWString s) = [le_bytes 4 (of_nat (length s) :: 32 word), concat (map (le_bytes 4) s)]"
| "segs (VString16 s) = [le_bytes 4 (of_nat (length s) :: 32 word), concat (map (le_bytes 2) s)]"
| "segs (VData s) = [le_bytes 4 (of_nat (length s) :: 32 word), s]"
| "segs (VBytes s) = [s]"

fun write_value :: "reallocator \<Rightarrow> pvalue \<Rightarrow> pickle \<Rightarrow> (bool \<times> pickle) option" where
  "write_value R (VBool b) p = WriteBool R b p"
| "write_value R (VInt w) p = WriteInt R w p"
| "write_value R (VLong w) p = WriteLong R w p"
| "write_value R (VSize w) p = WriteSize R w p"
| "write_value R (VUInt16 w) p = WriteUInt16 R w p"
| "write_value R (VUInt32 w) p = WriteUInt32 R w p"
| "write_value R (VInt64 w) p = WriteInt64 R w p"
| "write_value R (VUInt64 w) p = WriteUInt64 R w p"
| "write_value R (VString s) p = WriteString R s p"
| "write_value R (VWString s) p = WriteWString R s p"
| "write_value R (VString16 s) p = WriteString16 R s p"
| "write_value R (VData s) p = WriteData R s (of_nat (length s)) p"
| "write_value R (VBytes s) p = WriteBytes R s (of_nat (length s)) p"

fun write_values :: "reallocator \<Rightarrow> pvalue list \<Rightarrow> pickle \<Rightarrow> (bool \<times> pickle) option" where
  "write_values R [] p = Some (True, p)"
| "write_values R (v # vs) p = then_write (write_value R v p) (write_values R vs)"

definition segs_size :: "8 word list list \<Rightarrow> nat" where
  "segs_size ss = sum_list (map (al \<circ> length) ss)"

lemma segs_size_simps [simp]:
  "segs_size [] = 0" "segs_size (s # ss) = al (length s) + segs_size ss"
  "segs_size (ss @ ts) = segs_size ss + segs_size ts"
  by (simp_all add: segs_size_def)

definition wrote :: "reallocator \<Rightarrow> pickle \<Rightarrow> 8 word list list \<Rightarrow> (bool \<times> pickle) option \<Rightarrow> bool" where
  "wrote R p ss r \<longleftrightarrow> (\<exists>p'. r = Some (False, p') \<and> refuses R \<or> r = Some (True, p') \<and> appended p ss p')"

text \<open>The room a pickle may still take up.\<close>

definition fits_in :: "nat \<Rightarrow> pickle \<Rightarrow> bool" where
  "fits_in n p \<longleftrightarrow> owned p \<and> unat (pk_header_size p) + al (length (contents p)) + n < 2 ^ 31"

lemma fits_in_appended: "appended p ss p' \<Longrightarrow> fits_in (segs_size ss + n) p \<Longrightarrow> fits_in n p'"
  by (simp add: appended_def fits_in_def segs_size_def)

lemma wrote_bytes:
  assumes "realloc_ok R" "fits_in (al (length bs)) p" "n = of_nat (length bs)"
  shows "wrote R p [bs] (WriteBytes R bs n p)"
  using WriteBytes_effect [OF assms(1), of p bs] assms(2,3) al_bounds(1) [of "length bs"]
  unfolding wrote_def fits_in_def by fastforce

lemma wrote_then:
  assumes "wrote R p ss r" "\<And>p'. appended p ss p' \<Longrightarrow> wrote R p' ts (f p')"
  shows "wrote R p (ss @ ts) (then_write r f)"
  using assms appended_trans unfolding wrote_def then_write_def by (fastforce split: option.splits)

lemma wrote_length_and_bytes:
  assumes R: "realloc_ok R" and fits: "fits_in (segs_size [le_bytes 4 n, bs]) p" and k: "k = of_nat (length bs)"
  shows "wrote R p [le_bytes 4 n, bs] (then_write (WriteInt R n p) (WriteBytes R bs k))"
proof -
  have "wrote R p [le_bytes 4 n] (WriteInt R n p)" unfolding WriteInt_def
    by (rule wrote_bytes [OF R]) (use fits in \<open>auto simp: fits_in_def\<close>)
  hence "wrote R p ([le_bytes 4 n] @ [bs]) (then_write (WriteInt R n p) (WriteBytes R bs k))"
    by (rule wrote_then)
       (use R k fits in \<open>auto intro!: wrote_bytes dest: fits_in_appended [where n = "al (length bs)"]\<close>)
  thus ?thesis by simp
qed

lemma length_concat_le_bytes: "length (concat (map (le_bytes n) v)) = n * length v"
  by (induction v) auto

lemma wrote_value:
  assumes R: "realloc_ok R" and fits: "fits_in (segs_size (segs v)) p"
  shows "wrote R p (segs v) (write_value R v p)"
proof (cases v)
  case (VData s)
  have "length s < 2 ^ 31" using fits VData al_bounds(1) [of "length s"] by (simp add: fits_in_def)
  hence "\<not> (of_nat (length s) :: 32 word) <s 0"
    by (simp add: word_sless_alt signed_of_nat signed_take_bit_int_eq_self)
  thus ?thesis using VData wrote_length_and_bytes [OF R] fits by (simp add: WriteData_def)
next
  case (VString s)
  thus ?thesis using wrote_length_and_bytes [OF R] fits by (simp add: WriteString_def)
next
  case (VWString s)
  show ?thesis unfolding VWString WriteWString_def write_value.simps segs.simps
    by (rule wrote_length_and_bytes [OF R])
       (use fits VWString in \<open>simp_all add: length_concat_le_bytes mult.commute\<close>)
next
  case (VString16 s)
  show ?thesis unfolding VString16 WriteString16_def write_value.simps segs.simps
    by (rule wrote_length_and_bytes [OF R])
       (use fits VString16 in \<open>simp_all add: length_concat_le_bytes mult.commute\<close>)
qed (use fits in \<open>auto simp: WriteBool_def WriteInt_def WriteLong_def WriteSize_def WriteUInt16_def WriteUInt32_def
       WriteInt64_def WriteUInt64_def intro!: wrote_bytes [OF R]\<close>)

lemma wrote_values:
  assumes R: "realloc_ok R" and fits: "fits_in (segs_size (concat (map segs vs))) p"
  shows "wrote R p (concat (map segs vs)) (write_values R vs p)"
  using fits
proof (induction vs arbitrary: p)
  case (Cons v vs)
  have "wrote R p (segs v) (write_value R v p)"
    by (rule wrote_value [OF R]) (use Cons.prems in \<open>simp add: fits_in_def\<close>)
  thus ?case using Cons.IH Cons.prems
    by (auto intro!: wrote_then dest: fits_in_appended)
qed (auto simp: wrote_def appended_def fits_in_def)

subsection \<open>Reading what was written\<close>

text \<open>A pickle over the bytes of a message, with some room behind it in the address space.\<close>

definition framed :: "pickle \<Rightarrow> bool" where
  "framed r \<longleftrightarrow> placed r \<and> 4 \<le> length (pickle_mem r) \<and> length (pickle_mem r) < 2 ^ 31 \<and>
     unat (pk_header r) + length (pickle_mem r) + 8 < 2 ^ 32 \<and>
     unat (pk_header_size r) + unat (stored_size r) = length (pickle_mem r)"

definition at_pos :: "pickle \<Rightarrow> nat \<Rightarrow> 32 word" where
  "at_pos r k = payload r + of_nat k"

lemma framed_contents: "framed r \<Longrightarrow> length (contents r) = unat (stored_size r)"
  by (auto simp: framed_def contents_def)

lemma unat_at_pos:
  assumes "framed r" "k \<le> length (contents r) + 3"
  shows "unat (at_pos r k) = unat (pk_header r) + unat (pk_header_size r) + k"
proof -
  note f = assms(1) [unfolded framed_def] and c = framed_contents [OF assms(1)]
  have k: "unat (of_nat k :: 32 word) = k"
    using f assms(2) c by (simp add: unat_of_nat take_bit_nat_eq_self)
  have p: "unat (payload r) = unat (pk_header r) + unat (pk_header_size r)"
    unfolding payload_def by (rule word_sum_small) (use f in simp)
  show ?thesis unfolding at_pos_def using f assms(2) c k p by (subst word_sum_small) simp_all
qed

lemma framed_end: "framed r \<Longrightarrow> end_of_payload r = Some (at_pos r (length (contents r)))"
  by (simp add: framed_contents) (simp add: framed_def end_of_payload_def at_pos_def placed_def owned_payload_size)

lemma room_at:
  assumes r: "framed r" and k: "k + n \<le> length (contents r)"
  shows "IteratorHasRoomFor r (at_pos r k) (of_nat n) = Some True"
proof -
  note f = r [unfolded framed_def]
  have n: "n < 2 ^ 31" using k f framed_contents [OF r] by linarith
  have pos: "unat (at_pos r k) = unat (pk_header r) + unat (pk_header_size r) + k"
    "unat (at_pos r (length (contents r))) = unat (pk_header r) + unat (pk_header_size r) + length (contents r)"
    using unat_at_pos [OF r] k by simp_all
  have "unat (of_nat n :: 32 word) = n" using n by (simp add: unat_of_nat take_bit_nat_eq_self)
  hence "unat (at_pos r k + of_nat n) = unat (at_pos r k) + n"
    using pos k f framed_contents [OF r] by (subst word_sum_small) simp_all
  moreover have "\<not> (of_nat n :: 32 word) <s 0"
    using n by (simp add: word_sless_alt signed_of_nat signed_take_bit_int_eq_self)
  ultimately show ?thesis using pos k
    by (simp add: IteratorHasRoomFor_def framed_end [OF r] Let_def word_less_nat_alt word_le_nat_alt)
qed

lemma load_at_pos:
  assumes r: "framed r" and k: "k + n \<le> length (contents r)"
  shows "load r (at_pos r k) n = Some (take n (drop k (contents r)))"
proof -
  note f = r [unfolded framed_def]
  have "load r (at_pos r k) n = Some (take n (drop (unat (pk_header_size r) + k) (pickle_mem r)))"
    using unat_at_pos [OF r, of k] k framed_contents [OF r] f by (intro load_at) simp_all
  moreover have "take n (drop (unat (pk_header_size r) + k) (pickle_mem r)) = take n (drop k (contents r))"
    using k framed_contents [OF r] by (simp add: contents_def drop_take add.commute min_def)
  ultimately show ?thesis by simp
qed

lemma UpdateIter_at_pos:
  assumes r: "framed r" and k: "k + n \<le> length (contents r)" "k mod 4 = 0"
  shows "UpdateIter (at_pos r k) (of_nat n) = at_pos r (al (k + n))"
proof -
  note f = r [unfolded framed_def]
  have n: "n < 2 ^ 31" using k f framed_contents [OF r] by linarith
  hence u: "unat (of_nat n :: 32 word) = n" by (simp add: unat_of_nat take_bit_nat_eq_self)
  hence "al n = unat (AlignInt (of_nat n) 4)" using n by (subst unat_AlignInt_4) simp_all
  hence "AlignInt (of_nat n) 4 = of_nat (al n)" by simp
  thus ?thesis using al_add [OF k(2)] by (simp add: UpdateIter_def at_pos_def)
qed

definition holds_seg :: "pickle \<Rightarrow> nat \<Rightarrow> 8 word list \<Rightarrow> bool" where
  "holds_seg r k s \<longleftrightarrow> framed r \<and> k mod 4 = 0 \<and> k + length s \<le> length (contents r) \<and>
     take (length s) (drop k (contents r)) = s"

lemma holds_seg_size: "holds_seg r k s \<Longrightarrow> length s < 2 ^ 31"
  unfolding holds_seg_def using framed_contents [of r] by (auto simp: framed_def)

lemma holds_seg_unat: "holds_seg r k s \<Longrightarrow> unat (of_nat (length s) :: 32 word) = length s"
  using holds_seg_size [of r k s] by (simp add: unat_of_nat take_bit_nat_eq_self)

lemma read_at_pos:
  assumes h: "holds_seg r k s" and n: "n = of_nat (length s)"
  shows "read_at r (at_pos r k) n f = Some (Some (f s), at_pos r (al (k + length s)))"
  using room_at [of r k "length s"] load_at_pos [of r k "length s"] UpdateIter_at_pos [of r k "length s"] h
    holds_seg_unat [OF h]
  unfolding holds_seg_def n read_at_def by simp

lemma start_at_pos: "framed r \<Longrightarrow> k \<le> length (contents r) + 3 \<Longrightarrow> start_iter r (at_pos r k) = at_pos r k"
  using unat_at_pos [of r k] by (auto simp: start_iter_def framed_def placed_def word_unat_eq_iff)

lemma start_null: "framed r \<Longrightarrow> start_iter r 0 = at_pos r 0"
  by (simp add: start_iter_def at_pos_def)

lemma read_int_at:
  assumes h: "holds_seg r k (le_bytes 4 n)"
  shows "ReadInt r (at_pos r k) = Some (Some n, at_pos r (k + 4))"
proof -
  have "start_iter r (at_pos r k) = at_pos r k" using h by (intro start_at_pos) (auto simp: holds_seg_def)
  moreover have "al (k + 4) = k + 4" using h by (simp add: holds_seg_def al_bounds(4))
  ultimately show ?thesis using read_at_pos [OF h, of 4 "word_of_bytes :: _ \<Rightarrow> 32 word"]
    by (simp add: ReadInt_def word_of_le_bytes_full)
qed

lemma read_length_at:
  assumes h: "holds_seg r k (le_bytes 4 (of_nat n :: 32 word))" and n: "n < 2 ^ 31"
  shows "ReadLength r (at_pos r k) = Some (Some (of_nat n), at_pos r (k + 4))"
  using read_int_at [OF h] n
  by (simp add: ReadLength_def word_sless_alt signed_of_nat signed_take_bit_int_eq_self)

lemma chars_of_le_bytes:
  "0 < w \<Longrightarrow> LENGTH('a::len) \<le> 8 * w \<Longrightarrow> chars_of w (concat (map (le_bytes w) v)) = (v :: 'a word list)"
proof (induction v)
  case (Cons x v)
  then show ?case by (subst chars_of.simps) (auto simp: word_of_le_bytes_full)
qed (simp add: chars_of.simps)

lemma read_chars_at_pos:
  fixes v :: "'a::len word list"
  assumes h: "holds_seg r k (concat (map (le_bytes w) v))" and w: "0 < w" "LENGTH('a) \<le> 8 * w"
  shows "read_chars_at r (at_pos r k) (of_nat (length v)) w =
    Some (Some v, at_pos r (al (k + length (concat (map (le_bytes w) v)))))"
proof -
  let ?s = "concat (map (le_bytes w) v)"
  have l: "length ?s = length v * w" by (simp add: length_concat_le_bytes mult.commute)
  have "length v \<le> length v * w" using w(1) by simp
  hence "length v < 2 ^ 31" using holds_seg_size [OF h] l by linarith
  hence u: "unat (of_nat (length v) :: 32 word) = length v" by (simp add: unat_of_nat take_bit_nat_eq_self)
  have n: "of_nat (length v) * of_nat w = (of_nat (length ?s) :: 32 word)" using l by simp
  show ?thesis
    using room_at [of r k "length ?s"] load_at_pos [of r k "length ?s"] UpdateIter_at_pos [of r k "length ?s"] h
      chars_of_le_bytes [OF w, of v]
    unfolding read_chars_at_def n u l [symmetric] holds_seg_def by simp
qed

text \<open>The segments \<open>ss\<close> and then \<open>ts\<close> are what is left to read at \<open>k\<close>.\<close>

definition ahead :: "pickle \<Rightarrow> nat \<Rightarrow> 8 word list list \<Rightarrow> bool" where
  "ahead r k ss \<longleftrightarrow> framed r \<and> k mod 4 = 0 \<and> lays k ss (contents r)"

lemma ahead_Cons: "ahead r k (s # ss) \<longleftrightarrow> holds_seg r k s \<and> ahead r (al (k + length s)) ss"
  by (auto simp: ahead_def holds_seg_def al_bounds(3))

lemma ahead_length: "ahead r k (le_bytes 4 n # ss) \<longleftrightarrow> holds_seg r k (le_bytes 4 n) \<and> ahead r (k + 4) ss"
  by (auto simp: ahead_Cons holds_seg_def al_bounds(4))

lemma ahead_string:
  assumes "ahead r k (le_bytes 4 (of_nat n :: 32 word) # s # ss)" "n \<le> length s"
  shows "ReadLength r (at_pos r k) = Some (Some (of_nat n), at_pos r (k + 4))" "holds_seg r (k + 4) s"
    "ahead r (al (k + 4 + length s)) ss" "n < 2 ^ 31"
proof -
  have h: "holds_seg r k (le_bytes 4 (of_nat n :: 32 word))" and rest: "ahead r (k + 4) (s # ss)"
    using assms(1) unfolding ahead_length by auto
  from rest have s: "holds_seg r (k + 4) s" unfolding ahead_Cons by simp
  show n: "n < 2 ^ 31" using holds_seg_size [OF s] assms(2) by linarith
  from read_length_at [OF h n] show "ReadLength r (at_pos r k) = Some (Some (of_nat n), at_pos r (k + 4))" .
  show "holds_seg r (k + 4) s" by (rule s)
  show "ahead r (al (k + 4 + length s)) ss" using rest unfolding ahead_Cons by simp
qed

lemma ahead_scalar:
  assumes "ahead r k (s # ss)" "n = of_nat (length s)"
  shows "\<exists>k'. read_at r (start_iter r (at_pos r k)) n f = Some (Some (f s), at_pos r k') \<and> ahead r k' ss"
proof -
  have h: "holds_seg r k s" using assms(1) by (simp add: ahead_Cons)
  hence "start_iter r (at_pos r k) = at_pos r k" by (intro start_at_pos) (auto simp: holds_seg_def)
  thus ?thesis using read_at_pos [OF h assms(2)] assms(1) by (auto simp: ahead_Cons)
qed

lemma ReadBytes_at:
  assumes h: "holds_seg r k s"
  shows "ReadBytes r (at_pos r k) (of_nat (length s)) = Some (Some (at_pos r k), at_pos r (al (k + length s)))"
    "load r (at_pos r k) (length s) = Some s"
  using room_at [of r k "length s"] load_at_pos [of r k "length s"] UpdateIter_at_pos [of r k "length s"]
    start_at_pos [of r k] h
  by (simp_all add: holds_seg_def ReadBytes_def)

lemma read_value_ahead:
  assumes "ahead r k (segs v @ ss)"
  shows "\<exists>k'. read_value r (ptype_of v) (at_pos r k) = Some (Some v, at_pos r k') \<and> ahead r k' ss"
proof (cases v)
  case (VString s)
  note a = ahead_string [OF assms [unfolded VString segs.simps append_Cons append_Nil] order_refl]
  show ?thesis using VString a(1,3) read_at_pos [OF a(2) refl, of id]
    by (auto simp: ReadString_def then_read_def wrap_def)
next
  case (VWString s)
  have "length s \<le> length (concat (map (le_bytes 4) s))" by (simp add: length_concat_le_bytes)
  note a = ahead_string [OF assms [unfolded VWString segs.simps append_Cons append_Nil] this]
  have "length s \<le> 536870911" using holds_seg_size [OF a(2)] by (simp add: length_concat_le_bytes)
  hence "\<not> sint (of_nat (length s) :: 32 word) > 2147483647 div 4"
    by (simp add: signed_of_nat signed_take_bit_int_eq_self)
  thus ?thesis using VWString a(1,3) read_chars_at_pos [OF a(2)]
    by (auto simp: ReadWString_def then_read_def wrap_def)
next
  case (VString16 s)
  have "length s \<le> length (concat (map (le_bytes 2) s))" by (simp add: length_concat_le_bytes)
  note a = ahead_string [OF assms [unfolded VString16 segs.simps append_Cons append_Nil] this]
  show ?thesis using VString16 a(1,3) read_chars_at_pos [OF a(2)]
    by (auto simp: ReadString16_def then_read_def wrap_def)
next
  case (VData s)
  note a = ahead_string [OF assms [unfolded VData segs.simps append_Cons append_Nil] order_refl]
  show ?thesis using VData a(1,3) ReadBytes_at [OF a(2)] holds_seg_unat [OF a(2)]
    by (auto simp: ReadData_def then_read_def fetch_def wrap_def)
next
  case (VBytes s)
  hence h: "holds_seg r k s" "ahead r (al (k + length s)) ss" using assms by (simp_all add: ahead_Cons)
  show ?thesis using VBytes h(2) ReadBytes_at [OF h(1)] holds_seg_unat [OF h(1)]
    by (auto simp: fetch_def wrap_def)
next
  case (VBool b)
  with ahead_scalar [of r k "le_bytes 4 (if b then 1 else 0 :: 32 word)" ss 4 "word_of_bytes :: _ \<Rightarrow> 32 word"] assms
  show ?thesis by (auto simp: ReadBool_def ReadInt_def wrap_def word_of_le_bytes_full)
qed (use assms ahead_scalar [of r k "le_bytes 4 _" ss 4 "word_of_bytes :: _ \<Rightarrow> 32 word"]
       ahead_scalar [of r k "le_bytes 8 _" ss 8 "word_of_bytes :: _ \<Rightarrow> 64 word"]
       ahead_scalar [of r k "le_bytes 2 _" ss 2 "word_of_bytes :: _ \<Rightarrow> 16 word"] in
     \<open>fastforce simp: ReadInt_def ReadLong_def ReadSize_def ReadUInt16_def ReadUInt32_def ReadInt64_def
        ReadUInt64_def wrap_def word_of_le_bytes_full\<close>)+

lemma read_values_ahead:
  "ahead r k (concat (map segs vs) @ ss) \<Longrightarrow>
   \<exists>k'. read_values r (map ptype_of vs @ ts) (at_pos r k) =
      map_option (\<lambda>(us, it). (vs @ us, it)) (read_values r ts (at_pos r k')) \<and> ahead r k' ss"
proof (induction vs arbitrary: k)
  case (Cons v vs)
  from read_value_ahead [of r k v "concat (map segs vs) @ ss"] Cons.prems
  obtain k1 where k1: "read_value r (ptype_of v) (at_pos r k) = Some (Some v, at_pos r k1)"
    "ahead r k1 (concat (map segs vs) @ ss)" by auto
  from Cons.IH [OF this(2)] obtain k' where k': "ahead r k' ss"
    "read_values r (map ptype_of vs @ ts) (at_pos r k1) =
      map_option (\<lambda>(us, it). (vs @ us, it)) (read_values r ts (at_pos r k'))" by auto
  show ?case using k1(1) k'
    by (intro exI [of _ k']) (cases "read_values r ts (at_pos r k')"; auto)
qed (auto simp: option.map_id)

lemma read_value_start: "framed r \<Longrightarrow> read_value r t 0 = read_value r t (at_pos r 0)"
  using start_null [of r] start_at_pos [of r 0]
  by (cases t) (simp_all add: ReadBool_def ReadInt_def ReadLong_def ReadSize_def ReadUInt16_def ReadUInt32_def
    ReadInt64_def ReadUInt64_def ReadString_def ReadWString_def ReadString16_def ReadData_def ReadLength_def
    ReadBytes_def)

lemma nothing_left:
  assumes "ahead r k []"
  shows "ReadInt r (at_pos r k) = Some (None, at_pos r k)"
proof -
  have r: "framed r" and k: "k = al (length (contents r))" using assms by (simp_all add: ahead_def)
  have b: "length (contents r) \<le> k" "k \<le> length (contents r) + 3"
    using k al_bounds(1,2) [of "length (contents r)"] by linarith+
  note pos = unat_at_pos [OF r b(2)] unat_at_pos [OF r le_add1]
  have "unat (at_pos r k + 4) = unat (at_pos r k) + 4"
    by (subst word_sum_small) (use r pos b framed_contents [OF r] in \<open>simp_all add: framed_def\<close>)
  hence "IteratorHasRoomFor r (at_pos r k) 4 = Some False"
    using pos b by (simp add: IteratorHasRoomFor_def framed_end [OF r] Let_def word_le_nat_alt)
  thus ?thesis using start_at_pos [OF r b(2)] by (simp add: ReadInt_def read_at_def)
qed

subsection \<open>A message sent and received\<close>

lemma new_pickle_cases:
  assumes R: "realloc_ok R" and h: "4 \<le> h" "h \<le> 64"
  shows "Pickle_of_header_size R h = None \<and> refuses R \<or>
    (\<exists>p. Pickle_of_header_size R h = Some p \<and>
       owned p \<and> contents p = [] \<and> unat (pk_header_size p) = al (unat h))"
proof -
  let ?q = "no_pickle (AlignInt h 4)"
  have h': "4 \<le> unat h" "unat h \<le> 64" using h by (simp_all add: word_le_nat_alt)
  hence hs: "unat (AlignInt h 4) = al (unat h)" by (subst unat_AlignInt_4) simp_all
  have al: "4 \<le> al (unat h)" "al (unat h) \<le> 64" "al (unat h) mod 4 = 0" using h' unfolding al_def by presburger+
  have "pk_capacity ?q \<noteq> kCapacityReadOnly" "unat kPayloadUnit + 64 \<le> 2 ^ 32"
    "length (pickle_mem ?q) \<le> unat kPayloadUnit"
    by (simp_all add: no_pickle_def kCapacityReadOnly_def kPayloadUnit_def)
  from Resize_effect [OF R this] show ?thesis
  proof (elim disjE exE conjE)
    assume "Resize R kPayloadUnit ?q = Some (False, ?q)" "refuses R"
    thus ?thesis by (simp add: Pickle_of_header_size_def no_pickle_def set_payload_size_def store_def flip: length_0_conv)
  next
    fix a c more
    assume r: "Resize R kPayloadUnit ?q = Some (True, ?q \<lparr> pk_header := a, pk_capacity := c, pickle_mem := pickle_mem ?q @ more \<rparr>)"
      "a \<noteq> 0" "unat a + unat c < 2 ^ 32" "length (pickle_mem ?q @ more) = unat c" "unat c mod 64 = 0"
      "unat kPayloadUnit \<le> unat c"
    let ?p = "?q \<lparr> pk_header := a, pk_capacity := c, pickle_mem := pickle_mem ?q @ more \<rparr>"
    have pl: "placed ?p" "64 \<le> length (pickle_mem ?p)" using r by (simp_all add: placed_def kPayloadUnit_def)
    let ?r = "?p \<lparr> pickle_mem := overwrite 0 (le_bytes 4 (0 :: 32 word)) (pickle_mem ?p) \<rparr>"
    have "set_payload_size 0 ?p = Some ?r"
      by (rule set_payload_size_at [OF pl(1)]) (use pl(2) in linarith)
    hence "Pickle_of_header_size R h = Some ?r" using r(1) by (simp add: Pickle_of_header_size_def)
    moreover have "stored_size (?p \<lparr> pickle_mem := overwrite 0 (le_bytes 4 (0 :: 32 word)) (pickle_mem ?p) \<rparr>) = 0"
      by (rule stored_size_set) (use pl in linarith)
    ultimately show ?thesis using pl r hs al
      by (intro disjI2 exI [of _ ?r])
         (simp add: owned_def contents_def placed_def no_pickle_def length_overwrite)
  qed
qed

text \<open>The bytes of a pickle, as they are sent.\<close>

definition message :: "pickle \<Rightarrow> 8 word list option" where
  "message p = do { n \<leftarrow> pickle_size p; load p (pk_header p) (unat n) }"

lemma reopened:
  assumes p: "owned p" and small: "unat (pk_header_size p) + length (contents p) < 2 ^ 31"
    and a: "a \<noteq> 0" "unat a + unat (pk_header_size p) + length (contents p) + 8 < 2 ^ 32"
  shows "\<exists>data r. message p = Some data \<and> Pickle_of_data a data = Some r \<and> framed r \<and> contents r = contents p"
proof -
  note o = p [unfolded owned_def] and c = owned_length [OF p]
  have sz: "payload_size p = Some (stored_size p)" using o by (intro owned_payload_size) linarith+
  let ?n = "pk_header_size p + stored_size p"
  have n: "unat ?n = unat (pk_header_size p) + length (contents p)"
    using small c by (subst word_sum_small) simp_all
  let ?data = "take (unat ?n) (pickle_mem p)"
  have len: "length ?data = unat ?n" "4 \<le> unat ?n" using n c o by auto
  have m: "message p = Some ?data"
    using sz load_at [of p "pk_header p" 0 "unat ?n"] o n c by (simp add: message_def pickle_size_def)
  have n_word: "of_nat (length ?data) = ?n" using len(1) by simp
  let ?r = "\<lparr> pk_header = a, pickle_mem = ?data, pk_header_size = pk_header_size p,
    pk_capacity = kCapacityReadOnly, pk_variable_buffer_offset = 0 \<rparr>"
  have st: "stored_size ?r = stored_size p" using len by (simp add: stored_size_def min_def)
  have sint: "4 \<le> sint ?n"
  proof -
    have "sint ?n = int (unat ?n)" by (rule sint_unat_small) (use n small in simp)
    thus ?thesis using len(2) by linarith
  qed
  have "pk_header_size p mod 4 = 0" using o by (simp add: word_unat_eq_iff unat_mod)
  hence al: "AlignInt (pk_header_size p) 4 = pk_header_size p" by (simp add: AlignInt_def)
  have le: "pk_header_size p \<le> ?n" using n by (simp add: word_le_nat_alt)
  have nz: "pk_header_size p \<noteq> 0" using o by auto
  have "Pickle_of_data a ?data = Some ?r"
    unfolding Pickle_of_data_def Let_def n_word using sint a(1) len st al le nz
    by (subst payload_size_of_data) (simp_all add: stored_size_def not_less)
  moreover have "framed ?r"
    using a small n c len st by (simp add: framed_def placed_def)
  moreover have "contents ?r = contents p"
    using st n c by (simp add: contents_def drop_take)
  ultimately show ?thesis using m by blast
qed

lemma ahead_start:
  assumes "framed r" "appended p ss q" "contents p = []" "contents r = contents q"
  shows "ahead r 0 ss"
proof -
  have "lays 0 [] (contents p)" using assms(3) by (simp add: al_def)
  hence "lays 0 ([] @ ss) (contents q)" using assms(2) unfolding appended_def by blast
  thus ?thesis using assms(1,4) by (simp add: ahead_def)
qed

lemma read_back:
  assumes r: "framed r" and left: "ahead r 0 (concat (map segs vs))"
  shows "\<exists>it. read_values r (map ptype_of vs @ [TInt]) 0 = Some (vs, it)"
proof -
  have "ahead r 0 (concat (map segs vs) @ [])" using left by simp
  from read_values_ahead [OF this] obtain k where
    k: "read_values r (map ptype_of vs @ [TInt]) (at_pos r 0) =
      map_option (\<lambda>(us, it). (vs @ us, it)) (read_values r [TInt] (at_pos r k))" "ahead r k []" by blast
  have "read_values r (map ptype_of vs @ [TInt]) 0 = read_values r (map ptype_of vs @ [TInt]) (at_pos r 0)"
    using read_value_start [OF r] by (cases "map ptype_of vs") (simp_all del: read_value.simps)
  thus ?thesis using k nothing_left [OF k(2)] by (simp add: wrap_def)
qed

text \<open>C1. What is written to a pickle is read back from the bytes of the message by a reader that asks for
  the same kinds of values in the same order, and then nothing is left. Writing never fails other
  than by the memory running out.\<close>

theorem pickle_round_trip:
  assumes "realloc_ok R" "Pickle_of_header_size R h = Some p0" "4 \<le> h" "h \<le> 64"
    and "a \<noteq> 0" "unat a + segs_size (concat (map segs vs)) + 72 < 2 ^ 31"
  shows "\<exists>ok p. write_values R vs p0 = Some (ok, p) \<and> (ok \<or> refuses R) \<and>
    (ok \<longrightarrow> (\<exists>data r it. message p = Some data \<and> Pickle_of_data a data = Some r \<and>
       read_values r (map ptype_of vs @ [TInt]) 0 = Some (vs, it)))"
proof -
  let ?ss = "concat (map segs vs)"
  have p0: "owned p0" "contents p0 = []" "unat (pk_header_size p0) \<le> 64"
    using new_pickle_cases [OF assms(1,3,4)] assms(2,4) by (auto simp: al_def word_le_nat_alt)
  hence "fits_in (segs_size ?ss) p0" using assms(6) by (simp add: fits_in_def al_def)
  from wrote_values [OF assms(1) this] obtain p where
    p: "write_values R vs p0 = Some (False, p) \<and> refuses R \<or> write_values R vs p0 = Some (True, p) \<and> appended p0 ?ss p"
    unfolding wrote_def by blast
  thus ?thesis
  proof
    assume w: "write_values R vs p0 = Some (True, p) \<and> appended p0 ?ss p"
    hence o: "owned p" "unat (pk_header_size p) \<le> 64" "length (contents p) \<le> segs_size ?ss"
      using p0 al_bounds(1) [of "length (contents p)"] by (auto simp: appended_def segs_size_def al_def [of 0])
    have "unat (pk_header_size p) + length (contents p) < 2 ^ 31"
      "unat a + unat (pk_header_size p) + length (contents p) + 8 < 2 ^ 32" using o(2,3) assms(6) by simp_all
    from reopened [OF o(1) this(1) assms(5) this(2)] obtain data r where
      r: "message p = Some data" "Pickle_of_data a data = Some r" "framed r" "contents r = contents p" by blast
    have "ahead r 0 ?ss" by (rule ahead_start [OF r(3) conjunct2 [OF w] p0(2) r(4)])
    from read_back [OF r(3) this] obtain it where "read_values r (map ptype_of vs @ [TInt]) 0 = Some (vs, it)" ..
    thus ?thesis using w r(1,2) by (intro exI [of _ True] exI [of _ p]) simp
  next
    assume "write_values R vs p0 = Some (False, p) \<and> refuses R"
    thus ?thesis by (intro exI [of _ False] exI [of _ p]) simp
  qed
qed

definition demo_realloc :: reallocator where
  "demo_realloc p n = (if n = -1 then None else Some (1, \<lambda>_. 0))"

lemma demo_realloc_ok: "realloc_ok demo_realloc"
proof -
  have "unat n + 1 < 2 ^ 32" if "n \<noteq> (- 1 :: 32 word)" for n
  proof -
    have "n < - 1" using that by (simp add: order_less_le word_order.extremum)
    thus ?thesis by (simp add: word_less_nat_alt unsigned_minus_1_eq_mask mask_eq_exp_minus_1)
  qed
  thus ?thesis by (auto simp: realloc_ok_def demo_realloc_def)
qed

lemma demo_realloc_never_refuses: "\<not> refuses demo_realloc"
  by (auto simp: refuses_def demo_realloc_def unsigned_minus_1_eq_mask mask_eq_exp_minus_1)

definition demo_values :: "pvalue list" where
  "demo_values = [VBool True, VUInt16 7, VString [104, 105], VWString [65], VInt64 (-1), VData [1, 2, 3]]"

lemma demo_new: "\<exists>p. Pickle_of_header_size demo_realloc 12 = Some p"
  using new_pickle_cases [OF demo_realloc_ok, of 12] demo_realloc_never_refuses by simp blast

lemma demo_small: "unat (65536 :: 32 word) + segs_size (concat (map segs demo_values)) + 72 < 2 ^ 31"
  by (simp add: demo_values_def al_def)

theorem pickle_round_trip_witness:
  "\<exists>p0 p data r it. Pickle_of_header_size demo_realloc 12 = Some p0 \<and>
     write_values demo_realloc demo_values p0 = Some (True, p) \<and> message p = Some data \<and>
     Pickle_of_data 65536 data = Some r \<and>
     read_values r (map ptype_of demo_values @ [TInt]) 0 = Some (demo_values, it)"
proof -
  from demo_new obtain p0 where p0: "Pickle_of_header_size demo_realloc 12 = Some p0" by blast
  have "\<exists>ok p. write_values demo_realloc demo_values p0 = Some (ok, p) \<and> (ok \<or> refuses demo_realloc) \<and>
    (ok \<longrightarrow> (\<exists>data r it. message p = Some data \<and> Pickle_of_data 65536 data = Some r \<and>
       read_values r (map ptype_of demo_values @ [TInt]) 0 = Some (demo_values, it)))"
    by (rule pickle_round_trip [OF demo_realloc_ok p0 _ _ _ demo_small]) simp_all
  with p0 demo_realloc_never_refuses show ?thesis by metis
qed

text \<open>C2. Reading from foreign bytes never leaves them: whatever a message holds, whatever iterator a
  reader passes and whatever it asks for, no read touches memory outside of the message.\<close>

theorem reading_stays_inside_the_message:
  assumes "a \<noteq> 0" "unat a + length data < 2 ^ 32"
  shows "\<exists>p. Pickle_of_data a data = Some p \<and> (\<forall>ts it. read_values p ts it \<noteq> None)"
proof -
  have "Pickle_of_data a data \<noteq> None"
  proof (cases "4 \<le> sint (of_nat (length data) :: 32 word)")
    case True
    have "unat (of_nat (length data) :: 32 word) = length data"
      using assms(2) by (simp add: unat_of_nat take_bit_nat_eq_self)
    hence "4 \<le> length data" using True unat_sint_nonneg [of "of_nat (length data)"] by linarith
    thus ?thesis using assms(1) by (simp add: Pickle_of_data_def Let_def payload_size_of_data)
  qed (simp add: Pickle_of_data_def Let_def)
  then obtain p where p: "Pickle_of_data a data = Some p" by blast
  from read_values_return [OF Pickle_of_data_readable [OF p assms]] p show ?thesis by blast
qed

definition hostile_bytes :: "8 word list" where
  "hostile_bytes = [4, 0, 0, 0, 255, 255, 255, 127]"

theorem reading_stays_inside_the_message_witness:
  "\<exists>p. Pickle_of_data 65536 hostile_bytes = Some p \<and>
     read_values p [TString16, TWString, TInt64, TBytes 2147483647] 0 \<noteq> None"
proof -
  have "unat (65536 :: 32 word) + length hostile_bytes < 2 ^ 32" by (simp add: hostile_bytes_def)
  from reading_stays_inside_the_message [OF _ this] obtain p where
    "Pickle_of_data 65536 hostile_bytes = Some p" "\<forall>ts it. read_values p ts it \<noteq> None" by force
  thus ?thesis by blast
qed

text \<open>The search for the end of a message in a stream finds a message exactly when all of it has arrived,
  and its end is the end of the stated payload, whatever size the header states.\<close>

theorem FindNext_finds_whole_messages:
  assumes "base \<noteq> 0" "unat base + length m + 64 < 2 ^ 32" "header_size \<le> 64" "off \<le> length m"
  shows "FindNext header_size base m (base + of_nat off) (base + of_nat (length m)) =
    Some (if 4 \<le> length m - off \<and>
            unat header_size + unat (word_of_bytes (take 4 (drop off m)) :: 32 word) \<le> length m - off
          then Some (base + of_nat (off + unat header_size + unat (word_of_bytes (take 4 (drop off m)) :: 32 word)))
          else None)"
proof -
  let ?start = "base + of_nat off" and ?n = "word_of_bytes (take 4 (drop off m)) :: 32 word"
  have off: "unat (of_nat off :: 32 word) = off" and len: "unat (of_nat (length m) :: 32 word) = length m"
    using assms(2,4) by (simp_all add: unat_of_nat take_bit_nat_eq_self)
  have start: "unat ?start = unat base + off" using assms(2,4) off by (subst word_sum_small) simp_all
  have fin: "unat (base + of_nat (length m)) = unat base + length m" using assms(2) len by (subst word_sum_small) simp_all
  have "unat (base + of_nat (length m) - ?start) = length m - off"
    using start fin assms(4) by (subst unat_sub) (simp_all add: word_le_nat_alt)
  hence few: "base + of_nat (length m) - ?start < 4 \<longleftrightarrow> length m - off < 4" by (simp add: word_less_nat_alt)
  have pb: "unat (?start + header_size) = unat base + off + unat header_size"
    using start assms(2-4) by (subst word_sum_small) (simp_all add: word_le_nat_alt)
  show ?thesis
  proof (cases "4 \<le> length m - off")
    case True
    have "unat (?start - base) = off" using off by simp
    moreover have "base \<le> ?start" using start by (simp add: word_le_nat_alt)
    ultimately have l: "load_mem base m ?start 4 = Some (take 4 (drop off m))"
      using True assms(1) by (simp add: load_mem_def)
    show ?thesis
    proof (cases "unat base + off + unat header_size + unat ?n < 2 ^ 32")
      case True
      hence pe: "unat (?start + header_size + ?n) = unat base + off + unat header_size + unat ?n"
        using pb by (subst word_sum_small) simp_all
      have "?start + header_size + ?n = base + of_nat (off + unat header_size + unat ?n)" by simp
      thus ?thesis using few l pb pe fin \<open>4 \<le> length m - off\<close>
        by (auto simp: FindNext_def sizeof_Header_def Let_def word_less_nat_alt)
    next
      case False
      hence "\<not> ?start + header_size \<le> ?start + header_size + ?n"
        using unat_plus_simple [of "?start + header_size" ?n] pb
          unat_add_lem [of "?start + header_size" ?n] by simp
      moreover have "\<not> unat header_size + unat ?n \<le> length m - off" using False assms(2,4) by linarith
      ultimately show ?thesis using few l \<open>4 \<le> length m - off\<close>
        by (simp add: FindNext_def sizeof_Header_def Let_def not_le)
    qed
  qed (use few in \<open>simp add: FindNext_def sizeof_Header_def\<close>)
qed

theorem FindNext_finds_whole_messages_witness:
  "FindNext 4 65536 [4, 0, 0, 0, 1, 2, 3, 4, 9] (65536 + of_nat 0) (65536 + of_nat 9) = Some (Some 65544) \<and>
   FindNext 4 65536 [255, 255, 255, 255, 1] (65536 + of_nat 0) (65536 + of_nat 5) = Some None"
  using FindNext_finds_whole_messages [of 65536 "[4, 0, 0, 0, 1, 2, 3, 4, 9]" 4 0]
    FindNext_finds_whole_messages [of 65536 "[255, 255, 255, 255, 1]" 4 0]
  by simp

end
