(* ===== verification/NumberStrings.thy ===== *)
theory NumberStrings
  imports Prelude
begin

text \<open>
  Numbers and their texts, \<open>src/base/string_number_conversions.cc\<close>: the conversions between
  machine integers and decimal or hexadecimal \<open>std::string\<close>s. The templates are functions of the
  record \<open>number_traits\<close>; arithmetic on the value type wraps around through \<open>value_cast\<close>.
\<close>

definition wrap_int :: "nat \<Rightarrow> int \<Rightarrow> int" where
  "wrap_int w v = (v + 2 ^ (w - 1)) mod 2 ^ w - 2 ^ (w - 1)"

lemma wrap_int_id: "- (2 ^ (w - 1)) \<le> v \<Longrightarrow> v < 2 ^ (w - 1) \<Longrightarrow> 0 < w \<Longrightarrow> wrap_int w v = v"
proof -
  assume v: "- (2 ^ (w - 1)) \<le> v" "v < 2 ^ (w - 1)" and "0 < w"
  hence "(2 :: int) ^ w = 2 * 2 ^ (w - 1)" by (cases w) auto
  thus ?thesis using v by (simp add: wrap_int_def)
qed

record number_traits =
  kBase :: int
  traits_min :: int
  traits_max :: int
  value_cast :: "int \<Rightarrow> int"

definition int_traits :: number_traits where
  "int_traits = \<lparr> kBase = 10, traits_min = - (2 ^ 31), traits_max = 2 ^ 31 - 1, value_cast = wrap_int 32 \<rparr>"

definition int64_traits :: number_traits where
  "int64_traits = \<lparr> kBase = 10, traits_min = - (2 ^ 63), traits_max = 2 ^ 63 - 1, value_cast = wrap_int 64 \<rparr>"

text \<open>The value is an \<open>int\<close>, its upper bound is the one of \<open>unsigned int\<close>.\<close>

definition hex_int_traits :: number_traits where
  "hex_int_traits = \<lparr> kBase = 16, traits_min = - (2 ^ 31), traits_max = 2 ^ 32 - 1, value_cast = wrap_int 32 \<rparr>"

subsection \<open>Digits\<close>

definition CharToDigit :: "int \<Rightarrow> char \<Rightarrow> int option" where
  "CharToDigit base c = (let k = of_char c :: int in
     if base \<le> 10 then (if 48 \<le> k \<and> k < 48 + base then Some (k - 48) else None)
     else if 48 \<le> k \<and> k \<le> 57 then Some (k - 48)
     else if 97 \<le> k \<and> k < 97 + base - 10 then Some (k - 97 + 10)
     else if 65 \<le> k \<and> k < 65 + base - 10 then Some (k - 65 + 10)
     else None)"

definition LocalIsWhitespace :: "char \<Rightarrow> bool" where
  "LocalIsWhitespace c \<longleftrightarrow> (let k = of_char c :: int in k = 32 \<or> 9 \<le> k \<and> k \<le> 13)"

subsection \<open>From texts to numbers\<close>

text \<open>The check before a digit is appended: what the value becomes when it would leave the bounds.\<close>

definition Positive_CheckBounds :: "number_traits \<Rightarrow> int \<Rightarrow> int \<Rightarrow> int option" where
  "Positive_CheckBounds t out d = (let limit = value_cast t (traits_max t div kBase t) in
     if out > limit \<or> out = limit \<and> d > traits_max t mod kBase t
     then Some (value_cast t (traits_max t)) else None)"

definition Negative_CheckBounds :: "number_traits \<Rightarrow> int \<Rightarrow> int \<Rightarrow> int option" where
  "Negative_CheckBounds t out d = (let limit = c_div (traits_min t) (kBase t) in
     if out < limit \<or> out = limit \<and> d > 0 - c_rem (traits_min t) (kBase t)
     then Some (traits_min t) else None)"

fun append_digits :: "number_traits \<Rightarrow> bool \<Rightarrow> bool \<Rightarrow> string \<Rightarrow> int \<Rightarrow> bool \<times> int" where
  "append_digits t neg first [] out = (True, out)"
| "append_digits t neg first (c # cs) out =
    (case CharToDigit (kBase t) c of
       None \<Rightarrow> (False, out)
     | Some d \<Rightarrow>
         let bound = (if first then None
                      else if neg then Negative_CheckBounds t out d else Positive_CheckBounds t out d);
             scaled = (if first then out else value_cast t (out * kBase t))
         in case bound of
              Some b \<Rightarrow> (False, b)
            | None \<Rightarrow> append_digits t neg False cs (value_cast t (if neg then scaled - d else scaled + d)))"

definition skip_hex_prefix :: "number_traits \<Rightarrow> string \<Rightarrow> string" where
  "skip_hex_prefix t s =
    (if kBase t = 16 \<and> length s \<ge> 2 \<and> s ! 0 = CHR ''0'' \<and> (s ! 1 = CHR ''x'' \<or> s ! 1 = CHR ''X'')
     then drop 2 s else s)"

definition Base_Invoke :: "number_traits \<Rightarrow> bool \<Rightarrow> string \<Rightarrow> bool \<times> int" where
  "Base_Invoke t neg s =
    (if s = [] then (False, 0) else append_digits t neg True (skip_hex_prefix t s) 0)"

definition Number_Invoke :: "number_traits \<Rightarrow> string \<Rightarrow> bool \<times> int" where
  "Number_Invoke t s =
    (let s' = dropWhile LocalIsWhitespace s;
         valid = (s' = s);
         (ok, out) = (case s' of
             [] \<Rightarrow> Base_Invoke t False s'
           | c # cs \<Rightarrow> if c = CHR ''-'' then Base_Invoke t True cs
                       else if c = CHR ''+'' then Base_Invoke t False cs
                       else Base_Invoke t False s')
     in (valid \<and> ok, out))"

definition StringToInt :: "string \<Rightarrow> bool \<times> int" where
  "StringToInt = Number_Invoke int_traits"

definition StringToInt64 :: "string \<Rightarrow> bool \<times> int" where
  "StringToInt64 = Number_Invoke int64_traits"

definition HexStringToInt :: "string \<Rightarrow> bool \<times> int" where
  "HexStringToInt = Number_Invoke hex_int_traits"

text \<open>Two digits are one byte; \<open>None\<close> is the result \<open>false\<close>.\<close>

fun hex_pairs :: "string \<Rightarrow> 8 word list option" where
  "hex_pairs (a # b # cs) = (case (CharToDigit 16 a, CharToDigit 16 b) of
     (Some msb, Some lsb) \<Rightarrow> map_option (\<lambda>bs. word_of_int (msb * 16 + lsb) # bs) (hex_pairs cs)
   | _ \<Rightarrow> None)"
| "hex_pairs _ = Some []"

definition HexStringToBytes :: "string \<Rightarrow> 8 word list option" where
  "HexStringToBytes s = (if length s = 0 \<or> length s mod 2 \<noteq> 0 then None else hex_pairs s)"

subsection \<open>From numbers to texts\<close>

definition digit_char :: "nat \<Rightarrow> char" where
  "digit_char d = char_of (48 + d)"

text \<open>The digits are written from the end of the buffer to its front.\<close>

fun write_digits :: "nat \<Rightarrow> string \<Rightarrow> string" where
  "write_digits res buf = (let buf = digit_char (res mod 10) # buf
     in if res div 10 = 0 then buf else write_digits (res div 10) buf)"

declare write_digits.simps [simp del]

definition signed_to_string :: "int \<Rightarrow> string" where
  "signed_to_string v = (if v < 0 then CHR ''-'' # write_digits (nat \<bar>v\<bar>) [] else write_digits (nat v) [])"

definition IntToString :: "int \<Rightarrow> string" where "IntToString = signed_to_string"
definition Int64ToString :: "int \<Rightarrow> string" where "Int64ToString = signed_to_string"
definition UintToString :: "nat \<Rightarrow> string" where "UintToString v = write_digits v []"
definition Uint64ToString :: "nat \<Rightarrow> string" where "Uint64ToString v = write_digits v []"

definition hex_char :: "nat \<Rightarrow> char" where
  "hex_char d = ''0123456789ABCDEF'' ! d"

definition HexEncode :: "8 word list \<Rightarrow> string" where
  "HexEncode bs = concat (map (\<lambda>b. [hex_char (unat b div 16), hex_char (unat b mod 16)]) bs)"

end
