(* ===== verification/ChunkedDecoder.thy ===== *)
theory ChunkedDecoder
  imports NumberStrings
begin

text \<open>
  \<open>HttpChunkedDecoder\<close> (\<open>src/net/http/http_chunked_decoder.cc\<close>): takes the chunk markers out of a
  body that arrives in pieces. \<open>FilterBuf\<close> works in place on a buffer; here it returns the decoded
  bytes, which the code moves to the front of the buffer, or \<open>ERR_INVALID_CHUNKED_ENCODING\<close>.
  \<open>chunk_remaining_\<close> only takes values that \<open>ParseChunkSize\<close> accepted, which are not negative.
\<close>

record chunked =
  chunk_remaining :: nat
  line_buf :: string
  chunk_terminator_remaining :: bool
  reached_last_chunk :: bool
  reached_eof :: bool
  bytes_after_eof :: nat

datatype decode_error = ERR_INVALID_CHUNKED_ENCODING

definition new_HttpChunkedDecoder :: chunked where
  "new_HttpChunkedDecoder = \<lparr> chunk_remaining = 0, line_buf = [], chunk_terminator_remaining = False,
     reached_last_chunk = False, reached_eof = False, bytes_after_eof = 0 \<rparr>"

definition LF :: char where "LF = CHR 0x0A"
definition CR :: char where "CR = CHR 0x0D"

text \<open>The size is a hexadecimal number with trailing spaces.\<close>

definition hex_digit_chars :: string where
  "hex_digit_chars = ''0123456789abcdefABCDEF''"

definition ParseChunkSize :: "string \<Rightarrow> nat option" where
  "ParseChunkSize start =
    (let s = rev (dropWhile (\<lambda>c. c = CHR '' '') (rev start))
     in if \<not> list_all (\<lambda>c. c \<in> set hex_digit_chars) s then None
        else let (ok, parsed_number) = HexStringToInt s
             in if ok \<and> parsed_number \<ge> 0 then Some (nat parsed_number) else None)"

definition drop_trailing_CR :: "string \<Rightarrow> string" where
  "drop_trailing_CR s = (if s \<noteq> [] \<and> last s = CR then butlast s else s)"

text \<open>What a complete line means, the line without its end.\<close>

definition handle_line :: "string \<Rightarrow> chunked \<Rightarrow> decode_error + chunked" where
  "handle_line line st =
    (if reached_last_chunk st then Inr (if line \<noteq> [] then st else st\<lparr>reached_eof := True\<rparr>)
     else if chunk_terminator_remaining st then
       (if line \<noteq> [] then Inl ERR_INVALID_CHUNKED_ENCODING
        else Inr (st\<lparr>chunk_terminator_remaining := False\<rparr>))
     else if line \<noteq> [] then
       (case ParseChunkSize (takeWhile (\<lambda>c. c \<noteq> CHR '';'') line) of
          None \<Rightarrow> Inl ERR_INVALID_CHUNKED_ENCODING
        | Some n \<Rightarrow>
            let st = st\<lparr>chunk_remaining := n\<rparr>
            in Inr (if n = 0 then st\<lparr>reached_last_chunk := True\<rparr> else st))
     else Inl ERR_INVALID_CHUNKED_ENCODING)"

text \<open>The number of bytes consumed and the new state.\<close>

definition ScanForChunkRemaining :: "string \<Rightarrow> chunked \<Rightarrow> decode_error + nat \<times> chunked" where
  "ScanForChunkRemaining buf st =
    (if LF \<in> set buf then
       let line = drop_trailing_CR (takeWhile (\<lambda>c. c \<noteq> LF) buf);
           line = (if line_buf st \<noteq> [] then line_buf st @ line else line)
       in case handle_line line st of
            Inl e \<Rightarrow> Inl e
          | Inr st \<Rightarrow> Inr (length (takeWhile (\<lambda>c. c \<noteq> LF) buf) + 1, st\<lparr>line_buf := []\<rparr>)
     else Inr (length buf, st\<lparr>line_buf := line_buf st @ drop_trailing_CR buf\<rparr>))"

lemma ScanForChunkRemaining_consumes:
  "ScanForChunkRemaining buf st = Inr (n, st') \<Longrightarrow> buf \<noteq> [] \<Longrightarrow> 0 < n \<and> n \<le> length buf"
proof -
  assume "ScanForChunkRemaining buf st = Inr (n, st')" "buf \<noteq> []"
  moreover have "LF \<in> set buf \<Longrightarrow> length (takeWhile (\<lambda>c. c \<noteq> LF) buf) < length buf"
    by (induction buf) auto
  ultimately show ?thesis by (auto simp: ScanForChunkRemaining_def Let_def split: if_splits sum.splits)
qed

function FilterBuf :: "string \<Rightarrow> chunked \<Rightarrow> decode_error + string \<times> chunked" where
  "FilterBuf buf st =
    (if buf = [] then Inr ([], st)
     else if chunk_remaining st \<noteq> 0 then
       let num = min (chunk_remaining st) (length buf);
           st = st\<lparr>chunk_remaining := chunk_remaining st - num\<rparr>;
           st = (if chunk_remaining st = 0 then st\<lparr>chunk_terminator_remaining := True\<rparr> else st)
       in case FilterBuf (drop num buf) st of
            Inl e \<Rightarrow> Inl e
          | Inr (out, st) \<Rightarrow> Inr (take num buf @ out, st)
     else if reached_eof st then Inr ([], st\<lparr>bytes_after_eof := bytes_after_eof st + length buf\<rparr>)
     else case ScanForChunkRemaining buf st of
            Inl e \<Rightarrow> Inl e
          | Inr (bytes_consumed, st) \<Rightarrow> FilterBuf (drop bytes_consumed buf) st)"
  by pat_completeness auto

termination
  by (relation "measure (length \<circ> fst)") (auto dest: ScanForChunkRemaining_consumes)

declare FilterBuf.simps [simp del]

end
