(* ===== verification/NumberSpec.thy ===== *)
theory NumberSpec
  imports NumberStrings
begin

text \<open>
  The conversions between numbers and texts: parsing accepts exactly the decimal numbers in range,
  and undoes printing.
\<close>

subsection \<open>Decimal numbers\<close>

definition is_digit :: "char \<Rightarrow> bool" where
  "is_digit c \<longleftrightarrow> CharToDigit 10 c \<noteq> None"

definition digit_of :: "char \<Rightarrow> int" where
  "digit_of c = the (CharToDigit 10 c)"

definition decimal :: "string \<Rightarrow> bool" where
  "decimal s \<longleftrightarrow> s \<noteq> [] \<and> list_all is_digit s"

fun dec_value_from :: "int \<Rightarrow> string \<Rightarrow> int" where
  "dec_value_from a [] = a"
| "dec_value_from a (c # cs) = dec_value_from (10 * a + digit_of c) cs"

definition dec_value :: "string \<Rightarrow> int" where
  "dec_value = dec_value_from 0"

lemma digit_range: "is_digit c \<Longrightarrow> 0 \<le> digit_of c \<and> digit_of c \<le> 9 \<and> CharToDigit 10 c = Some (digit_of c)"
  by (auto simp: is_digit_def digit_of_def CharToDigit_def Let_def split: if_splits)

lemma dec_value_from_mono: "list_all is_digit cs \<Longrightarrow> 0 \<le> a \<Longrightarrow> a \<le> dec_value_from a cs"
proof (induction cs arbitrary: a)
  case (Cons c cs)
  have "a \<le> 10 * a + digit_of c" using Cons.prems digit_range [of c] by simp
  also have "\<dots> \<le> dec_value_from (10 * a + digit_of c) cs"
    using Cons.prems digit_range [of c] by (intro Cons.IH) auto
  finally show ?case by simp
qed simp

text \<open>The traits of a signed type of base ten.\<close>

definition dec_traits :: "number_traits \<Rightarrow> bool" where
  "dec_traits t \<longleftrightarrow> kBase t = 10 \<and> 9 \<le> traits_max t \<and> traits_min t = - traits_max t - 1 \<and>
     (\<forall>v. traits_min t \<le> v \<and> v \<le> traits_max t \<longrightarrow> value_cast t v = v)"

lemma dec_traits_int: "dec_traits int_traits"
  using wrap_int_id [of 32] by (simp add: dec_traits_def int_traits_def)

lemma dec_traits_int64: "dec_traits int64_traits"
  using wrap_int_id [of 64] by (simp add: dec_traits_def int64_traits_def)

lemma positive_bound:
  assumes t: "dec_traits t" and d: "0 \<le> d" "d \<le> 9" and out: "0 \<le> out"
  shows "Positive_CheckBounds t out d = (if 10 * out + d > traits_max t then Some (traits_max t) else None)"
proof -
  have M: "kBase t = 10" "9 \<le> traits_max t" using t by (auto simp: dec_traits_def)
  have "- traits_max t - 1 \<le> traits_max t div 10 \<and> traits_max t div 10 \<le> traits_max t" using M(2) by presburger
  hence c: "value_cast t (traits_max t div 10) = traits_max t div 10" "value_cast t (traits_max t) = traits_max t"
    using t by (auto simp: dec_traits_def)
  have "out > traits_max t div 10 \<or> out = traits_max t div 10 \<and> d > traits_max t mod 10 \<longleftrightarrow> 10 * out + d > traits_max t"
    using d mult_div_mod_eq [of 10 "traits_max t"] pos_mod_bound [of 10 "traits_max t"]
      pos_mod_sign [of 10 "traits_max t"]
    by (cases out "traits_max t div 10" rule: linorder_cases) linarith+
  thus ?thesis using M c by (simp add: Positive_CheckBounds_def Let_def)
qed

lemma negative_bound:
  assumes t: "dec_traits t" and d: "0 \<le> d" "d \<le> 9" and out: "0 \<le> out"
  shows "Negative_CheckBounds t (- out) d = (if - (10 * out + d) < traits_min t then Some (traits_min t) else None)"
proof -
  have M: "kBase t = 10" "9 \<le> traits_max t" "traits_min t = - traits_max t - 1"
    using t by (auto simp: dec_traits_def)
  have "- out < - ((traits_max t + 1) div 10) \<or>
      - out = - ((traits_max t + 1) div 10) \<and> d > (traits_max t + 1) mod 10 \<longleftrightarrow>
      - (10 * out + d) < - traits_max t - 1"
    using d mult_div_mod_eq [of 10 "traits_max t + 1"] pos_mod_bound [of 10 "traits_max t + 1"]
      pos_mod_sign [of 10 "traits_max t + 1"]
    by (cases out "(traits_max t + 1) div 10" rule: linorder_cases) linarith+
  moreover have "c_div (- traits_max t - 1) 10 = - ((traits_max t + 1) div 10)"
    "c_rem (- traits_max t - 1) 10 = - ((traits_max t + 1) mod 10)"
    using M(2) by (simp_all add: c_div_def c_rem_def add.commute)
  ultimately show ?thesis using M by (simp add: Negative_CheckBounds_def Let_def)
qed

text \<open>The signed number whose digits the loop appends.\<close>

definition signed_value :: "bool \<Rightarrow> int \<Rightarrow> int" where
  "signed_value neg v = (if neg then - v else v)"

definition in_bounds :: "number_traits \<Rightarrow> int \<Rightarrow> bool" where
  "in_bounds t v \<longleftrightarrow> traits_min t \<le> v \<and> v \<le> traits_max t"

lemma append_digits_rest:
  assumes t: "dec_traits t"
  shows "0 \<le> out \<Longrightarrow> in_bounds t (signed_value neg out) \<Longrightarrow> list_all is_digit cs \<Longrightarrow>
    append_digits t neg False cs (signed_value neg out) =
      (if in_bounds t (signed_value neg (dec_value_from out cs))
       then (True, signed_value neg (dec_value_from out cs))
       else (False, if neg then traits_min t else traits_max t))"
proof (induction cs arbitrary: out)
  case (Cons c cs)
  have c: "0 \<le> digit_of c" "digit_of c \<le> 9" "CharToDigit 10 c = Some (digit_of c)" and cs: "list_all is_digit cs"
    using Cons.prems(3) digit_range [of c] by auto
  have 10: "kBase t = 10" and M: "9 \<le> traits_max t" "traits_min t = - traits_max t - 1"
    and cast: "\<And>v. in_bounds t v \<Longrightarrow> value_cast t v = v"
    using t by (auto simp: dec_traits_def in_bounds_def)
  let ?o = "10 * out + digit_of c"
  have o: "0 \<le> ?o" using Cons.prems(1) c by simp
  have mono: "?o \<le> dec_value_from ?o cs" by (rule dec_value_from_mono [OF cs o])
  show ?case
  proof (cases "in_bounds t (signed_value neg ?o)")
    case True
    hence s: "in_bounds t (signed_value neg (10 * out))"
      using c Cons.prems(1) M by (auto simp: in_bounds_def signed_value_def split: if_splits)
    have "append_digits t neg False (c # cs) (signed_value neg out) = append_digits t neg False cs (signed_value neg ?o)"
      using c 10 True cast [OF True] cast [OF s] positive_bound [OF t c(1,2) Cons.prems(1)]
        negative_bound [OF t c(1,2) Cons.prems(1)]
      by (cases neg) (simp_all add: signed_value_def in_bounds_def mult.commute)
    thus ?thesis using Cons.IH [OF o True cs] by simp
  next
    case False
    hence "\<not> in_bounds t (signed_value neg (dec_value_from ?o cs))"
      using mono o M by (auto simp: in_bounds_def signed_value_def split: if_splits)
    thus ?thesis using False c 10 positive_bound [OF t c(1,2) Cons.prems(1)] negative_bound [OF t c(1,2) Cons.prems(1)] o M
      by (cases neg) (auto simp: signed_value_def in_bounds_def)
  qed
qed simp

lemma append_digits_other:
  "kBase t = 10 \<Longrightarrow> \<not> list_all is_digit cs \<Longrightarrow> \<not> fst (append_digits t neg first cs out)"
proof (induction cs arbitrary: first out)
  case (Cons c cs)
  thus ?case by (auto simp: Let_def is_digit_def split: option.split)
qed simp

lemma Base_Invoke_decimal:
  assumes t: "dec_traits t" and s: "decimal s"
  shows "Base_Invoke t neg s =
    (if in_bounds t (signed_value neg (dec_value s)) then (True, signed_value neg (dec_value s))
     else (False, if neg then traits_min t else traits_max t))"
proof -
  obtain c cs where cs: "s = c # cs" "list_all is_digit cs" "is_digit c" using s by (cases s) (auto simp: decimal_def)
  note c = digit_range [OF cs(3)]
  have M: "kBase t = 10" "9 \<le> traits_max t" "traits_min t = - traits_max t - 1"
    and cast: "\<And>v. in_bounds t v \<Longrightarrow> value_cast t v = v"
    using t by (auto simp: dec_traits_def in_bounds_def)
  have b: "in_bounds t (signed_value neg (digit_of c))" using c M by (auto simp: in_bounds_def signed_value_def)
  have "Base_Invoke t neg s = append_digits t neg False cs (signed_value neg (digit_of c))"
    using cs(1) c M(1) cast [OF b] by (cases neg) (simp_all add: Base_Invoke_def skip_hex_prefix_def signed_value_def)
  thus ?thesis using append_digits_rest [OF t _ b cs(2)] c cs(1) by (simp add: dec_value_def)
qed

lemma Base_Invoke_other: "kBase t = 10 \<Longrightarrow> \<not> decimal s \<Longrightarrow> \<not> fst (Base_Invoke t neg s)"
  using append_digits_other [of t s neg True 0] by (auto simp: Base_Invoke_def skip_hex_prefix_def decimal_def)

lemma digit_not_space: "is_digit c \<Longrightarrow> \<not> LocalIsWhitespace c \<and> c \<noteq> CHR ''-'' \<and> c \<noteq> CHR ''+''"
  by (auto simp: is_digit_def CharToDigit_def LocalIsWhitespace_def Let_def split: if_splits)

lemma decimal_not_space: "decimal s \<Longrightarrow> dropWhile LocalIsWhitespace s = s"
  by (cases s) (auto simp: decimal_def digit_not_space)

text \<open>What is accepted: an optional sign and decimal digits, of a value in range.\<close>

definition reads_as :: "number_traits \<Rightarrow> string \<Rightarrow> int \<Rightarrow> bool" where
  "reads_as t s v \<longleftrightarrow> in_bounds t v \<and>
     (\<exists>ds. decimal ds \<and> ((s = ds \<or> s = CHR ''+'' # ds) \<and> v = dec_value ds \<or>
                          s = CHR ''-'' # ds \<and> v = - dec_value ds))"

lemma Base_Invoke_True:
  assumes t: "dec_traits t"
  shows "Base_Invoke t neg s = (True, v) \<longleftrightarrow> decimal s \<and> v = signed_value neg (dec_value s) \<and> in_bounds t v"
proof (cases "decimal s")
  case True
  thus ?thesis using Base_Invoke_decimal [OF t True, of neg] by auto
next
  case False
  have "kBase t = 10" using t by (simp add: dec_traits_def)
  from Base_Invoke_other [OF this False, of neg] False show ?thesis by auto
qed

lemma Number_Invoke_True:
  assumes t: "dec_traits t"
  shows "Number_Invoke t s = (True, v) \<longleftrightarrow> reads_as t s v"
proof (cases s)
  case Nil
  thus ?thesis by (auto simp: Number_Invoke_def Base_Invoke_def reads_as_def decimal_def)
next
  case (Cons c cs)
  show ?thesis
  proof (cases "LocalIsWhitespace c")
    case True
    hence "dropWhile LocalIsWhitespace s \<noteq> s"
      by (metis Cons dropWhile.simps(2) length_dropWhile_le length_Cons not_less_eq_eq)
    moreover have "c \<noteq> CHR ''+'' \<and> c \<noteq> CHR ''-''" using True by (auto simp: LocalIsWhitespace_def)
    moreover have "\<not> decimal s" using True Cons digit_not_space [of c] by (auto simp: decimal_def)
    ultimately show ?thesis using Cons by (auto simp: Number_Invoke_def Let_def reads_as_def split: prod.splits)
  next
    case False
    hence keep: "dropWhile LocalIsWhitespace s = s" using Cons by simp
    have sign: "\<not> decimal (CHR ''+'' # ds)" "\<not> decimal (CHR ''-'' # ds)" for ds
      using digit_not_space by (auto simp: decimal_def)
    show ?thesis
    proof (cases "c = CHR ''-''")
      case True
      hence "Number_Invoke t s = Base_Invoke t True cs" using keep Cons by (simp add: Number_Invoke_def split: prod.split)
      thus ?thesis using Base_Invoke_True [OF t, of True cs v] sign Cons True
        by (auto simp: reads_as_def signed_value_def)
    next
      case minus: False
      show ?thesis
      proof (cases "c = CHR ''+''")
        case True
        hence "Number_Invoke t s = Base_Invoke t False cs"
          using keep Cons minus by (simp add: Number_Invoke_def split: prod.split)
        thus ?thesis using Base_Invoke_True [OF t, of False cs v] sign Cons True
          by (auto simp: reads_as_def signed_value_def)
      next
        case False
        hence "Number_Invoke t s = Base_Invoke t False s"
          using keep Cons minus by (simp add: Number_Invoke_def split: prod.split)
        thus ?thesis using Base_Invoke_True [OF t, of False s v] Cons False minus
          by (auto simp: reads_as_def signed_value_def)
      qed
    qed
  qed
qed

subsection \<open>Printing\<close>

lemma digit_char_of:
  assumes "d < 10"
  shows "is_digit (digit_char d) \<and> digit_of (digit_char d) = int d"
proof -
  have "list_all (\<lambda>d. is_digit (digit_char d) \<and> digit_of (digit_char d) = int d) [0..<10]" by code_simp
  thus ?thesis using assms by (auto simp: list_all_iff)
qed

lemma dec_value_from_append: "dec_value_from a (xs @ ys) = dec_value_from (dec_value_from a xs) ys"
  by (induction xs arbitrary: a) auto

lemma dec_value_from_shift:
  "dec_value_from a ds = a * 10 ^ length ds + dec_value ds"
  unfolding dec_value_def
proof (induction ds arbitrary: a)
  case (Cons d ds)
  show ?case using Cons [of "10 * a + digit_of d"] Cons [of "digit_of d"] by (simp add: algebra_simps)
qed simp

lemma write_digits_value:
  "list_all is_digit buf \<Longrightarrow> list_all is_digit (write_digits n buf) \<and> write_digits n buf \<noteq> [] \<and>
     dec_value (write_digits n buf) = int n * 10 ^ length buf + dec_value buf"
proof (induction n buf rule: write_digits.induct)
  case (1 n buf)
  let ?c = "digit_char (n mod 10)"
  have c: "is_digit ?c" "digit_of ?c = int (n mod 10)" using digit_char_of [of "n mod 10"] by auto
  have v: "dec_value (?c # buf) = int (n mod 10) * 10 ^ length buf + dec_value buf"
    using dec_value_from_shift [of "digit_of ?c" buf] c by (simp add: dec_value_def)
  show ?case
  proof (cases "n div 10 = 0")
    case True
    hence n: "n mod 10 = n" by simp
    have "write_digits n buf = ?c # buf" using True by (subst write_digits.simps) simp
    thus ?thesis using n c v "1.prems" by simp
  next
    case False
    have step: "write_digits n buf = write_digits (n div 10) (?c # buf)"
      using False by (subst write_digits.simps) simp
    have "int (n div 10) * 10 ^ length (?c # buf) + dec_value (?c # buf) = int n * 10 ^ length buf + dec_value buf"
    proof -
      have "int n = int (n div 10) * 10 + int (n mod 10)" by (simp add: zdiv_int zmod_int)
      thus ?thesis unfolding v by (simp only: length_Cons power_Suc) (simp add: algebra_simps)
    qed
    thus ?thesis using "1.IH" [OF refl False] c(1) "1.prems" unfolding step by simp
  qed
qed

lemma signed_to_string_reads:
  assumes "in_bounds t v"
  shows "reads_as t (signed_to_string v) v"
proof -
  have "decimal (write_digits n [])" "dec_value (write_digits n []) = int n" for n
    using write_digits_value [of "[]" n] by (simp_all add: decimal_def dec_value_def)
  thus ?thesis using assms unfolding reads_as_def signed_to_string_def by (auto intro!: exI [of _ "write_digits _ []"])
qed


text \<open>Reading back a printed number gives the number, for every number of the type.\<close>

theorem number_text_round_trip:
  "(- (2 ^ 31) \<le> v \<and> v < 2 ^ 31 \<longrightarrow> StringToInt (IntToString v) = (True, v)) \<and>
   (- (2 ^ 63) \<le> v \<and> v < 2 ^ 63 \<longrightarrow> StringToInt64 (Int64ToString v) = (True, v))"
  using signed_to_string_reads [of int_traits v] signed_to_string_reads [of int64_traits v]
    Number_Invoke_True [OF dec_traits_int] Number_Invoke_True [OF dec_traits_int64]
  by (simp add: StringToInt_def StringToInt64_def IntToString_def Int64ToString_def in_bounds_def
    int_traits_def int64_traits_def)

theorem number_text_round_trip_witness:
  "StringToInt (IntToString (- 2147483648)) = (True, - 2147483648) \<and>
   StringToInt64 (Int64ToString 9223372036854775807) = (True, 9223372036854775807)"
  using number_text_round_trip [of "- 2147483648"] number_text_round_trip [of 9223372036854775807] by simp

text \<open>The overflow check of \<open>HexStringToInt\<close> misses numbers whose first eight digits are at least
  \<open>80000000\<close>: they fill the sign bit, the bound is not seen, and the digits after them wrap around.\<close>

theorem HexStringToInt_misses_overflow:
  "HexStringToInt ''800000005'' = (True, 5) \<and> HexStringToInt ''1FFFFFFFF'' = (False, -1)"
  by code_simp

end
