(* ===== verification/ChunkedSpec.thy ===== *)
theory ChunkedSpec
  imports ChunkedDecoder NumberSpec
begin

text \<open>
  What \<open>HttpChunkedDecoder\<close> makes of a body does not depend on how it is cut into pieces, except
  after a carriage return, and a body in the chunked coding is decoded to its data.
\<close>

subsection \<open>A body in pieces\<close>

definition then_filter ::
  "decode_error + string \<times> chunked \<Rightarrow> (chunked \<Rightarrow> decode_error + string \<times> chunked) \<Rightarrow> decode_error + string \<times> chunked" where
  "then_filter r f = (case r of Inl e \<Rightarrow> Inl e
     | Inr (out, st) \<Rightarrow> (case f st of Inl e \<Rightarrow> Inl e | Inr (rest, st) \<Rightarrow> Inr (out @ rest, st)))"

text \<open>The pieces are filtered one after the other until one is in error.\<close>

fun FilterBufs :: "string list \<Rightarrow> chunked \<Rightarrow> decode_error + string \<times> chunked" where
  "FilterBufs [] st = Inr ([], st)"
| "FilterBufs (b # bs) st = then_filter (FilterBuf b st) (FilterBufs bs)"

lemma then_filter_simps [simp]:
  "then_filter (Inl e) f = Inl e" "then_filter (Inr ([], st)) f = f st"
  "then_filter r (\<lambda>st. Inr ([], st)) = r"
  by (auto simp: then_filter_def split: sum.splits prod.splits)

lemma then_filter_assoc: "then_filter (then_filter r f) g = then_filter r (\<lambda>st. then_filter (f st) g)"
  by (auto simp: then_filter_def split: sum.splits)

lemma FilterBufs_append: "FilterBufs (as @ bs) st = then_filter (FilterBufs as st) (FilterBufs bs)"
proof (induction as arbitrary: st)
  case (Cons a as)
  have "FilterBufs (as @ bs) = (\<lambda>st. then_filter (FilterBufs as st) (FilterBufs bs))" by (rule ext) (rule Cons)
  thus ?case by (simp add: then_filter_assoc)
qed simp

lemma FilterBuf_Nil [simp]: "FilterBuf [] st = Inr ([], st)"
  by (simp add: FilterBuf.simps)

lemma FilterBuf_data:
  "buf \<noteq> [] \<Longrightarrow> chunk_remaining st \<noteq> 0 \<Longrightarrow> FilterBuf buf st =
    then_filter (Inr (take (chunk_remaining st) buf,
        st\<lparr>chunk_remaining := chunk_remaining st - length buf,
           chunk_terminator_remaining := chunk_terminator_remaining st \<or> chunk_remaining st \<le> length buf\<rparr>))
      (FilterBuf (drop (chunk_remaining st) buf))"
  by (subst FilterBuf.simps) (auto simp: then_filter_def Let_def min_def split: sum.splits)

lemma FilterBuf_eof:
  "chunk_remaining st = 0 \<Longrightarrow> reached_eof st \<Longrightarrow>
   FilterBuf buf st = Inr ([], st\<lparr>bytes_after_eof := bytes_after_eof st + length buf\<rparr>)"
  by (subst FilterBuf.simps) auto

lemma FilterBuf_partial_line:
  "chunk_remaining st = 0 \<Longrightarrow> \<not> reached_eof st \<Longrightarrow> LF \<notin> set buf \<Longrightarrow>
   FilterBuf buf st = Inr ([], st\<lparr>line_buf := line_buf st @ drop_trailing_CR buf\<rparr>)"
  by (subst FilterBuf.simps) (auto simp: ScanForChunkRemaining_def drop_trailing_CR_def)

definition line_ended :: "string \<Rightarrow> chunked \<Rightarrow> decode_error + chunked" where
  "line_ended line st = map_sum id (\<lambda>st. st\<lparr>line_buf := []\<rparr>) (handle_line (line_buf st @ line) st)"

lemma FilterBuf_line:
  assumes "chunk_remaining st = 0" "\<not> reached_eof st" "LF \<notin> set line"
  shows "FilterBuf (line @ LF # buf) st =
    (case line_ended (drop_trailing_CR line) st of Inl e \<Rightarrow> Inl e | Inr st \<Rightarrow> FilterBuf buf st)"
proof -
  have tw: "takeWhile (\<lambda>c. c \<noteq> LF) (line @ LF # buf) = line"
    using assms(3) by (subst takeWhile_append2) auto
  show ?thesis using assms(1,2)
    by (subst FilterBuf.simps)
       (auto simp: ScanForChunkRemaining_def Let_def tw line_ended_def split: sum.splits)
qed

lemma handle_line_buf:
  "handle_line line (st\<lparr>line_buf := b\<rparr>) = map_sum id (\<lambda>st. st\<lparr>line_buf := b\<rparr>) (handle_line line st)"
  by (auto simp: handle_line_def Let_def split: option.split)

lemma line_ended_buf:
  "line_ended line (st\<lparr>line_buf := line_buf st @ l\<rparr>) = line_ended (l @ line) st"
  by (simp add: line_ended_def handle_line_buf sum.map_comp o_def id_def)

text \<open>A cut between \<open>xs\<close> and \<open>ys\<close> that does no harm: it does not separate a carriage return at the end
  of the part of a line that has arrived from anything but a line feed.\<close>

function calm :: "string \<Rightarrow> string \<Rightarrow> chunked \<Rightarrow> bool" where
  "calm xs ys st =
    (if xs = [] then True
     else if chunk_remaining st \<noteq> 0 then
       calm (drop (chunk_remaining st) xs) ys
         (st\<lparr>chunk_remaining := chunk_remaining st - length xs,
           chunk_terminator_remaining := chunk_terminator_remaining st \<or> chunk_remaining st \<le> length xs\<rparr>)
     else if reached_eof st then True
     else if LF \<in> set xs then
       (case line_ended (drop_trailing_CR (takeWhile (\<lambda>c. c \<noteq> LF) xs)) st of
          Inl e \<Rightarrow> True
        | Inr st \<Rightarrow> calm (tl (dropWhile (\<lambda>c. c \<noteq> LF) xs)) ys st)
     else last xs = CR \<longrightarrow> ys = [] \<or> hd ys = LF)"
  by pat_completeness auto
termination
proof (relation "measure (length \<circ> fst)")
  fix xs ys :: string and st st' :: chunked
  assume "xs \<noteq> []"
  hence "length (tl (dropWhile (\<lambda>c. c \<noteq> LF) xs)) < length xs"
    using length_dropWhile_le [of "\<lambda>c. c \<noteq> LF" xs] by (cases xs) (auto simp: length_tl)
  thus "((tl (dropWhile (\<lambda>c. c \<noteq> LF) xs), ys, st'), xs, ys, st) \<in> measure (length \<circ> fst)" by simp
qed auto

declare calm.simps [simp del]

lemma line_split: "LF \<in> set xs \<Longrightarrow> xs = takeWhile (\<lambda>c. c \<noteq> LF) xs @ LF # tl (dropWhile (\<lambda>c. c \<noteq> LF) xs)"
  by (metis (mono_tags, lifting) dropWhile_eq_Nil_conv hd_dropWhile list.collapse takeWhile_dropWhile_id)

lemma drop_trailing_CR_append:
  "ys \<noteq> [] \<Longrightarrow> drop_trailing_CR (xs @ ys) = xs @ drop_trailing_CR ys"
  by (simp add: drop_trailing_CR_def butlast_append)

lemma drop_trailing_CR_id: "xs = [] \<or> last xs \<noteq> CR \<Longrightarrow> drop_trailing_CR xs = xs"
  by (auto simp: drop_trailing_CR_def)

lemma FilterBuf_split:
  "calm xs ys st \<Longrightarrow> FilterBuf (xs @ ys) st = then_filter (FilterBuf xs st) (FilterBuf ys)"
proof (induction xs ys st rule: calm.induct)
  case (1 xs ys st)
  show ?case
  proof (cases "xs = [] \<or> ys = []")
    case False
    hence ne: "xs \<noteq> []" "ys \<noteq> []" by auto
    note calm = "1.prems" [unfolded calm.simps [of xs ys st]]
    consider (data) "chunk_remaining st \<noteq> 0" | (eof) "chunk_remaining st = 0" "reached_eof st"
      | (line) "chunk_remaining st = 0" "\<not> reached_eof st" "LF \<in> set xs"
      | (partial) "chunk_remaining st = 0" "\<not> reached_eof st" "LF \<notin> set xs" by blast
    thus ?thesis
    proof cases
      case data
      show ?thesis
      proof (cases "chunk_remaining st \<le> length xs")
        case True
        let ?st = "st\<lparr>chunk_remaining := 0, chunk_terminator_remaining := True\<rparr>"
        have c: "calm (drop (chunk_remaining st) xs) ys ?st" using calm ne data True by simp
        have "FilterBuf (drop (chunk_remaining st) xs @ ys) ?st =
            then_filter (FilterBuf (drop (chunk_remaining st) xs) ?st) (FilterBuf ys)"
          using "1.IH"(1) [OF ne(1) data] c True by simp
        thus ?thesis using FilterBuf_data [of "xs @ ys" st] FilterBuf_data [of xs st] ne data True
          by (simp add: then_filter_assoc) (simp add: then_filter_def)
      next
        case False
        have "chunk_remaining st - length xs \<le> length ys \<longleftrightarrow> chunk_remaining st \<le> length xs + length ys" by arith
        thus ?thesis using False FilterBuf_data [of "xs @ ys" st] FilterBuf_data [of xs st]
            FilterBuf_data [of ys "st\<lparr>chunk_remaining := chunk_remaining st - length xs\<rparr>"] ne data
          by (auto simp: then_filter_def split: sum.splits)
      qed
    next
      case eof
      thus ?thesis by (simp add: FilterBuf_eof add.assoc)
    next
      case line
      let ?l = "takeWhile (\<lambda>c. c \<noteq> LF) xs" and ?r = "tl (dropWhile (\<lambda>c. c \<noteq> LF) xs)"
      have l: "LF \<notin> set ?l" by (auto dest: set_takeWhileD)
      note xs = line_split [OF line(3)]
      have whole: "FilterBuf (xs @ ys) st =
          (case line_ended (drop_trailing_CR ?l) st of Inl e \<Rightarrow> Inl e | Inr st \<Rightarrow> FilterBuf (?r @ ys) st)"
        using FilterBuf_line [OF line(1,2) l, of "?r @ ys"] by (subst xs) simp
      have part: "FilterBuf xs st =
          (case line_ended (drop_trailing_CR ?l) st of Inl e \<Rightarrow> Inl e | Inr st \<Rightarrow> FilterBuf ?r st)"
        using FilterBuf_line [OF line(1,2) l, of ?r] xs by simp
      show ?thesis
      proof (cases "line_ended (drop_trailing_CR ?l) st")
        case (Inr st')
        hence "calm ?r ys st'" using calm line ne by simp
        thus ?thesis using whole part Inr "1.IH"(2) [OF ne(1) _ line(2,3) Inr] line(1) by simp
      qed (simp add: whole part)
    next
      case partial
      have cr: "last xs = CR \<Longrightarrow> hd ys = LF" using calm partial ne by simp
      let ?st = "st\<lparr>line_buf := line_buf st @ drop_trailing_CR xs\<rparr>"
      have joined: "drop_trailing_CR (xs @ zs) = drop_trailing_CR xs @ drop_trailing_CR zs"
        if "zs = [] \<or> hd zs = hd ys \<and> LF \<notin> set zs" for zs
      proof (cases "zs = []")
        case False
        hence "last xs \<noteq> CR" using that cr by (metis list.set_sel(1))
        thus ?thesis using False by (simp add: drop_trailing_CR_append drop_trailing_CR_id)
      qed (simp add: drop_trailing_CR_def)
      show ?thesis
      proof (cases "LF \<in> set ys")
        case True
        let ?l = "takeWhile (\<lambda>c. c \<noteq> LF) ys" and ?r = "tl (dropWhile (\<lambda>c. c \<noteq> LF) ys)"
        have l: "LF \<notin> set ?l" by (auto dest: set_takeWhileD)
        have "?l = [] \<or> hd ?l = hd ys" by (cases ys) auto
        hence j: "drop_trailing_CR (xs @ ?l) = drop_trailing_CR xs @ drop_trailing_CR ?l" using joined l by blast
        have "FilterBuf (xs @ ys) st = FilterBuf ((xs @ ?l) @ LF # ?r) st" using line_split [OF True] by simp
        also have "\<dots> = (case line_ended (drop_trailing_CR ?l) ?st of Inl e \<Rightarrow> Inl e | Inr st \<Rightarrow> FilterBuf ?r st)"
          by (subst FilterBuf_line) (use partial l in \<open>auto simp: j line_ended_buf\<close>)
        also have "\<dots> = FilterBuf ys ?st"
          using FilterBuf_line [of ?st ?l ?r] partial l line_split [OF True] by simp
        finally show ?thesis using partial by (simp add: FilterBuf_partial_line)
      next
        case False
        thus ?thesis using partial joined [of ys] by (simp add: FilterBuf_partial_line)
      qed
    qed
  qed auto
qed

lemma calm_cong: "calm xs zs st \<Longrightarrow> ys = [] \<or> zs \<noteq> [] \<and> hd ys = hd zs \<Longrightarrow> calm xs ys st"
proof (induction xs zs st rule: calm.induct)
  case (1 xs zs st)
  from "1.prems"(1) show ?case
    by (subst calm.simps, subst (asm) calm.simps)
       (use "1.IH" "1.prems"(2) in \<open>auto split: sum.splits if_splits\<close>)
qed

lemma calm_last: "(xs \<noteq> [] \<Longrightarrow> last xs = CR \<Longrightarrow> ys = [] \<or> hd ys = LF) \<Longrightarrow> calm xs ys st"
proof (induction xs ys st rule: calm.induct)
  case (1 xs ys st)
  have *: "zs \<noteq> [] \<Longrightarrow> last zs = CR \<Longrightarrow> ys = [] \<or> hd ys = LF" if "xs = us @ zs" for us zs
    using "1.prems" that by auto
  note d = * [OF append_take_drop_id [symmetric, of xs "chunk_remaining st"]]
  have l: "LF \<in> set xs \<Longrightarrow> tl (dropWhile (\<lambda>c. c \<noteq> LF) xs) \<noteq> [] \<Longrightarrow>
      last (tl (dropWhile (\<lambda>c. c \<noteq> LF) xs)) = CR \<Longrightarrow> ys = [] \<or> hd ys = LF"
    using * [of "takeWhile (\<lambda>c. c \<noteq> LF) xs @ [LF]" "tl (dropWhile (\<lambda>c. c \<noteq> LF) xs)"] line_split [of xs] by simp
  show ?case
    by (subst calm.simps) (use "1.IH" "1.prems" d l in \<open>auto split: sum.splits\<close>)
qed

lemma FilterBufs_single [simp]: "FilterBufs [b] = FilterBuf b"
  by (rule ext) (auto simp: then_filter_def split: sum.splits)

text \<open>Every cut of the stream is harmless.\<close>

lemma FilterBufs_concat:
  assumes "\<And>xs ys. concat bs = xs @ ys \<Longrightarrow> calm xs ys st"
  shows "FilterBufs bs st = FilterBuf (concat bs) st"
  using assms
proof (induction bs rule: rev_induct)
  case (snoc b bs)
  have front: "calm xs ys st" if "concat bs = xs @ ys" for xs ys
  proof -
    have "calm xs (ys @ b) st" using that snoc.prems [of xs "ys @ b"] by simp
    thus ?thesis by (rule calm_cong) auto
  qed
  have "calm (concat bs) b st" using snoc.prems [of "concat bs" b] by simp
  thus ?case using snoc.IH [OF front] FilterBuf_split [of "concat bs" b st] by (simp add: FilterBufs_append)
qed simp

text \<open>No piece ends in a carriage return that something other than a line feed follows.\<close>

fun keeps_CRLF :: "string list \<Rightarrow> bool" where
  "keeps_CRLF [] = True"
| "keeps_CRLF (b # bs) = ((b \<noteq> [] \<and> last b = CR \<longrightarrow> concat bs = [] \<or> hd (concat bs) = LF) \<and> keeps_CRLF bs)"

text \<open>C22. Where a body is cut into pieces does not matter: filtering the pieces gives the same bytes, the
  same error and the same state as filtering the whole, unless a piece ends in a carriage return
  without its line feed.\<close>

theorem filtering_pieces_is_filtering_the_whole:
  assumes "keeps_CRLF bs"
  shows "FilterBufs bs st = FilterBuf (concat bs) st"
  using assms
proof (induction bs arbitrary: st)
  case (Cons b bs)
  have "FilterBufs bs = FilterBuf (concat bs)" by (rule ext) (use Cons in simp)
  moreover have "calm b (concat bs) st" using Cons.prems by (intro calm_last) auto
  ultimately show ?case using FilterBuf_split by simp
qed simp

text \<open>After a carriage return it does matter: a carriage return in the middle of a chunk size is an
  error when the line arrives whole, and is dropped when it ends a piece.\<close>

theorem a_split_after_CR_changes_the_result:
  "FilterBuf (''1'' @ [CR] @ ''0'' @ [CR, LF]) new_HttpChunkedDecoder = Inl ERR_INVALID_CHUNKED_ENCODING \<and>
   map_sum id (chunk_remaining \<circ> snd) (FilterBufs [''1'' @ [CR], ''0'' @ [CR, LF]] new_HttpChunkedDecoder) = Inr 16"
  by code_simp

subsection \<open>The chunked coding\<close>

function hex_digits :: "nat \<Rightarrow> nat list" where
  "hex_digits n = (if n < 16 then [n] else hex_digits (n div 16) @ [n mod 16])"
  by pat_completeness auto
termination by (relation "measure id") auto

declare hex_digits.simps [simp del]

definition hex_value :: "nat \<Rightarrow> nat list \<Rightarrow> nat" where
  "hex_value = foldl (\<lambda>a d. 16 * a + d)"

lemma hex_digits_props: "hex_digits n \<noteq> [] \<and> (\<forall>d \<in> set (hex_digits n). d < 16) \<and> hex_value 0 (hex_digits n) = n"
proof (induction n rule: hex_digits.induct)
  case (1 n)
  thus ?case by (subst (1 2 3) hex_digits.simps) (auto simp: hex_value_def)
qed

lemma hex_char_digit:
  assumes "d < 16"
  shows "CharToDigit 16 (hex_char d) = Some (int d) \<and> hex_char d \<in> set hex_digit_chars \<and>
    \<not> LocalIsWhitespace (hex_char d) \<and>
    hex_char d \<notin> {CHR ''-'', CHR ''+'', CHR ''x'', CHR ''X'', CHR '' '', CHR '';'', CR, LF}"
proof -
  have "list_all (\<lambda>d. CharToDigit 16 (hex_char d) = Some (int d) \<and> hex_char d \<in> set hex_digit_chars \<and>
    \<not> LocalIsWhitespace (hex_char d) \<and>
    hex_char d \<notin> {CHR ''-'', CHR ''+'', CHR ''x'', CHR ''X'', CHR '' '', CHR '';'', CR, LF}) [0..<16]" by code_simp
  thus ?thesis using assms by (auto simp: list_all_iff)
qed

lemma hex_value_mono: "a \<le> hex_value a ds"
proof (induction ds arbitrary: a)
  case (Cons d ds)
  have "a \<le> 16 * a + d" by simp
  also have "\<dots> \<le> hex_value (16 * a + d) ds" by (rule Cons)
  finally show ?case by (simp add: hex_value_def)
qed (simp add: hex_value_def)

lemma hex_cast: "n < 2 ^ 31 \<Longrightarrow> value_cast hex_int_traits (int n) = int n"
  by (simp add: hex_int_traits_def wrap_int_id)

lemma append_hex_digits:
  "\<forall>d \<in> set ds. d < 16 \<Longrightarrow> hex_value a ds < 2 ^ 31 \<Longrightarrow>
   append_digits hex_int_traits False False (map hex_char ds) (int a) = (True, int (hex_value a ds))"
proof (induction ds arbitrary: a)
  case (Cons d ds)
  have le: "16 * a + d < 2 ^ 31"
    using hex_value_mono [of "16 * a + d" ds] Cons.prems(2) by (simp add: hex_value_def)
  hence bound: "Positive_CheckBounds hex_int_traits (int a) (int d) = None"
    using Cons.prems(1) by (simp add: Positive_CheckBounds_def hex_int_traits_def wrap_int_def)
  have "value_cast hex_int_traits (int a * 16) = int (16 * a)" using hex_cast [of "16 * a"] le by (simp add: mult.commute)
  moreover have "value_cast hex_int_traits (int (16 * a) + int d) = int (16 * a + d)" using hex_cast [OF le] by simp
  ultimately show ?case
    using Cons.IH [of "16 * a + d"] Cons.prems bound hex_char_digit [of d]
    by (simp add: hex_value_def hex_int_traits_def)
qed (simp add: hex_value_def)

lemma HexStringToInt_digits:
  assumes "ds \<noteq> []" "\<forall>d \<in> set ds. d < 16" "hex_value 0 ds < 2 ^ 31"
  shows "HexStringToInt (map hex_char ds) = (True, int (hex_value 0 ds))"
proof -
  obtain d ds' where ds: "ds = d # ds'" "d < 16" "\<forall>d \<in> set ds'. d < 16" using assms(1,2) by (cases ds) auto
  note d = hex_char_digit [OF ds(2)]
  have "hex_char (ds' ! 0) \<noteq> CHR ''x'' \<and> hex_char (ds' ! 0) \<noteq> CHR ''X''" if "ds' \<noteq> []"
    using hex_char_digit [of "ds' ! 0"] ds(3) that by (simp add: nth_mem)
  hence p: "skip_hex_prefix hex_int_traits (map hex_char ds) = map hex_char ds"
    using ds(1) by (cases ds') (auto simp: skip_hex_prefix_def)
  have c: "value_cast hex_int_traits (int d) = int d" by (rule hex_cast) (use ds(2) in simp)
  have "append_digits hex_int_traits False True (map hex_char ds) 0 =
      append_digits hex_int_traits False False (map hex_char ds') (int d)"
    using d ds(1) c by (simp add: hex_int_traits_def)
  also have "\<dots> = (True, int (hex_value 0 ds))"
    using append_hex_digits [of ds' d] ds assms(3) by (simp add: hex_value_def)
  finally show ?thesis using d ds(1) p by (simp add: HexStringToInt_def Number_Invoke_def Base_Invoke_def)
qed

definition hex_text :: "nat \<Rightarrow> string" where
  "hex_text n = map hex_char (hex_digits n)"

lemma hex_text_chars: "c \<in> set (hex_text n) \<Longrightarrow> c \<in> set hex_digit_chars \<and> c \<notin> {CHR '' '', CHR '';'', CR, LF}"
  using hex_digits_props [of n] hex_char_digit unfolding hex_text_def by fastforce

lemma hex_text_ne [simp]: "hex_text n \<noteq> []"
  using hex_digits_props [of n] by (simp add: hex_text_def)

lemma ParseChunkSize_hex_text:
  assumes "n < 2 ^ 31"
  shows "ParseChunkSize (takeWhile (\<lambda>c. c \<noteq> CHR '';'') (hex_text n)) = Some n"
proof -
  have tw: "takeWhile (\<lambda>c. c \<noteq> CHR '';'') (hex_text n) = hex_text n"
    using hex_text_chars [of _ n] by (subst takeWhile_eq_all_conv) blast
  moreover have "dropWhile (\<lambda>c. c = CHR '' '') (rev (hex_text n)) = rev (hex_text n)"
    using hex_text_chars [of "last (hex_text n)" n] by (intro dropWhile_eq_self_iff [THEN iffD2]) (simp add: hd_rev)
  moreover have "list_all (\<lambda>c. c \<in> set hex_digit_chars) (hex_text n)"
    using hex_text_chars [of _ n] unfolding list_all_iff by blast
  moreover have "HexStringToInt (hex_text n) = (True, int n)"
    using HexStringToInt_digits [of "hex_digits n"] hex_digits_props [of n] assms by (simp add: hex_text_def)
  ultimately show ?thesis unfolding ParseChunkSize_def Let_def tw by simp
qed

definition CRLF :: string where "CRLF = [CR, LF]"

text \<open>A body as a sequence of chunks, then the empty chunk and no trailer.\<close>

definition chunked_coding :: "string list \<Rightarrow> string" where
  "chunked_coding ds = concat (map (\<lambda>d. hex_text (length d) @ CRLF @ d @ CRLF) ds) @ hex_text 0 @ CRLF @ CRLF"

text \<open>A line and its end, and the data of a chunk.\<close>

lemma FilterBuf_CRLF:
  assumes "chunk_remaining st = 0" "\<not> reached_eof st" "LF \<notin> set line"
  shows "FilterBuf (line @ CRLF @ k) st = (case line_ended line st of Inl e \<Rightarrow> Inl e | Inr st \<Rightarrow> FilterBuf k st)"
  using FilterBuf_line [OF assms(1,2), of "line @ [CR]" k] assms(3)
  by (simp add: CRLF_def drop_trailing_CR_def LF_def CR_def)

lemma CRLF_prefix:
  assumes "xs @ us = line @ CRLF"
  shows "us = [] \<or> us = [LF] \<and> xs = line @ [CR] \<or> (\<exists>v. us = v @ CRLF \<and> line = xs @ v)"
  using assms
proof (cases us rule: rev_cases)
  case (snoc us' c)
  hence c: "xs @ us' = line @ [CR]" "c = LF" using assms by (simp_all add: CRLF_def)
  show ?thesis
  proof (cases us' rule: rev_cases)
    case (snoc us'' d)
    thus ?thesis using c \<open>us = us' @ [c]\<close> by (simp add: CRLF_def)
  qed (use c snoc in simp)
qed simp

lemma calm_CRLF:
  assumes st: "chunk_remaining st = 0" "\<not> reached_eof st" and line: "LF \<notin> set line" "CR \<notin> set line"
    and xs: "xs @ ys = line @ CRLF @ k"
    and rest: "\<And>xs' st'. xs' @ ys = k \<Longrightarrow> line_ended line st = Inr st' \<Longrightarrow> calm xs' ys st'"
  shows "calm xs ys st"
proof -
  consider (after) xs' where "xs = line @ CRLF @ xs'" "xs' @ ys = k" | (inside) us where "us \<noteq> []" "xs @ us = line @ CRLF" "ys = us @ k"
    using xs append_eq_append_conv2 [of xs ys "line @ CRLF" k] by force
  thus ?thesis
  proof cases
    case inside
    from CRLF_prefix [OF inside(2)] inside(1) have *: "us = [LF] \<and> xs = line @ [CR] \<or> (\<exists>v. us = v @ CRLF \<and> line = xs @ v)"
      by blast
    have "LF \<notin> set xs" using * line by (auto simp: LF_def CR_def)
    moreover have "hd ys = LF" if cr: "last xs = CR" and ne: "xs \<noteq> []"
      using *
    proof
      assume "\<exists>v. us = v @ CRLF \<and> line = xs @ v"
      hence "CR \<in> set line" using last_in_set [OF ne] cr by auto
      thus ?thesis using line(2) by simp
    qed (simp add: inside(3))
    ultimately show ?thesis using st by (subst calm.simps) auto
  next
    case after
    have no: "CR \<noteq> LF" "\<And>c. c \<in> set line \<Longrightarrow> c \<noteq> LF" using line(1) by (auto simp: LF_def CR_def)
    hence tw: "takeWhile (\<lambda>c. c \<noteq> LF) xs = line @ [CR]" "tl (dropWhile (\<lambda>c. c \<noteq> LF) xs) = xs'"
      by (simp_all add: after(1) CRLF_def takeWhile_append2 dropWhile_append2)
    have "drop_trailing_CR (line @ [CR]) = line" by (simp add: drop_trailing_CR_def)
    moreover have "LF \<in> set xs" using after(1) by (simp add: CRLF_def)
    ultimately show ?thesis using st tw rest [OF after(2)] by (subst calm.simps) (auto split: sum.split)
  qed
qed

lemma calm_chunk_data:
  assumes st: "chunk_remaining st = length d" "d \<noteq> []" and xs: "xs @ ys = d @ k"
    and rest: "\<And>xs'. xs' @ ys = k \<Longrightarrow> calm xs' ys (st\<lparr>chunk_remaining := 0, chunk_terminator_remaining := True\<rparr>)"
  shows "calm xs ys st"
proof (cases "length d \<le> length xs")
  case True
  hence "xs = d @ drop (length d) xs" "drop (length d) xs @ ys = k"
    using xs by (metis append_eq_append_conv_if append_take_drop_id)+
  thus ?thesis using rest [of "drop (length d) xs"] st True by (subst calm.simps) auto
next
  case False
  thus ?thesis using st by (subst calm.simps) (auto simp: calm.simps)
qed

subsection \<open>Decoding a body\<close>

abbreviation start_state :: chunked where "start_state \<equiv> new_HttpChunkedDecoder"

lemma line_ended_size:
  assumes "0 < n" "n < 2 ^ 31"
  shows "line_ended (hex_text n) start_state = Inr (start_state\<lparr>chunk_remaining := n\<rparr>)"
  using assms ParseChunkSize_hex_text [OF assms(2)]
  by (simp add: line_ended_def handle_line_def new_HttpChunkedDecoder_def)

lemma line_ended_zero: "line_ended (hex_text 0) start_state = Inr (start_state\<lparr>reached_last_chunk := True\<rparr>)"
  using ParseChunkSize_hex_text [of 0]
  by (simp add: line_ended_def handle_line_def new_HttpChunkedDecoder_def)

lemma line_ended_terminator: "line_ended [] (start_state\<lparr>chunk_terminator_remaining := True\<rparr>) = Inr start_state"
  by (simp add: line_ended_def handle_line_def new_HttpChunkedDecoder_def)

lemma line_ended_trailer:
  "line_ended [] (start_state\<lparr>reached_last_chunk := True\<rparr>) = Inr (start_state\<lparr>reached_last_chunk := True, reached_eof := True\<rparr>)"
  by (simp add: line_ended_def handle_line_def new_HttpChunkedDecoder_def)

lemma start_fields [simp]:
  "chunk_remaining start_state = 0" "\<not> reached_eof start_state" "line_buf start_state = []"
  "\<not> chunk_terminator_remaining start_state" "bytes_after_eof start_state = 0"
  "start_state\<lparr>chunk_remaining := 0\<rparr> = start_state"
  by (simp_all add: new_HttpChunkedDecoder_def)

lemma hex_text_no_CRLF: "LF \<notin> set (hex_text n)" "CR \<notin> set (hex_text n)"
  using hex_text_chars by blast+

definition chunk_ok :: "string \<Rightarrow> bool" where
  "chunk_ok d \<longleftrightarrow> d \<noteq> [] \<and> length d < 2 ^ 31"

lemma FilterBuf_chunked_coding:
  "list_all chunk_ok ds \<Longrightarrow> FilterBuf (chunked_coding ds @ extra) start_state =
     Inr (concat ds, start_state\<lparr>reached_last_chunk := True, reached_eof := True, bytes_after_eof := length extra\<rparr>)"
proof (induction ds)
  case Nil
  show ?case
    using FilterBuf_CRLF [of start_state "hex_text 0" "[] @ CRLF @ extra"] hex_text_no_CRLF
      FilterBuf_CRLF [of "start_state\<lparr>reached_last_chunk := True\<rparr>" "[]" extra]
    by (simp add: chunked_coding_def line_ended_zero line_ended_trailer FilterBuf_eof)
next
  case (Cons d ds)
  have "chunk_ok d" and ds: "list_all chunk_ok ds" using Cons.prems by simp_all
  hence d: "d \<noteq> []" "length d < 2 ^ 31" by (simp_all add: chunk_ok_def)
  let ?k = "chunked_coding ds @ extra"
  have "FilterBuf (chunked_coding (d # ds) @ extra) start_state = FilterBuf (hex_text (length d) @ CRLF @ d @ CRLF @ ?k) start_state"
    by (simp add: chunked_coding_def)
  also have "\<dots> = FilterBuf (d @ CRLF @ ?k) (start_state\<lparr>chunk_remaining := length d\<rparr>)"
    using d by (subst FilterBuf_CRLF) (simp_all add: hex_text_no_CRLF line_ended_size)
  also have "\<dots> = then_filter (Inr (d, start_state\<lparr>chunk_terminator_remaining := True\<rparr>)) (FilterBuf ([] @ CRLF @ ?k))"
    using d FilterBuf_data [of "d @ CRLF @ ?k" "start_state\<lparr>chunk_remaining := length d\<rparr>"] by (simp add: CRLF_def)
  also have "\<dots> = then_filter (Inr (d, start_state\<lparr>chunk_terminator_remaining := True\<rparr>)) (\<lambda>_. FilterBuf ?k start_state)"
    using FilterBuf_CRLF [of "start_state\<lparr>chunk_terminator_remaining := True\<rparr>" "[]" ?k]
    by (simp add: then_filter_def line_ended_terminator)
  finally show ?case by (simp add: then_filter_def Cons.IH [OF ds])
qed

text \<open>Every cut of a coded body is harmless.\<close>

lemma calm_chunked_coding:
  "list_all chunk_ok ds \<Longrightarrow> xs @ ys = chunked_coding ds @ extra \<Longrightarrow> calm xs ys start_state"
proof (induction ds arbitrary: xs)
  case Nil
  show ?case
  proof (rule calm_CRLF [where line = "hex_text 0" and k = "CRLF @ extra"])
    fix xs' st' assume xs': "xs' @ ys = CRLF @ extra" and "line_ended (hex_text 0) start_state = Inr st'"
    hence st': "st' = start_state\<lparr>reached_last_chunk := True\<rparr>" by (simp add: line_ended_zero)
    show "calm xs' ys st'" unfolding st'
    proof (rule calm_CRLF [where line = "[]" and k = extra])
      fix xs'' st'' assume "line_ended [] (start_state\<lparr>reached_last_chunk := True\<rparr>) = Inr st''"
      thus "calm xs'' ys st''" by (subst calm.simps) (auto simp: line_ended_trailer)
    qed (use xs' in simp_all)
  qed (use Nil in \<open>simp_all add: hex_text_no_CRLF chunked_coding_def\<close>)
next
  case (Cons d ds)
  have "chunk_ok d" and ds: "list_all chunk_ok ds" using Cons.prems(1) by simp_all
  hence d: "d \<noteq> []" "length d < 2 ^ 31" by (simp_all add: chunk_ok_def)
  let ?k = "chunked_coding ds @ extra"
  show ?case
  proof (rule calm_CRLF [where line = "hex_text (length d)" and k = "d @ CRLF @ ?k"])
    fix xs' st' assume xs': "xs' @ ys = d @ CRLF @ ?k" and "line_ended (hex_text (length d)) start_state = Inr st'"
    hence st': "st' = start_state\<lparr>chunk_remaining := length d\<rparr>" using d by (simp add: line_ended_size)
    show "calm xs' ys st'" unfolding st'
    proof (rule calm_chunk_data [OF _ d(1) xs'])
      fix xs'' assume xs'': "xs'' @ ys = CRLF @ ?k"
      have "calm xs'' ys (start_state\<lparr>chunk_terminator_remaining := True\<rparr>)"
      proof (rule calm_CRLF [where line = "[]" and k = ?k])
        fix xs3 st3 assume "xs3 @ ys = ?k" "line_ended [] (start_state\<lparr>chunk_terminator_remaining := True\<rparr>) = Inr st3"
        thus "calm xs3 ys st3" using Cons.IH [OF ds] by (simp add: line_ended_terminator)
      qed (use xs'' in simp_all)
      thus "calm xs'' ys (start_state\<lparr>chunk_remaining := length d, chunk_remaining := 0, chunk_terminator_remaining := True\<rparr>)"
        by simp
    qed simp
  qed (use Cons.prems(2) in \<open>simp_all add: hex_text_no_CRLF chunked_coding_def\<close>)
qed

text \<open>C23. A body in the chunked coding, cut into pieces anywhere, is decoded to the data of its chunks; the
  decoder has then seen the end, and counts the bytes that follow it.\<close>

theorem chunked_body_round_trip:
  assumes "list_all chunk_ok ds" "concat pieces = chunked_coding ds @ extra"
  shows "FilterBufs pieces new_HttpChunkedDecoder =
    Inr (concat ds, new_HttpChunkedDecoder
      \<lparr>reached_last_chunk := True, reached_eof := True, bytes_after_eof := length extra\<rparr>)"
  using FilterBufs_concat [of pieces start_state] calm_chunked_coding [OF assms(1), of _ _ extra]
    FilterBuf_chunked_coding [OF assms(1), of extra] assms(2) by simp

theorem chunked_body_round_trip_witness:
  "FilterBufs [''3'' @ [CR], [LF] @ ''ab'', ''c'' @ CRLF @ ''0'' @ CRLF, [CR], [LF] @ ''xy''] new_HttpChunkedDecoder =
    Inr (''abc'', new_HttpChunkedDecoder
      \<lparr>reached_last_chunk := True, reached_eof := True, bytes_after_eof := 2\<rparr>)"
proof -
  have hex: "hex_text (length ''abc'') = ''3''" "hex_text 0 = ''0''"
    by (simp_all add: hex_text_def hex_digits.simps hex_char_def)
  have ok: "list_all chunk_ok [''abc'']" by (simp add: chunk_ok_def)
  have whole: "concat [''3'' @ [CR], [LF] @ ''ab'', ''c'' @ CRLF @ ''0'' @ CRLF, [CR], [LF] @ ''xy''] =
      chunked_coding [''abc''] @ ''xy''"
    unfolding chunked_coding_def list.map hex by (simp add: CRLF_def)
  show ?thesis using chunked_body_round_trip [OF ok whole] by (simp del: FilterBufs.simps)
qed

theorem filtering_pieces_is_filtering_the_whole_witness:
  "FilterBufs [''1'', ''0'' @ [CR], [LF] @ ''abc''] new_HttpChunkedDecoder =
   FilterBuf (''10'' @ [CR, LF] @ ''abc'') new_HttpChunkedDecoder"
  using filtering_pieces_is_filtering_the_whole [of "[''1'', ''0'' @ [CR], [LF] @ ''abc'']" new_HttpChunkedDecoder]
  by (simp add: CR_def)

end
