(* ===== verification/Utf.thy ===== *)
theory Utf
  imports Prelude "HOL-Library.Char_ord"
begin

text \<open>
  Unicode conversions: \<open>src/base/utf_string_conversions.cc\<close>, \<open>utf_string_conversion_utils.cc\<close> and the
  reader of UTF-8 they use, \<open>src/base/third_party/icu/icu_utf.cc\<close>. A \<open>std::string\<close> is a \<open>string\<close>, its
  characters being bytes; a \<open>string16\<close> is a list of numbers below \<open>2 ^ 16\<close>; a \<open>std::wstring\<close>, whose
  characters have 32 bits here, is a list of numbers. A position in a string is the rest of the string
  from there on.
\<close>

unbundle bit_operations_syntax

definition byte :: "char \<Rightarrow> nat" where "byte c = of_char c"
definition of_byte :: "nat \<Rightarrow> char" where "of_byte n = char_of n"

definition IsValidCodepoint :: "nat \<Rightarrow> bool" where
  "IsValidCodepoint code_point \<longleftrightarrow> code_point < 0xD800 \<or> code_point \<ge> 0xE000 \<and> code_point \<le> 0x10FFFF"

definition IsValidCharacter :: "nat \<Rightarrow> bool" where
  "IsValidCharacter code_point \<longleftrightarrow> code_point < 0xD800 \<or> code_point \<ge> 0xE000 \<and> code_point < 0xFDD0 \<or>
     code_point > 0xFDEF \<and> code_point \<le> 0x10FFFF \<and> code_point AND 0xFFFE \<noteq> 0xFFFE"

subsection \<open>Reading UTF-8\<close>

definition CBU8_COUNT_TRAIL_BYTES :: "nat \<Rightarrow> nat" where
  "CBU8_COUNT_TRAIL_BYTES b = (if b < 0xc0 then 0 else if b < 0xe0 then 1 else if b < 0xf0 then 2
     else if b < 0xf8 then 3 else if b < 0xfc then 4 else if b < 0xfe then 5 else 0)"

definition CBU8_IS_TRAIL :: "char \<Rightarrow> bool" where
  "CBU8_IS_TRAIL c \<longleftrightarrow> byte c AND 0xc0 = 0x80"

definition CBU8_IS_LEAD :: "char \<Rightarrow> bool" where
  "CBU8_IS_LEAD c \<longleftrightarrow> 0xc0 \<le> byte c \<and> byte c < 0xc0 + 0x3e"

definition CBU_IS_SURROGATE :: "nat \<Rightarrow> bool" where
  "CBU_IS_SURROGATE c \<longleftrightarrow> c AND 0xfffff800 = 0xd800"

definition add_trail :: "nat \<Rightarrow> char \<Rightarrow> nat" where
  "add_trail c t = push_bit 6 c OR (byte t AND 0x3f)"

definition utf8_minLegal :: "nat \<Rightarrow> nat" where
  "utf8_minLegal k = [0, 0x80, 0x800, 0x10000] ! k"

text \<open>The switch on the number of trail bytes: the code point read, and whether it is illegal.\<close>

definition read_trails :: "nat \<Rightarrow> nat \<Rightarrow> string \<Rightarrow> nat \<times> bool" where
  "read_trails k c s =
    (if k \<ge> 4 then (c, True)
     else if k = 3 \<and> \<not> add_trail c (s ! 0) < 0x110 then (add_trail c (s ! 0), True)
     else (foldl add_trail c (take k s), \<not> list_all CBU8_IS_TRAIL (take k s)))"

text \<open>A reader is given a character and those after it; it returns the code point, or \<open>None\<close> for
  \<open>CBU_SENTINEL\<close>, and by how much it advances the index beyond the character.\<close>

definition utf8_nextCharSafeBody :: "char \<Rightarrow> string \<Rightarrow> nat option \<times> nat" where
  "utf8_nextCharSafeBody lead s =
    (let k = CBU8_COUNT_TRAIL_BYTES (byte lead)
     in if k \<le> length s then
          (if k = 0 then (None, 0)
           else
             let (c, illegal) = read_trails k (byte lead AND (push_bit (6 - k) 1 - 1)) s
             in if illegal \<or> c < utf8_minLegal k \<or> CBU_IS_SURROGATE c
                then (None, length (takeWhile CBU8_IS_TRAIL (take k s)))
                else (Some c, k))
        else (None, length (takeWhile CBU8_IS_TRAIL s)))"

definition CBU8_NEXT :: "char \<Rightarrow> string \<Rightarrow> nat option \<times> nat" where
  "CBU8_NEXT c s =
    (if byte c \<ge> 0x80 then (if CBU8_IS_LEAD c then utf8_nextCharSafeBody c s else (None, 0))
     else (Some (byte c), 0))"

definition valid_codepoint :: "nat \<Rightarrow> nat option" where
  "valid_codepoint p = (if IsValidCodepoint p then Some p else None)"

definition ReadUnicodeCharacter8 :: "char \<Rightarrow> string \<Rightarrow> nat option \<times> nat" where
  "ReadUnicodeCharacter8 c s = (let (code_point, n) = CBU8_NEXT c s
     in (Option.bind code_point valid_codepoint, n))"

subsection \<open>Reading UTF-16 and wide characters\<close>

definition CBU16_IS_SURROGATE_LEAD :: "nat \<Rightarrow> bool" where
  "CBU16_IS_SURROGATE_LEAD c \<longleftrightarrow> c AND 0x400 = 0"

definition CBU16_IS_TRAIL :: "nat \<Rightarrow> bool" where
  "CBU16_IS_TRAIL c \<longleftrightarrow> c AND 0xfffffc00 = 0xdc00"

definition CBU16_GET_SUPPLEMENTARY :: "nat \<Rightarrow> nat \<Rightarrow> nat" where
  "CBU16_GET_SUPPLEMENTARY lead trail = push_bit 10 lead + trail - (push_bit 10 0xd800 + 0xdc00 - 0x10000)"

definition ReadUnicodeCharacter16 :: "nat \<Rightarrow> nat list \<Rightarrow> nat option \<times> nat" where
  "ReadUnicodeCharacter16 c s =
    (if CBU_IS_SURROGATE c then
       (case s of
          [] \<Rightarrow> (None, 0)
        | t # _ \<Rightarrow> if \<not> CBU16_IS_SURROGATE_LEAD c \<or> \<not> CBU16_IS_TRAIL t then (None, 0)
                   else (valid_codepoint (CBU16_GET_SUPPLEMENTARY c t), 1))
     else (valid_codepoint c, 0))"

definition ReadUnicodeCharacterW :: "nat \<Rightarrow> nat list \<Rightarrow> nat option \<times> nat" where
  "ReadUnicodeCharacterW c s = (valid_codepoint c, 0)"

subsection \<open>Writing\<close>

definition CBU8_APPEND_UNSAFE :: "nat \<Rightarrow> string" where
  "CBU8_APPEND_UNSAFE c =
    (if c \<le> 0x7f then [of_byte c]
     else
       (if c \<le> 0x7ff then [of_byte (drop_bit 6 c OR 0xc0)]
        else
          (if c \<le> 0xffff then [of_byte (drop_bit 12 c OR 0xe0)]
           else [of_byte (drop_bit 18 c OR 0xf0), of_byte (drop_bit 12 c AND 0x3f OR 0x80)]) @
          [of_byte (drop_bit 6 c AND 0x3f OR 0x80)]) @
       [of_byte (c AND 0x3f OR 0x80)])"

definition WriteUnicodeCharacter8 :: "nat \<Rightarrow> string" where
  "WriteUnicodeCharacter8 code_point =
    (if code_point \<le> 0x7f then [of_byte code_point] else CBU8_APPEND_UNSAFE code_point)"

definition WriteUnicodeCharacter16 :: "nat \<Rightarrow> nat list" where
  "WriteUnicodeCharacter16 code_point =
    (if code_point \<le> 0xffff then [code_point]
     else [drop_bit 10 code_point + 0xd7c0, code_point AND 0x3ff OR 0xdc00])"

definition WriteUnicodeCharacterW :: "nat \<Rightarrow> nat list" where
  "WriteUnicodeCharacterW code_point = [code_point]"

subsection \<open>Converting\<close>

function ConvertUnicode ::
  "('c \<Rightarrow> 'c list \<Rightarrow> nat option \<times> nat) \<Rightarrow> (nat \<Rightarrow> 'd list) \<Rightarrow> 'c list \<Rightarrow> bool \<times> 'd list" where
  "ConvertUnicode read write [] = (True, [])"
| "ConvertUnicode read write (c # s) =
    (let (code_point, n) = read c s;
         (success, output) = ConvertUnicode read write (drop n s)
     in case code_point of
          Some p \<Rightarrow> (success, write p @ output)
        | None \<Rightarrow> (False, write 0xFFFD @ output))"
  by pat_completeness auto
termination
  by (relation "measure (\<lambda>(_, _, s). length s)") auto

definition UTF8ToWide :: "string \<Rightarrow> nat list" where
  "UTF8ToWide s = snd (ConvertUnicode ReadUnicodeCharacter8 WriteUnicodeCharacterW s)"
definition WideToUTF8 :: "nat list \<Rightarrow> string" where
  "WideToUTF8 s = snd (ConvertUnicode ReadUnicodeCharacterW WriteUnicodeCharacter8 s)"
definition UTF8ToUTF16 :: "string \<Rightarrow> nat list" where
  "UTF8ToUTF16 s = snd (ConvertUnicode ReadUnicodeCharacter8 WriteUnicodeCharacter16 s)"
definition UTF16ToUTF8 :: "nat list \<Rightarrow> string" where
  "UTF16ToUTF8 s = snd (ConvertUnicode ReadUnicodeCharacter16 WriteUnicodeCharacter8 s)"
definition WideToUTF16 :: "nat list \<Rightarrow> nat list" where
  "WideToUTF16 s = snd (ConvertUnicode ReadUnicodeCharacterW WriteUnicodeCharacter16 s)"
definition UTF16ToWide :: "nat list \<Rightarrow> nat list" where
  "UTF16ToWide s = snd (ConvertUnicode ReadUnicodeCharacter16 WriteUnicodeCharacterW s)"

text \<open>\<open>IsStringUTF8\<close> of \<open>src/base/string_util.cc\<close>; \<open>CBU_SENTINEL\<close> is not a valid character.\<close>

function IsStringUTF8 :: "string \<Rightarrow> bool" where
  "IsStringUTF8 [] = True"
| "IsStringUTF8 (c # s) = (case CBU8_NEXT c s of
     (Some p, n) \<Rightarrow> IsValidCharacter p \<and> IsStringUTF8 (drop n s) | (None, n) \<Rightarrow> False)"
  by pat_completeness auto
termination
  by (relation "measure length") auto

end
