(* ===== verification/Values.thy ===== *)
theory Values
  imports Utf "HOL-Library.List_Lexorder"
begin

text \<open>
  \<open>Value\<close> and its subclasses (\<open>src/base/values.cc\<close>): the trees that preferences, manifests and JSON are
  read into. A dictionary is a \<open>std::map\<close> from keys to owned values, kept here as the list of its
  entries in the order of the keys. A value that a call returns or takes is a value, not a pointer:
  each is owned by one parent. Doubles are a parameter \<open>'d\<close>.
\<close>

datatype 'd Value =
    NullValue
  | BooleanValue bool
  | IntegerValue int
  | DoubleValue 'd
  | StringValue string
  | BinaryValue string
  | DictionaryValue "(string \<times> 'd Value) list"
  | ListValue "'d Value list"

type_synonym 'd dict = "(string \<times> 'd Value) list"

definition CreateStringValue16 :: "nat list \<Rightarrow> 'd Value" where
  "CreateStringValue16 in_value = StringValue (UTF16ToUTF8 in_value)"

subsection \<open>Equality and copies\<close>

text \<open>\<open>deq\<close> compares doubles.\<close>

fun Equals :: "('d \<Rightarrow> 'd \<Rightarrow> bool) \<Rightarrow> 'd Value \<Rightarrow> 'd Value \<Rightarrow> bool"
  and Equals_entries :: "('d \<Rightarrow> 'd \<Rightarrow> bool) \<Rightarrow> 'd dict \<Rightarrow> 'd dict \<Rightarrow> bool"
  and Equals_list :: "('d \<Rightarrow> 'd \<Rightarrow> bool) \<Rightarrow> 'd Value list \<Rightarrow> 'd Value list \<Rightarrow> bool" where
  "Equals deq NullValue w = (w = NullValue)"
| "Equals deq (BooleanValue b) w = (case w of BooleanValue b' \<Rightarrow> b = b' | _ \<Rightarrow> False)"
| "Equals deq (IntegerValue i) w = (case w of IntegerValue i' \<Rightarrow> i = i' | _ \<Rightarrow> False)"
| "Equals deq (DoubleValue d) w = (case w of DoubleValue d' \<Rightarrow> deq d d' | _ \<Rightarrow> False)"
| "Equals deq (StringValue s) w = (case w of StringValue s' \<Rightarrow> s = s' | _ \<Rightarrow> False)"
| "Equals deq (BinaryValue s) w = (case w of BinaryValue s' \<Rightarrow> s = s' | _ \<Rightarrow> False)"
| "Equals deq (DictionaryValue d) w = (case w of DictionaryValue d' \<Rightarrow> Equals_entries deq d d' | _ \<Rightarrow> False)"
| "Equals deq (ListValue l) w = (case w of ListValue l' \<Rightarrow> Equals_list deq l l' | _ \<Rightarrow> False)"
| "Equals_entries deq [] es = (es = [])"
| "Equals_entries deq ((k, v) # d) es =
     (case es of [] \<Rightarrow> False | (k', v') # d' \<Rightarrow> k = k' \<and> Equals deq v v' \<and> Equals_entries deq d d')"
| "Equals_list deq [] vs = (vs = [])"
| "Equals_list deq (v # l) vs = (case vs of [] \<Rightarrow> False | v' # l' \<Rightarrow> Equals deq v v' \<and> Equals_list deq l l')"

text \<open>\<open>Value::Equals\<close> of two pointers, one of which may be \<open>NULL\<close>.\<close>

definition Equals_pointers :: "('d \<Rightarrow> 'd \<Rightarrow> bool) \<Rightarrow> 'd Value option \<Rightarrow> 'd Value option \<Rightarrow> bool" where
  "Equals_pointers deq a b =
    (case (a, b) of (None, None) \<Rightarrow> True | (Some v, Some w) \<Rightarrow> Equals deq v w | _ \<Rightarrow> False)"

subsection \<open>The value of a type\<close>

text \<open>\<open>None\<close> is the result \<open>false\<close>: the value has another type.\<close>

definition GetAsBoolean :: "'d Value \<Rightarrow> bool option" where
  "GetAsBoolean v = (case v of BooleanValue b \<Rightarrow> Some b | _ \<Rightarrow> None)"
definition GetAsInteger :: "'d Value \<Rightarrow> int option" where
  "GetAsInteger v = (case v of IntegerValue i \<Rightarrow> Some i | _ \<Rightarrow> None)"
definition GetAsDouble :: "'d Value \<Rightarrow> 'd option" where
  "GetAsDouble v = (case v of DoubleValue d \<Rightarrow> Some d | _ \<Rightarrow> None)"
definition GetAsString8 :: "'d Value \<Rightarrow> string option" where
  "GetAsString8 v = (case v of StringValue s \<Rightarrow> Some s | _ \<Rightarrow> None)"
definition GetAsString16 :: "'d Value \<Rightarrow> nat list option" where
  "GetAsString16 v = (case v of StringValue s \<Rightarrow> Some (UTF8ToUTF16 s) | _ \<Rightarrow> None)"
definition as_binary :: "'d Value \<Rightarrow> string option" where
  "as_binary v = (case v of BinaryValue s \<Rightarrow> Some s | _ \<Rightarrow> None)"
definition GetAsList :: "'d Value \<Rightarrow> 'd Value list option" where
  "GetAsList v = (case v of ListValue l \<Rightarrow> Some l | _ \<Rightarrow> None)"

subsection \<open>Dictionaries\<close>

fun SetWithoutPathExpansion :: "string \<Rightarrow> 'd Value \<Rightarrow> 'd dict \<Rightarrow> 'd dict" where
  "SetWithoutPathExpansion key v [] = [(key, v)]"
| "SetWithoutPathExpansion key v ((k, w) # d) =
    (if key = k then (k, v) # d
     else if key < k then (key, v) # (k, w) # d
     else (k, w) # SetWithoutPathExpansion key v d)"

definition HasKey :: "string \<Rightarrow> 'd dict \<Rightarrow> bool" where
  "HasKey key d \<longleftrightarrow> map_of d key \<noteq> None"

definition GetWithoutPathExpansion :: "string \<Rightarrow> 'd dict \<Rightarrow> 'd Value option" where
  "GetWithoutPathExpansion key d = map_of d key"

definition as_dictionary :: "'d Value option \<Rightarrow> 'd dict option" where
  "as_dictionary v = (case v of Some (DictionaryValue d) \<Rightarrow> Some d | _ \<Rightarrow> None)"

definition GetDictionaryWithoutPathExpansion :: "string \<Rightarrow> 'd dict \<Rightarrow> 'd dict option" where
  "GetDictionaryWithoutPathExpansion key d = as_dictionary (GetWithoutPathExpansion key d)"

text \<open>The component of a path up to the first dot, and what follows the dot.\<close>

definition path_key :: "string \<Rightarrow> string" where
  "path_key path = takeWhile (\<lambda>c. c \<noteq> CHR ''.'') path"
definition path_rest :: "string \<Rightarrow> string" where
  "path_rest path = tl (dropWhile (\<lambda>c. c \<noteq> CHR ''.'') path)"

lemma path_rest_shorter: "CHR ''.'' \<in> set path \<Longrightarrow> length (path_rest path) < length path"
proof -
  assume "CHR ''.'' \<in> set path"
  hence "dropWhile (\<lambda>c. c \<noteq> CHR ''.'') path \<noteq> []" by (simp add: dropWhile_eq_Nil_conv)
  thus ?thesis using length_dropWhile_le [of "\<lambda>c. c \<noteq> CHR ''.''" path] unfolding path_rest_def
    by (cases "dropWhile (\<lambda>c. c \<noteq> CHR ''.'') path") auto
qed

function dict_Get :: "string \<Rightarrow> 'd dict \<Rightarrow> 'd Value option" where
  "dict_Get path d =
    (if CHR ''.'' \<in> set path then
       (case GetDictionaryWithoutPathExpansion (path_key path) d of
          None \<Rightarrow> None
        | Some child \<Rightarrow> dict_Get (path_rest path) child)
     else GetWithoutPathExpansion path d)"
  by pat_completeness auto
termination by (relation "measure (length \<circ> fst)") (auto simp: path_rest_shorter)

function dict_Set :: "string \<Rightarrow> 'd Value \<Rightarrow> 'd dict \<Rightarrow> 'd dict" where
  "dict_Set path v d =
    (if CHR ''.'' \<in> set path then
       let child = (case GetDictionaryWithoutPathExpansion (path_key path) d of None \<Rightarrow> [] | Some child \<Rightarrow> child)
       in SetWithoutPathExpansion (path_key path) (DictionaryValue (dict_Set (path_rest path) v child)) d
     else SetWithoutPathExpansion path v d)"
  by pat_completeness auto
termination by (relation "measure (length \<circ> fst)") (auto simp: path_rest_shorter)

declare dict_Get.simps [simp del] dict_Set.simps [simp del]

definition dict_GetDictionary :: "string \<Rightarrow> 'd dict \<Rightarrow> 'd dict option" where
  "dict_GetDictionary path d = as_dictionary (dict_Get path d)"

text \<open>The getters of a type, along a path and of a key.\<close>

definition dict_GetBoolean :: "string \<Rightarrow> 'd dict \<Rightarrow> bool option" where
  "dict_GetBoolean path d = Option.bind (dict_Get path d) GetAsBoolean"
definition dict_GetInteger :: "string \<Rightarrow> 'd dict \<Rightarrow> int option" where
  "dict_GetInteger path d = Option.bind (dict_Get path d) GetAsInteger"
definition dict_GetDouble :: "string \<Rightarrow> 'd dict \<Rightarrow> 'd option" where
  "dict_GetDouble path d = Option.bind (dict_Get path d) GetAsDouble"
definition dict_GetString :: "string \<Rightarrow> 'd dict \<Rightarrow> string option" where
  "dict_GetString path d = Option.bind (dict_Get path d) GetAsString8"
definition dict_GetString16 :: "string \<Rightarrow> 'd dict \<Rightarrow> nat list option" where
  "dict_GetString16 path d = Option.bind (dict_Get path d) GetAsString16"
definition dict_GetStringASCII :: "string \<Rightarrow> 'd dict \<Rightarrow> string option" where
  "dict_GetStringASCII path d =
    (case dict_GetString path d of None \<Rightarrow> None | Some s \<Rightarrow> if list_all (\<lambda>c. byte c \<le> 0x7F) s then Some s else None)"
definition dict_GetBinary :: "string \<Rightarrow> 'd dict \<Rightarrow> string option" where
  "dict_GetBinary path d = Option.bind (dict_Get path d) as_binary"
definition dict_GetList :: "string \<Rightarrow> 'd dict \<Rightarrow> 'd Value list option" where
  "dict_GetList path d = Option.bind (dict_Get path d) GetAsList"
definition GetIntegerWithoutPathExpansion :: "string \<Rightarrow> 'd dict \<Rightarrow> int option" where
  "GetIntegerWithoutPathExpansion key d = Option.bind (GetWithoutPathExpansion key d) GetAsInteger"
definition GetDoubleWithoutPathExpansion :: "string \<Rightarrow> 'd dict \<Rightarrow> 'd option" where
  "GetDoubleWithoutPathExpansion key d = Option.bind (GetWithoutPathExpansion key d) GetAsDouble"
definition GetStringWithoutPathExpansion :: "string \<Rightarrow> 'd dict \<Rightarrow> string option" where
  "GetStringWithoutPathExpansion key d = Option.bind (GetWithoutPathExpansion key d) GetAsString8"
definition GetString16WithoutPathExpansion :: "string \<Rightarrow> 'd dict \<Rightarrow> nat list option" where
  "GetString16WithoutPathExpansion key d = Option.bind (GetWithoutPathExpansion key d) GetAsString16"
definition GetListWithoutPathExpansion :: "string \<Rightarrow> 'd dict \<Rightarrow> 'd Value list option" where
  "GetListWithoutPathExpansion key d = Option.bind (GetWithoutPathExpansion key d) GetAsList"

text \<open>The setters of a type.\<close>

definition dict_SetBoolean :: "string \<Rightarrow> bool \<Rightarrow> 'd dict \<Rightarrow> 'd dict" where
  "dict_SetBoolean path b = dict_Set path (BooleanValue b)"
definition dict_SetInteger :: "string \<Rightarrow> int \<Rightarrow> 'd dict \<Rightarrow> 'd dict" where
  "dict_SetInteger path i = dict_Set path (IntegerValue i)"
definition dict_SetDouble :: "string \<Rightarrow> 'd \<Rightarrow> 'd dict \<Rightarrow> 'd dict" where
  "dict_SetDouble path x = dict_Set path (DoubleValue x)"
definition dict_SetString :: "string \<Rightarrow> string \<Rightarrow> 'd dict \<Rightarrow> 'd dict" where
  "dict_SetString path s = dict_Set path (StringValue s)"
definition dict_SetString16 :: "string \<Rightarrow> nat list \<Rightarrow> 'd dict \<Rightarrow> 'd dict" where
  "dict_SetString16 path s = dict_Set path (CreateStringValue16 s)"

definition dict_Clear :: "'d dict \<Rightarrow> 'd dict" where
  "dict_Clear d = []"

text \<open>\<open>None\<close> is the result \<open>false\<close>.\<close>

definition RemoveWithoutPathExpansion :: "string \<Rightarrow> 'd dict \<Rightarrow> ('d dict \<times> 'd Value) option" where
  "RemoveWithoutPathExpansion key d =
    (case map_of d key of None \<Rightarrow> None | Some v \<Rightarrow> Some (filter (\<lambda>e. fst e \<noteq> key) d, v))"

text \<open>\<open>Remove\<close> finds the dictionary that \<open>GetDictionary\<close> of the path up to the last dot gives, and changes
  it in place.\<close>

function dict_Remove :: "string \<Rightarrow> 'd dict \<Rightarrow> ('d dict \<times> 'd Value) option" where
  "dict_Remove path d =
    (if CHR ''.'' \<in> set path then
       (case GetDictionaryWithoutPathExpansion (path_key path) d of
          None \<Rightarrow> None
        | Some child \<Rightarrow>
            map_option (\<lambda>(child, v). (SetWithoutPathExpansion (path_key path) (DictionaryValue child) d, v))
              (dict_Remove (path_rest path) child))
     else RemoveWithoutPathExpansion path d)"
  by pat_completeness auto
termination by (relation "measure (length \<circ> fst)") (auto simp: path_rest_shorter)

declare dict_Remove.simps [simp del]

text \<open>A copy is put together entry by entry.\<close>

fun DeepCopy :: "'d Value \<Rightarrow> 'd Value"
  and deep_copy_into :: "'d dict \<Rightarrow> 'd dict \<Rightarrow> 'd dict"
  and deep_copy_list :: "'d Value list \<Rightarrow> 'd Value list" where
  "DeepCopy (DictionaryValue d) = DictionaryValue (deep_copy_into [] d)"
| "DeepCopy (ListValue l) = ListValue (deep_copy_list l)"
| "DeepCopy v = v"
| "deep_copy_into result [] = result"
| "deep_copy_into result ((k, v) # d) = deep_copy_into (SetWithoutPathExpansion k (DeepCopy v) result) d"
| "deep_copy_list [] = []"
| "deep_copy_list (v # l) = DeepCopy v # deep_copy_list l"

function MergeDictionary :: "'d dict \<Rightarrow> 'd dict \<Rightarrow> 'd dict" where
  "MergeDictionary this [] = this"
| "MergeDictionary this ((key, merge_value) # es) =
    (case (merge_value, GetDictionaryWithoutPathExpansion key this) of
       (DictionaryValue sub, Some sub_dict) \<Rightarrow>
         MergeDictionary (SetWithoutPathExpansion key (DictionaryValue (MergeDictionary sub_dict sub)) this) es
     | _ \<Rightarrow> MergeDictionary (SetWithoutPathExpansion key (DeepCopy merge_value) this) es)"
  by pat_completeness auto
termination by (relation "measure (size_list (size_prod (\<lambda>_. 0) (size_Value (\<lambda>_. 0))) \<circ> snd)") auto

fun CopyWithoutEmptyChildren :: "'d Value \<Rightarrow> 'd Value option"
  and copy_into :: "'d dict \<Rightarrow> 'd dict \<Rightarrow> 'd dict"
  and copy_list :: "'d Value list \<Rightarrow> 'd Value list" where
  "CopyWithoutEmptyChildren (ListValue l) = (let copy = copy_list l in if copy \<noteq> [] then Some (ListValue copy) else None)"
| "CopyWithoutEmptyChildren (DictionaryValue d) =
    (let copy = copy_into [] d in if copy \<noteq> [] then Some (DictionaryValue copy) else None)"
| "CopyWithoutEmptyChildren v = Some (DeepCopy v)"
| "copy_into copy [] = copy"
| "copy_into copy ((k, v) # d) =
    (case CopyWithoutEmptyChildren v of None \<Rightarrow> copy_into copy d | Some w \<Rightarrow> copy_into (SetWithoutPathExpansion k w copy) d)"
| "copy_list [] = []"
| "copy_list (v # l) = (case CopyWithoutEmptyChildren v of None \<Rightarrow> copy_list l | Some w \<Rightarrow> w # copy_list l)"

definition DeepCopyWithoutEmptyChildren :: "'d dict \<Rightarrow> 'd dict" where
  "DeepCopyWithoutEmptyChildren d = (case as_dictionary (CopyWithoutEmptyChildren (DictionaryValue d)) of
     None \<Rightarrow> [] | Some copy \<Rightarrow> copy)"

subsection \<open>Lists\<close>

definition list_Set :: "nat \<Rightarrow> 'd Value \<Rightarrow> 'd Value list \<Rightarrow> 'd Value list" where
  "list_Set index v l =
    (if index \<ge> length l then l @ replicate (index - length l) NullValue @ [v] else l[index := v])"

definition list_Get :: "nat \<Rightarrow> 'd Value list \<Rightarrow> 'd Value option" where
  "list_Get index l = (if index \<ge> length l then None else Some (l ! index))"

definition list_Remove :: "nat \<Rightarrow> 'd Value list \<Rightarrow> ('d Value list \<times> 'd Value) option" where
  "list_Remove index l = (if index \<ge> length l then None else Some (take index l @ drop (Suc index) l, l ! index))"

fun list_Remove_value :: "('d \<Rightarrow> 'd \<Rightarrow> bool) \<Rightarrow> 'd Value \<Rightarrow> 'd Value list \<Rightarrow> 'd Value list \<times> int" where
  "list_Remove_value deq value [] = ([], -1)"
| "list_Remove_value deq value (v # l) =
    (if Equals deq v value then (l, 0)
     else let (l, index) = list_Remove_value deq value l in (v # l, if index = -1 then -1 else index + 1))"

definition AppendIfNotPresent :: "('d \<Rightarrow> 'd \<Rightarrow> bool) \<Rightarrow> 'd Value \<Rightarrow> 'd Value list \<Rightarrow> 'd Value list \<times> bool" where
  "AppendIfNotPresent deq v l = (if list_ex (\<lambda>w. Equals deq w v) l then (l, False) else (l @ [v], True))"

definition list_Insert :: "nat \<Rightarrow> 'd Value \<Rightarrow> 'd Value list \<Rightarrow> 'd Value list option" where
  "list_Insert index v l = (if index > length l then None else Some (take index l @ v # drop index l))"

definition list_Append :: "'d Value \<Rightarrow> 'd Value list \<Rightarrow> 'd Value list" where
  "list_Append v l = l @ [v]"

definition list_Clear :: "'d Value list \<Rightarrow> 'd Value list" where
  "list_Clear l = []"

definition list_GetBoolean :: "nat \<Rightarrow> 'd Value list \<Rightarrow> bool option" where
  "list_GetBoolean index l = Option.bind (list_Get index l) GetAsBoolean"
definition list_GetInteger :: "nat \<Rightarrow> 'd Value list \<Rightarrow> int option" where
  "list_GetInteger index l = Option.bind (list_Get index l) GetAsInteger"
definition list_GetDouble :: "nat \<Rightarrow> 'd Value list \<Rightarrow> 'd option" where
  "list_GetDouble index l = Option.bind (list_Get index l) GetAsDouble"
definition list_GetString :: "nat \<Rightarrow> 'd Value list \<Rightarrow> string option" where
  "list_GetString index l = Option.bind (list_Get index l) GetAsString8"
definition list_GetString16 :: "nat \<Rightarrow> 'd Value list \<Rightarrow> nat list option" where
  "list_GetString16 index l = Option.bind (list_Get index l) GetAsString16"
definition list_GetBinary :: "nat \<Rightarrow> 'd Value list \<Rightarrow> string option" where
  "list_GetBinary index l = Option.bind (list_Get index l) as_binary"
definition list_GetDictionary :: "nat \<Rightarrow> 'd Value list \<Rightarrow> 'd dict option" where
  "list_GetDictionary index l = as_dictionary (list_Get index l)"
definition list_GetList :: "nat \<Rightarrow> 'd Value list \<Rightarrow> 'd Value list option" where
  "list_GetList index l = Option.bind (list_Get index l) GetAsList"

end
