(* ===== verification/Json.thy ===== *)
theory Json
  imports Values NumberStrings
begin

text \<open>
  JSON: the writer (\<open>src/base/json/json_writer.cc\<close>, \<open>string_escape.cc\<close>) and the reader
  (\<open>json_reader.cc\<close>). The reader walks over a zero terminated wide string; \<open>json_pos\<close> is the part of it
  from the current position on, and reading at the end of the list gives the terminator.
\<close>

text \<open>The conversions of doubles are those of a library.\<close>

record 'd double_ops =
  DoubleToString :: "'d \<Rightarrow> string"
  StringToDouble :: "string \<Rightarrow> 'd option"
  IsFinite :: "'d \<Rightarrow> bool"

section \<open>The writer\<close>

subsection \<open>Strings\<close>

text \<open>Characters are given by their codes, of a \<open>std::string\<close> as unsigned bytes.\<close>

definition JsonSingleEscapeChar :: "nat \<Rightarrow> string option" where
  "JsonSingleEscapeChar c =
    (if c = 8 then Some [CHR 0x5C, CHR ''b'']
     else if c = 12 then Some [CHR 0x5C, CHR ''f'']
     else if c = 10 then Some [CHR 0x5C, CHR ''n'']
     else if c = 13 then Some [CHR 0x5C, CHR ''r'']
     else if c = 9 then Some [CHR 0x5C, CHR ''t'']
     else if c = 0x5C then Some [CHR 0x5C, CHR 0x5C]
     else if c = 0x22 then Some [CHR 0x5C, CHR 0x22]
     else None)"

text \<open>\<open>%04X\<close> of a number below \<open>2 ^ 16\<close>.\<close>

definition hex4 :: "nat \<Rightarrow> string" where
  "hex4 c = [hex_char (c div 4096), hex_char (c div 256 mod 16), hex_char (c div 16 mod 16), hex_char (c mod 16)]"

definition json_escape :: "nat \<Rightarrow> string" where
  "json_escape c =
    (case JsonSingleEscapeChar c of
       Some s \<Rightarrow> s
     | None \<Rightarrow> if c < 32 \<or> c > 126 \<or> c = byte CHR ''<'' \<or> c = byte CHR ''>''
               then [CHR 0x5C, CHR ''u''] @ hex4 c else [of_byte c])"

definition JsonDoubleQuote :: "nat list \<Rightarrow> bool \<Rightarrow> string" where
  "JsonDoubleQuote str put_in_quotes =
    (if put_in_quotes then [CHR 0x22] else []) @ concat (map json_escape str) @
    (if put_in_quotes then [CHR 0x22] else [])"

subsection \<open>Values\<close>

definition AppendQuotedString :: "string \<Rightarrow> string" where
  "AppendQuotedString str = JsonDoubleQuote (UTF8ToUTF16 str) True"

definition IndentLine :: "nat \<Rightarrow> string" where
  "IndentLine depth = replicate (depth * 3) (CHR '' '')"

definition kPrettyPrintLineEnding :: string where
  "kPrettyPrintLineEnding = [CHR 0x0A]"

definition double_text :: "'d double_ops \<Rightarrow> 'd \<Rightarrow> string" where
  "double_text ops value =
    (let real = DoubleToString ops value;
         real = (if CHR ''.'' \<notin> set real \<and> CHR ''e'' \<notin> set real \<and> CHR ''E'' \<notin> set real then real @ ''.0'' else real)
     in if real \<noteq> [] \<and> real ! 0 = CHR ''.'' then CHR ''0'' # real
        else if length real > 1 \<and> real ! 0 = CHR ''-'' \<and> real ! 1 = CHR ''.'' then CHR ''-'' # CHR ''0'' # tl real
        else real)"

fun BuildJSONString :: "'d double_ops \<Rightarrow> bool \<Rightarrow> 'd Value \<Rightarrow> nat \<Rightarrow> bool \<Rightarrow> string"
  and json_entries :: "'d double_ops \<Rightarrow> bool \<Rightarrow> bool \<Rightarrow> 'd dict \<Rightarrow> nat \<Rightarrow> bool \<Rightarrow> string"
  and json_items :: "'d double_ops \<Rightarrow> bool \<Rightarrow> bool \<Rightarrow> 'd Value list \<Rightarrow> nat \<Rightarrow> bool \<Rightarrow> string" where
  "BuildJSONString ops pretty NullValue depth escape = ''null''"
| "BuildJSONString ops pretty (BooleanValue b) depth escape = (if b then ''true'' else ''false'')"
| "BuildJSONString ops pretty (IntegerValue i) depth escape = IntToString i"
| "BuildJSONString ops pretty (DoubleValue d) depth escape = double_text ops d"
| "BuildJSONString ops pretty (StringValue s) depth escape =
    (if escape then JsonDoubleQuote (UTF8ToUTF16 s) True else JsonDoubleQuote (map byte s) True)"
| "BuildJSONString ops pretty (ListValue l) depth escape =
    ''['' @ (if pretty then '' '' else []) @ json_items ops pretty True l depth escape @
    (if pretty then '' '' else []) @ '']''"
| "BuildJSONString ops pretty (DictionaryValue d) depth escape =
    ''{'' @ (if pretty then kPrettyPrintLineEnding else []) @ json_entries ops pretty True d depth escape @
    (if pretty then kPrettyPrintLineEnding @ IndentLine depth else []) @ ''}''"
| "BuildJSONString ops pretty (BinaryValue b) depth escape = []"
| "json_entries ops pretty first [] depth escape = []"
| "json_entries ops pretty first ((k, v) # d) depth escape =
    (if first then [] else '','' @ (if pretty then kPrettyPrintLineEnding else [])) @
    (if pretty then IndentLine (depth + 1) else []) @ AppendQuotedString k @
    (if pretty then '': '' else '':'') @
    BuildJSONString ops pretty v (depth + 1) escape @ json_entries ops pretty False d depth escape"
| "json_items ops pretty first [] depth escape = []"
| "json_items ops pretty first (v # l) depth escape =
    (if first then [] else '','' @ (if pretty then '' '' else [])) @
    BuildJSONString ops pretty v depth escape @ json_items ops pretty False l depth escape"

definition WriteWithOptionalEscape :: "'d double_ops \<Rightarrow> 'd Value \<Rightarrow> bool \<Rightarrow> bool \<Rightarrow> string" where
  "WriteWithOptionalEscape ops node pretty_print escape =
    BuildJSONString ops pretty_print node 0 escape @ (if pretty_print then kPrettyPrintLineEnding else [])"

definition JSONWriter_Write :: "'d double_ops \<Rightarrow> 'd Value \<Rightarrow> bool \<Rightarrow> string" where
  "JSONWriter_Write ops node pretty_print = WriteWithOptionalEscape ops node pretty_print True"

section \<open>The reader\<close>

datatype token_type =
    OBJECT_BEGIN | OBJECT_END | ARRAY_BEGIN | ARRAY_END | STRING | NUMBER | BOOL_TRUE | BOOL_FALSE
  | NULL_TOKEN | LIST_SEPARATOR | OBJECT_PAIR_SEPARATOR | END_OF_INPUT | INVALID_TOKEN

text \<open>A token begins at \<open>json_pos\<close>.\<close>

record token =
  token_type :: token_type
  token_length :: nat

datatype json_error =
    JSON_NO_ERROR | JSON_BAD_ROOT_ELEMENT_TYPE | JSON_INVALID_ESCAPE | JSON_SYNTAX_ERROR
  | JSON_TRAILING_COMMA | JSON_TOO_MUCH_NESTING | JSON_UNEXPECTED_DATA_AFTER_ROOT
  | JSON_UNSUPPORTED_ENCODING | JSON_UNQUOTED_DICTIONARY_KEY

record reader =
  start_pos :: "nat list"
  json_pos :: "nat list"
  stack_depth :: nat
  allow_trailing_comma :: bool
  error_code :: json_error
  error_line :: nat
  error_col :: nat

definition new_JSONReader :: reader where
  "new_JSONReader = \<lparr> start_pos = [], json_pos = [], stack_depth = 0, allow_trailing_comma = False,
     error_code = JSON_NO_ERROR, error_line = 0, error_col = 0 \<rparr>"

definition kStackLimit :: nat where "kStackLimit = 100"

text \<open>The character at an offset.\<close>

definition peek :: "nat list \<Rightarrow> nat \<Rightarrow> nat" where
  "peek s n = (if n < length s then s ! n else 0)"

text \<open>The position of an error is given as the number of characters before it.\<close>

definition line_and_column :: "nat list \<Rightarrow> nat \<times> nat" where
  "line_and_column before = fold (\<lambda>c (line, col). if c = 10 then (line + 1, 1) else (line, col + 1)) before (1, 1)"

definition SetErrorCode :: "json_error \<Rightarrow> nat \<Rightarrow> reader \<Rightarrow> reader" where
  "SetErrorCode error error_pos r =
    (let before = take error_pos (start_pos r)
     in if 0 \<in> set before then r
        else r\<lparr>error_line := fst (line_and_column before), error_col := snd (line_and_column before), error_code := error\<rparr>)"

definition json_offset :: "reader \<Rightarrow> nat" where
  "json_offset r = length (start_pos r) - length (json_pos r)"

definition advance :: "nat \<Rightarrow> reader \<Rightarrow> reader" where
  "advance n r = r\<lparr>json_pos := drop n (json_pos r)\<rparr>"

subsection \<open>Blanks and comments\<close>

lemma byte_chars:
  "byte CHR ''/'' = 47" "byte CHR ''*'' = 42" "byte CHR ''-'' = 45" "byte CHR ''+'' = 43" "byte CHR ''.'' = 46"
  "byte CHR ''e'' = 101" "byte CHR ''E'' = 69" "byte CHR ''['' = 91" "byte CHR '']'' = 93" "byte CHR ''{'' = 123"
  "byte CHR ''}'' = 125" "byte CHR '':'' = 58" "byte CHR '','' = 44" "byte CHR ''n'' = 110" "byte CHR ''t'' = 116"
  "byte CHR ''f'' = 102" "byte CHR ''x'' = 120" "byte CHR ''u'' = 117" "byte CHR ''b'' = 98" "byte CHR ''r'' = 114"
  "byte CHR ''v'' = 118" "byte CHR ''<'' = 60" "byte CHR ''>'' = 62"
  by (simp_all add: byte_def)

text \<open>The rest of the text after a comment.\<close>

fun eat_line_comment :: "nat list \<Rightarrow> nat list" where
  "eat_line_comment [] = []"
| "eat_line_comment (c # s) = (if c = 0 then c # s else if c = 10 \<or> c = 13 then s else eat_line_comment s)"

fun eat_block_comment :: "nat list \<Rightarrow> nat list" where
  "eat_block_comment [] = []"
| "eat_block_comment (c # s) =
    (if c = 0 then c # s else if c = byte CHR ''*'' \<and> peek s 0 = byte CHR ''/'' then drop 1 s else eat_block_comment s)"

definition EatComment :: "nat list \<Rightarrow> bool \<times> nat list" where
  "EatComment s =
    (if peek s 0 \<noteq> byte CHR ''/'' then (False, s)
     else if peek s 1 = byte CHR ''/'' then (True, eat_line_comment (drop 2 s))
     else if peek s 1 = byte CHR ''*'' then (True, eat_block_comment (drop 2 s))
     else (False, s))"

lemma eat_comment_length [simp]:
  "length (eat_line_comment s) \<le> length s" "length (eat_block_comment s) \<le> length s"
  by (induction s) auto

lemma EatComment_length:
  assumes "EatComment s = (True, s')"
  shows "length s' < length s"
proof (cases s)
  case Nil
  thus ?thesis using assms by (simp add: EatComment_def peek_def byte_chars)
next
  case (Cons c s2)
  have "length (drop 2 s) \<le> length s2" using Cons by simp
  hence "length (eat_line_comment (drop 2 s)) \<le> length s2" "length (eat_block_comment (drop 2 s)) \<le> length s2"
    using eat_comment_length [of "drop 2 s"] by simp_all
  thus ?thesis using assms Cons by (auto simp: EatComment_def split: if_splits)
qed

function EatWhitespaceAndComments :: "nat list \<Rightarrow> nat list" where
  "EatWhitespaceAndComments [] = []"
| "EatWhitespaceAndComments (c # s) =
    (if c \<in> {32, 10, 13, 9} then EatWhitespaceAndComments s
     else if c = byte CHR ''/'' then
       (case EatComment (c # s) of
          (True, s') \<Rightarrow> EatWhitespaceAndComments s'
        | (False, s') \<Rightarrow> s')
     else c # s)"
  by pat_completeness auto
termination
  by (relation "measure length") (auto dest: EatComment_length [OF sym])

subsection \<open>Tokens\<close>

definition wide_digit :: "nat \<Rightarrow> bool" where
  "wide_digit c \<longleftrightarrow> 48 \<le> c \<and> c \<le> 57"

definition wide_hex_digit :: "nat \<Rightarrow> bool" where
  "wide_hex_digit c \<longleftrightarrow> 48 \<le> c \<and> c \<le> 57 \<or> 97 \<le> c \<and> c \<le> 102 \<or> 65 \<le> c \<and> c \<le> 70"

text \<open>The helpers that extend a token; \<open>None\<close> is the result \<open>false\<close>.\<close>

definition ReadDigits :: "nat list \<Rightarrow> nat \<Rightarrow> bool \<Rightarrow> nat option" where
  "ReadDigits s len can_have_leading_zeros =
    (let digits = takeWhile wide_digit (drop len s)
     in if digits = [] then None
        else if \<not> can_have_leading_zeros \<and> length digits > 1 \<and> peek s len = 48 then None
        else Some (len + length digits))"

definition invalid_token :: token where
  "invalid_token = \<lparr> token_type = INVALID_TOKEN, token_length = 0 \<rparr>"

definition ParseNumberToken :: "nat list \<Rightarrow> token" where
  "ParseNumberToken s =
    (let len = (if peek s 0 = byte CHR ''-'' then 1 else 0)
     in case ReadDigits s len False of
          None \<Rightarrow> invalid_token
        | Some len \<Rightarrow>
            (case (if peek s len = byte CHR ''.'' then ReadDigits s (len + 1) True else Some len) of
               None \<Rightarrow> invalid_token
             | Some len \<Rightarrow>
                 (case (if peek s len = byte CHR ''e'' \<or> peek s len = byte CHR ''E'' then
                          let len = len + 1;
                              len = (if peek s len = byte CHR ''-'' \<or> peek s len = byte CHR ''+'' then len + 1 else len)
                          in ReadDigits s len True
                        else Some len) of
                    None \<Rightarrow> invalid_token
                  | Some len \<Rightarrow> \<lparr> token_type = NUMBER, token_length = len \<rparr>)))"

definition ReadHexDigits :: "nat list \<Rightarrow> nat \<Rightarrow> bool" where
  "ReadHexDigits s digits \<longleftrightarrow> digits \<le> length s \<and> list_all wide_hex_digit (take digits s)"

text \<open>The loop of \<open>ParseStringToken\<close>: the text ahead and the length so far. The result is the length of the
  token, or where an escape is invalid, or neither at the end of the text.\<close>

datatype string_scan = Scanned nat | Bad_escape nat | Unterminated

definition simple_escape :: "nat \<Rightarrow> bool" where
  "simple_escape c \<longleftrightarrow> c \<in> {0x5C, byte CHR ''/'', byte CHR ''b'', byte CHR ''f'', byte CHR ''n'', byte CHR ''r'',
     byte CHR ''t'', byte CHR ''v'', 0x22}"

function scan_string :: "nat list \<Rightarrow> nat \<Rightarrow> string_scan" where
  "scan_string [] len = Unterminated"
| "scan_string (c # s) len =
    (if c = 0 then Unterminated
     else if c = 0x5C then
       (if peek s 0 = byte CHR ''x'' then
          (if ReadHexDigits (drop 1 s) 2 then scan_string (drop 3 s) (len + 4) else Bad_escape (len + 1))
        else if peek s 0 = byte CHR ''u'' then
          (if ReadHexDigits (drop 1 s) 4 then scan_string (drop 5 s) (len + 6) else Bad_escape (len + 1))
        else if simple_escape (peek s 0) then scan_string (drop 1 s) (len + 2)
        else Bad_escape (len + 1))
     else if c = 0x22 then Scanned (len + 1)
     else scan_string s (len + 1))"
  by pat_completeness auto
termination by (relation "measure (length \<circ> fst)") auto

definition ParseStringToken :: "reader \<Rightarrow> reader \<times> token" where
  "ParseStringToken r =
    (case scan_string (drop 1 (json_pos r)) 1 of
       Scanned len \<Rightarrow> (r, \<lparr> token_type = STRING, token_length = len \<rparr>)
     | Bad_escape len \<Rightarrow> (SetErrorCode JSON_INVALID_ESCAPE (json_offset r + len) r, invalid_token)
     | Unterminated \<Rightarrow> (r, invalid_token))"

definition HexDigitToInt :: "nat \<Rightarrow> nat" where
  "HexDigitToInt c = (if 48 \<le> c \<and> c \<le> 57 then c - 48 else if 65 \<le> c \<and> c \<le> 70 then c - 65 + 10
     else if 97 \<le> c \<and> c \<le> 102 then c - 97 + 10 else 0)"

definition unescaped :: "nat \<Rightarrow> nat option" where
  "unescaped c =
    (if c = 0x22 \<or> c = byte CHR ''/'' \<or> c = 0x5C then Some c
     else if c = byte CHR ''b'' then Some 8
     else if c = byte CHR ''f'' then Some 12
     else if c = byte CHR ''n'' then Some 10
     else if c = byte CHR ''r'' then Some 13
     else if c = byte CHR ''t'' then Some 9
     else if c = byte CHR ''v'' then Some 11
     else None)"

text \<open>The loop of \<open>DecodeString\<close> over the characters between the quotes.\<close>

function decode_chars :: "nat list \<Rightarrow> nat list option" where
  "decode_chars [] = Some []"
| "decode_chars (c # s) =
    (if c = 0x5C then
       (if peek s 0 = byte CHR ''x'' then
          map_option (Cons (HexDigitToInt (peek s 1) * 16 + HexDigitToInt (peek s 2))) (decode_chars (drop 3 s))
        else if peek s 0 = byte CHR ''u'' then
          map_option (Cons (HexDigitToInt (peek s 1) * 4096 + HexDigitToInt (peek s 2) * 256 +
                            HexDigitToInt (peek s 3) * 16 + HexDigitToInt (peek s 4))) (decode_chars (drop 5 s))
        else case unescaped (peek s 0) of
               None \<Rightarrow> None
             | Some d \<Rightarrow> map_option (Cons d) (decode_chars (drop 1 s)))
     else map_option (Cons c) (decode_chars s))"
  by pat_completeness auto
termination by (relation "measure length") auto

definition token_text :: "reader \<Rightarrow> token \<Rightarrow> nat list" where
  "token_text r t = take (token_length t) (json_pos r)"

definition DecodeString :: "reader \<Rightarrow> token \<Rightarrow> string option" where
  "DecodeString r t = map_option (\<lambda>s. UTF16ToUTF8 (WideToUTF16 s)) (decode_chars (butlast (tl (token_text r t))))"

definition DecodeNumber :: "'d double_ops \<Rightarrow> reader \<Rightarrow> token \<Rightarrow> 'd Value option" where
  "DecodeNumber ops r t =
    (let num_string = WideToUTF8 (token_text r t)
     in case StringToInt num_string of
          (True, num_int) \<Rightarrow> Some (IntegerValue num_int)
        | (False, _) \<Rightarrow>
            (case StringToDouble ops num_string of
               None \<Rightarrow> None
             | Some num_double \<Rightarrow> if IsFinite ops num_double then Some (DoubleValue num_double) else None))"

definition NextStringMatch :: "string \<Rightarrow> nat list \<Rightarrow> bool" where
  "NextStringMatch str s \<longleftrightarrow> length str \<le> length s \<and> take (length str) s = map byte str"

definition simple_token :: "token_type \<Rightarrow> nat \<Rightarrow> token" where
  "simple_token t len = \<lparr> token_type = t, token_length = len \<rparr>"

definition single_token :: "nat \<Rightarrow> token_type option" where
  "single_token c =
    (if c = byte CHR ''['' then Some ARRAY_BEGIN
     else if c = byte CHR '']'' then Some ARRAY_END
     else if c = byte CHR '','' then Some LIST_SEPARATOR
     else if c = byte CHR ''{'' then Some OBJECT_BEGIN
     else if c = byte CHR ''}'' then Some OBJECT_END
     else if c = byte CHR '':'' then Some OBJECT_PAIR_SEPARATOR
     else None)"

definition word_token :: "nat \<Rightarrow> (string \<times> token_type) option" where
  "word_token c =
    (if c = byte CHR ''n'' then Some (''null'', NULL_TOKEN)
     else if c = byte CHR ''t'' then Some (''true'', BOOL_TRUE)
     else if c = byte CHR ''f'' then Some (''false'', BOOL_FALSE)
     else None)"

definition ParseToken :: "reader \<Rightarrow> reader \<times> token" where
  "ParseToken r =
    (let s = EatWhitespaceAndComments (json_pos r);
         r = r\<lparr>json_pos := s\<rparr>;
         c = peek s 0
     in if c = 0 then (r, simple_token END_OF_INPUT 0)
        else case single_token c of
          Some t \<Rightarrow> (r, simple_token t 1)
        | None \<Rightarrow>
            (case word_token c of
               Some (word, t) \<Rightarrow> (r, if NextStringMatch word s then simple_token t (length word) else invalid_token)
             | None \<Rightarrow>
                 if wide_digit c \<or> c = byte CHR ''-'' then (r, ParseNumberToken s)
                 else if c = 0x22 then ParseStringToken r
                 else (r, invalid_token)))"

subsection \<open>Building values\<close>

text \<open>\<open>BuildValue\<close> and its two loops as one recursive function: a job is a call of \<open>BuildValue\<close>, or one of
  the loops with the token it looks at and what it has read. \<open>None\<close> would be a call that does not
  return. The value is \<open>None\<close> where the code returns \<open>NULL\<close>.\<close>

datatype 'd job =
    Build_value bool
  | Array_loop token "'d Value list"
  | Object_loop token "'d dict"

type_synonym 'd built = "reader \<times> 'd Value option"

definition finish_value :: "reader \<Rightarrow> token \<Rightarrow> 'd Value \<Rightarrow> 'd built" where
  "finish_value r t v = ((advance (token_length t) r)\<lparr>stack_depth := stack_depth r - 1\<rparr>, Some v)"

text \<open>After a value in an array or object: the loop goes on with a token, ends with it, or fails.\<close>

datatype separator_result = Go_on token | End_of token | Fail

definition after_value :: "token_type \<Rightarrow> reader \<Rightarrow> reader \<times> separator_result" where
  "after_value closing r =
    (let (r, t) = ParseToken r
     in if token_type t = LIST_SEPARATOR then
          let (r, t) = ParseToken (advance (token_length t) r)
          in if token_type t = closing then
               (if \<not> allow_trailing_comma r then (SetErrorCode JSON_TRAILING_COMMA (json_offset r) r, Fail)
                else (r, End_of t))
             else (r, Go_on t)
        else if token_type t \<noteq> closing then (r, Fail)
        else (r, End_of t))"

text \<open>The value of a token that is a value by itself.\<close>

definition simple_value :: "'d double_ops \<Rightarrow> reader \<Rightarrow> token \<Rightarrow> 'd Value option" where
  "simple_value ops r t =
    (case token_type t of
       NULL_TOKEN \<Rightarrow> Some NullValue
     | BOOL_TRUE \<Rightarrow> Some (BooleanValue True)
     | BOOL_FALSE \<Rightarrow> Some (BooleanValue False)
     | NUMBER \<Rightarrow> DecodeNumber ops r t
     | STRING \<Rightarrow> map_option StringValue (DecodeString r t)
     | _ \<Rightarrow> None)"

text \<open>The key of an object's entry, at the token, and the separator after it.\<close>

definition read_key :: "reader \<Rightarrow> token \<Rightarrow> reader \<times> string option" where
  "read_key r t =
    (if token_type t \<noteq> STRING then (SetErrorCode JSON_UNQUOTED_DICTIONARY_KEY (json_offset r) r, None)
     else case DecodeString r t of
            None \<Rightarrow> (r, None)
          | Some dict_key \<Rightarrow>
              let (r, t) = ParseToken (advance (token_length t) r)
              in if token_type t \<noteq> OBJECT_PAIR_SEPARATOR then (r, None)
                 else let (r, t) = ParseToken (advance (token_length t) r) in (r, Some dict_key))"

partial_function (option) build :: "'d double_ops \<Rightarrow> 'd job \<Rightarrow> reader \<Rightarrow> 'd built option" where
  "build ops job r =
    (case job of
       Build_value is_root \<Rightarrow>
         (let r = r\<lparr>stack_depth := stack_depth r + 1\<rparr>
          in if stack_depth r > kStackLimit then Some (SetErrorCode JSON_TOO_MUCH_NESTING (json_offset r) r, None)
             else
               let rt = ParseToken r; r = fst rt; t = snd rt
               in if is_root \<and> token_type t \<noteq> OBJECT_BEGIN \<and> token_type t \<noteq> ARRAY_BEGIN
                  then Some (SetErrorCode JSON_BAD_ROOT_ELEMENT_TYPE (json_offset r) r, None)
                  else if token_type t = ARRAY_BEGIN then
                    let rt = ParseToken (advance (token_length t) r) in build ops (Array_loop (snd rt) []) (fst rt)
                  else if token_type t = OBJECT_BEGIN then
                    let rt = ParseToken (advance (token_length t) r) in build ops (Object_loop (snd rt) []) (fst rt)
                  else case simple_value ops r t of
                         None \<Rightarrow> Some (r, None)
                       | Some v \<Rightarrow> Some (finish_value r t v))
     | Array_loop t vs \<Rightarrow>
         (if token_type t = ARRAY_END then Some (finish_value r t (ListValue vs))
          else Option.bind (build ops (Build_value False) r) (\<lambda>rv.
            case snd rv of
              None \<Rightarrow> Some (fst rv, None)
            | Some v \<Rightarrow>
                let ra = after_value ARRAY_END (fst rv)
                in case snd ra of
                     Fail \<Rightarrow> Some (fst ra, None)
                   | End_of t \<Rightarrow> Some (finish_value (fst ra) t (ListValue (vs @ [v])))
                   | Go_on t \<Rightarrow> build ops (Array_loop t (vs @ [v])) (fst ra)))
     | Object_loop t d \<Rightarrow>
         (if token_type t = OBJECT_END then Some (finish_value r t (DictionaryValue d))
          else
            let rk = read_key r t
            in case snd rk of
                 None \<Rightarrow> Some (fst rk, None)
               | Some key \<Rightarrow> Option.bind (build ops (Build_value False) (fst rk)) (\<lambda>rv.
                   case snd rv of
                     None \<Rightarrow> Some (fst rv, None)
                   | Some v \<Rightarrow>
                       let ra = after_value OBJECT_END (fst rv); d = SetWithoutPathExpansion key v d
                       in case snd ra of
                            Fail \<Rightarrow> Some (fst ra, None)
                          | End_of t \<Rightarrow> Some (finish_value (fst ra) t (DictionaryValue d))
                          | Go_on t \<Rightarrow> build ops (Object_loop t d) (fst ra))))"

definition BuildValue :: "'d double_ops \<Rightarrow> bool \<Rightarrow> reader \<Rightarrow> 'd built option" where
  "BuildValue ops is_root r = build ops (Build_value is_root) r"

text \<open>What \<open>JsonToValue\<close> does with the value: nothing may follow it, and without a value the error is a
  syntax error where no other was set.\<close>

definition check_rest :: "'d built \<Rightarrow> 'd built" where
  "check_rest rv =
    (let (r, root) = rv;
         (r, result) =
           (case root of
              None \<Rightarrow> (r, None)
            | Some v \<Rightarrow>
                let (r, t) = ParseToken r
                in if token_type t = END_OF_INPUT then (r, Some v)
                   else (SetErrorCode JSON_UNEXPECTED_DATA_AFTER_ROOT (json_offset r) r, None))
     in (if result \<noteq> None then r
         else if error_code r = JSON_NO_ERROR then SetErrorCode JSON_SYNTAX_ERROR (json_offset r) r else r,
         result))"

definition JsonToValue :: "'d double_ops \<Rightarrow> string \<Rightarrow> bool \<Rightarrow> bool \<Rightarrow> reader \<Rightarrow> 'd built option" where
  "JsonToValue ops json check_root allow_trailing r =
    (if \<not> IsStringUTF8 (takeWhile (\<lambda>c. c \<noteq> CHR 0x00) json)
     then Some (r\<lparr>error_code := JSON_UNSUPPORTED_ENCODING\<rparr>, None)
     else
       let json_wide = UTF8ToWide json;
           start = (if json_wide \<noteq> [] \<and> peek json_wide 0 = 0xFEFF then drop 1 json_wide else json_wide);
           r = r\<lparr>start_pos := start, json_pos := start, allow_trailing_comma := allow_trailing, stack_depth := 0,
                 error_code := JSON_NO_ERROR\<rparr>
       in map_option check_rest (BuildValue ops check_root r))"

definition ErrorCodeToString :: "json_error \<Rightarrow> string" where
  "ErrorCodeToString error =
    (case error of
       JSON_NO_ERROR \<Rightarrow> []
     | JSON_BAD_ROOT_ELEMENT_TYPE \<Rightarrow> ''Root value must be an array or object.''
     | JSON_INVALID_ESCAPE \<Rightarrow> ''Invalid escape sequence.''
     | JSON_SYNTAX_ERROR \<Rightarrow> ''Syntax error.''
     | JSON_TRAILING_COMMA \<Rightarrow> ''Trailing comma not allowed.''
     | JSON_TOO_MUCH_NESTING \<Rightarrow> ''Too much nesting.''
     | JSON_UNEXPECTED_DATA_AFTER_ROOT \<Rightarrow> ''Unexpected data after root element.''
     | JSON_UNSUPPORTED_ENCODING \<Rightarrow> ''Unsupported encoding. JSON must be UTF-8.''
     | JSON_UNQUOTED_DICTIONARY_KEY \<Rightarrow> ''Dictionary keys must be quoted.'')"

definition FormatErrorMessage :: "nat \<Rightarrow> nat \<Rightarrow> string \<Rightarrow> string" where
  "FormatErrorMessage line column description =
    (if line \<noteq> 0 \<or> column \<noteq> 0
     then ''Line: '' @ IntToString (int line) @ '', column: '' @ IntToString (int column) @ '', '' @ description
     else description)"

definition GetErrorMessage :: "reader \<Rightarrow> string" where
  "GetErrorMessage r = FormatErrorMessage (error_line r) (error_col r) (ErrorCodeToString (error_code r))"

text \<open>The error code and message come with a \<open>NULL\<close>.\<close>

definition ReadAndReturnError :: "'d double_ops \<Rightarrow> string \<Rightarrow> bool \<Rightarrow> ((json_error \<times> string) + 'd Value) option" where
  "ReadAndReturnError ops json allow_trailing =
    map_option (\<lambda>(r, root). case root of Some v \<Rightarrow> Inr v | None \<Rightarrow> Inl (error_code r, GetErrorMessage r))
      (JsonToValue ops json True allow_trailing new_JSONReader)"

definition JSONReader_Read :: "'d double_ops \<Rightarrow> string \<Rightarrow> bool \<Rightarrow> 'd Value option option" where
  "JSONReader_Read ops json allow_trailing =
    map_option (\<lambda>e. case e of Inl _ \<Rightarrow> None | Inr v \<Rightarrow> Some v) (ReadAndReturnError ops json allow_trailing)"

end
