(* ===== verification/UtfSpec.thy ===== *)
theory UtfSpec
  imports Utf
begin

text \<open>
  The conversions are inverse to each other on well-formed text, and only the shortest encodings of
  valid code points are accepted.
\<close>

subsection \<open>Bits of small numbers\<close>

lemma and_mask_mod: "(n :: nat) AND (2 ^ k - 1) = n mod 2 ^ k"
  using take_bit_eq_mask [of k n] by (simp add: take_bit_eq_mod mask_eq_exp_minus_1)

lemma and_mods: "(n :: nat) AND 0x3f = n mod 64" "(n :: nat) AND 0x3ff = n mod 1024"
  using and_mask_mod [of n 6] and_mask_mod [of n 10] by simp_all

lemma push_or_add:
  assumes "(b :: nat) < 2 ^ k"
  shows "push_bit k a OR b = a * 2 ^ k + b"
proof -
  have "\<not> bit (push_bit k a) n \<or> \<not> bit b n" for n
  proof (cases "n < k")
    case False
    hence "b < 2 ^ n" using assms by (meson leI less_le_trans one_le_numeral power_increasing)
    thus ?thesis by (simp add: bit_iff_odd)
  qed (simp add: bit_simps)
  hence "push_bit k a + b = push_bit k a OR b" by (rule disjunctive_add)
  thus ?thesis by (simp add: push_bit_eq_mult)
qed

lemma and_push: "(p :: nat) AND push_bit k m = push_bit k (drop_bit k p AND m)"
  by (rule bit_eqI) (auto simp: bit_simps)

lemma and_push_mask:
  fixes p :: nat
  assumes "p < 2 ^ m" "k \<le> m"
  shows "p AND push_bit k (mask (m - k)) = p div 2 ^ k * 2 ^ k"
proof -
  have "drop_bit k p AND mask (m - k) = drop_bit k p"
    using assms by (simp flip: take_bit_eq_mask add: take_bit_nat_eq_self_iff drop_bit_eq_div
      less_mult_imp_div_less power_add [symmetric])
  thus ?thesis unfolding and_push by (simp add: push_bit_eq_mult drop_bit_eq_div)
qed

lemma and_high_mask:
  "(p :: nat) < 2 ^ 32 \<Longrightarrow> p AND 0xfffff800 = p div 2048 * 2048"
  "(p :: nat) < 2 ^ 32 \<Longrightarrow> p AND 0xfffffc00 = p div 1024 * 1024"
  "(p :: nat) < 256 \<Longrightarrow> p AND 0xc0 = p div 64 * 64"
  using and_push_mask [of p 32 11] and_push_mask [of p 32 10] and_push_mask [of p 8 6]
  by (simp_all add: mask_eq_exp_minus_1 push_bit_eq_mult)

lemma surrogate_iff: "p < 2 ^ 32 \<Longrightarrow> CBU_IS_SURROGATE p \<longleftrightarrow> 0xD800 \<le> p \<and> p \<le> 0xDFFF"
  unfolding CBU_IS_SURROGATE_def and_high_mask by auto

lemma byte_of_byte [simp]: "n < 256 \<Longrightarrow> byte (of_byte n) = n"
  by (simp add: byte_def of_byte_def)

lemma of_byte_byte [simp]: "of_byte (byte c) = c"
  by (simp add: byte_def of_byte_def)

lemma byte_less: "byte c < 256"
  by (simp add: byte_def)

lemma trail_iff: "CBU8_IS_TRAIL c \<longleftrightarrow> 128 \<le> byte c \<and> byte c < 192"
  unfolding CBU8_IS_TRAIL_def using byte_less [of c] and_high_mask(3) [of "byte c"] by auto

lemma or_lead:
  "(n :: nat) < 32 \<Longrightarrow> n OR 0xc0 = n + 0xc0" "(n :: nat) < 16 \<Longrightarrow> n OR 0xe0 = n + 0xe0"
  "(n :: nat) < 8 \<Longrightarrow> n OR 0xf0 = n + 0xf0" "(n :: nat) < 64 \<Longrightarrow> n OR 0x80 = n + 0x80"
  "(n :: nat) < 1024 \<Longrightarrow> n OR 0xdc00 = n + 0xdc00"
  using push_or_add [of n 6 3] push_or_add [of n 5 7] push_or_add [of n 4 15] push_or_add [of n 6 2]
    push_or_add [of n 10 55]
  by (simp_all add: or.commute [of n] push_bit_eq_mult)

lemma add_trail_value: "CBU8_IS_TRAIL t \<Longrightarrow> add_trail c t = c * 64 + (byte t - 128)"
proof -
  assume "CBU8_IS_TRAIL t"
  hence t: "128 \<le> byte t" "byte t < 192" by (simp_all add: trail_iff)
  have "byte t mod 64 = (byte t - 128 + 2 * 64) mod 64" using t by simp
  also have "\<dots> = byte t - 128" using t by (simp only: mod_mult_self1) simp
  finally show ?thesis using push_or_add [of "byte t - 128" 6 c] t unfolding add_trail_def and_mods by simp
qed

subsection \<open>UTF-8\<close>

text \<open>A sequence of \<open>k\<close> trail bytes after a lead byte, as one number.\<close>

definition trail_value :: "char \<Rightarrow> nat" where
  "trail_value t = byte t - 128"

definition sequence_value :: "nat \<Rightarrow> string \<Rightarrow> nat" where
  "sequence_value = foldl (\<lambda>a t. a * 64 + trail_value t)"

lemma foldl_add_trail: "list_all CBU8_IS_TRAIL ts \<Longrightarrow> foldl add_trail c ts = sequence_value c ts"
  by (induction ts arbitrary: c) (auto simp: sequence_value_def add_trail_value trail_value_def)

lemma trail_value_less: "CBU8_IS_TRAIL t \<Longrightarrow> trail_value t < 64"
  by (auto simp: trail_iff trail_value_def)

lemma trail_of_value: "CBU8_IS_TRAIL t \<Longrightarrow> of_byte (trail_value t + 128) = t"
  using of_byte_byte [of t] by (auto simp: trail_iff trail_value_def)

text \<open>The step of the reader at a lead byte, for one to three trail bytes.\<close>

definition trails_of :: "nat \<Rightarrow> string \<Rightarrow> bool" where
  "trails_of k s \<longleftrightarrow> k \<le> length s \<and> list_all CBU8_IS_TRAIL (take k s)"

lemma utf8_next_Some:
  assumes "CBU8_NEXT c s = (Some p, n)" "0x80 \<le> byte c"
  shows "n = CBU8_COUNT_TRAIL_BYTES (byte c) \<and> n \<in> {1, 2, 3} \<and> trails_of n s \<and>
    p = sequence_value (byte c mod 2 ^ (6 - n)) (take n s) \<and> utf8_minLegal n \<le> p \<and> \<not> CBU_IS_SURROGATE p"
proof -
  let ?k = "CBU8_COUNT_TRAIL_BYTES (byte c)" and ?c = "byte c AND (push_bit (6 - CBU8_COUNT_TRAIL_BYTES (byte c)) 1 - 1)"
  have k: "?k \<le> length s" "?k \<noteq> 0" "\<not> snd (read_trails ?k ?c s)" "p = fst (read_trails ?k ?c s)"
    "utf8_minLegal ?k \<le> p" "\<not> CBU_IS_SURROGATE p" "n = ?k"
    using assms by (auto simp: CBU8_NEXT_def utf8_nextCharSafeBody_def Let_def split: if_splits prod.splits)
  have "?k \<in> {1, 2, 3}" "list_all CBU8_IS_TRAIL (take ?k s)" "p = foldl add_trail ?c (take ?k s)"
    using k(2-4) by (auto simp: read_trails_def split: if_splits)
  moreover have "?c = byte c mod 2 ^ (6 - ?k)" using and_mask_mod [of "byte c" "6 - ?k"] by (simp add: push_bit_eq_mult)
  ultimately show ?thesis using k foldl_add_trail by (simp add: trails_of_def)
qed

lemma utf8_next_Some_intro:
  assumes "n = CBU8_COUNT_TRAIL_BYTES (byte c)" "n \<in> {1, 2, 3}" "trails_of n s"
    "p = sequence_value (byte c mod 2 ^ (6 - n)) (take n s)" "utf8_minLegal n \<le> p" "\<not> CBU_IS_SURROGATE p" "p \<le> 0x10ffff"
  shows "CBU8_NEXT c s = (Some p, n)"
proof -
  have c: "0xc0 \<le> byte c" "byte c < 0xf8" using assms(1,2) by (auto simp: CBU8_COUNT_TRAIL_BYTES_def split: if_splits)
  let ?c = "byte c AND (push_bit (6 - n) 1 - 1)"
  have m: "?c = byte c mod 2 ^ (6 - n)" using and_mask_mod [of "byte c" "6 - n"] by (simp add: push_bit_eq_mult)
  have ts: "list_all CBU8_IS_TRAIL (take n s)" "n \<le> length s" using assms(3) by (simp_all add: trails_of_def)
  have "n = 3 \<Longrightarrow> add_trail ?c (s ! 0) < 0x110"
  proof -
    assume n: "n = 3"
    then obtain t1 t2 t3 r where s: "s = t1 # t2 # t3 # r"
      using ts(2) by (metis (no_types) Suc_le_length_iff numeral_3_eq_3)
    hence "sequence_value ?c [t1, t2, t3] \<le> 0x10ffff" "list_all CBU8_IS_TRAIL [t1, t2, t3]"
      using assms(4,7) ts(1) n m by simp_all
    thus ?thesis using s by (simp add: sequence_value_def add_trail_value trail_value_def)
  qed
  hence "read_trails n ?c s = (p, False)"
    using assms(2,4) ts foldl_add_trail [OF ts(1)] m by (auto simp: read_trails_def)
  moreover have "CBU8_IS_LEAD c" using c by (simp add: CBU8_IS_LEAD_def)
  ultimately show ?thesis using assms ts c by (auto simp: CBU8_NEXT_def utf8_nextCharSafeBody_def Let_def)
qed

lemma write8_length:
  "length (WriteUnicodeCharacter8 p) = (if p \<le> 0x7f then 1 else if p \<le> 0x7ff then 2 else if p \<le> 0xffff then 3 else 4)"
  by (simp add: WriteUnicodeCharacter8_def CBU8_APPEND_UNSAFE_def)

lemma write8_bytes:
  assumes "p \<le> 0x10ffff"
  shows "map byte (WriteUnicodeCharacter8 p) =
    (if p \<le> 0x7f then [p]
     else if p \<le> 0x7ff then [p div 64 + 0xc0, p mod 64 + 0x80]
     else if p \<le> 0xffff then [p div 4096 + 0xe0, p div 64 mod 64 + 0x80, p mod 64 + 0x80]
     else [p div 262144 + 0xf0, p div 4096 mod 64 + 0x80, p div 64 mod 64 + 0x80, p mod 64 + 0x80])"
proof -
  have "p \<le> 0x7ff \<Longrightarrow> p div 64 < 32" "p \<le> 0xffff \<Longrightarrow> p div 4096 < 16" "p div 262144 < 8" using assms by auto
  thus ?thesis
    by (simp add: WriteUnicodeCharacter8_def CBU8_APPEND_UNSAFE_def drop_bit_eq_div and_mods or_lead)
qed

lemma valid_range: "IsValidCodepoint p \<Longrightarrow> p \<le> 0x10ffff \<and> \<not> CBU_IS_SURROGATE p"
  using surrogate_iff [of p] by (auto simp: IsValidCodepoint_def)

lemma valid_iff: "p \<le> 0x10ffff \<Longrightarrow> IsValidCodepoint p \<longleftrightarrow> \<not> CBU_IS_SURROGATE p"
  using surrogate_iff [of p] by (auto simp: IsValidCodepoint_def)

lemma mod_add_mult: "(x :: nat) < m \<Longrightarrow> (x + k * m) mod m = x"
  by simp

text \<open>What is written is read back.\<close>

lemma read8_write8:
  assumes p: "IsValidCodepoint p" and w: "WriteUnicodeCharacter8 p = c # t"
  shows "ReadUnicodeCharacter8 c (t @ s) = (Some p, length t)"
proof -
  have r: "p \<le> 0x10ffff" "\<not> CBU_IS_SURROGATE p" using valid_range [OF p] by simp_all
  note b = write8_bytes [OF r(1), unfolded w]
  have lt: "p mod 64 < 64" "p div 64 mod 64 < 64" "p div 4096 mod 64 < 64" by simp_all
  have split: "p = p div 64 * 64 + p mod 64" "p div 64 = p div 4096 * 64 + p div 64 mod 64"
    "p div 4096 = p div 262144 * 64 + p div 4096 mod 64"
    by (simp_all add: div_mult2_eq [of _ 64 64, simplified] div_mult2_eq [of _ 4096 64, simplified])
  consider "p \<le> 0x7f" | "0x7f < p" "p \<le> 0x7ff" | "0x7ff < p" "p \<le> 0xffff" | "0xffff < p" by linarith
  hence "CBU8_NEXT c (t @ s) = (Some p, length t)"
  proof cases
    case 1
    thus ?thesis using b by (simp add: CBU8_NEXT_def)
  next
    case 2
    then obtain t1 where t: "t = [t1]" "byte c = p div 64 + 6 * 32" "byte t1 = p mod 64 + 128" using b by auto
    have d: "p div 64 < 32" "2 \<le> p div 64" using 2 by auto
    show ?thesis
    proof (rule utf8_next_Some_intro)
      show "p = sequence_value (byte c mod 2 ^ (6 - length t)) (take (length t) (t @ s))"
        using t split(1) mod_add_mult [OF d(1), of 6] by (simp add: sequence_value_def trail_value_def)
    qed (use t d r 2 lt in \<open>auto simp: CBU8_COUNT_TRAIL_BYTES_def trails_of_def trail_iff utf8_minLegal_def\<close>)
  next
    case 3
    then obtain t1 t2 where t: "t = [t1, t2]" "byte c = p div 4096 + 14 * 16" "byte t1 = p div 64 mod 64 + 128"
      "byte t2 = p mod 64 + 128" using b by auto
    have d: "p div 4096 < 16" using 3 by auto
    show ?thesis
    proof (rule utf8_next_Some_intro)
      show "p = sequence_value (byte c mod 2 ^ (6 - length t)) (take (length t) (t @ s))"
        using t split(1,2) mod_add_mult [OF d, of 14] by (simp add: sequence_value_def trail_value_def)
    qed (use t d r 3 lt in \<open>auto simp: CBU8_COUNT_TRAIL_BYTES_def trails_of_def trail_iff utf8_minLegal_def\<close>)
  next
    case 4
    then obtain t1 t2 t3 where t: "t = [t1, t2, t3]" "byte c = p div 262144 + 30 * 8" "byte t1 = p div 4096 mod 64 + 128"
      "byte t2 = p div 64 mod 64 + 128" "byte t3 = p mod 64 + 128" using b by auto
    have d: "p div 262144 < 8" using r by auto
    show ?thesis
    proof (rule utf8_next_Some_intro)
      show "p = sequence_value (byte c mod 2 ^ (6 - length t)) (take (length t) (t @ s))"
        using t split mod_add_mult [OF d, of 30] by (simp add: sequence_value_def trail_value_def)
    qed (use t d r 4 lt in \<open>auto simp: CBU8_COUNT_TRAIL_BYTES_def trails_of_def trail_iff utf8_minLegal_def\<close>)
  qed
  thus ?thesis using p by (simp add: ReadUnicodeCharacter8_def valid_codepoint_def)
qed

lemma lead_mod: "k * m \<le> b \<Longrightarrow> b < Suc k * m \<Longrightarrow> b = b mod m + k * (m :: nat)"
proof -
  assume b: "k * m \<le> b" "b < Suc k * m"
  hence "b div m = k" by (intro div_nat_eqI) (simp_all add: mult.commute)
  thus ?thesis using div_mult_mod_eq [of b m] by simp
qed

lemma div_mod_64: "p = a * 64 + t \<Longrightarrow> t < 64 \<Longrightarrow> p div 64 = a \<and> p mod 64 = (t :: nat)"
  by simp

text \<open>What is read was written: only the shortest encodings are accepted.\<close>

lemma map_byte_inj: "map byte xs = map byte ys \<Longrightarrow> xs = ys"
  by (metis inj_onI inj_map_eq_map of_byte_byte)

lemma write8_read8:
  assumes "ReadUnicodeCharacter8 c s = (Some p, n)"
  shows "IsValidCodepoint p \<and> n \<le> length s \<and> WriteUnicodeCharacter8 p = c # take n s"
proof -
  have r: "CBU8_NEXT c s = (Some p, n)" "IsValidCodepoint p"
    using assms by (auto simp: ReadUnicodeCharacter8_def valid_codepoint_def bind_eq_Some_conv split: prod.splits if_splits)
  have p: "p \<le> 0x10ffff" using valid_range [OF r(2)] by simp
  show ?thesis
  proof (cases "0x80 \<le> byte c")
    case False
    thus ?thesis using r by (auto simp: CBU8_NEXT_def WriteUnicodeCharacter8_def)
  next
    case True
    note f = utf8_next_Some [OF r(1) True]
    hence n: "n = CBU8_COUNT_TRAIL_BYTES (byte c)" "n \<le> length s" "list_all CBU8_IS_TRAIL (take n s)"
      and v: "p = sequence_value (byte c mod 2 ^ (6 - n)) (take n s)" "utf8_minLegal n \<le> p"
      unfolding trails_of_def by blast+
    have "map byte (WriteUnicodeCharacter8 p) = map byte (c # take n s)"
    proof -
      consider "n = 1" | "n = 2" | "n = 3" using f by auto
      thus ?thesis
      proof cases
        case 1
        then obtain t1 r' where s: "s = t1 # r'" using n(2) by (cases s) auto
        have c: "byte c = byte c mod 32 + 6 * 32" using n(1) 1 byte_less [of c]
          by (intro lead_mod [where k = 6]) (auto simp: CBU8_COUNT_TRAIL_BYTES_def split: if_splits)
        let ?a = "byte c mod 32" and ?v = trail_value
        have t: "?v t1 < 64" "byte t1 = ?v t1 + 128"
          using n(3) 1 s trail_value_less [of t1] by (auto simp: trail_value_def trail_iff)
        have pv: "p = ?a * 64 + ?v t1" using v(1) 1 s by (simp add: sequence_value_def)
        hence "p div 64 = ?a" "p mod 64 = ?v t1" using t by simp_all
        moreover have "?a < 32" by simp
        hence "0x80 \<le> p" "p \<le> 0x7ff" using v(2) 1 pv t(1) by (simp_all add: utf8_minLegal_def)
        ultimately show ?thesis using write8_bytes [OF p] s 1 c t by simp
      next
        case 2
        then obtain t1 t2 r' where s: "s = t1 # t2 # r'" using n(2) by (cases s; cases "tl s") auto
        have c: "byte c = byte c mod 16 + 14 * 16" using n(1) 2 byte_less [of c]
          by (intro lead_mod [where k = 14]) (auto simp: CBU8_COUNT_TRAIL_BYTES_def split: if_splits)
        let ?a = "byte c mod 16" and ?v = trail_value
        have t: "?v t1 < 64" "?v t2 < 64" "byte t1 = ?v t1 + 128" "byte t2 = ?v t2 + 128"
          using n(3) 2 s trail_value_less [of t1] trail_value_less [of t2] by (auto simp: trail_value_def trail_iff)
        have pv: "p = (?a * 64 + ?v t1) * 64 + ?v t2" using v(1) 2 s by (simp add: sequence_value_def)
        have d: "p div 64 = ?a * 64 + ?v t1" "p mod 64 = ?v t2" using div_mod_64 [OF pv t(2)] by simp_all
        have "p div 4096 = ?a" "p div 64 mod 64 = ?v t1"
          using div_mod_64 [OF d(1) t(1)] div_mult2_eq [of p 64 64] by simp_all
        moreover have "0x800 \<le> p" "p \<le> 0xffff" using v(2) 2 pv t by (auto simp: utf8_minLegal_def)
        ultimately show ?thesis using write8_bytes [OF p] s 2 c t d(2) by simp
      next
        case 3
        then obtain t1 t2 t3 r' where s: "s = t1 # t2 # t3 # r'"
          using n(2) by (cases s; cases "tl s"; cases "tl (tl s)") auto
        have c: "byte c = byte c mod 8 + 30 * 8" using n(1) 3 byte_less [of c]
          by (intro lead_mod [where k = 30]) (auto simp: CBU8_COUNT_TRAIL_BYTES_def split: if_splits)
        let ?a = "byte c mod 8" and ?v = trail_value
        have t: "?v t1 < 64" "?v t2 < 64" "?v t3 < 64" "byte t1 = ?v t1 + 128" "byte t2 = ?v t2 + 128" "byte t3 = ?v t3 + 128"
          using n(3) 3 s trail_value_less [of t1] trail_value_less [of t2] trail_value_less [of t3]
          by (auto simp: trail_value_def trail_iff)
        have pv: "p = ((?a * 64 + ?v t1) * 64 + ?v t2) * 64 + ?v t3" using v(1) 3 s by (simp add: sequence_value_def)
        have q: "p div 64 = (?a * 64 + ?v t1) * 64 + ?v t2" "p mod 64 = ?v t3" using div_mod_64 [OF pv t(3)] by simp_all
        have q2: "p div 4096 = ?a * 64 + ?v t1" "p div 64 mod 64 = ?v t2"
          using div_mod_64 [OF q(1) t(2)] div_mult2_eq [of p 64 64] by simp_all
        have "p div 262144 = ?a" "p div 4096 mod 64 = ?v t1"
          using div_mod_64 [OF q2(1) t(1)] div_mult2_eq [of p 4096 64] by simp_all
        moreover have "0x10000 \<le> p" using v(2) 3 by (simp add: utf8_minLegal_def)
        ultimately show ?thesis using write8_bytes [OF p] s 3 c t q(2) q2(2) by simp
      qed
    qed
    thus ?thesis using map_byte_inj n(2) r(2) by blast
  qed
qed

subsection \<open>UTF-16\<close>

lemma and_0x400: "(c :: nat) AND 0x400 = 0 \<longleftrightarrow> even (c div 1024)"
  using and_push [of c 10 1] by (simp add: push_bit_eq_mult drop_bit_eq_div and_one_eq even_iff_mod_2_eq_zero)

lemma trail16_iff: "t < 2 ^ 32 \<Longrightarrow> CBU16_IS_TRAIL t \<longleftrightarrow> 0xdc00 \<le> t \<and> t \<le> 0xdfff"
  unfolding CBU16_IS_TRAIL_def and_high_mask by auto

definition units16 :: "nat list \<Rightarrow> bool" where
  "units16 s \<longleftrightarrow> list_all (\<lambda>c. c < 2 ^ 16) s"

lemma read16_write16:
  assumes p: "IsValidCodepoint p" and w: "WriteUnicodeCharacter16 p = c # t"
  shows "ReadUnicodeCharacter16 c (t @ s) = (Some p, length t)"
proof (cases "p \<le> 0xffff")
  case True
  thus ?thesis using w p valid_range [OF p]
    by (auto simp: WriteUnicodeCharacter16_def ReadUnicodeCharacter16_def valid_codepoint_def)
next
  case False
  have r: "p \<le> 0x10ffff" using valid_range [OF p] by simp
  have lt: "p mod 1024 < 1024" by simp
  have ct: "c = p div 1024 + 0xd7c0" "t = [p mod 1024 + 0xdc00]"
    using w False by (simp_all add: WriteUnicodeCharacter16_def drop_bit_eq_div and_mods or_lead(5) [OF lt])
  have c: "0xd800 \<le> c" "c \<le> 0xdbff" using ct(1) r False by auto
  hence "c div 1024 = 54" by (intro div_nat_eqI) auto
  moreover have "CBU_IS_SURROGATE c" using surrogate_iff [of c] c by simp
  moreover have "CBU16_IS_TRAIL (p mod 1024 + 0xdc00)" using trail16_iff [of "p mod 1024 + 0xdc00"] lt by simp
  moreover have "CBU16_GET_SUPPLEMENTARY c (p mod 1024 + 0xdc00) = p"
    using ct(1) False div_mult_mod_eq [of p 1024] by (simp add: CBU16_GET_SUPPLEMENTARY_def push_bit_eq_mult)
  ultimately show ?thesis using ct p
    by (simp add: ReadUnicodeCharacter16_def CBU16_IS_SURROGATE_LEAD_def and_0x400 valid_codepoint_def)
qed

lemma write16_read16:
  assumes r: "ReadUnicodeCharacter16 c s = (Some p, n)" and u: "c < 2 ^ 16" "units16 s"
  shows "IsValidCodepoint p \<and> n \<le> length s \<and> WriteUnicodeCharacter16 p = c # take n s"
proof (cases "CBU_IS_SURROGATE c")
  case False
  thus ?thesis using r u by (auto simp: ReadUnicodeCharacter16_def valid_codepoint_def WriteUnicodeCharacter16_def split: if_splits)
next
  case True
  then obtain t s' where s: "s = t # s'" "even (c div 1024)" "CBU16_IS_TRAIL t" "IsValidCodepoint p"
      "p = CBU16_GET_SUPPLEMENTARY c t" "n = 1"
    using r by (auto simp: ReadUnicodeCharacter16_def valid_codepoint_def CBU16_IS_SURROGATE_LEAD_def and_0x400
      split: list.splits if_splits)
  have t: "0xdc00 \<le> t" "t \<le> 0xdfff" using s(1,3) u trail16_iff [of t] by (auto simp: units16_def)
  have c: "0xd800 \<le> c" "c \<le> 0xdfff" using True u(1) surrogate_iff [of c] by auto
  have "c \<le> 0xdbff"
  proof (rule ccontr)
    assume "\<not> c \<le> 0xdbff"
    hence "c div 1024 = 55" using c by (intro div_nat_eqI) auto
    thus False using s(2) by simp
  qed
  moreover obtain a b where ab: "c = 0xd800 + a" "t = 0xdc00 + b" using t(1) c(1) by (metis le_Suc_ex)
  ultimately have b: "a < 1024" "b < 1024" using t c by simp_all
  have p: "p = (a + 64) * 1024 + b" using s(5) ab by (simp add: CBU16_GET_SUPPLEMENTARY_def push_bit_eq_mult)
  hence "p div 1024 = a + 64" "p mod 1024 = b" using b(2) mod_add_mult [OF b(2), of "a + 64"] by (simp_all add: add.commute)
  thus ?thesis using s ab b p or_lead(5) [OF b(2)]
    by (simp add: WriteUnicodeCharacter16_def drop_bit_eq_div and_mods)
qed

subsection \<open>Encoding forms\<close>

text \<open>What \<open>ConvertUnicode\<close> needs of a reader: it undoes a writer, and accepts nothing else.\<close>

locale encoding_form =
  fixes rd :: "'c \<Rightarrow> 'c list \<Rightarrow> nat option \<times> nat" and wr :: "nat \<Rightarrow> 'c list" and unit_ok :: "'c \<Rightarrow> bool"
  assumes write_ne: "wr p \<noteq> []"
    and read_write: "IsValidCodepoint p \<Longrightarrow> wr p = c # t \<Longrightarrow> rd c (t @ s) = (Some p, length t)"
    and write_read: "list_all unit_ok (c # s) \<Longrightarrow> rd c s = (Some p, n) \<Longrightarrow>
      IsValidCodepoint p \<and> n \<le> length s \<and> wr p = c # take n s"
begin

lemma convert_encoding:
  "list_all IsValidCodepoint ps \<Longrightarrow> ConvertUnicode rd w (concat (map wr ps)) = (True, concat (map w ps))"
proof (induction ps)
  case (Cons p ps)
  obtain c t where w: "wr p = c # t" using write_ne [of p] by (cases "wr p") auto
  thus ?case using Cons read_write [OF _ w, of "concat (map wr ps)"] by simp
qed simp

lemma convert_True:
  "list_all unit_ok s \<Longrightarrow> ConvertUnicode rd w s = (True, out) \<Longrightarrow>
   \<exists>ps. list_all IsValidCodepoint ps \<and> s = concat (map wr ps) \<and> out = concat (map w ps)"
proof (induction s arbitrary: out rule: measure_induct_rule [of length])
  case (less s)
  show ?case
  proof (cases s)
    case Nil
    thus ?thesis using less.prems(2) by (intro exI [of _ "[]"]) simp
  next
    case (Cons c s')
    obtain cp n where r: "rd c s' = (cp, n)" by fastforce
    obtain ok out' where c: "ConvertUnicode rd w (drop n s') = (ok, out')" by fastforce
    obtain p where p: "cp = Some p" "ok" "out = w p @ out'"
      using less.prems(2) Cons r c by (auto split: option.splits)
    have wr: "IsValidCodepoint p" "n \<le> length s'" "wr p = c # take n s'"
      using write_read [of c s' p n] less.prems(1) r p(1) Cons by auto
    have "list_all unit_ok (drop n s')" using less.prems(1) Cons by (auto simp: list_all_iff dest: in_set_dropD)
    then obtain ps where ps: "list_all IsValidCodepoint ps" "drop n s' = concat (map wr ps)" "out' = concat (map w ps)"
      using less.IH [of "drop n s'" out'] Cons c p(2) less_Suc_eq_le by auto
    have "s = concat (map wr (p # ps))" using wr(3) ps(2) Cons append_take_drop_id [of n s'] by simp
    thus ?thesis using wr(1) ps p(3) by (intro exI [of _ "p # ps"]) simp
  qed
qed

end

interpretation utf8: encoding_form ReadUnicodeCharacter8 WriteUnicodeCharacter8 "\<lambda>_. True"
proof
  show "WriteUnicodeCharacter8 p \<noteq> []" for p using write8_length [of p] by (auto split: if_splits)
qed (use read8_write8 write8_read8 in blast)+

interpretation utf16: encoding_form ReadUnicodeCharacter16 WriteUnicodeCharacter16 "\<lambda>c. c < 2 ^ 16"
proof
  show "WriteUnicodeCharacter16 p \<noteq> []" for p by (simp add: WriteUnicodeCharacter16_def)
  show "IsValidCodepoint p \<and> n \<le> length s \<and> WriteUnicodeCharacter16 p = c # take n s"
    if "list_all (\<lambda>c. c < 2 ^ 16) (c # s)" "ReadUnicodeCharacter16 c s = (Some p, n)" for c s p n
    using write16_read16 [OF that(2)] that(1) by (simp add: units16_def)
qed (use read16_write16 in blast)

interpretation wide: encoding_form ReadUnicodeCharacterW WriteUnicodeCharacterW "\<lambda>_. True"
  by unfold_locales (auto simp: ReadUnicodeCharacterW_def WriteUnicodeCharacterW_def valid_codepoint_def split: if_splits)

lemma list_all_True [simp]: "list_all (\<lambda>_. True) xs"
  by (induction xs) simp_all

text \<open>The text of some code points in each form.\<close>

definition utf8_text :: "nat list \<Rightarrow> string" where
  "utf8_text ps = concat (map WriteUnicodeCharacter8 ps)"

definition utf16_text :: "nat list \<Rightarrow> nat list" where
  "utf16_text ps = concat (map WriteUnicodeCharacter16 ps)"

lemma wide_text [simp]: "concat (map WriteUnicodeCharacterW ps) = ps"
  by (induction ps) (simp_all add: WriteUnicodeCharacterW_def)

lemma conversions:
  assumes "list_all IsValidCodepoint ps"
  shows "UTF8ToWide (utf8_text ps) = ps" "UTF8ToUTF16 (utf8_text ps) = utf16_text ps"
    "UTF16ToUTF8 (utf16_text ps) = utf8_text ps" "WideToUTF8 ps = utf8_text ps" "WideToUTF16 ps = utf16_text ps"
    "UTF16ToWide (utf16_text ps) = ps"
  by (simp_all add: wide.convert_encoding [OF assms, simplified] utf8.convert_encoding [OF assms] utf16.convert_encoding [OF assms] UTF8ToWide_def UTF8ToUTF16_def UTF16ToUTF8_def WideToUTF8_def WideToUTF16_def UTF16ToWide_def
    utf8_text_def utf16_text_def)

text \<open>C6. UTF-8 is decoded without error exactly when it is the encoding of valid code points, each in its
  shortest form, and then to these; text that is decoded without error survives the way to UTF-16 and
  back.\<close>

theorem UTF8_is_decoded_exactly:
  "(ConvertUnicode ReadUnicodeCharacter8 WriteUnicodeCharacterW s = (True, ps) \<longleftrightarrow>
     list_all IsValidCodepoint ps \<and> s = concat (map WriteUnicodeCharacter8 ps)) \<and>
   (fst (ConvertUnicode ReadUnicodeCharacter8 WriteUnicodeCharacter16 s) \<longrightarrow> UTF16ToUTF8 (UTF8ToUTF16 s) = s)"
proof
  show "ConvertUnicode ReadUnicodeCharacter8 WriteUnicodeCharacterW s = (True, ps) \<longleftrightarrow>
     list_all IsValidCodepoint ps \<and> s = concat (map WriteUnicodeCharacter8 ps)"
    using utf8.convert_encoding [of ps WriteUnicodeCharacterW] utf8.convert_True [of s WriteUnicodeCharacterW ps] by auto
  show "fst (ConvertUnicode ReadUnicodeCharacter8 WriteUnicodeCharacter16 s) \<longrightarrow> UTF16ToUTF8 (UTF8ToUTF16 s) = s"
  proof
    assume ok: "fst (ConvertUnicode ReadUnicodeCharacter8 WriteUnicodeCharacter16 s)"
    obtain out where "ConvertUnicode ReadUnicodeCharacter8 WriteUnicodeCharacter16 s = (True, out)"
      using ok by (cases "ConvertUnicode ReadUnicodeCharacter8 WriteUnicodeCharacter16 s") auto
    then obtain ps where ps: "list_all IsValidCodepoint ps" "s = utf8_text ps"
      using utf8.convert_True [of s WriteUnicodeCharacter16 out] by (auto simp: utf8_text_def)
    show "UTF16ToUTF8 (UTF8ToUTF16 s) = s" unfolding ps(2) using conversions [OF ps(1)] by simp
  qed
qed

theorem UTF8_is_decoded_exactly_witness:
  "map byte (utf8_text [0x20AC, 0x1F600]) = [0xE2, 0x82, 0xAC, 0xF0, 0x9F, 0x98, 0x80] \<and>
   UTF16ToUTF8 (UTF8ToUTF16 (utf8_text [0x20AC, 0x1F600])) = utf8_text [0x20AC, 0x1F600]"
proof -
  have "fst (ConvertUnicode ReadUnicodeCharacter8 WriteUnicodeCharacter16 (utf8_text [0x20AC, 0x1F600]))"
    unfolding utf8_text_def by (subst utf8.convert_encoding) (simp_all add: IsValidCodepoint_def)
  moreover have "map byte (utf8_text [0x20AC, 0x1F600]) = [0xE2, 0x82, 0xAC, 0xF0, 0x9F, 0x98, 0x80]"
    by (simp add: utf8_text_def write8_bytes)
  ultimately show ?thesis using UTF8_is_decoded_exactly [of "utf8_text [0x20AC, 0x1F600]" "[]"] by blast
qed

end
