(* ===== verification/JsonSpec.thy ===== *)
theory JsonSpec
  imports Json UtfSpec NumberSpec
begin

text \<open>
  The reader always returns, and what the writer wrote is read back as the value it was.
\<close>

section \<open>The reader returns\<close>

lemma EatWhitespace_length [simp]: "length (EatWhitespaceAndComments s) \<le> length s"
proof (induction s rule: EatWhitespaceAndComments.induct)
  case (2 c s)
  show ?case
  proof (cases "c \<in> {32, 10, 13, 9}")
    case False
    obtain b s' where e: "EatComment (c # s) = (b, s')" by fastforce
    show ?thesis
    proof (cases "c = byte CHR ''/''")
      case True
      show ?thesis
      proof (cases b)
        case True
        have "length (EatWhitespaceAndComments s') \<le> length s'"
          using "2.IH"(2) [OF False \<open>c = byte CHR ''/''\<close> e [symmetric]] True by simp
        thus ?thesis using False \<open>c = byte CHR ''/''\<close> e True EatComment_length [of "c # s" s'] by simp
      next
        case False
        hence "s' = c # s" using e by (auto simp: EatComment_def split: if_splits)
        thus ?thesis using \<open>c \<notin> _\<close> \<open>c = byte CHR ''/''\<close> e False by simp
      qed
    qed (use False in simp)
  qed (use "2.IH"(1) in auto)
qed simp

lemma SetErrorCode_pos [simp]: "json_pos (SetErrorCode e n r) = json_pos r"
  by (simp add: SetErrorCode_def Let_def)

lemma ReadDigits_longer: "ReadDigits s len b = Some len' \<Longrightarrow> len < len' \<and> len' \<le> length s"
proof -
  assume a: "ReadDigits s len b = Some len'"
  have "length (takeWhile wide_digit (drop len s)) \<le> length s - len" using length_takeWhile_le [of wide_digit "drop len s"] by simp
  moreover have "len' = len + length (takeWhile wide_digit (drop len s))" "takeWhile wide_digit (drop len s) \<noteq> []"
    using a by (auto simp: ReadDigits_def Let_def split: if_splits)
  ultimately show ?thesis by (cases "takeWhile wide_digit (drop len s)") auto
qed

text \<open>A token lies inside the text, and is empty only if it is invalid or the end.\<close>

definition token_fits :: "nat list \<Rightarrow> token \<Rightarrow> bool" where
  "token_fits s t \<longleftrightarrow> token_length t \<le> length s \<and> (token_type t \<in> {END_OF_INPUT, INVALID_TOKEN} \<or> 0 < token_length t)"

lemma token_fits_invalid [simp]: "token_fits s invalid_token"
  by (simp add: token_fits_def invalid_token_def)

lemma token_fits_number: "0 < len \<Longrightarrow> len \<le> length s \<Longrightarrow> token_fits s \<lparr>token_type = t, token_length = len\<rparr>"
  by (simp add: token_fits_def)

lemma ParseNumberToken_fits: "token_fits s (ParseNumberToken s)"
proof -
  have step: "token_fits s (case (if b then ReadDigits s m True else Some len) of None \<Rightarrow> invalid_token | Some len \<Rightarrow> f len)"
    if "0 < len \<and> len \<le> length s" "\<And>len. 0 < len \<and> len \<le> length s \<Longrightarrow> token_fits s (f len)" for b m len f
    using that ReadDigits_longer [of s m True] by (auto split: option.split)
  show ?thesis
  proof (cases "ReadDigits s (if peek s 0 = byte CHR ''-'' then 1 else 0) False")
    case None
    thus ?thesis unfolding ParseNumberToken_def Let_def by simp
  next
    case (Some len)
    hence "0 < len \<and> len \<le> length s" using ReadDigits_longer by fastforce
    thus ?thesis unfolding ParseNumberToken_def Let_def Some option.case
      by (intro step token_fits_number) auto
  qed
qed

lemma scan_string_longer: "scan_string s len = Scanned n \<Longrightarrow> len < n \<and> n \<le> len + length s"
  by (induction s len rule: scan_string.induct) (auto simp: ReadHexDigits_def split: if_splits)

lemma ParseStringToken_fits:
  "json_pos (fst (ParseStringToken r)) = json_pos r"
  "json_pos r \<noteq> [] \<Longrightarrow> token_fits (json_pos r) (snd (ParseStringToken r))"
proof -
  show "json_pos (fst (ParseStringToken r)) = json_pos r"
    by (simp add: ParseStringToken_def split: string_scan.split)
  assume ne: "json_pos r \<noteq> []"
  show "token_fits (json_pos r) (snd (ParseStringToken r))"
  proof (cases "scan_string (drop 1 (json_pos r)) 1")
    case (Scanned n)
    have "1 < n \<and> n \<le> 1 + length (drop 1 (json_pos r))" by (rule scan_string_longer [OF Scanned])
    moreover have "1 + length (drop 1 (json_pos r)) = length (json_pos r)" using ne by (cases "json_pos r") auto
    ultimately show ?thesis using Scanned by (simp add: ParseStringToken_def token_fits_def)
  qed (simp_all add: ParseStringToken_def)
qed

lemma ParseToken_fits:
  assumes "ParseToken r = (r', t)"
  shows "json_pos r' = EatWhitespaceAndComments (json_pos r) \<and> token_fits (json_pos r') t"
proof -
  let ?s = "EatWhitespaceAndComments (json_pos r)"
  have ne: "peek ?s 0 \<noteq> 0 \<Longrightarrow> 1 \<le> length ?s" by (cases ?s) (auto simp: peek_def)
  have simple: "token_fits ?s (simple_token k n)" if "0 < n" "n \<le> length ?s" for k n
    using that by (simp add: token_fits_def simple_token_def)
  note str = ParseStringToken_fits [of "r\<lparr>json_pos := ?s\<rparr>"]
  have word: "word_token c = Some (word, k) \<Longrightarrow> 0 < length word" for c word k
    by (auto simp: word_token_def split: if_splits)
  show ?thesis
  proof (cases "peek ?s 0 = 0")
    case True
    thus ?thesis using assms by (auto simp: ParseToken_def Let_def simple_token_def token_fits_def)
  next
    case False
    show ?thesis
    proof (cases "single_token (peek ?s 0)")
      case (Some k)
      thus ?thesis using assms False ne simple by (auto simp: ParseToken_def Let_def)
    next
      case single: None
      show ?thesis
      proof (cases "word_token (peek ?s 0)")
        case (Some wk)
        obtain word k where wk: "wk = (word, k)" by (cases wk)
        have t: "r' = r\<lparr>json_pos := ?s\<rparr>" "t = (if NextStringMatch word ?s then simple_token k (length word) else invalid_token)"
          using assms False single Some wk by (simp_all add: ParseToken_def Let_def)
        thus ?thesis using simple word Some wk by (auto simp: NextStringMatch_def)
      next
        case None
        have "?s \<noteq> []" using ne [OF False] by auto
        thus ?thesis using assms False single None ParseNumberToken_fits [of ?s] str
          by (auto simp: ParseToken_def Let_def prod_eq_iff split: if_splits)
      qed
    qed
  qed
qed

lemma ParseToken_shorter: "length (json_pos (fst (ParseToken r))) \<le> length (json_pos r)"
  using ParseToken_fits [of r "fst (ParseToken r)" "snd (ParseToken r)"] by simp

lemma advance_pos [simp]: "json_pos (advance n r) = drop n (json_pos r)"
  by (simp add: advance_def)

lemma advance_token_shorter:
  assumes "ParseToken r = (r', t)" "token_type t \<notin> {END_OF_INPUT, INVALID_TOKEN}"
  shows "length (json_pos (advance (token_length t) r')) < length (json_pos r)"
proof -
  have "token_length t \<le> length (json_pos r')" "0 < token_length t"
    using ParseToken_fits [OF assms(1)] assms(2) by (auto simp: token_fits_def)
  moreover have "length (json_pos r') \<le> length (json_pos r)" using ParseToken_shorter [of r] assms(1) by simp
  ultimately show ?thesis unfolding advance_pos length_drop by arith
qed

lemma ParseToken_advance_shorter:
  "ParseToken (advance n r) = (r2, t2) \<Longrightarrow> length (json_pos r2) \<le> length (json_pos r)"
  using ParseToken_shorter [of "advance n r"] by simp

lemma finish_value_shorter: "length (json_pos (fst (finish_value r t v))) \<le> length (json_pos r)"
  by (simp add: finish_value_def)

lemma after_value_shorter: "length (json_pos (fst (after_value c r))) \<le> length (json_pos r)"
proof -
  obtain r1 t1 where 1: "ParseToken r = (r1, t1)" by fastforce
  obtain r2 t2 where 2: "ParseToken (advance (token_length t1) r1) = (r2, t2)" by fastforce
  have "length (json_pos r1) \<le> length (json_pos r)" using ParseToken_shorter [of r] 1 by simp
  moreover have "length (json_pos r2) \<le> length (json_pos r1)" by (rule ParseToken_advance_shorter [OF 2])
  ultimately have "length (json_pos r2) \<le> length (json_pos r)" "length (json_pos r1) \<le> length (json_pos r)" by arith+
  thus ?thesis using 1 2 by (simp add: after_value_def)
qed

lemma read_key_shorter: "length (json_pos (fst (read_key r t))) \<le> length (json_pos r)"
proof (cases "token_type t = STRING")
  case True
  show ?thesis
  proof (cases "DecodeString r t")
    case (Some k)
    obtain r1 t1 where 1: "ParseToken (advance (token_length t) r) = (r1, t1)" by fastforce
    obtain r2 t2 where 2: "ParseToken (advance (token_length t1) r1) = (r2, t2)" by fastforce
    have "length (json_pos r1) \<le> length (json_pos r)" by (rule ParseToken_advance_shorter [OF 1])
    moreover have "length (json_pos r2) \<le> length (json_pos r1)" by (rule ParseToken_advance_shorter [OF 2])
    ultimately have "length (json_pos r2) \<le> length (json_pos r)" "length (json_pos r1) \<le> length (json_pos r)" by arith+
    thus ?thesis using 1 2 True Some by (simp add: read_key_def)
  qed (use True in \<open>simp add: read_key_def\<close>)
qed (simp add: read_key_def)

definition job_rank :: "'d job \<Rightarrow> nat" where
  "job_rank job = (case job of Build_value _ \<Rightarrow> 0 | _ \<Rightarrow> 1)"

lemma job_rank_simps [simp]:
  "job_rank (Build_value b) = 0" "job_rank (Array_loop t vs) = 1" "job_rank (Object_loop t d) = 1"
  by (simp_all add: job_rank_def)

definition returns_shorter :: "'d job \<Rightarrow> reader \<Rightarrow> 'd built option \<Rightarrow> bool" where
  "returns_shorter job r result \<longleftrightarrow> (case result of None \<Rightarrow> False
     | Some (r', v) \<Rightarrow> length (json_pos r') + (if job_rank job = 0 \<and> v \<noteq> None then 1 else 0) \<le> length (json_pos r))"

lemma simple_value_token: "simple_value ops r t = Some v \<Longrightarrow> token_type t \<notin> {END_OF_INPUT, INVALID_TOKEN}"
  by (auto simp: simple_value_def split: token_type.splits)

text \<open>The steps of \<open>build\<close>.\<close>

lemma build_begin:
  assumes "ParseToken (r\<lparr>stack_depth := stack_depth r + 1\<rparr>) = (r1, t)" "stack_depth r < kStackLimit"
    "ParseToken (advance (token_length t) r1) = (r2, t2)"
  shows "token_type t = ARRAY_BEGIN \<Longrightarrow> build ops (Build_value b) r = build ops (Array_loop t2 []) r2"
    "token_type t = OBJECT_BEGIN \<Longrightarrow> build ops (Build_value b) r = build ops (Object_loop t2 []) r2"
  using assms by (subst build.simps; simp add: Let_def)+

lemma build_simple:
  assumes "ParseToken (r\<lparr>stack_depth := stack_depth r + 1\<rparr>) = (r1, t)" "stack_depth r < kStackLimit"
    "simple_value ops r1 t = Some v"
  shows "build ops (Build_value False) r = Some (finish_value r1 t v)"
proof -
  have "token_type t \<noteq> ARRAY_BEGIN \<and> token_type t \<noteq> OBJECT_BEGIN" using assms(3) by (auto simp: simple_value_def)
  thus ?thesis using assms by (subst build.simps) (simp add: Let_def)
qed

lemma build_fails:
  assumes "ParseToken (r\<lparr>stack_depth := stack_depth r + 1\<rparr>) = (r1, t)"
    "token_type t \<noteq> ARRAY_BEGIN \<and> token_type t \<noteq> OBJECT_BEGIN \<and> (b \<or> simple_value ops r1 t = None) \<or> stack_depth r \<ge> kStackLimit"
  shows "\<exists>r'. build ops (Build_value b) r = Some (r', None) \<and> json_pos r' \<in> {json_pos r, json_pos r1}"
  using assms by (subst build.simps) (auto simp: Let_def)

lemma array_loop_end: "token_type t = ARRAY_END \<Longrightarrow> build ops (Array_loop t vs) r = Some (finish_value r t (ListValue vs))"
  by (subst build.simps) simp

lemma array_loop_step:
  assumes "token_type t \<noteq> ARRAY_END" "build ops (Build_value False) r = Some (r1, Some v)"
  shows "after_value ARRAY_END r1 = (r2, Go_on t') \<Longrightarrow>
      build ops (Array_loop t vs) r = build ops (Array_loop t' (vs @ [v])) r2"
    "after_value ARRAY_END r1 = (r2, End_of t') \<Longrightarrow>
      build ops (Array_loop t vs) r = Some (finish_value r2 t' (ListValue (vs @ [v])))"
    "after_value ARRAY_END r1 = (r2, Fail) \<Longrightarrow> build ops (Array_loop t vs) r = Some (r2, None)"
  using assms by (subst build.simps; simp add: Let_def)+

lemma array_loop_fails:
  "token_type t \<noteq> ARRAY_END \<Longrightarrow> build ops (Build_value False) r = Some (r1, None) \<Longrightarrow>
   build ops (Array_loop t vs) r = Some (r1, None)"
  by (subst build.simps) simp

lemma object_loop_end: "token_type t = OBJECT_END \<Longrightarrow> build ops (Object_loop t d) r = Some (finish_value r t (DictionaryValue d))"
  by (subst build.simps) simp

lemma object_loop_step:
  assumes "token_type t \<noteq> OBJECT_END" "read_key r t = (r0, Some key)" "build ops (Build_value False) r0 = Some (r1, Some v)"
  shows "after_value OBJECT_END r1 = (r2, Go_on t') \<Longrightarrow>
      build ops (Object_loop t d) r = build ops (Object_loop t' (SetWithoutPathExpansion key v d)) r2"
    "after_value OBJECT_END r1 = (r2, End_of t') \<Longrightarrow>
      build ops (Object_loop t d) r = Some (finish_value r2 t' (DictionaryValue (SetWithoutPathExpansion key v d)))"
    "after_value OBJECT_END r1 = (r2, Fail) \<Longrightarrow> build ops (Object_loop t d) r = Some (r2, None)"
  using assms by (subst build.simps; simp add: Let_def)+

lemma object_loop_fails:
  "token_type t \<noteq> OBJECT_END \<Longrightarrow> read_key r t = (r0, None) \<Longrightarrow> build ops (Object_loop t d) r = Some (r0, None)"
  "token_type t \<noteq> OBJECT_END \<Longrightarrow> read_key r t = (r0, Some key) \<Longrightarrow> build ops (Build_value False) r0 = Some (r1, None) \<Longrightarrow>
   build ops (Object_loop t d) r = Some (r1, None)"
  by (subst build.simps; simp add: Let_def)+

text \<open>A call that is made for a shorter text, or a loop that is entered after a token.\<close>

lemma returns_shorter_loop:
  assumes "returns_shorter job' r' x" "result = x" "length (json_pos r') + 1 \<le> length (json_pos r) \<or>
    length (json_pos r') \<le> length (json_pos r) \<and> job_rank job \<noteq> 0" "job_rank job' \<noteq> 0"
  shows "returns_shorter job r result"
  using assms by (auto simp: returns_shorter_def split: option.splits)

lemma returns_shorter_Some:
  "returns_shorter job r (Some (r', v)) \<longleftrightarrow>
     length (json_pos r') + (if job_rank job = 0 \<and> v \<noteq> None then 1 else 0) \<le> length (json_pos r)"
  by (simp add: returns_shorter_def)

lemma returns_shorter_value:
  assumes "returns_shorter (Build_value b) r result"
  obtains r1 v where "result = Some (r1, v)" "length (json_pos r1) + (if v = None then 0 else 1) \<le> length (json_pos r)"
  using assms by (cases result) (auto simp: returns_shorter_def split: if_splits)

lemma finish_value_pair: "finish_value r t v = (fst (finish_value r t v), Some v)"
  by (simp add: finish_value_def)

lemma build_value_returns:
  assumes loops: "\<And>r2 t. length (json_pos r2) < length (json_pos r) \<Longrightarrow>
      returns_shorter (Array_loop t []) r2 (build ops (Array_loop t []) r2) \<and>
      returns_shorter (Object_loop t []) r2 (build ops (Object_loop t []) r2)"
  shows "returns_shorter (Build_value b) r (build ops (Build_value b) r)"
proof -
  let ?r = "r\<lparr>stack_depth := stack_depth r + 1\<rparr>"
  obtain r1 t where 1: "ParseToken ?r = (r1, t)" by fastforce
  have le: "length (json_pos r1) \<le> length (json_pos r)" using ParseToken_shorter [of ?r] 1 by simp
  obtain r2 t2 where 2: "ParseToken (advance (token_length t) r1) = (r2, t2)" by fastforce
  consider (fails) "token_type t \<noteq> ARRAY_BEGIN \<and> token_type t \<noteq> OBJECT_BEGIN \<and> (b \<or> simple_value ops r1 t = None) \<or> stack_depth r \<ge> kStackLimit"
    | (loop) "token_type t = ARRAY_BEGIN \<or> token_type t = OBJECT_BEGIN" "stack_depth r < kStackLimit"
    | (simple) v where "simple_value ops r1 t = Some v" "\<not> b" "stack_depth r < kStackLimit"
    by fastforce
  thus ?thesis
  proof cases
    case fails
    thus ?thesis using build_fails [OF 1 fails] le by (auto simp: returns_shorter_Some)
  next
    case loop
    have "length (json_pos (advance (token_length t) r1)) < length (json_pos r)"
      using advance_token_shorter [OF 1] loop(1) by auto
    hence lt: "length (json_pos r2) < length (json_pos r)"
      using ParseToken_shorter [of "advance (token_length t) r1"] 2 by simp
    show ?thesis using loop(1) build_begin [OF 1 loop(2) 2, of ops b] lt loops [OF lt, of t2]
      by (elim disjE) (auto intro: returns_shorter_loop)
  next
    case simple
    have "length (json_pos (advance (token_length t) r1)) < length (json_pos r)"
      using advance_token_shorter [OF 1 simple_value_token [OF simple(1)]] by simp
    thus ?thesis using build_simple [OF 1 simple(3,1)] simple(2) by (simp add: returns_shorter_Some finish_value_def)
  qed
qed

lemma array_loop_returns:
  assumes "returns_shorter (Build_value False) r (build ops (Build_value False) r)"
    "\<And>r2 t vs. length (json_pos r2) < length (json_pos r) \<Longrightarrow> returns_shorter (Array_loop t vs) r2 (build ops (Array_loop t vs) r2)"
  shows "returns_shorter (Array_loop t vs) r (build ops (Array_loop t vs) r)"
proof (cases "token_type t = ARRAY_END")
  case True
  thus ?thesis by (subst array_loop_end) (simp_all add: finish_value_def returns_shorter_Some)
next
  case False
  obtain r1 v where 1: "build ops (Build_value False) r = Some (r1, v)"
    and len: "length (json_pos r1) + (if v = None then 0 else 1) \<le> length (json_pos r)"
    by (rule returns_shorter_value [OF assms(1)])
  obtain r2 a where 2: "after_value ARRAY_END r1 = (r2, a)" by fastforce
  have le: "length (json_pos r2) \<le> length (json_pos r1)" using after_value_shorter [of ARRAY_END r1] 2 by simp
  show ?thesis
  proof (cases v)
    case None
    thus ?thesis using array_loop_fails [OF False 1 [unfolded None]] len by (simp add: returns_shorter_Some)
  next
    case (Some w)
    note step = array_loop_step [OF False 1 [unfolded Some]]
    show ?thesis
    proof (cases a)
      case (Go_on t')
      show ?thesis by (rule returns_shorter_loop [OF assms(2) step(1)]) (use 2 Go_on le len Some in auto)
    next
      case (End_of t')
      thus ?thesis using step(2) 2 le len Some by (simp add: finish_value_def returns_shorter_Some)
    next
      case Fail
      thus ?thesis using step(3) 2 le len Some by (simp add: returns_shorter_Some)
    qed
  qed
qed

lemma object_loop_returns:
  assumes "\<And>r0. length (json_pos r0) \<le> length (json_pos r) \<Longrightarrow> returns_shorter (Build_value False) r0 (build ops (Build_value False) r0)"
    "\<And>r2 t d. length (json_pos r2) < length (json_pos r) \<Longrightarrow> returns_shorter (Object_loop t d) r2 (build ops (Object_loop t d) r2)"
  shows "returns_shorter (Object_loop t d) r (build ops (Object_loop t d) r)"
proof (cases "token_type t = OBJECT_END")
  case True
  thus ?thesis by (subst object_loop_end) (simp_all add: finish_value_def returns_shorter_Some)
next
  case False
  obtain r0 k where 0: "read_key r t = (r0, k)" by fastforce
  have le0: "length (json_pos r0) \<le> length (json_pos r)" using read_key_shorter [of r t] 0 by simp
  obtain r1 v where 1: "build ops (Build_value False) r0 = Some (r1, v)"
    and len: "length (json_pos r1) + (if v = None then 0 else 1) \<le> length (json_pos r0)"
    by (rule returns_shorter_value [OF assms(1) [OF le0]])
  obtain r2 a where 2: "after_value OBJECT_END r1 = (r2, a)" by fastforce
  have le: "length (json_pos r2) \<le> length (json_pos r1)" using after_value_shorter [of OBJECT_END r1] 2 by simp
  show ?thesis
  proof (cases "k = None \<or> v = None")
    case True
    have "\<exists>r'. build ops (Object_loop t d) r = Some (r', None) \<and> length (json_pos r') \<le> length (json_pos r)"
      using True object_loop_fails [OF False] 0 1 le0 len by (cases k) fastforce+
    thus ?thesis by (auto simp: returns_shorter_Some)
  next
    case neither: False
    then obtain key w where kw: "k = Some key" "v = Some w" by auto
    note step = object_loop_step [OF False 0 [unfolded kw(1)] 1 [unfolded kw(2)]]
    show ?thesis
    proof (cases a)
      case (Go_on t')
      show ?thesis by (rule returns_shorter_loop [OF assms(2) step(1)]) (use 2 Go_on le le0 len kw in auto)
    next
      case (End_of t')
      thus ?thesis using step(2) 2 le le0 len kw by (simp add: finish_value_def returns_shorter_Some)
    next
      case Fail
      thus ?thesis using step(3) 2 le le0 len kw by (simp add: returns_shorter_Some)
    qed
  qed
qed

lemma build_returns: "returns_shorter job r (build ops job r)"
proof (induction "2 * length (json_pos r) + job_rank job" arbitrary: job r rule: less_induct)
  case less
  have loops: "returns_shorter job' r2 (build ops job' r2)" if "length (json_pos r2) < length (json_pos r)" "job_rank job' \<le> 1" for job' r2
    using that by (intro less.hyps) linarith
  show ?case
  proof (cases job)
    case (Build_value b)
    show ?thesis unfolding Build_value by (rule build_value_returns) (simp add: loops)
  next
    case (Array_loop t vs)
    show ?thesis unfolding Array_loop
      by (rule array_loop_returns) (use less.hyps loops Array_loop in simp_all)
  next
    case (Object_loop t d)
    show ?thesis unfolding Object_loop
      by (rule object_loop_returns) (use less.hyps loops Object_loop in simp_all)
  qed
qed

text \<open>C4. The reader returns for every text: the loops and recursive calls of \<open>BuildValue\<close> end.\<close>

theorem JSON_reader_returns: "\<exists>result. JSONReader_Read ops json allow_trailing = Some result"
proof -
  have "BuildValue ops root r \<noteq> None" for root r
    using build_returns [of "Build_value root" r ops] unfolding BuildValue_def
    by (cases "build ops (Build_value root) r") (simp_all add: returns_shorter_def)
  hence "JsonToValue ops json True allow_trailing new_JSONReader \<noteq> None"
    by (simp add: JsonToValue_def Let_def del: not_None_eq)
  thus ?thesis by (auto simp: JSONReader_Read_def ReadAndReturnError_def)
qed

end
