(* ===== verification/ValuesSpec.thy ===== *)
theory ValuesSpec
  imports Values "HOL-Library.Sublist"
begin

text \<open>
  Dictionaries are maps whose entries are in the order of their keys, at every level of a value; paths
  address the levels.
\<close>

section \<open>Equality\<close>

lemma Equals_iff:
  fixes v w :: "'a Value" and d e :: "'a dict" and l m :: "'a Value list"
  shows "Equals (=) v w \<longleftrightarrow> v = w" "Equals_entries (=) d e \<longleftrightarrow> d = e" "Equals_list (=) l m \<longleftrightarrow> l = m"
proof (induction "(=) :: 'a \<Rightarrow> 'a \<Rightarrow> bool" v w and "(=) :: 'a \<Rightarrow> 'a \<Rightarrow> bool" d e and "(=) :: 'a \<Rightarrow> 'a \<Rightarrow> bool" l m
    rule: Equals_Equals_entries_Equals_list.induct)
  case (10 k v d es)
  thus ?case by (cases es) auto
next
  case (12 v l vs)
  thus ?case by (cases vs) auto
qed (auto split: Value.split)

section \<open>Order\<close>

text \<open>The keys of a dictionary in strictly ascending order, and so in every dictionary below.\<close>

definition sorted_keys :: "'d dict \<Rightarrow> bool" where
  "sorted_keys d \<longleftrightarrow> sorted_wrt (<) (map fst d)"

fun ordered :: "'d Value \<Rightarrow> bool" where
  "ordered (DictionaryValue d) = (sorted_keys d \<and> list_all (\<lambda>(k, v). ordered v) d)"
| "ordered (ListValue l) = list_all ordered l"
| "ordered v = True"

abbreviation ordered_dict :: "'d dict \<Rightarrow> bool" where
  "ordered_dict d \<equiv> ordered (DictionaryValue d)"

lemma sorted_keys_simps [simp]:
  "sorted_keys []" "sorted_keys ((k, v) # d) \<longleftrightarrow> list_all (\<lambda>e. k < fst e) d \<and> sorted_keys d"
  by (auto simp: sorted_keys_def list_all_iff)

lemma sorted_keys_distinct: "sorted_keys d \<Longrightarrow> distinct (map fst d)"
  by (auto simp: sorted_keys_def strict_sorted_iff)

lemma set_keys: "fst ` set (SetWithoutPathExpansion key v d) = insert key (fst ` set d)"
  by (induction d rule: SetWithoutPathExpansion.induct) auto

lemma all_keys: "list_all (\<lambda>e. k < fst e) d \<longleftrightarrow> (\<forall>key \<in> fst ` set d. k < key)"
  by (auto simp: list_all_iff)

lemma set_sorted: "sorted_keys d \<Longrightarrow> sorted_keys (SetWithoutPathExpansion key v d)"
proof (induction key v d rule: SetWithoutPathExpansion.induct)
  case (2 key v k w d)
  have keys: "list_all (\<lambda>e. k < fst e) (SetWithoutPathExpansion key v d) \<longleftrightarrow> k < key \<and> list_all (\<lambda>e. k < fst e) d"
    by (simp add: all_keys set_keys)
  show ?case
  proof (cases "key < k")
    case True
    thus ?thesis using 2 by (auto simp: list_all_iff)
  next
    case False
    thus ?thesis using 2 keys by auto
  qed
qed simp

lemma map_of_set [simp]: "sorted_keys d \<Longrightarrow> map_of (SetWithoutPathExpansion key v d) = (map_of d)(key \<mapsto> v)"
proof (induction key v d rule: SetWithoutPathExpansion.induct)
  case (2 key v k w d)
  show ?case
  proof (cases "key < k")
    case True
    thus ?thesis by auto
  next
    case False
    thus ?thesis using 2 by (auto simp: fun_eq_iff)
  qed
qed auto

lemma set_entries: "set (SetWithoutPathExpansion key v d) \<subseteq> insert (key, v) (set d)"
  by (induction key v d rule: SetWithoutPathExpansion.induct) auto

lemma ordered_set: "ordered_dict d \<Longrightarrow> ordered v \<Longrightarrow> ordered_dict (SetWithoutPathExpansion key v d)"
  using set_sorted [of d key v] set_entries [of key v d] by (fastforce simp: list_all_iff)

lemma ordered_lookup: "ordered_dict d \<Longrightarrow> map_of d key = Some v \<Longrightarrow> ordered v"
  by (auto simp: list_all_iff dest!: map_of_SomeD)

lemma ordered_child: "ordered_dict d \<Longrightarrow> GetDictionaryWithoutPathExpansion key d = Some child \<Longrightarrow> ordered_dict child"
  using ordered_lookup [of d key]
  by (auto simp: GetDictionaryWithoutPathExpansion_def as_dictionary_def GetWithoutPathExpansion_def simp del: ordered.simps
    split: option.splits Value.splits)




text \<open>A copy of an ordered value is the value.\<close>

lemma SetWithoutPathExpansion_last:
  "list_all (\<lambda>e. fst e < k) d \<Longrightarrow> SetWithoutPathExpansion k v d = d @ [(k, v)]"
  by (induction d) auto

lemma sorted_keys_append:
  "sorted_keys (d @ e) \<longleftrightarrow> sorted_keys d \<and> sorted_keys e \<and> (\<forall>k \<in> fst ` set d. \<forall>k' \<in> fst ` set e. k < k')"
  by (auto simp: sorted_keys_def sorted_wrt_append)

lemma DeepCopy_ordered:
  fixes v :: "'a Value" and result d :: "'a dict" and l :: "'a Value list"
  shows "ordered v \<Longrightarrow> DeepCopy v = v"
    "sorted_keys (result @ d) \<Longrightarrow> list_all (\<lambda>(k, v). ordered v) d \<Longrightarrow> deep_copy_into result d = result @ d"
    "list_all ordered l \<Longrightarrow> deep_copy_list l = l"
proof (induction v and result d and l rule: DeepCopy_deep_copy_into_deep_copy_list.induct)
  case (5 result k v d)
  have "SetWithoutPathExpansion k v result = result @ [(k, v)]"
    by (rule SetWithoutPathExpansion_last) (use "5.prems"(1) in \<open>auto simp: sorted_keys_append list_all_iff\<close>)
  thus ?case using 5 by simp
qed simp_all

text \<open>The cases of \<open>MergeDictionary\<close>: an entry whose value and the value it meets are dictionaries, and any
  other entry.\<close>

definition merges :: "'d Value \<Rightarrow> 'd dict option \<Rightarrow> bool" where
  "merges w old \<longleftrightarrow> (case w of DictionaryValue _ \<Rightarrow> old \<noteq> None | _ \<Rightarrow> False)"

lemma merge_sub: "GetDictionaryWithoutPathExpansion key this = Some sub_dict \<Longrightarrow>
    MergeDictionary this ((key, DictionaryValue sub) # es) =
    MergeDictionary (SetWithoutPathExpansion key (DictionaryValue (MergeDictionary sub_dict sub)) this) es"
  by simp

lemma merge_set: "\<not> merges w (GetDictionaryWithoutPathExpansion key this) \<Longrightarrow>
    MergeDictionary this ((key, w) # es) = MergeDictionary (SetWithoutPathExpansion key (DeepCopy w) this) es"
  by (cases w) (auto simp: merges_def)

declare MergeDictionary.simps(2) [simp del]

lemma merge_induct [case_names Nil sub set]:
  assumes "\<And>this. P this []"
    "\<And>this key sub es sub_dict. GetDictionaryWithoutPathExpansion key this = Some sub_dict \<Longrightarrow> P sub_dict sub \<Longrightarrow>
      P (SetWithoutPathExpansion key (DictionaryValue (MergeDictionary sub_dict sub)) this) es \<Longrightarrow> P this ((key, DictionaryValue sub) # es)"
    "\<And>this key w es. \<not> merges w (GetDictionaryWithoutPathExpansion key this) \<Longrightarrow> P (SetWithoutPathExpansion key (DeepCopy w) this) es \<Longrightarrow>
      P this ((key, w) # es)"
  shows "P this other"
proof (induction this other rule: MergeDictionary.induct)
  case (2 this key w es)
  show ?case
  proof (cases "merges w (GetDictionaryWithoutPathExpansion key this)")
    case True
    then obtain sub sub_dict where "w = DictionaryValue sub" "GetDictionaryWithoutPathExpansion key this = Some sub_dict"
      by (auto simp: merges_def split: Value.splits)
    thus ?thesis using "2.IH" assms(2) by simp
  next
    case False
    have "P (SetWithoutPathExpansion key (DeepCopy w) this) es"
      by (cases w; cases "GetDictionaryWithoutPathExpansion key this") (use "2.IH" False in \<open>simp_all add: merges_def\<close>)
    thus ?thesis by (rule assms(3) [OF False])
  qed
qed (rule assms(1))

lemma ordered_Merge: "ordered_dict this \<Longrightarrow> ordered_dict other \<Longrightarrow> ordered_dict (MergeDictionary this other)"
proof (induction this other rule: merge_induct)
  case (sub this key sub es sub_dict)
  have "ordered_dict (MergeDictionary sub_dict sub)" using sub ordered_child [OF sub.prems(1) sub.hyps] by simp
  from ordered_set [OF sub.prems(1) this] show ?case using sub by (simp add: merge_sub del: ordered.simps(1)) simp
next
  case (set this key w es)
  thus ?case using ordered_set [of this w key] by (simp add: merge_set DeepCopy_ordered)
qed simp





section \<open>Paths\<close>

text \<open>The components of a path.\<close>

function components :: "string \<Rightarrow> string list" where
  "components path = (if CHR ''.'' \<in> set path then path_key path # components (path_rest path) else [path])"
  by pat_completeness auto
termination by (relation "measure length") (auto simp: path_rest_shorter)

declare components.simps [simp del]

fun get_components :: "string list \<Rightarrow> 'd dict \<Rightarrow> 'd Value option" where
  "get_components [] d = None"
| "get_components [k] d = map_of d k"
| "get_components (k # ks) d = (case map_of d k of Some (DictionaryValue child) \<Rightarrow> get_components ks child | _ \<Rightarrow> None)"

lemma components_ne [simp]: "components path \<noteq> []"
  by (subst components.simps) simp

lemma get_components_Cons: "ks \<noteq> [] \<Longrightarrow> get_components (k # ks) d =
    (case map_of d k of Some (DictionaryValue child) \<Rightarrow> get_components ks child | _ \<Rightarrow> None)"
  by (cases ks) auto

lemma Get_components: "dict_Get path d = get_components (components path) d"
proof (induction path d rule: dict_Get.induct)
  case (1 path d)
  show ?case
  proof (cases "CHR ''.'' \<in> set path")
    case True
    have c: "components path = path_key path # components (path_rest path)" using True by (subst components.simps) simp
    show ?thesis
    proof (cases "GetDictionaryWithoutPathExpansion (path_key path) d")
      case None
      thus ?thesis using True unfolding c get_components_Cons [OF components_ne]
        by (subst dict_Get.simps)
          (auto simp: GetDictionaryWithoutPathExpansion_def as_dictionary_def GetWithoutPathExpansion_def split: option.splits Value.splits)
    next
      case (Some child)
      hence m: "map_of d (path_key path) = Some (DictionaryValue child)"
        by (auto simp: GetDictionaryWithoutPathExpansion_def as_dictionary_def GetWithoutPathExpansion_def split: option.splits Value.splits)
      show ?thesis using True Some m "1.IH" [OF True Some] unfolding c get_components_Cons [OF components_ne]
        by (subst dict_Get.simps) simp
    qed
  next
    case False
    thus ?thesis by (subst dict_Get.simps, subst components.simps) (simp add: GetWithoutPathExpansion_def)
  qed
qed

text \<open>Two paths that lead to different places, none inside the other.\<close>

definition unrelated :: "string \<Rightarrow> string \<Rightarrow> bool" where
  "unrelated p q \<longleftrightarrow> \<not> prefix (components p) (components q) \<and> \<not> prefix (components q) (components p)"

lemma Set_other:
  "sorted_keys d \<Longrightarrow> ordered_dict d \<Longrightarrow> ks \<noteq> [] \<Longrightarrow> \<not> prefix (components path) ks \<Longrightarrow> \<not> prefix ks (components path) \<Longrightarrow>
   get_components ks (dict_Set path v d) = get_components ks d"
proof (induction path v d arbitrary: ks rule: dict_Set.induct)
  case (1 path v d)
  obtain k ks' where ks: "ks = k # ks'" using "1.prems"(3) by (cases ks) auto
  show ?case
  proof (cases "CHR ''.'' \<in> set path")
    case True
    let ?child = "case GetDictionaryWithoutPathExpansion (path_key path) d of None \<Rightarrow> [] | Some child \<Rightarrow> child"
    have c: "components path = path_key path # components (path_rest path)" using True by (subst components.simps) simp
    have s: "dict_Set path v d = SetWithoutPathExpansion (path_key path) (DictionaryValue (dict_Set (path_rest path) v ?child)) d"
      using True by (subst dict_Set.simps) (simp add: Let_def)
    show ?thesis
    proof (cases "k = path_key path")
      case True
      have ne: "ks' \<noteq> []" using "1.prems"(5) c ks True by auto
      have o: "ordered_dict ?child" using ordered_child [OF "1.prems"(2)] by (simp split: option.split)
      have "get_components ks' (dict_Set (path_rest path) v ?child) = get_components ks' ?child"
        by (rule "1.IH") (use \<open>CHR ''.'' \<in> set path\<close> o ne "1.prems"(4,5) c ks True in auto)
      moreover have "get_components ks' [] = None" using ne by (cases ks'; cases "tl ks'") auto
      ultimately show ?thesis using "1.prems"(1) True unfolding s ks get_components_Cons [OF ne]
        by (auto simp: GetDictionaryWithoutPathExpansion_def as_dictionary_def GetWithoutPathExpansion_def split: option.splits Value.splits)
    next
      case False
      thus ?thesis using "1.prems"(1) unfolding s ks by (cases ks') (simp_all add: get_components_Cons)
    qed
  next
    case False
    hence "components path = [path]" by (subst components.simps) simp
    hence "k \<noteq> path" using "1.prems"(4) ks by auto
    thus ?thesis using False "1.prems"(1) unfolding ks
      by (subst dict_Set.simps, cases ks') (simp_all add: get_components_Cons)
  qed
qed

lemma Set_Get: "ordered_dict d \<Longrightarrow> dict_Get path (dict_Set path v d) = Some v"
proof (induction path v d rule: dict_Set.induct)
  case (1 path v d)
  let ?child = "case GetDictionaryWithoutPathExpansion (path_key path) d of None \<Rightarrow> [] | Some child \<Rightarrow> child"
  have o: "ordered_dict ?child" using ordered_child [OF "1.prems"] by (simp split: option.split)
  show ?case
  proof (cases "CHR ''.'' \<in> set path")
    case True
    have "dict_Get (path_rest path) (dict_Set (path_rest path) v ?child) = Some v" by (rule "1.IH") (use True o in auto)
    thus ?thesis using True "1.prems"
      by (subst dict_Set.simps, subst dict_Get.simps)
        (simp add: Let_def GetDictionaryWithoutPathExpansion_def GetWithoutPathExpansion_def as_dictionary_def)
  next
    case False
    thus ?thesis using "1.prems" by (subst dict_Set.simps, subst dict_Get.simps) (simp add: GetWithoutPathExpansion_def)
  qed
qed

text \<open>C8. \<open>Get\<close> after \<open>Set\<close> gives the value set, and every path that neither leads into it nor is passed on the
  way to it gives what it gave before.\<close>

theorem Set_changes_one_place:
  assumes "ordered (DictionaryValue d)"
  shows "dict_Get path (dict_Set path v d) = Some v \<and>
    (unrelated path other \<longrightarrow> dict_Get other (dict_Set path v d) = dict_Get other d)"
  using Set_Get [OF assms] Set_other [OF _ assms, of "components other" path v] assms
  by (auto simp: Get_components unrelated_def)

text \<open>The witness sets below a dictionary, and an entry beside it stays.\<close>

theorem Set_changes_one_place_witness:
  "dict_Get ''d.x'' (dict_Set ''d.x'' NullValue [(''d'', StringValue ''s''), (''e'', BooleanValue True :: nat Value)]) = Some NullValue \<and>
   dict_Get ''e'' (dict_Set ''d.x'' NullValue [(''d'', StringValue ''s''), (''e'', BooleanValue True :: nat Value)]) = Some (BooleanValue True)"
proof -
  let ?d = "[(''d'', StringValue ''s''), (''e'', BooleanValue True :: nat Value)]"
  have o: "ordered (DictionaryValue ?d)" by (simp add: less_char_def)
  have "unrelated ''d.x'' ''e''" by (simp add: unrelated_def components.simps path_key_def path_rest_def)
  moreover have "dict_Get ''e'' ?d = Some (BooleanValue True)" by (simp add: dict_Get.simps GetWithoutPathExpansion_def)
  ultimately show ?thesis using Set_changes_one_place [OF o, of "''d.x''" NullValue "''e''"] by simp
qed

section \<open>Removing\<close>

text \<open>\<open>Remove\<close> succeeds exactly where \<open>Get\<close> finds something, hands out what was found, and nothing is found
  there any more.\<close>

theorem Remove_takes_what_Get_finds:
  assumes "ordered (DictionaryValue d)"
  shows "case dict_Remove path d of
      Some (d', v) \<Rightarrow> dict_Get path d = Some v \<and> dict_Get path d' = None
    | None \<Rightarrow> dict_Get path d = None"
  using assms
proof (induction path d rule: dict_Remove.induct)
  case (1 path d)
  have s: "sorted_keys d" using "1.prems" by simp
  show ?case
  proof (cases "CHR ''.'' \<in> set path")
    case True
    show ?thesis
    proof (cases "GetDictionaryWithoutPathExpansion (path_key path) d")
      case None
      have "dict_Remove path d = None" using True None by (subst dict_Remove.simps) simp
      moreover have "dict_Get path d = None" using True None by (subst dict_Get.simps) simp
      ultimately show ?thesis by simp
    next
      case (Some child)
      note IH = "1.IH" [OF True Some ordered_child [OF "1.prems" Some]]
      have get: "dict_Get path d = dict_Get (path_rest path) child" using True Some by (subst dict_Get.simps) simp
      have set: "dict_Get path (SetWithoutPathExpansion (path_key path) (DictionaryValue c) d) = dict_Get (path_rest path) c" for c
        using True s by (subst dict_Get.simps)
          (simp add: GetDictionaryWithoutPathExpansion_def GetWithoutPathExpansion_def as_dictionary_def)
      have "dict_Remove path d = map_option (\<lambda>(child, v). (SetWithoutPathExpansion (path_key path) (DictionaryValue child) d, v))
          (dict_Remove (path_rest path) child)" using True Some by (subst dict_Remove.simps) simp
      thus ?thesis using IH by (cases "dict_Remove (path_rest path) child") (auto simp: get set)
    qed
  next
    case False
    have g: "dict_Get path e = map_of e path" for e :: "'a dict" using False by (subst dict_Get.simps) (simp add: GetWithoutPathExpansion_def)
    have "map_of (filter (\<lambda>e. fst e \<noteq> path) d) path = None" by (auto simp: map_of_eq_None_iff)
    thus ?thesis using False
      by (subst dict_Remove.simps) (simp add: g RemoveWithoutPathExpansion_def split: option.split)
  qed
qed

theorem Remove_takes_what_Get_finds_witness:
  "case dict_Remove ''d.x'' [(''d'', DictionaryValue [(''x'', IntegerValue 7 :: nat Value)])] of
      Some (d', v) \<Rightarrow> dict_Get ''d.x'' [(''d'', DictionaryValue [(''x'', IntegerValue 7 :: nat Value)])] = Some v \<and> dict_Get ''d.x'' d' = None
    | None \<Rightarrow> dict_Get ''d.x'' [(''d'', DictionaryValue [(''x'', IntegerValue 7 :: nat Value)])] = None"
  by (rule Remove_takes_what_Get_finds) simp

section \<open>Merging\<close>

text \<open>What becomes of a value that is merged into an entry.\<close>

definition merge_value :: "'d Value \<Rightarrow> 'd Value option \<Rightarrow> 'd Value" where
  "merge_value v old = (case (v, old) of
     (DictionaryValue sub, Some (DictionaryValue sub_dict)) \<Rightarrow> DictionaryValue (MergeDictionary sub_dict sub) | _ \<Rightarrow> v)"

text \<open>After \<open>MergeDictionary\<close> a key has the value of the merged dictionary, merged with the old value where
  both are dictionaries, and keeps its value where the merged dictionary has none.\<close>

theorem MergeDictionary_entries:
  assumes "ordered (DictionaryValue this)" "ordered (DictionaryValue other)"
  shows "map_of (MergeDictionary this other) key =
    (case map_of other key of None \<Rightarrow> map_of this key | Some v \<Rightarrow> Some (merge_value v (map_of this key)))"
  using assms
proof (induction other arbitrary: this)
  case (Cons e es)
  obtain k w where e: "e = (k, w)" by (cases e)
  have s: "sorted_keys this" using Cons.prems(1) by simp
  have "k \<notin> fst ` set es" using Cons.prems(2) e by (auto simp: list_all_iff)
  hence no: "map_of es k = None" by (simp add: map_of_eq_None_iff)
  have w: "ordered w" "ordered (DictionaryValue es)" "DeepCopy w = w" using Cons.prems(2) e by (simp_all add: DeepCopy_ordered(1))
  let ?d = "SetWithoutPathExpansion k (merge_value w (map_of this k)) this"
  have step: "MergeDictionary this (e # es) = MergeDictionary ?d es"
  proof (cases "merges w (GetDictionaryWithoutPathExpansion k this)")
    case True
    then obtain sub sub_dict where "w = DictionaryValue sub" "map_of this k = Some (DictionaryValue sub_dict)"
      by (auto simp: merges_def GetDictionaryWithoutPathExpansion_def as_dictionary_def GetWithoutPathExpansion_def
        split: Value.splits option.splits)
    thus ?thesis by (simp add: e merge_value_def merge_sub GetDictionaryWithoutPathExpansion_def as_dictionary_def GetWithoutPathExpansion_def)
  next
    case False
    hence "merge_value w (map_of this k) = w"
      by (auto simp: merges_def merge_value_def GetDictionaryWithoutPathExpansion_def as_dictionary_def GetWithoutPathExpansion_def
        split: Value.splits option.splits)
    thus ?thesis using merge_set [OF False] w(3) e by simp
  qed
  have "ordered (merge_value w (map_of this k))"
    using w(1) ordered_lookup [OF Cons.prems(1), of k] ordered_Merge
    by (auto simp: merge_value_def simp del: ordered.simps(1) split: Value.split option.split)
  from Cons.IH [OF ordered_set [OF Cons.prems(1) this] w(2)]
  show ?case using no e s unfolding step by (cases "key = k"; cases "map_of es key") simp_all
qed simp

theorem MergeDictionary_entries_witness:
  "map_of (MergeDictionary [(''a'', NullValue), (''b'', BooleanValue True)] [(''b'', IntegerValue 3 :: nat Value)]) ''b'' = Some (IntegerValue 3)"
  using MergeDictionary_entries [of "[(''a'', NullValue), (''b'', BooleanValue True)]" "[(''b'', IntegerValue 3 :: nat Value)]" "''b''"]
  by (simp add: less_char_def merge_value_def)

end
