(* ===== verification/JsonRoundTrip.thy ===== *)
theory JsonRoundTrip
  imports JsonSpec ValuesSpec
begin

text \<open>
  What the writer wrote is read back as the value it was: first the tokens, then the values.
\<close>

section \<open>Tokens\<close>

lemma EatWhitespace_blanks:
  "set bs \<subseteq> {32, 10} \<Longrightarrow> EatWhitespaceAndComments (bs @ s) = EatWhitespaceAndComments s"
  by (induction bs) auto

lemma EatWhitespace_stop:
  "c \<notin> {32, 10, 13, 9, 47} \<Longrightarrow> EatWhitespaceAndComments (c # s) = c # s"
  by (simp add: byte_chars)

lemma peek_simps [simp]: "peek [] n = 0" "peek (c # s) 0 = c" "peek (c # s) (Suc n) = peek s n"
  "peek (c # s) (numeral m) = peek s (pred_numeral m)"
  by (simp_all add: peek_def numeral_eq_Suc)

lemma map_byte_append [simp]: "map byte (s @ t) = map byte s @ map byte t"
  by simp

lemma single_token_plain:
  assumes "single_token c = Some k"
  shows "c \<notin> {32, 10, 13, 9, 47}" "c \<noteq> 0"
  using assms by (auto simp: single_token_def byte_chars split: if_splits)

lemma ParseToken_single:
  assumes "set bs \<subseteq> {32, 10}" "json_pos r = bs @ c # s" "single_token c = Some k"
  shows "ParseToken r = (r\<lparr>json_pos := c # s\<rparr>, simple_token k 1)"
  using assms EatWhitespace_stop [OF single_token_plain(1) [OF assms(3)]] single_token_plain(2) [OF assms(3)]
  by (simp add: ParseToken_def EatWhitespace_blanks Let_def del: EatWhitespaceAndComments.simps)

lemma ParseToken_at_end:
  assumes "set (json_pos r) \<subseteq> {32, 10}"
  shows "ParseToken r = (r\<lparr>json_pos := []\<rparr>, simple_token END_OF_INPUT 0)"
  using EatWhitespace_blanks [OF assms, of "[]"] by (simp add: ParseToken_def Let_def)

lemma after_value_end:
  assumes "set bs \<subseteq> {32, 10}" "json_pos r = bs @ c # s" "single_token c = Some k" "k \<noteq> LIST_SEPARATOR"
  shows "after_value k r = (r\<lparr>json_pos := c # s\<rparr>, End_of (simple_token k 1))"
  using ParseToken_single [OF assms(1-3)] assms(4) by (simp add: after_value_def simple_token_def)


subsection \<open>Strings\<close>

lemma hex_char_value:
  assumes "d < 16"
  shows "wide_hex_digit (byte (hex_char d)) \<and> HexDigitToInt (byte (hex_char d)) = d"
proof -
  have "list_all (\<lambda>d. wide_hex_digit (byte (hex_char d)) \<and> HexDigitToInt (byte (hex_char d)) = d) [0..<16]" by code_simp
  thus ?thesis using assms by (auto simp: list_all_iff)
qed

lemma hex_sum:
  "(c :: nat) = q1 * 16 + m0 \<Longrightarrow> q1 = q2 * 16 + m1 \<Longrightarrow> q2 = q3 * 16 + m2 \<Longrightarrow>
   q3 * 4096 + m2 * 256 + m1 * 16 + m0 = c"
  by simp

lemma hex4_value:
  assumes "c < 2 ^ 16"
  shows "list_all wide_hex_digit (map byte (hex4 c))" "length (hex4 c) = 4"
    "HexDigitToInt (byte (hex4 c ! 0)) * 4096 + HexDigitToInt (byte (hex4 c ! 1)) * 256 +
     HexDigitToInt (byte (hex4 c ! 2)) * 16 + HexDigitToInt (byte (hex4 c ! 3)) = c"
proof -
  have d: "c div 4096 < 16" "c div 256 mod 16 < 16" "c div 16 mod 16 < 16" "c mod 16 < 16" using assms by auto
  show "list_all wide_hex_digit (map byte (hex4 c))" using hex_char_value d by (simp add: hex4_def)
  have step: "c div n = c div (n * 16) * 16 + c div n mod 16" for n
    by (simp add: div_mult2_eq)
  have "HexDigitToInt (byte (hex4 c ! 0)) = c div 4096" "HexDigitToInt (byte (hex4 c ! 1)) = c div 256 mod 16"
    "HexDigitToInt (byte (hex4 c ! 2)) = c div 16 mod 16" "HexDigitToInt (byte (hex4 c ! 3)) = c mod 16"
    using hex_char_value d by (simp_all add: hex4_def)
  moreover have "c div 4096 * 4096 + c div 256 mod 16 * 256 + c div 16 mod 16 * 16 + c mod 16 = c"
    by (rule hex_sum) (use step [of 1] step [of 16] step [of 256] in simp_all)
  ultimately show "HexDigitToInt (byte (hex4 c ! 0)) * 4096 + HexDigitToInt (byte (hex4 c ! 1)) * 256 +
     HexDigitToInt (byte (hex4 c ! 2)) * 16 + HexDigitToInt (byte (hex4 c ! 3)) = c"
    by simp
qed (simp add: hex4_def)

text \<open>The three forms of an escaped character.\<close>

lemma json_escape_cases:
  assumes "c < 2 ^ 16"
  obtains (unicode) "map byte (json_escape c) = 0x5C # 117 # map byte (hex4 c)"
    | (single) e where "map byte (json_escape c) = [0x5C, e]" "simple_escape e" "unescaped e = Some c" "e \<noteq> 117" "e \<noteq> 120"
    | (plain) "map byte (json_escape c) = [c]" "c \<notin> {0, 0x5C, 0x22}"
proof (cases "JsonSingleEscapeChar c")
  case None
  show ?thesis
  proof (cases "c < 32 \<or> c > 126 \<or> c = byte CHR ''<'' \<or> c = byte CHR ''>''")
    case True
    show ?thesis by (rule unicode) (use None True in \<open>simp add: json_escape_def byte_chars byte_def\<close>)
  next
    case False
    show ?thesis
      by (rule plain) (use None False in \<open>auto simp: json_escape_def JsonSingleEscapeChar_def split: if_splits\<close>)
  qed
next
  case (Some s)
  hence s: "json_escape c = s" by (simp add: json_escape_def)
  have b: "byte (CHR 0x5C) = 0x5C" "byte (CHR 0x22) = 0x22" by (simp_all add: byte_def)
  show ?thesis
    by (rule single [of "byte (s ! 1)"])
      (use Some in \<open>auto simp: s JsonSingleEscapeChar_def simple_escape_def unescaped_def byte_chars b split: if_splits\<close>)
qed

definition escaped :: "nat list \<Rightarrow> nat list" where
  "escaped us = map byte (concat (map json_escape us))"

lemma escaped_simps [simp]: "escaped [] = []" "escaped (u # us) = map byte (json_escape u) @ escaped us"
  by (simp_all add: escaped_def)

lemma scan_escaped:
  "list_all (\<lambda>u. u < 2 ^ 16) us \<Longrightarrow> scan_string (escaped us @ 0x22 # rest) len = Scanned (len + length (escaped us) + 1)"
proof (induction us arbitrary: len)
  case (Cons u us)
  have u: "u < 2 ^ 16" "list_all (\<lambda>u. u < 2 ^ 16) us" using Cons.prems by simp_all
  from u(1) show ?case
  proof (cases rule: json_escape_cases)
    case unicode
    have "ReadHexDigits (map byte (hex4 u) @ escaped us @ 0x22 # rest) 4"
      using hex4_value [OF u(1)] by (simp add: ReadHexDigits_def)
    thus ?thesis using unicode Cons.IH [OF u(2)] hex4_value(2) [OF u(1)] by (simp add: byte_chars)
  next
    case single
    thus ?thesis using Cons.IH [OF u(2)] by (simp add: byte_chars)
  next
    case plain
    thus ?thesis using Cons.IH [OF u(2)] by simp
  qed
qed simp

lemma decode_escaped: "list_all (\<lambda>u. u < 2 ^ 16) us \<Longrightarrow> decode_chars (escaped us) = Some us"
proof (induction us)
  case (Cons u us)
  have u: "u < 2 ^ 16" "list_all (\<lambda>u. u < 2 ^ 16) us" using Cons.prems by simp_all
  from u(1) show ?case
  proof (cases rule: json_escape_cases)
    case unicode
    obtain a b c d where h: "hex4 u = [a, b, c, d]" by (simp add: hex4_def)
    show ?thesis using unicode Cons.IH [OF u(2)] hex4_value(3) [OF u(1)] h by (simp add: byte_chars)
  next
    case single
    thus ?thesis using Cons.IH [OF u(2)] by (simp add: byte_chars)
  next
    case plain
    thus ?thesis using Cons.IH [OF u(2)] by simp
  qed
qed simp

lemma ParseToken_string:
  assumes "set bs \<subseteq> {32, 10}" "json_pos r = bs @ 0x22 # escaped us @ 0x22 # rest" "list_all (\<lambda>u. u < 2 ^ 16) us"
  shows "ParseToken r = (r\<lparr>json_pos := 0x22 # escaped us @ 0x22 # rest\<rparr>, simple_token STRING (length (escaped us) + 2))"
proof -
  have "EatWhitespaceAndComments (json_pos r) = 0x22 # escaped us @ 0x22 # rest"
    unfolding assms(2) EatWhitespace_blanks [OF assms(1)] by (rule EatWhitespace_stop) simp
  thus ?thesis using scan_escaped [OF assms(3), of rest 1]
    by (simp add: ParseToken_def ParseStringToken_def single_token_def word_token_def wide_digit_def byte_chars simple_token_def)
qed







subsection \<open>Numbers\<close>












subsubsection \<open>Whole numbers\<close>








subsubsection \<open>Doubles\<close>


lemma ascii_utf8: "list_all (\<lambda>c. byte c < 128) t \<Longrightarrow> utf8_text (map byte t) = t"
  by (induction t) (auto simp: utf8_text_def WriteUnicodeCharacter8_def)

lemma ascii_wide:
  assumes "list_all (\<lambda>c. byte c < 128) t"
  shows "WideToUTF8 (map byte t) = t" "UTF8ToWide t = map byte t"
proof -
  have "list_all IsValidCodepoint (map byte t)" using assms by (auto simp: list_all_iff IsValidCodepoint_def)
  from conversions(1,4) [OF this] ascii_utf8 [OF assms] show "WideToUTF8 (map byte t) = t" "UTF8ToWide t = map byte t" by simp_all
qed





section \<open>Values\<close>



abbreviation jtext :: "'d double_ops \<Rightarrow> bool \<Rightarrow> 'd Value \<Rightarrow> nat \<Rightarrow> nat list" where
  "jtext ops pretty v depth \<equiv> map byte (BuildJSONString ops pretty v depth True)"



subsection \<open>Lists\<close>


lemma separators: "single_token 44 = Some LIST_SEPARATOR" "single_token 93 = Some ARRAY_END" "single_token 125 = Some OBJECT_END"
    "single_token 58 = Some OBJECT_PAIR_SEPARATOR" "single_token 91 = Some ARRAY_BEGIN" "single_token 123 = Some OBJECT_BEGIN"
  by (simp_all add: single_token_def byte_chars)










declare json_items.simps(2) [simp del]


lemma finish_simple: "finish_value r (simple_token k n) v =
    (r\<lparr>json_pos := drop n (json_pos r), stack_depth := stack_depth r - 1\<rparr>, Some v)"
  by (simp add: finish_value_def advance_def simple_token_def)





subsection \<open>Objects\<close>













section \<open>Texts\<close>

text \<open>The text of a value is ASCII.\<close>

definition ascii :: "string \<Rightarrow> bool" where
  "ascii s \<longleftrightarrow> list_all (\<lambda>c. 0 < byte c \<and> byte c < 128) s"

lemma ascii_append [simp]: "ascii (s @ t) \<longleftrightarrow> ascii s \<and> ascii t" "ascii []"
  "ascii (c # s) \<longleftrightarrow> (0 < byte c \<and> byte c < 128) \<and> ascii s"
  by (auto simp: ascii_def)

lemma hex_char_ascii: "d < 16 \<Longrightarrow> 0 < byte (hex_char d) \<and> byte (hex_char d) < 128"
  using hex_char_value [of d] by (auto simp: wide_hex_digit_def)

lemma json_escape_ascii: "c < 2 ^ 16 \<Longrightarrow> ascii (json_escape c)"
proof -
  assume c: "c < 2 ^ 16"
  have "ascii (hex4 c)" using c by (simp add: hex4_def hex_char_ascii)
  moreover have "byte (CHR 0x5C) = 92" "byte (CHR 0x22) = 34" by (simp_all add: byte_def)
  ultimately show ?thesis
    by (auto simp: json_escape_def JsonSingleEscapeChar_def byte_chars split: option.split)
qed



lemma layout_ascii [simp]: "ascii kPrettyPrintLineEnding" "ascii (IndentLine depth)"
  "ascii (if b then s else t) \<longleftrightarrow> (if b then ascii s else ascii t)"
  by (simp_all add: kPrettyPrintLineEnding_def IndentLine_def ascii_def list_all_iff byte_def)

lemma punctuation_ascii: "ascii ''['' \<and> ascii '']'' \<and> ascii ''{'' \<and> ascii ''}'' \<and> ascii '','' \<and> ascii '':'' \<and> ascii '' '' \<and>
    ascii '': '' \<and> ascii ''null'' \<and> ascii ''true'' \<and> ascii ''false''"
  by (simp add: byte_def)




lemma ascii_is_UTF8:
  assumes "ascii s"
  shows "IsStringUTF8 s"
  using assms
proof (induction s)
  case (Cons c s)
  hence c: "byte c < 128" by simp
  have "IsValidCharacter (byte c)" using c by (simp add: IsValidCharacter_def)
  thus ?case using c Cons by (simp add: CBU8_NEXT_def)
qed simp

abbreviation at_start :: "string \<Rightarrow> bool \<Rightarrow> reader" where
  "at_start s allow_trailing \<equiv> new_JSONReader\<lparr>start_pos := map byte s, json_pos := map byte s,
     allow_trailing_comma := allow_trailing, stack_depth := 0, error_code := JSON_NO_ERROR\<rparr>"

lemma read_ascii:
  assumes "ascii s" "build ops (Build_value True) (at_start s allow_trailing) = Some ((at_start s allow_trailing)\<lparr>json_pos := blank\<rparr>, Some v)"
    "set blank \<subseteq> {32, 10}"
  shows "JSONReader_Read ops s allow_trailing = Some (Some v)"
proof -
  have all: "takeWhile (\<lambda>c. c \<noteq> CHR 0x00) s = s"
    unfolding takeWhile_eq_all_conv using assms(1) by (auto simp: ascii_def list_all_iff byte_def)
  have utf8: "IsStringUTF8 (takeWhile (\<lambda>c. c \<noteq> CHR 0x00) s)" unfolding all by (rule ascii_is_UTF8 [OF assms(1)])
  have wide: "UTF8ToWide s = map byte s" using assms(1) by (intro ascii_wide(2)) (simp add: ascii_def list_all_iff)
  have bom: "peek (map byte s) 0 \<noteq> 0xFEFF" using assms(1) by (cases s) auto
  have "check_rest ((at_start s allow_trailing)\<lparr>json_pos := blank\<rparr>, Some v) = ((at_start s allow_trailing)\<lparr>json_pos := []\<rparr>, Some v)"
    using ParseToken_at_end [of "(at_start s allow_trailing)\<lparr>json_pos := blank\<rparr>"] assms(3)
    by (simp add: check_rest_def simple_token_def)
  hence "JsonToValue ops s True allow_trailing new_JSONReader = Some ((at_start s allow_trailing)\<lparr>json_pos := []\<rparr>, Some v)"
    using utf8 bom assms(2) by (simp add: JsonToValue_def wide BuildValue_def Let_def)
  thus ?thesis by (simp add: JSONReader_Read_def ReadAndReturnError_def)
qed

lemma Write_ascii:
  assumes "ascii (BuildJSONString ops pretty v 0 True)"
  shows "ascii (JSONWriter_Write ops v pretty)" "map byte (JSONWriter_Write ops v pretty) = jtext ops pretty v 0 @ (if pretty then [10] else [])"
  using assms by (simp_all add: JSONWriter_Write_def WriteWithOptionalEscape_def) (simp add: kPrettyPrintLineEnding_def byte_def)


definition text_ops :: "string double_ops" where
  "text_ops = \<lparr> DoubleToString = id, StringToDouble = Some, IsFinite = (\<lambda>_. True) \<rparr>"






text \<open>A character beyond \<open>2 ^ 16\<close> is written as the escapes of its two surrogates.\<close>

lemma beyond_units:
  assumes "0x10000 \<le> p" "p \<le> 0x10FFFF"
  obtains hi lo where "UTF8ToUTF16 (utf8_text [p]) = [hi, lo]" "hi < 2 ^ 16" "lo < 2 ^ 16"
    "UTF16ToUTF8 (WideToUTF16 [hi, lo]) = utf8_text [0xFFFD, 0xFFFD]"
proof
  let ?hi = "p div 1024 + 0xd7c0" and ?lo = "p mod 1024 + 0xdc00"
  have lt: "p mod 1024 < 1024" by simp
  have "list_all IsValidCodepoint [p]" using assms by (simp add: IsValidCodepoint_def)
  moreover have "utf16_text [p] = [?hi, ?lo]"
    using assms by (simp add: utf16_text_def WriteUnicodeCharacter16_def drop_bit_eq_div and_mods or_lead(5) [OF lt])
  ultimately show "UTF8ToUTF16 (utf8_text [p]) = [?hi, ?lo]" using conversions(2) by metis
  have hi: "0xd800 \<le> ?hi" "?hi \<le> 0xdbff" using assms by auto
  thus "?hi < 2 ^ 16" by simp
  show "?lo < 2 ^ 16" using lt by simp
  have "valid_codepoint ?hi = None" "valid_codepoint ?lo = None" using hi lt by (simp_all add: valid_codepoint_def IsValidCodepoint_def)
  hence "WideToUTF16 [?hi, ?lo] = utf16_text [0xFFFD, 0xFFFD]"
    by (simp add: WideToUTF16_def ReadUnicodeCharacterW_def utf16_text_def)
  moreover have "list_all IsValidCodepoint [0xFFFD, 0xFFFD]" by (simp add: IsValidCodepoint_def)
  ultimately show "UTF16ToUTF8 (WideToUTF16 [?hi, ?lo]) = utf8_text [0xFFFD, 0xFFFD]" using conversions(3) by metis
qed

lemma build_string:
  assumes "list_all (\<lambda>u. u < 2 ^ 16) us" "set bs \<subseteq> {32, 10}" "json_pos r = bs @ 0x22 # escaped us @ 0x22 # rest" "stack_depth r < kStackLimit"
  shows "build ops (Build_value False) r = Some (r\<lparr>json_pos := rest\<rparr>, Some (StringValue (UTF16ToUTF8 (WideToUTF16 us))))"
proof -
  let ?r = "r\<lparr>stack_depth := stack_depth r + 1, json_pos := 0x22 # escaped us @ 0x22 # rest\<rparr>"
  let ?t = "simple_token STRING (length (escaped us) + 2)"
  have 1: "ParseToken (r\<lparr>stack_depth := stack_depth r + 1\<rparr>) = (?r, ?t)"
    using ParseToken_string [OF assms(2) _ assms(1), of "r\<lparr>stack_depth := stack_depth r + 1\<rparr>" rest] assms(3) by simp
  have "token_text ?r ?t = 0x22 # escaped us @ [0x22]" by (simp add: token_text_def simple_token_def)
  hence "simple_value ops ?r ?t = Some (StringValue (UTF16ToUTF8 (WideToUTF16 us)))"
    using decode_escaped [OF assms(1)] by (simp add: simple_value_def DecodeString_def simple_token_def)
  from build_simple [OF 1 assms(4) this] show ?thesis by (simp add: finish_simple)
qed

text \<open>C5. A character beyond \<open>2 ^ 16\<close> does not survive: the writer escapes its two surrogates, and the reader
  turns each into the replacement character.\<close>

theorem JSON_loses_characters_beyond_16_bits:
  assumes "0x10000 \<le> p" "p \<le> 0x10FFFF"
  shows "JSONReader_Read ops (JSONWriter_Write ops (ListValue [StringValue (utf8_text [p])]) False) allow_trailing =
    Some (Some (ListValue [StringValue (utf8_text [0xFFFD, 0xFFFD])]))"
proof (rule read_ascii)
  let ?v = "ListValue [StringValue (utf8_text [p])] :: 'a Value"
  let ?s = "JSONWriter_Write ops ?v False"
  obtain hi lo where u: "UTF8ToUTF16 (utf8_text [p]) = [hi, lo]" "hi < 2 ^ 16" "lo < 2 ^ 16"
    "UTF16ToUTF8 (WideToUTF16 [hi, lo]) = utf8_text [0xFFFD, 0xFFFD]" by (rule beyond_units [OF assms])
  let ?us = "[hi, lo]"
  have q: "byte (CHR 0x22) = 34" by (simp add: byte_def)
  have "ascii (BuildJSONString ops False ?v 0 True)"
    using u json_escape_ascii [of hi] json_escape_ascii [of lo] punctuation_ascii q
    by (simp add: json_items.simps(2) JsonDoubleQuote_def)
  hence w: "ascii ?s" "map byte ?s = jtext ops False ?v 0" using Write_ascii [of ops False ?v] by simp_all
  thus "ascii ?s" by simp
  let ?r = "at_start ?s allow_trailing"
  let ?rest = "0x22 # escaped ?us @ 0x22 # 93 # []"
  let ?d = "?r\<lparr>stack_depth := 1\<rparr>"
  have "jtext ops False ?v 0 = 91 # ?rest"
    by (simp add: u(1) json_items.simps(2) JsonDoubleQuote_def escaped_def byte_chars) (simp add: byte_def)
  hence pos: "json_pos ?r = 91 # ?rest" using w(2) by simp
  have 1: "ParseToken (?r\<lparr>stack_depth := stack_depth ?r + 1\<rparr>) = (?d, simple_token ARRAY_BEGIN 1)"
    using ParseToken_single [of "[]" ?d 91 ?rest ARRAY_BEGIN] pos separators(5) by simp
  let ?d1 = "?d\<lparr>json_pos := ?rest\<rparr>"
  let ?t1 = "simple_token STRING (length (escaped ?us) + 2)"
  have "ParseToken ?d1 = (?d1, ?t1)" using ParseToken_string [of "[]" ?d1 ?us "[93]"] u(2,3) by simp
  hence 2: "ParseToken (advance (token_length (simple_token ARRAY_BEGIN 1)) ?d) = (?d1, ?t1)"
    using pos by (simp add: advance_def simple_token_def)
  have "build ops (Build_value True) ?r = build ops (Array_loop ?t1 []) ?d1"
    by (rule build_begin(1) [OF 1 _ 2]) (simp_all add: kStackLimit_def simple_token_def)
  also have "\<dots> = Some (finish_value (?d1\<lparr>json_pos := [93]\<rparr>) (simple_token ARRAY_END 1) (ListValue ([] @ [StringValue (utf8_text [0xFFFD, 0xFFFD])])))"
  proof (rule array_loop_step(2))
    show "build ops (Build_value False) ?d1 = Some (?d1\<lparr>json_pos := [93]\<rparr>, Some (StringValue (utf8_text [0xFFFD, 0xFFFD])))"
      using build_string [of ?us "[]" ?d1 "[93]" ops] u by (simp add: kStackLimit_def)
    show "after_value ARRAY_END (?d1\<lparr>json_pos := [93]\<rparr>) = (?d1\<lparr>json_pos := [93]\<rparr>, End_of (simple_token ARRAY_END 1))"
      using after_value_end [of "[]" "?d1\<lparr>json_pos := [93]\<rparr>" 93 "[]" ARRAY_END] separators(2) by simp
  qed (simp add: simple_token_def)
  finally show "build ops (Build_value True) ?r = Some (?r\<lparr>json_pos := []\<rparr>, Some (ListValue [StringValue (utf8_text [0xFFFD, 0xFFFD])]))"
    by (simp add: finish_simple)
qed simp

theorem JSON_loses_characters_beyond_16_bits_witness:
  "JSONReader_Read text_ops (JSONWriter_Write text_ops (ListValue [StringValue (utf8_text [0x1F600])]) False) True =
    Some (Some (ListValue [StringValue (utf8_text [0xFFFD, 0xFFFD])]))"
  by (rule JSON_loses_characters_beyond_16_bits) simp_all

end
