(* ===== verification/CookieParser.thy ===== *)
theory CookieParser
  imports AsciiText NumberStrings
begin

text \<open>
  The cookie line parser of \<open>src/net/base/cookie_monster.cc\<close>: \<open>CookieMonster::ParsedCookie\<close>
  (declared in \<open>cookie_monster.h\<close>), \<open>CookieMonster::ParseCookieTime\<close> and the tokenizer of
  \<open>src/base/string_tokenizer.h\<close> it uses. A \<open>std::string::const_iterator\<close> is a position in the
  string it walks over; the end iterator is the position one past the last character.
\<close>

subsection \<open>Scanning\<close>

definition kMaxCookieSize :: nat where "kMaxCookieSize = 4096"
definition kMaxPairs :: nat where "kMaxPairs = 16"

definition kTerminator :: string where "kTerminator = [CHR 0x0A, CHR 0x0D, CHR 0x00]"
definition kWhitespace :: string where "kWhitespace = [CHR '' '', CHR 0x09]"
definition kValueSeparator :: string where "kValueSeparator = '';''"
definition kTokenSeparator :: string where "kTokenSeparator = '';=''"

text \<open>\<open>strchr\<close> also finds the zero that ends the C string \<open>chars\<close>.\<close>

definition CharIsA :: "char \<Rightarrow> string \<Rightarrow> bool" where
  "CharIsA c chars \<longleftrightarrow> c \<in> set chars \<or> c = CHR 0x00"

text \<open>Each of the three loops returns where the iterator stops; the \<open>bool\<close> the source returns is
  whether that is the end. The iterators they get are not beyond the end.\<close>

function SeekTo :: "string \<Rightarrow> nat \<Rightarrow> nat \<Rightarrow> string \<Rightarrow> nat" where
  "SeekTo s it e chars =
    (if it < e \<and> \<not> CharIsA (s ! it) chars then SeekTo s (it + 1) e chars else it)"
  by pat_completeness auto
termination by (relation "measure (\<lambda>(s, it, e, chars). e - it)") auto

function SeekPast :: "string \<Rightarrow> nat \<Rightarrow> nat \<Rightarrow> string \<Rightarrow> nat" where
  "SeekPast s it e chars =
    (if it < e \<and> CharIsA (s ! it) chars then SeekPast s (it + 1) e chars else it)"
  by pat_completeness auto
termination by (relation "measure (\<lambda>(s, it, e, chars). e - it)") auto

function SeekBackPast :: "string \<Rightarrow> nat \<Rightarrow> nat \<Rightarrow> string \<Rightarrow> nat" where
  "SeekBackPast s it e chars =
    (if e < it \<and> CharIsA (s ! it) chars then SeekBackPast s (it - 1) e chars else it)"
  by pat_completeness auto
termination by (relation "measure (\<lambda>(s, it, e, chars). it)") auto

declare SeekTo.simps [simp del] SeekPast.simps [simp del] SeekBackPast.simps [simp del]

text \<open>The characters of \<open>s\<close> from an iterator to another: \<open>std::string(first, last)\<close>.\<close>

definition segment :: "string \<Rightarrow> nat \<Rightarrow> nat \<Rightarrow> string" where
  "segment s i j = take (j - i) (drop i s)"

definition FindFirstTerminator :: "string \<Rightarrow> nat" where
  "FindFirstTerminator s = length (takeWhile (\<lambda>c. c \<notin> set kTerminator) s)"

text \<open>What \<open>ParseToken\<close> returns: the iterator moved on, the start and the end of the token;
  \<open>None\<close> where it returns false.\<close>

definition ParseToken :: "string \<Rightarrow> nat \<Rightarrow> nat \<Rightarrow> (nat \<times> nat \<times> nat) option" where
  "ParseToken s it e =
    (let it = SeekPast s it e kWhitespace in
     if it = e then None
     else let token_start = it;
              it = SeekTo s it e kTokenSeparator;
              token_real_end = it;
              token_end = (if it \<noteq> token_start
                then SeekBackPast s (it - 1) token_start kWhitespace + 1 else it)
          in Some (token_real_end, token_start, token_end))"

definition ParseValue :: "string \<Rightarrow> nat \<Rightarrow> nat \<Rightarrow> nat \<times> nat \<times> nat" where
  "ParseValue s it e =
    (let it = SeekPast s it e kWhitespace;
         value_start = it;
         it = SeekTo s it e kValueSeparator;
         value_end = (if it \<noteq> value_start
           then SeekBackPast s (it - 1) value_start kWhitespace + 1 else it)
     in (it, value_start, value_end))"

definition ParseTokenString :: "string \<Rightarrow> string" where
  "ParseTokenString token =
    (case ParseToken token 0 (FindFirstTerminator token) of
       Some (it, token_start, token_end) \<Rightarrow> segment token token_start token_end
     | None \<Rightarrow> [])"

definition ParseValueString :: "string \<Rightarrow> string" where
  "ParseValueString v =
    (case ParseValue v 0 (FindFirstTerminator v) of
       (it, value_start, value_end) \<Rightarrow> segment v value_start value_end)"

subsection \<open>A cookie line\<close>

type_synonym TokenValuePair = "string \<times> string"

text \<open>One round of the loop of \<open>ParseTokenValuePairs\<close>: the pair and where the next round
  starts, \<open>None\<close> where the loop is left. The first part of the pair is settled by \<open>pair_name\<close>:
  the name, and where its value is looked for.\<close>

definition pair_name :: "string \<Rightarrow> nat \<Rightarrow> nat \<Rightarrow> nat \<Rightarrow> nat \<Rightarrow> nat \<Rightarrow> string \<times> nat" where
  "pair_name s pair_num it e token_start token_end =
    (if it = e \<or> s ! it \<noteq> CHR ''=''
     then if pair_num = 0 then ([], token_start) else (segment s token_start token_end, it)
     else (segment s token_start token_end, it + 1))"

definition parse_pair :: "string \<Rightarrow> nat \<Rightarrow> nat \<Rightarrow> nat \<Rightarrow> (TokenValuePair \<times> nat) option" where
  "parse_pair s pair_num it e =
    (case ParseToken s it e of None \<Rightarrow> None
     | Some (it, token_start, token_end) \<Rightarrow>
         let (name, it) = pair_name s pair_num it e token_start token_end;
             (it, value_start, value_end) = ParseValue s it e;
             v = segment s value_start value_end;
             name = (if pair_num \<noteq> 0 then map ToLowerASCII name else name)
         in Some ((name, v), if it \<noteq> e then it + 1 else it))"

fun pair_loop :: "nat \<Rightarrow> string \<Rightarrow> nat \<Rightarrow> nat \<Rightarrow> nat \<Rightarrow> TokenValuePair list" where
  "pair_loop 0 s pair_num it e = []"
| "pair_loop (Suc left) s pair_num it e =
    (if it = e then []
     else case parse_pair s pair_num it e of None \<Rightarrow> []
       | Some (p, it') \<Rightarrow> p # pair_loop left s (pair_num + 1) it' e)"

definition ParseTokenValuePairs :: "string \<Rightarrow> TokenValuePair list" where
  "ParseTokenValuePairs cookie_line =
    pair_loop kMaxPairs cookie_line 0 0 (FindFirstTerminator cookie_line)"

record parsed_cookie =
  pc_pairs :: "TokenValuePair list"
  pc_is_valid :: bool
  pc_path_index :: nat
  pc_domain_index :: nat
  pc_expires_index :: nat
  pc_maxage_index :: nat
  pc_secure_index :: nat
  pc_httponly_index :: nat

definition setup_attribute :: "nat \<Rightarrow> string \<Rightarrow> parsed_cookie \<Rightarrow> parsed_cookie" where
  "setup_attribute i name pc =
    (if name = ''path'' then pc\<lparr>pc_path_index := i\<rparr>
     else if name = ''domain'' then pc\<lparr>pc_domain_index := i\<rparr>
     else if name = ''expires'' then pc\<lparr>pc_expires_index := i\<rparr>
     else if name = ''max-age'' then pc\<lparr>pc_maxage_index := i\<rparr>
     else if name = ''secure'' then pc\<lparr>pc_secure_index := i\<rparr>
     else if name = ''httponly'' then pc\<lparr>pc_httponly_index := i\<rparr>
     else pc)"

definition SetupAttributes :: "parsed_cookie \<Rightarrow> parsed_cookie" where
  "SetupAttributes pc =
    fold (\<lambda>i. setup_attribute i (fst (pc_pairs pc ! i))) [1..<length (pc_pairs pc)] pc"

definition ParsedCookie :: "string \<Rightarrow> parsed_cookie" where
  "ParsedCookie cookie_line =
    (let pc = \<lparr> pc_pairs = [], pc_is_valid = False, pc_path_index = 0, pc_domain_index = 0,
                pc_expires_index = 0, pc_maxage_index = 0, pc_secure_index = 0, pc_httponly_index = 0 \<rparr> in
     if length cookie_line > kMaxCookieSize then pc
     else let pc = pc\<lparr>pc_pairs := ParseTokenValuePairs cookie_line\<rparr> in
       if pc_pairs pc \<noteq> [] then SetupAttributes (pc\<lparr>pc_is_valid := True\<rparr>) else pc)"

text \<open>The accessors. As the header of the class says, they are called only on a valid cookie.\<close>

definition pc_Name :: "parsed_cookie \<Rightarrow> string" where "pc_Name pc = fst (pc_pairs pc ! 0)"
definition pc_Value :: "parsed_cookie \<Rightarrow> string" where "pc_Value pc = snd (pc_pairs pc ! 0)"
definition HasPath :: "parsed_cookie \<Rightarrow> bool" where "HasPath pc \<longleftrightarrow> pc_path_index pc \<noteq> 0"
definition pc_Path :: "parsed_cookie \<Rightarrow> string" where "pc_Path pc = snd (pc_pairs pc ! pc_path_index pc)"
definition HasDomain :: "parsed_cookie \<Rightarrow> bool" where "HasDomain pc \<longleftrightarrow> pc_domain_index pc \<noteq> 0"
definition pc_Domain :: "parsed_cookie \<Rightarrow> string" where
  "pc_Domain pc = snd (pc_pairs pc ! pc_domain_index pc)"
definition HasExpires :: "parsed_cookie \<Rightarrow> bool" where "HasExpires pc \<longleftrightarrow> pc_expires_index pc \<noteq> 0"
definition Expires :: "parsed_cookie \<Rightarrow> string" where
  "Expires pc = snd (pc_pairs pc ! pc_expires_index pc)"
definition HasMaxAge :: "parsed_cookie \<Rightarrow> bool" where "HasMaxAge pc \<longleftrightarrow> pc_maxage_index pc \<noteq> 0"
definition MaxAge :: "parsed_cookie \<Rightarrow> string" where "MaxAge pc = snd (pc_pairs pc ! pc_maxage_index pc)"
definition pc_IsSecure :: "parsed_cookie \<Rightarrow> bool" where "pc_IsSecure pc \<longleftrightarrow> pc_secure_index pc \<noteq> 0"
definition pc_IsHttpOnly :: "parsed_cookie \<Rightarrow> bool" where
  "pc_IsHttpOnly pc \<longleftrightarrow> pc_httponly_index pc \<noteq> 0"

definition pair_text :: "TokenValuePair \<Rightarrow> string" where
  "pair_text p = fst p @ ''='' @ snd p @ ''; ''"

definition pc_DebugString :: "TokenValuePair list \<Rightarrow> string" where
  "pc_DebugString ps = concat (map pair_text ps)"

subsection \<open>Expiry dates\<close>

text \<open>\<open>StringTokenizer::QuickGetNext\<close>: the next token and the rest behind it, \<open>None\<close> at the
  end. The tokens of a string are all it gives.\<close>

definition QuickGetNext :: "string \<Rightarrow> string \<Rightarrow> (string \<times> string) option" where
  "QuickGetNext delims s =
    (case dropWhile (\<lambda>c. c \<in> set delims) s of [] \<Rightarrow> None
     | c # r \<Rightarrow> Some (c # takeWhile (\<lambda>c. c \<notin> set delims) r, dropWhile (\<lambda>c. c \<notin> set delims) r))"

lemma QuickGetNext_shorter: "QuickGetNext delims s = Some (t, r) \<Longrightarrow> length r < length s"
proof -
  assume "QuickGetNext delims s = Some (t, r)"
  then obtain c u where d: "dropWhile (\<lambda>c. c \<in> set delims) s = c # u"
    and r: "r = dropWhile (\<lambda>c. c \<notin> set delims) u"
    by (auto simp: QuickGetNext_def split: list.splits)
  have "length r \<le> length u" using r by (simp add: length_dropWhile_le)
  also have "\<dots> < length (dropWhile (\<lambda>c. c \<in> set delims) s)" using d by simp
  also have "\<dots> \<le> length s" by (rule length_dropWhile_le)
  finally show ?thesis .
qed

function GetNext_tokens :: "string \<Rightarrow> string \<Rightarrow> string list" where
  "GetNext_tokens delims s =
    (case QuickGetNext delims s of None \<Rightarrow> [] | Some (t, r) \<Rightarrow> t # GetNext_tokens delims r)"
  by pat_completeness auto
termination
  by (relation "measure (\<lambda>(d, s). length s)") (auto dest: QuickGetNext_shorter)

declare GetNext_tokens.simps [simp del]

text \<open>The \<open>scanf\<close> conversions the source uses, on a text given up to its terminating zero.
  \<open>%2u\<close> skips white space and reads at most two decimal digits (the tokens hold no sign:
  \<open>+\<close> and \<open>-\<close> are delimiters).\<close>

definition IsAsciiDigit :: "char \<Rightarrow> bool" where
  "IsAsciiDigit c \<longleftrightarrow> 48 \<le> (of_char c :: nat) \<and> (of_char c :: nat) \<le> 57"

definition c_isspace :: "char \<Rightarrow> bool" where
  "c_isspace c \<longleftrightarrow> (of_char c :: nat) = 32 \<or> 9 \<le> (of_char c :: nat) \<and> (of_char c :: nat) \<le> 13"

definition digits_value :: "string \<Rightarrow> int" where
  "digits_value ds = foldl (\<lambda>v c. 10 * v + (of_char c - 48)) 0 ds"

definition scan_2u :: "string \<Rightarrow> (int \<times> string) option" where
  "scan_2u s =
    (let s = dropWhile c_isspace s; ds = takeWhile IsAsciiDigit (take 2 s) in
     if ds = [] then None else Some (digits_value ds, drop (length ds) s))"

definition scan_colon :: "string \<Rightarrow> string option" where
  "scan_colon s = (case s of [] \<Rightarrow> None | c # r \<Rightarrow> if c = CHR '':'' then Some r else None)"

definition c_atoi :: "string \<Rightarrow> int" where
  "c_atoi s = digits_value (takeWhile IsAsciiDigit s)"

record exploded =
  ex_year :: int
  ex_month :: int
  ex_day_of_month :: int
  ex_hour :: int
  ex_minute :: int
  ex_second :: int

record time_scan =
  ts_exploded :: exploded
  found_day_of_month :: bool
  found_month :: bool
  found_time :: bool
  found_year :: bool

text \<open>\<open>sscanf(token, "%2u:%2u:%2u", ...)\<close>: the fields it assigns, and how many.\<close>

definition scan_time :: "string \<Rightarrow> exploded \<Rightarrow> exploded \<times> nat" where
  "scan_time token ex =
    (case scan_2u token of None \<Rightarrow> (ex, 0)
     | Some (h, r) \<Rightarrow>
        let ex = ex\<lparr>ex_hour := h\<rparr> in
        (case Option.bind (scan_colon r) scan_2u of None \<Rightarrow> (ex, 1)
         | Some (m, r) \<Rightarrow>
            let ex = ex\<lparr>ex_minute := m\<rparr> in
            (case Option.bind (scan_colon r) scan_2u of None \<Rightarrow> (ex, 2)
             | Some (sec, r) \<Rightarrow> (ex\<lparr>ex_second := sec\<rparr>, 3))))"

definition kMonths :: "string list" where
  "kMonths = [''jan'', ''feb'', ''mar'', ''apr'', ''may'', ''jun'',
              ''jul'', ''aug'', ''sep'', ''oct'', ''nov'', ''dec'']"

definition kTimeDelimiters :: string where
  "kTimeDelimiters = CHR 0x09 # '' !'' @ CHR 0x22 # ''#$%&'' @ CHR 0x27 #
     ''()*+,-./;<=>?@['' @ CHR 0x5C # '']^_'' @ CHR 0x60 # ''{|}~''"

text \<open>\<open>base::strncasecmp(token, month, 3) == 0\<close>, the month having three letters.\<close>

definition month_matches :: "string \<Rightarrow> string \<Rightarrow> bool" where
  "month_matches token month \<longleftrightarrow> map ToLowerASCII (take 3 token) = month"

definition scan_token :: "string \<Rightarrow> time_scan \<Rightarrow> time_scan" where
  "scan_token token ts =
    (if \<not> IsAsciiDigit (hd token) then
       if \<not> found_month ts then
         let i = find_from (month_matches token) kMonths 0 in
         if i \<noteq> -1
         then ts\<lparr>ts_exploded := (ts_exploded ts)\<lparr>ex_month := i + 1\<rparr>, found_month := True\<rparr>
         else ts
       else ts
     else if CHR '':'' \<in> set token then
       if \<not> found_time ts then
         let (ex, n) = scan_time token (ts_exploded ts) in
         ts\<lparr>ts_exploded := ex, found_time := (n = 3)\<rparr>
       else ts
     else
       if \<not> found_day_of_month ts \<and> length token \<le> 2
       then ts\<lparr>ts_exploded := (ts_exploded ts)\<lparr>ex_day_of_month := c_atoi token\<rparr>,
              found_day_of_month := True\<rparr>
       else if \<not> found_year ts \<and> length token \<le> 5
       then ts\<lparr>ts_exploded := (ts_exploded ts)\<lparr>ex_year := c_atoi token\<rparr>, found_year := True\<rparr>
       else ts)"

definition normalize_year :: "int \<Rightarrow> int" where
  "normalize_year y =
    (let y = (if y \<ge> 69 \<and> y \<le> 99 then y + 1900 else y) in
     if y \<ge> 0 \<and> y \<le> 68 then y + 2000 else y)"

text \<open>A \<open>base::Time\<close> is its \<open>int64\<close> number of microseconds, 0 for the null time.
  \<open>Time::FromUTCExploded\<close> is the platform's: the parameter \<open>from_exploded\<close>.\<close>

definition ParseCookieTime :: "(exploded \<Rightarrow> int) \<Rightarrow> string \<Rightarrow> int" where
  "ParseCookieTime from_exploded time_string =
    (let ts = fold scan_token (GetNext_tokens kTimeDelimiters time_string)
               \<lparr> ts_exploded = \<lparr> ex_year = 0, ex_month = 0, ex_day_of_month = 0, ex_hour = 0,
                   ex_minute = 0, ex_second = 0 \<rparr>,
                 found_day_of_month = False, found_month = False, found_time = False,
                 found_year = False \<rparr> in
     if \<not> found_day_of_month ts \<or> \<not> found_month ts \<or> \<not> found_time ts \<or> \<not> found_year ts then 0
     else let ex = (ts_exploded ts)\<lparr>ex_year := normalize_year (ex_year (ts_exploded ts))\<rparr> in
       if ex_day_of_month ex \<ge> 1 \<and> ex_day_of_month ex \<le> 31 \<and>
          ex_month ex \<ge> 1 \<and> ex_month ex \<le> 12 \<and>
          ex_year ex \<ge> 1601 \<and> ex_year ex \<le> 30827 \<and>
          ex_hour ex \<le> 23 \<and> ex_minute ex \<le> 59 \<and> ex_second ex \<le> 59
       then from_exploded ex else 0)"

text \<open>\<open>sscanf(s, " %llu", &max_age) == 1\<close>: white space, an optional sign, digits. As the C
  library documents for \<open>strtoull\<close>, a minus sign negates modulo $2^{64}$ and a number too large
  gives the largest one.\<close>

definition scan_u64 :: "string \<Rightarrow> int option" where
  "scan_u64 s =
    (let s = dropWhile c_isspace s;
         neg = (s \<noteq> [] \<and> hd s = CHR ''-'');
         s = (if s \<noteq> [] \<and> (hd s = CHR ''-'' \<or> hd s = CHR ''+'') then tl s else s);
         ds = takeWhile IsAsciiDigit s;
         v = digits_value ds
     in if ds = [] then None
        else Some (if v > 2 ^ 64 - 1 then 2 ^ 64 - 1 else if neg then (- v) mod 2 ^ 64 else v))"

end
