(* ===== verification/RegistryDomain.thy ===== *)
theory RegistryDomain
  imports AsciiText
begin

text \<open>
  Registered domains, \<open>src/net/base/registry_controlled_domain.cc\<close>: where in a host name the public
  registry ("com", "co.uk") ends and the domain somebody registered begins. Outside are the URL
  library (\<open>GURL\<close>, \<open>CanonicalizeHost\<close>) and the rule table: the source calls it through the pointer
  \<open>find_domain_function_\<close>, by default the generated hash of \<open>effective_tld_names.cc\<close>.
\<close>

text \<open>What the network code reads of a \<open>GURL\<close>.\<close>

record web_url =
  u_scheme :: string
  u_host :: string
  u_path :: string
  u_spec :: string
  u_HostIsIPAddress :: bool

record host_lib =
  CanonicalizeHost :: "string \<Rightarrow> string \<times> bool"
  find_domain_function :: "string \<Rightarrow> (string \<times> nat) option"

definition kExceptionRule :: nat where "kExceptionRule = 1"
definition kWildcardRule :: nat where "kWildcardRule = 2"

text \<open>\<open>std::string::find\<close> and \<open>rfind\<close> of a character, \<open>None\<close> for \<open>npos\<close>.\<close>

definition str_find :: "string \<Rightarrow> char \<Rightarrow> nat \<Rightarrow> nat option" where
  "str_find s c i =
    (let n = i + length (takeWhile (\<lambda>x. x \<noteq> c) (drop i s)) in
     if n < length s then Some n else None)"

definition str_rfind :: "string \<Rightarrow> char \<Rightarrow> nat \<Rightarrow> nat option" where
  "str_rfind s c i =
    (let front = take (i + 1) s; n = length (dropWhile (\<lambda>x. x \<noteq> c) (rev front)) in
     if n = 0 then None else Some (n - 1))"

lemma str_find_ge: "str_find s c i = Some j \<Longrightarrow> i \<le> j \<and> j < length s"
  by (auto simp: str_find_def Let_def split: if_splits)

text \<open>The rule for the domain that starts at \<open>curr_start\<close>; \<open>base::strncasecmp\<close> over its length
  compares it with the rule's name, whose end would be an unequal zero.\<close>

definition rule_at :: "host_lib \<Rightarrow> string \<Rightarrow> nat \<Rightarrow> nat \<Rightarrow> nat option" where
  "rule_at lib host curr_start host_check_len =
    (let domain_length = host_check_len - curr_start;
         domain_str = take domain_length (drop curr_start host) in
     case find_domain_function lib domain_str of None \<Rightarrow> None
     | Some (name, rule_type) \<Rightarrow>
         if map ToLowerASCII domain_str = map ToLowerASCII (take domain_length name)
         then Some rule_type else None)"

text \<open>The loop over the domain tree, most specific first; \<open>prev_start\<close> is \<open>None\<close> for \<open>npos\<close>.\<close>

function registry_walk ::
  "host_lib \<Rightarrow> string \<Rightarrow> nat \<Rightarrow> nat \<Rightarrow> bool \<Rightarrow> nat option \<Rightarrow> nat \<Rightarrow> nat" where
  "registry_walk lib host host_check_begin host_check_len allow_unknown prev_start curr_start =
    (let next_dot = str_find host CHR ''.'' curr_start in
     case rule_at lib host curr_start host_check_len of
       Some rule_type \<Rightarrow>
         if rule_type = kWildcardRule \<and> prev_start \<noteq> None
         then (if the prev_start = host_check_begin then 0 else length host - the prev_start)
         else if rule_type = kExceptionRule
         then (case next_dot of None \<Rightarrow> 0 | Some d \<Rightarrow> length host - d - 1)
         else if curr_start = host_check_begin then 0 else length host - curr_start
     | None \<Rightarrow>
         (case next_dot of
            None \<Rightarrow> if allow_unknown then length host - curr_start else 0
          | Some d \<Rightarrow>
              if d \<ge> host_check_len then (if allow_unknown then length host - curr_start else 0)
              else registry_walk lib host host_check_begin host_check_len allow_unknown
                     (Some curr_start) (d + 1)))"
  by pat_completeness auto
termination
  by (relation "measure (\<lambda>(lib, host, b, n, a, prev, curr). n - curr)") (auto dest!: str_find_ge [OF sym])

declare registry_walk.simps [simp del]

definition GetRegistryLengthImpl :: "host_lib \<Rightarrow> string \<Rightarrow> bool \<Rightarrow> nat" where
  "GetRegistryLengthImpl lib host allow_unknown =
    (let host_check_begin = length (takeWhile (\<lambda>c. c = CHR ''.'') host) in
     if host_check_begin = length host then 0
     else
       let trailing = (host ! (length host - 1) = CHR ''.'');
           host_check_len = (if trailing then length host - 1 else length host) in
       if trailing \<and> host ! (host_check_len - 1) = CHR ''.'' then 0
       else case str_find host CHR ''.'' host_check_begin of None \<Rightarrow> 0
         | Some next_dot \<Rightarrow>
             if next_dot \<ge> host_check_len then 0
             else registry_walk lib host host_check_begin host_check_len allow_unknown
                    None host_check_begin)"

definition GetDomainAndRegistryImpl :: "host_lib \<Rightarrow> string \<Rightarrow> string" where
  "GetDomainAndRegistryImpl lib host =
    (let registry_length = GetRegistryLengthImpl lib host True in
     if registry_length = 0 then []
     else if registry_length > length host - 2 then []
     else case str_rfind host CHR ''.'' (length host - registry_length - 2) of
         None \<Rightarrow> host
       | Some dot \<Rightarrow> drop (dot + 1) host)"

definition GetDomainAndRegistry :: "host_lib \<Rightarrow> string \<Rightarrow> string" where
  "GetDomainAndRegistry lib host =
    (let (canon_host, is_ip) = CanonicalizeHost lib host in
     if canon_host = [] \<or> is_ip then [] else GetDomainAndRegistryImpl lib canon_host)"

definition url_GetDomainAndRegistry :: "host_lib \<Rightarrow> web_url \<Rightarrow> string" where
  "url_GetDomainAndRegistry lib u =
    (if u_host u = [] \<or> u_HostIsIPAddress u then [] else GetDomainAndRegistryImpl lib (u_host u))"

definition SameDomainOrHost :: "host_lib \<Rightarrow> web_url \<Rightarrow> web_url \<Rightarrow> bool" where
  "SameDomainOrHost lib u1 u2 =
    (let domain1 = url_GetDomainAndRegistry lib u1;
         domain2 = url_GetDomainAndRegistry lib u2 in
     if domain1 \<noteq> [] \<or> domain2 \<noteq> [] then domain1 = domain2
     else if u_host u1 = [] \<or> length (u_host u1) \<noteq> length (u_host u2) then False
     else u_host u1 = u_host u2)"

text \<open>\<open>npos\<close> is \<open>None\<close>.\<close>

definition GetRegistryLength :: "host_lib \<Rightarrow> string \<Rightarrow> bool \<Rightarrow> nat option" where
  "GetRegistryLength lib host allow_unknown =
    (let (canon_host, is_ip) = CanonicalizeHost lib host in
     if canon_host = [] then None else if is_ip then Some 0
     else Some (GetRegistryLengthImpl lib canon_host allow_unknown))"

definition url_GetRegistryLength :: "host_lib \<Rightarrow> web_url \<Rightarrow> bool \<Rightarrow> nat option" where
  "url_GetRegistryLength lib u allow_unknown =
    (if u_host u = [] then None else if u_HostIsIPAddress u then Some 0
     else Some (GetRegistryLengthImpl lib (u_host u) allow_unknown))"

end
