(* ===== verification/CookieStore.thy ===== *)
theory CookieStore
  imports CookieParser RegistryDomain "HOL-Library.Char_ord" "HOL-Library.List_Lexorder"
begin

text \<open>
  The cookie store, \<open>net::CookieMonster\<close> (\<open>src/net/base/cookie_monster.cc\<close> and \<open>.h\<close>), with the
  helpers of \<open>CookieStore\<close> and \<open>CookieOptions\<close>. A \<open>base::Time\<close> is its number of microseconds, 0 when
  null. Outside are the URL library, the exploded time, the clock (each operation reads it one or
  more times: \<open>cm_ticks\<close> counts the readings) and what the backing store loads. Calls to the backing
  store and to the delegate are recorded in \<open>cm_trace\<close>. Histograms and logs are left out.
\<close>

record canonical_cookie =
  c_source :: string
  c_name :: string
  c_value :: string
  c_domain :: string
  c_path :: string
  c_creation :: int
  c_expiry :: int
  c_last_access :: int
  c_secure :: bool
  c_httponly :: bool
  c_has_expires :: bool

datatype DeletionCause =
    DELETE_COOKIE_EXPLICIT | DELETE_COOKIE_OVERWRITE | DELETE_COOKIE_EXPIRED | DELETE_COOKIE_EVICTED
  | DELETE_COOKIE_DUPLICATE_IN_BACKING_STORE | DELETE_COOKIE_DONT_RECORD
  | DELETE_COOKIE_EVICTED_DOMAIN | DELETE_COOKIE_EVICTED_GLOBAL
  | DELETE_COOKIE_EVICTED_DOMAIN_PRE_SAFE | DELETE_COOKIE_EVICTED_DOMAIN_POST_SAFE
  | DELETE_COOKIE_EXPIRED_OVERWRITE | DELETE_COOKIE_LAST_ENTRY

datatype ChangeCause =
    CHANGE_COOKIE_EXPLICIT | CHANGE_COOKIE_OVERWRITE | CHANGE_COOKIE_EXPIRED
  | CHANGE_COOKIE_EVICTED | CHANGE_COOKIE_EXPIRED_OVERWRITE

datatype cookie_event =
    Store_AddCookie canonical_cookie
  | Store_UpdateCookieAccessTime canonical_cookie
  | Store_DeleteCookie canonical_cookie
  | Store_SetClearLocalStateOnExit bool
  | Store_Flush
  | PostTask_completion
  | OnCookieChanged canonical_cookie bool ChangeCause

datatype ExpiryAndKeyScheme = EKS_KEEP_RECENT_AND_PURGE_ETLDP1 | EKS_DISCARD_RECENT_AND_PURGE_DOMAIN

record cookie_options =
  exclude_httponly :: bool
  force_session :: bool

definition CookieOptions :: cookie_options where
  "CookieOptions = \<lparr> exclude_httponly = True, force_session = False \<rparr>"

definition options_include_httponly :: cookie_options where
  "options_include_httponly = CookieOptions\<lparr>exclude_httponly := False\<rparr>"

text \<open>What the store asks of the code outside.\<close>

record cookie_env =
  hosts :: host_lib
  canonicalize_path :: "string \<Rightarrow> string"
  from_exploded :: "exploded \<Rightarrow> int"
  origin_without_port :: "bool \<Rightarrow> web_url \<Rightarrow> string"
  clock :: "nat \<Rightarrow> int"
  store_Load :: "canonical_cookie list"

text \<open>An item of the multimap \<open>cookies_\<close>: key, pointer and the cookie it points to. The map is the list
  of its items in the order of the keys, equal keys in the order they were inserted.\<close>

record cookie_item =
  ck_key :: string
  ck_ptr :: nat
  ck_cookie :: canonical_cookie

record cookie_monster =
  cm_cookies :: "cookie_item list"
  cm_initialized :: bool
  key_scheme :: ExpiryAndKeyScheme
  has_store :: bool
  last_time_seen :: int
  last_access_threshold :: int
  earliest_access_time :: int
  cookieable_schemes :: "string list"
  has_delegate :: bool
  keep_expired_cookies :: bool
  cm_next :: nat
  cm_ticks :: nat
  cm_trace :: "cookie_event list"

definition kDomainMaxCookies :: nat where "kDomainMaxCookies = 180"
definition kDomainPurgeCookies :: nat where "kDomainPurgeCookies = 30"
definition kMaxCookies :: nat where "kMaxCookies = 3300"
definition kPurgeCookies :: nat where "kPurgeCookies = 300"

definition FromDays :: "int \<Rightarrow> int" where "FromDays d = d * (24 * 60 * 60 * 1000000)"
definition FromMilliseconds :: "int \<Rightarrow> int" where "FromMilliseconds ms = ms * 1000"
definition FromSeconds :: "int \<Rightarrow> int" where "FromSeconds secs = wrap_int 64 (wrap_int 64 secs * 1000000)"

definition kSafeFromGlobalPurge :: int where "kSafeFromGlobalPurge = FromDays 30"

subsection \<open>A cookie\<close>

definition IsPersistent :: "canonical_cookie \<Rightarrow> bool" where "IsPersistent cc = c_has_expires cc"

definition IsDomainCookie :: "canonical_cookie \<Rightarrow> bool" where
  "IsDomainCookie cc \<longleftrightarrow> c_domain cc \<noteq> [] \<and> hd (c_domain cc) = CHR ''.''"

definition IsHostCookie :: "canonical_cookie \<Rightarrow> bool" where "IsHostCookie cc = (\<not> IsDomainCookie cc)"

definition IsExpired :: "canonical_cookie \<Rightarrow> int \<Rightarrow> bool" where
  "IsExpired cc current \<longleftrightarrow> c_has_expires cc \<and> current \<ge> c_expiry cc"

definition IsEquivalent :: "canonical_cookie \<Rightarrow> canonical_cookie \<Rightarrow> bool" where
  "IsEquivalent cc ecc \<longleftrightarrow>
    c_name cc = c_name ecc \<and> c_domain cc = c_domain ecc \<and> c_path cc = c_path ecc"

text \<open>\<open>s.find(p) == 0\<close>.\<close>

definition starts_with :: "string \<Rightarrow> string \<Rightarrow> bool" where
  "starts_with s p \<longleftrightarrow> take (length p) s = p"

definition IsOnPath :: "canonical_cookie \<Rightarrow> string \<Rightarrow> bool" where
  "IsOnPath cc url_path =
    (if c_path cc = [] then False
     else if \<not> starts_with url_path (c_path cc) then False
     else if length (c_path cc) \<noteq> length url_path \<and> c_path cc ! (length (c_path cc) - 1) \<noteq> CHR ''/''
             \<and> url_path ! length (c_path cc) \<noteq> CHR ''/'' then False
     else True)"

definition IsDomainMatch :: "canonical_cookie \<Rightarrow> string \<Rightarrow> bool" where
  "IsDomainMatch cc host =
    (if host = c_domain cc then True
     else if c_domain cc = [] \<or> hd (c_domain cc) \<noteq> CHR ''.'' then False
     else if drop 1 (c_domain cc) = host then True
     else length host > length (c_domain cc) \<and>
          drop (length host - length (c_domain cc)) host = c_domain cc)"

definition DomainIsHostOnly :: "string \<Rightarrow> bool" where
  "DomainIsHostOnly d \<longleftrightarrow> d = [] \<or> hd d \<noteq> CHR ''.''"

definition SchemeIsFile :: "web_url \<Rightarrow> bool" where "SchemeIsFile u \<longleftrightarrow> u_scheme u = ''file''"
definition SchemeIsSecure :: "web_url \<Rightarrow> bool" where "SchemeIsSecure u \<longleftrightarrow> u_scheme u = ''https''"

definition GetCookieSourceFromURL :: "cookie_env \<Rightarrow> web_url \<Rightarrow> string" where
  "GetCookieSourceFromURL env u =
    (if SchemeIsFile u then u_spec u else origin_without_port env (SchemeIsSecure u) u)"

definition GetEffectiveDomain :: "cookie_env \<Rightarrow> string \<Rightarrow> string \<Rightarrow> string" where
  "GetEffectiveDomain env scheme host =
    (if scheme = ''http'' \<or> scheme = ''https'' then GetDomainAndRegistry (hosts env) host
     else if \<not> DomainIsHostOnly host then drop 1 host
     else host)"

text \<open>\<open>None\<close> where the source returns false.\<close>

definition GetCookieDomainWithString :: "cookie_env \<Rightarrow> web_url \<Rightarrow> string \<Rightarrow> string option" where
  "GetCookieDomainWithString env u domain_string =
    (if domain_string = [] \<or> u_HostIsIPAddress u \<and> u_host u = domain_string then Some (u_host u)
     else
       let cookie_domain = fst (CanonicalizeHost (hosts env) domain_string) in
       if cookie_domain = [] then None
       else
         let cookie_domain = (if hd cookie_domain \<noteq> CHR ''.'' then CHR ''.'' # cookie_domain
                              else cookie_domain);
             url_dar = GetEffectiveDomain env (u_scheme u) (u_host u) in
         if url_dar = [] then None
         else if url_dar \<noteq> GetEffectiveDomain env (u_scheme u) cookie_domain then None
         else if (if length (u_host u) < length cookie_domain
                  then cookie_domain \<noteq> CHR ''.'' # u_host u
                  else drop (length (u_host u) - length cookie_domain) (u_host u) \<noteq> cookie_domain)
         then None
         else Some cookie_domain)"

definition GetCookieDomain :: "cookie_env \<Rightarrow> web_url \<Rightarrow> parsed_cookie \<Rightarrow> string option" where
  "GetCookieDomain env u pc =
    GetCookieDomainWithString env u (if HasDomain pc then pc_Domain pc else [])"

definition CanonPathWithString :: "web_url \<Rightarrow> string \<Rightarrow> string" where
  "CanonPathWithString u path_string =
    (if path_string \<noteq> [] \<and> hd path_string = CHR ''/'' then path_string
     else case str_rfind (u_path u) CHR ''/'' (length (u_path u)) of
         None \<Rightarrow> ''/''
       | Some idx \<Rightarrow> if idx = 0 then ''/'' else take idx (u_path u))"

definition CanonPath :: "web_url \<Rightarrow> parsed_cookie \<Rightarrow> string" where
  "CanonPath u pc = CanonPathWithString u (if HasPath pc then pc_Path pc else [])"

definition CanonExpirationInternal :: "cookie_env \<Rightarrow> parsed_cookie \<Rightarrow> int \<Rightarrow> int" where
  "CanonExpirationInternal env pc current =
    (case if HasMaxAge pc then scan_u64 (MaxAge pc) else None of
       Some max_age \<Rightarrow> wrap_int 64 (current + FromSeconds max_age)
     | None \<Rightarrow> if HasExpires pc then ParseCookieTime (from_exploded env) (Expires pc) else 0)"

definition CanonExpiration :: "cookie_env \<Rightarrow> parsed_cookie \<Rightarrow> int \<Rightarrow> cookie_options \<Rightarrow> int" where
  "CanonExpiration env pc current opts =
    (let expiration_time = CanonExpirationInternal env pc current in
     if force_session opts \<and> (expiration_time = 0 \<or> expiration_time > current) then 0
     else expiration_time)"

definition CanonicalCookie_Create ::
  "cookie_env \<Rightarrow> web_url \<Rightarrow> string \<Rightarrow> string \<Rightarrow> string \<Rightarrow> string \<Rightarrow> int \<Rightarrow> int \<Rightarrow> bool \<Rightarrow> bool
     \<Rightarrow> canonical_cookie option" where
  "CanonicalCookie_Create env u name v domain path creation expiration secure http_only =
    (let parsed_name = ParseTokenString name in if parsed_name \<noteq> name then None else
     let parsed_value = ParseValueString v in if parsed_value \<noteq> v then None else
     let parsed_domain = ParseValueString domain in if parsed_domain \<noteq> domain then None else
     case GetCookieDomainWithString env u parsed_domain of None \<Rightarrow> None
     | Some cookie_domain \<Rightarrow>
     let parsed_path = ParseValueString path in if parsed_path \<noteq> path then None else
     let cookie_path = CanonPathWithString u parsed_path in
     if parsed_path \<noteq> [] \<and> cookie_path \<noteq> parsed_path then None else
     let cookie_path = canonicalize_path env cookie_path in
     Some \<lparr> c_source = GetCookieSourceFromURL env u, c_name = parsed_name, c_value = parsed_value,
            c_domain = cookie_domain, c_path = cookie_path, c_creation = creation,
            c_expiry = expiration, c_last_access = creation, c_secure = secure,
            c_httponly = http_only, c_has_expires = (expiration \<noteq> 0) \<rparr>)"

text \<open>The constructor that takes a parsed cookie; \<open>now\<close> is what it reads from the clock.\<close>

definition CanonicalCookie_of :: "cookie_env \<Rightarrow> web_url \<Rightarrow> parsed_cookie \<Rightarrow> int \<Rightarrow> canonical_cookie" where
  "CanonicalCookie_of env u pc now =
    \<lparr> c_source = GetCookieSourceFromURL env u, c_name = pc_Name pc, c_value = pc_Value pc,
      c_domain = (case GetCookieDomain env u pc of Some d \<Rightarrow> d | None \<Rightarrow> []),
      c_path = CanonPath u pc, c_creation = now,
      c_expiry = (if HasExpires pc then CanonExpiration env pc now CookieOptions else 0),
      c_last_access = 0, c_secure = pc_IsSecure pc, c_httponly = pc_IsHttpOnly pc,
      c_has_expires = HasExpires pc \<rparr>"

subsection \<open>Orders\<close>

text \<open>\<open>std::sort\<close> and \<open>std::partial_sort\<close> by a comparison; elements neither of which is smaller keep
  their order here.\<close>

fun insert_by :: "('a \<Rightarrow> 'a \<Rightarrow> bool) \<Rightarrow> 'a \<Rightarrow> 'a list \<Rightarrow> 'a list" where
  "insert_by lt x [] = [x]"
| "insert_by lt x (y # ys) = (if lt x y then x # y # ys else y # insert_by lt x ys)"

definition sort_by :: "('a \<Rightarrow> 'a \<Rightarrow> bool) \<Rightarrow> 'a list \<Rightarrow> 'a list" where
  "sort_by lt xs = foldl (\<lambda>acc x. insert_by lt x acc) [] xs"

definition CookieSorter :: "canonical_cookie \<Rightarrow> canonical_cookie \<Rightarrow> bool" where
  "CookieSorter cc1 cc2 =
    (if length (c_path cc1) = length (c_path cc2) then c_creation cc1 < c_creation cc2
     else length (c_path cc1) > length (c_path cc2))"

definition LRUCookieSorter :: "cookie_item \<Rightarrow> cookie_item \<Rightarrow> bool" where
  "LRUCookieSorter it1 it2 =
    (if c_last_access (ck_cookie it1) \<noteq> c_last_access (ck_cookie it2)
     then c_last_access (ck_cookie it1) < c_last_access (ck_cookie it2)
     else c_creation (ck_cookie it1) < c_creation (ck_cookie it2))"

text \<open>The least recently accessed cookie left, and the candidates for eviction; \<open>None\<close> where the
  source returns false and changes nothing.\<close>

definition FindLeastRecentlyAccessed ::
  "nat \<Rightarrow> nat \<Rightarrow> cookie_item list \<Rightarrow> (int \<times> cookie_item list) option" where
  "FindLeastRecentlyAccessed num_max num_purge its =
    (if length its > num_max
     then let num_purge = num_purge + (length its - num_max);
              sorted = sort_by LRUCookieSorter its
          in Some (c_last_access (ck_cookie (sorted ! num_purge)), take num_purge sorted)
     else None)"

subsection \<open>The multimap\<close>

definition equal_range :: "string \<Rightarrow> cookie_monster \<Rightarrow> cookie_item list" where
  "equal_range key cm = filter (\<lambda>it. ck_key it = key) (cm_cookies cm)"

definition multimap_insert :: "cookie_item \<Rightarrow> cookie_item list \<Rightarrow> cookie_item list" where
  "multimap_insert it its =
    takeWhile (\<lambda>x. \<not> ck_key it < ck_key x) its @ it # dropWhile (\<lambda>x. \<not> ck_key it < ck_key x) its"

definition record_event :: "cookie_event \<Rightarrow> cookie_monster \<Rightarrow> cookie_monster" where
  "record_event ev cm = cm\<lparr>cm_trace := cm_trace cm @ [ev]\<rparr>"

definition ChangeCauseMapping :: "DeletionCause \<Rightarrow> ChangeCause \<times> bool" where
  "ChangeCauseMapping cause = (case cause of
      DELETE_COOKIE_EXPLICIT \<Rightarrow> (CHANGE_COOKIE_EXPLICIT, True)
    | DELETE_COOKIE_OVERWRITE \<Rightarrow> (CHANGE_COOKIE_OVERWRITE, True)
    | DELETE_COOKIE_EXPIRED \<Rightarrow> (CHANGE_COOKIE_EXPIRED, True)
    | DELETE_COOKIE_EVICTED \<Rightarrow> (CHANGE_COOKIE_EVICTED, True)
    | DELETE_COOKIE_DUPLICATE_IN_BACKING_STORE \<Rightarrow> (CHANGE_COOKIE_EXPLICIT, False)
    | DELETE_COOKIE_DONT_RECORD \<Rightarrow> (CHANGE_COOKIE_EXPLICIT, False)
    | DELETE_COOKIE_EVICTED_DOMAIN \<Rightarrow> (CHANGE_COOKIE_EVICTED, True)
    | DELETE_COOKIE_EVICTED_GLOBAL \<Rightarrow> (CHANGE_COOKIE_EVICTED, True)
    | DELETE_COOKIE_EVICTED_DOMAIN_PRE_SAFE \<Rightarrow> (CHANGE_COOKIE_EVICTED, True)
    | DELETE_COOKIE_EVICTED_DOMAIN_POST_SAFE \<Rightarrow> (CHANGE_COOKIE_EVICTED, True)
    | DELETE_COOKIE_EXPIRED_OVERWRITE \<Rightarrow> (CHANGE_COOKIE_EXPIRED_OVERWRITE, True)
    | DELETE_COOKIE_LAST_ENTRY \<Rightarrow> (CHANGE_COOKIE_EXPLICIT, False))"

text \<open>A new cookie is a new pointer.\<close>

definition InternalInsertCookie ::
  "string \<Rightarrow> canonical_cookie \<Rightarrow> bool \<Rightarrow> cookie_monster \<Rightarrow> cookie_monster" where
  "InternalInsertCookie key cc sync_to_store cm =
    (let cm = (if IsPersistent cc \<and> has_store cm \<and> sync_to_store
               then record_event (Store_AddCookie cc) cm else cm);
         cm = cm\<lparr>cm_cookies := multimap_insert
                   \<lparr> ck_key = key, ck_ptr = cm_next cm, ck_cookie = cc \<rparr> (cm_cookies cm),
                 cm_next := cm_next cm + 1\<rparr>
     in if has_delegate cm
        then record_event (OnCookieChanged cc False CHANGE_COOKIE_EXPLICIT) cm else cm)"

text \<open>The iterator is the item it points to.\<close>

definition InternalDeleteCookie ::
  "cookie_item \<Rightarrow> bool \<Rightarrow> DeletionCause \<Rightarrow> cookie_monster \<Rightarrow> cookie_monster" where
  "InternalDeleteCookie it sync_to_store deletion_cause cm =
    (let cc = ck_cookie it;
         cm = (if IsPersistent cc \<and> has_store cm \<and> sync_to_store
               then record_event (Store_DeleteCookie cc) cm else cm);
         (cause, notify) = ChangeCauseMapping deletion_cause;
         cm = (if has_delegate cm \<and> notify then record_event (OnCookieChanged cc True cause) cm else cm)
     in cm\<lparr>cm_cookies := filter (\<lambda>x. ck_ptr x \<noteq> ck_ptr it) (cm_cookies cm)\<rparr>)"

text \<open>Also returns the item as it is now.\<close>

definition InternalUpdateCookieAccessTime ::
  "cookie_item \<Rightarrow> int \<Rightarrow> cookie_monster \<Rightarrow> cookie_item \<times> cookie_monster" where
  "InternalUpdateCookieAccessTime it current cm =
    (if current - c_last_access (ck_cookie it) < last_access_threshold cm then (it, cm)
     else
       let cc = (ck_cookie it)\<lparr>c_last_access := current\<rparr>;
           it = it\<lparr>ck_cookie := cc\<rparr>;
           cm = cm\<lparr>cm_cookies := map (\<lambda>x. if ck_ptr x = ck_ptr it then x\<lparr>ck_cookie := cc\<rparr> else x)
                                   (cm_cookies cm)\<rparr>
       in (it, if IsPersistent cc \<and> has_store cm
               then record_event (Store_UpdateCookieAccessTime cc) cm else cm))"

subsection \<open>Time and keys\<close>

definition Time_Now :: "cookie_env \<Rightarrow> cookie_monster \<Rightarrow> int \<times> cookie_monster" where
  "Time_Now env cm = (clock env (cm_ticks cm), cm\<lparr>cm_ticks := cm_ticks cm + 1\<rparr>)"

definition CurrentTime :: "cookie_env \<Rightarrow> cookie_monster \<Rightarrow> int \<times> cookie_monster" where
  "CurrentTime env cm = (let (now, cm) = Time_Now env cm in (max now (last_time_seen cm + 1), cm))"

definition GetKey :: "cookie_env \<Rightarrow> ExpiryAndKeyScheme \<Rightarrow> string \<Rightarrow> string" where
  "GetKey env ks domain =
    (if ks = EKS_DISCARD_RECENT_AND_PURGE_DOMAIN then domain
     else
       let effective_domain = GetDomainAndRegistry (hosts env) domain;
           effective_domain = (if effective_domain = [] then domain else effective_domain) in
       if effective_domain \<noteq> [] \<and> hd effective_domain = CHR ''.'' then drop 1 effective_domain
       else effective_domain)"

definition HasCookieableScheme :: "web_url \<Rightarrow> cookie_monster \<Rightarrow> bool" where
  "HasCookieableScheme u cm = list_ex (\<lambda>s. u_scheme u = s) (cookieable_schemes cm)"

subsection \<open>Loading\<close>

text \<open>\<open>std::set\<close> ordered by creation time, the latest first; a cookie of a time it already has is not
  inserted.\<close>

fun set_insert_desc :: "cookie_item \<Rightarrow> cookie_item list \<Rightarrow> cookie_item list" where
  "set_insert_desc it [] = [it]"
| "set_insert_desc it (x # xs) =
    (if c_creation (ck_cookie it) > c_creation (ck_cookie x) then it # x # xs
     else if c_creation (ck_cookie it) = c_creation (ck_cookie x) then x # xs
     else x # set_insert_desc it xs)"

type_synonym signature = "string \<times> string \<times> string"

definition CookieSignature :: "canonical_cookie \<Rightarrow> signature" where
  "CookieSignature cc = (c_name cc, c_domain cc, c_path cc)"

fun signature_less :: "signature \<Rightarrow> signature \<Rightarrow> bool" where
  "signature_less (n, d, p) (n', d', p') =
    (if n \<noteq> n' then n < n' else if d \<noteq> d' then d < d' else p < p')"

text \<open>\<open>equivalent_cookies[signature].insert(it)\<close>.\<close>

fun equivalence_insert ::
  "signature \<Rightarrow> cookie_item \<Rightarrow> (signature \<times> cookie_item list) list
     \<Rightarrow> (signature \<times> cookie_item list) list" where
  "equivalence_insert sg it [] = [(sg, [it])]"
| "equivalence_insert sg it ((sg', its) # m) =
    (if sg = sg' then (sg', set_insert_desc it its) # m
     else if signature_less sg sg' then (sg, [it]) # (sg', its) # m
     else (sg', its) # equivalence_insert sg it m)"

definition equivalence_map :: "cookie_item list \<Rightarrow> (signature \<times> cookie_item list) list" where
  "equivalence_map its =
    foldl (\<lambda>m it. equivalence_insert (CookieSignature (ck_cookie it)) it m) [] its"

definition delete_items ::
  "cookie_item list \<Rightarrow> bool \<Rightarrow> DeletionCause \<Rightarrow> cookie_monster \<Rightarrow> cookie_monster" where
  "delete_items its sync_to_store cause cm =
    fold (\<lambda>it. InternalDeleteCookie it sync_to_store cause) its cm"

text \<open>The count the source returns goes to a histogram. With no duplicate no set has a second
  element, and nothing is deleted.\<close>

definition TrimDuplicateCookiesForKey :: "cookie_item list \<Rightarrow> cookie_monster \<Rightarrow> cookie_monster" where
  "TrimDuplicateCookiesForKey its cm =
    fold (\<lambda>(sg, dupes) cm.
            if length dupes \<le> 1 then cm
            else delete_items (tl dupes) True DELETE_COOKIE_DUPLICATE_IN_BACKING_STORE cm)
      (equivalence_map its) cm"

definition EnsureCookiesMapIsValid :: "cookie_monster \<Rightarrow> cookie_monster" where
  "EnsureCookiesMapIsValid cm =
    fold (\<lambda>key cm. TrimDuplicateCookiesForKey (equal_range key cm) cm)
      (remdups_adj (map ck_key (cm_cookies cm))) cm"

fun load_cookies ::
  "cookie_env \<Rightarrow> canonical_cookie list \<Rightarrow> int list \<Rightarrow> int \<Rightarrow> cookie_monster \<Rightarrow> int \<times> cookie_monster" where
  "load_cookies env [] creation_times earliest cm = (earliest, cm)"
| "load_cookies env (cc # ccs) creation_times earliest cm =
    (if c_creation cc \<notin> set creation_times
     then load_cookies env ccs (c_creation cc # creation_times)
            (if earliest = 0 \<or> c_last_access cc < earliest then c_last_access cc else earliest)
            (InternalInsertCookie (GetKey env (key_scheme cm) (c_domain cc)) cc False cm)
     else load_cookies env ccs creation_times earliest cm)"

definition InitStore :: "cookie_env \<Rightarrow> cookie_monster \<Rightarrow> cookie_monster" where
  "InitStore env cm =
    (let (earliest, cm) = load_cookies env (store_Load env) [] 0 cm in
     EnsureCookiesMapIsValid (cm\<lparr>earliest_access_time := earliest\<rparr>))"

definition InitIfNecessary :: "cookie_env \<Rightarrow> cookie_monster \<Rightarrow> cookie_monster" where
  "InitIfNecessary env cm =
    (if \<not> cm_initialized cm
     then (if has_store cm then InitStore env cm else cm)\<lparr>cm_initialized := True\<rparr>
     else cm)"

subsection \<open>Finding cookies\<close>

fun find_in_range ::
  "web_url \<Rightarrow> cookie_options \<Rightarrow> int \<Rightarrow> bool \<Rightarrow> cookie_item list \<Rightarrow> cookie_monster
     \<Rightarrow> cookie_item list \<times> cookie_monster" where
  "find_in_range u opts current update_access_time [] cm = ([], cm)"
| "find_in_range u opts current update_access_time (it # its) cm =
    (let cc = ck_cookie it in
     if IsExpired cc current \<and> \<not> keep_expired_cookies cm
     then find_in_range u opts current update_access_time its
            (InternalDeleteCookie it True DELETE_COOKIE_EXPIRED cm)
     else if exclude_httponly opts \<and> c_httponly cc
     then find_in_range u opts current update_access_time its cm
     else if \<not> SchemeIsSecure u \<and> c_secure cc
     then find_in_range u opts current update_access_time its cm
     else if key_scheme cm = EKS_KEEP_RECENT_AND_PURGE_ETLDP1 \<and> \<not> IsDomainMatch cc (u_host u)
     then find_in_range u opts current update_access_time its cm
     else if \<not> IsOnPath cc (u_path u)
     then find_in_range u opts current update_access_time its cm
     else
       let (it, cm) = (if update_access_time then InternalUpdateCookieAccessTime it current cm
                       else (it, cm));
           (found, cm) = find_in_range u opts current update_access_time its cm
       in (it # found, cm))"

definition FindCookiesForKey ::
  "string \<Rightarrow> web_url \<Rightarrow> cookie_options \<Rightarrow> int \<Rightarrow> bool \<Rightarrow> cookie_monster
     \<Rightarrow> cookie_item list \<times> cookie_monster" where
  "FindCookiesForKey key u opts current update_access_time cm =
    find_in_range u opts current update_access_time (equal_range key cm) cm"

text \<open>\<open>key.erase(0, key.find('.', 1))\<close>.\<close>

definition next_probe :: "string \<Rightarrow> string" where
  "next_probe key = (case str_find key CHR ''.'' 1 of None \<Rightarrow> [] | Some d \<Rightarrow> drop d key)"

lemma next_probe_shorter: "key \<noteq> [] \<Longrightarrow> length (next_probe key) < length key"
  by (auto simp: next_probe_def split: option.split dest: str_find_ge)

function probe_domains ::
  "string \<Rightarrow> nat \<Rightarrow> web_url \<Rightarrow> cookie_options \<Rightarrow> int \<Rightarrow> bool \<Rightarrow> cookie_monster
     \<Rightarrow> cookie_item list \<times> cookie_monster" where
  "probe_domains key domain_length u opts current update_access_time cm =
    (if length key > domain_length
     then let (found, cm) = FindCookiesForKey key u opts current update_access_time cm;
              (more, cm) = probe_domains (next_probe key) domain_length u opts current
                             update_access_time cm
          in (found @ more, cm)
     else ([], cm))"
  by pat_completeness auto
termination
  by (relation "measure (\<lambda>(key, n, u, opts, current, upd, cm). length key)")
     (auto intro: next_probe_shorter)

declare probe_domains.simps [simp del]

definition FindCookiesForHostAndDomain ::
  "cookie_env \<Rightarrow> web_url \<Rightarrow> cookie_options \<Rightarrow> bool \<Rightarrow> cookie_monster
     \<Rightarrow> cookie_item list \<times> cookie_monster" where
  "FindCookiesForHostAndDomain env u opts update_access_time cm =
    (let (current_time, cm) = CurrentTime env cm;
         key = GetKey env (key_scheme cm) (u_host u);
         (found, cm) = FindCookiesForKey key u opts current_time update_access_time cm in
     if key_scheme cm = EKS_DISCARD_RECENT_AND_PURGE_DOMAIN then (found, cm)
     else
       let domain = GetEffectiveDomain env (u_scheme u) key in
       if domain = [] then (found, cm)
       else
         let (more, cm) = probe_domains (CHR ''.'' # key) (length domain) u opts current_time
                            update_access_time cm
         in (found @ more, cm))"

subsection \<open>Garbage collection\<close>

text \<open>The number deleted and the cookies kept, which the caller may ask for.\<close>

fun expire_items :: "int \<Rightarrow> cookie_item list \<Rightarrow> cookie_monster \<Rightarrow> nat \<times> cookie_item list \<times> cookie_monster" where
  "expire_items current [] cm = (0, [], cm)"
| "expire_items current (it # its) cm =
    (if IsExpired (ck_cookie it) current
     then let (n, kept, cm) = expire_items current its
                (InternalDeleteCookie it True DELETE_COOKIE_EXPIRED cm)
          in (n + 1, kept, cm)
     else let (n, kept, cm) = expire_items current its cm in (n, it # kept, cm))"

definition GarbageCollectExpired ::
  "int \<Rightarrow> cookie_item list \<Rightarrow> cookie_monster \<Rightarrow> nat \<times> cookie_item list \<times> cookie_monster" where
  "GarbageCollectExpired current itpair cm =
    (if keep_expired_cookies cm then (0, [], cm) else expire_items current itpair cm)"

fun GarbageCollectDeleteList ::
  "int \<Rightarrow> DeletionCause \<Rightarrow> cookie_item list \<Rightarrow> cookie_monster \<Rightarrow> nat \<times> cookie_monster" where
  "GarbageCollectDeleteList keep_accessed_after cause [] cm = (0, cm)"
| "GarbageCollectDeleteList keep_accessed_after cause (it # its) cm =
    (if keep_accessed_after = 0 \<or> c_last_access (ck_cookie it) < keep_accessed_after
     then let (n, cm) = GarbageCollectDeleteList keep_accessed_after cause its
                (InternalDeleteCookie it True cause cm)
          in (n + 1, cm)
     else GarbageCollectDeleteList keep_accessed_after cause its cm)"

definition collect_key :: "cookie_env \<Rightarrow> int \<Rightarrow> string \<Rightarrow> cookie_monster \<Rightarrow> nat \<times> cookie_monster" where
  "collect_key env current key cm =
    (if length (equal_range key cm) > kDomainMaxCookies
     then
       let (n, its, cm) = GarbageCollectExpired current (equal_range key cm) cm in
       (case FindLeastRecentlyAccessed kDomainMaxCookies kDomainPurgeCookies its of None \<Rightarrow> (n, cm)
        | Some (oldest_removed, its) \<Rightarrow>
            let (now, cm) = Time_Now env cm;
                (n1, cm) = GarbageCollectDeleteList (now - kSafeFromGlobalPurge)
                             DELETE_COOKIE_EVICTED_DOMAIN_PRE_SAFE its cm;
                (n2, cm) = GarbageCollectDeleteList 0
                             DELETE_COOKIE_EVICTED_DOMAIN_POST_SAFE (drop n1 its) cm
            in (n + n1 + n2, cm))
     else (0, cm))"

text \<open>Whether to collect everywhere; the clock is read only where the source reads it.\<close>

definition global_collection_due :: "cookie_env \<Rightarrow> cookie_monster \<Rightarrow> bool \<times> cookie_monster" where
  "global_collection_due env cm =
    (if length (cm_cookies cm) > kMaxCookies then
       if key_scheme cm = EKS_DISCARD_RECENT_AND_PURGE_DOMAIN then (True, cm)
       else let (now, cm) = Time_Now env cm in
         (earliest_access_time cm < now - kSafeFromGlobalPurge, cm)
     else (False, cm))"

definition collect_all :: "cookie_env \<Rightarrow> int \<Rightarrow> cookie_monster \<Rightarrow> nat \<times> cookie_monster" where
  "collect_all env current cm =
    (let (n, its, cm) = GarbageCollectExpired current (cm_cookies cm) cm in
     case FindLeastRecentlyAccessed kMaxCookies kPurgeCookies its of None \<Rightarrow> (n, cm)
     | Some (oldest_left, its) \<Rightarrow>
         let (oldest_safe_cookie, cm) =
               (if key_scheme cm = EKS_KEEP_RECENT_AND_PURGE_ETLDP1
                then let (now, cm) = Time_Now env cm in (now - kSafeFromGlobalPurge, cm)
                else (0, cm));
             (num_evicted, cm) = GarbageCollectDeleteList oldest_safe_cookie
                                   DELETE_COOKIE_EVICTED_GLOBAL its cm;
             earliest = (if num_evicted = length its then oldest_left
                         else c_last_access (ck_cookie (its ! num_evicted)))
         in (n + num_evicted, cm\<lparr>earliest_access_time := earliest\<rparr>))"

definition GarbageCollect :: "cookie_env \<Rightarrow> int \<Rightarrow> string \<Rightarrow> cookie_monster \<Rightarrow> nat \<times> cookie_monster" where
  "GarbageCollect env current key cm =
    (let (n, cm) = collect_key env current key cm;
         (due, cm) = global_collection_due env cm in
     if due then (let (m, cm) = collect_all env current cm in (n + m, cm)) else (n, cm))"

subsection \<open>Setting cookies\<close>

text \<open>The loop of \<open>DeleteAnyEquivalentCookie\<close>; \<open>None\<close> where its \<open>CHECK\<close> fails. Returns whether a
  cookie was left alone because it is \<open>HttpOnly\<close>.\<close>

fun delete_equivalent ::
  "canonical_cookie \<Rightarrow> bool \<Rightarrow> bool \<Rightarrow> bool \<Rightarrow> bool \<Rightarrow> cookie_item list \<Rightarrow> cookie_monster
     \<Rightarrow> (bool \<times> cookie_monster) option" where
  "delete_equivalent ecc skip_httponly already_expired found skipped [] cm = Some (skipped, cm)"
| "delete_equivalent ecc skip_httponly already_expired found skipped (it # its) cm =
    (if IsEquivalent ecc (ck_cookie it) then
       if found then None
       else if skip_httponly \<and> c_httponly (ck_cookie it)
       then delete_equivalent ecc skip_httponly already_expired True True its cm
       else delete_equivalent ecc skip_httponly already_expired True skipped its
              (InternalDeleteCookie it True
                (if already_expired then DELETE_COOKIE_EXPIRED_OVERWRITE else DELETE_COOKIE_OVERWRITE) cm)
     else delete_equivalent ecc skip_httponly already_expired found skipped its cm)"

definition DeleteAnyEquivalentCookie ::
  "string \<Rightarrow> canonical_cookie \<Rightarrow> bool \<Rightarrow> bool \<Rightarrow> cookie_monster \<Rightarrow> (bool \<times> cookie_monster) option" where
  "DeleteAnyEquivalentCookie key ecc skip_httponly already_expired cm =
    delete_equivalent ecc skip_httponly already_expired False False (equal_range key cm) cm"

definition SetCanonicalCookie ::
  "cookie_env \<Rightarrow> canonical_cookie \<Rightarrow> int \<Rightarrow> cookie_options \<Rightarrow> cookie_monster
     \<Rightarrow> (bool \<times> cookie_monster) option" where
  "SetCanonicalCookie env cc creation_time opts cm =
    (let key = GetKey env (key_scheme cm) (c_domain cc);
         already_expired = IsExpired cc creation_time in
     case DeleteAnyEquivalentCookie key cc (exclude_httponly opts) already_expired cm of None \<Rightarrow> None
     | Some (skipped, cm) \<Rightarrow>
         if skipped then Some (False, cm)
         else
           let cm = (if \<not> already_expired \<or> keep_expired_cookies cm
                     then InternalInsertCookie key cc True cm else cm);
               (n, cm) = GarbageCollect env creation_time key cm
           in Some (True, cm))"

definition SetCookieWithCreationTimeAndOptions ::
  "cookie_env \<Rightarrow> web_url \<Rightarrow> string \<Rightarrow> int \<Rightarrow> cookie_options \<Rightarrow> cookie_monster
     \<Rightarrow> (bool \<times> cookie_monster) option" where
  "SetCookieWithCreationTimeAndOptions env u cookie_line creation_time_or_null opts cm =
    (let (creation_time, cm) =
           (if creation_time_or_null = 0
            then let (now, cm) = CurrentTime env cm in (now, cm\<lparr>last_time_seen := now\<rparr>)
            else (creation_time_or_null, cm));
         pc = ParsedCookie cookie_line in
     if \<not> pc_is_valid pc then Some (False, cm)
     else if exclude_httponly opts \<and> pc_IsHttpOnly pc then Some (False, cm)
     else case GetCookieDomain env u pc of None \<Rightarrow> Some (False, cm)
       | Some cookie_domain \<Rightarrow>
           let cookie_path = CanonPath u pc;
               cookie_expires = CanonExpiration env pc creation_time opts;
               cc = \<lparr> c_source = GetCookieSourceFromURL env u, c_name = pc_Name pc,
                      c_value = pc_Value pc, c_domain = cookie_domain, c_path = cookie_path,
                      c_creation = creation_time, c_expiry = cookie_expires,
                      c_last_access = creation_time, c_secure = pc_IsSecure pc,
                      c_httponly = pc_IsHttpOnly pc, c_has_expires = (cookie_expires \<noteq> 0) \<rparr>
           in SetCanonicalCookie env cc creation_time opts cm)"

definition SetCookieWithOptions ::
  "cookie_env \<Rightarrow> web_url \<Rightarrow> string \<Rightarrow> cookie_options \<Rightarrow> cookie_monster
     \<Rightarrow> (bool \<times> cookie_monster) option" where
  "SetCookieWithOptions env u cookie_line opts cm =
    (if \<not> HasCookieableScheme u cm then Some (False, cm)
     else SetCookieWithCreationTimeAndOptions env u cookie_line 0 opts (InitIfNecessary env cm))"

definition SetCookieWithCreationTime ::
  "cookie_env \<Rightarrow> web_url \<Rightarrow> string \<Rightarrow> int \<Rightarrow> cookie_monster \<Rightarrow> (bool \<times> cookie_monster) option" where
  "SetCookieWithCreationTime env u cookie_line creation_time cm =
    (if \<not> HasCookieableScheme u cm then Some (False, cm)
     else SetCookieWithCreationTimeAndOptions env u cookie_line creation_time CookieOptions
            (InitIfNecessary env cm))"

definition SetCookieWithDetails ::
  "cookie_env \<Rightarrow> web_url \<Rightarrow> string \<Rightarrow> string \<Rightarrow> string \<Rightarrow> string \<Rightarrow> int \<Rightarrow> bool \<Rightarrow> bool
     \<Rightarrow> cookie_monster \<Rightarrow> (bool \<times> cookie_monster) option" where
  "SetCookieWithDetails env u name v domain path expiration_time secure http_only cm =
    (if \<not> HasCookieableScheme u cm then Some (False, cm)
     else
       let (creation_time, cm) = CurrentTime env (InitIfNecessary env cm);
           cm = cm\<lparr>last_time_seen := creation_time\<rparr> in
       case CanonicalCookie_Create env u name v domain path creation_time expiration_time
              secure http_only of
         None \<Rightarrow> Some (False, cm)
       | Some cc \<Rightarrow> SetCanonicalCookie env cc creation_time options_include_httponly cm)"

definition CookieStore_SetCookie ::
  "cookie_env \<Rightarrow> web_url \<Rightarrow> string \<Rightarrow> cookie_monster \<Rightarrow> (bool \<times> cookie_monster) option" where
  "CookieStore_SetCookie env u cookie_line cm = SetCookieWithOptions env u cookie_line CookieOptions cm"

fun SetCookiesWithOptions ::
  "cookie_env \<Rightarrow> web_url \<Rightarrow> string list \<Rightarrow> cookie_options \<Rightarrow> cookie_monster \<Rightarrow> cookie_monster option" where
  "SetCookiesWithOptions env u [] opts cm = Some cm"
| "SetCookiesWithOptions env u (line # cookie_lines) opts cm =
    (case SetCookieWithOptions env u line opts cm of None \<Rightarrow> None
     | Some (ok, cm) \<Rightarrow> SetCookiesWithOptions env u cookie_lines opts cm)"

definition SetCookies ::
  "cookie_env \<Rightarrow> web_url \<Rightarrow> string list \<Rightarrow> cookie_monster \<Rightarrow> cookie_monster option" where
  "SetCookies env u cookie_lines cm = SetCookiesWithOptions env u cookie_lines CookieOptions cm"

subsection \<open>Getting cookies\<close>

text \<open>What a cookie adds to the line: \<open>name=value\<close>, or the value alone.\<close>

definition cookie_pair :: "canonical_cookie \<Rightarrow> string" where
  "cookie_pair cc = (if c_name cc \<noteq> [] then c_name cc @ ''='' else []) @ c_value cc"

fun cookie_line_of :: "canonical_cookie list \<Rightarrow> string" where
  "cookie_line_of [] = []"
| "cookie_line_of [cc] = cookie_pair cc"
| "cookie_line_of (cc # ccs) = cookie_pair cc @ ''; '' @ cookie_line_of ccs"

definition GetCookiesWithOptions ::
  "cookie_env \<Rightarrow> web_url \<Rightarrow> cookie_options \<Rightarrow> cookie_monster \<Rightarrow> string \<times> cookie_monster" where
  "GetCookiesWithOptions env u opts cm =
    (let cm = InitIfNecessary env cm in
     if \<not> HasCookieableScheme u cm then ([], cm)
     else
       let (found, cm) = FindCookiesForHostAndDomain env u opts True cm
       in (cookie_line_of (sort_by CookieSorter (map ck_cookie found)), cm))"

definition CookieStore_GetCookies ::
  "cookie_env \<Rightarrow> web_url \<Rightarrow> cookie_monster \<Rightarrow> string \<times> cookie_monster" where
  "CookieStore_GetCookies env u cm = GetCookiesWithOptions env u CookieOptions cm"

definition GetAllCookies :: "cookie_env \<Rightarrow> cookie_monster \<Rightarrow> canonical_cookie list \<times> cookie_monster" where
  "GetAllCookies env cm =
    (let (now, cm) = Time_Now env (InitIfNecessary env cm);
         (n, kept, cm) = GarbageCollectExpired now (cm_cookies cm) cm
     in (sort_by CookieSorter (map ck_cookie (cm_cookies cm)), cm))"

definition GetAllCookiesForURLWithOptions ::
  "cookie_env \<Rightarrow> web_url \<Rightarrow> cookie_options \<Rightarrow> cookie_monster
     \<Rightarrow> canonical_cookie list \<times> cookie_monster" where
  "GetAllCookiesForURLWithOptions env u opts cm =
    (let (found, cm) = FindCookiesForHostAndDomain env u opts False (InitIfNecessary env cm)
     in (sort_by CookieSorter (map ck_cookie found), cm))"

definition GetAllCookiesForURL ::
  "cookie_env \<Rightarrow> web_url \<Rightarrow> cookie_monster \<Rightarrow> canonical_cookie list \<times> cookie_monster" where
  "GetAllCookiesForURL env u cm = GetAllCookiesForURLWithOptions env u options_include_httponly cm"

subsection \<open>Deleting cookies\<close>

definition DeleteAll :: "cookie_env \<Rightarrow> bool \<Rightarrow> cookie_monster \<Rightarrow> nat \<times> cookie_monster" where
  "DeleteAll env sync_to_store cm =
    (let cm = (if sync_to_store then InitIfNecessary env cm else cm);
         its = cm_cookies cm
     in (length its, delete_items its sync_to_store
           (if sync_to_store then DELETE_COOKIE_EXPLICIT else DELETE_COOKIE_DONT_RECORD) cm))"

definition CookieMonster_destroy :: "cookie_env \<Rightarrow> cookie_monster \<Rightarrow> cookie_monster" where
  "CookieMonster_destroy env cm = snd (DeleteAll env False cm)"

definition DeleteAllCreatedBetween ::
  "cookie_env \<Rightarrow> int \<Rightarrow> int \<Rightarrow> bool \<Rightarrow> cookie_monster \<Rightarrow> nat \<times> cookie_monster" where
  "DeleteAllCreatedBetween env delete_begin delete_end sync_to_store cm =
    (let cm = InitIfNecessary env cm;
         its = filter (\<lambda>it. c_creation (ck_cookie it) \<ge> delete_begin \<and>
                            (delete_end = 0 \<or> c_creation (ck_cookie it) < delete_end)) (cm_cookies cm)
     in (length its, delete_items its sync_to_store DELETE_COOKIE_EXPLICIT cm))"

definition DeleteAllCreatedAfter ::
  "cookie_env \<Rightarrow> int \<Rightarrow> bool \<Rightarrow> cookie_monster \<Rightarrow> nat \<times> cookie_monster" where
  "DeleteAllCreatedAfter env delete_begin sync_to_store cm =
    DeleteAllCreatedBetween env delete_begin 0 sync_to_store cm"

definition DeleteAllForHost :: "cookie_env \<Rightarrow> web_url \<Rightarrow> cookie_monster \<Rightarrow> nat \<times> cookie_monster" where
  "DeleteAllForHost env u cm =
    (let cm = InitIfNecessary env cm in
     if \<not> HasCookieableScheme u cm then (0, cm)
     else
       let its = filter (\<lambda>it. IsHostCookie (ck_cookie it) \<and> IsDomainMatch (ck_cookie it) (u_host u))
                   (equal_range (GetKey env (key_scheme cm) (u_host u)) cm)
       in (length its, delete_items its True DELETE_COOKIE_EXPLICIT cm))"

definition DeleteCanonicalCookie ::
  "cookie_env \<Rightarrow> canonical_cookie \<Rightarrow> cookie_monster \<Rightarrow> bool \<times> cookie_monster" where
  "DeleteCanonicalCookie env cookie cm =
    (let cm = InitIfNecessary env cm in
     case find (\<lambda>it. c_creation (ck_cookie it) = c_creation cookie)
            (equal_range (GetKey env (key_scheme cm) (c_domain cookie)) cm) of
       None \<Rightarrow> (False, cm)
     | Some it \<Rightarrow> (True, InternalDeleteCookie it True DELETE_COOKIE_EXPLICIT cm))"

definition CookieMonster_DeleteCookie ::
  "cookie_env \<Rightarrow> web_url \<Rightarrow> string \<Rightarrow> cookie_monster \<Rightarrow> cookie_monster" where
  "CookieMonster_DeleteCookie env u cookie_name cm =
    (let cm = InitIfNecessary env cm in
     if \<not> HasCookieableScheme u cm then cm
     else
       let (found, cm) = FindCookiesForHostAndDomain env u options_include_httponly True cm;
           matching_cookies = map ck_ptr (filter (\<lambda>it. c_name (ck_cookie it) = cookie_name \<and>
                                starts_with (u_path u) (c_path (ck_cookie it))) found)
       in delete_items (filter (\<lambda>it. ck_ptr it \<in> set matching_cookies) (cm_cookies cm)) True
            DELETE_COOKIE_EXPLICIT cm)"

subsection \<open>Making and configuring the store\<close>

definition SetCookieableSchemes :: "string list \<Rightarrow> cookie_monster \<Rightarrow> cookie_monster" where
  "SetCookieableSchemes schemes cm = cm\<lparr>cookieable_schemes := schemes\<rparr>"

definition kDefaultCookieableSchemes :: "string list" where
  "kDefaultCookieableSchemes = [''http'', ''https'', ''file'']"

text \<open>\<open>enable_file_scheme\<close> is the static \<open>enable_file_scheme_\<close>, which \<open>EnableFileScheme\<close> sets.\<close>

definition SetDefaultCookieableSchemes :: "bool \<Rightarrow> cookie_monster \<Rightarrow> cookie_monster" where
  "SetDefaultCookieableSchemes enable_file_scheme cm =
    (let num_schemes = (if enable_file_scheme then length kDefaultCookieableSchemes
                        else length kDefaultCookieableSchemes - 1)
     in SetCookieableSchemes (take num_schemes kDefaultCookieableSchemes) cm)"

definition kDefaultAccessUpdateThresholdSeconds :: int where
  "kDefaultAccessUpdateThresholdSeconds = 60"

definition new_CookieMonster_with :: "bool \<Rightarrow> bool \<Rightarrow> bool \<Rightarrow> int \<Rightarrow> cookie_monster" where
  "new_CookieMonster_with enable_file_scheme store delegate last_access_threshold_milliseconds =
    SetDefaultCookieableSchemes enable_file_scheme
     \<lparr> cm_cookies = [], cm_initialized = False, key_scheme = EKS_KEEP_RECENT_AND_PURGE_ETLDP1,
       has_store = store, last_time_seen = 0,
       last_access_threshold = FromMilliseconds last_access_threshold_milliseconds,
       earliest_access_time = 0, cookieable_schemes = [], has_delegate = delegate,
       keep_expired_cookies = False, cm_next = 0, cm_ticks = 0, cm_trace = [] \<rparr>"

definition new_CookieMonster :: "bool \<Rightarrow> bool \<Rightarrow> bool \<Rightarrow> cookie_monster" where
  "new_CookieMonster enable_file_scheme store delegate =
    (new_CookieMonster_with enable_file_scheme store delegate 0)
       \<lparr>last_access_threshold := FromSeconds kDefaultAccessUpdateThresholdSeconds\<rparr>"

definition SetExpiryAndKeyScheme :: "ExpiryAndKeyScheme \<Rightarrow> cookie_monster \<Rightarrow> cookie_monster" where
  "SetExpiryAndKeyScheme ks cm = cm\<lparr>key_scheme := ks\<rparr>"

definition SetKeepExpiredCookies :: "cookie_monster \<Rightarrow> cookie_monster" where
  "SetKeepExpiredCookies cm = cm\<lparr>keep_expired_cookies := True\<rparr>"

definition SetClearPersistentStoreOnExit :: "bool \<Rightarrow> cookie_monster \<Rightarrow> cookie_monster" where
  "SetClearPersistentStoreOnExit clear_local_store cm =
    (if has_store cm then record_event (Store_SetClearLocalStateOnExit clear_local_store) cm else cm)"

definition FlushStore :: "bool \<Rightarrow> cookie_monster \<Rightarrow> cookie_monster" where
  "FlushStore has_completion_task cm =
    (if cm_initialized cm \<and> has_store cm then record_event Store_Flush cm
     else if has_completion_task then record_event PostTask_completion cm
     else cm)"

end
