(* ===== verification/CookieInv.thy ===== *)
theory CookieInv
  imports CookieStore "HOL-Library.Sublist"
begin

text \<open>
  The invariant of the cookie store and that every call keeps it and returns. The deletions of the
  store are all instances of \<open>delete_items\<close>; with the accesses they only thin the map out:
  \<open>thinner\<close> is the relation the invariant is closed under.
\<close>

named_theorems cm_fields \<open>fields a cookie store operation does not touch\<close>

subsection \<open>What the small operations change\<close>

lemma record_event_fields [cm_fields, simp]:
  "cm_cookies (record_event ev cm) = cm_cookies cm"
  "cm_initialized (record_event ev cm) = cm_initialized cm"
  "key_scheme (record_event ev cm) = key_scheme cm"
  "has_store (record_event ev cm) = has_store cm"
  "has_delegate (record_event ev cm) = has_delegate cm"
  "keep_expired_cookies (record_event ev cm) = keep_expired_cookies cm"
  "cm_next (record_event ev cm) = cm_next cm"
  "cookieable_schemes (record_event ev cm) = cookieable_schemes cm"
  "cm_ticks (record_event ev cm) = cm_ticks cm"
  "last_time_seen (record_event ev cm) = last_time_seen cm"
  "earliest_access_time (record_event ev cm) = earliest_access_time cm"
  "last_access_threshold (record_event ev cm) = last_access_threshold cm"
  by (simp_all add: record_event_def)

lemma InternalDeleteCookie_fields [cm_fields, simp]:
  "cm_cookies (InternalDeleteCookie it s c cm) = filter (\<lambda>x. ck_ptr x \<noteq> ck_ptr it) (cm_cookies cm)"
  "cm_initialized (InternalDeleteCookie it s c cm) = cm_initialized cm"
  "key_scheme (InternalDeleteCookie it s c cm) = key_scheme cm"
  "has_store (InternalDeleteCookie it s c cm) = has_store cm"
  "has_delegate (InternalDeleteCookie it s c cm) = has_delegate cm"
  "keep_expired_cookies (InternalDeleteCookie it s c cm) = keep_expired_cookies cm"
  "cm_next (InternalDeleteCookie it s c cm) = cm_next cm"
  "cookieable_schemes (InternalDeleteCookie it s c cm) = cookieable_schemes cm"
  "cm_ticks (InternalDeleteCookie it s c cm) = cm_ticks cm"
  "last_time_seen (InternalDeleteCookie it s c cm) = last_time_seen cm"
  "earliest_access_time (InternalDeleteCookie it s c cm) = earliest_access_time cm"
  "last_access_threshold (InternalDeleteCookie it s c cm) = last_access_threshold cm"
  by (simp_all add: InternalDeleteCookie_def Let_def split: prod.split)

lemma InternalInsertCookie_fields [cm_fields, simp]:
  "cm_cookies (InternalInsertCookie key cc s cm) =
     multimap_insert \<lparr> ck_key = key, ck_ptr = cm_next cm, ck_cookie = cc \<rparr> (cm_cookies cm)"
  "cm_initialized (InternalInsertCookie key cc s cm) = cm_initialized cm"
  "key_scheme (InternalInsertCookie key cc s cm) = key_scheme cm"
  "has_store (InternalInsertCookie key cc s cm) = has_store cm"
  "has_delegate (InternalInsertCookie key cc s cm) = has_delegate cm"
  "keep_expired_cookies (InternalInsertCookie key cc s cm) = keep_expired_cookies cm"
  "cm_next (InternalInsertCookie key cc s cm) = cm_next cm + 1"
  "cookieable_schemes (InternalInsertCookie key cc s cm) = cookieable_schemes cm"
  "cm_ticks (InternalInsertCookie key cc s cm) = cm_ticks cm"
  "last_time_seen (InternalInsertCookie key cc s cm) = last_time_seen cm"
  "last_access_threshold (InternalInsertCookie key cc s cm) = last_access_threshold cm"
  by (simp_all add: InternalInsertCookie_def Let_def)

subsection \<open>Deleting a list of items\<close>

lemma delete_items_Nil [simp]: "delete_items [] s c cm = cm"
  by (simp add: delete_items_def)

lemma delete_items_Cons [simp]:
  "delete_items (it # its) s c cm = delete_items its s c (InternalDeleteCookie it s c cm)"
  by (simp add: delete_items_def)

lemma delete_items_fields [cm_fields, simp]:
  "cm_cookies (delete_items its s c cm) = filter (\<lambda>x. ck_ptr x \<notin> ck_ptr ` set its) (cm_cookies cm)"
  "cm_initialized (delete_items its s c cm) = cm_initialized cm"
  "key_scheme (delete_items its s c cm) = key_scheme cm"
  "has_store (delete_items its s c cm) = has_store cm"
  "has_delegate (delete_items its s c cm) = has_delegate cm"
  "keep_expired_cookies (delete_items its s c cm) = keep_expired_cookies cm"
  "cm_next (delete_items its s c cm) = cm_next cm"
  "cookieable_schemes (delete_items its s c cm) = cookieable_schemes cm"
  "cm_ticks (delete_items its s c cm) = cm_ticks cm"
  "last_time_seen (delete_items its s c cm) = last_time_seen cm"
  "earliest_access_time (delete_items its s c cm) = earliest_access_time cm"
  "last_access_threshold (delete_items its s c cm) = last_access_threshold cm"
  by (induction its arbitrary: cm) (auto intro: filter_cong)

lemma expire_items_eq:
  "expire_items current its cm =
     (length (filter (\<lambda>it. IsExpired (ck_cookie it) current) its),
      filter (\<lambda>it. \<not> IsExpired (ck_cookie it) current) its,
      delete_items (filter (\<lambda>it. IsExpired (ck_cookie it) current) its) True DELETE_COOKIE_EXPIRED cm)"
  by (induction its arbitrary: cm) (auto split: prod.split)

lemma GarbageCollectDeleteList_eq:
  "GarbageCollectDeleteList keep cause its cm =
     (let old = filter (\<lambda>it. keep = 0 \<or> c_last_access (ck_cookie it) < keep) its
      in (length old, delete_items old True cause cm))"
  by (induction its arbitrary: cm) (auto simp: Let_def split: prod.split)

subsection \<open>Thinning out\<close>

lemma subseq_set: "subseq xs ys \<Longrightarrow> set xs \<subseteq> set ys"
  by (induction rule: list_emb.induct) auto

lemma subseq_sorted: "subseq xs ys \<Longrightarrow> sorted ys \<Longrightarrow> sorted (xs :: 'a::linorder list)"
  by (induction rule: list_emb.induct) (auto dest: subseq_set)

lemma subseq_distinct_list: "subseq xs ys \<Longrightarrow> distinct ys \<Longrightarrow> distinct xs"
  by (induction rule: list_emb.induct) (auto dest: subseq_set)

text \<open>What the accesses to a cookie never change.\<close>

definition static_item :: "cookie_item \<Rightarrow> cookie_item" where
  "static_item it = it\<lparr>ck_cookie := (ck_cookie it)\<lparr>c_last_access := 0\<rparr>\<rparr>"

lemma static_item_eqD:
  assumes "static_item x = static_item y"
  shows "ck_key x = ck_key y" "ck_ptr x = ck_ptr y" "c_domain (ck_cookie x) = c_domain (ck_cookie y)"
    "CookieSignature (ck_cookie x) = CookieSignature (ck_cookie y)"
    "c_creation (ck_cookie x) = c_creation (ck_cookie y)"
proof -
  have "ck_key (static_item x) = ck_key (static_item y)"
    "ck_ptr (static_item x) = ck_ptr (static_item y)"
    "c_domain (ck_cookie (static_item x)) = c_domain (ck_cookie (static_item y))"
    "CookieSignature (ck_cookie (static_item x)) = CookieSignature (ck_cookie (static_item y))"
    "c_creation (ck_cookie (static_item x)) = c_creation (ck_cookie (static_item y))"
    by (simp_all add: assms)
  thus "ck_key x = ck_key y" "ck_ptr x = ck_ptr y" "c_domain (ck_cookie x) = c_domain (ck_cookie y)"
    "CookieSignature (ck_cookie x) = CookieSignature (ck_cookie y)"
    "c_creation (ck_cookie x) = c_creation (ck_cookie y)"
    by (simp_all add: static_item_def CookieSignature_def)
qed

lemma static_item_fields [simp]:
  "ck_key (static_item x) = ck_key x" "ck_ptr (static_item x) = ck_ptr x"
  "c_domain (ck_cookie (static_item x)) = c_domain (ck_cookie x)"
  "c_name (ck_cookie (static_item x)) = c_name (ck_cookie x)"
  "c_path (ck_cookie (static_item x)) = c_path (ck_cookie x)"
  "CookieSignature (ck_cookie (static_item x)) = CookieSignature (ck_cookie x)"
  by (simp_all add: static_item_def CookieSignature_def)

definition thinner :: "cookie_monster \<Rightarrow> cookie_monster \<Rightarrow> bool" where
  "thinner cm cm' \<longleftrightarrow>
    subseq (map static_item (cm_cookies cm')) (map static_item (cm_cookies cm)) \<and>
    cm_initialized cm' = cm_initialized cm \<and> key_scheme cm' = key_scheme cm \<and>
    has_store cm' = has_store cm \<and> keep_expired_cookies cm' = keep_expired_cookies cm \<and>
    cm_next cm' = cm_next cm \<and> cookieable_schemes cm' = cookieable_schemes cm"

lemma thinner_refl [simp, intro]: "thinner cm cm"
  by (simp add: thinner_def)

lemma thinner_trans [trans]: "thinner a b \<Longrightarrow> thinner b c \<Longrightarrow> thinner a c"
  by (auto simp: thinner_def intro: subseq_order.trans)

lemma thinner_same [intro]:
  "map static_item (cm_cookies cm') = map static_item (cm_cookies cm) \<Longrightarrow>
   cm_initialized cm' = cm_initialized cm \<Longrightarrow> key_scheme cm' = key_scheme cm \<Longrightarrow>
   has_store cm' = has_store cm \<Longrightarrow> keep_expired_cookies cm' = keep_expired_cookies cm \<Longrightarrow>
   cm_next cm' = cm_next cm \<Longrightarrow> cookieable_schemes cm' = cookieable_schemes cm \<Longrightarrow> thinner cm cm'"
  by (simp add: thinner_def)

lemma thinner_filter:
  "cm_cookies cm' = filter P (cm_cookies cm) \<Longrightarrow>
   cm_initialized cm' = cm_initialized cm \<Longrightarrow> key_scheme cm' = key_scheme cm \<Longrightarrow>
   has_store cm' = has_store cm \<Longrightarrow> keep_expired_cookies cm' = keep_expired_cookies cm \<Longrightarrow>
   cm_next cm' = cm_next cm \<Longrightarrow> cookieable_schemes cm' = cookieable_schemes cm \<Longrightarrow> thinner cm cm'"
  by (simp add: thinner_def subseq_map subseq_filter_left)

lemma thinner_delete [intro]: "thinner cm (InternalDeleteCookie it s c cm)"
  by (rule thinner_filter) simp_all

lemma thinner_delete_items [intro]: "thinner cm (delete_items its s c cm)"
  by (rule thinner_filter) simp_all

lemma thinner_record_event [intro]: "thinner cm (record_event ev cm)"
  by (rule thinner_same) simp_all

lemma map_static_update:
  assumes "distinct (map ck_ptr xs)" "it \<in> set xs"
    and cc: "static_item (it\<lparr>ck_cookie := cc\<rparr>) = static_item it"
  shows "map static_item (map (\<lambda>x. if ck_ptr x = ck_ptr it then x\<lparr>ck_cookie := cc\<rparr> else x) xs)
         = map static_item xs"
proof -
  have "static_item (if ck_ptr x = ck_ptr it then x\<lparr>ck_cookie := cc\<rparr> else x) = static_item x"
    if "x \<in> set xs" for x
  proof (cases "ck_ptr x = ck_ptr it")
    case True
    with assms that have "x = it" by (auto simp: distinct_map inj_on_def)
    with cc show ?thesis by simp
  qed simp
  thus ?thesis by simp
qed

subsection \<open>The invariant\<close>

text \<open>Each cookie is filed under the key of its domain, in the order of the keys, as a pointer of its
  own; no two cookies have the same name, domain and path; nothing is loaded before the first use.\<close>

definition filed_ok :: "cookie_env \<Rightarrow> cookie_monster \<Rightarrow> bool" where
  "filed_ok env cm \<longleftrightarrow>
    sorted (map ck_key (cm_cookies cm)) \<and>
    (\<forall>it \<in> set (cm_cookies cm). ck_key it = GetKey env (key_scheme cm) (c_domain (ck_cookie it))) \<and>
    distinct (map ck_ptr (cm_cookies cm)) \<and>
    (\<forall>it \<in> set (cm_cookies cm). ck_ptr it < cm_next cm)"

abbreviation signatures :: "cookie_item list \<Rightarrow> signature list" where
  "signatures its \<equiv> map (\<lambda>it. CookieSignature (ck_cookie it)) its"

definition cm_ok :: "cookie_env \<Rightarrow> cookie_monster \<Rightarrow> bool" where
  "cm_ok env cm \<longleftrightarrow>
    filed_ok env cm \<and> distinct (signatures (cm_cookies cm)) \<and> (cm_initialized cm \<or> cm_cookies cm = [])"

lemma filed_okD:
  assumes "filed_ok env cm"
  shows "sorted (map ck_key (cm_cookies cm))"
    "it \<in> set (cm_cookies cm) \<Longrightarrow> ck_key it = GetKey env (key_scheme cm) (c_domain (ck_cookie it))"
    "distinct (map ck_ptr (cm_cookies cm))"
    "it \<in> set (cm_cookies cm) \<Longrightarrow> ck_ptr it < cm_next cm"
  using assms by (simp_all add: filed_ok_def)

lemma cm_okD:
  assumes "cm_ok env cm"
  shows "filed_ok env cm" "distinct (signatures (cm_cookies cm))"
    "\<not> cm_initialized cm \<Longrightarrow> cm_cookies cm = []"
  using assms by (auto simp: cm_ok_def)

lemma thinner_subseq:
  assumes "thinner cm cm'" and "\<And>it. f (static_item it) = f it"
  shows "subseq (map f (cm_cookies cm')) (map f (cm_cookies cm))"
proof -
  have "subseq (map f (map static_item (cm_cookies cm'))) (map f (map static_item (cm_cookies cm)))"
    by (rule subseq_map) (use assms in \<open>simp add: thinner_def\<close>)
  moreover have "f \<circ> static_item = f" using assms(2) by auto
  ultimately show ?thesis by simp
qed

lemma thinner_member:
  assumes "thinner cm cm'" "it \<in> set (cm_cookies cm')"
  shows "\<exists>y \<in> set (cm_cookies cm). static_item y = static_item it"
proof -
  have "set (map static_item (cm_cookies cm')) \<subseteq> set (map static_item (cm_cookies cm))"
    by (rule subseq_set) (use assms in \<open>simp add: thinner_def\<close>)
  hence "static_item it \<in> set (map static_item (cm_cookies cm))" using assms(2) by auto
  thus ?thesis by force
qed

lemma filed_ok_thinner:
  assumes ok: "filed_ok env cm" and t: "thinner cm cm'"
  shows "filed_ok env cm'"
  unfolding filed_ok_def
proof (intro conjI ballI)
  show "sorted (map ck_key (cm_cookies cm'))"
    by (rule subseq_sorted [OF thinner_subseq [OF t] filed_okD(1) [OF ok]]) simp
  show "distinct (map ck_ptr (cm_cookies cm'))"
    by (rule subseq_distinct_list [OF thinner_subseq [OF t] filed_okD(3) [OF ok]]) simp
next
  fix it assume "it \<in> set (cm_cookies cm')"
  then obtain y where y: "y \<in> set (cm_cookies cm)" and eq: "static_item y = static_item it"
    using thinner_member [OF t] by blast
  show "ck_key it = GetKey env (key_scheme cm') (c_domain (ck_cookie it))"
    using filed_okD(2) [OF ok y] static_item_eqD(1,3) [OF eq] t by (simp add: thinner_def)
  show "ck_ptr it < cm_next cm'"
    using filed_okD(4) [OF ok y] static_item_eqD(2) [OF eq] t by (simp add: thinner_def)
qed

lemma cm_ok_thinner:
  assumes ok: "cm_ok env cm" and t: "thinner cm cm'"
  shows "cm_ok env cm'"
  unfolding cm_ok_def
proof (intro conjI)
  show "filed_ok env cm'" by (rule filed_ok_thinner [OF cm_okD(1) [OF ok] t])
  show "distinct (signatures (cm_cookies cm'))"
    by (rule subseq_distinct_list [OF thinner_subseq [OF t] cm_okD(2) [OF ok]]) simp
  show "cm_initialized cm' \<or> cm_cookies cm' = []"
  proof (cases "cm_initialized cm")
    case False
    hence "cm_cookies cm = []" using ok by (simp add: cm_ok_def)
    thus ?thesis using thinner_member [OF t] by (cases "cm_cookies cm'") auto
  qed (use t in \<open>simp add: thinner_def\<close>)
qed

subsection \<open>Collecting and reading thin out\<close>

lemma thinner_Time_Now [intro]: "thinner cm (snd (Time_Now env cm))"
  by (rule thinner_same) (simp_all add: Time_Now_def)

lemma thinner_CurrentTime [intro]: "thinner cm (snd (CurrentTime env cm))"
  by (rule thinner_same) (simp_all add: CurrentTime_def Time_Now_def)

lemma GarbageCollectExpired_eq:
  "GarbageCollectExpired current its cm =
    (if keep_expired_cookies cm then (0, [], cm)
     else (length (filter (\<lambda>it. IsExpired (ck_cookie it) current) its),
           filter (\<lambda>it. \<not> IsExpired (ck_cookie it) current) its,
           delete_items (filter (\<lambda>it. IsExpired (ck_cookie it) current) its) True DELETE_COOKIE_EXPIRED cm))"
  by (simp add: GarbageCollectExpired_def expire_items_eq)

lemma thinner_GarbageCollectExpired [intro]:
  "thinner cm (snd (snd (GarbageCollectExpired current its cm)))"
  by (simp add: GarbageCollectExpired_eq thinner_delete_items)

lemma thinner_GarbageCollectDeleteList [intro]:
  "thinner cm (snd (GarbageCollectDeleteList keep cause its cm))"
  by (simp add: GarbageCollectDeleteList_eq Let_def thinner_delete_items)

lemma thinner_collect_key [intro]: "thinner cm (snd (collect_key env current key cm))"
proof (cases "length (equal_range key cm) > kDomainMaxCookies")
  case True
  obtain n its c1 where 1: "GarbageCollectExpired current (equal_range key cm) cm = (n, its, c1)"
    by (cases "GarbageCollectExpired current (equal_range key cm) cm") auto
  have t1: "thinner cm c1" using thinner_GarbageCollectExpired [of cm current "equal_range key cm"] 1 by simp
  show ?thesis
  proof (cases "FindLeastRecentlyAccessed kDomainMaxCookies kDomainPurgeCookies its")
    case None
    with True 1 t1 show ?thesis by (simp add: collect_key_def)
  next
    case (Some r)
    obtain old its' where r: "r = (old, its')" by (cases r)
    obtain now c2 where 2: "Time_Now env c1 = (now, c2)" by (cases "Time_Now env c1")
    obtain n1 c3 where 3: "GarbageCollectDeleteList (now - kSafeFromGlobalPurge)
        DELETE_COOKIE_EVICTED_DOMAIN_PRE_SAFE its' c2 = (n1, c3)"
      by (cases "GarbageCollectDeleteList (now - kSafeFromGlobalPurge)
        DELETE_COOKIE_EVICTED_DOMAIN_PRE_SAFE its' c2")
    obtain n2 c4 where 4: "GarbageCollectDeleteList 0 DELETE_COOKIE_EVICTED_DOMAIN_POST_SAFE
        (drop n1 its') c3 = (n2, c4)"
      by (cases "GarbageCollectDeleteList 0 DELETE_COOKIE_EVICTED_DOMAIN_POST_SAFE (drop n1 its') c3")
    have "thinner c1 c2" using thinner_Time_Now [of c1 env] 2 by simp
    moreover have "thinner c2 c3" using thinner_GarbageCollectDeleteList 3 by (metis snd_conv)
    moreover have "thinner c3 c4" using thinner_GarbageCollectDeleteList 4 by (metis snd_conv)
    ultimately have "thinner cm c4" using t1 thinner_trans by blast
    with True 1 Some r 2 3 4 show ?thesis by (simp add: collect_key_def)
  qed
qed (simp add: collect_key_def)

lemma thinner_global_collection_due [intro]: "thinner cm (snd (global_collection_due env cm))"
  using thinner_Time_Now [of cm env]
  by (cases "Time_Now env cm") (simp add: global_collection_due_def)

lemma thinner_collect_all [intro]: "thinner cm (snd (collect_all env current cm))"
proof -
  obtain n its c1 where 1: "GarbageCollectExpired current (cm_cookies cm) cm = (n, its, c1)"
    by (cases "GarbageCollectExpired current (cm_cookies cm) cm") auto
  have t1: "thinner cm c1" using thinner_GarbageCollectExpired [of cm current "cm_cookies cm"] 1 by simp
  show ?thesis
  proof (cases "FindLeastRecentlyAccessed kMaxCookies kPurgeCookies its")
    case None
    with 1 t1 show ?thesis by (simp add: collect_all_def)
  next
    case (Some r)
    obtain old its' where r: "r = (old, its')" by (cases r)
    obtain safe c2 where 2: "(if key_scheme c1 = EKS_KEEP_RECENT_AND_PURGE_ETLDP1
        then let (now, cm) = Time_Now env c1 in (now - kSafeFromGlobalPurge, cm) else (0, c1)) = (safe, c2)"
      by (rule prod.exhaust)
    obtain n1 c3 where 3: "GarbageCollectDeleteList safe DELETE_COOKIE_EVICTED_GLOBAL its' c2 = (n1, c3)"
      by (rule prod.exhaust)
    have "thinner c1 c2"
    proof (cases "key_scheme c1 = EKS_KEEP_RECENT_AND_PURGE_ETLDP1")
      case True
      thus ?thesis using thinner_Time_Now [of c1 env] 2 by (cases "Time_Now env c1") simp
    qed (use 2 in simp)
    moreover have "thinner c2 c3" using thinner_GarbageCollectDeleteList 3 by (metis snd_conv)
    moreover have "thinner c3 (c3\<lparr>earliest_access_time := x\<rparr>)" for x by (rule thinner_same) simp_all
    ultimately have "thinner cm (c3\<lparr>earliest_access_time := x\<rparr>)" for x
      using t1 thinner_trans by blast
    with 1 Some r 2 3 show ?thesis by (simp add: collect_all_def)
  qed
qed

lemma thinner_GarbageCollect [intro]: "thinner cm (snd (GarbageCollect env current key cm))"
proof -
  obtain n c1 where 1: "collect_key env current key cm = (n, c1)" by (rule prod.exhaust)
  obtain due c2 where 2: "global_collection_due env c1 = (due, c2)" by (rule prod.exhaust)
  obtain m c3 where 3: "collect_all env current c2 = (m, c3)" by (rule prod.exhaust)
  have t: "thinner cm c1" "thinner c1 c2" "thinner c2 c3"
    using thinner_collect_key [of cm env current key] thinner_global_collection_due [of c1 env]
      thinner_collect_all [of c2 env current] 1 2 3 by simp_all
  have "thinner cm c2" by (rule thinner_trans [OF t(1,2)])
  with thinner_trans [OF this t(3)] show ?thesis by (simp add: GarbageCollect_def 1 2 3)
qed

subsection \<open>Finding\<close>

text \<open>Whether a cookie goes with a request: the tests of \<open>FindCookiesForKey\<close>.\<close>

definition sendable :: "web_url \<Rightarrow> cookie_options \<Rightarrow> int \<Rightarrow> cookie_monster \<Rightarrow> canonical_cookie \<Rightarrow> bool" where
  "sendable u opts current cm cc \<longleftrightarrow>
    \<not> (IsExpired cc current \<and> \<not> keep_expired_cookies cm) \<and>
    \<not> (exclude_httponly opts \<and> c_httponly cc) \<and>
    \<not> (\<not> SchemeIsSecure u \<and> c_secure cc) \<and>
    \<not> (key_scheme cm = EKS_KEEP_RECENT_AND_PURGE_ETLDP1 \<and> \<not> IsDomainMatch cc (u_host u)) \<and>
    IsOnPath cc (u_path u)"

definition touched :: "int \<Rightarrow> bool \<Rightarrow> int \<Rightarrow> cookie_item \<Rightarrow> cookie_item" where
  "touched threshold update current it =
    (if update \<and> \<not> current - c_last_access (ck_cookie it) < threshold
     then it\<lparr>ck_cookie := (ck_cookie it)\<lparr>c_last_access := current\<rparr>\<rparr> else it)"

lemma touched_no_update [simp]: "touched th False current it = it"
  by (simp add: touched_def)

lemma static_touched [simp]: "static_item (touched th upd current it) = static_item it"
  by (simp add: touched_def static_item_def)

lemma InternalUpdate_fst:
  "fst (InternalUpdateCookieAccessTime it current cm) = touched (last_access_threshold cm) True current it"
  by (simp add: InternalUpdateCookieAccessTime_def touched_def Let_def)

lemma InternalUpdate_cookies:
  "cm_cookies (snd (InternalUpdateCookieAccessTime it current cm)) =
     (if current - c_last_access (ck_cookie it) < last_access_threshold cm then cm_cookies cm
      else map (\<lambda>x. if ck_ptr x = ck_ptr it
                    then x\<lparr>ck_cookie := (ck_cookie it)\<lparr>c_last_access := current\<rparr>\<rparr> else x) (cm_cookies cm))"
  by (simp add: InternalUpdateCookieAccessTime_def Let_def)

lemma InternalUpdate_fields [cm_fields, simp]:
  "cm_initialized (snd (InternalUpdateCookieAccessTime it current cm)) = cm_initialized cm"
  "key_scheme (snd (InternalUpdateCookieAccessTime it current cm)) = key_scheme cm"
  "has_store (snd (InternalUpdateCookieAccessTime it current cm)) = has_store cm"
  "keep_expired_cookies (snd (InternalUpdateCookieAccessTime it current cm)) = keep_expired_cookies cm"
  "cm_next (snd (InternalUpdateCookieAccessTime it current cm)) = cm_next cm"
  "cookieable_schemes (snd (InternalUpdateCookieAccessTime it current cm)) = cookieable_schemes cm"
  "last_access_threshold (snd (InternalUpdateCookieAccessTime it current cm)) = last_access_threshold cm"
  by (simp_all add: InternalUpdateCookieAccessTime_def Let_def)

lemma thinner_update:
  assumes "distinct (map ck_ptr (cm_cookies cm))" "it \<in> set (cm_cookies cm)"
  shows "thinner cm (snd (InternalUpdateCookieAccessTime it current cm))"
proof (rule thinner_same)
  show "map static_item (cm_cookies (snd (InternalUpdateCookieAccessTime it current cm)))
        = map static_item (cm_cookies cm)"
    unfolding InternalUpdate_cookies
    using map_static_update [OF assms, of "(ck_cookie it)\<lparr>c_last_access := current\<rparr>"]
    by (simp add: static_item_def del: map_map)
qed simp_all

text \<open>One step of the loop: what becomes of the store, and what the cookie adds to the result.\<close>

definition find_step ::
  "web_url \<Rightarrow> cookie_options \<Rightarrow> int \<Rightarrow> bool \<Rightarrow> cookie_item \<Rightarrow> cookie_monster \<Rightarrow> cookie_monster" where
  "find_step u opts current upd it cm =
    (if IsExpired (ck_cookie it) current \<and> \<not> keep_expired_cookies cm
     then InternalDeleteCookie it True DELETE_COOKIE_EXPIRED cm
     else if upd \<and> sendable u opts current cm (ck_cookie it)
     then snd (InternalUpdateCookieAccessTime it current cm) else cm)"

lemma find_in_range_step:
  "find_in_range u opts current upd (it # its) cm =
    (let (found, cm') = find_in_range u opts current upd its (find_step u opts current upd it cm)
     in ((if sendable u opts current cm (ck_cookie it)
          then [touched (last_access_threshold cm) upd current it] else []) @ found, cm'))"
  using InternalUpdate_fst [of it current cm]
  by (cases "InternalUpdateCookieAccessTime it current cm")
     (auto simp: find_step_def sendable_def Let_def split: prod.splits)

lemma find_step_fields [simp]:
  "cm_initialized (find_step u opts current upd it cm) = cm_initialized cm"
  "key_scheme (find_step u opts current upd it cm) = key_scheme cm"
  "keep_expired_cookies (find_step u opts current upd it cm) = keep_expired_cookies cm"
  "last_access_threshold (find_step u opts current upd it cm) = last_access_threshold cm"
  by (simp_all add: find_step_def)

lemma sendable_config:
  "keep_expired_cookies cm' = keep_expired_cookies cm \<Longrightarrow> key_scheme cm' = key_scheme cm \<Longrightarrow>
   sendable u opts current cm' cc = sendable u opts current cm cc"
  by (simp add: sendable_def)

lemma find_in_range_fst:
  "fst (find_in_range u opts current upd its cm) =
     map (touched (last_access_threshold cm) upd current)
       (filter (\<lambda>it. sendable u opts current cm (ck_cookie it)) its)"
proof (induction its arbitrary: cm)
  case (Cons it its)
  show ?case
    using Cons.IH [of "find_step u opts current upd it cm"]
    by (cases "find_in_range u opts current upd its (find_step u opts current upd it cm)")
       (simp add: find_in_range_step sendable_config [of "find_step u opts current upd it cm" cm]
        del: find_in_range.simps)
qed simp

lemma thinner_find_step:
  assumes "distinct (map ck_ptr (cm_cookies cm))" "it \<in> set (cm_cookies cm)"
  shows "thinner cm (find_step u opts current upd it cm)"
  using thinner_update [OF assms, of current] by (auto simp: find_step_def)

lemma find_step_others:
  assumes "x \<in> set (cm_cookies cm)" "ck_ptr x \<noteq> ck_ptr it"
  shows "x \<in> set (cm_cookies (find_step u opts current upd it cm))"
proof -
  have "x \<in> (\<lambda>x. if ck_ptr x = ck_ptr it then y x else x) ` set (cm_cookies cm)" for y
    using assms by (intro image_eqI [where x = x]) auto
  with assms show ?thesis by (simp add: find_step_def InternalUpdate_cookies)
qed

lemma thinner_distinct_ptrs:
  assumes "thinner cm cm'" "distinct (map ck_ptr (cm_cookies cm))"
  shows "distinct (map ck_ptr (cm_cookies cm'))"
  by (rule subseq_distinct_list [OF thinner_subseq [OF assms(1)] assms(2)]) simp

lemma thinner_find_in_range:
  assumes "distinct (map ck_ptr (cm_cookies cm))" "set its \<subseteq> set (cm_cookies cm)" "distinct (map ck_ptr its)"
  shows "thinner cm (snd (find_in_range u opts current upd its cm))"
  using assms
proof (induction its arbitrary: cm)
  case (Cons it its)
  let ?c = "find_step u opts current upd it cm"
  have t: "thinner cm ?c" using Cons.prems by (intro thinner_find_step) auto
  have "set its \<subseteq> set (cm_cookies ?c)"
    using Cons.prems(2,3) by (auto intro!: find_step_others simp: rev_image_eqI)
  hence "thinner ?c (snd (find_in_range u opts current upd its ?c))"
    using Cons.IH [of ?c] thinner_distinct_ptrs [OF t Cons.prems(1)] Cons.prems(3) by simp
  with thinner_trans [OF t this] show ?case
    by (cases "find_in_range u opts current upd its ?c")
       (simp add: find_in_range_step del: find_in_range.simps)
qed auto

lemma distinct_equal_range:
  "distinct (map ck_ptr (cm_cookies cm)) \<Longrightarrow> distinct (map ck_ptr (equal_range key cm))"
  by (simp add: equal_range_def distinct_map_filter)

lemma equal_range_subset: "set (equal_range key cm) \<subseteq> set (cm_cookies cm)"
  by (auto simp: equal_range_def)

lemma thinner_FindCookiesForKey:
  assumes "distinct (map ck_ptr (cm_cookies cm))"
  shows "thinner cm (snd (FindCookiesForKey key u opts current upd cm))"
  unfolding FindCookiesForKey_def
  by (rule thinner_find_in_range [OF assms equal_range_subset distinct_equal_range [OF assms]])

lemma thinner_probe_domains:
  "distinct (map ck_ptr (cm_cookies cm)) \<Longrightarrow>
   thinner cm (snd (probe_domains key n u opts current upd cm))"
proof (induction key n u opts current upd cm rule: probe_domains.induct)
  case (1 key n u opts current upd cm)
  show ?case
  proof (cases "length key > n")
    case True
    obtain found c1 where 1: "FindCookiesForKey key u opts current upd cm = (found, c1)"
      by (rule prod.exhaust)
    have t: "thinner cm c1" using thinner_FindCookiesForKey [OF "1.prems", of key u opts current upd] 1 by simp
    have "thinner c1 (snd (probe_domains (next_probe key) n u opts current upd c1))"
      using "1.IH" [OF True 1 [symmetric] refl] thinner_distinct_ptrs [OF t "1.prems"] by blast
    with thinner_trans [OF t this] show ?thesis
      using True by (subst probe_domains.simps)
        (cases "probe_domains (next_probe key) n u opts current upd c1", simp add: 1)
  next
    case False
    thus ?thesis by (subst probe_domains.simps) simp
  qed
qed

lemma thinner_FindCookiesForHostAndDomain:
  assumes "distinct (map ck_ptr (cm_cookies cm))"
  shows "thinner cm (snd (FindCookiesForHostAndDomain env u opts upd cm))"
proof -
  obtain now c1 where 1: "CurrentTime env cm = (now, c1)" by (rule prod.exhaust)
  have t1: "thinner cm c1" using thinner_CurrentTime [of cm env] 1 by simp
  let ?key = "GetKey env (key_scheme c1) (u_host u)"
  obtain found c2 where 2: "FindCookiesForKey ?key u opts now upd c1 = (found, c2)" by (rule prod.exhaust)
  have d1: "distinct (map ck_ptr (cm_cookies c1))" by (rule thinner_distinct_ptrs [OF t1 assms])
  have t2: "thinner c1 c2" using thinner_FindCookiesForKey [OF d1, of ?key u opts now upd] 2 by simp
  have t12: "thinner cm c2" by (rule thinner_trans [OF t1 t2])
  let ?n = "length (GetEffectiveDomain env (u_scheme u) ?key)"
  obtain more c3 where 3: "probe_domains (CHR ''.'' # ?key) ?n u opts now upd c2 = (more, c3)"
    by (rule prod.exhaust)
  have "thinner c2 c3"
    using thinner_probe_domains [OF thinner_distinct_ptrs [OF t2 d1], of "CHR ''.'' # ?key" ?n u opts now upd] 3
    by simp
  with thinner_trans [OF t12 this] t12 show ?thesis
    unfolding FindCookiesForHostAndDomain_def
    using t2 by (simp add: 1 2 3 Let_def thinner_def [of c1 c2])
qed

end
