(* ===== verification/CookieSteps.thy ===== *)
theory CookieSteps
  imports CookieInv
begin

text \<open>
  The calls of the cookie store one after the other: every call returns and keeps \<open>cm_ok\<close>. In
  particular the \<open>CHECK\<close> of \<open>DeleteAnyEquivalentCookie\<close> never fails.
\<close>

subsection \<open>Inserting\<close>

lemma multimap_insert_simps [simp]:
  "multimap_insert it [] = [it]"
  "multimap_insert it (x # xs) = (if ck_key it < ck_key x then it # x # xs else x # multimap_insert it xs)"
  by (simp_all add: multimap_insert_def)

lemma set_multimap_insert [simp]: "set (multimap_insert it its) = insert it (set its)"
  by (induction its) auto

lemma length_multimap_insert [simp]: "length (multimap_insert it its) = Suc (length its)"
  by (induction its) auto

lemma distinct_multimap_insert:
  "distinct (map f (multimap_insert it its)) \<longleftrightarrow> f it \<notin> f ` set its \<and> distinct (map f its)"
  by (induction its) auto

lemma sorted_multimap_insert:
  "sorted (map ck_key its) \<Longrightarrow> sorted (map ck_key (multimap_insert it its))"
proof (induction its)
  case (Cons x xs)
  thus ?case by (auto simp: not_less intro: order.strict_implies_order order.trans)
qed simp

lemma filed_ok_insert:
  assumes ok: "filed_ok env cm"
  shows "filed_ok env (InternalInsertCookie (GetKey env (key_scheme cm) (c_domain cc)) cc s cm)"
proof -
  have "cm_next cm \<notin> ck_ptr ` set (cm_cookies cm)" using filed_okD(4) [OF ok] by force
  moreover have "ck_ptr it < Suc (cm_next cm)" if "it \<in> set (cm_cookies cm)" for it
    using filed_okD(4) [OF ok that] by simp
  ultimately show ?thesis
    using filed_okD(1-3) [OF ok] by (simp add: filed_ok_def distinct_multimap_insert sorted_multimap_insert)
qed

lemma cm_ok_insert:
  assumes ok: "cm_ok env cm" and i: "cm_initialized cm"
    and new: "CookieSignature cc \<notin> set (signatures (cm_cookies cm))"
  shows "cm_ok env (InternalInsertCookie (GetKey env (key_scheme cm) (c_domain cc)) cc s cm)"
proof -
  have "CookieSignature cc \<notin> (\<lambda>it. CookieSignature (ck_cookie it)) ` set (cm_cookies cm)" using new by simp
  with cm_okD [OF ok] i show ?thesis
    by (simp add: cm_ok_def filed_ok_insert distinct_multimap_insert)
qed

subsection \<open>Equivalent cookies\<close>

lemma IsEquivalent_signature: "IsEquivalent a b \<longleftrightarrow> CookieSignature a = CookieSignature b"
  by (simp add: IsEquivalent_def CookieSignature_def)

lemma delete_equivalent_none:
  "\<forall>it \<in> set its. \<not> IsEquivalent ecc (ck_cookie it) \<Longrightarrow>
   delete_equivalent ecc skip exp found skipped its cm = Some (skipped, cm)"
  by (induction its) auto

text \<open>With at most one equivalent cookie the loop returns: it deletes that cookie or skips it.\<close>

lemma delete_equivalent_eq:
  "distinct (signatures its) \<Longrightarrow>
   delete_equivalent ecc skip exp False skipped its cm =
     (case filter (\<lambda>it. IsEquivalent ecc (ck_cookie it)) its of
        [] \<Rightarrow> Some (skipped, cm)
      | it # _ \<Rightarrow>
          if skip \<and> c_httponly (ck_cookie it) then Some (True, cm)
          else Some (skipped, InternalDeleteCookie it True
                (if exp then DELETE_COOKIE_EXPIRED_OVERWRITE else DELETE_COOKIE_OVERWRITE) cm))"
proof (induction its)
  case (Cons it its)
  show ?case
  proof (cases "IsEquivalent ecc (ck_cookie it)")
    case True
    hence "\<forall>x \<in> set its. \<not> IsEquivalent ecc (ck_cookie x)"
      using Cons.prems by (auto simp: IsEquivalent_signature image_iff)
    with True show ?thesis by (simp add: delete_equivalent_none)
  qed (use Cons in auto)
qed simp

lemma DeleteAnyEquivalentCookie_spec:
  assumes ok: "cm_ok env cm" and key: "key = GetKey env (key_scheme cm) (c_domain ecc)"
  shows "\<exists>skipped cm'. DeleteAnyEquivalentCookie key ecc skip exp cm = Some (skipped, cm') \<and>
    thinner cm cm' \<and>
    (if skipped then cm' = cm
     else cm_cookies cm' = filter (\<lambda>it. CookieSignature (ck_cookie it) \<noteq> CookieSignature ecc) (cm_cookies cm))"
proof -
  let ?its = "equal_range key cm"
  let ?eq = "\<lambda>it. IsEquivalent ecc (ck_cookie it)"
  have d: "distinct (signatures ?its)"
    using cm_okD(2) [OF ok] by (simp add: equal_range_def distinct_map_filter)
  have range: "it \<in> set ?its" if "it \<in> set (cm_cookies cm)" "?eq it" for it
    using that filed_okD(2) [OF cm_okD(1) [OF ok] that(1)] key by (simp add: equal_range_def IsEquivalent_def)
  show ?thesis
  proof (cases "filter ?eq ?its")
    case Nil
    have "CookieSignature (ck_cookie it) \<noteq> CookieSignature ecc" if "it \<in> set (cm_cookies cm)" for it
    proof
      assume eq: "CookieSignature (ck_cookie it) = CookieSignature ecc"
      hence "?eq it" by (simp add: IsEquivalent_signature)
      with range [OF that this] Nil show False by (auto simp: filter_empty_conv)
    qed
    hence "filter (\<lambda>it. CookieSignature (ck_cookie it) \<noteq> CookieSignature ecc) (cm_cookies cm) = cm_cookies cm"
      by (simp add: filter_id_conv)
    with Nil show ?thesis
      by (intro exI [of _ False] exI [of _ cm])
         (simp add: DeleteAnyEquivalentCookie_def delete_equivalent_eq [OF d])
  next
    case (Cons it rest)
    hence it: "it \<in> set ?its" "?eq it" by (auto dest: filter_eq_ConsD)
    hence mem: "it \<in> set (cm_cookies cm)" using equal_range_subset by blast
    have ptr: "(ck_ptr x \<noteq> ck_ptr it) = (CookieSignature (ck_cookie x) \<noteq> CookieSignature ecc)"
      if "x \<in> set (cm_cookies cm)" for x
    proof -
      have "ck_ptr x = ck_ptr it \<longleftrightarrow> x = it"
        using that mem filed_okD(3) [OF cm_okD(1) [OF ok]] by (auto simp: distinct_map inj_on_def)
      moreover have "CookieSignature (ck_cookie x) = CookieSignature (ck_cookie it) \<longleftrightarrow> x = it"
        using that mem cm_okD(2) [OF ok] by (auto simp: distinct_map inj_on_def)
      ultimately show ?thesis using it(2) by (simp add: IsEquivalent_signature)
    qed
    have "filter (\<lambda>x. ck_ptr x \<noteq> ck_ptr it) (cm_cookies cm)
        = filter (\<lambda>x. CookieSignature (ck_cookie x) \<noteq> CookieSignature ecc) (cm_cookies cm)"
      by (rule filter_cong [OF refl ptr])
    with Cons show ?thesis
      by (auto simp: DeleteAnyEquivalentCookie_def delete_equivalent_eq [OF d])
  qed
qed

lemma SetCanonicalCookie_ok:
  assumes ok: "cm_ok env cm" and i: "cm_initialized cm"
  shows "\<exists>r cm'. SetCanonicalCookie env cc t opts cm = Some (r, cm') \<and> cm_ok env cm' \<and> cm_initialized cm'"
proof -
  let ?key = "GetKey env (key_scheme cm) (c_domain cc)"
  obtain skipped c1 where 1: "DeleteAnyEquivalentCookie ?key cc (exclude_httponly opts) (IsExpired cc t) cm
      = Some (skipped, c1)" and t1: "thinner cm c1"
    and c1: "if skipped then c1 = cm else
      cm_cookies c1 = filter (\<lambda>it. CookieSignature (ck_cookie it) \<noteq> CookieSignature cc) (cm_cookies cm)"
    using DeleteAnyEquivalentCookie_spec [OF ok refl] by blast
  have ok1: "cm_ok env c1" and i1: "cm_initialized c1" and ks: "key_scheme c1 = key_scheme cm"
    using cm_ok_thinner [OF ok t1] t1 i by (simp_all add: thinner_def)
  show ?thesis
  proof (cases skipped)
    case True
    with 1 ok1 i1 show ?thesis
      by (intro exI [of _ False] exI [of _ c1]) (simp add: SetCanonicalCookie_def)
  next
    case False
    define c2 where "c2 = (if \<not> IsExpired cc t \<or> keep_expired_cookies c1
      then InternalInsertCookie ?key cc True c1 else c1)"
    have "CookieSignature cc \<notin> set (signatures (cm_cookies c1))" using c1 False by auto
    hence ok2: "cm_ok env c2" and i2: "cm_initialized c2"
      using cm_ok_insert [OF ok1 i1, of cc True] ok1 i1 by (simp_all add: c2_def ks)
    obtain n c3 where 3: "GarbageCollect env t ?key c2 = (n, c3)" by (rule prod.exhaust)
    have t3: "thinner c2 c3" using thinner_GarbageCollect [of c2 env t ?key] 3 by simp
    have "cm_ok env c3" "cm_initialized c3" using cm_ok_thinner [OF ok2 t3] t3 i2 by (simp_all add: thinner_def)
    with 1 False 3 show ?thesis
      by (intro exI [of _ True] exI [of _ c3]) (simp add: SetCanonicalCookie_def c2_def)
  qed
qed

subsection \<open>Loading\<close>

lemma load_cookies_ok:
  assumes "filed_ok env cm"
    and "distinct (map (\<lambda>it. c_creation (ck_cookie it)) (cm_cookies cm))"
    and "(\<lambda>it. c_creation (ck_cookie it)) ` set (cm_cookies cm) \<subseteq> set seen"
  shows "filed_ok env (snd (load_cookies env ccs seen earliest cm)) \<and>
    distinct (map (\<lambda>it. c_creation (ck_cookie it)) (cm_cookies (snd (load_cookies env ccs seen earliest cm)))) \<and>
    cm_initialized (snd (load_cookies env ccs seen earliest cm)) = cm_initialized cm"
  using assms
proof (induction ccs arbitrary: seen earliest cm)
  case (Cons cc ccs)
  show ?case
  proof (cases "c_creation cc \<in> set seen")
    case False
    let ?e = "if earliest = 0 \<or> c_last_access cc < earliest then c_last_access cc else earliest"
    let ?c = "InternalInsertCookie (GetKey env (key_scheme cm) (c_domain cc)) cc False cm"
    have "c_creation cc \<notin> (\<lambda>it. c_creation (ck_cookie it)) ` set (cm_cookies cm)"
      using False Cons.prems(3) by blast
    moreover have "(\<lambda>it. c_creation (ck_cookie it)) ` set (cm_cookies ?c) \<subseteq> set (c_creation cc # seen)"
      using Cons.prems(3) by auto
    ultimately have "filed_ok env (snd (load_cookies env ccs (c_creation cc # seen) ?e ?c)) \<and>
      distinct (map (\<lambda>it. c_creation (ck_cookie it))
        (cm_cookies (snd (load_cookies env ccs (c_creation cc # seen) ?e ?c)))) \<and>
      cm_initialized (snd (load_cookies env ccs (c_creation cc # seen) ?e ?c)) = cm_initialized ?c"
      using Cons.prems(1,2)
      by (intro Cons.IH filed_ok_insert) (simp_all add: distinct_multimap_insert)
    with False show ?thesis by simp
  qed (use Cons in simp)
qed simp

lemma set_set_insert_desc:
  "c_creation (ck_cookie it) \<notin> (\<lambda>x. c_creation (ck_cookie x)) ` set its \<Longrightarrow>
   set (set_insert_desc it its) = insert it (set its)"
  by (induction its) auto

lemma set_insert_desc_not_Nil [simp]: "set_insert_desc it its \<noteq> []"
  by (cases its) auto

lemma set_insert_desc_sorted:
  "sorted_wrt (\<lambda>x y. c_creation (ck_cookie x) > c_creation (ck_cookie y)) its \<Longrightarrow>
   sorted_wrt (\<lambda>x y. c_creation (ck_cookie x) > c_creation (ck_cookie y)) (set_insert_desc it its)"
proof (induction its)
  case (Cons x xs)
  have "set (set_insert_desc it xs) \<subseteq> insert it (set xs)" by (induction xs) auto
  with Cons show ?case by auto
qed simp

abbreviation latest_first :: "cookie_item list \<Rightarrow> bool" where
  "latest_first \<equiv> sorted_wrt (\<lambda>x y. c_creation (ck_cookie x) > c_creation (ck_cookie y))"

lemma signature_less_irrefl: "\<not> signature_less a a"
  by (cases a) simp

lemma signature_less_trans: "signature_less a b \<Longrightarrow> signature_less b c \<Longrightarrow> signature_less a c"
  by (cases a; cases b; cases c) (auto split: if_splits)

lemma signature_less_total: "a \<noteq> b \<Longrightarrow> \<not> signature_less a b \<Longrightarrow> signature_less b a"
  by (cases a; cases b) (auto split: if_splits)

lemma equivalence_insert_keys:
  "fst ` set (equivalence_insert sg it m) = insert sg (fst ` set m)"
  by (induction sg it m rule: equivalence_insert.induct) auto

lemma equivalence_insert_sorted:
  "sorted_wrt signature_less (map fst m) \<Longrightarrow>
   sorted_wrt signature_less (map fst (equivalence_insert sg it m))"
proof (induction sg it m rule: equivalence_insert.induct)
  case (2 sg it sg' its m)
  show ?case
  proof (cases "sg = sg' \<or> signature_less sg sg'")
    case True
    thus ?thesis using 2 signature_less_trans by auto
  next
    case False
    hence "signature_less sg' sg" using signature_less_total by blast
    moreover have "set (map fst (equivalence_insert sg it m)) = insert sg (set (map fst m))"
      using equivalence_insert_keys by simp
    ultimately show ?thesis using False 2 by simp
  qed
qed simp

lemma map_of_equivalence_insert:
  assumes "sorted_wrt signature_less (map fst m)"
  shows "map_of (equivalence_insert sg it m) =
    (map_of m)(sg \<mapsto> set_insert_desc it (case map_of m sg of None \<Rightarrow> [] | Some d \<Rightarrow> d))"
  using assms
proof (induction sg it m rule: equivalence_insert.induct)
  case (2 sg it sg' its m)
  consider "sg = sg'" | "sg \<noteq> sg'" "signature_less sg sg'" | "sg \<noteq> sg'" "\<not> signature_less sg sg'" by blast
  thus ?case
  proof cases
    case 2
    have "sg \<notin> fst ` set m"
      using "2.prems" 2 signature_less_trans signature_less_irrefl by fastforce
    hence "map_of m sg = None" by (simp add: map_of_eq_None_iff)
    with 2 show ?thesis by (auto simp: fun_eq_iff)
  qed (use 2 in \<open>auto simp: fun_upd_twist\<close>)
qed simp

text \<open>The map of \<open>TrimDuplicateCookiesForKey\<close>: under each signature its cookies, the latest first.\<close>

lemma equivalence_map_spec:
  assumes "distinct (map (\<lambda>it. c_creation (ck_cookie it)) its)"
  shows "sorted_wrt signature_less (map fst (equivalence_map its)) \<and>
    (\<forall>sg. case map_of (equivalence_map its) sg of
       None \<Rightarrow> \<forall>it \<in> set its. CookieSignature (ck_cookie it) \<noteq> sg
     | Some d \<Rightarrow> d \<noteq> [] \<and> latest_first d \<and> set d = {it \<in> set its. CookieSignature (ck_cookie it) = sg})"
  using assms
proof (induction its rule: rev_induct)
  case Nil
  thus ?case by (simp add: equivalence_map_def)
next
  case (snoc it its)
  let ?m = "equivalence_map its"
  let ?sg = "CookieSignature (ck_cookie it)"
  have step: "equivalence_map (its @ [it]) = equivalence_insert ?sg it ?m"
    by (simp add: equivalence_map_def)
  have d0: "distinct (map (\<lambda>it. c_creation (ck_cookie it)) its)" using snoc.prems by simp
  have IH: "sorted_wrt signature_less (map fst ?m)"
    and IH2: "case map_of ?m sg of
       None \<Rightarrow> \<forall>it \<in> set its. CookieSignature (ck_cookie it) \<noteq> sg
     | Some d \<Rightarrow> d \<noteq> [] \<and> latest_first d \<and> set d = {it \<in> set its. CookieSignature (ck_cookie it) = sg}" for sg
    using conjunct1 [OF snoc.IH [OF d0]] spec [OF conjunct2 [OF snoc.IH [OF d0]], of sg] by blast+
  have new: "c_creation (ck_cookie it) \<notin> (\<lambda>x. c_creation (ck_cookie x)) ` set its"
    using snoc.prems by auto
  show ?case
  proof (intro conjI allI)
    show "sorted_wrt signature_less (map fst (equivalence_map (its @ [it])))"
      unfolding step by (rule equivalence_insert_sorted [OF IH])
    fix sg
    show "case map_of (equivalence_map (its @ [it])) sg of
        None \<Rightarrow> \<forall>x \<in> set (its @ [it]). CookieSignature (ck_cookie x) \<noteq> sg
      | Some d \<Rightarrow> d \<noteq> [] \<and> latest_first d \<and>
          set d = {x \<in> set (its @ [it]). CookieSignature (ck_cookie x) = sg}"
    proof (cases "sg = ?sg")
      case False
      with IH2 [of sg] show ?thesis
        unfolding step map_of_equivalence_insert [OF IH] by (auto split: option.splits)
    next
      case True
      show ?thesis
      proof (cases "map_of ?m ?sg")
        case None
        with IH2 [of ?sg] True show ?thesis
          unfolding step map_of_equivalence_insert [OF IH] by auto
      next
        case (Some d)
        with IH2 [of ?sg] have d: "latest_first d" "set d = {x \<in> set its. CookieSignature (ck_cookie x) = ?sg}"
          by simp_all
        have "c_creation (ck_cookie it) \<notin> (\<lambda>x. c_creation (ck_cookie x)) ` set d" using new d(2) by auto
        from set_set_insert_desc [OF this] set_insert_desc_sorted [OF d(1)] Some True d(2) show ?thesis
          unfolding step map_of_equivalence_insert [OF IH] by auto
      qed
    qed
  qed
qed

lemma delete_items_append:
  "delete_items (a @ b) s c cm = delete_items b s c (delete_items a s c cm)"
  by (simp add: delete_items_def)

definition duplicates :: "cookie_item list \<Rightarrow> cookie_item list" where
  "duplicates its = concat (map (\<lambda>e. tl (snd e)) (equivalence_map its))"

lemma in_duplicates:
  "x \<in> set (duplicates its) \<longleftrightarrow> (\<exists>e \<in> set (equivalence_map its). x \<in> set (tl (snd e)))"
  by (auto simp: duplicates_def)

lemma sorted_wrt_irrefl_distinct: "sorted_wrt P xs \<Longrightarrow> (\<And>x. \<not> P x x) \<Longrightarrow> distinct xs"
  by (induction xs) auto

lemma Trim_eq:
  "TrimDuplicateCookiesForKey its cm =
     delete_items (duplicates its) True DELETE_COOKIE_DUPLICATE_IN_BACKING_STORE cm"
proof -
  have "fold (\<lambda>(sg, dupes) cm. if length dupes \<le> 1 then cm
          else delete_items (tl dupes) True DELETE_COOKIE_DUPLICATE_IN_BACKING_STORE cm) m cm
      = delete_items (concat (map (\<lambda>e. tl (snd e)) m)) True DELETE_COOKIE_DUPLICATE_IN_BACKING_STORE cm" for m
  proof (induction m arbitrary: cm)
    case (Cons x m)
    obtain sg d where x: "x = (sg, d)" by (cases x)
    have "length d \<le> 1 \<Longrightarrow> tl d = []" by (cases d) auto
    with Cons show ?case by (simp add: x delete_items_append)
  qed simp
  thus ?thesis by (simp add: TrimDuplicateCookiesForKey_def duplicates_def)
qed

text \<open>What is no duplicate is the latest cookie of its signature.\<close>

lemma not_duplicate_is_latest:
  assumes c: "distinct (map (\<lambda>it. c_creation (ck_cookie it)) its)"
    and x: "x \<in> set its" "x \<notin> set (duplicates its)"
    and y: "y \<in> set its" "CookieSignature (ck_cookie y) = CookieSignature (ck_cookie x)"
  shows "y = x \<or> c_creation (ck_cookie y) < c_creation (ck_cookie x) \<and> y \<in> set (duplicates its)"
proof -
  let ?m = "equivalence_map its" and ?sg = "CookieSignature (ck_cookie x)"
  have spec: "case map_of ?m ?sg of
       None \<Rightarrow> \<forall>it \<in> set its. CookieSignature (ck_cookie it) \<noteq> ?sg
     | Some d \<Rightarrow> d \<noteq> [] \<and> latest_first d \<and> set d = {it \<in> set its. CookieSignature (ck_cookie it) = ?sg}"
    using equivalence_map_spec [OF c] by blast
  then obtain d where m: "map_of ?m ?sg = Some d" and s: "latest_first d"
    and d: "set d = {it \<in> set its. CookieSignature (ck_cookie it) = ?sg}"
    using x(1) by (cases "map_of ?m ?sg") auto
  then obtain h t where ht: "d = h # t" using x(1) by (cases d) auto
  have "set t \<subseteq> set (duplicates its)"
    using map_of_SomeD [OF m] ht by (auto simp: in_duplicates intro!: bexI [of _ "(?sg, d)"])
  moreover have "x \<in> set d" "y \<in> set d" using d x(1) y by auto
  ultimately show ?thesis using x(2) s by (auto simp: ht)
qed

lemma duplicates_subset:
  assumes "distinct (map (\<lambda>it. c_creation (ck_cookie it)) its)"
  shows "set (duplicates its) \<subseteq> set its"
proof
  fix x assume "x \<in> set (duplicates its)"
  then obtain e where "e \<in> set (equivalence_map its)" "x \<in> set (tl (snd e))"
    unfolding in_duplicates by blast
  then obtain sg d where sd: "(sg, d) \<in> set (equivalence_map its)" "x \<in> set (tl d)"
    by (metis prod.collapse)
  have m: "sorted_wrt signature_less (map fst (equivalence_map its))"
    using equivalence_map_spec [OF assms] by blast
  have "distinct (map fst (equivalence_map its))"
    by (rule sorted_wrt_irrefl_distinct [OF m]) (rule signature_less_irrefl)
  hence "map_of (equivalence_map its) sg = Some d" using sd(1) by simp
  moreover have "case map_of (equivalence_map its) sg of
       None \<Rightarrow> \<forall>it \<in> set its. CookieSignature (ck_cookie it) \<noteq> sg
     | Some d \<Rightarrow> d \<noteq> [] \<and> latest_first d \<and> set d = {it \<in> set its. CookieSignature (ck_cookie it) = sg}"
    using equivalence_map_spec [OF assms] by blast
  ultimately have "set d \<subseteq> set its" by auto
  thus "x \<in> set its" using sd(2) by (cases d) auto
qed

abbreviation creations :: "cookie_item list \<Rightarrow> int list" where
  "creations its \<equiv> map (\<lambda>it. c_creation (ck_cookie it)) its"

lemma equal_range_delete_items:
  "equal_range k (delete_items dl s c cm) = filter (\<lambda>x. ck_ptr x \<notin> ck_ptr ` set dl) (equal_range k cm)"
  by (auto simp: equal_range_def intro: filter_cong)

text \<open>After a trim, the range it was given has no two equivalent cookies.\<close>

lemma Trim_distinct:
  assumes c: "distinct (creations (cm_cookies cm))" and p: "distinct (map ck_ptr (cm_cookies cm))"
  shows "distinct (signatures (equal_range k (TrimDuplicateCookiesForKey (equal_range k cm) cm)))"
proof -
  let ?its = "equal_range k cm"
  have c': "distinct (creations ?its)" using c by (simp add: equal_range_def distinct_map_filter)
  have "x = y" if x: "x \<in> set ?its" "ck_ptr x \<notin> ck_ptr ` set (duplicates ?its)"
    and y: "y \<in> set ?its" "ck_ptr y \<notin> ck_ptr ` set (duplicates ?its)"
    and s: "CookieSignature (ck_cookie x) = CookieSignature (ck_cookie y)" for x y
  proof -
    have "x \<notin> set (duplicates ?its)" "y \<notin> set (duplicates ?its)" using x(2) y(2) by blast+
    with not_duplicate_is_latest [OF c' x(1) _ y(1) s [symmetric]] show ?thesis by blast
  qed
  moreover have "distinct ?its"
    using p by (auto simp: equal_range_def distinct_map)
  ultimately show ?thesis
    by (auto simp: Trim_eq equal_range_delete_items distinct_map inj_on_def)
qed

lemma Ensure_fold:
  assumes c: "distinct (creations (cm_cookies cm))" and p: "distinct (map ck_ptr (cm_cookies cm))"
  shows "\<exists>dl. fold (\<lambda>key cm. TrimDuplicateCookiesForKey (equal_range key cm) cm) ks cm
                = delete_items dl True DELETE_COOKIE_DUPLICATE_IN_BACKING_STORE cm \<and>
           (\<forall>k. k \<in> set ks \<or> distinct (signatures (equal_range k cm)) \<longrightarrow> distinct (signatures (equal_range k
              (delete_items dl True DELETE_COOKIE_DUPLICATE_IN_BACKING_STORE cm))))"
  using assms
proof (induction ks arbitrary: cm)
  case Nil
  show ?case by (intro exI [of _ "[]"]) simp
next
  case (Cons k ks)
  let ?del = "\<lambda>dl. delete_items dl True DELETE_COOKIE_DUPLICATE_IN_BACKING_STORE"
  let ?d = "duplicates (equal_range k cm)"
  let ?c = "?del ?d cm"
  have "distinct (creations (cm_cookies ?c))" "distinct (map ck_ptr (cm_cookies ?c))"
    using Cons.prems by (simp_all add: distinct_map_filter)
  from Cons.IH [OF this] obtain dl where
    dl: "fold (\<lambda>key cm. TrimDuplicateCookiesForKey (equal_range key cm) cm) ks ?c = ?del dl ?c"
    and ok: "\<And>j. j \<in> set ks \<or> distinct (signatures (equal_range j ?c)) \<Longrightarrow>
      distinct (signatures (equal_range j (?del dl ?c)))" by blast
  have "distinct (signatures (equal_range k ?c))"
    using Trim_distinct [OF Cons.prems, of k] by (simp add: Trim_eq)
  moreover have "distinct (signatures (equal_range j ?c))" if "distinct (signatures (equal_range j cm))" for j
    using that by (simp add: equal_range_delete_items distinct_map_filter)
  ultimately have "\<forall>j. j \<in> set (k # ks) \<or> distinct (signatures (equal_range j cm)) \<longrightarrow>
      distinct (signatures (equal_range j (?del (?d @ dl) cm)))"
    using ok by (auto simp: delete_items_append)
  moreover have "fold (\<lambda>key cm. TrimDuplicateCookiesForKey (equal_range key cm) cm) (k # ks) cm = ?del (?d @ dl) cm"
    using dl by (simp add: Trim_eq delete_items_append)
  ultimately show ?case by blast
qed

lemma Ensure_spec:
  assumes ok: "filed_ok env cm" and c: "distinct (creations (cm_cookies cm))"
  shows "\<exists>dl. EnsureCookiesMapIsValid cm
            = delete_items dl True DELETE_COOKIE_DUPLICATE_IN_BACKING_STORE cm"
    and "filed_ok env (EnsureCookiesMapIsValid cm)"
    and "distinct (signatures (cm_cookies (EnsureCookiesMapIsValid cm)))"
proof -
  let ?r = "EnsureCookiesMapIsValid cm"
  obtain dl where dl: "?r = delete_items dl True DELETE_COOKIE_DUPLICATE_IN_BACKING_STORE cm"
    and d: "\<And>k. k \<in> ck_key ` set (cm_cookies cm) \<Longrightarrow> distinct (signatures (equal_range k ?r))"
    using Ensure_fold [OF c filed_okD(3) [OF ok], of "remdups_adj (map ck_key (cm_cookies cm))"]
    by (auto simp: EnsureCookiesMapIsValid_def)
  show "\<exists>dl. EnsureCookiesMapIsValid cm = delete_items dl True DELETE_COOKIE_DUPLICATE_IN_BACKING_STORE cm"
    using dl by blast
  show okr: "filed_ok env ?r" unfolding dl by (rule filed_ok_thinner [OF ok thinner_delete_items])
  have "x = y" if x: "x \<in> set (cm_cookies ?r)" and y: "y \<in> set (cm_cookies ?r)"
    and s: "CookieSignature (ck_cookie x) = CookieSignature (ck_cookie y)" for x y
  proof -
    have "c_domain (ck_cookie x) = c_domain (ck_cookie y)" using s by (simp add: CookieSignature_def)
    hence "ck_key x = ck_key y" using filed_okD(2) [OF okr x] filed_okD(2) [OF okr y] by simp
    hence r: "x \<in> set (equal_range (ck_key x) ?r)" "y \<in> set (equal_range (ck_key x) ?r)"
      using x y by (simp_all add: equal_range_def)
    have "ck_key x \<in> ck_key ` set (cm_cookies cm)" using x by (auto simp: dl)
    from d [OF this] r s show ?thesis by (auto simp: distinct_map inj_on_def)
  qed
  moreover have "distinct (cm_cookies ?r)" using filed_okD(3) [OF okr] by (simp only: distinct_map)
  ultimately show "distinct (signatures (cm_cookies (EnsureCookiesMapIsValid cm)))"
    by (simp add: distinct_map inj_on_def)
qed

lemma InitIfNecessary_ok:
  assumes ok: "cm_ok env cm"
  shows "cm_ok env (InitIfNecessary env cm) \<and> cm_initialized (InitIfNecessary env cm)"
proof (cases "cm_initialized cm \<or> \<not> has_store cm")
  case True
  thus ?thesis using ok by (auto simp: InitIfNecessary_def cm_ok_def filed_ok_def)
next
  case False
  obtain e c1 where 1: "load_cookies env (store_Load env) [] 0 cm = (e, c1)" by (rule prod.exhaust)
  have "cm_cookies cm = []" using ok False by (simp add: cm_ok_def)
  hence "filed_ok env c1 \<and> distinct (creations (cm_cookies c1)) \<and> cm_initialized c1 = cm_initialized cm"
    using load_cookies_ok [OF cm_okD(1) [OF ok], of "[]" "store_Load env" 0] 1 by simp
  hence f: "filed_ok env (c1\<lparr>earliest_access_time := e\<rparr>)"
    "distinct (creations (cm_cookies (c1\<lparr>earliest_access_time := e\<rparr>)))"
    by (simp_all add: filed_ok_def)
  from Ensure_spec(2,3) [OF f] False 1 show ?thesis
    by (simp add: InitIfNecessary_def InitStore_def cm_ok_def filed_ok_def)
qed

subsection \<open>Every call\<close>

datatype cookie_call =
    Call_SetCookieWithOptions web_url string cookie_options
  | Call_SetCookieWithCreationTime web_url string int
  | Call_SetCookiesWithOptions web_url "string list" cookie_options
  | Call_SetCookieWithDetails web_url string string string string int bool bool
  | Call_GetCookiesWithOptions web_url cookie_options
  | Call_GetAllCookies
  | Call_GetAllCookiesForURLWithOptions web_url cookie_options
  | Call_DeleteAll bool
  | Call_DeleteAllCreatedBetween int int bool
  | Call_DeleteAllForHost web_url
  | Call_DeleteCanonicalCookie canonical_cookie
  | Call_DeleteCookie web_url string
  | Call_SetCookieableSchemes "string list"
  | Call_SetExpiryAndKeyScheme ExpiryAndKeyScheme
  | Call_SetKeepExpiredCookies
  | Call_SetClearPersistentStoreOnExit bool
  | Call_FlushStore bool

fun do_call :: "cookie_env \<Rightarrow> cookie_call \<Rightarrow> cookie_monster \<Rightarrow> cookie_monster option" where
  "do_call env (Call_SetCookieWithOptions u line opts) cm =
     map_option snd (SetCookieWithOptions env u line opts cm)"
| "do_call env (Call_SetCookieWithCreationTime u line t) cm =
     map_option snd (SetCookieWithCreationTime env u line t cm)"
| "do_call env (Call_SetCookiesWithOptions u cookie_lines opts) cm =
     SetCookiesWithOptions env u cookie_lines opts cm"
| "do_call env (Call_SetCookieWithDetails u n v d p t s h) cm =
     map_option snd (SetCookieWithDetails env u n v d p t s h cm)"
| "do_call env (Call_GetCookiesWithOptions u opts) cm = Some (snd (GetCookiesWithOptions env u opts cm))"
| "do_call env Call_GetAllCookies cm = Some (snd (GetAllCookies env cm))"
| "do_call env (Call_GetAllCookiesForURLWithOptions u opts) cm =
     Some (snd (GetAllCookiesForURLWithOptions env u opts cm))"
| "do_call env (Call_DeleteAll sync) cm = Some (snd (DeleteAll env sync cm))"
| "do_call env (Call_DeleteAllCreatedBetween b e sync) cm =
     Some (snd (DeleteAllCreatedBetween env b e sync cm))"
| "do_call env (Call_DeleteAllForHost u) cm = Some (snd (DeleteAllForHost env u cm))"
| "do_call env (Call_DeleteCanonicalCookie cc) cm = Some (snd (DeleteCanonicalCookie env cc cm))"
| "do_call env (Call_DeleteCookie u name) cm = Some (CookieMonster_DeleteCookie env u name cm)"
| "do_call env (Call_SetCookieableSchemes schemes) cm = Some (SetCookieableSchemes schemes cm)"
| "do_call env (Call_SetExpiryAndKeyScheme ks) cm = Some (SetExpiryAndKeyScheme ks cm)"
| "do_call env Call_SetKeepExpiredCookies cm = Some (SetKeepExpiredCookies cm)"
| "do_call env (Call_SetClearPersistentStoreOnExit b) cm = Some (SetClearPersistentStoreOnExit b cm)"
| "do_call env (Call_FlushStore b) cm = Some (FlushStore b cm)"

text \<open>The two calls whose \<open>DCHECK\<close> wants them before the store is used.\<close>

fun call_allowed :: "cookie_call \<Rightarrow> cookie_monster \<Rightarrow> bool" where
  "call_allowed (Call_SetCookieableSchemes schemes) cm = (\<not> cm_initialized cm)"
| "call_allowed (Call_SetExpiryAndKeyScheme ks) cm = (\<not> cm_initialized cm)"
| "call_allowed c cm = True"

text \<open>The states of a store whose owner respects those two.\<close>

inductive cookie_reaches :: "cookie_env \<Rightarrow> cookie_monster \<Rightarrow> bool" for env where
  cookie_start: "cookie_reaches env (new_CookieMonster_with fs store delegate ms)"
| cookie_step: "cookie_reaches env cm \<Longrightarrow> call_allowed c cm \<Longrightarrow> do_call env c cm = Some cm' \<Longrightarrow>
    cookie_reaches env cm'"

lemma cm_ok_ptrs: "cm_ok env cm \<Longrightarrow> distinct (map ck_ptr (cm_cookies cm))"
  by (simp add: cm_ok_def filed_ok_def)

lemma InitIfNecessary_initialized [simp]: "cm_initialized (InitIfNecessary env cm)"
  by (simp add: InitIfNecessary_def)

lemma cm_ok_start: "cm_ok env (new_CookieMonster_with fs store delegate ms)"
  by (simp add: new_CookieMonster_with_def SetDefaultCookieableSchemes_def SetCookieableSchemes_def
      cm_ok_def filed_ok_def Let_def)

lemma cm_ok_config:
  "cm_ok env cm \<Longrightarrow> \<not> cm_initialized cm \<Longrightarrow> cm_ok env (SetExpiryAndKeyScheme ks cm)"
  "cm_ok env cm \<Longrightarrow> cm_ok env (SetCookieableSchemes schemes cm)"
  "cm_ok env cm \<Longrightarrow> cm_ok env (SetKeepExpiredCookies cm)"
  by (simp_all add: SetExpiryAndKeyScheme_def SetCookieableSchemes_def SetKeepExpiredCookies_def
      cm_ok_def filed_ok_def)

text \<open>An invariant of the store: what has to be shown of it, and that every call then keeps it. All
  calls are made of the loading, the setting of one cookie, and steps that only thin the map out.\<close>

locale cookie_invariant =
  fixes env :: cookie_env and P :: "cookie_monster \<Rightarrow> bool"
  assumes P_ok: "P cm \<Longrightarrow> cm_ok env cm"
    and P_thinner: "P cm \<Longrightarrow> thinner cm cm' \<Longrightarrow> P cm'"
    and P_init: "P cm \<Longrightarrow> P (InitIfNecessary env cm)"
    and P_set: "P cm \<Longrightarrow> cm_initialized cm \<Longrightarrow>
      \<exists>r cm'. SetCanonicalCookie env cc t opts cm = Some (r, cm') \<and> P cm'"
    and P_key_scheme: "P cm \<Longrightarrow> \<not> cm_initialized cm \<Longrightarrow> P (SetExpiryAndKeyScheme ks cm)"
    and P_schemes: "P cm \<Longrightarrow> P (SetCookieableSchemes schemes cm)"
    and P_keep: "P cm \<Longrightarrow> P (SetKeepExpiredCookies cm)"
begin

lemma current_time:
  assumes "P cm" "CurrentTime env cm = (now, c1)"
  shows "P (c1\<lparr>last_time_seen := now\<rparr>)" "cm_initialized c1 = cm_initialized cm"
proof -
  have t: "thinner cm c1" using thinner_CurrentTime [of cm env] assms(2) by simp
  have "thinner c1 (c1\<lparr>last_time_seen := now\<rparr>)" by (rule thinner_same) simp_all
  from P_thinner [OF assms(1) thinner_trans [OF t this]] show "P (c1\<lparr>last_time_seen := now\<rparr>)" .
  show "cm_initialized c1 = cm_initialized cm" using t by (simp add: thinner_def)
qed

lemma set_at:
  assumes p: "P cm" and i: "cm_initialized cm"
  shows "\<exists>r cm'. SetCookieWithCreationTimeAndOptions env u line t opts cm = Some (r, cm') \<and> P cm'"
proof -
  obtain now c1 where 1: "CurrentTime env cm = (now, c1)" by (rule prod.exhaust)
  define c2 where "c2 = (if t = 0 then c1\<lparr>last_time_seen := now\<rparr> else cm)"
  have c2: "P c2" "cm_initialized c2" using current_time [OF p 1] p i by (simp_all add: c2_def)
  have "SetCookieWithCreationTimeAndOptions env u line t opts cm = Some (False, c2) \<or>
    (\<exists>cc t'. SetCookieWithCreationTimeAndOptions env u line t opts cm = SetCanonicalCookie env cc t' opts c2)"
    by (cases "GetCookieDomain env u (ParsedCookie line)")
       (auto simp: SetCookieWithCreationTimeAndOptions_def c2_def 1 Let_def)
  with P_set [OF c2] c2 show ?thesis by metis
qed

lemma set_with_options:
  "P cm \<Longrightarrow> \<exists>r cm'. SetCookieWithOptions env u line opts cm = Some (r, cm') \<and> P cm'"
  using set_at [OF P_init InitIfNecessary_initialized, of cm u line 0 opts]
  by (auto simp: SetCookieWithOptions_def)

lemma set_list:
  "P cm \<Longrightarrow> \<exists>cm'. SetCookiesWithOptions env u cookie_lines opts cm = Some cm' \<and> P cm'"
proof (induction cookie_lines arbitrary: cm)
  case (Cons line cookie_lines)
  obtain r c1 where "SetCookieWithOptions env u line opts cm = Some (r, c1)" "P c1"
    using set_with_options [OF Cons.prems] by blast
  with Cons.IH show ?case by simp
qed simp

lemma set_with_details:
  assumes p: "P cm"
  shows "\<exists>r cm'. SetCookieWithDetails env u n v d path e s h cm = Some (r, cm') \<and> P cm'"
proof -
  obtain now c1 where 1: "CurrentTime env (InitIfNecessary env cm) = (now, c1)" by (rule prod.exhaust)
  have c2: "P (c1\<lparr>last_time_seen := now\<rparr>)" "cm_initialized (c1\<lparr>last_time_seen := now\<rparr>)"
    using current_time [OF P_init [OF p] 1] by simp_all
  show ?thesis
  proof (cases "CanonicalCookie_Create env u n v d path now e s h")
    case None
    with 1 c2 p show ?thesis by (auto simp: SetCookieWithDetails_def)
  next
    case (Some cc)
    with P_set [OF c2, of cc now options_include_httponly] 1 p show ?thesis
      by (auto simp: SetCookieWithDetails_def)
  qed
qed

lemma finding: "P cm \<Longrightarrow> P (snd (FindCookiesForHostAndDomain env u opts upd cm))"
  by (rule P_thinner [OF _ thinner_FindCookiesForHostAndDomain [OF cm_ok_ptrs [OF P_ok]]])

lemma deleting: "P cm \<Longrightarrow> P (delete_items its sync cause cm)"
  by (rule P_thinner [OF _ thinner_delete_items])

lemma recording: "P cm \<Longrightarrow> P (record_event ev cm)"
  by (rule P_thinner [OF _ thinner_record_event])

lemma call_keeps:
  assumes p: "P cm" and "call_allowed c cm"
  shows "\<exists>cm'. do_call env c cm = Some cm' \<and> P cm'"
proof (cases c)
  case (Call_SetCookieWithOptions u line opts)
  with set_with_options [OF p, of u line opts] show ?thesis by auto
next
  case (Call_SetCookieWithCreationTime u line t)
  with set_at [OF P_init [OF p] InitIfNecessary_initialized, of u line t CookieOptions] p
  show ?thesis by (auto simp: SetCookieWithCreationTime_def)
next
  case (Call_SetCookiesWithOptions u cookie_lines opts)
  with set_list [OF p, of u cookie_lines opts] show ?thesis by auto
next
  case (Call_SetCookieWithDetails u n v d path t s h)
  with set_with_details [OF p, of u n v d path t s h] show ?thesis by auto
next
  case (Call_GetCookiesWithOptions u opts)
  with finding [OF P_init [OF p], of u opts True] P_init [OF p] show ?thesis
    by (simp add: GetCookiesWithOptions_def Let_def case_prod_beta)
next
  case Call_GetAllCookies
  obtain now c1 where 1: "Time_Now env (InitIfNecessary env cm) = (now, c1)" by (rule prod.exhaust)
  have "P c1" using P_thinner [OF P_init [OF p] thinner_Time_Now [of _ env]] 1 by (metis snd_conv)
  from P_thinner [OF this thinner_GarbageCollectExpired [of c1 now "cm_cookies c1"]] Call_GetAllCookies 1
  show ?thesis by (simp add: GetAllCookies_def case_prod_beta)
next
  case (Call_GetAllCookiesForURLWithOptions u opts)
  with finding [OF P_init [OF p], of u opts False] show ?thesis
    by (simp add: GetAllCookiesForURLWithOptions_def case_prod_beta)
next
  case (Call_DeleteAll sync)
  with deleting [OF P_init [OF p]] deleting [OF p] show ?thesis by (simp add: DeleteAll_def Let_def)
next
  case (Call_DeleteAllCreatedBetween b e sync)
  with deleting [OF P_init [OF p]] show ?thesis by (simp add: DeleteAllCreatedBetween_def Let_def)
next
  case (Call_DeleteAllForHost u)
  with deleting [OF P_init [OF p]] P_init [OF p] show ?thesis by (simp add: DeleteAllForHost_def Let_def)
next
  case (Call_DeleteCanonicalCookie cc)
  with P_init [OF p] P_thinner [OF P_init [OF p] thinner_delete] show ?thesis
    by (simp add: DeleteCanonicalCookie_def Let_def split: option.split)
next
  case (Call_DeleteCookie u name)
  with deleting [OF finding [OF P_init [OF p], of u options_include_httponly True]] P_init [OF p]
  show ?thesis by (simp add: CookieMonster_DeleteCookie_def Let_def case_prod_beta)
next
  case (Call_SetExpiryAndKeyScheme ks)
  with assms P_key_scheme [OF p] show ?thesis by simp
next
  case (Call_SetCookieableSchemes schemes)
  with P_schemes [OF p] show ?thesis by simp
next
  case Call_SetKeepExpiredCookies
  with P_keep [OF p] show ?thesis by simp
next
  case (Call_SetClearPersistentStoreOnExit b)
  with recording [OF p] p show ?thesis by (simp add: SetClearPersistentStoreOnExit_def)
next
  case (Call_FlushStore b)
  with recording [OF p] p show ?thesis by (simp add: FlushStore_def)
qed

lemma reachable_keeps:
  assumes "cookie_reaches env cm" and start: "\<And>fs store delegate ms. P (new_CookieMonster_with fs store delegate ms)"
  shows "P cm"
  using assms(1)
proof (induction rule: cookie_reaches.induct)
  case (cookie_step cm c cm')
  thus ?case using call_keeps [OF cookie_step.IH cookie_step.hyps(2)] by simp
qed (rule start)

end

interpretation store_ok: cookie_invariant env "cm_ok env" for env
proof
  show "\<exists>r cm'. SetCanonicalCookie env cc t opts cm = Some (r, cm') \<and> cm_ok env cm'"
    if "cm_ok env cm" "cm_initialized cm" for cm cc t opts
    using SetCanonicalCookie_ok [OF that] by blast
qed (auto simp: InitIfNecessary_ok intro: cm_ok_thinner cm_ok_config)

lemma cookie_reaches_ok: "cookie_reaches env cm \<Longrightarrow> cm_ok env cm"
  by (rule store_ok.reachable_keeps [OF _ cm_ok_start])

end
