(* ===== verification/CookieEvict.thy ===== *)
theory CookieEvict
  imports CookieSteps
begin

text \<open>
  What garbage collection leaves: the order of \<open>sort_by\<close>, the eviction of the least recently used
  cookies of a domain in two passes, and the bound on the cookies of a domain it keeps.
\<close>

subsection \<open>Sorting\<close>

lemma set_insert_by: "set (insert_by lt x ys) = insert x (set ys)"
  by (induction ys) auto

lemma mset_insert_by: "mset (insert_by lt x ys) = add_mset x (mset ys)"
  by (induction ys) auto

lemma sort_by_snoc: "sort_by lt (xs @ [x]) = insert_by lt x (sort_by lt xs)"
  by (simp add: sort_by_def)

lemma mset_sort_by [simp]: "mset (sort_by lt xs) = mset xs"
  by (induction xs rule: rev_induct) (simp_all add: sort_by_snoc mset_insert_by, simp add: sort_by_def)

lemma set_sort_by [simp]: "set (sort_by lt xs) = set xs"
  using mset_sort_by [of lt xs] by (metis set_mset_mset)

lemma length_sort_by [simp]: "length (sort_by lt xs) = length xs"
  using mset_sort_by [of lt xs] by (metis size_mset)

lemma distinct_sort_by [simp]: "distinct (sort_by lt xs) = distinct xs"
  using mset_sort_by [of lt xs] by (metis distinct_count_atmost_1 set_mset_mset)

lemma sort_by_map:
  assumes "\<And>x y. lt (f x) (f y) = lt' x y"
  shows "sort_by lt (map f xs) = map f (sort_by lt' xs)"
proof -
  have ins: "insert_by lt (f x) (map f ys) = map f (insert_by lt' x ys)" for x ys
    by (induction ys) (simp_all add: assms)
  show ?thesis
    by (induction xs rule: rev_induct) (simp_all add: sort_by_snoc ins, simp add: sort_by_def)
qed

text \<open>For a comparison that is a weak order, no later element is smaller than an earlier one.\<close>

definition weak_order :: "('a \<Rightarrow> 'a \<Rightarrow> bool) \<Rightarrow> bool" where
  "weak_order lt \<longleftrightarrow> (\<forall>x y. lt x y \<longrightarrow> \<not> lt y x) \<and> (\<forall>x y z. \<not> lt x y \<longrightarrow> \<not> lt y z \<longrightarrow> \<not> lt x z)"

lemma sorted_insert_by:
  assumes "weak_order lt" "sorted_wrt (\<lambda>x y. \<not> lt y x) ys"
  shows "sorted_wrt (\<lambda>x y. \<not> lt y x) (insert_by lt x ys)"
  using assms(2)
proof (induction ys)
  case (Cons y ys)
  have asym: "\<not> lt b a" if "lt a b" for a b using assms(1) that unfolding weak_order_def by blast
  have trans: "\<not> lt a c" if "\<not> lt a b" "\<not> lt b c" for a b c
    using assms(1) that unfolding weak_order_def by blast
  show ?case
  proof (cases "lt x y")
    case True
    have "\<not> lt z x" if "z \<in> set ys" for z
    proof -
      have "\<not> lt z y" using Cons.prems that by simp
      hence "lt x z" using trans [of x z y] True by blast
      thus ?thesis by (rule asym)
    qed
    with True asym [OF True] Cons.prems show ?thesis by simp
  next
    case False
    with Cons show ?thesis by (simp add: set_insert_by)
  qed
qed simp

lemma sorted_sort_by: "weak_order lt \<Longrightarrow> sorted_wrt (\<lambda>x y. \<not> lt y x) (sort_by lt xs)"
  by (induction xs rule: rev_induct) (simp_all add: sort_by_snoc sorted_insert_by, simp add: sort_by_def)

lemma weak_order_LRU: "weak_order LRUCookieSorter"
  unfolding weak_order_def LRUCookieSorter_def by (intro conjI allI impI) (auto split: if_splits)

lemma weak_order_CookieSorter: "weak_order CookieSorter"
  unfolding weak_order_def CookieSorter_def by (intro conjI allI impI) (auto split: if_splits)

subsection \<open>The two passes\<close>

abbreviation least_recent_first :: "cookie_item list \<Rightarrow> bool" where
  "least_recent_first \<equiv> sorted_wrt (\<lambda>x y. \<not> LRUCookieSorter y x)"

lemma least_recent_access:
  "\<not> LRUCookieSorter y x \<Longrightarrow> c_last_access (ck_cookie x) \<le> c_last_access (ck_cookie y)"
  by (auto simp: LRUCookieSorter_def split: if_splits)

text \<open>The cookies accessed before a date are the first ones.\<close>

lemma old_ones_first:
  "least_recent_first its \<Longrightarrow>
   filter (\<lambda>it. keep = 0 \<or> c_last_access (ck_cookie it) < keep) its
     = take (length (filter (\<lambda>it. keep = 0 \<or> c_last_access (ck_cookie it) < keep) its)) its"
proof (induction its)
  case (Cons x xs)
  show ?case
  proof (cases "keep = 0 \<or> c_last_access (ck_cookie x) < keep")
    case False
    have "filter (\<lambda>it. keep = 0 \<or> c_last_access (ck_cookie it) < keep) xs = []"
      using Cons.prems False least_recent_access by (fastforce simp: filter_empty_conv)
    with False show ?thesis by simp
  qed (use Cons in simp)
qed simp

text \<open>So the two passes of \<open>GarbageCollect\<close> over the candidates of a domain delete them all.\<close>

lemma two_passes:
  assumes s: "least_recent_first its"
    and 1: "GarbageCollectDeleteList keep c1 its cm = (n1, cm1)"
    and 2: "GarbageCollectDeleteList 0 c2 (drop n1 its) cm1 = (n2, cm2)"
  shows "n1 + n2 = length its"
    and "cm_cookies cm2 = filter (\<lambda>x. ck_ptr x \<notin> ck_ptr ` set its) (cm_cookies cm)"
proof -
  let ?old = "filter (\<lambda>it. keep = 0 \<or> c_last_access (ck_cookie it) < keep) its"
  have n1: "n1 = length ?old" and cm1: "cm1 = delete_items ?old True c1 cm"
    using 1 by (simp_all add: GarbageCollectDeleteList_eq Let_def)
  have old: "?old = take n1 its" using old_ones_first [OF s, of keep] by (simp only: n1)
  have le: "n1 \<le> length its" by (simp add: n1)
  have n2: "n2 = length (drop n1 its)" and cm2: "cm2 = delete_items (drop n1 its) True c2 cm1"
    using 2 by (simp_all add: GarbageCollectDeleteList_eq Let_def)
  show "n1 + n2 = length its" using le by (simp add: n2)
  have "set (take n1 its) \<union> set (drop n1 its) = set its"
    by (metis append_take_drop_id set_append)
  hence "ck_ptr ` set its = ck_ptr ` set (take n1 its) \<union> ck_ptr ` set (drop n1 its)"
    by (metis image_Un)
  thus "cm_cookies cm2 = filter (\<lambda>x. ck_ptr x \<notin> ck_ptr ` set its) (cm_cookies cm)"
    unfolding cm2 cm1 old by (auto intro: filter_cong)
qed

lemma thinner_range_length:
  assumes "thinner cm cm'"
  shows "length (equal_range k cm') \<le> length (equal_range k cm)"
proof -
  have "subseq (filter (\<lambda>x. x = k) (map ck_key (cm_cookies cm'))) (filter (\<lambda>x. x = k) (map ck_key (cm_cookies cm)))"
    by (rule subseq_filter [OF thinner_subseq [OF assms]]) simp
  from list_emb_length [OF this] show ?thesis by (simp add: equal_range_def filter_map comp_def)
qed

subsection \<open>The cookies of a domain\<close>

definition unexpired :: "int \<Rightarrow> cookie_item list \<Rightarrow> cookie_item list" where
  "unexpired current its = filter (\<lambda>it. \<not> IsExpired (ck_cookie it) current) its"

text \<open>What \<open>GarbageCollect\<close> takes from the cookies of a domain that are not expired.\<close>

definition evicted :: "nat \<Rightarrow> nat \<Rightarrow> cookie_item list \<Rightarrow> cookie_item list" where
  "evicted num_max num_purge its =
    (if length its > num_max
     then take (num_purge + (length its - num_max)) (sort_by LRUCookieSorter its) else [])"

definition kept_of :: "int \<Rightarrow> cookie_item list \<Rightarrow> cookie_item list" where
  "kept_of current its =
    (if length its \<le> kDomainMaxCookies then its
     else let live = unexpired current its in
       filter (\<lambda>x. x \<notin> set (evicted kDomainMaxCookies kDomainPurgeCookies live)) live)"

lemma FindLeastRecentlyAccessed_evicted:
  "FindLeastRecentlyAccessed m p its = Some (t, d) \<Longrightarrow> d = evicted m p its \<and> length its > m"
  "FindLeastRecentlyAccessed m p its = None \<Longrightarrow> evicted m p its = [] \<and> length its \<le> m"
  by (auto simp: FindLeastRecentlyAccessed_def evicted_def Let_def split: if_splits)

lemma evicted_subset: "set (evicted m p its) \<subseteq> set its"
  unfolding evicted_def using set_take_subset [of _ "sort_by LRUCookieSorter its"] by auto

lemma evicted_sorted: "least_recent_first (evicted m p its)"
  unfolding evicted_def using sorted_sort_by [OF weak_order_LRU, of its] by (auto intro: sorted_wrt_take)

text \<open>The items that remain in the whole map, by the set of those deleted.\<close>

lemma collect_key_cookies:
  assumes k: "\<not> keep_expired_cookies cm"
  shows "cm_cookies (snd (collect_key env current key cm)) =
    (let its = equal_range key cm;
         gone = (if length its \<le> kDomainMaxCookies then []
                 else filter (\<lambda>it. IsExpired (ck_cookie it) current) its @
                      evicted kDomainMaxCookies kDomainPurgeCookies (unexpired current its))
     in filter (\<lambda>x. ck_ptr x \<notin> ck_ptr ` set gone) (cm_cookies cm))"
proof (cases "length (equal_range key cm) > kDomainMaxCookies")
  case True
  let ?its = "equal_range key cm"
  let ?dead = "filter (\<lambda>it. IsExpired (ck_cookie it) current) ?its"
  let ?live = "unexpired current ?its"
  let ?ev = "evicted kDomainMaxCookies kDomainPurgeCookies ?live"
  define c1 where "c1 = delete_items ?dead True DELETE_COOKIE_EXPIRED cm"
  have 1: "GarbageCollectExpired current ?its cm = (length ?dead, ?live, c1)"
    using k by (simp add: GarbageCollectExpired_eq c1_def unexpired_def)
  show ?thesis
  proof (cases "FindLeastRecentlyAccessed kDomainMaxCookies kDomainPurgeCookies ?live")
    case None
    with FindLeastRecentlyAccessed_evicted(2) [OF None] True 1 show ?thesis
      by (simp add: collect_key_def Let_def c1_def)
  next
    case (Some r)
    then obtain old where r: "r = (old, ?ev)"
      using FindLeastRecentlyAccessed_evicted(1) by (metis prod.collapse)
    obtain now c2 where 2: "Time_Now env c1 = (now, c2)" by (rule prod.exhaust)
    obtain n1 c3 where 3: "GarbageCollectDeleteList (now - kSafeFromGlobalPurge)
        DELETE_COOKIE_EVICTED_DOMAIN_PRE_SAFE ?ev c2 = (n1, c3)" by (rule prod.exhaust)
    obtain n2 c4 where 4: "GarbageCollectDeleteList 0 DELETE_COOKIE_EVICTED_DOMAIN_POST_SAFE
        (drop n1 ?ev) c3 = (n2, c4)" by (rule prod.exhaust)
    have c4: "cm_cookies c4 = filter (\<lambda>x. ck_ptr x \<notin> ck_ptr ` set ?ev) (cm_cookies c2)"
      by (rule two_passes(2) [OF evicted_sorted 3 4])
    have "cm_cookies c2 = cm_cookies c1" using 2 by (auto simp: Time_Now_def)
    hence "cm_cookies c4 = filter (\<lambda>x. ck_ptr x \<notin> ck_ptr ` set (?dead @ ?ev)) (cm_cookies cm)"
      unfolding c4 by (auto simp: c1_def image_Un intro: filter_cong)
    with True 1 Some r 2 3 4 show ?thesis by (simp add: collect_key_def Let_def)
  qed
qed (simp add: collect_key_def)

lemma collect_key_range:
  assumes k: "\<not> keep_expired_cookies cm" and p: "distinct (map ck_ptr (cm_cookies cm))"
  shows "equal_range key (snd (collect_key env current key cm)) = kept_of current (equal_range key cm)"
    and "j \<noteq> key \<Longrightarrow> equal_range j (snd (collect_key env current key cm)) = equal_range j cm"
proof -
  let ?its = "equal_range key cm"
  let ?ev = "evicted kDomainMaxCookies kDomainPurgeCookies (unexpired current ?its)"
  let ?gone = "if length ?its \<le> kDomainMaxCookies then []
    else filter (\<lambda>it. IsExpired (ck_cookie it) current) ?its @ ?ev"
  have sub: "set ?gone \<subseteq> set ?its"
    using evicted_subset [of kDomainMaxCookies kDomainPurgeCookies "unexpired current ?its"]
    by (auto simp: unexpired_def)
  have ptr: "ck_ptr x \<in> ck_ptr ` set ?gone \<longleftrightarrow> x \<in> set ?gone" if "x \<in> set (cm_cookies cm)" for x
  proof
    assume "ck_ptr x \<in> ck_ptr ` set ?gone"
    then obtain y where y: "y \<in> set ?gone" "ck_ptr x = ck_ptr y" by auto
    hence "y \<in> set (cm_cookies cm)" using sub equal_range_subset by blast
    hence "x = y" using that y(2) p by (auto simp: distinct_map inj_on_def)
    thus "x \<in> set ?gone" using y(1) by simp
  qed simp
  have cookies: "cm_cookies (snd (collect_key env current key cm)) = filter (\<lambda>x. x \<notin> set ?gone) (cm_cookies cm)"
    unfolding collect_key_cookies [OF k] Let_def using ptr by (intro filter_cong) auto
  have swap: "filter P (filter Q xs) = filter Q (filter P xs)" for P Q and xs :: "cookie_item list"
    by (simp add: conj_commute)
  have range: "equal_range j (snd (collect_key env current key cm)) = filter (\<lambda>x. x \<notin> set ?gone) (equal_range j cm)" for j
    unfolding equal_range_def cookies by (rule swap)
  show "equal_range key (snd (collect_key env current key cm)) = kept_of current ?its"
  proof -
    have "filter (\<lambda>x. x \<notin> set (filter (\<lambda>it. IsExpired (ck_cookie it) current) ?its @ ?ev)) ?its
        = filter (\<lambda>x. \<not> IsExpired (ck_cookie x) current \<and> x \<notin> set ?ev) ?its"
      by (rule filter_cong) auto
    also have "\<dots> = filter (\<lambda>x. x \<notin> set ?ev) (unexpired current ?its)"
      by (simp add: unexpired_def conj_commute)
    finally show ?thesis by (simp add: range kept_of_def Let_def)
  qed
  assume "j \<noteq> key"
  hence "x \<notin> set ?gone" if "x \<in> set (equal_range j cm)" for x
    using that sub by (auto simp: equal_range_def)
  thus "equal_range j (snd (collect_key env current key cm)) = equal_range j cm"
    unfolding range by (auto simp: filter_id_conv)
qed

lemma length_without_evicted:
  assumes "distinct its" "m < length its" "p \<le> m"
  shows "length (filter (\<lambda>x. x \<notin> set (evicted m p its)) its) = m - p"
proof -
  have ev: "evicted m p its = take (p + (length its - m)) (sort_by LRUCookieSorter its)"
    using assms(2) by (simp add: evicted_def)
  have "card (set (evicted m p its)) = p + (length its - m)"
    unfolding ev using assms by (subst distinct_card) auto
  moreover have "length (filter (\<lambda>x. x \<notin> set (evicted m p its)) its) = card (set its - set (evicted m p its))"
    using assms(1) by (simp add: distinct_card [symmetric] set_diff_eq)
  ultimately show ?thesis
    using assms evicted_subset [of m p its] by (simp add: card_Diff_subset distinct_card)
qed

lemma kept_of_length: "distinct its \<Longrightarrow> length (kept_of current its) \<le> kDomainMaxCookies"
proof (cases "length its \<le> kDomainMaxCookies \<or> length (unexpired current its) \<le> kDomainMaxCookies")
  case True
  thus ?thesis
    using order.trans [OF length_filter_le [of _ "unexpired current its"]] by (auto simp: kept_of_def Let_def)
next
  case False
  assume d: "distinct its"
  have "distinct (unexpired current its)" using d by (simp add: unexpired_def)
  from length_without_evicted [OF this, of kDomainMaxCookies kDomainPurgeCookies] False show ?thesis
    by (simp add: kept_of_def Let_def kDomainPurgeCookies_def kDomainMaxCookies_def)
qed

subsection \<open>The bound for every domain\<close>

lemma equal_range_insert_length:
  "length (equal_range k (InternalInsertCookie key cc s cm)) =
     (if key = k then 1 else 0) + length (equal_range k cm)"
proof -
  have "length (filter (\<lambda>x. ck_key x = k) (multimap_insert it xs)) =
     (if ck_key it = k then 1 else 0) + length (filter (\<lambda>x. ck_key x = k) xs)" for it xs
    by (induction xs) auto
  thus ?thesis by (simp add: equal_range_def)
qed

lemma load_cookies_length:
  "length (equal_range k (snd (load_cookies env ccs seen e cm))) \<le>
     length (equal_range k cm) + length (filter (\<lambda>cc. GetKey env (key_scheme cm) (c_domain cc) = k) ccs) \<and>
   key_scheme (snd (load_cookies env ccs seen e cm)) = key_scheme cm \<and>
   has_store (snd (load_cookies env ccs seen e cm)) = has_store cm \<and>
   keep_expired_cookies (snd (load_cookies env ccs seen e cm)) = keep_expired_cookies cm"
proof (induction ccs arbitrary: seen e cm)
  case (Cons cc ccs)
  let ?e = "if e = 0 \<or> c_last_access cc < e then c_last_access cc else e"
  let ?c = "InternalInsertCookie (GetKey env (key_scheme cm) (c_domain cc)) cc False cm"
  from Cons.IH [of "c_creation cc # seen" ?e ?c] Cons.IH [of seen e cm]
  show ?case by (auto simp: equal_range_insert_length)
qed simp

definition load_within_limit :: "cookie_env \<Rightarrow> bool" where
  "load_within_limit env \<longleftrightarrow> (\<forall>ks k.
    length (filter (\<lambda>cc. GetKey env ks (c_domain cc) = k) (store_Load env)) \<le> kDomainMaxCookies)"

definition within_limit :: "cookie_env \<Rightarrow> cookie_monster \<Rightarrow> bool" where
  "within_limit env cm \<longleftrightarrow> cm_ok env cm \<and>
    (keep_expired_cookies cm \<or> (\<forall>k. length (equal_range k cm) \<le> kDomainMaxCookies)) \<and>
    (has_store cm \<longrightarrow> load_within_limit env)"

lemma within_limit_thinner:
  assumes w: "within_limit env cm" and t: "thinner cm cm'"
  shows "within_limit env cm'"
proof -
  have "length (equal_range k cm') \<le> kDomainMaxCookies" if "length (equal_range k cm) \<le> kDomainMaxCookies" for k
    using thinner_range_length [OF t, of k] that by simp
  with w cm_ok_thinner [OF _ t, of env] t show ?thesis by (auto simp: within_limit_def thinner_def)
qed

lemma within_limit_init:
  assumes w: "within_limit env cm"
  shows "within_limit env (InitIfNecessary env cm)"
proof (cases "cm_initialized cm \<or> \<not> has_store cm")
  case True
  thus ?thesis using w InitIfNecessary_ok [of env cm]
    by (auto simp: InitIfNecessary_def within_limit_def equal_range_def)
next
  case False
  have ok: "cm_ok env cm" using w by (simp add: within_limit_def)
  obtain e c1 where 1: "load_cookies env (store_Load env) [] 0 cm = (e, c1)" by (rule prod.exhaust)
  have empty: "cm_cookies cm = []" using ok False by (simp add: cm_ok_def)
  have len: "length (equal_range k c1) \<le> kDomainMaxCookies" for k
  proof -
    have "length (filter (\<lambda>cc. GetKey env (key_scheme cm) (c_domain cc) = k) (store_Load env)) \<le> kDomainMaxCookies"
      using w False by (simp add: within_limit_def load_within_limit_def)
    with load_cookies_length [of k env "store_Load env" "[]" 0 cm] 1 empty show ?thesis
      by (simp add: equal_range_def)
  qed
  have cfg: "keep_expired_cookies c1 = keep_expired_cookies cm" "has_store c1 = has_store cm"
    using load_cookies_length [of _ env "store_Load env" "[]" 0 cm] 1 by simp_all
  let ?c2 = "c1\<lparr>earliest_access_time := e\<rparr>"
  have "filed_ok env c1 \<and> distinct (creations (cm_cookies c1))"
    using load_cookies_ok [OF cm_okD(1) [OF ok], of "[]" "store_Load env" 0] 1 empty by simp
  hence f: "filed_ok env ?c2" "distinct (creations (cm_cookies ?c2))" by (simp_all add: filed_ok_def)
  obtain dl where dl: "EnsureCookiesMapIsValid ?c2 = delete_items dl True DELETE_COOKIE_DUPLICATE_IN_BACKING_STORE ?c2"
    using Ensure_spec(1) [OF f] by blast
  have "length (equal_range k (EnsureCookiesMapIsValid ?c2)) \<le> kDomainMaxCookies" for k
    using len [of k] thinner_range_length [OF thinner_delete_items [of ?c2 dl True DELETE_COOKIE_DUPLICATE_IN_BACKING_STORE], of k]
    unfolding dl by (simp add: equal_range_def)
  moreover have "keep_expired_cookies (EnsureCookiesMapIsValid ?c2) = keep_expired_cookies cm"
    "has_store (EnsureCookiesMapIsValid ?c2) = has_store cm" using cfg by (simp_all add: dl)
  ultimately show ?thesis
    using w InitIfNecessary_ok [OF ok] False 1
    by (simp add: within_limit_def InitIfNecessary_def InitStore_def equal_range_def)
qed

lemma within_limit_set:
  assumes w: "within_limit env cm" and i: "cm_initialized cm"
  shows "\<exists>r cm'. SetCanonicalCookie env cc t opts cm = Some (r, cm') \<and> within_limit env cm'"
proof -
  let ?key = "GetKey env (key_scheme cm) (c_domain cc)"
  have ok: "cm_ok env cm" using w by (simp add: within_limit_def)
  obtain r c3 where set: "SetCanonicalCookie env cc t opts cm = Some (r, c3)" and ok3: "cm_ok env c3"
    using SetCanonicalCookie_ok [OF ok i] by blast
  obtain skipped c1 where 1: "DeleteAnyEquivalentCookie ?key cc (exclude_httponly opts) (IsExpired cc t) cm
      = Some (skipped, c1)" and t1: "thinner cm c1"
    using DeleteAnyEquivalentCookie_spec [OF ok refl] by blast
  have w1: "within_limit env c1" by (rule within_limit_thinner [OF w t1])
  show ?thesis
  proof (cases skipped)
    case True
    with set 1 w1 show ?thesis by (auto simp: SetCanonicalCookie_def)
  next
    case False
    define c2 where "c2 = (if \<not> IsExpired cc t \<or> keep_expired_cookies c1
      then InternalInsertCookie ?key cc True c1 else c1)"
    obtain n c4 where 4: "collect_key env t ?key c2 = (n, c4)" by (rule prod.exhaust)
    obtain due c5 where 5: "global_collection_due env c4 = (due, c5)" by (rule prod.exhaust)
    have t5: "thinner c4 c5" using thinner_global_collection_due [of c4 env] 5 by simp
    have "thinner c4 c3"
    proof (cases due)
      case True
      have "c3 = snd (collect_all env t c5)"
        using set 1 False 4 5 True by (auto simp: SetCanonicalCookie_def GarbageCollect_def c2_def split: prod.splits)
      thus ?thesis using thinner_trans [OF t5 thinner_collect_all] by simp
    next
      case False
      with set 1 \<open>\<not> skipped\<close> 4 5 have "c3 = c5"
        by (auto simp: SetCanonicalCookie_def GarbageCollect_def c2_def)
      with t5 show ?thesis by simp
    qed
    note t3 = this
    have cfg: "keep_expired_cookies c3 = keep_expired_cookies c2" "has_store c3 = has_store cm"
      using t3 thinner_collect_key [of c2 env t ?key] 4 t1 by (simp_all add: thinner_def c2_def)
    have "length (equal_range k c3) \<le> kDomainMaxCookies" if k: "\<not> keep_expired_cookies c3" for k
    proof -
      have keep2: "\<not> keep_expired_cookies c2" and keep1: "\<not> keep_expired_cookies c1"
        using k cfg by (auto simp: c2_def split: if_splits)
      have p: "distinct (map ck_ptr (cm_cookies c2))"
        using filed_okD(3) [OF filed_ok_insert [of env c1 cc True]] cm_okD(1) [of env c1] w1 t1
          cm_ok_ptrs [of env c1] by (auto simp: c2_def within_limit_def thinner_def)
      have "length (equal_range k c4) \<le> kDomainMaxCookies"
      proof (cases "k = ?key")
        case True
        have "distinct (equal_range ?key c2)" using p by (auto simp: equal_range_def distinct_map)
        from kept_of_length [OF this, of t] show ?thesis
          using collect_key_range(1) [OF keep2 p, of ?key env t] 4 True by simp
      next
        case False
        have "length (equal_range k c4) = length (equal_range k c2)"
          using collect_key_range(2) [OF keep2 p False, of env t] 4 by simp
        also have "\<dots> = length (equal_range k c1)" using False by (simp add: c2_def equal_range_insert_length)
        finally show ?thesis using w1 keep1 by (simp add: within_limit_def)
      qed
      with thinner_range_length [OF t3, of k] show ?thesis by simp
    qed
    with set ok3 cfg w show ?thesis by (auto simp: within_limit_def)
  qed
qed

interpretation store_limit: cookie_invariant env "within_limit env" for env
proof
  show "cm_ok env cm" if "within_limit env cm" for cm using that by (simp add: within_limit_def)
  show "within_limit env (SetExpiryAndKeyScheme ks cm)" if "within_limit env cm" "\<not> cm_initialized cm" for cm ks
    using that cm_ok_config(1) by (auto simp: within_limit_def SetExpiryAndKeyScheme_def equal_range_def)
  show "within_limit env (SetCookieableSchemes schemes cm)" if "within_limit env cm" for cm schemes
    using that cm_ok_config(2) by (auto simp: within_limit_def SetCookieableSchemes_def equal_range_def)
  show "within_limit env (SetKeepExpiredCookies cm)" if "within_limit env cm" for cm
    using that cm_ok_config(3) by (auto simp: within_limit_def SetKeepExpiredCookies_def equal_range_def)
qed (auto intro: within_limit_thinner within_limit_init within_limit_set)

end
