(* ===== verification/CookieFind.thy ===== *)
theory CookieFind
  imports CookieEvict
begin

text \<open>
  What a request finds in the cookie store: \<open>FindCookiesForHostAndDomain\<close> against the cookies that
  match the request, and the reading that records accesses against the one that does not.
\<close>

subsection \<open>Matching, without positions\<close>

definition path_matches :: "string \<Rightarrow> string \<Rightarrow> bool" where
  "path_matches url_path p \<longleftrightarrow>
    p \<noteq> [] \<and> (\<exists>r. url_path = p @ r \<and> (r = [] \<or> last p = CHR ''/'' \<or> hd r = CHR ''/''))"

definition domain_matches :: "string \<Rightarrow> string \<Rightarrow> bool" where
  "domain_matches host d \<longleftrightarrow>
    host = d \<or> (\<exists>e. d = CHR ''.'' # e \<and> (host = e \<or> (\<exists>p. p \<noteq> [] \<and> host = p @ d)))"

lemma starts_with_append: "starts_with s p \<longleftrightarrow> (\<exists>r. s = p @ r)"
  unfolding starts_with_def by (metis append_eq_conv_conj append_take_drop_id)

lemma IsOnPath_iff: "IsOnPath cc url_path \<longleftrightarrow> path_matches url_path (c_path cc)"
proof (cases "c_path cc \<noteq> [] \<and> starts_with url_path (c_path cc)")
  case True
  then obtain r where r: "url_path = c_path cc @ r" "c_path cc \<noteq> []" by (auto simp: starts_with_append)
  hence "IsOnPath cc url_path \<longleftrightarrow> r = [] \<or> last (c_path cc) = CHR ''/'' \<or> hd r = CHR ''/''"
    by (cases r) (auto simp: IsOnPath_def starts_with_append last_conv_nth nth_append)
  thus ?thesis using r by (auto simp: path_matches_def)
qed (auto simp: IsOnPath_def path_matches_def starts_with_append)

lemma IsDomainMatch_iff: "IsDomainMatch cc host \<longleftrightarrow> domain_matches host (c_domain cc)"
proof (cases "c_domain cc")
  case (Cons c e)
  have "length host > length (c # e) \<and> drop (length host - length (c # e)) host = c # e
      \<longleftrightarrow> (\<exists>p. p \<noteq> [] \<and> host = p @ c # e)"
  proof
    assume a: "length host > length (c # e) \<and> drop (length host - length (c # e)) host = c # e"
    hence "host = take (length host - length (c # e)) host @ c # e"
      by (metis append_take_drop_id)
    moreover have "take (length host - length (c # e)) host \<noteq> []" using a by auto
    ultimately show "\<exists>p. p \<noteq> [] \<and> host = p @ c # e" by blast
  qed auto
  with Cons show ?thesis by (auto simp: IsDomainMatch_def domain_matches_def)
qed (auto simp: IsDomainMatch_def domain_matches_def)

text \<open>Whether a stored cookie goes with a request made now.\<close>

definition goes_with :: "web_url \<Rightarrow> cookie_options \<Rightarrow> int \<Rightarrow> cookie_monster \<Rightarrow> canonical_cookie \<Rightarrow> bool" where
  "goes_with u opts now cm c \<longleftrightarrow>
    (IsExpired c now \<longrightarrow> keep_expired_cookies cm) \<and>
    (c_httponly c \<longrightarrow> \<not> exclude_httponly opts) \<and>
    (c_secure c \<longrightarrow> u_scheme u = ''https'') \<and>
    (key_scheme cm = EKS_KEEP_RECENT_AND_PURGE_ETLDP1 \<longrightarrow> domain_matches (u_host u) (c_domain c)) \<and>
    path_matches (u_path u) (c_path c)"

lemma sendable_iff: "sendable u opts now cm c \<longleftrightarrow> goes_with u opts now cm c"
  by (auto simp: sendable_def goes_with_def IsOnPath_iff IsDomainMatch_iff SchemeIsSecure_def)

text \<open>The keys that are looked up: the one of the host, then the dotted domains above it.\<close>

function probes :: "string \<Rightarrow> nat \<Rightarrow> string list" where
  "probes key n = (if length key > n then key # probes (next_probe key) n else [])"
  by pat_completeness auto
termination by (relation "measure (\<lambda>(key, n). length key)") (auto intro: next_probe_shorter)

declare probes.simps [simp del]

definition lookup_keys :: "cookie_env \<Rightarrow> web_url \<Rightarrow> ExpiryAndKeyScheme \<Rightarrow> string list" where
  "lookup_keys env u ks =
    (let key = GetKey env ks (u_host u); domain = GetEffectiveDomain env (u_scheme u) key in
     key # (if ks = EKS_DISCARD_RECENT_AND_PURGE_DOMAIN \<or> domain = [] then []
            else probes (CHR ''.'' # key) (length domain)))"

subsection \<open>Reading without recording\<close>

definition dead :: "int \<Rightarrow> cookie_monster \<Rightarrow> cookie_item \<Rightarrow> bool" where
  "dead now cm it \<longleftrightarrow> IsExpired (ck_cookie it) now \<and> \<not> keep_expired_cookies cm"

lemma find_in_range_snd_False:
  "snd (find_in_range u opts now False its cm)
     = delete_items (filter (dead now cm) its) True DELETE_COOKIE_EXPIRED cm"
proof (induction its arbitrary: cm)
  case (Cons it its)
  have d: "dead now (find_step u opts now False it cm) = dead now cm" by (simp add: dead_def fun_eq_iff)
  show ?case
    using Cons.IH [of "find_step u opts now False it cm"]
    by (cases "find_in_range u opts now False its (find_step u opts now False it cm)")
       (simp add: find_in_range_step d del: find_in_range.simps, simp add: find_step_def dead_def)
qed simp

text \<open>A state from which only dead cookies have gone.\<close>

definition only_dead_gone :: "int \<Rightarrow> cookie_monster \<Rightarrow> cookie_monster \<Rightarrow> bool" where
  "only_dead_gone now cm cm' \<longleftrightarrow>
    keep_expired_cookies cm' = keep_expired_cookies cm \<and> key_scheme cm' = key_scheme cm \<and>
    distinct (map ck_ptr (cm_cookies cm)) \<and>
    (\<exists>Q. cm_cookies cm' = filter Q (cm_cookies cm) \<and>
       (\<forall>it \<in> set (cm_cookies cm). \<not> dead now cm it \<longrightarrow> Q it))"

lemma only_dead_gone_refl: "distinct (map ck_ptr (cm_cookies cm)) \<Longrightarrow> only_dead_gone now cm cm"
  by (auto simp: only_dead_gone_def intro!: exI [of _ "\<lambda>_. True"])

lemma only_dead_gone_find:
  assumes g: "only_dead_gone now cm c1"
  shows "only_dead_gone now cm (snd (FindCookiesForKey k u opts now False c1))"
    and "set (fst (FindCookiesForKey k u opts now False c1)) =
      {it \<in> set (cm_cookies cm). ck_key it = k \<and> sendable u opts now cm (ck_cookie it)}"
proof -
  obtain Q where cfg: "keep_expired_cookies c1 = keep_expired_cookies cm" "key_scheme c1 = key_scheme cm"
    and p: "distinct (map ck_ptr (cm_cookies cm))" and c1: "cm_cookies c1 = filter Q (cm_cookies cm)"
    and Q: "\<And>it. it \<in> set (cm_cookies cm) \<Longrightarrow> \<not> dead now cm it \<Longrightarrow> Q it"
    using g by (auto simp: only_dead_gone_def)
  have dead_eq: "dead now c1 = dead now cm" by (simp add: dead_def cfg fun_eq_iff)
  let ?del = "filter (dead now cm) (equal_range k c1)"
  have snd_eq: "snd (FindCookiesForKey k u opts now False c1) = delete_items ?del True DELETE_COOKIE_EXPIRED c1"
    by (simp add: FindCookiesForKey_def find_in_range_snd_False dead_eq)
  have ptr: "ck_ptr it \<notin> ck_ptr ` set ?del" if it: "it \<in> set (cm_cookies cm)" "\<not> dead now cm it" for it
  proof
    assume "ck_ptr it \<in> ck_ptr ` set ?del"
    then obtain y where "y \<in> set (cm_cookies cm)" "dead now cm y" "ck_ptr it = ck_ptr y"
      by (auto simp: equal_range_def c1)
    with it p show False by (auto simp: distinct_map inj_on_def)
  qed
  show "only_dead_gone now cm (snd (FindCookiesForKey k u opts now False c1))"
    unfolding only_dead_gone_def snd_eq
  proof (intro conjI exI [of _ "\<lambda>x. ck_ptr x \<notin> ck_ptr ` set ?del \<and> Q x"] ballI impI)
    show "cm_cookies (delete_items ?del True DELETE_COOKIE_EXPIRED c1)
        = filter (\<lambda>x. ck_ptr x \<notin> ck_ptr ` set ?del \<and> Q x) (cm_cookies cm)"
      by (simp add: c1 conj_commute)
  qed (use cfg p ptr Q in \<open>simp_all del: set_filter\<close>)
  have "sendable u opts now c1 = sendable u opts now cm"
    using sendable_config [OF cfg] by (simp add: fun_eq_iff)
  moreover have "\<not> dead now cm it" if "sendable u opts now cm (ck_cookie it)" for it
    using that by (auto simp: sendable_def dead_def)
  ultimately show "set (fst (FindCookiesForKey k u opts now False c1)) =
      {it \<in> set (cm_cookies cm). ck_key it = k \<and> sendable u opts now cm (ck_cookie it)}"
    using Q by (auto simp: FindCookiesForKey_def find_in_range_fst equal_range_def c1)
qed

lemma probe_domains_exact:
  "only_dead_gone now cm c1 \<Longrightarrow>
   set (fst (probe_domains key n u opts now False c1)) =
      {it \<in> set (cm_cookies cm). ck_key it \<in> set (probes key n) \<and> sendable u opts now cm (ck_cookie it)}"
proof (induction key n arbitrary: c1 rule: probes.induct)
  case (1 key n)
  show ?case
  proof (cases "length key > n")
    case True
    obtain found c2 where f: "FindCookiesForKey key u opts now False c1 = (found, c2)" by (rule prod.exhaust)
    obtain more c3 where m: "probe_domains (next_probe key) n u opts now False c2 = (more, c3)" by (rule prod.exhaust)
    have "set more = {it \<in> set (cm_cookies cm). ck_key it \<in> set (probes (next_probe key) n) \<and>
        sendable u opts now cm (ck_cookie it)}"
      using "1.IH" [OF True, of c2] only_dead_gone_find(1) [OF "1.prems", of key u opts] f m by simp
    moreover have "set found = {it \<in> set (cm_cookies cm). ck_key it = key \<and> sendable u opts now cm (ck_cookie it)}"
      using only_dead_gone_find(2) [OF "1.prems", of key u opts] f by simp
    moreover have "probe_domains key n u opts now False c1 = (found @ more, c3)"
      using True by (subst probe_domains.simps) (simp add: f m)
    moreover have "probes key n = key # probes (next_probe key) n"
      using True by (subst probes.simps) simp
    ultimately show ?thesis by auto
  next
    case False
    thus ?thesis by (subst probe_domains.simps, subst probes.simps) simp
  qed
qed

lemma FindCookies_exact:
  assumes p: "distinct (map ck_ptr (cm_cookies cm))"
  shows "set (fst (FindCookiesForHostAndDomain env u opts False cm)) =
    {it \<in> set (cm_cookies cm). ck_key it \<in> set (lookup_keys env u (key_scheme cm)) \<and>
       goes_with u opts (fst (CurrentTime env cm)) cm (ck_cookie it)}"
proof -
  obtain now c1 where 1: "CurrentTime env cm = (now, c1)" by (rule prod.exhaust)
  have c1: "cm_cookies c1 = cm_cookies cm" "key_scheme c1 = key_scheme cm"
      "keep_expired_cookies c1 = keep_expired_cookies cm"
    using 1 by (auto simp: CurrentTime_def Time_Now_def)
  have g: "only_dead_gone now cm c1"
    using only_dead_gone_refl [OF p, of now] by (simp add: only_dead_gone_def c1)
  let ?key = "GetKey env (key_scheme cm) (u_host u)"
  let ?dom = "GetEffectiveDomain env (u_scheme u) ?key"
  obtain found c2 where 2: "FindCookiesForKey ?key u opts now False c1 = (found, c2)" by (rule prod.exhaust)
  obtain more c3 where 3: "probe_domains (CHR ''.'' # ?key) (length ?dom) u opts now False c2 = (more, c3)"
    by (rule prod.exhaust)
  have f: "set found = {it \<in> set (cm_cookies cm). ck_key it = ?key \<and> sendable u opts now cm (ck_cookie it)}"
    using only_dead_gone_find(2) [OF g, of ?key u opts] 2 by simp
  have g2: "only_dead_gone now cm c2" using only_dead_gone_find(1) [OF g, of ?key u opts] 2 by simp
  have m: "set more = {it \<in> set (cm_cookies cm). ck_key it \<in> set (probes (CHR ''.'' # ?key) (length ?dom)) \<and>
      sendable u opts now cm (ck_cookie it)}"
    using probe_domains_exact [OF g2, of "CHR ''.'' # ?key" "length ?dom" u opts] 3 by simp
  have ks: "key_scheme c2 = key_scheme cm" using g2 by (simp add: only_dead_gone_def)
  have "fst (FindCookiesForHostAndDomain env u opts False cm) =
      (if key_scheme cm = EKS_DISCARD_RECENT_AND_PURGE_DOMAIN \<or> ?dom = [] then found else found @ more)"
    by (simp add: FindCookiesForHostAndDomain_def 1 2 3 Let_def c1 ks)
  with f m 1 show ?thesis by (auto simp: lookup_keys_def Let_def sendable_iff)
qed

subsection \<open>Recording the accesses finds the same\<close>

lemma static_tests [simp]:
  "dead now cm (static_item it) = dead now cm it"
  "sendable u opts now cm (ck_cookie (static_item it)) = sendable u opts now cm (ck_cookie it)"
  by (simp_all add: static_item_def dead_def sendable_def IsExpired_def IsDomainMatch_def IsOnPath_def)

abbreviation statics :: "cookie_monster \<Rightarrow> cookie_item list" where
  "statics cm \<equiv> map static_item (cm_cookies cm)"

definition dead_ptrs :: "int \<Rightarrow> cookie_monster \<Rightarrow> cookie_item list \<Rightarrow> nat set" where
  "dead_ptrs now cm its = ck_ptr ` set (filter (dead now cm) its)"

lemma dead_ptrs_static: "dead_ptrs now cm (map static_item its) = dead_ptrs now cm its"
proof -
  have "filter (dead now cm) (map static_item its) = map static_item (filter (dead now cm) its)"
    by (simp add: filter_map comp_def)
  thus ?thesis by (simp add: dead_ptrs_def image_image)
qed

lemma statics_find_step:
  assumes p: "distinct (map ck_ptr (cm_cookies cm))" and m: "it \<in> set (cm_cookies cm)"
  shows "statics (find_step u opts now upd it cm) =
    (if dead now cm it then filter (\<lambda>x. ck_ptr x \<noteq> ck_ptr it) (statics cm) else statics cm)"
proof (cases "dead now cm it")
  case True
  thus ?thesis by (simp add: find_step_def dead_def filter_map comp_def)
next
  case False
  have "statics (snd (InternalUpdateCookieAccessTime it now cm)) = statics cm"
    unfolding InternalUpdate_cookies
    using map_static_update [OF p m, of "(ck_cookie it)\<lparr>c_last_access := now\<rparr>"]
    by (simp add: static_item_def del: map_map)
  moreover have "find_step u opts now upd it cm = snd (InternalUpdateCookieAccessTime it now cm) \<or>
      find_step u opts now upd it cm = cm"
    using False by (auto simp: find_step_def dead_def)
  ultimately show ?thesis using False by auto
qed

lemma statics_find_in_range:
  assumes "distinct (map ck_ptr (cm_cookies cm))" "set its \<subseteq> set (cm_cookies cm)" "distinct (map ck_ptr its)"
  shows "statics (snd (find_in_range u opts now upd its cm)) =
    filter (\<lambda>x. ck_ptr x \<notin> dead_ptrs now cm its) (statics cm)"
  using assms
proof (induction its arbitrary: cm)
  case (Cons it its)
  let ?c = "find_step u opts now upd it cm"
  have m: "it \<in> set (cm_cookies cm)" using Cons.prems by simp
  have "thinner cm ?c" by (rule thinner_find_step [OF Cons.prems(1) m])
  hence p: "distinct (map ck_ptr (cm_cookies ?c))" using thinner_distinct_ptrs Cons.prems(1) by blast
  have sub: "set its \<subseteq> set (cm_cookies ?c)"
    using Cons.prems(2,3) by (auto intro!: find_step_others simp: rev_image_eqI)
  have d: "dead_ptrs now ?c its = dead_ptrs now cm its" by (simp add: dead_ptrs_def dead_def)
  have eq: "snd (find_in_range u opts now upd (it # its) cm) = snd (find_in_range u opts now upd its ?c)"
    by (cases "find_in_range u opts now upd its ?c") (simp add: find_in_range_step del: find_in_range.simps)
  have "statics (snd (find_in_range u opts now upd (it # its) cm)) =
      filter (\<lambda>x. ck_ptr x \<notin> dead_ptrs now cm its) (statics ?c)"
    unfolding eq using Cons.IH [OF p sub] Cons.prems(3) d by simp
  thus ?case
    unfolding statics_find_step [OF Cons.prems(1) m]
    by (auto simp: dead_ptrs_def intro: filter_cong)
qed (simp add: dead_ptrs_def)

text \<open>Two states that differ in the times of access.\<close>

definition same_but_access :: "cookie_monster \<Rightarrow> cookie_monster \<Rightarrow> bool" where
  "same_but_access c1 c2 \<longleftrightarrow>
    statics c1 = statics c2 \<and> key_scheme c1 = key_scheme c2 \<and>
    keep_expired_cookies c1 = keep_expired_cookies c2 \<and> distinct (map ck_ptr (cm_cookies c1))"

lemma same_but_access_ptrs:
  assumes "same_but_access c1 c2"
  shows "distinct (map ck_ptr (cm_cookies c1))" "distinct (map ck_ptr (cm_cookies c2))"
proof -
  have "map ck_ptr (statics c1) = map ck_ptr (statics c2)" using assms by (simp add: same_but_access_def)
  thus "distinct (map ck_ptr (cm_cookies c1))" "distinct (map ck_ptr (cm_cookies c2))"
    using assms by (simp_all add: same_but_access_def comp_def)
qed

lemma find_same_but_access:
  assumes s: "same_but_access c1 c2"
  shows "same_but_access (snd (FindCookiesForKey k u opts now upd c1)) (snd (FindCookiesForKey k u opts now upd' c2))"
    and "map static_item (fst (FindCookiesForKey k u opts now upd c1))
       = map static_item (fst (FindCookiesForKey k u opts now upd' c2))"
proof -
  note p = same_but_access_ptrs [OF s]
  have range: "map static_item (equal_range k c) = filter (\<lambda>x. ck_key x = k) (statics c)" for c
    by (simp add: equal_range_def filter_map comp_def)
  have eq: "map static_item (equal_range k c1) = map static_item (equal_range k c2)"
    using s by (simp only: range same_but_access_def)
  have cfg: "dead now c1 = dead now c2" "sendable u opts now c1 = sendable u opts now c2"
    using s sendable_config [of c1 c2] by (auto simp: same_but_access_def dead_def fun_eq_iff)
  have dp: "dead_ptrs now c1 (equal_range k c1) = dead_ptrs now c2 (equal_range k c2)"
    using eq cfg(1) dead_ptrs_static [of now c1 "equal_range k c1"] dead_ptrs_static [of now c2 "equal_range k c2"]
    by (simp add: dead_ptrs_def)
  have st: "statics (snd (FindCookiesForKey k u opts now v c)) =
      filter (\<lambda>x. ck_ptr x \<notin> dead_ptrs now c (equal_range k c)) (statics c)"
    if "distinct (map ck_ptr (cm_cookies c))" for c v
    unfolding FindCookiesForKey_def
    by (rule statics_find_in_range [OF that equal_range_subset distinct_equal_range [OF that]])
  have t: "thinner c1 (snd (FindCookiesForKey k u opts now upd c1))"
    "thinner c2 (snd (FindCookiesForKey k u opts now upd' c2))"
    using thinner_FindCookiesForKey p by blast+
  show "same_but_access (snd (FindCookiesForKey k u opts now upd c1)) (snd (FindCookiesForKey k u opts now upd' c2))"
    using s t st [OF p(1)] st [OF p(2)] dp thinner_distinct_ptrs [OF t(1) p(1)]
    by (simp add: same_but_access_def thinner_def)
  have found: "map static_item (fst (FindCookiesForKey k u opts now v c)) =
      filter (\<lambda>x. sendable u opts now c (ck_cookie x)) (map static_item (equal_range k c))" for c v
    by (simp add: FindCookiesForKey_def find_in_range_fst filter_map comp_def)
  show "map static_item (fst (FindCookiesForKey k u opts now upd c1))
       = map static_item (fst (FindCookiesForKey k u opts now upd' c2))"
    by (simp only: found eq cfg(2))
qed

lemma probe_same_but_access:
  "same_but_access c1 c2 \<Longrightarrow>
   map static_item (fst (probe_domains key n u opts now upd c1))
     = map static_item (fst (probe_domains key n u opts now upd' c2))"
proof (induction key n arbitrary: c1 c2 rule: probes.induct)
  case (1 key n)
  show ?case
  proof (cases "length key > n")
    case True
    obtain f1 d1 where 2: "FindCookiesForKey key u opts now upd c1 = (f1, d1)" by (rule prod.exhaust)
    obtain f2 d2 where 3: "FindCookiesForKey key u opts now upd' c2 = (f2, d2)" by (rule prod.exhaust)
    obtain m1 e1 where 4: "probe_domains (next_probe key) n u opts now upd d1 = (m1, e1)" by (rule prod.exhaust)
    obtain m2 e2 where 5: "probe_domains (next_probe key) n u opts now upd' d2 = (m2, e2)" by (rule prod.exhaust)
    have "same_but_access d1 d2" "map static_item f1 = map static_item f2"
      using find_same_but_access [OF "1.prems", of key u opts now upd upd'] 2 3 by simp_all
    with "1.IH" [OF True, of d1 d2] 4 5 have "map static_item m1 = map static_item m2" by simp
    moreover have "probe_domains key n u opts now upd c1 = (f1 @ m1, e1)"
      "probe_domains key n u opts now upd' c2 = (f2 @ m2, e2)"
      using True by (subst probe_domains.simps, simp add: 2 3 4 5)+
    ultimately show ?thesis using \<open>map static_item f1 = map static_item f2\<close> by simp
  next
    case False
    have "probe_domains key n u opts now v c = ([], c)" for v c
      using False by (subst probe_domains.simps) simp
    thus ?thesis by simp
  qed
qed

lemma FindCookies_same_but_access:
  assumes p: "distinct (map ck_ptr (cm_cookies cm))"
  shows "map static_item (fst (FindCookiesForHostAndDomain env u opts True cm))
       = map static_item (fst (FindCookiesForHostAndDomain env u opts False cm))"
proof -
  obtain now c where 1: "CurrentTime env cm = (now, c)" by (rule prod.exhaust)
  have "distinct (map ck_ptr (cm_cookies c))" using p 1 by (auto simp: CurrentTime_def Time_Now_def)
  hence s: "same_but_access c c" by (simp add: same_but_access_def)
  let ?key = "GetKey env (key_scheme c) (u_host u)"
  let ?n = "length (GetEffectiveDomain env (u_scheme u) ?key)"
  obtain f1 d1 where 2: "FindCookiesForKey ?key u opts now True c = (f1, d1)" by (rule prod.exhaust)
  obtain f2 d2 where 3: "FindCookiesForKey ?key u opts now False c = (f2, d2)" by (rule prod.exhaust)
  obtain m1 e1 where 4: "probe_domains (CHR ''.'' # ?key) ?n u opts now True d1 = (m1, e1)" by (rule prod.exhaust)
  obtain m2 e2 where 5: "probe_domains (CHR ''.'' # ?key) ?n u opts now False d2 = (m2, e2)" by (rule prod.exhaust)
  have d: "same_but_access d1 d2" and f: "map static_item f1 = map static_item f2"
    using find_same_but_access [OF s, of ?key u opts now True False] 2 3 by simp_all
  have "thinner c d1" using thinner_FindCookiesForKey [OF same_but_access_ptrs(1) [OF s], of ?key u opts now True] 2 by simp
  hence ks: "key_scheme d1 = key_scheme c" "key_scheme d2 = key_scheme c"
    using d by (simp_all add: thinner_def same_but_access_def)
  have "map static_item m1 = map static_item m2"
    using probe_same_but_access [OF d, of "CHR ''.'' # ?key" ?n u opts now True False] 4 5 by simp
  with f show ?thesis by (simp add: FindCookiesForHostAndDomain_def 1 2 3 4 5 Let_def ks)
qed

lemma cookie_line_of_static:
  assumes "map static_item its = map static_item its'"
  shows "cookie_line_of (sort_by CookieSorter (map ck_cookie its))
       = cookie_line_of (sort_by CookieSorter (map ck_cookie its'))"
proof -
  let ?f = "\<lambda>c :: canonical_cookie. c\<lparr>c_last_access := 0\<rparr>"
  have line: "cookie_line_of (map ?f cs) = cookie_line_of cs" for cs
    by (induction cs rule: cookie_line_of.induct) (simp_all add: cookie_pair_def)
  have sort: "sort_by CookieSorter (map ?f cs) = map ?f (sort_by CookieSorter cs)" for cs
    by (rule sort_by_map) (simp add: CookieSorter_def)
  have "map ?f (map ck_cookie xs) = map ck_cookie (map static_item xs)" for xs
    by (simp add: static_item_def)
  with assms have "map ?f (map ck_cookie its) = map ?f (map ck_cookie its')" by metis
  thus ?thesis using line sort by metis
qed

end
