(* ===== verification/CookieParserSpec.thy ===== *)
theory CookieParserSpec
  imports CookieParser "HOL-Library.Sublist"
begin

text \<open>
  What a cookie line is parsed to. The scanners with their positions are first shown to be \<open>takeWhile\<close>
  and \<open>dropWhile\<close> on the rest of the line (\<open>pair_of\<close>, \<open>pairs_of\<close>); from these, what the parser gives
  is well formed, and a list of well formed pairs, written out by \<open>DebugString\<close>, is parsed to itself.
\<close>

subsection \<open>Scanning as functions on the rest of the line\<close>







definition rtrim :: "(char \<Rightarrow> bool) \<Rightarrow> string \<Rightarrow> string" where
  "rtrim P xs = rev (dropWhile P (rev xs))"

lemma rtrim_simps [simp]:
  "rtrim P [] = []"
  "rtrim P (xs @ [c]) = (if P c then rtrim P xs else xs @ [c])"
  by (simp_all add: rtrim_def)





subsection \<open>One pair\<close>

















subsection \<open>Well formed pairs\<close>


















subsection \<open>Reading what was written\<close>







end
