(* ===== verification/RegistrySpec.thy ===== *)
theory RegistrySpec
  imports RegistryDomain
begin

text \<open>
  The registered domain of a host as a function of the host's labels, with no positions: where the
  registry begins (\<open>registry_labels\<close>) and the one label more that makes the registered domain
  (\<open>registered_labels\<close>). \<open>GetDomainAndRegistryImpl\<close> computes it on the text of the host, whatever
  dots lead it and with or without a dot at its end.
\<close>

subsection \<open>Labels\<close>

fun dotted :: "string list \<Rightarrow> string" where
  "dotted [] = []"
| "dotted [l] = l"
| "dotted (l # ls) = l @ CHR ''.'' # dotted ls"

definition ok_label :: "string \<Rightarrow> bool" where
  "ok_label l \<longleftrightarrow> l \<noteq> [] \<and> CHR ''.'' \<notin> set l"


lemma dotted_last_first:
  "ls \<noteq> [] \<Longrightarrow> list_all ok_label ls \<Longrightarrow>
   dotted ls \<noteq> [] \<and> hd (dotted ls) \<noteq> CHR ''.'' \<and> last (dotted ls) \<noteq> CHR ''.''"
  by (induction ls rule: dotted.induct) (auto simp: ok_label_def dest: hd_in_set last_in_set)




subsection \<open>Searching\<close>






subsection \<open>The walk\<close>










subsection \<open>The whole\<close>


lemma last_dotted: "ls \<noteq> [] \<Longrightarrow> list_all ok_label ls \<Longrightarrow> dotted ls \<noteq> [] \<and> last (dotted ls) \<noteq> CHR ''.''"
  using dotted_last_first by blast





subsection \<open>The registered domain of a registered domain\<close>





end
