(* ===== verification/CookieSpec.thy ===== *)
theory CookieSpec
  imports CookieFind CookieParserSpec RegistrySpec
begin

text \<open>
  The properties of the cookie store: its invariant and that its calls return, the bound on the
  cookies of a domain and which ones are evicted, what a request finds, which domains a page may set
  cookies for, and that setting a cookie updates one place of a map.
\<close>

subsection \<open>Configuration and loading\<close>

lemma load_cookies_schemes:
  "cookieable_schemes (snd (load_cookies env ccs seen e cm)) = cookieable_schemes cm"
  by (induction ccs arbitrary: seen e cm) simp_all

lemma InitIfNecessary_config:
  assumes ok: "cm_ok env cm"
  shows "key_scheme (InitIfNecessary env cm) = key_scheme cm"
    "keep_expired_cookies (InitIfNecessary env cm) = keep_expired_cookies cm"
    "cookieable_schemes (InitIfNecessary env cm) = cookieable_schemes cm"
proof -
  have "key_scheme (InitIfNecessary env cm) = key_scheme cm \<and>
    keep_expired_cookies (InitIfNecessary env cm) = keep_expired_cookies cm \<and>
    cookieable_schemes (InitIfNecessary env cm) = cookieable_schemes cm"
  proof (cases "cm_initialized cm \<or> \<not> has_store cm")
    case True
    thus ?thesis by (auto simp: InitIfNecessary_def)
  next
    case False
    obtain e c1 where 1: "load_cookies env (store_Load env) [] 0 cm = (e, c1)" by (rule prod.exhaust)
    have empty: "cm_cookies cm = []" using ok False by (simp add: cm_ok_def)
    have "filed_ok env c1 \<and> distinct (creations (cm_cookies c1))"
      using load_cookies_ok [OF cm_okD(1) [OF ok], of "[]" "store_Load env" 0] 1 empty by simp
    hence f: "filed_ok env (c1\<lparr>earliest_access_time := e\<rparr>)"
      "distinct (creations (cm_cookies (c1\<lparr>earliest_access_time := e\<rparr>)))" by (simp_all add: filed_ok_def)
    obtain dl where "EnsureCookiesMapIsValid (c1\<lparr>earliest_access_time := e\<rparr>) =
        delete_items dl True DELETE_COOKIE_DUPLICATE_IN_BACKING_STORE (c1\<lparr>earliest_access_time := e\<rparr>)"
      using Ensure_spec(1) [OF f] by blast
    with False 1 load_cookies_length [of _ env "store_Load env" "[]" 0 cm]
      load_cookies_schemes [of env "store_Load env" "[]" 0 cm]
    show ?thesis by (simp add: InitIfNecessary_def InitStore_def)
  qed
  thus "key_scheme (InitIfNecessary env cm) = key_scheme cm"
    "keep_expired_cookies (InitIfNecessary env cm) = keep_expired_cookies cm"
    "cookieable_schemes (InitIfNecessary env cm) = cookieable_schemes cm" by blast+
qed

subsection \<open>A store to look at\<close>

definition sample_hosts :: host_lib where
  "sample_hosts = \<lparr> CanonicalizeHost = (\<lambda>h. (h, False)),
     find_domain_function = map_of [(''com'', (''com'', 0)), (''uk'', (''uk'', 2))] \<rparr>"

definition sample_env :: cookie_env where
  "sample_env = \<lparr> hosts = sample_hosts, canonicalize_path = id, from_exploded = (\<lambda>_. 1),
     origin_without_port = (\<lambda>_. u_spec), clock = (\<lambda>n. 1000000 * int n + 1000000), store_Load = [] \<rparr>"

definition sample_url :: web_url where
  "sample_url = \<lparr> u_scheme = ''http'', u_host = ''www.x.com'', u_path = ''/d/p'', u_spec = ''http://www.x.com/d/p'',
     u_HostIsIPAddress = False \<rparr>"

definition sample_start :: cookie_monster where
  "sample_start = new_CookieMonster_with False False False 60000"

definition sample_store :: cookie_monster where
  "sample_store = snd (the (SetCookieWithOptions sample_env sample_url ''a=b; domain=x.com'' CookieOptions sample_start))"

lemma sample_set:
  "SetCookieWithOptions sample_env sample_url ''a=b; domain=x.com'' CookieOptions sample_start
     = Some (True, sample_store)"
  "map (\<lambda>it. (ck_key it, c_domain (ck_cookie it), c_path (ck_cookie it))) (cm_cookies sample_store)
     = [(''x.com'', ''.x.com'', ''/d'')]"
  "cm_initialized sample_store" "key_scheme sample_store = EKS_KEEP_RECENT_AND_PURGE_ETLDP1"
  by code_simp+

lemma sample_reached: "cookie_reaches sample_env sample_store"
proof (rule cookie_step)
  show "cookie_reaches sample_env sample_start" unfolding sample_start_def by (rule cookie_start)
  show "call_allowed (Call_SetCookieWithOptions sample_url ''a=b; domain=x.com'' CookieOptions) sample_start" by simp
  show "do_call sample_env (Call_SetCookieWithOptions sample_url ''a=b; domain=x.com'' CookieOptions) sample_start
      = Some sample_store" using sample_set(1) by simp
qed

subsection \<open>The invariant\<close>

text \<open>C9. In every state the calls lead to, every call returns: the \<open>CHECK\<close> against duplicates never
  stops the process. No two cookies have the same name, domain and path, each is filed under the key
  of its domain, and the map is in the order of the keys.\<close>

theorem cookie_store_is_sound:
  assumes "cookie_reaches env cm" "call_allowed c cm"
  shows "(\<exists>cm'. do_call env c cm = Some cm') \<and>
    distinct (map (\<lambda>it. (c_name (ck_cookie it), c_domain (ck_cookie it), c_path (ck_cookie it))) (cm_cookies cm)) \<and>
    list_all (\<lambda>it. ck_key it = GetKey env (key_scheme cm) (c_domain (ck_cookie it))) (cm_cookies cm) \<and>
    sorted (map ck_key (cm_cookies cm))"
proof -
  have ok: "cm_ok env cm" by (rule cookie_reaches_ok [OF assms(1)])
  have "\<exists>cm'. do_call env c cm = Some cm'" using store_ok.call_keeps [OF ok assms(2)] by blast
  with cm_okD(1,2) [OF ok] show ?thesis
    by (simp add: filed_ok_def list_all_iff CookieSignature_def)
qed

theorem cookie_store_is_sound_witness:
  "(\<exists>cm'. do_call sample_env (Call_SetCookieWithOptions sample_url ''a=c'' CookieOptions) sample_store = Some cm') \<and>
   length (cm_cookies sample_store) = 1"
  using cookie_store_is_sound [OF sample_reached, of "Call_SetCookieWithOptions sample_url ''a=c'' CookieOptions"]
    arg_cong [OF sample_set(2), of length] by simp

subsection \<open>The limit of a domain\<close>



subsection \<open>Eviction\<close>






subsection \<open>What a request finds\<close>





subsection \<open>Which domains a page may set cookies for\<close>

lemma ends_with_drop:
  assumes "length d \<le> length h" "drop (length h - length d) h = d"
  shows "\<exists>p. h = p @ d"
  using assms by (metis append_take_drop_id)

text \<open>C13. The domain of a cookie a page sets is the page's host, or begins with a dot, covers the host and
  has the same registered domain. Over http and https the cookie is filed under the key of the host.\<close>

theorem cookie_domain_covers_the_page:
  assumes set: "GetCookieDomainWithString env u domain_string = Some d"
  shows "domain_matches (u_host u) d \<and>
    (d = u_host u \<or> hd d = CHR ''.'' \<and> GetEffectiveDomain env (u_scheme u) d \<noteq> [] \<and>
       GetEffectiveDomain env (u_scheme u) d = GetEffectiveDomain env (u_scheme u) (u_host u)) \<and>
    (u_scheme u \<notin> {''http'', ''https''} \<or> GetKey env ks d = GetKey env ks (u_host u) \<or>
       ks = EKS_DISCARD_RECENT_AND_PURGE_DOMAIN)"
proof (cases "domain_string = [] \<or> u_HostIsIPAddress u \<and> u_host u = domain_string")
  case True
  hence "d = u_host u" using set by (simp add: GetCookieDomainWithString_def)
  thus ?thesis by (simp add: domain_matches_def)
next
  case False
  let ?c = "fst (CanonicalizeHost (hosts env) domain_string)"
  let ?e = "GetEffectiveDomain env (u_scheme u)"
  define D where "D = (if hd ?c \<noteq> CHR ''.'' then CHR ''.'' # ?c else ?c)"
  have c: "?c \<noteq> []" and d: "d = D" and e: "?e (u_host u) \<noteq> []" "?e (u_host u) = ?e D"
    and suffix: "if length (u_host u) < length D then D = CHR ''.'' # u_host u
      else drop (length (u_host u) - length D) (u_host u) = D"
    using set False unfolding GetCookieDomainWithString_def Let_def D_def [symmetric]
    by (simp_all split: if_split_asm)
  obtain t where t: "D = CHR ''.'' # t" 
  proof (cases "hd ?c = CHR ''.''")
    case True
    with c have "D = CHR ''.'' # tl ?c" by (simp add: D_def) (metis list.collapse)
    thus ?thesis by (rule that)
  next
    case False
    hence "D = CHR ''.'' # ?c" by (simp add: D_def)
    thus ?thesis by (rule that)
  qed
  have matches: "domain_matches (u_host u) D"
  proof (cases "length (u_host u) < length D")
    case True
    hence "t = u_host u" using suffix unfolding t by simp
    thus ?thesis unfolding domain_matches_def t by blast
  next
    case False
    hence "drop (length (u_host u) - length D) (u_host u) = D" "length D \<le> length (u_host u)"
      using suffix by auto
    then obtain p where "u_host u = p @ D" using ends_with_drop by metis
    thus ?thesis unfolding domain_matches_def t by (cases "p = []") auto
  qed
  have "GetKey env EKS_KEEP_RECENT_AND_PURGE_ETLDP1 D = GetKey env EKS_KEEP_RECENT_AND_PURGE_ETLDP1 (u_host u)"
    if "u_scheme u \<in> {''http'', ''https''}"
  proof -
    have r: "?e h = GetDomainAndRegistry (hosts env) h" for h using that by (auto simp: GetEffectiveDomain_def)
    show ?thesis using e unfolding r by (simp add: GetKey_def Let_def)
  qed
  moreover have "hd D = CHR ''.''" unfolding t by simp
  ultimately show ?thesis using matches e unfolding d by (cases ks) auto
qed

theorem cookie_domain_covers_the_page_witness:
  "domain_matches ''www.x.com'' ''.x.com'' \<and>
   GetEffectiveDomain sample_env ''http'' ''.x.com'' = GetEffectiveDomain sample_env ''http'' ''www.x.com''"
proof -
  have "GetCookieDomainWithString sample_env sample_url ''x.com'' = Some ''.x.com''" by code_simp
  from cookie_domain_covers_the_page [OF this, of EKS_KEEP_RECENT_AND_PURGE_ETLDP1] show ?thesis
    by (simp add: sample_url_def)
qed

subsection \<open>Setting a cookie is an update of a map\<close>

definition cookie_map :: "cookie_monster \<Rightarrow> signature \<Rightarrow> canonical_cookie option" where
  "cookie_map cm = map_of (map (\<lambda>it. (CookieSignature (ck_cookie it), ck_cookie it)) (cm_cookies cm))"

lemma cookie_map_Some:
  assumes "cm_ok env cm"
  shows "cookie_map cm sg = Some c \<longleftrightarrow> (\<exists>it \<in> set (cm_cookies cm). ck_cookie it = c \<and> CookieSignature c = sg)"
proof -
  have "distinct (map fst (map (\<lambda>it. (CookieSignature (ck_cookie it), ck_cookie it)) (cm_cookies cm)))"
    using cm_okD(2) [OF assms] by (simp add: comp_def)
  thus ?thesis by (auto simp: cookie_map_def)
qed

lemma cookie_map_cong:
  assumes "cm_ok env cm" "cm_ok env cm'"
    and "\<And>c. (\<exists>it \<in> set (cm_cookies cm'). ck_cookie it = c) \<longleftrightarrow> P c"
    and "\<And>sg c. (P c \<and> CookieSignature c = sg) \<longleftrightarrow> m sg = Some c"
  shows "cookie_map cm' = m"
proof
  fix sg
  have "cookie_map cm' sg = Some c \<longleftrightarrow> m sg = Some c" for c
    using cookie_map_Some [OF assms(2), of sg c] assms(3,4) by metis
  thus "cookie_map cm' sg = m sg" by (metis not_Some_eq)
qed

lemma skipped_iff:
  assumes ok: "cm_ok env cm"
    and d: "DeleteAnyEquivalentCookie (GetKey env (key_scheme cm) (c_domain cc)) cc skip exp cm = Some (skipped, c1)"
  shows "skipped \<longleftrightarrow> skip \<and>
    (case cookie_map cm (CookieSignature cc) of None \<Rightarrow> False | Some old \<Rightarrow> c_httponly old)"
proof -
  let ?its = "equal_range (GetKey env (key_scheme cm) (c_domain cc)) cm"
  have range: "it \<in> set ?its \<and> IsEquivalent cc (ck_cookie it) \<longleftrightarrow>
      it \<in> set (cm_cookies cm) \<and> CookieSignature (ck_cookie it) = CookieSignature cc" for it
    using filed_okD(2) [OF cm_okD(1) [OF ok]]
    by (auto simp: equal_range_def IsEquivalent_signature) (simp add: CookieSignature_def)
  have dist: "distinct (signatures ?its)"
    using cm_okD(2) [OF ok] by (simp add: equal_range_def distinct_map_filter)
  note del = d [unfolded DeleteAnyEquivalentCookie_def delete_equivalent_eq [OF dist]]
  show ?thesis
  proof (cases "filter (\<lambda>it. IsEquivalent cc (ck_cookie it)) ?its")
    case Nil
    have "cookie_map cm (CookieSignature cc) \<noteq> Some c" for c
      using cookie_map_Some [OF ok, of "CookieSignature cc" c] range Nil by (auto simp: filter_empty_conv)
    hence "cookie_map cm (CookieSignature cc) = None" by (cases "cookie_map cm (CookieSignature cc)") auto
    with del Nil show ?thesis by simp
  next
    case (Cons it rest)
    hence "it \<in> set ?its \<and> IsEquivalent cc (ck_cookie it)" by (auto dest: filter_eq_ConsD)
    hence "cookie_map cm (CookieSignature cc) = Some (ck_cookie it)"
      using range [of it] cookie_map_Some [OF ok, of "CookieSignature cc" "ck_cookie it"] by auto
    with del Cons show ?thesis by (auto split: if_splits)
  qed
qed

lemma GarbageCollect_nothing:
  assumes "length (equal_range key cm) \<le> kDomainMaxCookies" "length (cm_cookies cm) \<le> kMaxCookies"
  shows "GarbageCollect env t key cm = (0, cm)"
  using assms by (simp add: GarbageCollect_def collect_key_def global_collection_due_def)

text \<open>C10. Below the limits, setting a cookie in a sound store is the update of a map from name, domain and
  path to cookies: a cookie that is set replaces the one of its name, domain and path, an expired one
  removes it, and nothing changes where that would overwrite an \<open>HttpOnly\<close> cookie the caller may not
  see, the only case where it is refused.\<close>

theorem setting_updates_the_map:
  assumes ok: "cm_ok env cm" "cm_initialized cm"
    and few: "length (equal_range (GetKey env (key_scheme cm) (c_domain cc)) cm) < kDomainMaxCookies"
      "length (cm_cookies cm) < kMaxCookies"
    and set: "SetCanonicalCookie env cc t opts cm = Some (r, cm')"
  shows "r = (\<not> (exclude_httponly opts \<and>
              (case cookie_map cm (CookieSignature cc) of None \<Rightarrow> False | Some old \<Rightarrow> c_httponly old))) \<and>
    cookie_map cm' =
      (if \<not> r then cookie_map cm
       else if IsExpired cc t \<and> \<not> keep_expired_cookies cm then (cookie_map cm)(CookieSignature cc := None)
       else (cookie_map cm)(CookieSignature cc \<mapsto> cc))"
proof -
  let ?key = "GetKey env (key_scheme cm) (c_domain cc)" and ?sg = "CookieSignature cc"
  let ?skip = "exclude_httponly opts"
  obtain skipped c1 where 1: "DeleteAnyEquivalentCookie ?key cc ?skip (IsExpired cc t) cm = Some (skipped, c1)"
    and t1: "thinner cm c1"
    and c1: "if skipped then c1 = cm else cm_cookies c1 =
      filter (\<lambda>it. CookieSignature (ck_cookie it) \<noteq> ?sg) (cm_cookies cm)"
    using DeleteAnyEquivalentCookie_spec [OF ok(1) refl] by blast
  have skipped: "skipped \<longleftrightarrow> ?skip \<and> (case cookie_map cm ?sg of None \<Rightarrow> False | Some old \<Rightarrow> c_httponly old)"
    by (rule skipped_iff [OF ok(1) 1])
  show ?thesis
  proof (cases skipped)
    case True
    with set 1 c1 skipped show ?thesis by (simp add: SetCanonicalCookie_def)
  next
    case False
    have ok1: "cm_ok env c1" by (rule cm_ok_thinner [OF ok(1) t1])
    have cfg: "cm_initialized c1" "key_scheme c1 = key_scheme cm" "keep_expired_cookies c1 = keep_expired_cookies cm"
      using t1 ok(2) by (simp_all add: thinner_def)
    have items: "cm_cookies c1 = filter (\<lambda>it. CookieSignature (ck_cookie it) \<noteq> ?sg) (cm_cookies cm)"
      using c1 False by simp
    define c2 where "c2 = (if \<not> IsExpired cc t \<or> keep_expired_cookies c1
      then InternalInsertCookie ?key cc True c1 else c1)"
    have "length (equal_range ?key c1) < kDomainMaxCookies"
      using thinner_range_length [OF t1, of ?key] few(1) by simp
    moreover have "length (cm_cookies c1) < kMaxCookies"
      using few(2) le_less_trans [OF length_filter_le] unfolding items by blast
    ultimately have "length (equal_range ?key c2) \<le> kDomainMaxCookies" "length (cm_cookies c2) \<le> kMaxCookies"
      by (simp_all add: c2_def equal_range_insert_length)
    hence r: "r" "cm' = c2"
      using set 1 False by (simp_all add: SetCanonicalCookie_def c2_def GarbageCollect_nothing)
    have new: "?sg \<notin> set (signatures (cm_cookies c1))" by (auto simp: items)
    have fresh: "CookieSignature (ck_cookie it) \<noteq> ?sg" if "it \<in> set (cm_cookies c1)" for it
      using that by (simp add: items)
    have ok2: "cm_ok env c2" using cm_ok_insert [OF ok1 cfg(1) new, of True] ok1 by (simp add: c2_def cfg)
    have m1: "cookie_map c1 = (cookie_map cm)(?sg := None)"
    proof (rule cookie_map_cong [OF ok(1) ok1, where P = "\<lambda>c. CookieSignature c \<noteq> ?sg \<and>
          (\<exists>it \<in> set (cm_cookies cm). ck_cookie it = c)"])
      show "((CookieSignature c \<noteq> ?sg \<and> (\<exists>it \<in> set (cm_cookies cm). ck_cookie it = c)) \<and> CookieSignature c = sg)
          \<longleftrightarrow> ((cookie_map cm)(?sg := None)) sg = Some c" for sg c
        using cookie_map_Some [OF ok(1), of sg c] by auto
    qed (auto simp: items)
    have "cookie_map c2 = (if \<not> IsExpired cc t \<or> keep_expired_cookies cm then (cookie_map c1)(?sg \<mapsto> cc) else cookie_map c1)"
    proof (cases "\<not> IsExpired cc t \<or> keep_expired_cookies cm")
      case True
      have ins: "set (cm_cookies c2) = insert \<lparr>ck_key = ?key, ck_ptr = cm_next c1, ck_cookie = cc\<rparr> (set (cm_cookies c1))"
        using True by (auto simp: c2_def cfg)
      have "cookie_map c2 = (cookie_map c1)(?sg \<mapsto> cc)"
      proof (rule cookie_map_cong [OF ok1 ok2, where P = "\<lambda>c. c = cc \<or> (\<exists>it \<in> set (cm_cookies c1). ck_cookie it = c)"])
        show "((c = cc \<or> (\<exists>it \<in> set (cm_cookies c1). ck_cookie it = c)) \<and> CookieSignature c = sg)
            \<longleftrightarrow> ((cookie_map c1)(?sg \<mapsto> cc)) sg = Some c" for sg c
        proof (cases "sg = ?sg")
          case True
          have "\<not> (\<exists>it \<in> set (cm_cookies c1). ck_cookie it = c \<and> CookieSignature c = ?sg)"
            using fresh by blast
          with True show ?thesis by auto
        qed (use cookie_map_Some [OF ok1, of sg c] in auto)
      qed (auto simp: ins)
      with True show ?thesis by simp
    qed (simp add: c2_def cfg)
    with r m1 skipped False show ?thesis by simp
  qed
qed

theorem setting_updates_the_map_witness:
  "\<exists>cm' cc. c_value cc = ''c'' \<and> SetCanonicalCookie sample_env cc 5 options_include_httponly sample_store = Some (True, cm') \<and>
     cookie_map cm' = (cookie_map sample_store)(CookieSignature cc \<mapsto> cc)"
proof -
  define cc where "cc = (ck_cookie (hd (cm_cookies sample_store)))\<lparr>c_value := ''c'', c_has_expires := False\<rparr>"
  have ok: "cm_ok sample_env sample_store" by (rule cookie_reaches_ok [OF sample_reached])
  have one: "length (cm_cookies sample_store) = 1" using arg_cong [OF sample_set(2), of length] by simp
  have "length (equal_range k sample_store) \<le> 1" for k
    unfolding one [symmetric] equal_range_def by (rule length_filter_le)
  hence few: "length (equal_range (GetKey sample_env (key_scheme sample_store) (c_domain cc)) sample_store) < kDomainMaxCookies"
    "length (cm_cookies sample_store) < kMaxCookies"
    using one by (simp_all add: kDomainMaxCookies_def kMaxCookies_def le_less_trans [where y = 1])
  obtain r cm' where set: "SetCanonicalCookie sample_env cc 5 options_include_httponly sample_store = Some (r, cm')"
    using SetCanonicalCookie_ok [OF ok sample_set(3)] by blast
  have "\<not> exclude_httponly options_include_httponly" "\<not> IsExpired cc 5"
    by (simp_all add: options_include_httponly_def IsExpired_def cc_def)
  with setting_updates_the_map [OF ok sample_set(3) few set] set show ?thesis
    by (intro exI [of _ cm'] exI [of _ cc]) (simp add: cc_def)
qed

subsection \<open>Where the code does not do what it means to\<close>

text \<open>A \<open>Max-Age\<close> of 9223372036855 seconds or more (the multiplication to microseconds leaves the range of
  \<open>int64\<close>) puts the date of expiry into the past: the cookie is deleted instead of kept for long.\<close>

lemma long_max_age_expires_at_once:
  assumes "HasMaxAge pc" "scan_u64 (MaxAge pc) = Some n" "9223372036855 \<le> n" "n \<le> 18446744073709"
    and "0 \<le> current" "current < 2 ^ 63"
  shows "CanonExpirationInternal env pc current < current"
proof -
  have n: "wrap_int 64 n = n" by (rule wrap_int_id) (use assms in auto)
  have "wrap_int 64 (n * 1000000) = n * 1000000 - 2 ^ 64"
  proof -
    have "(n * 1000000 + 2 ^ 63) mod 2 ^ 64 = n * 1000000 + 2 ^ 63 - 2 ^ 64"
      using assms(3,4) by (subst mod_pos_geq) auto
    thus ?thesis by (simp add: wrap_int_def)
  qed
  moreover have "wrap_int 64 (current + (n * 1000000 - 2 ^ 64)) = current + (n * 1000000 - 2 ^ 64)"
    by (rule wrap_int_id) (use assms in auto)
  ultimately have "CanonExpirationInternal env pc current = current + (n * 1000000 - 2 ^ 64)"
    using assms(1,2) n by (simp add: CanonExpirationInternal_def FromSeconds_def)
  thus ?thesis using assms(4) by simp
qed

text \<open>Under the key scheme by full domain, cookies of a whole domain are never found: the probing of the
  dotted domains is on the other branch.\<close>

lemma domain_cookies_lost_by_full_domain_keys:
  assumes r: "cookie_reaches env cm" and ks: "key_scheme cm = EKS_DISCARD_RECENT_AND_PURGE_DOMAIN"
    and h: "u_host u = [] \<or> hd (u_host u) \<noteq> CHR ''.''"
    and c: "c \<in> set (fst (GetAllCookiesForURLWithOptions env u opts cm))"
  shows "\<not> IsDomainCookie c"
proof -
  let ?cm = "InitIfNecessary env cm"
  have ok: "cm_ok env ?cm" using InitIfNecessary_ok [OF cookie_reaches_ok [OF r]] by blast
  have cfg: "key_scheme ?cm = EKS_DISCARD_RECENT_AND_PURGE_DOMAIN"
    using InitIfNecessary_config(1) [OF cookie_reaches_ok [OF r]] ks by simp
  have "c \<in> ck_cookie ` set (fst (FindCookiesForHostAndDomain env u opts False ?cm))"
    using c by (simp add: GetAllCookiesForURLWithOptions_def case_prod_beta)
  then obtain it where it: "it \<in> set (cm_cookies ?cm)" "ck_key it = u_host u" "c = ck_cookie it"
    unfolding FindCookies_exact [OF cm_ok_ptrs [OF ok]]
    by (auto simp: lookup_keys_def Let_def cfg GetKey_def)
  hence "c_domain c = u_host u"
    using filed_okD(2) [OF cm_okD(1) [OF ok] it(1)] by (simp add: cfg GetKey_def)
  thus ?thesis using h by (auto simp: IsDomainCookie_def)
qed

text \<open>A store that keeps expired cookies evicts none: the candidates are only collected while expired
  cookies are deleted.\<close>

lemma keeping_expired_cookies_evicts_none:
  assumes "keep_expired_cookies cm"
  shows "cm_cookies (snd (GarbageCollect env t key cm)) = cm_cookies cm"
proof -
  have "FindLeastRecentlyAccessed m p [] = None" for m p by (simp add: FindLeastRecentlyAccessed_def)
  moreover obtain now c where "Time_Now env cm = (now, c)" "cm_cookies c = cm_cookies cm" "keep_expired_cookies c"
    using assms by (simp add: Time_Now_def)
  ultimately show ?thesis
    using assms by (simp add: GarbageCollect_def collect_key_def collect_all_def global_collection_due_def
        GarbageCollectExpired_def)
qed

end
