(* ===== verification/MessageLoop.thy ===== *)
theory MessageLoop
  imports Prelude "HOL-Library.Word"
begin

text \<open>
  \<open>MessageLoop\<close> (\<open>src/base/message_loop.cc\<close>) and the pump of a plain thread, \<open>MessagePumpDefault\<close>
  (\<open>src/base/message_pump_default.cc\<close>). A task is known by a number. \<open>TimeTicks\<close> are microseconds,
  zero is null. The calls of the loop that run a task are cut in two there, since the task may call
  the loop: they return the task, and \<open>RunTask_end\<close> is what follows its \<open>Run\<close>.
\<close>

section \<open>State\<close>

record pending_task =
  task :: nat
  delayed_run_time :: int
  sequence_num :: "32 word"
  nestable :: bool

record run_state =
  run_depth :: nat
  quit_received :: bool

record message_pump =
  keep_running :: bool
  event_signaled :: bool
  delayed_work_time :: int

text \<open>\<open>run_states\<close> is \<open>state_\<close>, which points into a chain of \<open>AutoRunState\<close>s on the stack, the innermost
  first.\<close>

record message_loop =
  incoming_queue :: "pending_task list"
  work_queue :: "pending_task list"
  delayed_work_queue :: "pending_task list"
  deferred_non_nestable_work_queue :: "pending_task list"
  nestable_tasks_allowed :: bool
  recent_time :: int
  next_sequence_num :: "32 word"
  run_states :: "run_state list"
  pump :: message_pump

definition new_MessagePumpDefault :: message_pump where
  "new_MessagePumpDefault = \<lparr> keep_running = True, event_signaled = False, delayed_work_time = 0 \<rparr>"

definition new_MessageLoop :: message_loop where
  "new_MessageLoop = \<lparr> incoming_queue = [], work_queue = [], delayed_work_queue = [],
     deferred_non_nestable_work_queue = [], nestable_tasks_allowed = True, recent_time = 0,
     next_sequence_num = 0, run_states = [], pump = new_MessagePumpDefault \<rparr>"

section \<open>The pump\<close>

definition PumpQuit :: "message_loop \<Rightarrow> message_loop" where
  "PumpQuit L = L\<lparr>pump := (pump L)\<lparr>keep_running := False\<rparr>\<rparr>"

definition ScheduleWork :: "message_loop \<Rightarrow> message_loop" where
  "ScheduleWork L = L\<lparr>pump := (pump L)\<lparr>event_signaled := True\<rparr>\<rparr>"

definition ScheduleDelayedWork :: "int \<Rightarrow> message_loop \<Rightarrow> message_loop" where
  "ScheduleDelayedWork t L = L\<lparr>pump := (pump L)\<lparr>delayed_work_time := t\<rparr>\<rparr>"

section \<open>Posting\<close>

definition new_PendingTask :: "nat \<Rightarrow> int \<Rightarrow> int \<Rightarrow> bool \<Rightarrow> pending_task" where
  "new_PendingTask t now delay_ms nest =
    \<lparr> task = t, delayed_run_time = (if delay_ms > 0 then now + 1000 * delay_ms else 0),
      sequence_num = 0, nestable = nest \<rparr>"

text \<open>The part of \<open>PostTask_Helper\<close> under the lock; the caller signals the pump after it when the queue
  was empty.\<close>

definition push_incoming :: "pending_task \<Rightarrow> message_loop \<Rightarrow> message_loop \<times> bool" where
  "push_incoming p L = (L\<lparr>incoming_queue := incoming_queue L @ [p]\<rparr>, incoming_queue L = [])"

definition PostTask_Helper :: "pending_task \<Rightarrow> message_loop \<Rightarrow> message_loop" where
  "PostTask_Helper p L = (let (L, was_empty) = push_incoming p L
     in if \<not> was_empty then L else ScheduleWork L)"

definition SetNestableTasksAllowed :: "bool \<Rightarrow> message_loop \<Rightarrow> message_loop" where
  "SetNestableTasksAllowed allowed L =
    (if nestable_tasks_allowed L \<noteq> allowed then
       let L = L\<lparr>nestable_tasks_allowed := allowed\<rparr>
       in if \<not> allowed then L else ScheduleWork L
     else L)"

section \<open>The runs\<close>

definition AutoRunState :: "message_loop \<Rightarrow> message_loop" where
  "AutoRunState L = L\<lparr>run_states :=
     \<lparr> run_depth = (case run_states L of [] \<Rightarrow> 1 | s # _ \<Rightarrow> run_depth s + 1), quit_received = False \<rparr> # run_states L\<rparr>"

definition AutoRunState_dtor :: "message_loop \<Rightarrow> message_loop" where
  "AutoRunState_dtor L = L\<lparr>run_states := tl (run_states L)\<rparr>"

definition set_quit_received :: "message_loop \<Rightarrow> message_loop" where
  "set_quit_received L = (case run_states L of [] \<Rightarrow> L
     | s # ss \<Rightarrow> L\<lparr>run_states := s\<lparr>quit_received := True\<rparr> # ss\<rparr>)"

text \<open>\<open>Run\<close> and \<open>RunAllPending\<close> up to the call of the pump.\<close>

definition Run_begin :: "message_loop \<Rightarrow> message_loop" where
  "Run_begin L = AutoRunState L"

definition RunAllPending_begin :: "message_loop \<Rightarrow> message_loop" where
  "RunAllPending_begin L = set_quit_received (AutoRunState L)"

definition Quit :: "message_loop \<Rightarrow> message_loop" where
  "Quit L = set_quit_received L"

definition QuitNow :: "message_loop \<Rightarrow> message_loop" where
  "QuitNow L = (if run_states L \<noteq> [] then PumpQuit L else L)"

text \<open>The next three read through \<open>state_\<close>; the pump calls them inside a \<open>Run\<close>, where it is not null.\<close>

definition cur_depth :: "message_loop \<Rightarrow> nat" where
  "cur_depth L = run_depth (hd (run_states L))"

definition IsNested :: "message_loop \<Rightarrow> bool" where
  "IsNested L \<longleftrightarrow> cur_depth L > 1"

section \<open>Running tasks\<close>

definition RunTask_begin :: "message_loop \<Rightarrow> message_loop" where
  "RunTask_begin L = L\<lparr>nestable_tasks_allowed := False\<rparr>"

definition RunTask_end :: "message_loop \<Rightarrow> message_loop" where
  "RunTask_end L = L\<lparr>nestable_tasks_allowed := True\<rparr>"

text \<open>The task that starts, if one does.\<close>

definition DeferOrRunPendingTask :: "pending_task \<Rightarrow> message_loop \<Rightarrow> message_loop \<times> pending_task option" where
  "DeferOrRunPendingTask p L =
    (if nestable p \<or> cur_depth L = 1 then (RunTask_begin L, Some p)
     else (L\<lparr>deferred_non_nestable_work_queue := deferred_non_nestable_work_queue L @ [p]\<rparr>, None))"

definition ProcessNextDelayedNonNestableTask :: "message_loop \<Rightarrow> message_loop \<times> pending_task option" where
  "ProcessNextDelayedNonNestableTask L =
    (if cur_depth L \<noteq> 1 then (L, None)
     else case deferred_non_nestable_work_queue L of
            [] \<Rightarrow> (L, None)
          | p # ps \<Rightarrow> (RunTask_begin (L\<lparr>deferred_non_nestable_work_queue := ps\<rparr>), Some p))"

subsection \<open>The queue of delayed tasks\<close>

text \<open>\<open>PendingTask::operator<\<close>, the order of a \<open>std::priority_queue\<close> whose top is the greatest element;
  the queue is kept as a list with the top first.\<close>

definition pending_less :: "pending_task \<Rightarrow> pending_task \<Rightarrow> bool" where
  "pending_less p other =
    (if delayed_run_time p < delayed_run_time other then False
     else if delayed_run_time p > delayed_run_time other then True
     else sint (sequence_num p - sequence_num other) > 0)"

definition push_delayed :: "pending_task \<Rightarrow> pending_task list \<Rightarrow> pending_task list" where
  "push_delayed p q = takeWhile (\<lambda>o'. \<not> pending_less o' p) q @ p # dropWhile (\<lambda>o'. \<not> pending_less o' p) q"

definition AddToDelayedWorkQueue :: "pending_task \<Rightarrow> message_loop \<Rightarrow> message_loop" where
  "AddToDelayedWorkQueue p L =
    L\<lparr>next_sequence_num := next_sequence_num L + 1,
      delayed_work_queue := push_delayed (p\<lparr>sequence_num := next_sequence_num L\<rparr>) (delayed_work_queue L)\<rparr>"

section \<open>The calls of the pump\<close>

definition ReloadWorkQueue :: "message_loop \<Rightarrow> message_loop" where
  "ReloadWorkQueue L =
    (if work_queue L \<noteq> [] then L
     else if incoming_queue L = [] then L
     else L\<lparr>work_queue := incoming_queue L, incoming_queue := work_queue L\<rparr>)"

definition put_off :: "pending_task \<Rightarrow> message_loop \<Rightarrow> message_loop" where
  "put_off p L =
    (let L = AddToDelayedWorkQueue p L
     in if task (hd (delayed_work_queue L)) = task p then ScheduleDelayedWork (delayed_run_time p) L else L)"

text \<open>The inner loop of \<open>DoWork\<close>, on the tasks of the work queue.\<close>

fun work_pass :: "pending_task list \<Rightarrow> message_loop \<Rightarrow> message_loop \<times> pending_task option" where
  "work_pass [] L = (L\<lparr>work_queue := []\<rparr>, None)"
| "work_pass (p # ps) L =
    (if delayed_run_time p \<noteq> 0 then
       work_pass ps (put_off p L)
     else
       case DeferOrRunPendingTask p (L\<lparr>work_queue := ps\<rparr>) of
         (L, Some t) \<Rightarrow> (L, Some t)
       | (L, None) \<Rightarrow> work_pass ps L)"

text \<open>One iteration of the outer loop of \<open>DoWork\<close>, between two acquisitions of the lock: it breaks,
  returns with a task, or goes on.\<close>

datatype pass_result = Break | Ran pending_task | Again

definition DoWork_pass :: "message_loop \<Rightarrow> message_loop \<times> pass_result" where
  "DoWork_pass L =
    (let L = ReloadWorkQueue L
     in if work_queue L = [] then (L, Break)
        else case work_pass (work_queue L) L of
               (L, Some t) \<Rightarrow> (L, Ran t)
             | (L, None) \<Rightarrow> (L, Again))"

text \<open>The new value of \<open>*next_delayed_work_time\<close> comes with the result.\<close>

definition DoDelayedWork :: "int \<Rightarrow> int \<Rightarrow> message_loop \<Rightarrow> message_loop \<times> int \<times> pending_task option" where
  "DoDelayedWork now next_time L =
    (if \<not> nestable_tasks_allowed L \<or> delayed_work_queue L = [] then (L\<lparr>recent_time := 0\<rparr>, 0, None)
     else
       let next_run_time = delayed_run_time (hd (delayed_work_queue L));
           L = (if next_run_time > recent_time L then L\<lparr>recent_time := now\<rparr> else L)
       in if next_run_time > recent_time L then (L, next_run_time, None)
          else
            let p = hd (delayed_work_queue L);
                L = L\<lparr>delayed_work_queue := tl (delayed_work_queue L)\<rparr>;
                next_time = (if delayed_work_queue L \<noteq> [] then delayed_run_time (hd (delayed_work_queue L)) else next_time);
                (L, tsk) = DeferOrRunPendingTask p L
            in (L, next_time, tsk))"

definition DoIdleWork :: "message_loop \<Rightarrow> message_loop \<times> pending_task option" where
  "DoIdleWork L =
    (case ProcessNextDelayedNonNestableTask L of
       (L, Some t) \<Rightarrow> (L, Some t)
     | (L, None) \<Rightarrow> (if quit_received (hd (run_states L)) then PumpQuit L else L, None))"

section \<open>Destruction\<close>

text \<open>Deleting a task may post others, \<open>posts\<close>. Tasks that are due at once are dropped and not deleted,
  as outside of Valgrind. The deleted tasks come with the result.\<close>

fun delete_delayed :: "(nat \<Rightarrow> pending_task list) \<Rightarrow> pending_task list \<Rightarrow> message_loop \<Rightarrow> message_loop" where
  "delete_delayed posts [] L = L\<lparr>delayed_work_queue := []\<rparr>"
| "delete_delayed posts (p # ps) L =
    delete_delayed posts ps (fold PostTask_Helper (posts (task p)) (L\<lparr>delayed_work_queue := ps\<rparr>))"

definition DeletePendingTasks ::
  "(nat \<Rightarrow> pending_task list) \<Rightarrow> message_loop \<Rightarrow> message_loop \<times> bool \<times> pending_task list" where
  "DeletePendingTasks posts L =
    (let did_work = work_queue L \<noteq> [];
         L = (fold AddToDelayedWorkQueue (filter (\<lambda>p. delayed_run_time p \<noteq> 0) (work_queue L)) L)\<lparr>work_queue := []\<rparr>;
         did_work = (did_work \<or> deferred_non_nestable_work_queue L \<noteq> []);
         L = L\<lparr>deferred_non_nestable_work_queue := []\<rparr>;
         did_work = (did_work \<or> delayed_work_queue L \<noteq> [])
     in (delete_delayed posts (delayed_work_queue L) L, did_work, delayed_work_queue L))"

fun dtor_loop :: "nat \<Rightarrow> (nat \<Rightarrow> pending_task list) \<Rightarrow> message_loop \<Rightarrow> message_loop \<times> pending_task list" where
  "dtor_loop 0 posts L = (L, [])"
| "dtor_loop (Suc i) posts L =
    (let (L, _, deleted) = DeletePendingTasks posts L;
         (L, did_work, more) = DeletePendingTasks posts (ReloadWorkQueue L)
     in if \<not> did_work then (L, deleted @ more)
        else let (L, rest) = dtor_loop i posts L in (L, deleted @ more @ rest))"

definition MessageLoop_dtor :: "(nat \<Rightarrow> pending_task list) \<Rightarrow> message_loop \<Rightarrow> message_loop \<times> pending_task list" where
  "MessageLoop_dtor = dtor_loop 100"

section \<open>A thread\<close>

text \<open>
  The thread's stack holds the activations of \<open>MessagePumpDefault::Run\<close> and of tasks, the innermost
  first. The place in \<open>Run\<close>: in \<open>DoWork\<close>, or before the test of \<open>keep_running_\<close> that follows one of
  the three calls, with the value of \<open>did_work\<close>; or in \<open>event_.Wait\<close> or \<open>TimedWait\<close>.
\<close>

datatype place = In_DoWork | After_DoWork bool | After_DoDelayedWork bool | After_DoIdleWork bool | Waiting

datatype frame = PumpFrame place | TaskFrame pending_task

record thread =
  the_loop :: message_loop
  stack :: "frame list"

text \<open>A call has returned, or a task starts in it and it will return true.\<close>

definition call_returns :: "(bool \<Rightarrow> place) \<Rightarrow> bool \<Rightarrow> message_loop \<Rightarrow> pending_task option \<Rightarrow> frame list \<Rightarrow> thread" where
  "call_returns p did_work L tsk fs = (case tsk of
     None \<Rightarrow> \<lparr> the_loop = L, stack = PumpFrame (p did_work) # fs \<rparr>
   | Some t \<Rightarrow> \<lparr> the_loop = L, stack = TaskFrame t # PumpFrame (p True) # fs \<rparr>)"

definition PumpRun_exit :: "message_loop \<Rightarrow> frame list \<Rightarrow> thread" where
  "PumpRun_exit L fs = \<lparr> the_loop = AutoRunState_dtor (L\<lparr>pump := (pump L)\<lparr>keep_running := True\<rparr>\<rparr>), stack = fs \<rparr>"

text \<open>One step of \<open>MessagePumpDefault::Run\<close> at time \<open>now\<close>; \<open>None\<close> while it waits.\<close>

fun pump_step :: "int \<Rightarrow> message_loop \<Rightarrow> place \<Rightarrow> frame list \<Rightarrow> thread option" where
  "pump_step now L In_DoWork fs = Some
    (if \<not> nestable_tasks_allowed L then call_returns After_DoWork False L None fs
     else case DoWork_pass L of
            (L, Break) \<Rightarrow> call_returns After_DoWork False L None fs
          | (L, Ran t) \<Rightarrow> call_returns After_DoWork False L (Some t) fs
          | (L, Again) \<Rightarrow> \<lparr> the_loop = L, stack = PumpFrame In_DoWork # fs \<rparr>)"
| "pump_step now L (After_DoWork did_work) fs = Some
    (if \<not> keep_running (pump L) then PumpRun_exit L fs
     else let (L, next_time, tsk) = DoDelayedWork now (delayed_work_time (pump L)) L
          in call_returns After_DoDelayedWork did_work (ScheduleDelayedWork next_time L) tsk fs)"
| "pump_step now L (After_DoDelayedWork did_work) fs = Some
    (if \<not> keep_running (pump L) then PumpRun_exit L fs
     else if did_work then \<lparr> the_loop = L, stack = PumpFrame In_DoWork # fs \<rparr>
     else let (L, tsk) = DoIdleWork L in call_returns After_DoIdleWork False L tsk fs)"
| "pump_step now L (After_DoIdleWork did_work) fs = Some
    (if \<not> keep_running (pump L) then PumpRun_exit L fs
     else if did_work then \<lparr> the_loop = L, stack = PumpFrame In_DoWork # fs \<rparr>
     else if delayed_work_time (pump L) = 0 \<or> delayed_work_time (pump L) - now > 0
          then \<lparr> the_loop = L, stack = PumpFrame Waiting # fs \<rparr>
     else \<lparr> the_loop = ScheduleDelayedWork 0 L, stack = PumpFrame In_DoWork # fs \<rparr>)"
| "pump_step now L Waiting fs =
    (if event_signaled (pump L)
     then Some \<lparr> the_loop = L\<lparr>pump := (pump L)\<lparr>event_signaled := False\<rparr>\<rparr>, stack = PumpFrame In_DoWork # fs \<rparr>
     else if delayed_work_time (pump L) \<noteq> 0 \<and> delayed_work_time (pump L) \<le> now
     then Some \<lparr> the_loop = L, stack = PumpFrame In_DoWork # fs \<rparr>
     else None)"

end
