(* ===== verification/MessageLoopSpec.thy ===== *)
theory MessageLoopSpec
  imports MessageLoop "HOL-Library.Multiset"
begin

text \<open>
  The thread of a message loop among other threads that post to it: no task is lost or run twice, tasks
  run in order and only where they may, and the pump never sleeps while there is something to do.
\<close>

section \<open>Runs\<close>

text \<open>\<open>signallers\<close> counts the threads that found the incoming queue empty and have not signalled the pump
  yet. \<open>posted\<close> and \<open>started\<close> are the history.\<close>

record world =
  thr :: thread
  clock :: int
  signallers :: nat
  posted :: "pending_task list"
  started :: "(pending_task \<times> nat \<times> int) list"

datatype action =
    Tick int | Foreign_post nat int int bool | Foreign_signal | Pump_step
  | Post nat int bool | Set_nestable bool | Call_Run | Call_RunAllPending | Call_Quit | Call_QuitNow | Task_end

definition initial_world :: "int \<Rightarrow> world" where
  "initial_world c = \<lparr> thr = \<lparr> the_loop = new_MessageLoop, stack = [] \<rparr>, clock = c, signallers = 0,
     posted = [], started = [] \<rparr>"

text \<open>A task, or the thread outside of any run, is in control.\<close>

definition clients_turn :: "thread \<Rightarrow> bool" where
  "clients_turn th = (case stack th of PumpFrame _ # _ \<Rightarrow> False | _ \<Rightarrow> True)"

definition on_loop :: "(message_loop \<Rightarrow> message_loop) \<Rightarrow> world \<Rightarrow> world" where
  "on_loop f w = w\<lparr>thr := (thr w)\<lparr>the_loop := f (the_loop (thr w))\<rparr>\<rparr>"

definition enter_pump :: "(message_loop \<Rightarrow> message_loop) \<Rightarrow> world \<Rightarrow> world" where
  "enter_pump f w = w\<lparr>thr := \<lparr> the_loop = f (the_loop (thr w)), stack = PumpFrame In_DoWork # stack (thr w) \<rparr>\<rparr>"

fun is_pump :: "frame \<Rightarrow> bool" where
  "is_pump (PumpFrame _) = True" | "is_pump (TaskFrame _) = False"

definition depth :: "frame list \<Rightarrow> nat" where
  "depth fs = length (filter is_pump fs)"

text \<open>What has been pushed on the stack by a step: the task that starts, with the number of runs that are
  active and the time.\<close>

fun starts :: "frame list \<Rightarrow> int \<Rightarrow> (pending_task \<times> nat \<times> int) list" where
  "starts (TaskFrame t # fs) now = [(t, depth fs, now)]"
| "starts _ now = []"

text \<open>What each action makes of the world; \<open>None\<close> where it is not possible.\<close>

fun act :: "action \<Rightarrow> world \<Rightarrow> world option" where
  "act (Tick d) w = (if d \<ge> 0 then Some (w\<lparr>clock := clock w + d\<rparr>) else None)"
| "act (Foreign_post t sent delay nest) w =
    (if 0 < sent \<and> sent \<le> clock w then
       let p = new_PendingTask t sent delay nest;
           (L, was_empty) = push_incoming p (the_loop (thr w))
       in Some ((on_loop (\<lambda>_. L) w)\<lparr>signallers := signallers w + (if was_empty then 1 else 0), posted := posted w @ [p]\<rparr>)
     else None)"
| "act Foreign_signal w =
    (if signallers w > 0 then Some ((on_loop ScheduleWork w)\<lparr>signallers := signallers w - 1\<rparr>) else None)"
| "act Pump_step w =
    (case stack (thr w) of
       PumpFrame p # fs \<Rightarrow>
         (case pump_step (clock w) (the_loop (thr w)) p fs of
            None \<Rightarrow> None
          | Some th \<Rightarrow> Some (w\<lparr>thr := th, started := started w @ (if length (stack th) \<le> length (stack (thr w)) then [] else starts (stack th) (clock w))\<rparr>))
     | _ \<Rightarrow> None)"
| "act (Post t delay nest) w =
    (if clients_turn (thr w) then
       let p = new_PendingTask t (clock w) delay nest
       in Some ((on_loop (PostTask_Helper p) w)\<lparr>posted := posted w @ [p]\<rparr>)
     else None)"
| "act (Set_nestable b) w = (if clients_turn (thr w) then Some (on_loop (SetNestableTasksAllowed b) w) else None)"
| "act Call_Run w = (if clients_turn (thr w) then Some (enter_pump Run_begin w) else None)"
| "act Call_RunAllPending w = (if clients_turn (thr w) then Some (enter_pump RunAllPending_begin w) else None)"
| "act Call_Quit w = (if clients_turn (thr w) then Some (on_loop Quit w) else None)"
| "act Call_QuitNow w = (if clients_turn (thr w) then Some (on_loop QuitNow w) else None)"
| "act Task_end w =
    (case stack (thr w) of
       TaskFrame t # fs \<Rightarrow> Some (w\<lparr>thr := \<lparr> the_loop = RunTask_end (the_loop (thr w)), stack = fs \<rparr>\<rparr>)
     | _ \<Rightarrow> None)"

inductive reachable_world :: "world \<Rightarrow> bool" where
  start: "0 < c \<Longrightarrow> reachable_world (initial_world c)"
| step: "reachable_world w \<Longrightarrow> act a w = Some w' \<Longrightarrow> reachable_world w'"

fun acts :: "action list \<Rightarrow> world \<Rightarrow> world option" where
  "acts [] w = Some w"
| "acts (a # as) w = Option.bind (act a w) (acts as)"

lemma acts_reachable: "acts as w = Some w' \<Longrightarrow> reachable_world w \<Longrightarrow> reachable_world w'"
  by (induction as arbitrary: w) (auto simp: bind_eq_Some_conv intro: reachable_world.step)

section \<open>What the calls do with the tasks\<close>

definition ticket :: "pending_task \<Rightarrow> pending_task" where
  "ticket p = p\<lparr>sequence_num := 0\<rparr>"

definition line :: "message_loop \<Rightarrow> pending_task list" where
  "line L = work_queue L @ incoming_queue L"

definition held :: "message_loop \<Rightarrow> pending_task multiset" where
  "held L = mset (map ticket (line L @ delayed_work_queue L @ deferred_non_nestable_work_queue L))"

text \<open>Tasks that run in the order of their posting.\<close>

definition plain :: "pending_task \<Rightarrow> bool" where
  "plain p \<longleftrightarrow> nestable p \<and> delayed_run_time p = 0"

definition delayed :: "pending_task \<Rightarrow> bool" where
  "delayed p \<longleftrightarrow> delayed_run_time p \<noteq> 0"

lemma ticket_fields [simp]:
  "task (ticket p) = task p" "delayed_run_time (ticket p) = delayed_run_time p" "nestable (ticket p) = nestable p"
  "sequence_num (ticket p) = 0" "ticket (ticket p) = ticket p" "ticket (p\<lparr>sequence_num := n\<rparr>) = ticket p"
  "plain (ticket p) = plain p" "delayed (ticket p) = delayed p"
  by (simp_all add: ticket_def plain_def delayed_def)

lemma ticket_new [simp]: "ticket (new_PendingTask t now d n) = new_PendingTask t now d n"
  by (simp add: ticket_def new_PendingTask_def)

text \<open>\<open>L'\<close> is \<open>L\<close> without the tasks \<open>ts\<close>, which were taken from it in their order.\<close>

definition taken :: "pending_task list \<Rightarrow> message_loop \<Rightarrow> message_loop \<Rightarrow> bool" where
  "taken ts L L' \<longleftrightarrow> held L = mset (map ticket ts) + held L' \<and>
     map ticket (filter plain (line L)) = map ticket (filter plain ts) @ map ticket (filter plain (line L'))"

lemma mset_push_delayed [simp]: "mset (push_delayed p q) = add_mset p (mset q)"
  unfolding push_delayed_def by (metis mset.simps(2) mset_append takeWhile_dropWhile_id union_mset_add_mset_right)

lemma mset_map_push_delayed [simp]: "mset (map f (push_delayed p q)) = add_mset (f p) (mset (map f q))"
  by simp

lemma set_push_delayed [simp]: "set (push_delayed p q) = insert p (set q)"
  by (metis mset_push_delayed set_mset_add_mset_insert set_mset_mset)

definition the_list :: "'a option \<Rightarrow> 'a list" where
  "the_list r = (case r of None \<Rightarrow> [] | Some x \<Rightarrow> [x])"

lemma the_list_simps [simp]: "the_list None = []" "the_list (Some x) = [x]"
  by (simp_all add: the_list_def)

lemma put_off_fields [simp]:
  "incoming_queue (put_off p L) = incoming_queue L" "work_queue (put_off p L) = work_queue L"
  "deferred_non_nestable_work_queue (put_off p L) = deferred_non_nestable_work_queue L"
  "delayed_work_queue (put_off p L) = push_delayed (p\<lparr>sequence_num := next_sequence_num L\<rparr>) (delayed_work_queue L)"
  "next_sequence_num (put_off p L) = next_sequence_num L + 1" "recent_time (put_off p L) = recent_time L"
  "run_states (put_off p L) = run_states L" "nestable_tasks_allowed (put_off p L) = nestable_tasks_allowed L"
  "event_signaled (pump (put_off p L)) = event_signaled (pump L)"
  "keep_running (pump (put_off p L)) = keep_running (pump L)"
  "cur_depth (put_off p L) = cur_depth L"
  by (simp_all add: put_off_def AddToDelayedWorkQueue_def ScheduleDelayedWork_def Let_def cur_depth_def)

lemma work_pass_taken:
  "work_pass ps L = (L', r) \<Longrightarrow> taken (the_list r) (L\<lparr>work_queue := ps\<rparr>) L'"
proof (induction ps L rule: work_pass.induct)
  case (1 L)
  thus ?case by (auto simp: taken_def)
next
  case (2 p ps L)
  show ?case
  proof (cases "delayed_run_time p \<noteq> 0")
    case True
    thus ?thesis using 2
      by (auto simp: taken_def held_def line_def plain_def)
  next
    case False
    thus ?thesis using 2
      by (auto simp: DeferOrRunPendingTask_def RunTask_begin_def taken_def held_def line_def plain_def split: if_splits)
  qed
qed

lemma taken_refl [simp]: "taken [] L L"
  by (simp add: taken_def)

lemma taken_same:
  "taken ts L L' \<Longrightarrow> line L2 = line L' \<Longrightarrow> held L2 = held L' \<Longrightarrow> taken ts L L2"
  by (simp add: taken_def)

text \<open>The tasks that a call takes wait for their time, or are due and may not be nested, in a queue of
  their own.\<close>

definition queues_ok :: "int \<Rightarrow> message_loop \<Rightarrow> bool" where
  "queues_ok now L \<longleftrightarrow> list_all delayed (delayed_work_queue L) \<and>
     list_all (\<lambda>p. \<not> nestable p \<and> delayed_run_time p \<le> now) (deferred_non_nestable_work_queue L) \<and>
     sorted (map delayed_run_time (delayed_work_queue L)) \<and> recent_time L \<le> now \<and> 0 < now"

text \<open>Everything a step that may start a task must do: the task is taken from the queues, it may run at
  this depth and time, and the queues stay in order.\<close>

definition fair_step :: "int \<Rightarrow> message_loop \<Rightarrow> message_loop \<times> pending_task option \<Rightarrow> bool" where
  "fair_step now L r \<longleftrightarrow> taken (the_list (snd r)) L (fst r) \<and> queues_ok now (fst r) \<and>
     run_states (fst r) = run_states L \<and>
     list_all (\<lambda>t. (nestable t \<or> cur_depth L = 1) \<and> delayed_run_time t \<le> now)
       (the_list (snd r)) \<and>
     nestable_tasks_allowed (fst r) = (nestable_tasks_allowed L \<and> snd r = None)"

lemma pending_less_time:
  "pending_less a b \<Longrightarrow> delayed_run_time b \<le> delayed_run_time a"
  "\<not> pending_less a b \<Longrightarrow> delayed_run_time a \<le> delayed_run_time b"
  by (auto simp: pending_less_def split: if_splits)

lemma sorted_push_delayed:
  assumes "sorted (map delayed_run_time q)"
  shows "sorted (map delayed_run_time (push_delayed p q))"
proof -
  let ?P = "\<lambda>o'. \<not> pending_less o' p"
  have q: "sorted (map delayed_run_time (takeWhile ?P q @ dropWhile ?P q))" using assms by (simp only: takeWhile_dropWhile_id)
  have 1: "delayed_run_time x \<le> delayed_run_time p" if "x \<in> set (takeWhile ?P q)" for x
    using set_takeWhileD [OF that] pending_less_time(2) by blast
  have 2: "delayed_run_time p \<le> delayed_run_time x" if x: "x \<in> set (dropWhile ?P q)" for x
  proof -
    let ?d = "dropWhile ?P q"
    have "?d \<noteq> []" using x by (metis empty_iff list.set(1))
    hence "pending_less (hd ?d) p" using hd_dropWhile by blast
    hence "delayed_run_time p \<le> delayed_run_time (hd ?d)" by (rule pending_less_time)
    moreover have "sorted (map delayed_run_time ?d)" using q by (simp only: map_append sorted_append)
    hence "delayed_run_time (hd ?d) \<le> delayed_run_time x" using x by (cases ?d) auto
    ultimately show ?thesis by simp
  qed
  show ?thesis using q 1 2 order_trans [OF 1 2] unfolding push_delayed_def by (simp only: map_append list.map sorted_append sorted_simps) auto
qed

lemma work_pass_fair:
  "work_pass ps L = (L', r) \<Longrightarrow> queues_ok now L \<Longrightarrow> nestable_tasks_allowed L \<Longrightarrow>
   queues_ok now L' \<and> run_states L' = run_states L \<and> incoming_queue L' = incoming_queue L \<and>
   event_signaled (pump L') = event_signaled (pump L) \<and>
   nestable_tasks_allowed L' = (r = None) \<and>
   (case r of None \<Rightarrow> work_queue L' = []
    | Some t \<Rightarrow> (nestable t \<or> cur_depth L = 1) \<and> delayed_run_time t = 0)"
proof (induction ps L rule: work_pass.induct)
  case (2 p ps L)
  show ?case
  proof (cases "delayed_run_time p \<noteq> 0")
    case True
    have "queues_ok now (put_off p L)" using 2(4) True
      by (auto simp: queues_ok_def sorted_push_delayed list_all_iff delayed_def)
    thus ?thesis using "2.IH"(1) [OF True] 2(3,5) True by (cases r) simp_all
  next
    case False
    let ?L = "L\<lparr>work_queue := ps\<rparr>"
    show ?thesis
    proof (cases "nestable p \<or> cur_depth L = 1")
      case True
      thus ?thesis using 2(3-) False
        by (auto simp: DeferOrRunPendingTask_def RunTask_begin_def cur_depth_def queues_ok_def)
    next
      case late: False
      let ?L2 = "?L\<lparr>deferred_non_nestable_work_queue := deferred_non_nestable_work_queue L @ [p]\<rparr>"
      have d: "DeferOrRunPendingTask p ?L = (?L2, None)"
        using late by (auto simp: DeferOrRunPendingTask_def cur_depth_def)
      have "queues_ok now ?L2" using 2(4) False late by (auto simp: queues_ok_def)
      thus ?thesis using "2.IH"(2) [OF _ d [symmetric]] 2(3,5) False d by (auto simp: cur_depth_def)
    qed
  qed
qed (auto simp: queues_ok_def)

lemma ReloadWorkQueue_effect:
  "taken [] L (ReloadWorkQueue L)" "queues_ok now L \<Longrightarrow> queues_ok now (ReloadWorkQueue L)"
  "run_states (ReloadWorkQueue L) = run_states L" "cur_depth (ReloadWorkQueue L) = cur_depth L"
  "nestable_tasks_allowed (ReloadWorkQueue L) = nestable_tasks_allowed L" "pump (ReloadWorkQueue L) = pump L"
  "work_queue (ReloadWorkQueue L) = [] \<longleftrightarrow> work_queue L = [] \<and> incoming_queue L = []"
  by (auto simp: ReloadWorkQueue_def taken_def held_def line_def queues_ok_def cur_depth_def)

lemma taken_trans: "taken ts L L1 \<Longrightarrow> taken us L1 L2 \<Longrightarrow> taken (ts @ us) L L2"
  by (simp add: taken_def)

definition ran_task :: "pass_result \<Rightarrow> pending_task option" where
  "ran_task r = (case r of Ran t \<Rightarrow> Some t | _ \<Rightarrow> None)"

lemma DoWork_pass_fair:
  assumes "DoWork_pass L = (L', r)" "queues_ok now L" "nestable_tasks_allowed L"
  shows "fair_step now L (L', ran_task r)" "r = Break \<Longrightarrow> work_queue L' = [] \<and> incoming_queue L' = []"
proof -
  let ?L = "ReloadWorkQueue L"
  note R = ReloadWorkQueue_effect [where L = L] ReloadWorkQueue_effect(2) [OF assms(2)]
  obtain L1 o1 where p: "work_pass (work_queue ?L) ?L = (L1, o1)" by fastforce
  note wp = work_pass_taken [OF p] work_pass_fair [OF p R(8)]
  have "taken [] L (ReloadWorkQueue L)" "0 < now" using R assms(2) by (auto simp: queues_ok_def)
  thus "fair_step now L (L', ran_task r)"
    using assms p wp R taken_trans [of "[]" L ?L]
    by (cases "work_queue ?L = []"; cases o1) (auto simp: DoWork_pass_def Let_def fair_step_def ran_task_def)
  show "r = Break \<Longrightarrow> work_queue L' = [] \<and> incoming_queue L' = []"
    using assms(1) p by (auto simp: DoWork_pass_def Let_def ReloadWorkQueue_def split: if_splits option.splits)
qed

lemma DoDelayedWork_fair:
  assumes "DoDelayedWork now n L = (L', n', r)" "queues_ok now L"
  shows "fair_step now L (L', r)" "line L' = line L" "pump L' = pump L" "incoming_queue L' = incoming_queue L"
    "r = None \<Longrightarrow> nestable_tasks_allowed L \<Longrightarrow> delayed_work_queue L' \<noteq> [] \<Longrightarrow> n' = delayed_run_time (hd (delayed_work_queue L'))"
proof -
  show "fair_step now L (L', r)"
  proof (cases "delayed_work_queue L")
    case Nil
    thus ?thesis using assms by (auto simp: DoDelayedWork_def fair_step_def queues_ok_def taken_def held_def line_def)
  next
    case (Cons p q)
    thus ?thesis using assms
      by (auto simp: DoDelayedWork_def Let_def fair_step_def queues_ok_def taken_def held_def line_def
        DeferOrRunPendingTask_def RunTask_begin_def cur_depth_def plain_def delayed_def split: if_splits)
  qed
qed (use assms in \<open>auto simp: DoDelayedWork_def Let_def DeferOrRunPendingTask_def RunTask_begin_def line_def
       cur_depth_def split: if_splits\<close>)

lemma DoIdleWork_fair:
  assumes "DoIdleWork L = (L', r)" "queues_ok now L"
  shows "fair_step now L (L', r)" "line L' = line L" "incoming_queue L' = incoming_queue L"
    "r = None \<Longrightarrow> delayed_work_queue L' = delayed_work_queue L \<and> delayed_work_time (pump L') = delayed_work_time (pump L) \<and>
       event_signaled (pump L') = event_signaled (pump L) \<and>
       (cur_depth L = 1 \<longrightarrow> deferred_non_nestable_work_queue L' = []) \<and>
       keep_running (pump L') = (keep_running (pump L) \<and> \<not> quit_received (hd (run_states L)))"
  using assms
  by (auto simp: DoIdleWork_def ProcessNextDelayedNonNestableTask_def fair_step_def queues_ok_def taken_def held_def
    line_def RunTask_begin_def PumpQuit_def plain_def cur_depth_def split: if_splits list.splits)

lemma queues_ok_later: "queues_ok now L \<Longrightarrow> now \<le> now' \<Longrightarrow> queues_ok now' L"
  by (auto simp: queues_ok_def list_all_iff)

lemma fair_step_pump:
  "fair_step now L (L', r) \<Longrightarrow> fair_step now L (L'\<lparr>pump := P\<rparr>, r)"
  by (simp add: fair_step_def taken_def line_def held_def queues_ok_def)

lemma fair_step_none: "queues_ok now L \<Longrightarrow> fair_step now L (L, None)"
  by (simp add: fair_step_def)

text \<open>A step of the pump ends its run, or is a fair step that stays in it.\<close>

lemma pump_step_cases:
  assumes "pump_step now L pl fs = Some th" "queues_ok now L"
  obtains "th = PumpRun_exit L fs"
  | r pl' where "fair_step now L (the_loop th, r)" "stack th = map TaskFrame (the_list r) @ PumpFrame pl' # fs"
proof (cases pl)
  case In_DoWork
  show ?thesis
  proof (cases "nestable_tasks_allowed L")
    case True
    obtain L1 r where d: "DoWork_pass L = (L1, r)" by fastforce
    show ?thesis
      using that(2) [of "ran_task r"] DoWork_pass_fair(1) [OF d assms(2) True] assms(1) In_DoWork True d
      by (cases r) (auto simp: call_returns_def ran_task_def)
  next
    case False
    thus ?thesis using that(2) [of None] assms In_DoWork by (auto simp: call_returns_def fair_step_none)
  qed
next
  case (After_DoWork b)
  obtain L1 n r where d: "DoDelayedWork now (delayed_work_time (pump L)) L = (L1, n, r)" by (metis prod_cases3)
  show ?thesis
    using that(1) that(2) [of r] fair_step_pump [OF DoDelayedWork_fair(1) [OF d assms(2)]] assms(1) After_DoWork d
    by (cases r) (auto simp: call_returns_def ScheduleDelayedWork_def split: if_splits)
next
  case (After_DoDelayedWork b)
  obtain L1 r where d: "DoIdleWork L = (L1, r)" by fastforce
  show ?thesis
    using that(1) that(2) [of r] that(2) [of None] DoIdleWork_fair(1) [OF d assms(2)] fair_step_none [OF assms(2)] assms(1) After_DoDelayedWork d
    by (cases r) (auto simp: call_returns_def split: if_splits)
next
  case (After_DoIdleWork b)
  show ?thesis
    using that(1) that(2) [of None] fair_step_none [OF assms(2)] fair_step_pump [OF fair_step_none [OF assms(2)]] assms(1) After_DoIdleWork
    by (auto simp: ScheduleDelayedWork_def split: if_splits)
next
  case Waiting
  show ?thesis
    using that(2) [of None] fair_step_none [OF assms(2)] fair_step_pump [OF fair_step_none [OF assms(2)]] assms(1) Waiting
    by (auto split: if_splits)
qed

section \<open>Invariants of the world\<close>

definition depths_ok :: "thread \<Rightarrow> bool" where
  "depths_ok th \<longleftrightarrow> map run_depth (run_states (the_loop th)) = rev [1..<Suc (depth (stack th))]"

definition history_ok :: "world \<Rightarrow> bool" where
  "history_ok w \<longleftrightarrow> (let L = the_loop (thr w) in
     mset (posted w) = mset (map (ticket \<circ> fst) (started w)) + held L \<and>
     filter plain (posted w) = map ticket (filter plain (map fst (started w))) @ map ticket (filter plain (line L)) \<and>
     list_all (\<lambda>(p, d, t). (nestable p \<or> d = 1) \<and> delayed_run_time p \<le> t) (started w))"

definition world_ok :: "world \<Rightarrow> bool" where
  "world_ok w \<longleftrightarrow> queues_ok (clock w) (the_loop (thr w)) \<and> depths_ok (thr w) \<and> history_ok w"

lemma depth_simps [simp]:
  "depth [] = 0" "depth (PumpFrame p # fs) = Suc (depth fs)" "depth (TaskFrame t # fs) = depth fs"
  by (simp_all add: depth_def)

lemma cur_depth_pump: "depths_ok th \<Longrightarrow> depth (stack th) = Suc n \<Longrightarrow> cur_depth (the_loop th) = Suc n"
  by (cases "run_states (the_loop th)") (auto simp: depths_ok_def cur_depth_def)

text \<open>Calls of the client leave the queues alone, apart from posting.\<close>

definition same_tasks :: "message_loop \<Rightarrow> message_loop \<Rightarrow> bool" where
  "same_tasks L L' \<longleftrightarrow> line L' = line L \<and> held L' = held L \<and> delayed_work_queue L' = delayed_work_queue L \<and>
     deferred_non_nestable_work_queue L' = deferred_non_nestable_work_queue L \<and> recent_time L' = recent_time L \<and>
     next_sequence_num L' = next_sequence_num L"

lemma same_tasks_calls:
  "same_tasks L (ScheduleWork L)" "same_tasks L (SetNestableTasksAllowed b L)" "same_tasks L (AutoRunState L)"
  "same_tasks L (set_quit_received L)" "same_tasks L (QuitNow L)" "same_tasks L (RunTask_end L)"
  "same_tasks L (AutoRunState_dtor (L\<lparr>pump := P\<rparr>))"
  by (auto simp: same_tasks_def line_def held_def ScheduleWork_def SetNestableTasksAllowed_def AutoRunState_def
    set_quit_received_def QuitNow_def PumpQuit_def RunTask_end_def AutoRunState_dtor_def Let_def split: list.split)

lemma same_tasks_trans: "same_tasks L L1 \<Longrightarrow> same_tasks L1 L2 \<Longrightarrow> same_tasks L L2"
  by (simp add: same_tasks_def)

lemma world_ok_same_tasks:
  assumes "world_ok w" "same_tasks (the_loop (thr w)) (the_loop th)" "depths_ok th"
  shows "world_ok (w\<lparr>thr := th\<rparr>)"
  using assms by (simp add: world_ok_def history_ok_def same_tasks_def queues_ok_def Let_def)

lemma depths_of_calls:
  "map run_depth (run_states (ScheduleWork L)) = map run_depth (run_states L)"
  "map run_depth (run_states (SetNestableTasksAllowed b L)) = map run_depth (run_states L)"
  "map run_depth (run_states (set_quit_received L)) = map run_depth (run_states L)"
  "map run_depth (run_states (QuitNow L)) = map run_depth (run_states L)"
  "map run_depth (run_states (RunTask_end L)) = map run_depth (run_states L)"
  "map run_depth (run_states (AutoRunState_dtor (L\<lparr>pump := P\<rparr>))) = tl (map run_depth (run_states L))"
  by (auto simp: ScheduleWork_def SetNestableTasksAllowed_def set_quit_received_def QuitNow_def PumpQuit_def
    RunTask_end_def AutoRunState_dtor_def Let_def map_tl split: list.split)

lemma depths_AutoRunState:
  "map run_depth (run_states L) = rev [1..<Suc d] \<Longrightarrow>
   map run_depth (run_states (AutoRunState L)) = rev [1..<Suc (Suc d)]"
  by (cases d) (auto simp: AutoRunState_def split: list.split)

lemma world_ok_post:
  assumes "world_ok w" "line L = line (the_loop (thr w)) @ [p]" "held L = add_mset p (held (the_loop (thr w)))"
    "ticket p = p" "queues_ok (clock w) L" "depths_ok ((thr w)\<lparr>the_loop := L\<rparr>)"
  shows "world_ok (w\<lparr>thr := (thr w)\<lparr>the_loop := L\<rparr>, posted := posted w @ [p]\<rparr>)"
  using assms by (simp add: world_ok_def history_ok_def Let_def)

lemma world_ok_signallers [simp]: "world_ok (w\<lparr>signallers := n\<rparr>) = world_ok w"
  by (simp add: world_ok_def history_ok_def)

lemma act_Foreign_post:
  "act (Foreign_post t sent delay nest) w = Some w' \<Longrightarrow> world_ok w \<Longrightarrow> world_ok w'"
  using world_ok_post [of w "fst (push_incoming (new_PendingTask t sent delay nest) (the_loop (thr w)))"
      "new_PendingTask t sent delay nest"]
  by (auto simp: push_incoming_def Let_def on_loop_def line_def held_def world_ok_def queues_ok_def depths_ok_def
    history_ok_def split: if_splits)

lemma act_Post: "act (Post t delay nest) w = Some w' \<Longrightarrow> world_ok w \<Longrightarrow> world_ok w'"
  using world_ok_post [of w "PostTask_Helper (new_PendingTask t (clock w) delay nest) (the_loop (thr w))"
      "new_PendingTask t (clock w) delay nest"]
  by (auto simp: PostTask_Helper_def push_incoming_def ScheduleWork_def Let_def on_loop_def line_def held_def
    world_ok_def queues_ok_def depths_ok_def split: if_splits)

lemma act_Pump_step:
  assumes "act Pump_step w = Some w'" "world_ok w"
  shows "world_ok w'"
proof -
  let ?L = "the_loop (thr w)"
  obtain pl fs where fs: "stack (thr w) = PumpFrame pl # fs"
    using assms(1) by (auto split: list.splits frame.splits)
  then obtain th where th: "pump_step (clock w) ?L pl fs = Some th"
    and w': "w' = w\<lparr>thr := th, started := started w @ (if length (stack th) \<le> Suc (length fs) then [] else starts (stack th) (clock w))\<rparr>"
    using assms(1) by (auto split: option.splits)
  have ok: "queues_ok (clock w) ?L" "depths_ok (thr w)" "history_ok w" using assms(2) by (simp_all add: world_ok_def)
  from pump_step_cases [OF th ok(1)] show ?thesis
  proof cases
    case 1
    have "depths_ok th"
      using ok(2) 1 fs by (simp add: depths_ok_def PumpRun_exit_def depths_of_calls)
    hence "world_ok (w\<lparr>thr := th\<rparr>)"
      using world_ok_same_tasks [OF assms(2), of th] 1 same_tasks_calls(7) by (simp add: PumpRun_exit_def)
    thus ?thesis using w' 1 by (simp add: PumpRun_exit_def)
  next
    case (2 r pl')
    have d: "cur_depth ?L = Suc (depth fs)" using cur_depth_pump [OF ok(2), of "depth fs"] fs by simp
    have q: "queues_ok (clock w) (the_loop th)" "depths_ok th"
      using 2 ok(2) fs by (cases r; simp add: fair_step_def depths_ok_def)+
    show ?thesis
    proof (cases r)
      case None
      thus ?thesis using 2 w' q ok(3) by (simp add: world_ok_def history_ok_def fair_step_def taken_def Let_def)
    next
      case (Some t)
      thus ?thesis using 2 w' q ok(3) d
        by (auto simp: world_ok_def history_ok_def fair_step_def taken_def Let_def)
    qed
  qed
qed

lemma world_ok_on_loop:
  assumes "world_ok w" "same_tasks (the_loop (thr w)) (f (the_loop (thr w)))"
    "map run_depth (run_states (f (the_loop (thr w)))) = map run_depth (run_states (the_loop (thr w)))"
  shows "world_ok (on_loop f w)"
  unfolding on_loop_def using assms by (intro world_ok_same_tasks) (auto simp: world_ok_def depths_ok_def)

lemma world_ok_enter_pump:
  assumes "world_ok w" "same_tasks (the_loop (thr w)) (f (the_loop (thr w)))"
    "map run_depth (run_states (f (the_loop (thr w)))) = map run_depth (run_states (AutoRunState (the_loop (thr w))))"
  shows "world_ok (enter_pump f w)"
proof -
  have "map run_depth (run_states (f (the_loop (thr w)))) = rev [1..<Suc (Suc (depth (stack (thr w))))]"
    unfolding assms(3) using assms(1) by (intro depths_AutoRunState) (simp add: world_ok_def depths_ok_def)
  thus ?thesis unfolding enter_pump_def using assms(1,2) by (intro world_ok_same_tasks) (auto simp: depths_ok_def)
qed

lemmas world_ok_calls = world_ok_on_loop world_ok_enter_pump same_tasks_calls depths_of_calls
  same_tasks_trans [OF same_tasks_calls(3,4)]

lemma act_world_ok: "act a w = Some w' \<Longrightarrow> world_ok w \<Longrightarrow> world_ok w'"
proof (cases a)
  case (Tick d)
  assume "act a w = Some w'" "world_ok w"
  thus "world_ok w'" using Tick by (auto simp: world_ok_def history_ok_def queues_ok_later split: if_splits)
next
  case Task_end
  assume a: "act a w = Some w'" and w: "world_ok w"
  then obtain t fs where "stack (thr w) = TaskFrame t # fs" using Task_end by (auto split: list.splits frame.splits)
  thus "world_ok w'" using a w Task_end
      world_ok_same_tasks [OF w, of "\<lparr> the_loop = RunTask_end (the_loop (thr w)), stack = fs \<rparr>"]
    by (auto simp: same_tasks_calls world_ok_def depths_ok_def depths_of_calls)
qed (auto simp: world_ok_calls Quit_def Run_begin_def RunAllPending_begin_def split: if_splits
       intro: act_Foreign_post act_Post act_Pump_step)

lemma reachable_world_ok: "reachable_world w \<Longrightarrow> world_ok w"
proof (induction rule: reachable_world.induct)
  case (start c)
  thus ?case by (simp add: world_ok_def initial_world_def queues_ok_def depths_ok_def history_ok_def new_MessageLoop_def
    held_def line_def)
qed (rule act_world_ok)

section \<open>The pump does not oversleep\<close>

definition idle_place :: "place \<Rightarrow> bool" where
  "idle_place pl \<longleftrightarrow> pl \<in> {After_DoWork False, After_DoDelayedWork False, After_DoIdleWork False, Waiting}"

definition busy_frame :: "frame \<Rightarrow> bool" where
  "busy_frame f \<longleftrightarrow> f \<in> range TaskFrame \<union> PumpFrame ` {After_DoWork True, After_DoDelayedWork True, After_DoIdleWork True}"

text \<open>What the pump has made sure of at its place in \<open>Run\<close>; \<open>n\<close> threads are about to signal it.\<close>

definition pump_knows :: "nat \<Rightarrow> message_loop \<Rightarrow> place \<Rightarrow> bool" where
  "pump_knows n L pl \<longleftrightarrow>
     (nestable_tasks_allowed L \<longrightarrow> idle_place pl \<longrightarrow>
        work_queue L = [] \<and> (incoming_queue L = [] \<or> event_signaled (pump L) \<or> 0 < n)) \<and>
     (nestable_tasks_allowed L \<longrightarrow> idle_place pl \<and> pl \<noteq> After_DoWork False \<longrightarrow>
        delayed_work_queue L = [] \<or> delayed_work_time (pump L) = delayed_run_time (hd (delayed_work_queue L))) \<and>
     (pl \<in> {After_DoIdleWork False, Waiting} \<longrightarrow>
        (cur_depth L = 1 \<longrightarrow> deferred_non_nestable_work_queue L = []) \<and>
        (quit_received (hd (run_states L)) \<longrightarrow> \<not> keep_running (pump L))) \<and>
     (pl = Waiting \<longrightarrow> keep_running (pump L))"

definition awake :: "nat \<Rightarrow> thread \<Rightarrow> bool" where
  "awake n th \<longleftrightarrow> (case stack th of PumpFrame pl # _ \<Rightarrow> pump_knows n (the_loop th) pl | _ \<Rightarrow> True) \<and>
     list_all busy_frame (tl (stack th))"

lemma pump_knows_busy: "busy_frame (PumpFrame pl) \<Longrightarrow> pump_knows n L pl" "pump_knows n L In_DoWork"
  by (auto simp: pump_knows_def idle_place_def busy_frame_def)

lemma awake_tl: "list_all busy_frame fs \<Longrightarrow> awake n \<lparr> the_loop = L, stack = fs \<rparr>"
  by (auto simp: awake_def pump_knows_busy list.pred_set dest: list.set_sel(2) split: list.split frame.split)

lemma awake_started:
  "list_all busy_frame fs \<Longrightarrow> busy_frame (PumpFrame pl) \<Longrightarrow>
   awake n \<lparr> the_loop = L, stack = TaskFrame t # PumpFrame pl # fs \<rparr>"
  by (simp add: awake_def)

lemma awake_pump [simp]:
  "awake n \<lparr> the_loop = L, stack = PumpFrame pl # fs \<rparr> \<longleftrightarrow> pump_knows n L pl \<and> list_all busy_frame fs"
  by (simp add: awake_def)

lemma busy_places:
  "busy_frame (PumpFrame (After_DoWork True))" "busy_frame (PumpFrame (After_DoDelayedWork True))"
  "busy_frame (PumpFrame (After_DoIdleWork True))"
  by (simp_all add: busy_frame_def)

lemma pump_step_awake:
  assumes step: "pump_step now L pl fs = Some th" and q: "queues_ok now L"
    and k: "pump_knows n L pl" and fs: "list_all busy_frame fs"
  shows "awake n th"
proof (cases pl)
  case In_DoWork
  show ?thesis
  proof (cases "nestable_tasks_allowed L")
    case True
    obtain L1 r where d: "DoWork_pass L = (L1, r)" by fastforce
    show ?thesis
      using DoWork_pass_fair(2) [OF d q True] step In_DoWork True d awake_started [OF fs busy_places(1)] fs
      by (cases r) (auto simp: call_returns_def pump_knows_def idle_place_def)
  next
    case False
    thus ?thesis using step In_DoWork fs by (auto simp: call_returns_def pump_knows_def)
  qed
next
  case (After_DoWork b)
  obtain L1 m r where d: "DoDelayedWork now (delayed_work_time (pump L)) L = (L1, m, r)" by (metis prod_cases3)
  note f = DoDelayedWork_fair [OF d q]
  show ?thesis
  proof (cases "keep_running (pump L)")
    case True
    show ?thesis
    proof (cases r)
      case None
      have "work_queue L1 = work_queue L" using f(2,4) by (simp add: line_def)
      moreover have "nestable_tasks_allowed L \<Longrightarrow> delayed_work_queue L1 = [] \<or> m = delayed_run_time (hd (delayed_work_queue L1))"
        using f(5) [OF None] by blast
      ultimately show ?thesis using step After_DoWork True None d f(1,3,4) fs k
        by (auto simp: call_returns_def pump_knows_def idle_place_def ScheduleDelayedWork_def fair_step_def)
    next
      case (Some t)
      thus ?thesis using step After_DoWork True d awake_started [OF fs busy_places(2)] by (auto simp: call_returns_def)
    qed
  qed (use step After_DoWork fs in \<open>auto simp: PumpRun_exit_def awake_tl\<close>)
next
  case (After_DoDelayedWork b)
  obtain L1 r where d: "DoIdleWork L = (L1, r)" by fastforce
  note f = DoIdleWork_fair [OF d q]
  show ?thesis
  proof (cases "keep_running (pump L) \<and> \<not> b")
    case True
    show ?thesis
    proof (cases r)
      case None
      have "work_queue L1 = work_queue L" using f(2,3) by (simp add: line_def)
      thus ?thesis using step After_DoDelayedWork True None d f fs k
        by (auto simp: call_returns_def pump_knows_def idle_place_def fair_step_def cur_depth_def)
    next
      case (Some t)
      thus ?thesis using step After_DoDelayedWork True d awake_started [OF fs busy_places(3)] by (auto simp: call_returns_def)
    qed
  qed (use step After_DoDelayedWork fs in \<open>auto simp: PumpRun_exit_def awake_tl pump_knows_busy split: if_splits\<close>)
next
  case (After_DoIdleWork b)
  thus ?thesis using step fs k
    by (auto simp: PumpRun_exit_def awake_tl pump_knows_busy pump_knows_def idle_place_def split: if_splits)
next
  case Waiting
  thus ?thesis using step fs by (auto simp: pump_knows_busy split: if_splits)
qed

lemma pump_knows_more: "pump_knows n L pl \<Longrightarrow> n \<le> m \<Longrightarrow> pump_knows m L pl"
  by (auto simp: pump_knows_def)

lemma awake_loop:
  "awake n th \<Longrightarrow> (\<And>pl. pump_knows n (the_loop th) pl \<Longrightarrow> pump_knows m L pl) \<Longrightarrow> awake m (th\<lparr>the_loop := L\<rparr>)"
  by (auto simp: awake_def split: list.splits frame.splits)

lemma awake_client:
  "clients_turn th \<Longrightarrow> awake n th \<Longrightarrow> awake n (th\<lparr>the_loop := L\<rparr>)"
  by (simp add: awake_def clients_turn_def split: list.splits frame.splits)

lemma awake_enter:
  "clients_turn th \<Longrightarrow> awake n th \<Longrightarrow> awake n \<lparr> the_loop = L, stack = PumpFrame In_DoWork # stack th \<rparr>"
  by (cases "stack th") (auto simp: awake_def clients_turn_def pump_knows_busy busy_frame_def split: frame.splits)

lemma pump_knows_push:
  "pump_knows n L pl \<Longrightarrow> n + (if incoming_queue L = [] then 1 else 0) \<le> m \<Longrightarrow>
   pump_knows m (L\<lparr>incoming_queue := incoming_queue L @ [p]\<rparr>) pl"
  by (cases "incoming_queue L") (auto simp: pump_knows_def cur_depth_def)

lemma pump_knows_signal: "pump_knows n L pl \<Longrightarrow> pump_knows m (ScheduleWork L) pl"
  by (simp add: pump_knows_def ScheduleWork_def cur_depth_def)

lemma act_awake:
  assumes "act a w = Some w'" "world_ok w" "awake (signallers w) (thr w)"
  shows "awake (signallers w') (thr w')"
proof (cases a)
  case (Foreign_post t sent delay nest)
  let ?L = "the_loop (thr w)" and ?p = "new_PendingTask t sent delay nest"
  have "awake (signallers w + (if incoming_queue ?L = [] then 1 else 0))
      ((thr w)\<lparr>the_loop := ?L\<lparr>incoming_queue := incoming_queue ?L @ [?p]\<rparr>\<rparr>)"
    by (rule awake_loop [OF assms(3)], rule pump_knows_push) auto
  thus ?thesis using assms(1) Foreign_post by (auto simp: push_incoming_def on_loop_def Let_def split: if_splits)
next
  case Foreign_signal
  thus ?thesis using assms(1) awake_loop [OF assms(3) pump_knows_signal]
    by (auto simp: on_loop_def split: if_splits)
next
  case Pump_step
  then obtain pl fs where fs: "stack (thr w) = PumpFrame pl # fs"
    using assms(1) by (auto split: list.splits frame.splits)
  then obtain th where th: "pump_step (clock w) (the_loop (thr w)) pl fs = Some th" "thr w' = th" "signallers w' = signallers w"
    using assms(1) Pump_step by (auto split: option.splits)
  have "pump_knows (signallers w) (the_loop (thr w)) pl" "list_all busy_frame fs" using assms(3) fs by (simp_all add: awake_def)
  thus ?thesis using pump_step_awake [OF th(1)] assms(2) th(2,3) by (simp add: world_ok_def)
next
  case Task_end
  then obtain t fs where "stack (thr w) = TaskFrame t # fs" "thr w' = \<lparr> the_loop = RunTask_end (the_loop (thr w)), stack = fs \<rparr>"
    "signallers w' = signallers w"
    using assms(1) by (auto split: list.splits frame.splits)
  thus ?thesis using assms(3) awake_tl by (simp add: awake_def [of _ "thr w"])
qed (use assms(1) awake_client [OF _ assms(3)] awake_enter [OF _ assms(3)] assms(3) in
  \<open>auto simp: on_loop_def enter_pump_def Let_def split: if_splits\<close>)

lemma reachable_awake: "reachable_world w \<Longrightarrow> awake (signallers w) (thr w)"
proof (induction rule: reachable_world.induct)
  case (start c)
  show ?case by (simp add: initial_world_def awake_def)
qed (use act_awake reachable_world_ok in blast)

section \<open>The order of delayed tasks\<close>

definition earlier :: "pending_task \<Rightarrow> pending_task \<Rightarrow> bool" where
  "earlier p q \<longleftrightarrow> delayed_run_time p < delayed_run_time q \<or>
     delayed_run_time p = delayed_run_time q \<and> unat (sequence_num p) < unat (sequence_num q)"

text \<open>\<open>ds\<close> are the delayed tasks that were posted; the first \<open>n\<close> have been given their place in this list
  as sequence number.\<close>

definition numbered :: "pending_task list \<Rightarrow> message_loop \<Rightarrow> bool" where
  "numbered ds L \<longleftrightarrow> (\<exists>n \<le> length ds. next_sequence_num L = of_nat n \<and>
     drop n ds = map ticket (filter delayed (line L)) \<and>
     list_all (\<lambda>p. unat (sequence_num p) < n \<and> ds ! unat (sequence_num p) = ticket p) (delayed_work_queue L)) \<and>
     sorted_wrt earlier (delayed_work_queue L)"

lemma sequence_diff:
  fixes s :: "32 word"
  assumes "unat s < n" "n < 2 ^ 31"
  shows "sint (s - of_nat n) < 0"
proof -
  have s: "s = of_nat (unat s)" by simp
  have "s - of_nat n = - of_nat (n - unat s)" using assms(1) by (subst s) (simp add: of_nat_diff)
  also have "\<dots> = word_of_int (- int (n - unat s))" by simp
  finally have "s - of_nat n = word_of_int (- int (n - unat s))" .
  hence "sint (s - of_nat n) = signed_take_bit 31 (- int (n - unat s))" by (simp only: signed_of_int) simp
  also have "\<dots> = - int (n - unat s)"
  proof -
    have "signed_take_bit 31 (- int m) = - int m" if "m < 2 ^ 31" for m
      using that by (intro signed_take_bit_int_eq_self) auto
    thus ?thesis using assms(2) by simp
  qed
  finally have "sint (s - of_nat n) = - int (n - unat s)" .
  moreover have "0 < int (n - unat s)" using assms(1) by (simp only: of_nat_0_less_iff zero_less_diff)
  ultimately show ?thesis by linarith
qed

lemma put_off_numbered:
  assumes n: "numbered ds (L\<lparr>work_queue := p # ps\<rparr>)" and p: "delayed_run_time p \<noteq> 0" and ds: "length ds < 2 ^ 31"
  shows "numbered ds ((put_off p L)\<lparr>work_queue := ps\<rparr>)"
proof -
  obtain n where n: "n \<le> length ds" "next_sequence_num L = of_nat n"
    "drop n ds = ticket p # map ticket (filter delayed (ps @ incoming_queue L))"
    "\<And>q. q \<in> set (delayed_work_queue L) \<Longrightarrow> unat (sequence_num q) < n \<and> ds ! unat (sequence_num q) = ticket q"
    and s: "sorted_wrt earlier (delayed_work_queue L)"
    using n p by (auto simp: numbered_def line_def delayed_def list_all_iff)
  have len: "n < length ds" "ds ! n = ticket p" "drop (Suc n) ds = map ticket (filter delayed (ps @ incoming_queue L))"
    using n(1,3) by (auto simp: Cons_nth_drop_Suc [symmetric] drop_Suc nth_via_drop tl_drop [symmetric] intro: Suc_leI le_neq_trans)
  have u: "unat (of_nat n :: 32 word) = n" using len(1) ds by (simp add: unsigned_of_nat take_bit_nat_eq_self)
  let ?p = "p\<lparr>sequence_num := of_nat n\<rparr>" and ?q = "delayed_work_queue L"
  let ?P = "\<lambda>o'. \<not> pending_less o' ?p"
  have less: "pending_less o' ?p \<longleftrightarrow> delayed_run_time p < delayed_run_time o'" if "o' \<in> set ?q" for o'
    using sequence_diff [of "sequence_num o'" n] n(4) [OF that] len(1) ds by (auto simp: pending_less_def)
  have sw: "sorted_wrt earlier (takeWhile ?P ?q @ dropWhile ?P ?q)" using s by (simp only: takeWhile_dropWhile_id)
  have before: "earlier x ?p" if "x \<in> set (takeWhile ?P ?q)" for x
    using set_takeWhileD [OF that] less [of x] n(4) [of x] u by (auto simp: earlier_def)
  have after: "earlier ?p x" if x: "x \<in> set (dropWhile ?P ?q)" for x
  proof -
    let ?d = "dropWhile ?P ?q"
    have ne: "?d \<noteq> []" using x by (metis empty_iff list.set(1))
    have "hd ?d \<in> set ?q" using ne hd_in_set set_dropWhileD by metis
    hence h: "delayed_run_time p < delayed_run_time (hd ?d)" using hd_dropWhile [OF ne] less by blast
    have "sorted_wrt earlier ?d" using sw by (simp only: sorted_wrt_append)
    hence "x = hd ?d \<or> earlier (hd ?d) x" using x by (cases ?d) auto
    thus ?thesis using h by (auto simp: earlier_def)
  qed
  have "sorted_wrt earlier (push_delayed ?p ?q)"
    using sw before after unfolding push_delayed_def
    by (simp only: sorted_wrt_append sorted_wrt.simps) (auto simp: earlier_def)
  moreover have "list_all (\<lambda>p. unat (sequence_num p) < Suc n \<and> ds ! unat (sequence_num p) = ticket p)
      (push_delayed ?p ?q)"
    using n(4) u len(2) by (auto simp: list_all_iff less_Suc_eq)
  ultimately show ?thesis using n(1,2) len unfolding numbered_def
    by (intro conjI exI [of _ "Suc n"]) (simp_all add: line_def)
qed

lemma numbered_cong:
  "line L' = line L \<Longrightarrow> delayed_work_queue L' = delayed_work_queue L \<Longrightarrow> next_sequence_num L' = next_sequence_num L \<Longrightarrow>
   numbered ds L' = numbered ds L"
  by (simp add: numbered_def)

lemma numbered_line:
  "filter delayed (line L') = filter delayed (line L) \<Longrightarrow> delayed_work_queue L' = delayed_work_queue L \<Longrightarrow>
   next_sequence_num L' = next_sequence_num L \<Longrightarrow> numbered ds L' = numbered ds L"
  by (simp add: numbered_def)

lemma work_pass_numbered:
  "work_pass ps L = (L', r) \<Longrightarrow> numbered ds (L\<lparr>work_queue := ps\<rparr>) \<Longrightarrow> length ds < 2 ^ 31 \<Longrightarrow> numbered ds L'"
proof (induction ps L rule: work_pass.induct)
  case (2 p ps L)
  show ?case
  proof (cases "delayed_run_time p \<noteq> 0")
    case True
    thus ?thesis using "2.IH"(1) [OF True] "2.prems" put_off_numbered by simp
  next
    case False
    have n: "numbered ds (L\<lparr>work_queue := ps\<rparr>)"
      using "2.prems"(2) False numbered_line [of "L\<lparr>work_queue := ps\<rparr>" "L\<lparr>work_queue := p # ps\<rparr>"]
      by (simp add: line_def delayed_def)
    show ?thesis
    proof (cases "DeferOrRunPendingTask p (L\<lparr>work_queue := ps\<rparr>)")
      case (Pair L2 o2)
      have same: "line L2 = line (L\<lparr>work_queue := ps\<rparr>)" "delayed_work_queue L2 = delayed_work_queue L"
          "next_sequence_num L2 = next_sequence_num L" "work_queue L2 = ps"
        using Pair by (auto simp: DeferOrRunPendingTask_def RunTask_begin_def line_def split: if_splits)
      have n2: "numbered ds L2" using n numbered_cong [of L2 "L\<lparr>work_queue := ps\<rparr>" ds] same(1-3) by simp
      moreover have "L2\<lparr>work_queue := ps\<rparr> = L2" using same(4) by simp
      ultimately show ?thesis using "2.IH"(2) [OF False Pair [symmetric], of] "2.prems" False Pair
        by (cases o2) auto
    qed
  qed
qed simp

lemma numbered_tl:
  "numbered ds L \<Longrightarrow> line L' = line L \<Longrightarrow> delayed_work_queue L' = tl (delayed_work_queue L) \<Longrightarrow>
   next_sequence_num L' = next_sequence_num L \<Longrightarrow> numbered ds L'"
  by (cases "delayed_work_queue L") (auto simp: numbered_def)

lemma pump_step_numbered:
  assumes "pump_step now L pl fs = Some th" "numbered ds L" "length ds < 2 ^ 31"
  shows "numbered ds (the_loop th)"
proof (cases pl)
  case In_DoWork
  let ?L = "ReloadWorkQueue L"
  obtain L1 o1 where w: "work_pass (work_queue ?L) ?L = (L1, o1)" by fastforce
  have "numbered ds ?L" using assms(2) numbered_cong [of ?L L] by (simp add: ReloadWorkQueue_def line_def)
  hence "numbered ds L1" "numbered ds ?L" using work_pass_numbered [OF w] assms(3) by simp_all
  thus ?thesis using assms(1,2) In_DoWork w
    by (auto simp: DoWork_pass_def Let_def call_returns_def split: if_splits option.splits)
next
  case (After_DoWork b)
  obtain L1 m r where d: "DoDelayedWork now (delayed_work_time (pump L)) L = (L1, m, r)" by (metis prod_cases3)
  have "numbered ds L1"
    using d assms(2) numbered_cong [of L1 L ds] numbered_tl [OF assms(2), of L1]
    by (auto simp: DoDelayedWork_def Let_def DeferOrRunPendingTask_def RunTask_begin_def line_def split: if_splits)
  hence "numbered ds (ScheduleDelayedWork m L1)" using numbered_cong [of "ScheduleDelayedWork m L1" L1]
    by (simp add: ScheduleDelayedWork_def line_def)
  thus ?thesis using assms(1,2) After_DoWork d numbered_cong [of "AutoRunState_dtor (L\<lparr>pump := (pump L)\<lparr>keep_running := True\<rparr>\<rparr>)" L ds]
    by (cases r) (auto simp: call_returns_def PumpRun_exit_def AutoRunState_dtor_def line_def split: if_splits)
next
  case (After_DoDelayedWork b)
  obtain L1 r where d: "DoIdleWork L = (L1, r)" by fastforce
  have "numbered ds L1"
    using d assms(2) numbered_cong [of L1 L ds]
    by (auto simp: DoIdleWork_def ProcessNextDelayedNonNestableTask_def RunTask_begin_def PumpQuit_def line_def
      split: if_splits list.splits)
  thus ?thesis using assms(1,2) After_DoDelayedWork d numbered_cong [of "AutoRunState_dtor (L\<lparr>pump := (pump L)\<lparr>keep_running := True\<rparr>\<rparr>)" L ds]
    by (cases r) (auto simp: call_returns_def PumpRun_exit_def AutoRunState_dtor_def line_def split: if_splits)
next
  case (After_DoIdleWork b)
  thus ?thesis using assms(1,2) numbered_cong [of "AutoRunState_dtor (L\<lparr>pump := (pump L)\<lparr>keep_running := True\<rparr>\<rparr>)" L ds]
      numbered_cong [of "ScheduleDelayedWork 0 L" L ds]
    by (auto simp: PumpRun_exit_def AutoRunState_dtor_def ScheduleDelayedWork_def line_def split: if_splits)
next
  case Waiting
  thus ?thesis using assms(1,2) numbered_cong [of "L\<lparr>pump := (pump L)\<lparr>event_signaled := False\<rparr>\<rparr>" L ds]
    by (auto simp: line_def split: if_splits)
qed

lemma numbered_post:
  assumes "numbered ds L" "line L' = line L @ [p]" "ticket p = p" "delayed_work_queue L' = delayed_work_queue L"
    "next_sequence_num L' = next_sequence_num L"
  shows "numbered (ds @ filter delayed [p]) L'"
proof -
  obtain n where n: "n \<le> length ds" "next_sequence_num L = of_nat n" "drop n ds = map ticket (filter delayed (line L))"
    "list_all (\<lambda>q. unat (sequence_num q) < n \<and> ds ! unat (sequence_num q) = ticket q) (delayed_work_queue L)"
    using assms(1) by (auto simp: numbered_def)
  hence "list_all (\<lambda>q. unat (sequence_num q) < n \<and> (ds @ filter delayed [p]) ! unat (sequence_num q) = ticket q)
      (delayed_work_queue L)"
    by (auto simp: list_all_iff nth_append)
  thus ?thesis using assms n unfolding numbered_def by (intro conjI exI [of _ n]) (simp_all add: numbered_def)
qed

text \<open>Every action posts a task, is a step of the pump, or leaves the queues alone.\<close>

lemma act_kinds:
  assumes "act a w = Some w'"
  obtains (post) p where "posted w' = posted w @ [p]" "ticket p = p" "line (the_loop (thr w')) = line (the_loop (thr w)) @ [p]"
      "delayed_work_queue (the_loop (thr w')) = delayed_work_queue (the_loop (thr w))"
      "next_sequence_num (the_loop (thr w')) = next_sequence_num (the_loop (thr w))"
  | (pump) pl fs where "pump_step (clock w) (the_loop (thr w)) pl fs = Some (thr w')" "posted w' = posted w"
  | (same) "same_tasks (the_loop (thr w)) (the_loop (thr w'))" "posted w' = posted w"
proof (cases a)
  case (Foreign_post t sent delay nest)
  thus ?thesis using assms post [of "new_PendingTask t sent delay nest"]
    by (auto simp: push_incoming_def on_loop_def Let_def line_def split: if_splits)
next
  case (Post t delay nest)
  thus ?thesis using assms post [of "new_PendingTask t (clock w) delay nest"]
    by (auto simp: PostTask_Helper_def ScheduleWork_def push_incoming_def on_loop_def Let_def line_def split: if_splits)
next
  case Pump_step
  thus ?thesis using assms pump by (auto split: list.splits frame.splits option.splits)
next
  case Task_end
  thus ?thesis using assms same by (auto simp: same_tasks_calls split: list.splits frame.splits)
next
  case (Tick d)
  thus ?thesis using assms same by (auto simp: same_tasks_def split: if_splits)
qed (use assms same in \<open>auto simp: on_loop_def enter_pump_def world_ok_calls Quit_def Run_begin_def RunAllPending_begin_def
       split: if_splits\<close>)

lemma act_numbered:
  assumes "act a w = Some w'" "numbered (filter delayed (posted w)) (the_loop (thr w))" "length (posted w) < 2 ^ 31"
  shows "numbered (filter delayed (posted w')) (the_loop (thr w'))"
  using assms(1)
proof (cases rule: act_kinds)
  case (post p)
  thus ?thesis using numbered_post [OF assms(2), of "the_loop (thr w')" p] by simp
next
  case (pump pl fs)
  have "length (filter delayed (posted w)) < 2 ^ 31" by (rule le_less_trans [OF length_filter_le assms(3)])
  thus ?thesis using pump_step_numbered [OF pump(1) assms(2)] pump(2) by simp
next
  case same
  thus ?thesis using assms(2) numbered_cong [of "the_loop (thr w')" "the_loop (thr w)"] by (simp add: same_tasks_def)
qed

lemma act_posted: "act a w = Some w' \<Longrightarrow> length (posted w) \<le> length (posted w')"
  by (erule act_kinds) auto

lemma reachable_numbered:
  "reachable_world w \<Longrightarrow> length (posted w) < 2 ^ 31 \<Longrightarrow> numbered (filter delayed (posted w)) (the_loop (thr w))"
proof (induction rule: reachable_world.induct)
  case (start c)
  show ?case by (simp add: initial_world_def numbered_def new_MessageLoop_def line_def)
next
  case (step w a w')
  thus ?case using act_numbered act_posted [OF step(2)] by simp
qed

section \<open>Properties\<close>

lemma reachable_history: "reachable_world w \<Longrightarrow> history_ok w"
  by (simp add: reachable_world_ok world_ok_def [THEN iffD1])

text \<open>A run of a task that starts a nested run; another thread posts meanwhile.\<close>

definition sample_run :: "action list" where
  "sample_run = [Post 1 0 True, Post 2 0 False, Post 3 0 True, Post 4 7 True, Call_Run, Pump_step,
     Set_nestable True, Call_RunAllPending, Foreign_post 5 9 0 True, Pump_step, Task_end, Pump_step, Foreign_signal]"

definition sample_world :: world where
  "sample_world = the (acts sample_run (initial_world 10))"

lemma sample_world_reachable: "reachable_world sample_world"
proof -
  have "acts sample_run (initial_world 10) \<noteq> None" by code_simp
  hence "acts sample_run (initial_world 10) = Some sample_world" by (auto simp: sample_world_def)
  thus ?thesis by (rule acts_reachable) (simp add: reachable_world.start)
qed

text \<open>A run that puts off two tasks, wakes up once for the signal of their posting and sleeps.\<close>

definition sleeping_run :: "action list" where
  "sleeping_run = [Post 1 5 True, Post 2 5 True, Call_Run] @ replicate 10 Pump_step"

definition sleeping_world :: world where
  "sleeping_world = the (acts sleeping_run (initial_world 10))"

lemma sleeping_world_reachable: "reachable_world sleeping_world"
proof -
  have "acts sleeping_run (initial_world 10) \<noteq> None" by code_simp
  hence "acts sleeping_run (initial_world 10) = Some sleeping_world" by (auto simp: sleeping_world_def)
  thus ?thesis by (rule acts_reachable) (simp add: reachable_world.start)
qed

text \<open>C19. Tasks that may be nested and have no delay start in the order in which they were posted, whatever
  other threads post and however runs are nested: those posted are those started, followed by those
  still in line.\<close>

theorem tasks_start_in_the_order_of_posting:
  assumes "reachable_world w"
  shows "filter plain (posted w) = map ticket (filter plain (map fst (started w))) @
     map ticket (filter plain (work_queue (the_loop (thr w)) @ incoming_queue (the_loop (thr w))))"
  using reachable_history [OF assms] by (simp add: history_ok_def line_def Let_def)

theorem tasks_start_in_the_order_of_posting_witness:
  "map task (filter plain (posted sample_world)) = [1, 3, 5] \<and> map (task \<circ> fst) (started sample_world) = [1, 3] \<and>
   filter plain (posted sample_world) = map ticket (filter plain (map fst (started sample_world))) @
     map ticket (filter plain (work_queue (the_loop (thr sample_world)) @ incoming_queue (the_loop (thr sample_world))))"
proof -
  have "map task (filter plain (posted sample_world)) = [1, 3, 5] \<and> map (task \<circ> fst) (started sample_world) = [1, 3]"
    by code_simp
  thus ?thesis using tasks_start_in_the_order_of_posting [OF sample_world_reachable] by simp
qed

text \<open>C20. No task is lost, and none starts twice: every task that was posted has started or waits in exactly
  one of the four queues.\<close>

theorem no_task_is_lost:
  assumes "reachable_world w"
  shows "mset (posted w) = mset (map (ticket \<circ> fst) (started w)) + held (the_loop (thr w))"
  using reachable_history [OF assms] by (simp add: history_ok_def Let_def)

theorem no_task_is_lost_witness:
  "mset (posted sample_world) = mset (map (ticket \<circ> fst) (started sample_world)) + held (the_loop (thr sample_world))"
  by (rule no_task_is_lost [OF sample_world_reachable])

text \<open>C21. A task posted as non-nestable starts only in the outermost run, and no task starts before its
  time.\<close>

theorem tasks_start_where_and_when_they_may:
  assumes "reachable_world w" "(p, d, t) \<in> set (started w)"
  shows "(nestable p \<or> d = 1) \<and> delayed_run_time p \<le> t"
  using reachable_history [OF assms(1)] assms(2) by (auto simp: history_ok_def Let_def list_all_iff)

theorem tasks_start_where_and_when_they_may_witness:
  "case started sample_world ! 1 of (p, d, t) \<Rightarrow> d = 2 \<and> (nestable p \<or> d = 1) \<and> delayed_run_time p \<le> t"
proof -
  obtain p d t where e: "started sample_world ! 1 = (p, d, t)" by (metis prod_cases3)
  have "length (started sample_world) = 2 \<and> fst (snd (started sample_world ! 1)) = 2" by code_simp
  hence "(p, d, t) \<in> set (started sample_world)" "d = 2" using e nth_mem [of 1 "started sample_world"] by auto
  thus ?thesis using e tasks_start_where_and_when_they_may [OF sample_world_reachable, of p d t] by simp
qed

text \<open>As long as fewer than \<open>2 ^ 31\<close> tasks were posted, the queue of delayed tasks is in the order of
  their times, and those of the same time are in the order in which they were posted: the sequence
  number of a task is its place among the delayed tasks posted.\<close>

theorem delayed_tasks_are_in_order:
  assumes "reachable_world w" "length (posted w) < 2 ^ 31"
  shows "sorted_wrt earlier (delayed_work_queue (the_loop (thr w))) \<and>
    (\<forall>p \<in> set (delayed_work_queue (the_loop (thr w))). filter delayed (posted w) ! unat (sequence_num p) = ticket p)"
  using reachable_numbered [OF assms] by (auto simp: numbered_def list_all_iff)

theorem delayed_tasks_are_in_order_witness:
  "map (\<lambda>p. (task p, delayed_run_time p)) (delayed_work_queue (the_loop (thr sleeping_world))) = [(1, 5010), (2, 5010)] \<and>
   sorted_wrt earlier (delayed_work_queue (the_loop (thr sleeping_world)))"
proof -
  have "map (\<lambda>p. (task p, delayed_run_time p)) (delayed_work_queue (the_loop (thr sleeping_world))) = [(1, 5010), (2, 5010)] \<and>
    length (posted sleeping_world) = 2" by code_simp
  thus ?thesis using delayed_tasks_are_in_order [OF sleeping_world_reachable] by simp
qed

text \<open>C18. A pump that sleeps has nothing to do. When it waits in a run where tasks may run, and neither its
  event nor the time it set wakes it, then no task is in line unless the thread that posted it is
  about to signal, no delayed task is due, the outermost run has no deferred task, and the run was
  not told to quit.\<close>

theorem pump_never_oversleeps:
  assumes "reachable_world w" "stack (thr w) = PumpFrame pl # fs" "nestable_tasks_allowed (the_loop (thr w))"
    "pump_step (clock w) (the_loop (thr w)) pl fs = None"
  shows "work_queue (the_loop (thr w)) = [] \<and> (incoming_queue (the_loop (thr w)) = [] \<or> 0 < signallers w) \<and>
    (\<forall>p \<in> set (delayed_work_queue (the_loop (thr w))). clock w < delayed_run_time p) \<and>
    (depth fs = 0 \<longrightarrow> deferred_non_nestable_work_queue (the_loop (thr w)) = []) \<and>
    \<not> quit_received (hd (run_states (the_loop (thr w))))"
proof -
  let ?L = "the_loop (thr w)"
  have q: "queues_ok (clock w) ?L" "depths_ok (thr w)" using reachable_world_ok [OF assms(1)] by (simp_all add: world_ok_def)
  have pl: "pl = Waiting" using assms(4) by (cases pl) auto
  hence k: "pump_knows (signallers w) ?L Waiting" using reachable_awake [OF assms(1)] assms(2) by (simp add: awake_def)
  have asleep: "\<not> event_signaled (pump ?L)" "delayed_work_time (pump ?L) = 0 \<or> clock w < delayed_work_time (pump ?L)"
    using assms(4) pl by (auto split: if_splits)
  have "clock w < delayed_run_time p" if p: "p \<in> set (delayed_work_queue ?L)" for p
  proof -
    obtain x xs where x: "delayed_work_queue ?L = x # xs" using p by (cases "delayed_work_queue ?L") auto
    have "delayed_run_time x \<noteq> 0" "delayed_run_time x \<le> delayed_run_time p"
      using q(1) p x by (auto simp: queues_ok_def delayed_def)
    thus ?thesis using k x asleep(2) assms(3) by (auto simp: pump_knows_def idle_place_def)
  qed
  moreover have "depth fs = 0 \<Longrightarrow> cur_depth ?L = 1" using cur_depth_pump [OF q(2), of "depth fs"] assms(2) by simp
  ultimately show ?thesis using k asleep(1) assms(3) by (auto simp: pump_knows_def idle_place_def)
qed

theorem pump_never_oversleeps_witness:
  "task (delayed_work_queue (the_loop (thr sleeping_world)) ! 0) = 1 \<and>
   list_all (\<lambda>p. clock sleeping_world < delayed_run_time p) (delayed_work_queue (the_loop (thr sleeping_world)))"
proof -
  have "task (delayed_work_queue (the_loop (thr sleeping_world)) ! 0) = 1" by code_simp
  moreover have "stack (thr sleeping_world) = [PumpFrame Waiting] \<and> nestable_tasks_allowed (the_loop (thr sleeping_world)) \<and>
    pump_step (clock sleeping_world) (the_loop (thr sleeping_world)) Waiting [] = None" by code_simp
  ultimately show ?thesis using pump_never_oversleeps [OF sleeping_world_reachable, of Waiting "[]"] by (simp add: list_all_iff)
qed

end
