(* ===== verification/TokenSource.thy ===== *)
theory TokenSource
  imports Prelude
begin

text \<open>
  The part of \<open>CommandBufferHelper\<close> that the memory allocators of
  \<open>src/gpu/command_buffer/client\<close> call: waiting until the reader of the command buffer has passed
  a token, and the last token it is known to have read. \<open>FencedAllocator\<close> and \<open>RingBuffer\<close> take
  a \<open>token_source\<close>; \<open>CommandHelper\<close> provides it and proves the laws.

  Waiting is \<open>None\<close> where the process stops, as on an empty command buffer, or waits for ever.
\<close>

record 'h token_source =
  wait_for_token :: "int \<Rightarrow> 'h \<Rightarrow> 'h option"
  last_read :: "'h \<Rightarrow> int"

text \<open>The contract: a predicate \<open>passed\<close> that says the reader no longer uses what was freed under a
  token. Waiting for a token makes it passed, and a token up to the last one read is passed.\<close>

locale token_laws =
  fixes T :: "'h token_source" and passed :: "int \<Rightarrow> 'h \<Rightarrow> bool"
  assumes wait_passed: "wait_for_token T t h = Some h' \<Longrightarrow> passed t h'"
    and read_passed: "t \<le> last_read T h \<Longrightarrow> passed t h"

text \<open>Waiting for a sequence of tokens.\<close>

inductive waited :: "'h token_source \<Rightarrow> int set \<Rightarrow> 'h \<Rightarrow> 'h \<Rightarrow> bool" for T where
  waited_none: "waited T {} h h"
| waited_more: "wait_for_token T t h = Some h' \<Longrightarrow> waited T W h' h'' \<Longrightarrow> waited T (insert t W) h h''"

text \<open>Under the contract, each token was passed in a state the waiting went through.\<close>

context token_laws begin

lemma waited_passed: "waited T W h h' \<Longrightarrow> t \<in> W \<Longrightarrow> \<exists>h1 U. waited T U h1 h' \<and> passed t h1"
  by (induction rule: waited.induct) (auto dest: wait_passed)

end

end
