(* ===== verification/FencedAllocator.thy ===== *)
theory FencedAllocator
  imports TokenSource
begin

text \<open>
  \<open>FencedAllocator\<close> (\<open>src/gpu/command_buffer/client/fenced_allocator.cc\<close>): the client's
  bookkeeping of a transfer buffer shared with the GPU process. The buffer is cut into blocks in
  offset order; a block is in use, free, or free once the reader has passed a token. Offsets and
  sizes are 32 bit unsigned. A function that takes an offset is \<open>None\<close> where the binary search
  ends past the last block, which the code dereferences.
\<close>

datatype block_state = IN_USE | FREE | FREE_PENDING_TOKEN

record Block =
  b_state :: block_state
  b_offset :: "32 word"
  b_size :: "32 word"
  b_token :: int

definition kInvalidOffset :: "32 word" where "kInvalidOffset = 0xffffffff"
definition kUnusedToken :: int where "kUnusedToken = 0"

definition new_FencedAllocator :: "32 word \<Rightarrow> Block list" where
  "new_FencedAllocator sz =
    [\<lparr> b_state = FREE, b_offset = 0, b_size = sz, b_token = kUnusedToken \<rparr>]"

text \<open>\<open>std::lower_bound\<close> on the blocks, which are sorted by offset.\<close>

definition GetBlockByOffset :: "32 word \<Rightarrow> Block list \<Rightarrow> nat" where
  "GetBlockByOffset offset blocks = length (takeWhile (\<lambda>b. b_offset b < offset) blocks)"

definition collapse_next :: "nat \<Rightarrow> Block list \<Rightarrow> Block list" where
  "collapse_next index blocks =
    (if Suc index < length blocks \<and> b_state (blocks ! Suc index) = FREE then
       erase_at (Suc index)
         (blocks[index := (blocks ! index) \<lparr> b_size := b_size (blocks ! index) + b_size (blocks ! Suc index) \<rparr>])
     else blocks)"

definition collapse_previous :: "nat \<Rightarrow> Block list \<Rightarrow> nat \<times> Block list" where
  "collapse_previous index blocks =
    (if index > 0 \<and> b_state (blocks ! (index - 1)) = FREE then
       (index - 1,
        erase_at index
          (blocks[index - 1 := (blocks ! (index - 1))
             \<lparr> b_size := b_size (blocks ! (index - 1)) + b_size (blocks ! index) \<rparr>]))
     else (index, blocks))"

definition CollapseFreeBlock :: "nat \<Rightarrow> Block list \<Rightarrow> nat \<times> Block list" where
  "CollapseFreeBlock index blocks = collapse_previous index (collapse_next index blocks)"

definition AllocInBlock :: "nat \<Rightarrow> 32 word \<Rightarrow> Block list \<Rightarrow> 32 word \<times> Block list" where
  "AllocInBlock index sz blocks =
    (let block = blocks ! index; offset = b_offset block
     in if b_size block = sz then (offset, blocks[index := block \<lparr> b_state := IN_USE \<rparr>])
        else let newblock = \<lparr> b_state = FREE, b_offset = offset + sz, b_size = b_size block - sz,
                              b_token = kUnusedToken \<rparr>
             in (offset, insert_at (Suc index) newblock
                           (blocks[index := block \<lparr> b_state := IN_USE, b_size := sz \<rparr>])))"

definition WaitForTokenAndFreeBlock ::
  "'h token_source \<Rightarrow> nat \<Rightarrow> Block list \<Rightarrow> 'h \<Rightarrow> (nat \<times> Block list \<times> 'h) option" where
  "WaitForTokenAndFreeBlock T index blocks h =
    (case wait_for_token T (b_token (blocks ! index)) h of
       None \<Rightarrow> None
     | Some h \<Rightarrow>
         let (index, blocks) = CollapseFreeBlock index (blocks[index := (blocks ! index) \<lparr> b_state := FREE \<rparr>])
         in Some (index, blocks, h))"

text \<open>The first loop of \<open>Alloc\<close>: the first free block that is big enough.\<close>

fun find_free :: "32 word \<Rightarrow> nat \<Rightarrow> Block list \<Rightarrow> nat option" where
  "find_free sz i [] = None"
| "find_free sz i (block # blocks) =
    (if b_state block = FREE \<and> b_size block \<ge> sz then Some i else find_free sz (Suc i) blocks)"

text \<open>Collapsing keeps the distance of the returned index from the end, or shortens it.\<close>

lemma length_collapse_next: "length (collapse_next i bs) \<le> length bs" "i < length bs \<Longrightarrow> i < length (collapse_next i bs)"
  by (auto simp: collapse_next_def length_erase_at)

lemma CollapseFreeBlock_distance:
  assumes "CollapseFreeBlock i bs = (i', bs')" "i < length bs"
  shows "length bs' - i' \<le> length bs - i" "i' < length bs'" "length bs' \<le> length bs"
  using assms length_collapse_next [of i bs]
  by (auto simp: CollapseFreeBlock_def collapse_previous_def length_erase_at split: if_splits)

lemma WaitForTokenAndFreeBlock_distance:
  assumes "WaitForTokenAndFreeBlock T i bs h = Some (i', bs', h')" "i < length bs"
  shows "length bs' - i' \<le> length bs - i" "i' < length bs'" "length bs' \<le> length bs"
  using assms CollapseFreeBlock_distance [of i "bs[i := (bs ! i) \<lparr> b_state := FREE \<rparr>]" i' bs']
  by (auto simp: WaitForTokenAndFreeBlock_def split: option.splits prod.splits)

text \<open>The second loop of \<open>Alloc\<close>: wait for the blocks pending a token, in order.\<close>

function alloc_pending ::
  "'h token_source \<Rightarrow> 32 word \<Rightarrow> nat \<Rightarrow> Block list \<Rightarrow> 'h \<Rightarrow> (32 word \<times> Block list \<times> 'h) option" where
  "alloc_pending T sz i blocks h =
    (if i < length blocks then
       if b_state (blocks ! i) \<noteq> FREE_PENDING_TOKEN then alloc_pending T sz (Suc i) blocks h
       else case WaitForTokenAndFreeBlock T i blocks h of
              None \<Rightarrow> None
            | Some (i, blocks, h) \<Rightarrow>
                if b_size (blocks ! i) \<ge> sz
                then let (offset, blocks) = AllocInBlock i sz blocks in Some (offset, blocks, h)
                else alloc_pending T sz (Suc i) blocks h
     else Some (kInvalidOffset, blocks, h))"
  by pat_completeness auto

termination
proof (relation "measure (\<lambda>(T, sz, i, bs, h). length bs - i)")
  fix T :: "'h token_source" and sz i bs h r i' q bs' h'
  assume "i < length bs" "WaitForTokenAndFreeBlock T i bs h = Some r" "(i', q) = r" "(bs', h') = q"
  thus "((T, sz, Suc i', bs', h'), T, sz, i, bs, h) \<in> measure (\<lambda>(T, sz, i, bs, h). length bs - i)"
    using WaitForTokenAndFreeBlock_distance [of T i bs h i' bs' h'] by auto
qed auto

declare alloc_pending.simps [simp del]

text \<open>The loop of the destructor, which waits for every pending block.\<close>

function free_all_pending :: "'h token_source \<Rightarrow> nat \<Rightarrow> Block list \<Rightarrow> 'h \<Rightarrow> (Block list \<times> 'h) option" where
  "free_all_pending T i blocks h =
    (if i < length blocks then
       if b_state (blocks ! i) = FREE_PENDING_TOKEN then
         case WaitForTokenAndFreeBlock T i blocks h of
           None \<Rightarrow> None
         | Some (i, blocks, h) \<Rightarrow> free_all_pending T (Suc i) blocks h
       else free_all_pending T (Suc i) blocks h
     else Some (blocks, h))"
  by pat_completeness auto

termination
proof (relation "measure (\<lambda>(T, i, bs, h). length bs - i)")
  fix T :: "'h token_source" and i bs h r i' q bs' h'
  assume "i < length bs" "WaitForTokenAndFreeBlock T i bs h = Some r" "(i', q) = r" "(bs', h') = q"
  thus "((T, Suc i', bs', h'), T, i, bs, h) \<in> measure (\<lambda>(T, i, bs, h). length bs - i)"
    using WaitForTokenAndFreeBlock_distance [of T i bs h i' bs' h'] by auto
qed auto

declare free_all_pending.simps [simp del]

definition Fenced_Alloc ::
  "'h token_source \<Rightarrow> 32 word \<Rightarrow> Block list \<Rightarrow> 'h \<Rightarrow> (32 word \<times> Block list \<times> 'h) option" where
  "Fenced_Alloc T sz blocks h =
    (let sz = (if sz = 0 then 1 else sz)
     in case find_free sz 0 blocks of
          Some i \<Rightarrow> let (offset, blocks) = AllocInBlock i sz blocks in Some (offset, blocks, h)
        | None \<Rightarrow> alloc_pending T sz 0 blocks h)"

definition Fenced_Free :: "32 word \<Rightarrow> Block list \<Rightarrow> Block list option" where
  "Fenced_Free offset blocks =
    (let index = GetBlockByOffset offset blocks
     in if index < length blocks
        then Some (snd (CollapseFreeBlock index (blocks[index := (blocks ! index) \<lparr> b_state := FREE \<rparr>])))
        else None)"

definition Fenced_FreePendingToken :: "32 word \<Rightarrow> int \<Rightarrow> Block list \<Rightarrow> Block list option" where
  "Fenced_FreePendingToken offset token blocks =
    (let index = GetBlockByOffset offset blocks
     in if index < length blocks
        then Some (blocks[index := (blocks ! index) \<lparr> b_state := FREE_PENDING_TOKEN, b_token := token \<rparr>])
        else None)"

definition GetLargestFreeSize :: "Block list \<Rightarrow> 32 word" where
  "GetLargestFreeSize blocks =
    fold (\<lambda>block max_size. if b_state block = FREE then max max_size (b_size block) else max_size) blocks 0"

fun largest_free_or_pending :: "Block list \<Rightarrow> 32 word \<Rightarrow> 32 word \<Rightarrow> 32 word" where
  "largest_free_or_pending [] max_size current_size = max max_size current_size"
| "largest_free_or_pending (block # blocks) max_size current_size =
    (if b_state block = IN_USE then largest_free_or_pending blocks (max max_size current_size) 0
     else largest_free_or_pending blocks max_size (current_size + b_size block))"

definition GetLargestFreeOrPendingSize :: "Block list \<Rightarrow> 32 word" where
  "GetLargestFreeOrPendingSize blocks = largest_free_or_pending blocks 0 0"

text \<open>The loop of \<open>FreeUnused\<close>, which reads the last token once.\<close>

function free_unused_loop :: "int \<Rightarrow> nat \<Rightarrow> Block list \<Rightarrow> Block list" where
  "free_unused_loop last_token_read i blocks =
    (if i < length blocks then
       if b_state (blocks ! i) = FREE_PENDING_TOKEN \<and> b_token (blocks ! i) \<le> last_token_read then
         let (i, blocks) = CollapseFreeBlock i (blocks[i := (blocks ! i) \<lparr> b_state := FREE \<rparr>])
         in free_unused_loop last_token_read i blocks
       else free_unused_loop last_token_read (Suc i) blocks
     else blocks)"
  by pat_completeness auto

definition pending_count :: "Block list \<Rightarrow> nat" where
  "pending_count bs = length (filter (\<lambda>b. b_state b = FREE_PENDING_TOKEN) bs)"

text \<open>Freeing a pending block leaves fewer of them.\<close>

lemma erase_at_split: "i < length xs \<Longrightarrow> xs = take i xs @ xs ! i # drop (Suc i) xs"
  by (rule id_take_nth_drop)

lemma pending_count_update:
  "i < length bs \<Longrightarrow> pending_count (bs[i := b]) + (if b_state (bs ! i) = FREE_PENDING_TOKEN then 1 else 0)
     = pending_count bs + (if b_state b = FREE_PENDING_TOKEN then 1 else 0)"
  unfolding pending_count_def
  by (subst (2) erase_at_split [of i bs], assumption)
     (simp add: upd_conv_take_nth_drop)

lemma pending_count_erase:
  "i < length bs \<Longrightarrow> pending_count (erase_at i bs) \<le> pending_count bs"
  unfolding pending_count_def
  by (subst (2) erase_at_split [of i bs], assumption) (simp add: erase_at_def)

lemma pending_count_collapse_next: "i < length bs \<Longrightarrow> pending_count (collapse_next i bs) \<le> pending_count bs"
  using pending_count_update [of i bs "(bs ! i) \<lparr> b_size := b_size (bs ! i) + b_size (bs ! Suc i) \<rparr>"]
    pending_count_erase [of "Suc i" "bs[i := (bs ! i) \<lparr> b_size := b_size (bs ! i) + b_size (bs ! Suc i) \<rparr>]"]
  by (auto simp: collapse_next_def)

lemma pending_count_collapse:
  assumes "CollapseFreeBlock i bs = (i', bs')" "i < length bs"
  shows "pending_count bs' \<le> pending_count bs"
proof -
  let ?c = "collapse_next i bs"
  have "pending_count bs' \<le> pending_count ?c"
  proof (cases "i > 0 \<and> b_state (?c ! (i - 1)) = FREE")
    case True
    let ?u = "?c[i - 1 := (?c ! (i - 1)) \<lparr> b_size := b_size (?c ! (i - 1)) + b_size (?c ! i) \<rparr>]"
    have len: "i < length ?c" using length_collapse_next [of i bs] assms(2) by simp
    have "bs' = erase_at i ?u" using assms(1) True by (auto simp: CollapseFreeBlock_def collapse_previous_def)
    thus ?thesis
      using pending_count_erase [of i ?u] len
        pending_count_update [of "i - 1" ?c "(?c ! (i - 1)) \<lparr> b_size := b_size (?c ! (i - 1)) + b_size (?c ! i) \<rparr>"]
      by simp
  next
    case False
    thus ?thesis using assms(1) by (auto simp: CollapseFreeBlock_def collapse_previous_def)
  qed
  thus ?thesis using pending_count_collapse_next [OF assms(2)] by simp
qed

termination free_unused_loop
proof (relation "measures [\<lambda>(t, i, bs). pending_count bs, \<lambda>(t, i, bs). length bs - i]")
  fix t :: int and i and bs :: "Block list" and r i' bs'
  assume i: "i < length bs" and p: "b_state (bs ! i) = FREE_PENDING_TOKEN \<and> b_token (bs ! i) \<le> t"
    and r: "r = CollapseFreeBlock i (bs[i := (bs ! i) \<lparr> b_state := FREE \<rparr>])" "(i', bs') = r"
  have "pending_count (bs[i := (bs ! i) \<lparr> b_state := FREE \<rparr>]) < pending_count bs"
    using pending_count_update [OF i, of "(bs ! i) \<lparr> b_state := FREE \<rparr>"] p by simp
  moreover have "pending_count bs' \<le> pending_count (bs[i := (bs ! i) \<lparr> b_state := FREE \<rparr>])"
    using pending_count_collapse [of i "bs[i := (bs ! i) \<lparr> b_state := FREE \<rparr>]" i' bs'] r i by simp
  ultimately show "((t, i', bs'), t, i, bs) \<in> measures [\<lambda>(t, i, bs). pending_count bs, \<lambda>(t, i, bs). length bs - i]"
    by simp
qed auto

declare free_unused_loop.simps [simp del]

definition FreeUnused :: "'h token_source \<Rightarrow> Block list \<Rightarrow> 'h \<Rightarrow> Block list" where
  "FreeUnused T blocks h = free_unused_loop (last_read T h) 0 blocks"

text \<open>\<open>CheckConsistency\<close>, the check the tests use.\<close>

fun check_blocks :: "Block list \<Rightarrow> bool" where
  "check_blocks (current # next_block # blocks) =
    (if b_offset next_block \<le> b_offset current then False
     else if b_offset next_block \<noteq> b_offset current + b_size current then False
     else if b_state current = FREE \<and> b_state next_block = FREE then False
     else check_blocks (next_block # blocks))"
| "check_blocks _ = True"

definition CheckConsistency :: "Block list \<Rightarrow> bool" where
  "CheckConsistency blocks = (if length blocks < 1 then False else check_blocks blocks)"

end
