(* ===== verification/FencedInv.thy ===== *)
theory FencedInv
  imports FencedAllocator
begin

text \<open>
  The blocks of a \<open>FencedAllocator\<close> tile the buffer: each starts where the one before it ends, none
  is empty, and no two free blocks are neighbours. On such a list the blocks are a map from the
  bytes of the buffer to what may be done with them, and every operation is described by its
  effect on that map.
\<close>

subsection \<open>Tilings\<close>

fun tiled :: "nat \<Rightarrow> Block list \<Rightarrow> nat \<Rightarrow> bool" where
  "tiled s [] e = (s = e)"
| "tiled s (b # bs) e =
    (unat (b_offset b) = s \<and> 0 < unat (b_size b) \<and> tiled (s + unat (b_size b)) bs e)"

lemma tiled_append: "tiled s (xs @ ys) e \<longleftrightarrow> (\<exists>m. tiled s xs m \<and> tiled m ys e)"
  by (induction xs arbitrary: s) auto

lemma tiled_le: "tiled s bs e \<Longrightarrow> s \<le> e"
  by (induction bs arbitrary: s) (auto dest: add_leD1)

lemma tiled_Nil_iff: "tiled s bs s \<longleftrightarrow> bs = []"
  by (cases bs) (auto dest: tiled_le)

lemma tiled_update [simp]:
  "tiled s (b \<lparr> b_state := st \<rparr> # bs) e = tiled s (b # bs) e"
  "tiled s (b \<lparr> b_state := st, b_token := t \<rparr> # bs) e = tiled s (b # bs) e"
  by simp_all

definition no_free_pair :: "Block list \<Rightarrow> bool" where
  "no_free_pair = successively (\<lambda>a b. \<not> (b_state a = FREE \<and> b_state b = FREE))"

definition fenced_ok :: "nat \<Rightarrow> Block list \<Rightarrow> bool" where
  "fenced_ok N bs \<longleftrightarrow> 0 < N \<and> N < 2 ^ 32 \<and> tiled 0 bs N \<and> no_free_pair bs"

lemma no_free_pair_Nil [simp]: "no_free_pair []"
  by (simp add: no_free_pair_def)

lemma no_free_pair_single [simp]: "no_free_pair [b]"
  by (simp add: no_free_pair_def)

lemma no_free_pair_Cons2 [simp]:
  "no_free_pair (a # b # bs) \<longleftrightarrow> \<not> (b_state a = FREE \<and> b_state b = FREE) \<and> no_free_pair (b # bs)"
  by (simp add: no_free_pair_def)

lemma no_free_pair_append:
  "no_free_pair (xs @ ys) \<longleftrightarrow> no_free_pair xs \<and> no_free_pair ys \<and>
    (xs = [] \<or> ys = [] \<or> \<not> (b_state (last xs) = FREE \<and> b_state (hd ys) = FREE))"
  by (auto simp: no_free_pair_def successively_append_iff)

lemma no_free_pair_Cons:
  "no_free_pair (b # bs) \<longleftrightarrow> no_free_pair bs \<and> (bs = [] \<or> \<not> (b_state b = FREE \<and> b_state (hd bs) = FREE))"
  by (cases bs) auto

subsection \<open>The bytes of the buffer\<close>

datatype byte_status = Used | Available | Fenced int

definition status :: "Block \<Rightarrow> byte_status" where
  "status b = (case b_state b of IN_USE \<Rightarrow> Used | FREE \<Rightarrow> Available | FREE_PENDING_TOKEN \<Rightarrow> Fenced (b_token b))"

definition covers :: "Block \<Rightarrow> nat \<Rightarrow> bool" where
  "covers b n \<longleftrightarrow> unat (b_offset b) \<le> n \<and> n < unat (b_offset b) + unat (b_size b)"

fun bytes :: "Block list \<Rightarrow> nat \<Rightarrow> byte_status option" where
  "bytes [] n = None"
| "bytes (b # bs) n = (if covers b n then Some (status b) else bytes bs n)"

lemma bytes_append: "bytes (xs @ ys) n = (case bytes xs n of None \<Rightarrow> bytes ys n | Some s \<Rightarrow> Some s)"
  by (induction xs) auto

lemma bytes_append_cong: "bytes ys = bytes zs \<Longrightarrow> bytes (xs @ ys) = bytes (xs @ zs)"
  by (rule ext) (simp add: bytes_append split: option.splits)

lemma bytes_dom: "tiled s bs e \<Longrightarrow> bytes bs n \<noteq> None \<longleftrightarrow> s \<le> n \<and> n < e"
proof (induction bs arbitrary: s)
  case Nil thus ?case by auto
next
  case (Cons b bs)
  hence "s + unat (b_size b) \<le> e" by (auto dest: tiled_le)
  moreover have "bytes bs n \<noteq> None \<longleftrightarrow> s + unat (b_size b) \<le> n \<and> n < e" using Cons by simp
  ultimately show ?case using Cons.prems by (simp add: covers_def) linarith
qed

lemma bytes_before: "tiled s bs e \<Longrightarrow> n < s \<Longrightarrow> bytes bs n = None"
  using bytes_dom [of s bs e n] by auto

lemma bytes_after: "tiled s bs e \<Longrightarrow> e \<le> n \<Longrightarrow> bytes bs n = None"
  using bytes_dom [of s bs e n] by auto

text \<open>A list around one of its blocks.\<close>

lemma tiled_at:
  assumes "tiled s (pre @ b # post) e"
  shows "tiled s pre (unat (b_offset b))" "0 < unat (b_size b)"
    "tiled (unat (b_offset b) + unat (b_size b)) post e"
    "unat (b_offset b) + unat (b_size b) \<le> e"
  using assms by (auto simp: tiled_append dest: tiled_le)

lemma bytes_at:
  assumes "tiled s (pre @ b # post) e"
  shows "bytes (pre @ b # post) n =
    (if n < unat (b_offset b) then bytes pre n
     else if n < unat (b_offset b) + unat (b_size b) then Some (status b) else bytes post n)"
proof -
  have "bytes pre n = None" if "unat (b_offset b) \<le> n"
    using bytes_after [OF tiled_at(1) [OF assms] that] .
  moreover have "bytes pre n \<noteq> None \<or> n < s" if "n < unat (b_offset b)"
    using bytes_dom [OF tiled_at(1) [OF assms], of n] that by auto
  moreover have "bytes post n = None" if "n < s"
    using bytes_before [OF tiled_at(3) [OF assms], of n] tiled_le [OF tiled_at(1) [OF assms]] that by simp
  moreover have "\<not> covers b n" if "n < unat (b_offset b)" using that by (simp add: covers_def)
  moreover have "bytes pre n = None" if "n < s" using bytes_before [OF tiled_at(1) [OF assms] that] .
  ultimately show ?thesis
    by (auto simp: bytes_append covers_def split: option.splits)
qed

text \<open>Two neighbours of the same status are one block.\<close>

lemma unat_add_tile: "(a :: nat) + unat x + unat y \<le> e \<Longrightarrow> e < 2 ^ 32 \<Longrightarrow> unat (x + y :: 32 word) = unat x + unat y"
  by (simp add: unat_plus_if')

definition join :: "Block \<Rightarrow> Block \<Rightarrow> Block" where
  "join b c = b \<lparr> b_size := b_size b + b_size c \<rparr>"

lemma join_simps [simp]: "b_state (join b c) = b_state b" "b_offset (join b c) = b_offset b"
  "status (join b c) = status b"
  by (simp_all add: join_def status_def split: block_state.splits)

lemma tiled_join:
  assumes "tiled s (b # c # bs) e" "e < 2 ^ 32"
  shows "tiled s (join b c # bs) e" "unat (b_size (join b c)) = unat (b_size b) + unat (b_size c)"
proof -
  have "s + unat (b_size b) + unat (b_size c) \<le> e" using assms(1) by (auto dest: tiled_le)
  thus "unat (b_size (join b c)) = unat (b_size b) + unat (b_size c)"
    using unat_add_tile assms(2) by (simp add: join_def)
  thus "tiled s (join b c # bs) e" using assms(1) by (simp add: add.assoc)
qed

lemma bytes_join:
  assumes "tiled s (b # c # bs) e" "e < 2 ^ 32" "status b = status c"
  shows "bytes (join b c # bs) = bytes (b # c # bs)"
  using tiled_join(2) [OF assms(1,2)] assms(1,3) by (auto simp: fun_eq_iff covers_def)

text \<open>The largest run of blocks that are not in use, \<open>cur\<close> being the length of the run so far.\<close>

fun max_room :: "nat \<Rightarrow> Block list \<Rightarrow> nat" where
  "max_room cur [] = cur"
| "max_room cur (b # bs) =
    (if b_state b = IN_USE then max cur (max_room 0 bs) else max_room (cur + unat (b_size b)) bs)"

lemma max_room_cong: "(\<And>cur. max_room cur ys = max_room cur zs) \<Longrightarrow> max_room cur (xs @ ys) = max_room cur (xs @ zs)"
  by (induction xs arbitrary: cur) auto

lemma max_room_join:
  assumes "tiled s (b # c # bs) e" "e < 2 ^ 32" "b_state b = FREE" "b_state c = FREE"
  shows "max_room cur (join b c # bs) = max_room cur (b # c # bs)"
  using tiled_join(2) [OF assms(1,2)] assms(3,4) by (simp add: add.assoc)

lemma max_room_ge_cur: "cur \<le> max_room cur bs"
proof (induction bs arbitrary: cur)
  case (Cons b bs)
  have "cur \<le> max_room (cur + unat (b_size b)) bs" using Cons [of "cur + unat (b_size b)"] by simp
  thus ?case by simp
qed simp

lemma max_room_ge_block: "b \<in> set bs \<Longrightarrow> b_state b \<noteq> IN_USE \<Longrightarrow> unat (b_size b) \<le> max_room cur bs"
proof (induction bs arbitrary: cur)
  case (Cons c bs)
  show ?case
  proof (cases "b = c")
    case True
    thus ?thesis using Cons.prems max_room_ge_cur [of "cur + unat (b_size b)" bs] by simp
  next
    case False
    thus ?thesis using Cons by (auto simp: max.coboundedI2)
  qed
qed simp

lemma max_room_less:
  "no_free_pair bs \<Longrightarrow> \<forall>b \<in> set bs. b_state b \<noteq> FREE_PENDING_TOKEN \<Longrightarrow>
   \<forall>b \<in> set bs. b_state b = FREE \<longrightarrow> unat (b_size b) < k \<Longrightarrow> cur < k \<Longrightarrow>
   cur = 0 \<or> bs = [] \<or> b_state (hd bs) = IN_USE \<Longrightarrow> max_room cur bs < k"
proof (induction bs arbitrary: cur)
  case (Cons b bs)
  show ?case
  proof (cases "b_state b = IN_USE")
    case True
    thus ?thesis using Cons by (auto simp: no_free_pair_Cons)
  next
    case False
    hence free: "b_state b = FREE" using Cons.prems(2) by (cases "b_state b") auto
    hence "bs = [] \<or> b_state (hd bs) = IN_USE"
      using Cons.prems(1,2) by (cases bs; cases "b_state (hd bs)") auto
    thus ?thesis using Cons free by (auto simp: no_free_pair_Cons)
  qed
qed simp

subsection \<open>Collapsing\<close>

lemma collapse_next_split:
  "collapse_next (length pre) (pre @ b # post) =
    (case post of c # post' \<Rightarrow> if b_state c = FREE then pre @ join b c # post' else pre @ b # post
     | [] \<Rightarrow> pre @ [b])"
  by (auto simp: collapse_next_def erase_at_def nth_append join_def split: list.splits)

lemma collapse_previous_split:
  "collapse_previous (length pre) (pre @ b # post) =
    (if pre \<noteq> [] \<and> b_state (last pre) = FREE
     then (length pre - 1, butlast pre @ join (last pre) b # post)
     else (length pre, pre @ b # post))"
  by (cases pre rule: rev_cases)
     (auto simp: collapse_previous_def erase_at_def nth_append join_def list_update_append)

text \<open>What remains around the collapsed block: the neighbours that were not free.\<close>

definition keep_post :: "Block list \<Rightarrow> Block list" where
  "keep_post post = (case post of c # post' \<Rightarrow> if b_state c = FREE then post' else post | [] \<Rightarrow> [])"

definition keep_pre :: "Block list \<Rightarrow> Block list" where
  "keep_pre pre = (if pre \<noteq> [] \<and> b_state (last pre) = FREE then butlast pre else pre)"

lemma keep_post_tail: "\<exists>front. post = front @ keep_post post \<and> (\<forall>c \<in> set front. b_state c = FREE)"
  by (cases post) (auto simp: keep_post_def)

lemma keep_pre_front: "\<exists>back. pre = keep_pre pre @ back \<and> (\<forall>c \<in> set back. b_state c = FREE)"
  by (cases pre rule: rev_cases) (auto simp: keep_pre_def)

lemma status_FREE: "b_state b = FREE \<Longrightarrow> status b = Available"
  by (simp add: status_def)

lemma Collapse_split:
  assumes free: "b_state b = FREE" and tiled: "tiled s (pre @ b # post) e" and e: "e < 2 ^ 32"
    and nf: "no_free_pair pre" "no_free_pair post"
  shows "\<exists>b'. CollapseFreeBlock (length pre) (pre @ b # post) =
      (length (keep_pre pre), keep_pre pre @ b' # keep_post post) \<and> b_state b' = FREE \<and>
    tiled s (keep_pre pre @ b' # keep_post post) e \<and>
    bytes (keep_pre pre @ b' # keep_post post) = bytes (pre @ b # post) \<and>
    max_room 0 (keep_pre pre @ b' # keep_post post) = max_room 0 (pre @ b # post) \<and>
    no_free_pair (keep_pre pre @ b' # keep_post post)"
proof -
  have "\<exists>b1. collapse_next (length pre) (pre @ b # post) = pre @ b1 # keep_post post \<and> b_state b1 = FREE \<and>
      tiled s (pre @ b1 # keep_post post) e \<and> bytes (pre @ b1 # keep_post post) = bytes (pre @ b # post) \<and>
      max_room 0 (pre @ b1 # keep_post post) = max_room 0 (pre @ b # post)"
  proof (cases "post \<noteq> [] \<and> b_state (hd post) = FREE")
    case True
    then obtain c post' where post: "post = c # post'" "b_state c = FREE" by (cases post) auto
    obtain m where m: "tiled s pre m" "tiled m (b # c # post') e" using tiled post by (auto simp: tiled_append)
    have "status b = status c" using free post by (simp add: status_FREE)
    hence "bytes (pre @ join b c # post') = bytes (pre @ b # c # post')"
      by (intro bytes_append_cong bytes_join [OF m(2) e])
    moreover have "tiled s (pre @ join b c # post') e"
      using m(1) tiled_join(1) [OF m(2) e] by (auto simp: tiled_append)
    moreover have "max_room 0 (pre @ join b c # post') = max_room 0 (pre @ b # c # post')"
      by (intro max_room_cong max_room_join [OF m(2) e free post(2)])
    ultimately show ?thesis using post free
      by (intro exI [of _ "join b c"]) (simp add: collapse_next_split keep_post_def)
  next
    case False
    thus ?thesis using tiled free
      by (intro exI [of _ b]) (auto simp: collapse_next_split keep_post_def split: list.splits)
  qed
  then obtain b1 where b1: "collapse_next (length pre) (pre @ b # post) = pre @ b1 # keep_post post"
    "b_state b1 = FREE" "tiled s (pre @ b1 # keep_post post) e"
    "bytes (pre @ b1 # keep_post post) = bytes (pre @ b # post)"
    "max_room 0 (pre @ b1 # keep_post post) = max_room 0 (pre @ b # post)" by blast
  have post: "no_free_pair (b1 # keep_post post)"
    using nf(2) by (cases post) (auto simp: keep_post_def no_free_pair_Cons split: list.splits)
  show ?thesis
  proof (cases "pre \<noteq> [] \<and> b_state (last pre) = FREE")
    case True
    then obtain q p where pre: "pre = q @ [p]" "b_state p = FREE" by (cases pre rule: rev_cases) auto
    have t: "tiled s (q @ p # b1 # keep_post post) e" using b1(3) pre by simp
    then obtain m where m: "tiled s q m" "tiled m (p # b1 # keep_post post) e" by (auto simp: tiled_append)
    have st: "status p = status b1" using b1(2) pre by (simp add: status_FREE)
    have "no_free_pair (q @ join p b1 # keep_post post)"
      using nf(1) pre post b1(2) by (auto simp: no_free_pair_append no_free_pair_Cons)
    moreover have "bytes (q @ join p b1 # keep_post post) = bytes (pre @ b # post)"
      using bytes_append_cong [OF bytes_join [OF m(2) e st], of q] b1(4) pre by simp
    moreover have "max_room 0 (q @ join p b1 # keep_post post) = max_room 0 (pre @ b # post)"
      using max_room_cong [OF max_room_join [OF m(2) e pre(2) b1(2)], of 0 q] b1(5) pre by simp
    moreover have "tiled s (q @ join p b1 # keep_post post) e"
      using tiled_join(1) [OF m(2) e] m(1) by (auto simp: tiled_append)
    moreover have "CollapseFreeBlock (length pre) (pre @ b # post) = (length (keep_pre pre), q @ join p b1 # keep_post post)"
      using collapse_previous_split [of pre b1 "keep_post post"] pre b1(1)
      by (simp add: CollapseFreeBlock_def keep_pre_def)
    moreover have "keep_pre pre = q" using pre by (simp add: keep_pre_def)
    ultimately show ?thesis by (intro exI [of _ "join p b1"]) (simp add: b1(2) pre(2))
  next
    case False
    hence "no_free_pair (pre @ b1 # keep_post post)"
      using nf(1) post by (auto simp: no_free_pair_append)
    thus ?thesis using False b1
      by (intro exI [of _ b1]) (auto simp: CollapseFreeBlock_def collapse_previous_split keep_pre_def)
  qed
qed

end
