(* ===== verification/FencedOps.thy ===== *)
theory FencedOps
  imports FencedInv
begin

text \<open>
  Every operation of \<open>FencedAllocator\<close> keeps the tiling, and its effect on the map from bytes to
  their status: an allocation fills a range of available bytes, a free empties the range of one
  block, waiting frees what was fenced by the token waited for.
\<close>

subsection \<open>Filling a range\<close>

definition fill :: "nat \<Rightarrow> nat \<Rightarrow> byte_status \<Rightarrow> (nat \<Rightarrow> byte_status option) \<Rightarrow> nat \<Rightarrow> byte_status option" where
  "fill s len st f = (\<lambda>n. if s \<le> n \<and> n < s + len then Some st else f n)"

text \<open>A change that only makes fenced bytes available, for tokens in \<open>W\<close>.\<close>

definition frees :: "int set \<Rightarrow> (nat \<Rightarrow> byte_status option) \<Rightarrow> (nat \<Rightarrow> byte_status option) \<Rightarrow> bool" where
  "frees W f g \<longleftrightarrow> (\<forall>n. g n = f n \<or> (\<exists>t \<in> W. f n = Some (Fenced t) \<and> g n = Some Available))"

lemma frees_refl [simp]: "frees W f f"
  by (simp add: frees_def)

lemma frees_trans: "frees V f g \<Longrightarrow> frees W g h \<Longrightarrow> frees (V \<union> W) f h"
  unfolding frees_def by (metis UnCI byte_status.distinct(5) option.inject)

lemma frees_mono: "frees V f g \<Longrightarrow> V \<subseteq> W \<Longrightarrow> frees W f g"
  unfolding frees_def by blast

lemma split_at: "i < length bs \<Longrightarrow> \<exists>pre b post. bs = pre @ b # post \<and> length pre = i"
  by (metis id_take_nth_drop length_take less_imp_le_nat min.absorb2)

text \<open>Changing the state of a block in place.\<close>

lemma restate_block:
  assumes "tiled s (pre @ b # post) e" "b_offset b' = b_offset b" "b_size b' = b_size b"
  shows "tiled s (pre @ b' # post) e"
    "bytes (pre @ b' # post) = fill (unat (b_offset b)) (unat (b_size b)) (status b') (bytes (pre @ b # post))"
proof -
  show t: "tiled s (pre @ b' # post) e" using assms by (simp add: tiled_append)
  show "bytes (pre @ b' # post) = fill (unat (b_offset b)) (unat (b_size b)) (status b') (bytes (pre @ b # post))"
    by (rule ext) (use bytes_at [OF assms(1)] bytes_at [OF t] assms(2,3) in \<open>auto simp: fill_def\<close>)
qed

lemma bytes_block:
  assumes "tiled s (pre @ b # post) e" "unat (b_offset b) \<le> n" "n < unat (b_offset b) + unat (b_size b)"
  shows "bytes (pre @ b # post) n = Some (status b)"
  using bytes_at [OF assms(1), of n] assms(2,3) by simp

subsection \<open>Freeing a block and collapsing\<close>

lemma Free_at:
  assumes "fenced_ok N (pre @ b # post)"
  shows "\<exists>b'. CollapseFreeBlock (length pre) ((pre @ b # post)[length pre := b \<lparr> b_state := FREE \<rparr>]) =
      (length (keep_pre pre), keep_pre pre @ b' # keep_post post) \<and> b_state b' = FREE \<and>
    fenced_ok N (keep_pre pre @ b' # keep_post post) \<and>
    bytes (keep_pre pre @ b' # keep_post post) =
      fill (unat (b_offset b)) (unat (b_size b)) Available (bytes (pre @ b # post)) \<and>
    (b_state b \<noteq> IN_USE \<longrightarrow> max_room 0 (keep_pre pre @ b' # keep_post post) = max_room 0 (pre @ b # post))"
proof -
  let ?b = "b \<lparr> b_state := FREE \<rparr>"
  have ok: "tiled 0 (pre @ b # post) N" "N < 2 ^ 32" "no_free_pair pre" "no_free_pair post" "0 < N"
    using assms by (auto simp: fenced_ok_def no_free_pair_append no_free_pair_Cons)
  have t: "tiled 0 (pre @ ?b # post) N" using restate_block(1) [OF ok(1), of ?b] by simp
  have st: "status ?b = Available" by (simp add: status_def)
  obtain b' where b': "CollapseFreeBlock (length pre) (pre @ ?b # post) =
      (length (keep_pre pre), keep_pre pre @ b' # keep_post post)" "b_state b' = FREE"
    "tiled 0 (keep_pre pre @ b' # keep_post post) N"
    "bytes (keep_pre pre @ b' # keep_post post) = bytes (pre @ ?b # post)"
    "max_room 0 (keep_pre pre @ b' # keep_post post) = max_room 0 (pre @ ?b # post)"
    "no_free_pair (keep_pre pre @ b' # keep_post post)"
    using Collapse_split [OF _ t ok(2,3,4)] by auto
  have "max_room 0 (pre @ ?b # post) = max_room 0 (pre @ b # post)" if "b_state b \<noteq> IN_USE"
    by (rule max_room_cong) (use that in simp)
  moreover have "bytes (pre @ ?b # post) = fill (unat (b_offset b)) (unat (b_size b)) Available (bytes (pre @ b # post))"
    using restate_block(2) [OF ok(1), of ?b] st by simp
  ultimately show ?thesis using b' ok(2,5)
    by (intro exI [of _ b']) (simp add: fenced_ok_def)
qed

lemma keep_subset: "set (keep_pre pre) \<subseteq> set pre" "set (keep_post post) \<subseteq> set post"
  by (auto simp: keep_pre_def keep_post_def dest: in_set_butlastD split: list.splits if_splits)

lemma WaitForTokenAndFreeBlock_at:
  assumes "fenced_ok N (pre @ b # post)" "b_state b = FREE_PENDING_TOKEN"
    and "WaitForTokenAndFreeBlock T (length pre) (pre @ b # post) h = Some (i', bs', h')"
  shows "wait_for_token T (b_token b) h = Some h' \<and>
    (\<exists>b'. i' = length (keep_pre pre) \<and> bs' = keep_pre pre @ b' # keep_post post \<and> b_state b' = FREE) \<and>
    fenced_ok N bs' \<and> frees {b_token b} (bytes (pre @ b # post)) (bytes bs') \<and>
    max_room 0 bs' = max_room 0 (pre @ b # post)"
proof -
  from Free_at [OF assms(1)] obtain b' where
    b': "CollapseFreeBlock (length pre) ((pre @ b # post)[length pre := b \<lparr> b_state := FREE \<rparr>]) =
      (length (keep_pre pre), keep_pre pre @ b' # keep_post post)" "b_state b' = FREE"
    "fenced_ok N (keep_pre pre @ b' # keep_post post)"
    "bytes (keep_pre pre @ b' # keep_post post) =
      fill (unat (b_offset b)) (unat (b_size b)) Available (bytes (pre @ b # post))"
    "max_room 0 (keep_pre pre @ b' # keep_post post) = max_room 0 (pre @ b # post)"
    using assms(2) by auto
  have r: "wait_for_token T (b_token b) h = Some h'" "i' = length (keep_pre pre)"
    "bs' = keep_pre pre @ b' # keep_post post"
    using assms(3) b'(1) by (auto simp: WaitForTokenAndFreeBlock_def split: option.splits)
  have t: "tiled 0 (pre @ b # post) N" using assms(1) by (simp add: fenced_ok_def)
  have "frees {b_token b} (bytes (pre @ b # post)) (bytes bs')"
    using bytes_block [OF t] assms(2) b'(4) r(3) by (auto simp: frees_def fill_def status_def)
  thus ?thesis using r b' by auto
qed

subsection \<open>Allocating in a free block\<close>

lemma AllocInBlock_at:
  assumes ok: "fenced_ok N (pre @ b # post)" and free: "b_state b = FREE"
    and sz: "0 < unat sz" "sz \<le> b_size b"
  shows "case AllocInBlock (length pre) sz (pre @ b # post) of (off, bs') \<Rightarrow>
    off = b_offset b \<and> unat off + unat sz \<le> N \<and> off \<noteq> kInvalidOffset \<and> fenced_ok N bs' \<and>
    (\<forall>n. unat off \<le> n \<and> n < unat off + unat sz \<longrightarrow> bytes (pre @ b # post) n = Some Available) \<and>
    bytes bs' = fill (unat off) (unat sz) Used (bytes (pre @ b # post))"
proof -
  have t: "tiled 0 (pre @ b # post) N" and N: "N < 2 ^ 32" "0 < N" and nf: "no_free_pair (pre @ b # post)"
    using ok by (auto simp: fenced_ok_def)
  have le: "unat sz \<le> unat (b_size b)" using sz(2) by (simp add: word_le_nat_alt)
  have fits: "unat (b_offset b) + unat (b_size b) \<le> N" using tiled_at(4) [OF t] .
  have valid: "b_offset b \<noteq> kInvalidOffset"
  proof
    assume "b_offset b = kInvalidOffset"
    hence "unat (b_offset b) = 2 ^ 32 - 1" by (simp add: kInvalidOffset_def)
    thus False using fits sz(1) le N by simp
  qed
  have avail: "\<forall>n. unat (b_offset b) \<le> n \<and> n < unat (b_offset b) + unat sz \<longrightarrow>
      bytes (pre @ b # post) n = Some Available"
    using bytes_block [OF t] le free by (auto simp: status_FREE)
  show ?thesis
  proof (cases "b_size b = sz")
    case True
    let ?b = "b \<lparr> b_state := IN_USE \<rparr>"
    have "no_free_pair (pre @ ?b # post)" using nf by (auto simp: no_free_pair_append no_free_pair_Cons)
    hence "fenced_ok N (pre @ ?b # post)" using restate_block(1) [OF t, of ?b] N by (simp add: fenced_ok_def)
    moreover have "bytes (pre @ ?b # post) = fill (unat (b_offset b)) (unat sz) Used (bytes (pre @ b # post))"
      using restate_block(2) [OF t, of ?b] True by (simp add: status_def)
    ultimately show ?thesis using True fits valid avail le by (simp add: AllocInBlock_def Let_def)
  next
    case False
    let ?b = "b \<lparr> b_state := IN_USE, b_size := sz \<rparr>"
    let ?c = "\<lparr> b_state = FREE, b_offset = b_offset b + sz, b_size = b_size b - sz, b_token = kUnusedToken \<rparr>"
    have lt: "unat sz < unat (b_size b)" using le False by (metis le_neq_implies_less word_unat_eq_iff)
    have off: "unat (b_offset b + sz) = unat (b_offset b) + unat sz"
      using unat_add_tile [of 0 "b_offset b" sz N] fits le N by simp
    have size: "unat (b_size b - sz) = unat (b_size b) - unat sz"
      using sz(2) by (simp add: unat_sub)
    have t': "tiled 0 (pre @ ?b # ?c # post) N"
      using t sz(1) lt off size by (auto simp: tiled_append)
    have "no_free_pair (pre @ ?b # ?c # post)"
      using nf free by (auto simp: no_free_pair_append no_free_pair_Cons)
    hence ok': "fenced_ok N (pre @ ?b # ?c # post)" using t' N by (simp add: fenced_ok_def)
    have b: "bytes (pre @ ?b # ?c # post) = fill (unat (b_offset b)) (unat sz) Used (bytes (pre @ b # post))"
    proof (rule ext)
      fix n
      have "covers b n \<longleftrightarrow> covers ?b n \<or> covers ?c n" using off size lt by (auto simp: covers_def)
      moreover have "status ?b = Used" "status ?c = status b" using free by (simp_all add: status_def)
      ultimately show "bytes (pre @ ?b # ?c # post) n = fill (unat (b_offset b)) (unat sz) Used (bytes (pre @ b # post)) n"
        using bytes_at [OF t, of n] bytes_at [OF t', of n] off size lt
        by (auto simp: fill_def covers_def)
    qed
    have "AllocInBlock (length pre) sz (pre @ b # post) = (b_offset b, pre @ ?b # ?c # post)"
      using False by (simp add: AllocInBlock_def Let_def insert_at_def nth_append)
    thus ?thesis using ok' b fits valid avail le by simp
  qed
qed

subsection \<open>Allocating\<close>

lemma find_free_Some:
  "find_free sz i bs = Some j \<Longrightarrow> i \<le> j \<and> j - i < length bs \<and> b_state (bs ! (j - i)) = FREE \<and> sz \<le> b_size (bs ! (j - i))"
proof (induction sz i bs rule: find_free.induct)
  case (2 sz i b bs)
  show ?case
  proof (cases "b_state b = FREE \<and> b_size b \<ge> sz")
    case False
    hence IH: "Suc i \<le> j \<and> j - Suc i < length bs \<and> b_state (bs ! (j - Suc i)) = FREE \<and> sz \<le> b_size (bs ! (j - Suc i))"
      using 2 by auto
    hence "j - i = Suc (j - Suc i)" by linarith
    thus ?thesis using IH by simp
  qed (use 2 in auto)
qed simp

lemma find_free_None: "find_free sz i bs = None \<Longrightarrow> b \<in> set bs \<Longrightarrow> b_state b = FREE \<Longrightarrow> b_size b < sz"
  by (induction sz i bs rule: find_free.induct) (auto split: if_splits)

text \<open>What an allocation that returns does: it frees some fenced bytes and fills a range of
  available ones, or, returning the invalid offset, only frees.\<close>

definition alloc_effect ::
  "nat \<Rightarrow> nat \<Rightarrow> int set \<Rightarrow> Block list \<Rightarrow> 32 word \<Rightarrow> Block list \<Rightarrow> bool" where
  "alloc_effect N k W bs off bs' \<longleftrightarrow>
     (\<exists>g. frees W (bytes bs) g \<and>
       (if off = kInvalidOffset then bytes bs' = g
        else unat off + k \<le> N \<and> (\<forall>n. unat off \<le> n \<and> n < unat off + k \<longrightarrow> g n = Some Available) \<and>
          bytes bs' = fill (unat off) k Used g))"

lemma alloc_effect_frees:
  "frees V (bytes bs0) (bytes bs) \<Longrightarrow> alloc_effect N k W bs off bs' \<Longrightarrow> alloc_effect N k (V \<union> W) bs0 off bs'"
  unfolding alloc_effect_def by (meson frees_trans)

lemma AllocInBlock_effect:
  assumes "fenced_ok N bs" "i < length bs" "b_state (bs ! i) = FREE" "0 < unat sz" "sz \<le> b_size (bs ! i)"
    and "AllocInBlock i sz bs = (off, bs')"
  shows "fenced_ok N bs'" "off \<noteq> kInvalidOffset" "alloc_effect N (unat sz) {} bs off bs'"
proof -
  obtain pre b post where s: "bs = pre @ b # post" "length pre = i" using split_at [OF assms(2)] by blast
  hence b: "bs ! i = b" by (simp add: nth_append)
  from AllocInBlock_at [of N pre b post sz] assms s b show "fenced_ok N bs'" "off \<noteq> kInvalidOffset"
    "alloc_effect N (unat sz) {} bs off bs'"
    unfolding alloc_effect_def by (auto intro!: exI [of _ "bytes bs"])
qed

lemma alloc_pending_effect:
  "alloc_pending T sz i bs h = Some (off, bs', h') \<Longrightarrow> fenced_ok N bs \<Longrightarrow> 0 < unat sz \<Longrightarrow>
   \<forall>b \<in> set bs. b_state b = FREE \<longrightarrow> b_size b < sz \<Longrightarrow>
   \<forall>b \<in> set (take i bs). b_state b \<noteq> FREE_PENDING_TOKEN \<Longrightarrow>
   \<exists>W. waited T W h h' \<and> fenced_ok N bs' \<and> alloc_effect N (unat sz) W bs off bs' \<and>
     (off \<noteq> kInvalidOffset \<longleftrightarrow> unat sz \<le> max_room 0 bs)"
proof (induction T sz i bs h rule: alloc_pending.induct)
  case (1 T sz i bs h)
  show ?case
  proof (cases "i < length bs")
    case False
    hence r: "off = kInvalidOffset" "bs' = bs" "h' = h" using "1.prems"(1) by (simp_all add: alloc_pending.simps)
    have "max_room 0 bs < unat sz"
      using "1.prems" False by (intro max_room_less) (auto simp: fenced_ok_def word_less_nat_alt)
    moreover have "waited T {} h h" by (rule waited_none)
    ultimately show ?thesis using r "1.prems"(2) by (intro exI [of _ "{}"]) (auto simp: alloc_effect_def)
  next
    case i: True
    obtain pre b post where s: "bs = pre @ b # post" "length pre = i" using split_at [OF i] by blast
    hence b: "bs ! i = b" by (simp add: nth_append)
    show ?thesis
    proof (cases "b_state b = FREE_PENDING_TOKEN")
      case False
      hence "alloc_pending T sz (Suc i) bs h = Some (off, bs', h')"
        using "1.prems"(1) i b by (simp add: alloc_pending.simps [of T sz i])
      moreover have "\<forall>b \<in> set (take (Suc i) bs). b_state b \<noteq> FREE_PENDING_TOKEN"
        using "1.prems"(5) False s by auto
      ultimately show ?thesis using "1.IH"(1) [OF i] b False "1.prems"(2,3,4) by simp
    next
      case pending: True
      obtain i1 bs1 h1 where w: "WaitForTokenAndFreeBlock T i bs h = Some (i1, bs1, h1)"
        using "1.prems"(1) i b pending by (auto simp: alloc_pending.simps [of T sz i] split: option.splits)
      obtain b' where a: "wait_for_token T (b_token b) h = Some h1" "i1 = length (keep_pre pre)"
        "bs1 = keep_pre pre @ b' # keep_post post" "b_state b' = FREE" "fenced_ok N bs1"
        "frees {b_token b} (bytes bs) (bytes bs1)" "max_room 0 bs1 = max_room 0 bs"
        using WaitForTokenAndFreeBlock_at [OF "1.prems"(2) [unfolded s(1)] pending w [unfolded s(1) s(2) [symmetric]]]
        unfolding s(1) by blast
      have at: "bs1 ! i1 = b'" "i1 < length bs1" using a(2,3) by (simp_all add: nth_append)
      show ?thesis
      proof (cases "sz \<le> b_size b'")
        case True
        obtain off2 bs2 where al: "AllocInBlock i1 sz bs1 = (off2, bs2)" by fastforce
        have r: "off = off2" "bs' = bs2" "h' = h1"
          using "1.prems"(1) i b pending w True at al by (simp_all add: alloc_pending.simps [of T sz i])
        note eff = AllocInBlock_effect [OF a(5) at(2) _ "1.prems"(3) _ al]
        have "alloc_effect N (unat sz) ({b_token b} \<union> {}) bs off bs'"
          using alloc_effect_frees [OF a(6) eff(3)] at a(4) True r by simp
        moreover have "waited T {b_token b} h h'" using a(1) r waited_more [OF a(1) waited_none] by simp
        moreover have "unat sz \<le> max_room 0 bs"
          using max_room_ge_block [of b' bs1 0] a(3,4,7) True by (auto simp: word_le_nat_alt)
        ultimately show ?thesis using eff(1,2) at a(4) True r by (intro exI [of _ "{b_token b}"]) auto
      next
        case False
        hence rec: "alloc_pending T sz (Suc i1) bs1 h1 = Some (off, bs', h')"
          using "1.prems"(1) i b pending w at by (simp add: alloc_pending.simps [of T sz i])
        have "\<forall>b \<in> set bs1. b_state b = FREE \<longrightarrow> b_size b < sz"
          using "1.prems"(4) s a(3) False keep_subset(1) [of pre] keep_subset(2) [of post] by auto
        moreover have "\<forall>b \<in> set (take (Suc i1) bs1). b_state b \<noteq> FREE_PENDING_TOKEN"
          using "1.prems"(5) s a(2,3,4) keep_subset(1) [of pre] by auto
        ultimately obtain W where W: "waited T W h1 h'" "fenced_ok N bs'" "alloc_effect N (unat sz) W bs1 off bs'"
          "off \<noteq> kInvalidOffset \<longleftrightarrow> unat sz \<le> max_room 0 bs1"
          using "1.IH"(2) [OF i _ w refl refl] b pending at(1) False rec a(5) "1.prems"(3) by auto
        have "waited T (insert (b_token b) W) h h'" by (rule waited_more [OF a(1) W(1)])
        moreover have "alloc_effect N (unat sz) (insert (b_token b) W) bs off bs'"
          using alloc_effect_frees [OF a(6) W(3)] by simp
        ultimately show ?thesis using W(2,4) a(7) by (intro exI [of _ "insert (b_token b) W"]) simp
      qed
    qed
  qed
qed

lemma Fenced_Alloc_effect:
  assumes "Fenced_Alloc T sz bs h = Some (off, bs', h')" "fenced_ok N bs"
  shows "\<exists>W. waited T W h h' \<and> fenced_ok N bs' \<and> alloc_effect N (max 1 (unat sz)) W bs off bs' \<and>
    (off \<noteq> kInvalidOffset \<longleftrightarrow> max 1 (unat sz) \<le> max_room 0 bs)"
proof -
  define k :: "32 word" where "k = (if sz = 0 then 1 else sz)"
  have k: "unat k = max 1 (unat sz)" "0 < unat k"
    by (auto simp: k_def max_def unat_gt_0 Suc_le_eq)
  show ?thesis
  proof (cases "find_free k 0 bs")
    case None
    hence "alloc_pending T k 0 bs h = Some (off, bs', h')" using assms(1) by (simp add: Fenced_Alloc_def k_def Let_def)
    from alloc_pending_effect [OF this assms(2) k(2)] show ?thesis
      using find_free_None [OF None] k(1) by auto
  next
    case (Some i)
    then obtain r: "AllocInBlock i k bs = (off, bs')" "h' = h"
      using assms(1) by (auto simp: Fenced_Alloc_def k_def Let_def split: prod.splits)
    have i: "i < length bs" "b_state (bs ! i) = FREE" "k \<le> b_size (bs ! i)" using find_free_Some [OF Some] by auto
    have "max 1 (unat sz) \<le> max_room 0 bs"
      using max_room_ge_block [of "bs ! i" bs 0] i k(1) by (auto simp: word_le_nat_alt)
    thus ?thesis using AllocInBlock_effect [OF assms(2) i(1,2) k(2) i(3) r(1)] r(2) k(1) waited_none [of T h]
      by (intro exI [of _ "{}"]) auto
  qed
qed

subsection \<open>Freeing\<close>

lemma takeWhile_tiled:
  "tiled s (pre @ b # post) e \<Longrightarrow>
   takeWhile (\<lambda>c. b_offset c < b_offset b) (pre @ b # post) = pre"
proof (induction pre arbitrary: s)
  case (Cons p pre)
  have t: "tiled (s + unat (b_size p)) (pre @ b # post) e" "unat (b_offset p) = s" "0 < unat (b_size p)"
    using Cons.prems by simp_all
  have "s + unat (b_size p) \<le> unat (b_offset b)" using tiled_le [OF tiled_at(1) [OF t(1)]] .
  hence "b_offset p < b_offset b" using t(2,3) by (simp add: word_less_nat_alt)
  thus ?case using Cons.IH [OF t(1)] by simp
qed simp

lemma GetBlockByOffset_at:
  "fenced_ok N (pre @ b # post) \<Longrightarrow> GetBlockByOffset (b_offset b) (pre @ b # post) = length pre"
  using takeWhile_tiled [of 0 pre b post N] by (simp add: GetBlockByOffset_def fenced_ok_def)

lemma Fenced_Free_ok:
  assumes "Fenced_Free off bs = Some bs'" "fenced_ok N bs"
  shows "fenced_ok N bs'"
proof -
  have "GetBlockByOffset off bs < length bs" using assms(1) by (auto simp: Fenced_Free_def Let_def split: if_splits)
  then obtain pre b post where s: "bs = pre @ b # post" "length pre = GetBlockByOffset off bs"
    using split_at by blast
  obtain b' where "CollapseFreeBlock (length pre) ((pre @ b # post)[length pre := b \<lparr> b_state := FREE \<rparr>]) =
      (length (keep_pre pre), keep_pre pre @ b' # keep_post post)" "fenced_ok N (keep_pre pre @ b' # keep_post post)"
    using Free_at [of N pre b post] assms(2) s(1) by auto
  thus ?thesis using assms(1) s by (auto simp: Fenced_Free_def Let_def nth_append split: if_splits)
qed

lemma Fenced_Free_at:
  assumes "fenced_ok N bs" "b \<in> set bs"
  shows "\<exists>bs'. Fenced_Free (b_offset b) bs = Some bs' \<and>
    bytes bs' = fill (unat (b_offset b)) (unat (b_size b)) Available (bytes bs)"
proof -
  obtain pre post where s: "bs = pre @ b # post" using split_list [OF assms(2)] by blast
  note ok = assms(1) [unfolded s]
  from Free_at [OF ok] GetBlockByOffset_at [OF ok] show ?thesis
    unfolding s by (auto simp: Fenced_Free_def Let_def nth_append)
qed

lemma Fenced_FreePendingToken_ok:
  assumes "Fenced_FreePendingToken off t bs = Some bs'" "fenced_ok N bs"
  shows "fenced_ok N bs'"
proof -
  have "GetBlockByOffset off bs < length bs"
    using assms(1) by (auto simp: Fenced_FreePendingToken_def Let_def split: if_splits)
  then obtain pre b post where s: "bs = pre @ b # post" "length pre = GetBlockByOffset off bs"
    using split_at by blast
  have "bs' = bs[length pre := (bs ! length pre) \<lparr> b_state := FREE_PENDING_TOKEN, b_token := t \<rparr>]"
    unfolding s(2) using assms(1) by (auto simp: Fenced_FreePendingToken_def Let_def split: if_splits)
  hence "bs' = pre @ b \<lparr> b_state := FREE_PENDING_TOKEN, b_token := t \<rparr> # post" by (simp add: s(1))
  thus ?thesis using assms(2) s(1)
    by (auto simp: fenced_ok_def tiled_append no_free_pair_append no_free_pair_Cons)
qed

lemma Fenced_FreePendingToken_at:
  assumes "fenced_ok N bs" "b \<in> set bs"
  shows "\<exists>bs'. Fenced_FreePendingToken (b_offset b) t bs = Some bs' \<and>
    bytes bs' = fill (unat (b_offset b)) (unat (b_size b)) (Fenced t) (bytes bs)"
proof -
  obtain pre post where s: "bs = pre @ b # post" using split_list [OF assms(2)] by blast
  note ok = assms(1) [unfolded s]
  let ?b = "b \<lparr> b_state := FREE_PENDING_TOKEN, b_token := t \<rparr>"
  have "tiled 0 (pre @ b # post) N" using ok by (simp add: fenced_ok_def)
  from restate_block(2) [OF this, of ?b]
  have "bytes (pre @ ?b # post) = fill (unat (b_offset b)) (unat (b_size b)) (Fenced t) (bytes bs)"
    by (simp add: status_def s)
  thus ?thesis unfolding s using GetBlockByOffset_at [OF ok]
    by (simp add: Fenced_FreePendingToken_def Let_def nth_append)
qed

text \<open>What \<open>FreeUnused\<close> does to a byte: what is fenced by a token already read becomes available.\<close>

definition release :: "int \<Rightarrow> byte_status option \<Rightarrow> byte_status option" where
  "release last_token s =
    (case s of Some (Fenced t) \<Rightarrow> if t \<le> last_token then Some Available else s | _ \<Rightarrow> s)"

lemma release_bytes:
  "\<forall>b \<in> set bs. b_state b = FREE_PENDING_TOKEN \<longrightarrow> \<not> b_token b \<le> l \<Longrightarrow> release l (bytes bs n) = bytes bs n"
  by (induction bs) (auto simp: release_def status_def split: block_state.splits)

lemma free_unused_loop_effect:
  "fenced_ok N bs \<Longrightarrow> \<forall>b \<in> set (take i bs). b_state b = FREE_PENDING_TOKEN \<longrightarrow> \<not> b_token b \<le> l \<Longrightarrow>
   fenced_ok N (free_unused_loop l i bs) \<and> bytes (free_unused_loop l i bs) = (\<lambda>n. release l (bytes bs n))"
proof (induction l i bs rule: free_unused_loop.induct)
  case (1 l i bs)
  show ?case
  proof (cases "i < length bs")
    case False
    thus ?thesis using "1.prems" release_bytes [of bs l] by (simp add: free_unused_loop.simps fun_eq_iff)
  next
    case i: True
    obtain pre b post where s: "bs = pre @ b # post" "length pre = i" using split_at [OF i] by blast
    hence b: "bs ! i = b" by (simp add: nth_append)
    show ?thesis
    proof (cases "b_state b = FREE_PENDING_TOKEN \<and> b_token b \<le> l")
      case False
      have "\<forall>b \<in> set (take (Suc i) bs). b_state b = FREE_PENDING_TOKEN \<longrightarrow> \<not> b_token b \<le> l"
        using "1.prems"(2) s False by auto
      moreover have "free_unused_loop l i bs = free_unused_loop l (Suc i) bs"
        using False b i by (subst free_unused_loop.simps) auto
      ultimately show ?thesis using "1.IH"(2) [OF i] "1.prems"(1) False b by simp
    next
      case True
      obtain b' where c: "CollapseFreeBlock i (bs[i := b \<lparr> b_state := FREE \<rparr>]) =
          (length (keep_pre pre), keep_pre pre @ b' # keep_post post)"
        "fenced_ok N (keep_pre pre @ b' # keep_post post)"
        "bytes (keep_pre pre @ b' # keep_post post) =
          fill (unat (b_offset b)) (unat (b_size b)) Available (bytes bs)"
        using Free_at [of N pre b post] "1.prems"(1) s by auto
      let ?bs1 = "keep_pre pre @ b' # keep_post post"
      have "\<forall>b \<in> set (take (length (keep_pre pre)) ?bs1). b_state b = FREE_PENDING_TOKEN \<longrightarrow> \<not> b_token b \<le> l"
        using "1.prems"(2) s keep_subset(1) [of pre] by auto
      hence "fenced_ok N (free_unused_loop l (length (keep_pre pre)) ?bs1) \<and>
          bytes (free_unused_loop l (length (keep_pre pre)) ?bs1) = (\<lambda>n. release l (bytes ?bs1 n))"
        using "1.IH"(1) [OF i _ refl] c True b by (simp add: eq_commute)
      moreover have "(\<lambda>n. release l (bytes ?bs1 n)) = (\<lambda>n. release l (bytes bs n))"
      proof (rule ext)
        fix n
        have t: "tiled 0 (pre @ b # post) N" using "1.prems"(1) s by (simp add: fenced_ok_def)
        show "release l (bytes ?bs1 n) = release l (bytes bs n)"
          using bytes_block [OF t, of n] s c(3) True by (auto simp: fill_def release_def status_def)
      qed
      moreover have "free_unused_loop l i bs = free_unused_loop l (length (keep_pre pre)) ?bs1"
        using i b True c(1) by (subst free_unused_loop.simps) simp
      ultimately show ?thesis by simp
    qed
  qed
qed

subsection \<open>Sizes\<close>

lemma largest_free_or_pending_room:
  "tiled s bs e \<Longrightarrow> e < 2 ^ 32 \<Longrightarrow> unat cur \<le> s \<Longrightarrow>
   unat (largest_free_or_pending bs mx cur) = max (unat mx) (max_room (unat cur) bs)"
proof (induction bs mx cur arbitrary: s rule: largest_free_or_pending.induct)
  case (1 mx cur) thus ?case by (simp add: max_def word_le_nat_alt)
next
  case (2 b bs mx cur)
  have t: "tiled (s + unat (b_size b)) bs e" using "2.prems"(1) by simp
  show ?case
  proof (cases "b_state b = IN_USE")
    case True
    have "unat (max mx cur) = max (unat mx) (unat cur)" by (simp add: max_def word_le_nat_alt)
    thus ?thesis using "2.IH"(1) [OF True t "2.prems"(2)] True by simp
  next
    case False
    have "unat (cur + b_size b) = unat cur + unat (b_size b)"
      using unat_add_tile [of 0 cur "b_size b" e] tiled_le [OF t] "2.prems"(2,3) by simp
    thus ?thesis using "2.IH"(2) [OF False t "2.prems"(2)] "2.prems"(3) False by simp
  qed
qed

lemma GetLargestFreeOrPendingSize_room:
  "fenced_ok N bs \<Longrightarrow> unat (GetLargestFreeOrPendingSize bs) = max_room 0 bs"
  using largest_free_or_pending_room [of 0 bs N 0 0] by (simp add: GetLargestFreeOrPendingSize_def fenced_ok_def)

lemma fold_max_ge:
  "unat (fold (\<lambda>b m. if b_state b = FREE then max m (b_size b) else m) bs m) =
    fold (\<lambda>b m. if b_state b = FREE then max m (unat (b_size b)) else m) bs (unat m)"
  by (induction bs arbitrary: m) (auto simp: max_def word_le_nat_alt)

lemma check_blocks_ok: "tiled s bs e \<Longrightarrow> e < 2 ^ 32 \<Longrightarrow> no_free_pair bs \<Longrightarrow> check_blocks bs"
proof (induction bs arbitrary: s rule: check_blocks.induct)
  case (1 b c bs)
  have t: "tiled (s + unat (b_size b)) (c # bs) e" using "1.prems"(1) by simp
  have "unat (b_offset b + b_size b) = unat (b_offset c)"
    using unat_add_tile [of 0 "b_offset b" "b_size b" e] tiled_le [OF t] "1.prems"(1,2) by simp
  hence "b_offset c = b_offset b + b_size b" by (metis word_unat_eq_iff)
  moreover have "b_offset b < b_offset c" using "1.prems"(1) by (simp add: word_less_nat_alt)
  ultimately show ?case using "1.IH" t "1.prems"(2,3) by auto
qed simp_all

end
