(* ===== verification/RingBuffer.thy ===== *)
theory RingBuffer
  imports TokenSource
begin

text \<open>
  \<open>RingBuffer\<close> (\<open>src/gpu/command_buffer/client/ring_buffer.cc\<close>): the allocator of a transfer buffer
  whose blocks are freed in the order they were allocated, each when the reader has passed its
  token. Offsets, sizes and tokens are 32 bit unsigned. Taking the oldest block of an empty
  queue is \<open>None\<close>.
\<close>

record ring_block =
  rb_offset :: "32 word"
  rb_size :: "32 word"
  rb_token :: "32 word"
  rb_valid :: bool

record ring_buffer =
  rb_blocks :: "ring_block list"
  base_offset :: "32 word"
  buffer_size :: "32 word"
  free_offset :: "32 word"
  in_use_offset :: "32 word"

definition new_RingBuffer :: "32 word \<Rightarrow> 32 word \<Rightarrow> ring_buffer" where
  "new_RingBuffer base sz =
    \<lparr> rb_blocks = [], base_offset = base, buffer_size = sz, free_offset = 0, in_use_offset = 0 \<rparr>"

definition new_ring_block :: "32 word \<Rightarrow> 32 word \<Rightarrow> ring_block" where
  "new_ring_block offset sz = \<lparr> rb_offset = offset, rb_size = sz, rb_token = 0, rb_valid = False \<rparr>"

text \<open>The offsets after the oldest block is popped.\<close>

definition advance_in_use :: "32 word \<Rightarrow> ring_buffer \<Rightarrow> ring_buffer" where
  "advance_in_use sz rb =
    (let in_use = in_use_offset rb + sz;
         in_use = (if in_use = buffer_size rb then 0 else in_use)
     in if in_use = free_offset rb then rb \<lparr> in_use_offset := 0, free_offset := 0 \<rparr>
        else rb \<lparr> in_use_offset := in_use \<rparr>)"

definition FreeOldestBlock :: "'h token_source \<Rightarrow> ring_buffer \<Rightarrow> 'h \<Rightarrow> (ring_buffer \<times> 'h) option" where
  "FreeOldestBlock T rb h =
    (case rb_blocks rb of
       [] \<Rightarrow> None
     | block # blocks \<Rightarrow>
         (case wait_for_token T (sint (rb_token block)) h of
            None \<Rightarrow> None
          | Some h \<Rightarrow> Some ((advance_in_use (rb_size block) rb) \<lparr> rb_blocks := blocks \<rparr>, h)))"

definition GetLargestFreeSizeNoWaiting :: "ring_buffer \<Rightarrow> 32 word" where
  "GetLargestFreeSizeNoWaiting rb =
    (if free_offset rb = in_use_offset rb then
       if rb_blocks rb = [] then buffer_size rb else 0
     else if free_offset rb > in_use_offset rb then buffer_size rb - free_offset rb
     else in_use_offset rb - free_offset rb)"

definition ring_GetLargestFreeOrPendingSize :: "ring_buffer \<Rightarrow> 32 word" where
  "ring_GetLargestFreeOrPendingSize rb = buffer_size rb"

lemma FreeOldestBlock_pops:
  "FreeOldestBlock T rb h = Some (rb', h') \<Longrightarrow> length (rb_blocks rb') < length (rb_blocks rb)"
  by (auto simp: FreeOldestBlock_def split: list.splits option.splits)

text \<open>The loop of \<open>Alloc\<close> that waits until there is enough room.\<close>

function ring_make_room :: "'h token_source \<Rightarrow> 32 word \<Rightarrow> ring_buffer \<Rightarrow> 'h \<Rightarrow> (ring_buffer \<times> 'h) option" where
  "ring_make_room T sz rb h =
    (if sz > GetLargestFreeSizeNoWaiting rb then
       case FreeOldestBlock T rb h of
         None \<Rightarrow> None
       | Some (rb, h) \<Rightarrow> ring_make_room T sz rb h
     else Some (rb, h))"
  by pat_completeness auto

termination
  by (relation "measure (\<lambda>(T, sz, rb, h). length (rb_blocks rb))") (auto dest: FreeOldestBlock_pops)

declare ring_make_room.simps [simp del]

definition ring_take :: "32 word \<Rightarrow> ring_buffer \<Rightarrow> 32 word \<times> ring_buffer" where
  "ring_take sz rb =
    (let offset = free_offset rb; free = offset + sz
     in (offset + base_offset rb,
         rb \<lparr> rb_blocks := rb_blocks rb @ [new_ring_block offset sz],
              free_offset := (if free = buffer_size rb then 0 else free) \<rparr>))"

definition ring_Alloc ::
  "'h token_source \<Rightarrow> 32 word \<Rightarrow> ring_buffer \<Rightarrow> 'h \<Rightarrow> (32 word \<times> ring_buffer \<times> 'h) option" where
  "ring_Alloc T sz rb h =
    (let sz = (if sz = 0 then 1 else sz)
     in case ring_make_room T sz rb h of
          None \<Rightarrow> None
        | Some (rb, h) \<Rightarrow> let (offset, rb) = ring_take sz rb in Some (offset, rb, h))"

text \<open>The search runs from the newest block; nothing happens when no block has the offset.\<close>

fun mark_first :: "32 word \<Rightarrow> 32 word \<Rightarrow> ring_block list \<Rightarrow> ring_block list" where
  "mark_first offset token [] = []"
| "mark_first offset token (block # blocks) =
    (if rb_offset block = offset then block \<lparr> rb_token := token, rb_valid := True \<rparr> # blocks
     else block # mark_first offset token blocks)"

definition ring_FreePendingToken :: "32 word \<Rightarrow> 32 word \<Rightarrow> ring_buffer \<Rightarrow> ring_buffer" where
  "ring_FreePendingToken offset token rb =
    rb \<lparr> rb_blocks := rev (mark_first (offset - base_offset rb) token (rev (rb_blocks rb))) \<rparr>"

text \<open>The destructor frees what is left, oldest first.\<close>

function ring_destroy :: "'h token_source \<Rightarrow> ring_buffer \<Rightarrow> 'h \<Rightarrow> 'h option" where
  "ring_destroy T rb h =
    (if rb_blocks rb = [] then Some h
     else case FreeOldestBlock T rb h of None \<Rightarrow> None | Some (rb, h) \<Rightarrow> ring_destroy T rb h)"
  by pat_completeness auto

termination
  by (relation "measure (\<lambda>(T, rb, h). length (rb_blocks rb))") (auto dest: FreeOldestBlock_pops)

declare ring_destroy.simps [simp del]

end
