(* ===== verification/RingBufferSpec.thy ===== *)
theory RingBufferSpec
  imports RingBuffer
begin

text \<open>
  The blocks of a \<open>RingBuffer\<close> lie one after the other from the in-use offset to the free offset,
  around the end of the buffer. The room the allocator sees is free, so a new block overlaps no
  other, and waiting frees blocks in order until there is room or none is left.
\<close>

fun laid :: "nat \<Rightarrow> ring_block list \<Rightarrow> nat \<Rightarrow> bool" where
  "laid s [] e = (s = e)"
| "laid s (b # bs) e = (unat (rb_offset b) = s \<and> 0 < unat (rb_size b) \<and> laid (s + unat (rb_size b)) bs e)"

lemma laid_le: "laid s bs e \<Longrightarrow> s \<le> e"
  by (induction bs arbitrary: s) (auto dest: add_leD1)

lemma laid_append: "laid s (xs @ ys) e \<longleftrightarrow> (\<exists>m. laid s xs m \<and> laid m ys e)"
  by (induction xs arbitrary: s) auto

lemma laid_range: "laid s bs e \<Longrightarrow> b \<in> set bs \<Longrightarrow>
    s \<le> unat (rb_offset b) \<and> unat (rb_offset b) + unat (rb_size b) \<le> e"
  by (induction bs arbitrary: s) (fastforce dest: laid_le)+

lemma laid_same: "laid s bs s \<longleftrightarrow> bs = []"
  by (cases bs) (auto dest: laid_le)

text \<open>The blocks of a buffer of \<open>N\<close> bytes whose in-use offset is \<open>iu\<close> and whose free offset is \<open>f\<close>:
  none, all before the free offset, or up to the end of the buffer and from its start on.\<close>

inductive ring_laid :: "nat \<Rightarrow> nat \<Rightarrow> nat \<Rightarrow> ring_block list \<Rightarrow> bool" for N where
  none: "ring_laid N 0 0 []"
| straight: "laid iu bs f \<Longrightarrow> iu < f \<Longrightarrow> f < N \<Longrightarrow> ring_laid N iu f bs"
| around: "laid iu xs N \<Longrightarrow> iu < N \<Longrightarrow> laid 0 ys f \<Longrightarrow> f \<le> iu \<Longrightarrow> ring_laid N iu f (xs @ ys)"

definition ring_buffer_ok :: "ring_buffer \<Rightarrow> bool" where
  "ring_buffer_ok rb \<longleftrightarrow> 0 < buffer_size rb \<and>
     ring_laid (unat (buffer_size rb)) (unat (in_use_offset rb)) (unat (free_offset rb)) (rb_blocks rb)"

lemma new_RingBuffer_ok: "0 < sz \<Longrightarrow> ring_buffer_ok (new_RingBuffer base sz)"
  by (simp add: ring_buffer_ok_def new_RingBuffer_def ring_laid.none)

lemma ring_laid_pop:
  assumes "ring_laid N iu f (b # bs)"
  defines "m \<equiv> iu + unat (rb_size b)"
  shows "m \<le> N"
    "if (if m = N then 0 else m) = f then ring_laid N 0 0 bs else ring_laid N (if m = N then 0 else m) f bs"
proof -
  have "m \<le> N \<and> (if (if m = N then 0 else m) = f then ring_laid N 0 0 bs else ring_laid N (if m = N then 0 else m) f bs)"
    using assms(1)
  proof cases
    case straight
    hence l: "laid m bs f" "m \<le> f" using laid_le by (auto simp: m_def)
    have "bs = []" if "m = f" using l(1) that by (simp add: laid_same)
    moreover have "ring_laid N m f bs" if "m \<noteq> f" using l that straight by (intro ring_laid.straight) auto
    ultimately show ?thesis using straight l ring_laid.none [of N] by auto
  next
    case (around xs ys)
    then obtain xs' where xs: "xs = b # xs'" "bs = xs' @ ys" by (cases xs) auto
    hence l: "laid m xs' N" "m \<le> N" "iu < m" using around laid_le [of m xs' N] by (auto simp: m_def)
    have full: "xs' = []" if "m = N" using l(1) that by (simp add: laid_same)
    have "ys = []" if "f = 0" using around that by (simp add: laid_same)
    moreover have "ring_laid N 0 f ys" if "0 < f" using around that by (intro ring_laid.straight) auto
    moreover have "ring_laid N m f (xs' @ ys)" if "m \<noteq> N" using around l that by (intro ring_laid.around) auto
    ultimately show ?thesis using l around xs full ring_laid.none [of N] by (cases "f = 0") auto
  qed
  thus "m \<le> N"
    "if (if m = N then 0 else m) = f then ring_laid N 0 0 bs else ring_laid N (if m = N then 0 else m) f bs" by auto
qed

lemma advance_in_use_ok:
  assumes "ring_buffer_ok rb" "rb_blocks rb = b # bs"
  shows "ring_buffer_ok ((advance_in_use (rb_size b) rb) \<lparr> rb_blocks := bs \<rparr>)"
proof -
  let ?iu = "unat (in_use_offset rb)" and ?N = "unat (buffer_size rb)" and ?f = "unat (free_offset rb)"
  let ?m = "?iu + unat (rb_size b)"
  note pop = ring_laid_pop [OF assms(1) [unfolded ring_buffer_ok_def assms(2), THEN conjunct2]]
  have "?N < 2 ^ 32" using unsigned_less [of "buffer_size rb"] by simp
  hence w: "unat (in_use_offset rb + rb_size b) = ?m" using pop(1) by (simp add: unat_plus_if')
  hence "in_use_offset rb + rb_size b = buffer_size rb \<longleftrightarrow> ?m = ?N" by (simp add: word_unat_eq_iff)
  moreover have "0 = free_offset rb \<longleftrightarrow> 0 = ?f" "in_use_offset rb + rb_size b = free_offset rb \<longleftrightarrow> ?m = ?f"
    using w by (simp_all add: word_unat_eq_iff)
  ultimately show ?thesis using pop(2) assms(1) w
    by (auto simp: ring_buffer_ok_def advance_in_use_def Let_def split: if_splits)
qed

text \<open>The room the allocator sees starts at the free offset and holds no block.\<close>

lemma ring_room:
  assumes "ring_buffer_ok rb"
  defines "k \<equiv> unat (GetLargestFreeSizeNoWaiting rb)"
  shows "unat (free_offset rb) + k \<le> unat (buffer_size rb)"
    "b \<in> set (rb_blocks rb) \<Longrightarrow> 0 < k \<Longrightarrow> unat (free_offset rb) + k \<le> unat (rb_offset b) \<or>
      unat (rb_offset b) + unat (rb_size b) \<le> unat (free_offset rb)"
    "rb_blocks rb = [] \<Longrightarrow> k = unat (buffer_size rb)"
proof -
  let ?iu = "unat (in_use_offset rb)" and ?N = "unat (buffer_size rb)" and ?f = "unat (free_offset rb)"
  have l: "ring_laid ?N ?iu ?f (rb_blocks rb)" using assms(1) by (simp add: ring_buffer_ok_def)
  show e: "k = ?N" if "rb_blocks rb = []"
    using l that by cases (auto simp: k_def GetLargestFreeSizeNoWaiting_def word_unat_eq_iff laid_same dest: sym)
  from l have "?f + k \<le> ?N \<and> (\<forall>b \<in> set (rb_blocks rb). 0 < k \<longrightarrow> ?f + k \<le> unat (rb_offset b) \<or>
      unat (rb_offset b) + unat (rb_size b) \<le> ?f)"
  proof cases
    case none
    thus ?thesis using e by simp
  next
    case straight
    hence "k = ?N - ?f"
      by (auto simp: k_def GetLargestFreeSizeNoWaiting_def word_less_nat_alt unat_sub word_le_nat_alt)
    thus ?thesis using straight laid_range [OF straight(1)] by fastforce
  next
    case (around xs ys)
    have k: "k = ?iu - ?f"
      using around e by (auto simp: k_def GetLargestFreeSizeNoWaiting_def word_less_nat_alt unat_sub word_le_nat_alt laid_same)
    thus ?thesis using around laid_range [OF around(2)] laid_range [OF around(4)] by fastforce
  qed
  thus "?f + k \<le> ?N" "b \<in> set (rb_blocks rb) \<Longrightarrow> 0 < k \<Longrightarrow> ?f + k \<le> unat (rb_offset b) \<or>
      unat (rb_offset b) + unat (rb_size b) \<le> ?f" by auto
qed

subsection \<open>Allocating\<close>

lemma ring_laid_snoc:
  assumes "ring_laid N iu f bs" "0 < k" "0 < N"
    and "k \<le> (if f = iu then if bs = [] then N else 0 else if iu < f then N - f else iu - f)"
    and "unat (rb_offset b) = f" "unat (rb_size b) = k"
  shows "ring_laid N iu (if f + k = N then 0 else f + k) (bs @ [b])"
  using assms(1)
proof cases
  case none
  have "laid 0 [b] k" using none assms by simp
  hence "ring_laid N 0 k [b]" if "k \<noteq> N" using none that assms by (intro ring_laid.straight) auto
  moreover have "ring_laid N 0 0 ([b] @ [])" if "k = N" using none that assms by (intro ring_laid.around) auto
  ultimately show ?thesis using none by auto
next
  case straight
  have l: "laid iu (bs @ [b]) (f + k)" using straight assms by (simp add: laid_append)
  hence "ring_laid N iu (f + k) (bs @ [b])" if "f + k \<noteq> N" using straight that assms by (intro ring_laid.straight) auto
  moreover have "ring_laid N iu 0 ((bs @ [b]) @ [])" if "f + k = N"
    using straight that assms l by (intro ring_laid.around) auto
  ultimately show ?thesis by auto
next
  case (around xs ys)
  have "xs \<noteq> []" using around by auto
  hence "f + k \<le> iu" using assms(2,4) around by (auto split: if_splits)
  moreover have "laid 0 (ys @ [b]) (f + k)" using around assms by (simp add: laid_append)
  ultimately show ?thesis using around ring_laid.around [of iu xs N "ys @ [b]" "f + k"] by simp
qed

lemma ring_take_ok:
  assumes ok: "ring_buffer_ok rb" and sz: "0 < sz" "sz \<le> GetLargestFreeSizeNoWaiting rb"
  shows "ring_buffer_ok (snd (ring_take sz rb))"
proof -
  let ?iu = "unat (in_use_offset rb)" and ?N = "unat (buffer_size rb)" and ?f = "unat (free_offset rb)"
  have l: "ring_laid ?N ?iu ?f (rb_blocks rb)" and N: "0 < ?N" using ok by (simp_all add: ring_buffer_ok_def unat_gt_0 word_neq_0_conv)
  have k: "0 < unat sz" using sz(1) by (simp add: unat_gt_0 word_neq_0_conv)
  have fits: "?f + unat sz \<le> ?N" using ring_room(1) [OF ok] sz(2) by (simp add: word_le_nat_alt)
  moreover have "?N < 2 ^ 32" using unsigned_less [of "buffer_size rb"] by simp
  ultimately have w: "unat (free_offset rb + sz) = ?f + unat sz" by (simp add: unat_plus_if')
  have "?f \<le> ?N" using fits by simp
  moreover have "?iu \<le> ?N" using l by cases auto
  ultimately have "unat sz \<le> (if ?f = ?iu then if rb_blocks rb = [] then ?N else 0 else if ?iu < ?f then ?N - ?f else ?iu - ?f)"
    using sz(2) by (auto simp: GetLargestFreeSizeNoWaiting_def word_le_nat_alt word_less_nat_alt word_unat_eq_iff unat_sub split: if_splits)
  from ring_laid_snoc [OF l k N this, of "new_ring_block (free_offset rb) sz"]
  have "ring_laid ?N ?iu (if ?f + unat sz = ?N then 0 else ?f + unat sz) (rb_blocks rb @ [new_ring_block (free_offset rb) sz])"
    by (simp add: new_ring_block_def)
  moreover have "free_offset rb + sz = buffer_size rb \<longleftrightarrow> ?f + unat sz = ?N" using w by (simp add: word_unat_eq_iff)
  ultimately show ?thesis using ok w by (auto simp: ring_buffer_ok_def ring_take_def Let_def split: if_splits)
qed

lemma FreeOldestBlock_ok:
  assumes "FreeOldestBlock T rb h = Some (rb', h')" "ring_buffer_ok rb"
  shows "\<exists>b bs. rb_blocks rb = b # bs \<and> rb_blocks rb' = bs \<and> wait_for_token T (sint (rb_token b)) h = Some h' \<and>
    ring_buffer_ok rb' \<and> buffer_size rb' = buffer_size rb \<and> base_offset rb' = base_offset rb"
  using assms advance_in_use_ok [of rb]
  by (auto simp: FreeOldestBlock_def advance_in_use_def Let_def split: list.splits option.splits if_splits)

text \<open>The oldest blocks are freed until there is room.\<close>

lemma ring_make_room_ok:
  "ring_make_room T sz rb h = Some (rb', h') \<Longrightarrow> ring_buffer_ok rb \<Longrightarrow>
   \<exists>gone. rb_blocks rb = gone @ rb_blocks rb' \<and> waited T ((\<lambda>b. sint (rb_token b)) ` set gone) h h' \<and>
     ring_buffer_ok rb' \<and> sz \<le> GetLargestFreeSizeNoWaiting rb' \<and> buffer_size rb' = buffer_size rb \<and>
     base_offset rb' = base_offset rb"
proof (induction T sz rb h rule: ring_make_room.induct)
  case (1 T sz rb h)
  show ?case
  proof (cases "sz > GetLargestFreeSizeNoWaiting rb")
    case False
    thus ?thesis using "1.prems" by (auto simp: ring_make_room.simps [of T sz rb h] waited_none)
  next
    case True
    then obtain rb1 h1 where f: "FreeOldestBlock T rb h = Some (rb1, h1)" "ring_make_room T sz rb1 h1 = Some (rb', h')"
      using "1.prems"(1) by (auto simp: ring_make_room.simps [of T sz rb h] split: option.splits)
    obtain b bs where b: "rb_blocks rb = b # bs" "rb_blocks rb1 = bs" "wait_for_token T (sint (rb_token b)) h = Some h1"
      "ring_buffer_ok rb1" "buffer_size rb1 = buffer_size rb" "base_offset rb1 = base_offset rb"
      using FreeOldestBlock_ok [OF f(1) "1.prems"(2)] by blast
    obtain gone where g: "rb_blocks rb1 = gone @ rb_blocks rb'" "waited T ((\<lambda>b. sint (rb_token b)) ` set gone) h1 h'"
      "ring_buffer_ok rb'" "sz \<le> GetLargestFreeSizeNoWaiting rb'" "buffer_size rb' = buffer_size rb1" "base_offset rb' = base_offset rb1"
      using "1.IH" [OF True f(1) refl f(2) b(4)] by blast
    have "waited T ((\<lambda>b. sint (rb_token b)) ` set (b # gone)) h h'" using waited_more [OF b(3) g(2)] by simp
    thus ?thesis using b g by (intro exI [of _ "b # gone"]) simp
  qed
qed

lemma ring_make_room_returns:
  "ring_make_room T sz rb h = None \<Longrightarrow> ring_buffer_ok rb \<Longrightarrow> sz \<le> buffer_size rb \<Longrightarrow>
   \<exists>t h'. wait_for_token T t h' = None"
proof (induction T sz rb h rule: ring_make_room.induct)
  case (1 T sz rb h)
  have big: "sz > GetLargestFreeSizeNoWaiting rb" using "1.prems"(1) by (auto simp: ring_make_room.simps [of T sz rb h] split: if_splits)
  have "rb_blocks rb \<noteq> []"
  proof
    assume "rb_blocks rb = []"
    hence "GetLargestFreeSizeNoWaiting rb = buffer_size rb" using ring_room(3) [OF "1.prems"(2)] by (simp add: word_unat_eq_iff)
    thus False using big "1.prems"(3) by simp
  qed
  then obtain b bs where b: "rb_blocks rb = b # bs" by (cases "rb_blocks rb") auto
  show ?case
  proof (cases "FreeOldestBlock T rb h")
    case None
    thus ?thesis using b by (auto simp: FreeOldestBlock_def split: option.splits)
  next
    case (Some r)
    obtain rb1 h1 where r: "r = (rb1, h1)" by fastforce
    thus ?thesis using "1.IH" [OF big Some r [symmetric]] FreeOldestBlock_ok [OF Some [unfolded r] "1.prems"(2)] "1.prems" big Some
      by (auto simp: ring_make_room.simps [of T sz rb h])
  qed
qed

lemma ring_make_room_too_big:
  "ring_buffer_ok rb \<Longrightarrow> buffer_size rb < sz \<Longrightarrow> ring_make_room T sz rb h = None"
proof (induction T sz rb h rule: ring_make_room.induct)
  case (1 T sz rb h)
  have "unat (GetLargestFreeSizeNoWaiting rb) \<le> unat (buffer_size rb)" using ring_room(1) [OF "1.prems"(1)] by simp
  hence big: "sz > GetLargestFreeSizeNoWaiting rb" using "1.prems"(2) by (simp add: word_le_nat_alt word_less_nat_alt)
  show ?case
  proof (cases "FreeOldestBlock T rb h")
    case (Some r)
    obtain rb1 h1 where r: "r = (rb1, h1)" by fastforce
    thus ?thesis using "1.IH" [OF big Some r [symmetric]] FreeOldestBlock_ok [OF Some [unfolded r] "1.prems"(1)] "1.prems" big Some
      by (auto simp: ring_make_room.simps [of T sz rb h])
  qed (simp add: ring_make_room.simps [of T sz rb h] big)
qed

end
