(* ===== verification/GpuService.thy ===== *)
theory GpuService
  imports Bytes
begin

unbundle bit_operations_syntax

text \<open>
  The GPU process's end of a command buffer (\<open>src/gpu/command_buffer/service\<close>): the
  \<open>CommandBufferService\<close> with its registered transfer buffers, the \<open>CommonDecoder\<close> of the common
  commands with its buckets and call stack, the \<open>CommandParser\<close> that reads the ring buffer, and
  \<open>GpuScheduler::ProcessCommands\<close>. The objects hold one another; here they are one record.

  The ring buffer is memory the client can change at any time; a call that reads it takes its
  entries as an argument. The commands of the GL decoder and the making current of the context
  are the parameter \<open>gl_lib\<close>. \<open>size_t\<close> has 32 bits. A null pointer to shared memory is \<open>None\<close>.
\<close>

subsection \<open>Constants\<close>

datatype gpu_error = kNoError | kInvalidSize | kOutOfBounds | kUnknownCommand
  | kInvalidArguments | kLostContext | kGenericError | kWaiting

definition IsError :: "gpu_error \<Rightarrow> bool" where
  "IsError e = (e \<noteq> kNoError \<and> e \<noteq> kWaiting)"

text \<open>The header of a command: 21 bits of size, then 11 bits of command.\<close>

definition header_size :: "32 word \<Rightarrow> nat" where
  "header_size header = unat (header AND 0x1fffff)"

definition header_command :: "32 word \<Rightarrow> nat" where
  "header_command header = unat (drop_bit 21 header)"

definition make_header :: "nat \<Rightarrow> nat \<Rightarrow> 32 word" where
  "make_header command sz = push_bit 21 (of_nat command) OR (of_nat sz AND 0x1fffff)"

definition kMaxStackDepth :: nat where "kMaxStackDepth = 32"
definition kStartPoint :: nat where "kStartPoint = 255"

text \<open>Conversion of an integer to \<open>int32\<close>.\<close>

definition to_int32 :: "int \<Rightarrow> int" where
  "to_int32 x = sint (word_of_int x :: 32 word)"

subsection \<open>State\<close>

type_synonym shm = "8 word list option"

record 'd gpu =
  num_entries :: int
  get_offset :: int
  put_offset :: int
  svc_token :: int
  svc_error :: gpu_error
  registered_objects :: "shm list"
  unused_elements :: "nat set"
  parser_get :: int
  parser_put :: int
  entry_count :: int
  unscheduled_count :: int
  commands_per_update :: nat
  scheduled_tasks :: nat
  call_stack :: "32 word list"
  buckets :: "32 word \<rightharpoonup> 8 word list"
  current_decoder_error :: gpu_error
  gl_data :: 'd

text \<open>The GL decoder: its command table from \<open>kStartPoint + 1\<close> on, each entry saying whether the
  argument count is fixed and how many there are, the handler, and \<open>MakeCurrent\<close>.\<close>

record 'd gl_lib =
  gl_command_info :: "(bool \<times> nat) list"
  gl_handle :: "nat \<Rightarrow> 32 word list \<Rightarrow> 'd gpu \<Rightarrow> gpu_error \<times> 'd gpu"
  gl_make_current :: "'d gpu \<Rightarrow> bool \<times> 'd gpu"

subsection \<open>Transfer buffers\<close>

definition GetTransferBuffer :: "int \<Rightarrow> 'd gpu \<Rightarrow> shm" where
  "GetTransferBuffer handle s =
    (if handle < 0 then None
     else if nat handle \<ge> length (registered_objects s) then None
     else registered_objects s ! nat handle)"

text \<open>The end of \<open>RegisterTransferBuffer\<close>: the smallest unused handle, or a new one.\<close>

definition register_next_free :: "8 word list \<Rightarrow> 'd gpu \<Rightarrow> int \<times> 'd gpu" where
  "register_next_free buffer s =
    (if unused_elements s = {} then
       (int (length (registered_objects s)),
        s \<lparr> registered_objects := registered_objects s @ [Some buffer] \<rparr>)
     else let handle = Min (unused_elements s)
          in (int handle, s \<lparr> registered_objects := (registered_objects s)[handle := Some buffer],
                             unused_elements := unused_elements s - {handle} \<rparr>))"

text \<open>\<open>buffer\<close> is the mapped memory; failing to duplicate or map it returns \<open>-1\<close> before.\<close>

definition RegisterTransferBuffer :: "8 word list \<Rightarrow> int \<Rightarrow> 'd gpu \<Rightarrow> int \<times> 'd gpu" where
  "RegisterTransferBuffer buffer id_request s =
    (let objects = registered_objects s; unused = unused_elements s; i = nat id_request
     in if unused = {} \<and> length objects > 2 ^ 32 - 1 then (-1, s)
        else if id_request \<noteq> -1 \<and> (id_request > 100 \<or> id_request < -1) then (-1, s)
        else if id_request \<noteq> -1 \<and> length objects \<le> i then
          (id_request,
           s \<lparr> registered_objects := (objects @ replicate (i + 1 - length objects) None)[i := Some buffer],
               unused_elements := unused \<union> {length objects ..< i} \<rparr>)
        else if id_request \<noteq> -1 \<and> objects ! i = None then
          (id_request, s \<lparr> registered_objects := objects[i := Some buffer],
                          unused_elements := unused - {i} \<rparr>)
        else register_next_free buffer s)"

text \<open>The loop that drops null objects from the end, never element zero.\<close>

fun drop_null_objects :: "nat \<Rightarrow> shm list \<Rightarrow> nat set \<Rightarrow> shm list \<times> nat set" where
  "drop_null_objects 0 objects unused = (objects, unused)"
| "drop_null_objects (Suc n) objects unused =
    (if Suc n > 1 \<and> objects ! n = None then drop_null_objects n (take n objects) (unused - {n})
     else (objects, unused))"

definition DestroyTransferBuffer :: "int \<Rightarrow> 'd gpu \<Rightarrow> 'd gpu" where
  "DestroyTransferBuffer handle s =
    (if handle \<le> 0 then s
     else if nat handle \<ge> length (registered_objects s) then s
     else let objects = (registered_objects s)[nat handle := None];
              unused = insert (nat handle) (unused_elements s);
              (objects, unused) = drop_null_objects (length objects) objects unused
          in s \<lparr> registered_objects := objects, unused_elements := unused \<rparr>)"

subsection \<open>Buckets\<close>

text \<open>A bucket is its bytes; its pointer is null exactly when it is empty.\<close>

definition OffsetSizeValid :: "32 word \<Rightarrow> 32 word \<Rightarrow> 8 word list \<Rightarrow> bool" where
  "OffsetSizeValid offset sz bucket =
    (let temp = offset + sz in unat temp \<le> length bucket \<and> temp \<ge> offset)"

definition bucket_GetData :: "32 word \<Rightarrow> 32 word \<Rightarrow> 8 word list \<Rightarrow> 8 word list option" where
  "bucket_GetData offset sz bucket =
    (if OffsetSizeValid offset sz bucket \<and> bucket \<noteq> []
     then Some (take (unat sz) (drop (unat offset) bucket)) else None)"

definition bucket_SetSize :: "32 word \<Rightarrow> 8 word list \<Rightarrow> 8 word list" where
  "bucket_SetSize sz bucket = (if unat sz \<noteq> length bucket then replicate (unat sz) 0 else bucket)"

definition bucket_SetData :: "8 word list \<Rightarrow> 32 word \<Rightarrow> 32 word \<Rightarrow> 8 word list \<Rightarrow> 8 word list option" where
  "bucket_SetData src offset sz bucket =
    (if OffsetSizeValid offset sz bucket then Some (overwrite (unat offset) (take (unat sz) src) bucket)
     else None)"

definition SetFromString :: "8 word list option \<Rightarrow> 8 word list \<Rightarrow> 8 word list" where
  "SetFromString str bucket =
    (case str of
       None \<Rightarrow> bucket_SetSize 0 bucket
     | Some s \<Rightarrow> let c = takeWhile (\<lambda>b. b \<noteq> 0) s @ [0]; sz = of_nat (length c);
                    bucket = bucket_SetSize sz bucket
                in case bucket_SetData c 0 sz bucket of None \<Rightarrow> bucket | Some bucket \<Rightarrow> bucket)"

definition GetAsString :: "8 word list \<Rightarrow> 8 word list option" where
  "GetAsString bucket = (if length bucket = 0 then None else Some (take (length bucket - 1) bucket))"

definition CreateBucket :: "32 word \<Rightarrow> 'd gpu \<Rightarrow> 8 word list \<times> 'd gpu" where
  "CreateBucket bucket_id s =
    (case buckets s bucket_id of
       Some bucket \<Rightarrow> (bucket, s)
     | None \<Rightarrow> ([], s \<lparr> buckets := (buckets s)(bucket_id \<mapsto> []) \<rparr>))"

subsection \<open>The engine\<close>

definition set_get :: "int \<Rightarrow> 'd gpu \<Rightarrow> bool \<times> 'd gpu" where
  "set_get get s =
    (if get \<ge> 0 \<and> get < entry_count s then (True, s \<lparr> parser_get := get \<rparr>) else (False, s))"

definition SetGetOffset :: "int \<Rightarrow> 'd gpu \<Rightarrow> bool \<times> 'd gpu" where
  "SetGetOffset offset s =
    (let (ok, s) = set_get offset s
     in if ok then (True, s \<lparr> get_offset := parser_get s \<rparr>) else (False, s))"

definition set_token :: "int \<Rightarrow> 'd gpu \<Rightarrow> 'd gpu" where
  "set_token tok s = s \<lparr> svc_token := tok \<rparr>"

definition SetParseError :: "gpu_error \<Rightarrow> 'd gpu \<Rightarrow> 'd gpu" where
  "SetParseError e s = (if svc_error s = kNoError then s \<lparr> svc_error := e \<rparr> else s)"

definition PushAddress :: "32 word \<Rightarrow> 'd gpu \<Rightarrow> bool \<times> 'd gpu" where
  "PushAddress offset s =
    (if length (call_stack s) < kMaxStackDepth then
       let return_address = word_of_int (parser_get s); (ok, s) = SetGetOffset (sint offset) s
       in if ok then (True, s \<lparr> call_stack := return_address # call_stack s \<rparr>) else (False, s)
     else (False, s))"

text \<open>The part of a registered buffer a command may use: its handle, offset and size.\<close>

definition GetAddressAndCheckSize :: "32 word \<Rightarrow> 32 word \<Rightarrow> 32 word \<Rightarrow> 'd gpu \<Rightarrow> (int \<times> nat) option" where
  "GetAddressAndCheckSize shm_id offset sz s =
    (case GetTransferBuffer (sint shm_id) s of
       None \<Rightarrow> None
     | Some buffer \<Rightarrow>
         let end_offset = offset + sz
         in if unat end_offset > length buffer \<or> end_offset < offset then None
            else Some (sint shm_id, unat offset))"

definition read_shm :: "int \<times> nat \<Rightarrow> nat \<Rightarrow> 'd gpu \<Rightarrow> 8 word list" where
  "read_shm a n s =
    (case GetTransferBuffer (fst a) s of None \<Rightarrow> [] | Some buffer \<Rightarrow> take n (drop (snd a) buffer))"

definition write_shm :: "int \<times> nat \<Rightarrow> 8 word list \<Rightarrow> 'd gpu \<Rightarrow> 'd gpu" where
  "write_shm a bs s =
    (case GetTransferBuffer (fst a) s of
       None \<Rightarrow> s
     | Some buffer \<Rightarrow>
         s \<lparr> registered_objects := (registered_objects s)[nat (fst a) := Some (overwrite (snd a) bs buffer)] \<rparr>)"

text \<open>A 32 bit value in memory, least significant byte first.\<close>

definition bytes_of_word :: "32 word \<Rightarrow> 8 word list" where
  "bytes_of_word w = map (\<lambda>i. ucast (drop_bit (8 * i) w)) [0, 1, 2, 3]"

subsection \<open>The common commands\<close>

definition g_command_info :: "(bool \<times> nat) list" where
  "g_command_info =
    [(False, 0), (True, 1), (True, 1), (True, 1), (True, 1), (True, 1), (True, 0),
     (True, 2), (True, 5), (False, 3), (True, 3), (True, 5)]"

definition args_match :: "bool \<times> nat \<Rightarrow> nat \<Rightarrow> bool" where
  "args_match info arg_count = (if fst info then arg_count = snd info else arg_count \<ge> snd info)"

definition bool_error :: "bool \<times> 'd gpu \<Rightarrow> gpu_error \<times> 'd gpu" where
  "bool_error r = (if fst r then (kNoError, snd r) else (kInvalidArguments, snd r))"

definition HandleSetToken :: "32 word \<Rightarrow> 'd gpu \<Rightarrow> gpu_error \<times> 'd gpu" where
  "HandleSetToken tok s = (kNoError, set_token (sint tok) s)"

definition HandleJump :: "32 word \<Rightarrow> 'd gpu \<Rightarrow> gpu_error \<times> 'd gpu" where
  "HandleJump offset s = bool_error (SetGetOffset (sint offset) s)"

definition HandleJumpRelative :: "32 word \<Rightarrow> 'd gpu \<Rightarrow> gpu_error \<times> 'd gpu" where
  "HandleJumpRelative offset s = bool_error (SetGetOffset (to_int32 (parser_get s + sint offset)) s)"

definition HandleCall :: "32 word \<Rightarrow> 'd gpu \<Rightarrow> gpu_error \<times> 'd gpu" where
  "HandleCall offset s = bool_error (PushAddress offset s)"

definition HandleCallRelative :: "32 word \<Rightarrow> 'd gpu \<Rightarrow> gpu_error \<times> 'd gpu" where
  "HandleCallRelative offset s = bool_error (PushAddress (word_of_int (parser_get s + sint offset)) s)"

definition HandleReturn :: "'d gpu \<Rightarrow> gpu_error \<times> 'd gpu" where
  "HandleReturn s =
    (case call_stack s of
       [] \<Rightarrow> (kInvalidArguments, s)
     | return_address # stack \<Rightarrow>
         bool_error (SetGetOffset (sint return_address) (s \<lparr> call_stack := stack \<rparr>)))"

definition HandleSetBucketSize :: "32 word \<Rightarrow> 32 word \<Rightarrow> 'd gpu \<Rightarrow> gpu_error \<times> 'd gpu" where
  "HandleSetBucketSize bucket_id sz s =
    (let (bucket, s) = CreateBucket bucket_id s
     in (kNoError, s \<lparr> buckets := (buckets s)(bucket_id \<mapsto> bucket_SetSize sz bucket) \<rparr>))"

text \<open>The end the two commands that fill a bucket share.\<close>

definition fill_bucket :: "32 word \<Rightarrow> 8 word list \<Rightarrow> 32 word \<Rightarrow> 32 word \<Rightarrow> 'd gpu \<Rightarrow> gpu_error \<times> 'd gpu" where
  "fill_bucket bucket_id src offset sz s =
    (case buckets s bucket_id of
       None \<Rightarrow> (kInvalidArguments, s)
     | Some bucket \<Rightarrow>
         (case bucket_SetData src offset sz bucket of
            None \<Rightarrow> (kInvalidArguments, s)
          | Some bucket \<Rightarrow> (kNoError, s \<lparr> buckets := (buckets s)(bucket_id \<mapsto> bucket) \<rparr>)))"

definition HandleSetBucketData ::
  "32 word \<Rightarrow> 32 word \<Rightarrow> 32 word \<Rightarrow> 32 word \<Rightarrow> 32 word \<Rightarrow> 'd gpu \<Rightarrow> gpu_error \<times> 'd gpu" where
  "HandleSetBucketData bucket_id offset sz shm_id shm_offset s =
    (case GetAddressAndCheckSize shm_id shm_offset sz s of
       None \<Rightarrow> (kInvalidArguments, s)
     | Some a \<Rightarrow> fill_bucket bucket_id (read_shm a (unat sz) s) offset sz s)"

definition HandleSetBucketDataImmediate ::
  "32 word \<Rightarrow> 32 word \<Rightarrow> 32 word \<Rightarrow> 8 word list \<Rightarrow> 'd gpu \<Rightarrow> gpu_error \<times> 'd gpu" where
  "HandleSetBucketDataImmediate bucket_id offset sz data s =
    (if unat sz > length data then (kInvalidArguments, s) else fill_bucket bucket_id data offset sz s)"

definition HandleGetBucketSize :: "32 word \<Rightarrow> 32 word \<Rightarrow> 32 word \<Rightarrow> 'd gpu \<Rightarrow> gpu_error \<times> 'd gpu" where
  "HandleGetBucketSize bucket_id shm_id shm_offset s =
    (case GetAddressAndCheckSize shm_id shm_offset 4 s of
       None \<Rightarrow> (kInvalidArguments, s)
     | Some a \<Rightarrow>
         if word_of_bytes (read_shm a 4 s) \<noteq> (0 :: 32 word) then (kInvalidArguments, s)
         else case buckets s bucket_id of
                None \<Rightarrow> (kInvalidArguments, s)
              | Some bucket \<Rightarrow> (kNoError, write_shm a (bytes_of_word (of_nat (length bucket))) s))"

definition HandleGetBucketData ::
  "32 word \<Rightarrow> 32 word \<Rightarrow> 32 word \<Rightarrow> 32 word \<Rightarrow> 32 word \<Rightarrow> 'd gpu \<Rightarrow> gpu_error \<times> 'd gpu" where
  "HandleGetBucketData bucket_id offset sz shm_id shm_offset s =
    (case GetAddressAndCheckSize shm_id shm_offset sz s of
       None \<Rightarrow> (kInvalidArguments, s)
     | Some a \<Rightarrow>
         (case buckets s bucket_id of
            None \<Rightarrow> (kInvalidArguments, s)
          | Some bucket \<Rightarrow>
              (case bucket_GetData offset sz bucket of
                 None \<Rightarrow> (kInvalidArguments, s)
               | Some src \<Rightarrow> (kNoError, write_shm a src s))))"

text \<open>The switch over the twelve commands; \<open>args\<close> are the entries after the header.\<close>

definition handle_common :: "nat \<Rightarrow> 32 word list \<Rightarrow> 'd gpu \<Rightarrow> gpu_error \<times> 'd gpu" where
  "handle_common command args s =
    (if command = 0 then (kNoError, s)
     else if command = 1 then HandleSetToken (args ! 0) s
     else if command = 2 then HandleJump (args ! 0) s
     else if command = 3 then HandleJumpRelative (args ! 0) s
     else if command = 4 then HandleCall (args ! 0) s
     else if command = 5 then HandleCallRelative (args ! 0) s
     else if command = 6 then HandleReturn s
     else if command = 7 then HandleSetBucketSize (args ! 0) (args ! 1) s
     else if command = 8 then HandleSetBucketData (args ! 0) (args ! 1) (args ! 2) (args ! 3) (args ! 4) s
     else if command = 9 then
       HandleSetBucketDataImmediate (args ! 0) (args ! 1) (args ! 2)
         (concat (map bytes_of_word (drop 3 args))) s
     else if command = 10 then HandleGetBucketSize (args ! 0) (args ! 1) (args ! 2) s
     else HandleGetBucketData (args ! 0) (args ! 1) (args ! 2) (args ! 3) (args ! 4) s)"

text \<open>A command past the table makes \<open>DoCommonCommand\<close> call itself with the same arguments.\<close>

partial_function (option) DoCommonCommand ::
  "nat \<Rightarrow> 32 word list \<Rightarrow> 'd gpu \<Rightarrow> (gpu_error \<times> 'd gpu) option" where
  "DoCommonCommand command args s =
    (if command < length g_command_info then
       if args_match (g_command_info ! command) (length args)
       then Some (handle_common command args s)
       else Some (kInvalidArguments, s)
     else DoCommonCommand command args s)"

definition DoCommand ::
  "'d gl_lib \<Rightarrow> nat \<Rightarrow> 32 word list \<Rightarrow> 'd gpu \<Rightarrow> (gpu_error \<times> 'd gpu) option" where
  "DoCommand G command args s =
    (case (if kStartPoint < command \<and> command - kStartPoint - 1 < length (gl_command_info G) then
             if args_match (gl_command_info G ! (command - kStartPoint - 1)) (length args)
             then Some (gl_handle G command args s)
             else Some (kInvalidArguments, s)
           else DoCommonCommand command args s)
     of None \<Rightarrow> None
      | Some (result, s) \<Rightarrow>
          if result = kNoError \<and> current_decoder_error s \<noteq> kNoError
          then Some (current_decoder_error s, s \<lparr> current_decoder_error := kNoError \<rparr>)
          else Some (result, s))"

subsection \<open>The parser and the scheduler\<close>

definition IsEmpty :: "'d gpu \<Rightarrow> bool" where
  "IsEmpty s = (parser_put s = parser_get s)"

text \<open>\<open>None\<close> also where the header would be read outside the ring buffer.\<close>

definition ProcessCommand :: "'d gl_lib \<Rightarrow> 32 word list \<Rightarrow> 'd gpu \<Rightarrow> (gpu_error \<times> 'd gpu) option" where
  "ProcessCommand G entries s =
    (let get = parser_get s
     in if get = parser_put s then Some (kNoError, s)
        else case vec_at entries get of
               None \<Rightarrow> None
             | Some header \<Rightarrow>
                 if header_size header = 0 then Some (kInvalidSize, s)
                 else if int (header_size header) + get > entry_count s then Some (kOutOfBounds, s)
                 else case DoCommand G (header_command header)
                             (take (header_size header - 1) (drop (nat get + 1) entries)) s of
                        None \<Rightarrow> None
                      | Some (result, s) \<Rightarrow>
                          Some (result,
                            if result \<noteq> kWaiting \<and> get = parser_get s
                            then s \<lparr> parser_get := (get + int (header_size header)) mod entry_count s \<rparr>
                            else s))"

text \<open>The loop of \<open>ProcessCommands\<close>: \<open>Inl\<close> where an error returns from the whole function.\<close>

fun process_loop ::
  "'d gl_lib \<Rightarrow> 32 word list \<Rightarrow> nat \<Rightarrow> gpu_error \<Rightarrow> 'd gpu \<Rightarrow> ('d gpu + gpu_error \<times> 'd gpu) option" where
  "process_loop G entries 0 e s = Some (Inr (e, s))"
| "process_loop G entries (Suc n) e s =
    (if IsEmpty s then Some (Inr (e, s))
     else case ProcessCommand G entries s of
            None \<Rightarrow> None
          | Some (e, s) \<Rightarrow>
              if e = kWaiting then Some (Inr (e, s))
              else if IsError e then Some (Inl (SetParseError e s))
              else if unscheduled_count s > 0 then Some (Inr (e, s))
              else process_loop G entries n e s)"

definition ProcessCommands :: "'d gl_lib \<Rightarrow> 32 word list \<Rightarrow> 'd gpu \<Rightarrow> 'd gpu option" where
  "ProcessCommands G entries s =
    (if svc_error s \<noteq> kNoError then Some s
     else if unscheduled_count s > 0 then Some s
     else let (current, s') = gl_make_current G s
          in if \<not> current then Some (SetParseError kLostContext s')
             else case process_loop G entries (commands_per_update s') kNoError
                         (s' \<lparr> parser_put := put_offset s \<rparr>) of
                    None \<Rightarrow> None
                  | Some (Inl s) \<Rightarrow> Some s
                  | Some (Inr (e, s)) \<Rightarrow>
                      (let s = s \<lparr> get_offset := parser_get s \<rparr>
                       in Some (if unscheduled_count s = 0 \<and> e \<noteq> kWaiting \<and> \<not> IsEmpty s
                                then s \<lparr> scheduled_tasks := scheduled_tasks s + 1 \<rparr> else s)))"

record cb_state =
  st_num_entries :: int
  st_get_offset :: int
  st_put_offset :: int
  st_token :: int
  st_error :: gpu_error

definition svc_GetState :: "'d gpu \<Rightarrow> cb_state" where
  "svc_GetState s = \<lparr> st_num_entries = num_entries s, st_get_offset = get_offset s,
     st_put_offset = put_offset s, st_token = svc_token s, st_error = svc_error s \<rparr>"

text \<open>\<open>FlushSync\<close> with the scheduler as the put offset callback.\<close>

definition svc_FlushSync ::
  "'d gl_lib \<Rightarrow> int \<Rightarrow> 32 word list \<Rightarrow> 'd gpu \<Rightarrow> (cb_state \<times> 'd gpu) option" where
  "svc_FlushSync G put entries s =
    (if put < 0 \<or> put > num_entries s
     then let s = s \<lparr> svc_error := kOutOfBounds \<rparr> in Some (svc_GetState s, s)
     else case ProcessCommands G entries (s \<lparr> put_offset := put \<rparr>) of
            None \<Rightarrow> None
          | Some s \<Rightarrow> Some (svc_GetState s, s))"

definition svc_Flush :: "'d gl_lib \<Rightarrow> int \<Rightarrow> 32 word list \<Rightarrow> 'd gpu \<Rightarrow> 'd gpu option" where
  "svc_Flush G put entries s = map_option snd (svc_FlushSync G put entries s)"

definition SetScheduled :: "bool \<Rightarrow> 'd gpu \<Rightarrow> 'd gpu" where
  "SetScheduled scheduled s =
    (if scheduled then
       let s = s \<lparr> unscheduled_count := unscheduled_count s - 1 \<rparr>
       in if unscheduled_count s = 0 then s \<lparr> scheduled_tasks := scheduled_tasks s + 1 \<rparr> else s
     else s \<lparr> unscheduled_count := unscheduled_count s + 1 \<rparr>)"

text \<open>A service for a ring buffer of \<open>n\<close> entries, just after \<open>Initialize\<close>.\<close>

definition new_gpu :: "nat \<Rightarrow> 'd \<Rightarrow> 'd gpu" where
  "new_gpu n d =
    \<lparr> num_entries = int n, get_offset = 0, put_offset = 0, svc_token = 0, svc_error = kNoError,
      registered_objects = [None], unused_elements = {}, parser_get = 0, parser_put = 0,
      entry_count = int n, unscheduled_count = 0, commands_per_update = 100, scheduled_tasks = 0,
      call_stack = [], buckets = Map.empty, current_decoder_error = kNoError, gl_data = d \<rparr>"

end
