(* ===== verification/GpuServiceSpec.thy ===== *)
theory GpuServiceSpec
  imports GpuService
begin

text \<open>
  What the GPU process guarantees whatever a client writes into the ring buffer and the arguments
  of its commands: the parser stays inside the ring, a command only touches the part of a transfer
  buffer it was checked for, and handles name the buffers registered under them.
\<close>

subsection \<open>Transfer buffers\<close>

definition buffers_ok :: "'d gpu \<Rightarrow> bool" where
  "buffers_ok s \<longleftrightarrow> registered_objects s \<noteq> [] \<and>
     unused_elements s = {i. 0 < i \<and> i < length (registered_objects s) \<and> registered_objects s ! i = None}"

lemma buffers_ok_unused:
  "buffers_ok s \<Longrightarrow> j \<in> unused_elements s \<longleftrightarrow>
    0 < j \<and> j < length (registered_objects s) \<and> registered_objects s ! j = None"
  by (simp add: buffers_ok_def)

lemma GetTransferBuffer_nat:
  "GetTransferBuffer (int i) s = (if i < length (registered_objects s) then registered_objects s ! i else None)"
  by (auto simp: GetTransferBuffer_def)

lemma GetTransferBuffer_neg: "h < 0 \<Longrightarrow> GetTransferBuffer h s = None"
  by (simp add: GetTransferBuffer_def)

lemma GetTransferBuffer_eq:
  assumes "\<And>i. (if i < length (registered_objects s') then registered_objects s' ! i else None) =
              (if P i then v else if i < length (registered_objects s) then registered_objects s ! i else None)"
  shows "GetTransferBuffer h s' = (if 0 \<le> h \<and> P (nat h) then v else GetTransferBuffer h s)"
proof (cases "h < 0")
  case True thus ?thesis by (simp add: GetTransferBuffer_neg)
next
  case False
  then obtain i where h: "h = int i" by (metis nonneg_int_cases not_less)
  show ?thesis using assms [of i] by (simp add: h GetTransferBuffer_nat split: if_splits)
qed

text \<open>Storing a buffer in a null slot, in a new slot, and past the end with padding.\<close>

lemma store_in_slot:
  fixes b :: "8 word list"
  assumes "buffers_ok s" "i < length (registered_objects s)" "registered_objects s ! i = None"
  defines "s' \<equiv> s \<lparr> registered_objects := (registered_objects s)[i := Some b], unused_elements := unused_elements s - {i} \<rparr>"
  shows "buffers_ok s'" "GetTransferBuffer (int i) s = None"
    "GetTransferBuffer h s' = (if h = int i then Some b else GetTransferBuffer h s)"
proof -
  show "buffers_ok s'" using assms(1,2) unfolding buffers_ok_def s'_def by (auto simp: nth_list_update)
  show "GetTransferBuffer (int i) s = None" using assms(3) by (simp add: GetTransferBuffer_nat)
  have "GetTransferBuffer h s' = (if 0 \<le> h \<and> nat h = i then Some b else GetTransferBuffer h s)"
    by (rule GetTransferBuffer_eq) (use assms(2) in \<open>auto simp: s'_def nth_list_update\<close>)
  thus "GetTransferBuffer h s' = (if h = int i then Some b else GetTransferBuffer h s)" by auto
qed

lemma store_past_end:
  fixes b :: "8 word list"
  assumes "buffers_ok s" "length (registered_objects s) \<le> i"
  defines "s' \<equiv> s \<lparr> registered_objects := (registered_objects s @ replicate (i + 1 - length (registered_objects s)) None)[i := Some b],
      unused_elements := unused_elements s \<union> {length (registered_objects s) ..< i} \<rparr>"
  shows "buffers_ok s'" "GetTransferBuffer (int i) s = None"
    "GetTransferBuffer h s' = (if h = int i then Some b else GetTransferBuffer h s)"
proof -
  have ne: "0 < length (registered_objects s)" using assms(1) by (simp add: buffers_ok_def)
  have len: "length (registered_objects s') = i + 1" using assms(2) by (simp add: s'_def)
  have at: "registered_objects s' ! j = (if j = i then Some b else if j < length (registered_objects s) then registered_objects s ! j else None)"
    if "j \<le> i" for j
    using that assms(2) by (auto simp: s'_def nth_list_update nth_append)
  show "buffers_ok s'"
    unfolding buffers_ok_def
  proof (intro conjI set_eqI)
    show "registered_objects s' \<noteq> []" using len by auto
    fix j
    have "j \<in> unused_elements s' \<longleftrightarrow> j \<in> unused_elements s \<or> length (registered_objects s) \<le> j \<and> j < i"
      by (auto simp: s'_def)
    thus "j \<in> unused_elements s' \<longleftrightarrow> j \<in> {j. 0 < j \<and> j < length (registered_objects s') \<and> registered_objects s' ! j = None}"
      using assms(2) len at [of j] buffers_ok_unused [OF assms(1), of j] ne by (cases "j \<le> i") auto
  qed
  show "GetTransferBuffer (int i) s = None" using assms(2) by (simp add: GetTransferBuffer_nat)
  have "GetTransferBuffer h s' = (if 0 \<le> h \<and> nat h = i then Some b else GetTransferBuffer h s)"
    by (rule GetTransferBuffer_eq) (use at len assms(2) in auto)
  thus "GetTransferBuffer h s' = (if h = int i then Some b else GetTransferBuffer h s)" by auto
qed

definition stored :: "8 word list \<Rightarrow> 'd gpu \<Rightarrow> int \<times> 'd gpu \<Rightarrow> bool" where
  "stored b s r \<longleftrightarrow> 0 \<le> fst r \<and> buffers_ok (snd r) \<and> GetTransferBuffer (fst r) s = None \<and>
     (\<forall>h. GetTransferBuffer h (snd r) = (if h = fst r then Some b else GetTransferBuffer h s))"

lemma stored_next_free:
  assumes "buffers_ok s"
  shows "stored b s (register_next_free b s)"
proof (cases "unused_elements s = {}")
  case True
  have eq: "s \<lparr> registered_objects := registered_objects s @ [Some b] \<rparr> =
      s \<lparr> registered_objects := (registered_objects s @ replicate (length (registered_objects s) + 1 - length (registered_objects s)) None)
            [length (registered_objects s) := Some b],
          unused_elements := unused_elements s \<union> {length (registered_objects s) ..< length (registered_objects s)} \<rparr>"
    by simp
  have r: "register_next_free b s = (int (length (registered_objects s)),
      s \<lparr> registered_objects := (registered_objects s @ replicate (length (registered_objects s) + 1 - length (registered_objects s)) None)
            [length (registered_objects s) := Some b],
          unused_elements := unused_elements s \<union> {length (registered_objects s) ..< length (registered_objects s)} \<rparr>)"
    by (subst register_next_free_def, subst if_P [OF True]) (simp only: eq)
  show ?thesis unfolding stored_def r fst_conv snd_conv
    using store_past_end [OF assms le_refl] by simp
next
  case False
  have "finite (unused_elements s)" using assms by (simp add: buffers_ok_def)
  hence "Min (unused_elements s) \<in> unused_elements s" using False by simp
  hence i: "Min (unused_elements s) < length (registered_objects s)" "registered_objects s ! Min (unused_elements s) = None"
    using assms by (simp_all add: buffers_ok_def)
  show ?thesis using False store_in_slot(1,3) [OF assms i, where b = b] store_in_slot(2) [OF assms i]
    by (simp add: stored_def register_next_free_def Let_def)
qed

lemma RegisterTransferBuffer_stored:
  assumes ok: "buffers_ok s" and r: "RegisterTransferBuffer b i s = (h, s')"
  shows "(h = -1 \<and> s' = s) \<or> (stored b s (h, s') \<and>
    (0 \<le> i \<and> i \<le> 100 \<and> GetTransferBuffer i s = None \<longrightarrow> h = i))"
proof -
  define full where "full \<longleftrightarrow> unused_elements s = {} \<and> length (registered_objects s) > 2 ^ 32 - 1"
  note nf = stored_next_free [OF ok, of b]
  note r' = r [unfolded RegisterTransferBuffer_def Let_def full_def [symmetric], symmetric]
  consider (reject) "full \<or> i \<noteq> -1 \<and> (i > 100 \<or> i < -1)"
    | (free) "\<not> full" "i = -1"
    | (past) "\<not> full" "0 \<le> i" "i \<le> 100" "length (registered_objects s) \<le> nat i"
    | (slot) "\<not> full" "0 \<le> i" "i \<le> 100" "nat i < length (registered_objects s)"
        "registered_objects s ! nat i = None"
    | (taken) "\<not> full" "0 \<le> i" "i \<le> 100" "nat i < length (registered_objects s)"
        "registered_objects s ! nat i \<noteq> None"
    by linarith
  thus ?thesis
  proof cases
    case reject
    hence "(h, s') = (-1, s)" using r' by (cases full) simp_all
    thus ?thesis by simp
  next
    case free
    hence "(h, s') = register_next_free b s" using r' by simp
    thus ?thesis using nf free by simp
  next
    case past
    hence "(h, s') = (int (nat i), s \<lparr> registered_objects := (registered_objects s @ replicate (nat i + 1 - length (registered_objects s)) None)[nat i := Some b],
      unused_elements := unused_elements s \<union> {length (registered_objects s) ..< nat i} \<rparr>)"
      using r' by simp
    thus ?thesis using store_past_end(1,3) [OF ok past(4), where b = b] store_past_end(2) [OF ok past(4)] past(2) by (simp add: stored_def)
  next
    case slot
    hence "(h, s') = (int (nat i), s \<lparr> registered_objects := (registered_objects s)[nat i := Some b], unused_elements := unused_elements s - {nat i} \<rparr>)"
      using r' by simp
    thus ?thesis using store_in_slot(1,3) [OF ok slot(4,5), where b = b] store_in_slot(2) [OF ok slot(4,5)] slot(2) by (simp add: stored_def)
  next
    case taken
    then obtain y where "registered_objects s ! nat i = Some y" by blast
    hence "(h, s') = register_next_free b s" using r' taken(1-4) by simp
    moreover have "GetTransferBuffer i s \<noteq> None" using taken by (simp add: GetTransferBuffer_def)
    ultimately show ?thesis using nf by auto
  qed
qed

lemma drop_null_objects_spec:
  assumes "drop_null_objects (length objects) objects unused = (objects', unused')" "objects \<noteq> []"
    and "unused = {i. 0 < i \<and> i < length objects \<and> objects ! i = None}"
  shows "objects' \<noteq> [] \<and> unused' = {i. 0 < i \<and> i < length objects' \<and> objects' ! i = None} \<and>
    (\<forall>i. (if i < length objects' then objects' ! i else None) = (if i < length objects then objects ! i else None))"
proof -
  have "drop_null_objects n os us = (objects', unused') \<Longrightarrow> n = length os \<Longrightarrow> os \<noteq> [] \<Longrightarrow>
      us = {i. 0 < i \<and> i < length os \<and> os ! i = None} \<Longrightarrow>
      objects' \<noteq> [] \<and> unused' = {i. 0 < i \<and> i < length objects' \<and> objects' ! i = None} \<and>
      (\<forall>i. (if i < length objects' then objects' ! i else None) = (if i < length os then os ! i else None))"
    for n os us
  proof (induction n os us rule: drop_null_objects.induct)
    case (2 n os us)
    show ?case
    proof (cases "Suc n > 1 \<and> os ! n = None")
      case False
      hence "objects' = os \<and> unused' = us" using "2.prems"(1) by auto
      thus ?thesis using "2.prems"(3,4) by simp
    next
      case True
      have "us - {n} = {i. 0 < i \<and> i < length (take n os) \<and> take n os ! i = None}"
        using "2.prems"(2,4) True by (auto simp: less_Suc_eq)
      moreover have "drop_null_objects n (take n os) (us - {n}) = (objects', unused')"
        using "2.prems"(1) True by simp
      moreover have "take n os \<noteq> []" "n = length (take n os)" using "2.prems"(2) True by auto
      ultimately have IH: "objects' \<noteq> [] \<and> unused' = {i. 0 < i \<and> i < length objects' \<and> objects' ! i = None} \<and>
          (\<forall>i. (if i < length objects' then objects' ! i else None) =
               (if i < length (take n os) then take n os ! i else None))"
        using "2.IH" True by blast
      have "(if i < length (take n os) then take n os ! i else None) = (if i < length os then os ! i else None)" for i
        using True "2.prems"(2) by (cases "i = n") auto
      thus ?thesis using IH by simp
    qed
  qed simp
  from this [OF assms(1) refl assms(2,3)] show ?thesis .
qed

lemma DestroyTransferBuffer_spec:
  assumes ok: "buffers_ok s"
  shows "buffers_ok (DestroyTransferBuffer h s) \<and>
    GetTransferBuffer k (DestroyTransferBuffer h s) = (if k = h \<and> 0 < h then None else GetTransferBuffer k s)"
proof (cases "h \<le> 0 \<or> nat h \<ge> length (registered_objects s)")
  case True
  moreover have "GetTransferBuffer h s = None" if "0 < h" using True that by (simp add: GetTransferBuffer_def)
  ultimately show ?thesis using ok by (auto simp: DestroyTransferBuffer_def)
next
  case False
  let ?os = "(registered_objects s)[nat h := None]"
  let ?us = "insert (nat h) (unused_elements s)"
  obtain os us where d: "drop_null_objects (length ?os) ?os ?us = (os, us)" by fastforce
  have us: "?us = {i. 0 < i \<and> i < length ?os \<and> ?os ! i = None}"
    using False by (intro set_eqI) (auto simp: buffers_ok_unused [OF ok] nth_list_update)
  have ne: "?os \<noteq> []" using ok by (simp add: buffers_ok_def)
  note sp = drop_null_objects_spec [OF d ne us]
  have eq: "DestroyTransferBuffer h s = s \<lparr> registered_objects := os, unused_elements := us \<rparr>"
    using False d by (simp add: DestroyTransferBuffer_def Let_def)
  have sel: "registered_objects (DestroyTransferBuffer h s) = os" by (simp add: eq)
  have "GetTransferBuffer k (DestroyTransferBuffer h s) = (if 0 \<le> k \<and> nat k = nat h then None else GetTransferBuffer k s)"
  proof (rule GetTransferBuffer_eq)
    fix i
    show "(if i < length (registered_objects (DestroyTransferBuffer h s)) then registered_objects (DestroyTransferBuffer h s) ! i else None) =
        (if i = nat h then None else if i < length (registered_objects s) then registered_objects s ! i else None)"
      unfolding sel sp [THEN conjunct2, THEN conjunct2, rule_format] by (auto simp: nth_list_update)
  qed
  moreover have "(0 \<le> k \<and> nat k = nat h) = (k = h)" using False by auto
  moreover have "buffers_ok (DestroyTransferBuffer h s)"
    unfolding eq buffers_ok_def using sp [THEN conjunct1] sp [THEN conjunct2, THEN conjunct1] by simp
  ultimately show ?thesis using False by simp
qed

subsection \<open>Memory a command may touch\<close>

lemma word_add_bound:
  fixes x y :: "32 word"
  shows "\<not> (unat (x + y) > n \<or> x + y < x) \<Longrightarrow> unat x + unat y \<le> n"
    and "unat x + unat y \<le> n \<Longrightarrow> n < 2 ^ 32 \<Longrightarrow> \<not> (unat (x + y) > n \<or> x + y < x)"
proof -
  have "unat x < 2 ^ LENGTH(32)" "unat y < 2 ^ LENGTH(32)" by (rule unsigned_less)+
  thus "\<not> (unat (x + y) > n \<or> x + y < x) \<Longrightarrow> unat x + unat y \<le> n"
    and "unat x + unat y \<le> n \<Longrightarrow> n < 2 ^ 32 \<Longrightarrow> \<not> (unat (x + y) > n \<or> x + y < x)"
    by (auto simp: word_less_nat_alt unat_plus_if' split: if_splits)
qed

lemma GetAddressAndCheckSize_bounds:
  "GetAddressAndCheckSize shm_id off sz s = Some a \<Longrightarrow>
   \<exists>buffer. GetTransferBuffer (fst a) s = Some buffer \<and> fst a = sint shm_id \<and> snd a = unat off \<and>
     snd a + unat sz \<le> length buffer"
  using word_add_bound(1) [of "length (the (GetTransferBuffer (sint shm_id) s))" off sz]
  by (auto simp: GetAddressAndCheckSize_def Let_def split: option.splits if_splits)

lemma OffsetSizeValid_bound: "OffsetSizeValid off sz bucket \<Longrightarrow> unat off + unat sz \<le> length bucket"
  using word_add_bound(1) [of "length bucket" off sz] by (auto simp: OffsetSizeValid_def Let_def not_less)

text \<open>The sizes of the transfer buffers.\<close>

definition shape :: "'d gpu \<Rightarrow> nat option list" where
  "shape s = map (map_option length) (registered_objects s)"

lemma GetTransferBuffer_Some:
  "GetTransferBuffer h s = Some b \<Longrightarrow> 0 \<le> h \<and> nat h < length (registered_objects s) \<and> registered_objects s ! nat h = Some b"
  by (auto simp: GetTransferBuffer_def split: if_splits)

lemma write_shm_shape:
  assumes "GetTransferBuffer (fst a) s = Some buffer" "snd a + length bs \<le> length buffer"
  shows "shape (write_shm a bs s) = shape s"
proof -
  note g = GetTransferBuffer_Some [OF assms(1)]
  have "length (overwrite (snd a) bs buffer) = length buffer" by (rule length_overwrite [OF assms(2)])
  hence "map (map_option length) ((registered_objects s)[nat (fst a) := Some (overwrite (snd a) bs buffer)]) =
      map (map_option length) (registered_objects s)"
    using g by (intro nth_equalityI) (auto simp: nth_list_update)
  thus ?thesis using assms(1) by (simp add: write_shm_def shape_def)
qed

lemma shape_buffers_ok: "shape s' = shape s \<Longrightarrow> unused_elements s' = unused_elements s \<Longrightarrow> buffers_ok s' = buffers_ok s"
proof -
  assume sh: "shape s' = shape s" and us: "unused_elements s' = unused_elements s"
  have len: "length (registered_objects s') = length (registered_objects s)"
    using arg_cong [OF sh, of length] by (simp add: shape_def)
  have "(registered_objects s' ! i = None) = (registered_objects s ! i = None)" if "i < length (registered_objects s)" for i
    using arg_cong [OF sh, of "\<lambda>l. l ! i"] that len by (simp add: shape_def) (metis option.map_disc_iff)
  hence "{i. 0 < i \<and> i < length (registered_objects s') \<and> registered_objects s' ! i = None} =
      {i. 0 < i \<and> i < length (registered_objects s) \<and> registered_objects s ! i = None}"
    using len by auto
  moreover have "registered_objects s' = [] \<longleftrightarrow> registered_objects s = []" using len by (metis length_0_conv)
  ultimately show "buffers_ok s' = buffers_ok s" using us by (simp add: buffers_ok_def)
qed

subsection \<open>The state the parser svc_keeps\<close>

definition svc_ok :: "'d gpu \<Rightarrow> bool" where
  "svc_ok s \<longleftrightarrow> 0 \<le> parser_get s \<and> parser_get s < entry_count s \<and>
     0 \<le> get_offset s \<and> get_offset s < entry_count s \<and> buffers_ok s"

text \<open>What one step of the service keeps: well-formedness, the sizes of the ring and of the transfer
  buffers.\<close>

definition svc_keeps :: "'d gpu \<Rightarrow> 'd gpu \<Rightarrow> bool" where
  "svc_keeps s s' \<longleftrightarrow> (svc_ok s \<longrightarrow> svc_ok s') \<and> entry_count s' = entry_count s \<and> shape s' = shape s"

definition gl_keeps :: "'d gl_lib \<Rightarrow> bool" where
  "gl_keeps G \<longleftrightarrow> (\<forall>c args s. svc_keeps s (snd (gl_handle G c args s))) \<and> (\<forall>s. svc_keeps s (snd (gl_make_current G s)))"

lemma svc_keeps_refl [simp]: "svc_keeps s s"
  by (simp add: svc_keeps_def)

lemma svc_keeps_trans: "svc_keeps s t \<Longrightarrow> svc_keeps t u \<Longrightarrow> svc_keeps s u"
  by (simp add: svc_keeps_def)

lemma svc_keeps_fields:
  "svc_keeps s (s \<lparr> svc_token := t \<rparr>)" "svc_keeps s (s \<lparr> call_stack := cs \<rparr>)" "svc_keeps s (s \<lparr> buckets := m \<rparr>)"
  "svc_keeps s (s \<lparr> current_decoder_error := e \<rparr>)" "svc_keeps s (s \<lparr> svc_error := e \<rparr>)" "svc_keeps s (s \<lparr> get_offset := parser_get s \<rparr>)"
  "svc_keeps s (s \<lparr> put_offset := p \<rparr>)" "svc_keeps s (s \<lparr> parser_put := p \<rparr>)" "svc_keeps s (s \<lparr> scheduled_tasks := n \<rparr>)"
  by (simp_all add: svc_keeps_def svc_ok_def buffers_ok_def shape_def)

lemma svc_keeps_get: "0 \<le> g \<Longrightarrow> g < entry_count s \<Longrightarrow> svc_keeps s (s \<lparr> parser_get := g \<rparr>)"
  by (simp add: svc_keeps_def svc_ok_def buffers_ok_def shape_def)

lemma SetGetOffset_keeps: "svc_keeps s (snd (SetGetOffset off s))"
  using svc_keeps_trans [OF svc_keeps_get [of off s] svc_keeps_fields(6)]
  by (auto simp: SetGetOffset_def set_get_def Let_def)

lemma PushAddress_keeps: "svc_keeps s (snd (PushAddress off s))"
proof -
  obtain ok s1 where r: "SetGetOffset (sint off) s = (ok, s1)" by fastforce
  hence "svc_keeps s s1" using SetGetOffset_keeps [of s "sint off"] by simp
  from this svc_keeps_trans [OF this svc_keeps_fields(2)] show ?thesis by (simp add: PushAddress_def Let_def r)
qed

lemma bool_error_keeps: "svc_keeps s (snd r) \<Longrightarrow> svc_keeps s (snd (bool_error r))"
  by (simp add: bool_error_def)

lemma write_shm_keeps:
  assumes "GetTransferBuffer (fst a) s = Some buffer" "snd a + length bs \<le> length buffer"
  shows "svc_keeps s (write_shm a bs s)"
proof -
  have "unused_elements (write_shm a bs s) = unused_elements s"
    "parser_get (write_shm a bs s) = parser_get s" "get_offset (write_shm a bs s) = get_offset s" "entry_count (write_shm a bs s) = entry_count s"
    by (simp_all add: write_shm_def split: option.splits)
  thus ?thesis using write_shm_shape [OF assms] shape_buffers_ok [OF write_shm_shape [OF assms]]
    by (simp add: svc_keeps_def svc_ok_def)
qed

lemma fill_bucket_keeps: "svc_keeps s (snd (fill_bucket b src off sz s))"
  by (simp add: fill_bucket_def svc_keeps_fields split: option.splits)

lemma HandleReturn_keeps: "svc_keeps s (snd (HandleReturn s))"
  using svc_keeps_trans [OF svc_keeps_fields(2) SetGetOffset_keeps]
  by (auto simp: HandleReturn_def intro!: bool_error_keeps split: list.splits)

lemma HandleSetBucketSize_keeps: "svc_keeps s (snd (HandleSetBucketSize b sz s))"
  using svc_keeps_trans [OF svc_keeps_fields(3) svc_keeps_fields(3)]
  by (auto simp: HandleSetBucketSize_def CreateBucket_def Let_def svc_keeps_fields split: option.splits)

lemma HandleSetBucketData_keeps: "svc_keeps s (snd (HandleSetBucketData b off sz i so s))"
  by (simp add: HandleSetBucketData_def fill_bucket_keeps split: option.splits)

lemma write_checked_keeps:
  "GetAddressAndCheckSize i so sz s = Some a \<Longrightarrow> length bs \<le> unat sz \<Longrightarrow> svc_keeps s (write_shm a bs s)"
  using GetAddressAndCheckSize_bounds [of i so sz s a] write_shm_keeps [of a s _ bs] by fastforce

lemma HandleGetBucketSize_keeps: "svc_keeps s (snd (HandleGetBucketSize b i so s))"
  by (auto simp: HandleGetBucketSize_def bytes_of_word_def intro: write_checked_keeps split: option.splits)

lemma bucket_GetData_length: "bucket_GetData off sz bucket = Some src \<Longrightarrow> length src \<le> unat sz"
  by (auto simp: bucket_GetData_def split: if_splits)

lemma HandleGetBucketData_keeps: "svc_keeps s (snd (HandleGetBucketData b off sz i so s))"
  by (auto simp: HandleGetBucketData_def intro: write_checked_keeps bucket_GetData_length split: option.splits)

lemma handle_common_keeps: "svc_keeps s (snd (handle_common c args s))"
  unfolding handle_common_def
  by (auto simp: HandleSetToken_def set_token_def HandleJump_def HandleJumpRelative_def HandleCall_def
      HandleCallRelative_def HandleSetBucketDataImmediate_def svc_keeps_fields fill_bucket_keeps
      HandleReturn_keeps HandleSetBucketSize_keeps HandleSetBucketData_keeps HandleGetBucketSize_keeps
      HandleGetBucketData_keeps
      intro!: bool_error_keeps SetGetOffset_keeps PushAddress_keeps)

subsection \<open>The command dispatch\<close>

text \<open>The commands some table has.\<close>

definition known_command :: "'d gl_lib \<Rightarrow> nat \<Rightarrow> bool" where
  "known_command G c \<longleftrightarrow> c < length g_command_info \<or>
     kStartPoint < c \<and> c - kStartPoint - 1 < length (gl_command_info G)"

lemma DoCommonCommand_known: "c < length g_command_info \<Longrightarrow> DoCommonCommand c args s =
    Some (if args_match (g_command_info ! c) (length args) then handle_common c args s else (kInvalidArguments, s))"
  by (subst DoCommonCommand.simps) simp

lemma DoCommonCommand_unknown:
  assumes "\<not> c < length g_command_info"
  shows "DoCommonCommand c args s = None"
proof -
  have "DoCommonCommand c args s = Some r \<Longrightarrow> c < length g_command_info" for r
    by (rule DoCommonCommand.raw_induct [where P = "\<lambda>c args s r. c < length g_command_info"])
       (auto split: if_splits)
  thus ?thesis using assms by (cases "DoCommonCommand c args s") auto
qed

lemma DoCommand_cases:
  assumes "gl_keeps G"
  shows "if known_command G c then \<exists>e s'. DoCommand G c args s = Some (e, s') \<and> svc_keeps s s'
    else DoCommand G c args s = None"
proof (cases "known_command G c")
  case False
  thus ?thesis using DoCommonCommand_unknown [of c args s] by (auto simp: known_command_def DoCommand_def)
next
  case True
  define r where "r = (if kStartPoint < c \<and> c - kStartPoint - 1 < length (gl_command_info G) then
       if args_match (gl_command_info G ! (c - kStartPoint - 1)) (length args) then gl_handle G c args s
       else (kInvalidArguments, s)
     else if args_match (g_command_info ! c) (length args) then handle_common c args s else (kInvalidArguments, s))"
  have "svc_keeps s (snd r)" using assms handle_common_keeps [of s c args] by (auto simp: r_def gl_keeps_def)
  moreover have "(if kStartPoint < c \<and> c - kStartPoint - 1 < length (gl_command_info G) then
       if args_match (gl_command_info G ! (c - kStartPoint - 1)) (length args) then Some (gl_handle G c args s)
       else Some (kInvalidArguments, s)
     else DoCommonCommand c args s) = Some r"
    using True DoCommonCommand_known [of c args s] by (auto simp: r_def known_command_def)
  ultimately show ?thesis using True svc_keeps_trans [OF _ svc_keeps_fields(4)]
    by (cases r) (auto simp: DoCommand_def)
qed

lemma ProcessCommand_result:
  assumes "gl_keeps G" "svc_ok s" "entry_count s = int (length entries)"
  shows "(\<exists>e s'. ProcessCommand G entries s = Some (e, s') \<and> svc_keeps s s') \<or>
    (ProcessCommand G entries s = None \<and> \<not> known_command G (header_command (entries ! nat (parser_get s))))"
proof -
  let ?h = "entries ! nat (parser_get s)"
  have get: "0 \<le> parser_get s" "parser_get s < int (length entries)" using assms(2,3) by (simp_all add: svc_ok_def)
  hence at: "vec_at entries (parser_get s) = Some ?h" by (simp add: vec_at_def)
  let ?args = "take (header_size ?h - 1) (drop (nat (parser_get s) + 1) entries)"
  have adv: "svc_keeps s (s' \<lparr> parser_get := g mod entry_count s' \<rparr>)" if "svc_keeps s s'" for s' g
  proof -
    have "0 < entry_count s'" using that assms(2) by (simp add: svc_keeps_def svc_ok_def)
    thus ?thesis using svc_keeps_trans [OF that svc_keeps_get] by simp
  qed
  show ?thesis
  proof (cases "known_command G (header_command ?h)")
    case True
    then obtain e s' where d: "DoCommand G (header_command ?h) ?args s = Some (e, s')" "svc_keeps s s'"
      using DoCommand_cases [OF assms(1), of "header_command ?h" ?args s] by auto
    thus ?thesis using at adv [OF d(2)] by (auto simp: ProcessCommand_def Let_def)
  next
    case False
    hence "DoCommand G (header_command ?h) ?args s = None"
      using DoCommand_cases [OF assms(1), of "header_command ?h" ?args s] by simp
    thus ?thesis using at False by (auto simp: ProcessCommand_def Let_def)
  qed
qed

lemma process_loop_result:
  "gl_keeps G \<Longrightarrow> svc_ok s \<Longrightarrow> entry_count s = int (length entries) \<Longrightarrow>
   (case process_loop G entries n e s of
      None \<Rightarrow> \<exists>h \<in> set entries. \<not> known_command G (header_command h)
    | Some (Inl s') \<Rightarrow> svc_keeps s s'
    | Some (Inr (e', s')) \<Rightarrow> svc_keeps s s')"
proof (induction G entries n e s rule: process_loop.induct)
  case (2 G entries n e s)
  have get: "nat (parser_get s) < length entries" using "2.prems"(2,3) by (simp add: svc_ok_def nat_less_iff)
  show ?case
  proof (cases "ProcessCommand G entries s")
    case None
    hence "\<not> known_command G (header_command (entries ! nat (parser_get s)))"
      using ProcessCommand_result [OF "2.prems"] by auto
    thus ?thesis using None nth_mem [OF get] by auto
  next
    case (Some r)
    obtain e1 s1 where r: "r = (e1, s1)" by fastforce
    have k: "svc_keeps s s1" using ProcessCommand_result [OF "2.prems"] Some r by auto
    hence s1: "svc_ok s1" "entry_count s1 = int (length entries)" using "2.prems"(2,3) by (simp_all add: svc_keeps_def)
    have perr: "svc_keeps s (SetParseError e1 s1)"
      using svc_keeps_trans [OF k svc_keeps_fields(5)] k by (simp add: SetParseError_def)
    show ?thesis
    proof (cases "IsEmpty s \<or> e1 = kWaiting \<or> IsError e1 \<or> unscheduled_count s1 > 0")
      case True
      thus ?thesis using Some r k perr by auto
    next
      case False
      have "case process_loop G entries n e1 s1 of
          None \<Rightarrow> \<exists>h \<in> set entries. \<not> known_command G (header_command h)
        | Some (Inl s') \<Rightarrow> svc_keeps s1 s' | Some (Inr (e', s')) \<Rightarrow> svc_keeps s1 s'"
        using "2.IH" [OF _ Some r [symmetric]] False "2.prems"(1) s1 r by auto
      thus ?thesis using False Some r svc_keeps_trans [OF k]
        by (auto split: option.splits sum.splits prod.splits)
    qed
  qed
qed simp

lemma ProcessCommands_result:
  assumes "gl_keeps G" "svc_ok s" "entry_count s = int (length entries)"
  shows "case ProcessCommands G entries s of
      None \<Rightarrow> \<exists>h \<in> set entries. \<not> known_command G (header_command h)
    | Some s' \<Rightarrow> svc_keeps s s'"
proof (cases "svc_error s = kNoError \<and> \<not> unscheduled_count s > 0")
  case False
  thus ?thesis by (auto simp: ProcessCommands_def)
next
  case True
  obtain c s1 where m: "gl_make_current G s = (c, s1)" by fastforce
  have k1: "svc_keeps s s1" using assms(1) m unfolding gl_keeps_def by (metis snd_conv)
  show ?thesis
  proof (cases c)
    case False
    thus ?thesis using True m k1 svc_keeps_trans [OF k1 svc_keeps_fields(5)]
      by (simp add: ProcessCommands_def SetParseError_def)
  next
    case current: True
    let ?s = "s1 \<lparr> parser_put := put_offset s \<rparr>"
    have k: "svc_keeps s ?s" by (rule svc_keeps_trans [OF k1 svc_keeps_fields(8)])
    hence ok: "svc_ok ?s" "entry_count ?s = int (length entries)" using assms(2,3) by (simp_all add: svc_keeps_def)
    note p = process_loop_result [OF assms(1) ok, of "commands_per_update s1" kNoError]
    show ?thesis
    proof (cases "process_loop G entries (commands_per_update s1) kNoError ?s")
      case None
      thus ?thesis using p True m current by (simp add: ProcessCommands_def)
    next
      case (Some r)
      show ?thesis
      proof (cases r)
        case (Inl s2)
        thus ?thesis using p Some True m current svc_keeps_trans [OF k] by (simp add: ProcessCommands_def)
      next
        case (Inr es)
        obtain e s2 where es: "es = (e, s2)" by fastforce
        have k2: "svc_keeps s (s2 \<lparr> get_offset := parser_get s2 \<rparr>)"
          using p Some Inr es svc_keeps_trans [OF svc_keeps_trans [OF k] svc_keeps_fields(6)] by simp
        show ?thesis using Some Inr es True m current k2 svc_keeps_trans [OF k2 svc_keeps_fields(9)]
          by (simp add: ProcessCommands_def Let_def)
      qed
    qed
  qed
qed

lemma svc_FlushSync_result:
  assumes "gl_keeps G" "svc_ok s" "entry_count s = int (length entries)"
  shows "case svc_FlushSync G put entries s of
      None \<Rightarrow> \<exists>h \<in> set entries. \<not> known_command G (header_command h)
    | Some (st, s') \<Rightarrow> svc_keeps s s' \<and> st = svc_GetState s'"
proof -
  let ?s = "s \<lparr> put_offset := put \<rparr>"
  have k: "svc_keeps s ?s" by (rule svc_keeps_fields)
  hence ok: "svc_ok ?s" "entry_count ?s = int (length entries)" using assms(2,3) by (simp_all add: svc_keeps_def)
  from ProcessCommands_result [OF assms(1) ok] svc_keeps_trans [OF k] show ?thesis
    by (auto simp: svc_FlushSync_def svc_keeps_fields Let_def split: option.splits)
qed

subsection \<open>A ring of no-ops\<close>

lemma header_noop: "header_size (make_header 0 1) = 1" "header_command (make_header 0 1) = 0"
  by (simp_all add: header_size_def header_command_def make_header_def)

lemma ProcessCommand_noop:
  assumes "0 \<le> parser_get s" "parser_get s < int n" "entry_count s = int n" "parser_put s = int n"
    and "current_decoder_error s = kNoError"
  shows "ProcessCommand G (replicate n (make_header 0 1)) s =
    Some (kNoError, s \<lparr> parser_get := (parser_get s + 1) mod int n \<rparr>)"
proof -
  have "DoCommand G 0 args s = Some (kNoError, s)" for args
    using assms(5) by (simp add: DoCommand_def kStartPoint_def DoCommonCommand_known g_command_info_def
        args_match_def handle_common_def)
  thus ?thesis using assms by (simp add: ProcessCommand_def Let_def vec_at_def header_noop [unfolded One_nat_def] nat_less_iff)
qed

lemma process_loop_noop:
  "0 \<le> parser_get s \<Longrightarrow> parser_get s < int n \<Longrightarrow> entry_count s = int n \<Longrightarrow> parser_put s = int n \<Longrightarrow>
   current_decoder_error s = kNoError \<Longrightarrow> unscheduled_count s \<le> 0 \<Longrightarrow>
   \<exists>g. 0 \<le> g \<and> g < int n \<and>
     process_loop G (replicate n (make_header 0 1)) k kNoError s = Some (Inr (kNoError, s \<lparr> parser_get := g \<rparr>))"
proof (induction k arbitrary: s)
  case 0
  thus ?case by (intro exI [of _ "parser_get s"]) simp
next
  case (Suc k)
  let ?s = "s \<lparr> parser_get := (parser_get s + 1) mod int n \<rparr>"
  have "0 < int n" using Suc.prems by linarith
  hence "\<exists>g. 0 \<le> g \<and> g < int n \<and>
      process_loop G (replicate n (make_header 0 1)) k kNoError ?s = Some (Inr (kNoError, ?s \<lparr> parser_get := g \<rparr>))"
    using Suc.prems by (intro Suc.IH) simp_all
  moreover have "\<not> IsEmpty s" using Suc.prems by (simp add: IsEmpty_def)
  ultimately show ?case using ProcessCommand_noop [OF Suc.prems(1-5)] Suc.prems(6) by (simp add: IsError_def)
qed

lemma ProcessCommands_noop:
  assumes "0 \<le> parser_get s" "parser_get s < int n" "entry_count s = int n" "put_offset s = int n"
    and "current_decoder_error s = kNoError" "unscheduled_count s = 0" "svc_error s = kNoError"
    and "gl_make_current G s = (True, s)"
  shows "\<exists>g. 0 \<le> g \<and> g < int n \<and> ProcessCommands G (replicate n (make_header 0 1)) s =
    Some (s \<lparr> parser_put := int n, parser_get := g, get_offset := g, scheduled_tasks := scheduled_tasks s + 1 \<rparr>)"
proof -
  obtain g where "0 \<le> g" "g < int n"
    "process_loop G (replicate n (make_header 0 1)) (commands_per_update s) kNoError (s \<lparr> parser_put := put_offset s \<rparr>) =
      Some (Inr (kNoError, s \<lparr> parser_put := put_offset s, parser_get := g \<rparr>))"
    using process_loop_noop [of "s \<lparr> parser_put := put_offset s \<rparr>" n G "commands_per_update s"] assms by auto
  thus ?thesis using assms
    by (intro exI [of _ g]) (simp add: ProcessCommands_def IsEmpty_def Let_def)
qed

text \<open>The runs of \<open>ProcessCommands\<close> that follow one another as posted tasks.\<close>

fun run_tasks :: "'d gl_lib \<Rightarrow> 32 word list \<Rightarrow> nat \<Rightarrow> 'd gpu \<Rightarrow> 'd gpu option" where
  "run_tasks G entries 0 s = Some s"
| "run_tasks G entries (Suc k) s =
    (case ProcessCommands G entries s of None \<Rightarrow> None | Some s \<Rightarrow> run_tasks G entries k s)"

lemma run_tasks_noop:
  "0 \<le> parser_get s \<Longrightarrow> parser_get s < int n \<Longrightarrow> entry_count s = int n \<Longrightarrow> put_offset s = int n \<Longrightarrow>
   current_decoder_error s = kNoError \<Longrightarrow> unscheduled_count s = 0 \<Longrightarrow> svc_error s = kNoError \<Longrightarrow>
   \<forall>s. gl_make_current G s = (True, s) \<Longrightarrow> 0 < k \<Longrightarrow>
   \<exists>s'. run_tasks G (replicate n (make_header 0 1)) k s = Some s' \<and> \<not> IsEmpty s' \<and>
     scheduled_tasks s' = scheduled_tasks s + k \<and> svc_error s' = kNoError"
proof (induction k arbitrary: s)
  case (Suc k)
  obtain g where g: "0 \<le> g" "g < int n" "ProcessCommands G (replicate n (make_header 0 1)) s =
      Some (s \<lparr> parser_put := int n, parser_get := g, get_offset := g, scheduled_tasks := scheduled_tasks s + 1 \<rparr>)"
    using ProcessCommands_noop [of s n G] Suc.prems by auto
  let ?s = "s \<lparr> parser_put := int n, parser_get := g, get_offset := g, scheduled_tasks := scheduled_tasks s + 1 \<rparr>"
  show ?case
  proof (cases "k = 0")
    case True
    thus ?thesis using g Suc.prems(7) by (simp add: IsEmpty_def)
  next
    case False
    hence "\<exists>s'. run_tasks G (replicate n (make_header 0 1)) k ?s = Some s' \<and> \<not> IsEmpty s' \<and>
        scheduled_tasks s' = scheduled_tasks ?s + k \<and> svc_error s' = kNoError"
      using Suc.prems g by (intro Suc.IH) simp_all
    thus ?thesis using g(3) by simp
  qed
qed simp

end
