(* ===== verification/CommandHelper.thy ===== *)
theory CommandHelper
  imports TokenSource GpuServiceSpec
begin

text \<open>
  \<open>CommandBufferHelper\<close> (\<open>src/gpu/command_buffer/client/cmd_buffer_helper.cc\<close>): the client's end
  of a command buffer. It owns the write side of the ring buffer, hands out contiguous space,
  wraps with a jump to entry zero, and waits for tokens and for space by flushing.

  The \<open>CommandBuffer\<close> the helper talks to is a \<open>command_buffer\<close>: its calls act on the world \<open>'w\<close>
  behind it and see the ring buffer as it is at the call. \<open>None\<close> is a stopped process (a failed
  \<open>GPU_CHECK\<close>, \<open>GPU_LOG(FATAL)\<close>, a division by zero, a write outside the ring buffer) or a call
  that never returns.
\<close>

record 'w command_buffer =
  cb_GetState :: "'w \<Rightarrow> cb_state \<times> 'w"
  cb_Flush :: "int \<Rightarrow> 32 word list \<Rightarrow> 'w \<Rightarrow> 'w option"
  cb_FlushSync :: "int \<Rightarrow> 32 word list \<Rightarrow> 'w \<Rightarrow> (cb_state \<times> 'w) option"

record 'w helper =
  ring :: "32 word list"
  total_entry_count :: int
  usable_entry_count :: int
  client_token :: int
  last_token_read :: int
  client_get :: int
  client_put :: int
  last_put_sent :: int
  world :: 'w

definition new_helper :: "'w \<Rightarrow> 'w helper" where
  "new_helper w =
    \<lparr> ring = [], total_entry_count = 0, usable_entry_count = 0, client_token = 0,
      last_token_read = -1, client_get = 0, client_put = 0, last_put_sent = 0, world = w \<rparr>"

definition SynchronizeState :: "cb_state \<Rightarrow> 'w helper \<Rightarrow> 'w helper" where
  "SynchronizeState state h = h \<lparr> client_get := st_get_offset state, last_token_read := st_token state \<rparr>"

definition kJumpEntries :: int where "kJumpEntries = 2"

text \<open>\<open>ring_memory\<close> is what \<open>GetRingBuffer\<close> returns. The division by \<open>sizeof\<close> is one of \<open>size_t\<close>.\<close>

definition helper_Initialize ::
  "'w command_buffer \<Rightarrow> 32 word list option \<Rightarrow> 32 word \<Rightarrow> 'w helper \<Rightarrow> bool \<times> 'w helper" where
  "helper_Initialize C ring_memory ring_buffer_size h =
    (case ring_memory of
       None \<Rightarrow> (False, h)
     | Some entries \<Rightarrow>
         let (state, w) = cb_GetState C (world h);
             h = h \<lparr> ring := entries, world := w \<rparr>;
             num_ring_buffer_entries = uint ring_buffer_size div 4
         in if num_ring_buffer_entries > st_num_entries state then (False, h)
            else (True, SynchronizeState state
                   (h \<lparr> total_entry_count := num_ring_buffer_entries,
                        usable_entry_count := num_ring_buffer_entries - kJumpEntries,
                        client_put := st_put_offset state \<rparr>)))"

definition helper_FlushSync :: "'w command_buffer \<Rightarrow> 'w helper \<Rightarrow> (bool \<times> 'w helper) option" where
  "helper_FlushSync C h = do {
     (state, w) \<leftarrow> cb_FlushSync C (client_put h) (ring h) (world h);
     Some (st_error state = kNoError,
           SynchronizeState state (h \<lparr> last_put_sent := client_put h, world := w \<rparr>)) }"

definition helper_Flush :: "'w command_buffer \<Rightarrow> 'w helper \<Rightarrow> 'w helper option" where
  "helper_Flush C h = do {
     w \<leftarrow> cb_Flush C (client_put h) (ring h) (world h);
     Some (h \<lparr> last_put_sent := client_put h, world := w \<rparr>) }"

partial_function (option) Finish :: "'w command_buffer \<Rightarrow> 'w helper \<Rightarrow> (bool \<times> 'w helper) option" where
  "Finish C h = do {
     (ok, h) \<leftarrow> helper_FlushSync C h;
     if \<not> ok then Some (False, h)
     else if client_put h \<noteq> client_get h then Finish C h
     else Some (True, h) }"

definition AvailableEntries :: "'w helper \<Rightarrow> int" where
  "AvailableEntries h =
    c_rem (client_get h - client_put h - 1 + usable_entry_count h) (usable_entry_count h)"

text \<open>Storing entries from a place of the ring buffer on.\<close>

definition write_entries :: "int \<Rightarrow> 32 word list \<Rightarrow> 'w helper \<Rightarrow> 'w helper option" where
  "write_entries place es h =
    (if 0 \<le> place \<and> nat place + length es \<le> length (ring h)
     then Some (h \<lparr> ring := overwrite (nat place) es (ring h) \<rparr>) else None)"

definition Jump_entries :: "32 word list" where "Jump_entries = [make_header 2 2, 0]"

subsection \<open>Waiting for space\<close>

text \<open>The loop that waits until the reader is neither in the part of the ring that is wrapped over
  nor at entry zero.\<close>

partial_function (option) wait_for_wrap :: "'w command_buffer \<Rightarrow> 'w helper \<Rightarrow> (bool \<times> 'w helper) option" where
  "wait_for_wrap C h =
    (if client_get h > client_put h \<or> client_get h = 0 then do {
       (ok, h) \<leftarrow> helper_FlushSync C h;
       if \<not> ok then Some (False, h) else wait_for_wrap C h }
     else Some (True, h))"

definition wrap_ring :: "'w command_buffer \<Rightarrow> int \<Rightarrow> 'w helper \<Rightarrow> (bool \<times> 'w helper) option" where
  "wrap_ring C needed h =
    (if client_put h + needed > usable_entry_count h then do {
       (ok, h) \<leftarrow> wait_for_wrap C h;
       if \<not> ok then Some (False, h)
       else do {
         h \<leftarrow> write_entries (client_put h) Jump_entries h;
         Some (True, h \<lparr> client_put := 0 \<rparr>) } }
     else Some (True, h))"

partial_function (option) wait_for_room ::
  "'w command_buffer \<Rightarrow> int \<Rightarrow> 'w helper \<Rightarrow> (bool \<times> 'w helper) option" where
  "wait_for_room C needed h =
    (if AvailableEntries h < needed then do {
       (ok, h) \<leftarrow> helper_FlushSync C h;
       if \<not> ok then Some (False, h) else wait_for_room C needed h }
     else Some (True, h))"

definition force_flush :: "'w command_buffer \<Rightarrow> 'w helper \<Rightarrow> 'w helper option" where
  "force_flush C h =
    (let pending = c_rem (client_put h + usable_entry_count h - last_put_sent h) (usable_entry_count h);
         limit = c_div (usable_entry_count h) (if client_get h = last_put_sent h then 16 else 2)
     in if pending > limit then helper_Flush C h else Some h)"

definition WaitForAvailableEntries :: "'w command_buffer \<Rightarrow> int \<Rightarrow> 'w helper \<Rightarrow> 'w helper option" where
  "WaitForAvailableEntries C needed h =
    (if \<not> needed < usable_entry_count h \<or> usable_entry_count h = 0 then None
     else do {
       (ok, h) \<leftarrow> wrap_ring C needed h;
       if \<not> ok then Some h
       else do {
         (ok, h) \<leftarrow> wait_for_room C needed h;
         if \<not> ok then Some h else force_flush C h } })"

text \<open>The space handed out is the offset of its first entry. The sum is one of unsigned integers,
  stored in a signed one.\<close>

definition GetSpace :: "'w command_buffer \<Rightarrow> 32 word \<Rightarrow> 'w helper \<Rightarrow> (int \<times> 'w helper) option" where
  "GetSpace C n h = do {
     h \<leftarrow> WaitForAvailableEntries C (sint n) h;
     let space = client_put h;
     let h = h \<lparr> client_put := to_int32 (client_put h + uint n) \<rparr>;
     if client_put h = usable_entry_count h then do {
       h \<leftarrow> write_entries (client_put h) Jump_entries h;
       Some (space, h \<lparr> client_put := 0 \<rparr>) }
     else Some (space, h) }"

subsection \<open>Tokens\<close>

text \<open>\<open>GetCmdSpace\<close> followed by the \<open>Init\<close> of a fixed size command.\<close>

definition put_command :: "'w command_buffer \<Rightarrow> nat \<Rightarrow> 32 word list \<Rightarrow> 'w helper \<Rightarrow> 'w helper option" where
  "put_command C command args h = do {
     (space, h) \<leftarrow> GetSpace C (of_nat (Suc (length args))) h;
     write_entries space (make_header command (Suc (length args)) # args) h }"

definition InsertToken :: "'w command_buffer \<Rightarrow> 'w helper \<Rightarrow> (int \<times> 'w helper) option" where
  "InsertToken C h = do {
     let h = h \<lparr> client_token := (client_token h + 1) mod 2 ^ 31 \<rparr>;
     h \<leftarrow> put_command C 1 [word_of_int (client_token h)] h;
     h \<leftarrow> (if client_token h = 0 then map_option snd (Finish C h) else Some h);
     Some (client_token h, h) }"

text \<open>The loop of \<open>WaitForToken\<close>. An empty command buffer logs a fatal error.\<close>

partial_function (option) wait_token :: "'w command_buffer \<Rightarrow> int \<Rightarrow> 'w helper \<Rightarrow> 'w helper option" where
  "wait_token C tok h =
    (if last_token_read h < tok then
       if client_get h = client_put h then None
       else do {
         (ok, h) \<leftarrow> helper_FlushSync C h;
         if \<not> ok then Some h else wait_token C tok h }
     else Some h)"

definition WaitForToken :: "'w command_buffer \<Rightarrow> int \<Rightarrow> 'w helper \<Rightarrow> 'w helper option" where
  "WaitForToken C tok h =
    (if tok < 0 then Some h else if tok > client_token h then Some h else wait_token C tok h)"

definition helper_GetError :: "'w command_buffer \<Rightarrow> 'w helper \<Rightarrow> gpu_error \<times> 'w helper" where
  "helper_GetError C h =
    (let (state, w) = cb_GetState C (world h)
     in (st_error state, SynchronizeState state (h \<lparr> world := w \<rparr>)))"

subsection \<open>The common commands\<close>

definition cmd_SetToken :: "'w command_buffer \<Rightarrow> 32 word \<Rightarrow> 'w helper \<Rightarrow> 'w helper option" where
  "cmd_SetToken C tok = put_command C 1 [tok]"

definition cmd_Jump :: "'w command_buffer \<Rightarrow> 32 word \<Rightarrow> 'w helper \<Rightarrow> 'w helper option" where
  "cmd_Jump C offset = put_command C 2 [offset]"

definition cmd_JumpRelative :: "'w command_buffer \<Rightarrow> 32 word \<Rightarrow> 'w helper \<Rightarrow> 'w helper option" where
  "cmd_JumpRelative C offset = put_command C 3 [offset]"

definition cmd_Call :: "'w command_buffer \<Rightarrow> 32 word \<Rightarrow> 'w helper \<Rightarrow> 'w helper option" where
  "cmd_Call C offset = put_command C 4 [offset]"

definition cmd_CallRelative :: "'w command_buffer \<Rightarrow> 32 word \<Rightarrow> 'w helper \<Rightarrow> 'w helper option" where
  "cmd_CallRelative C offset = put_command C 5 [offset]"

definition cmd_Return :: "'w command_buffer \<Rightarrow> 'w helper \<Rightarrow> 'w helper option" where
  "cmd_Return C = put_command C 6 []"

definition cmd_SetBucketSize :: "'w command_buffer \<Rightarrow> 32 word \<Rightarrow> 32 word \<Rightarrow> 'w helper \<Rightarrow> 'w helper option" where
  "cmd_SetBucketSize C bucket_id sz = put_command C 7 [bucket_id, sz]"

definition cmd_SetBucketData ::
  "'w command_buffer \<Rightarrow> 32 word \<Rightarrow> 32 word \<Rightarrow> 32 word \<Rightarrow> 32 word \<Rightarrow> 32 word \<Rightarrow> 'w helper \<Rightarrow> 'w helper option" where
  "cmd_SetBucketData C bucket_id offset sz shm_id shm_offset =
    put_command C 8 [bucket_id, offset, sz, shm_id, shm_offset]"

definition cmd_GetBucketSize ::
  "'w command_buffer \<Rightarrow> 32 word \<Rightarrow> 32 word \<Rightarrow> 32 word \<Rightarrow> 'w helper \<Rightarrow> 'w helper option" where
  "cmd_GetBucketSize C bucket_id shm_id shm_offset = put_command C 10 [bucket_id, shm_id, shm_offset]"

definition cmd_GetBucketData ::
  "'w command_buffer \<Rightarrow> 32 word \<Rightarrow> 32 word \<Rightarrow> 32 word \<Rightarrow> 32 word \<Rightarrow> 32 word \<Rightarrow> 'w helper \<Rightarrow> 'w helper option" where
  "cmd_GetBucketData C bucket_id offset sz shm_id shm_offset =
    put_command C 11 [bucket_id, offset, sz, shm_id, shm_offset]"

text \<open>\<open>Noop\<close> reserves one entry more than its header says. The skipped entries are not written.\<close>

definition cmd_Noop :: "'w command_buffer \<Rightarrow> 32 word \<Rightarrow> 'w helper \<Rightarrow> 'w helper option" where
  "cmd_Noop C skip_count h = do {
     (space, h) \<leftarrow> GetSpace C (drop_bit 2 (4 + skip_count * 4 + 3)) h;
     write_entries space [make_header 0 (unat skip_count)] h }"

text \<open>\<open>memcpy\<close> over entries: the last entry keeps the bytes that are not overwritten.\<close>

fun memcpy_entries :: "8 word list \<Rightarrow> 32 word list \<Rightarrow> 32 word list" where
  "memcpy_entries bs [] = []"
| "memcpy_entries bs (w # ws) =
    (if bs = [] then w # ws
     else word_of_bytes (take 4 bs @ drop (length bs) (bytes_of_word w)) # memcpy_entries (drop 4 bs) ws)"

definition cmd_SetBucketDataImmediate ::
  "'w command_buffer \<Rightarrow> 32 word \<Rightarrow> 32 word \<Rightarrow> 8 word list \<Rightarrow> 'w helper \<Rightarrow> 'w helper option" where
  "cmd_SetBucketDataImmediate C bucket_id offset data h = do {
     let n = (16 + length data + 3) div 4;
     (space, h) \<leftarrow> GetSpace C (of_nat n) h;
     h \<leftarrow> write_entries space [make_header 9 n, bucket_id, offset, of_nat (length data)] h;
     write_entries (space + 4)
       (memcpy_entries data (take (n - 4) (drop (nat space + 4) (ring h)))) h }"

end
