(* ===== verification/CommandHelperSpec.thy ===== *)
theory CommandHelperSpec
  imports CommandHelper
begin

text \<open>
  What \<open>CommandBufferHelper\<close> gives its callers, proved over two interfaces of the command buffer
  behind it: \<open>command_reader\<close>, whose synchronous flush returns the state it ends in, and
  \<open>ring_reader\<close>, whose get offset stays inside the ring. Both are interpreted on the model of
  \<open>CommandBufferService\<close>; waiting for a token is the \<open>token_laws\<close> of the allocators.
\<close>

subsection \<open>Tokens\<close>

definition reader_failed :: "'w command_buffer \<Rightarrow> 'w helper \<Rightarrow> bool" where
  "reader_failed C h \<longleftrightarrow> st_error (fst (cb_GetState C (world h))) \<noteq> kNoError"

text \<open>A token has passed when it was read, when it is not one of the tokens in use, or when the
  reader has stopped.\<close>

definition token_passed :: "'w command_buffer \<Rightarrow> int \<Rightarrow> 'w helper \<Rightarrow> bool" where
  "token_passed C t h \<longleftrightarrow> t < 0 \<or> client_token h < t \<or> t \<le> last_token_read h \<or> reader_failed C h"

definition helper_tokens :: "'w command_buffer \<Rightarrow> 'w helper token_source" where
  "helper_tokens C = \<lparr> wait_for_token = WaitForToken C, last_read = last_token_read \<rparr>"

lemma bind_option_cong_fst: "x = Some y \<Longrightarrow> Option.bind x f = f y"
  by simp

text \<open>What a flush leaves alone.\<close>

definition same_client :: "'w helper \<Rightarrow> 'w helper \<Rightarrow> bool" where
  "same_client h h' \<longleftrightarrow> ring h' = ring h \<and> client_put h' = client_put h \<and> client_token h' = client_token h \<and>
     total_entry_count h' = total_entry_count h \<and> usable_entry_count h' = usable_entry_count h"

lemma same_client_refl [simp]: "same_client h h"
  by (simp add: same_client_def)

lemma same_client_trans: "same_client h h1 \<Longrightarrow> same_client h1 h2 \<Longrightarrow> same_client h h2"
  by (simp add: same_client_def)

lemma helper_FlushSync_fields:
  "helper_FlushSync C h = Some (ok, h') \<Longrightarrow> same_client h h' \<and> last_put_sent h' = client_put h"
  by (auto simp: helper_FlushSync_def SynchronizeState_def same_client_def bind_eq_Some_conv)

locale command_reader =
  fixes C :: "'w command_buffer"
  assumes flush_state: "cb_FlushSync C put entries w = Some (state, w') \<Longrightarrow> fst (cb_GetState C w') = state"
begin

lemma FlushSync_failed: "helper_FlushSync C h = Some (False, h') \<Longrightarrow> reader_failed C h'"
  by (auto simp: helper_FlushSync_def SynchronizeState_def reader_failed_def bind_eq_Some_conv dest: flush_state)

lemma FlushSync_synchronized:
  "helper_FlushSync C h = Some (ok, h') \<Longrightarrow> client_get h' = st_get_offset (fst (cb_GetState C (world h')))"
  by (auto simp: helper_FlushSync_def SynchronizeState_def bind_eq_Some_conv dest: flush_state)

lemma wait_token_passed:
  assumes "wait_token C t h = Some h'"
  shows "t \<le> last_token_read h' \<or> reader_failed C h'"
proof (rule wait_token.raw_induct [where P = "\<lambda>C' t h h'. C' = C \<longrightarrow> t \<le> last_token_read h' \<or> reader_failed C h'",
      OF _ assms, THEN mp, OF _ refl])
  fix f C' t h h'
  assume IH: "\<And>C' t h h'. f C' t h = Some h' \<Longrightarrow> C' = C \<longrightarrow> t \<le> last_token_read h' \<or> reader_failed C h'"
    and eq: "(if last_token_read h < t then
       if client_get h = client_put h then None
       else do { (ok, h) \<leftarrow> helper_FlushSync C' h; if \<not> ok then Some h else f C' t h }
     else Some h) = Some h'"
  show "C' = C \<longrightarrow> t \<le> last_token_read h' \<or> reader_failed C h'"
    using eq IH [of C' t _ h'] FlushSync_failed
    by (auto simp: bind_eq_Some_conv split: if_splits)
qed

lemma WaitForToken_passed: "WaitForToken C t h = Some h' \<Longrightarrow> token_passed C t h'"
  using wait_token_passed [of t h h'] by (auto simp: WaitForToken_def token_passed_def split: if_splits)

end

sublocale command_reader \<subseteq> token_laws "helper_tokens C" "token_passed C"
  by unfold_locales (auto simp: helper_tokens_def token_passed_def dest: WaitForToken_passed)

subsection \<open>Space\<close>

text \<open>The entries from \<open>get\<close> on and before \<open>put\<close>, around the end of the ring.\<close>

definition in_flight :: "int \<Rightarrow> int \<Rightarrow> int \<Rightarrow> bool" where
  "in_flight get put i \<longleftrightarrow> (if get \<le> put then get \<le> i \<and> i < put else get \<le> i \<or> i < put)"

definition ring_ok :: "'w helper \<Rightarrow> bool" where
  "ring_ok h \<longleftrightarrow> 0 < usable_entry_count h \<and> usable_entry_count h + kJumpEntries = total_entry_count h \<and>
     total_entry_count h \<le> int (length (ring h)) \<and> total_entry_count h < 2 ^ 30 \<and>
     0 \<le> client_put h \<and> client_put h < usable_entry_count h"

lemma AvailableEntries_straight:
  "ring_ok h \<Longrightarrow> 0 \<le> client_get h \<Longrightarrow> client_get h \<le> client_put h \<Longrightarrow>
    AvailableEntries h = client_get h - client_put h - 1 + usable_entry_count h"
  by (simp add: AvailableEntries_def ring_ok_def c_rem_nonneg del: mod_add_self2)

lemma AvailableEntries_wrapped:
  assumes "ring_ok h" "client_get h > client_put h"
  shows "AvailableEntries h \<le> client_get h - client_put h - 1"
proof -
  let ?u = "usable_entry_count h"
  have "AvailableEntries h = (client_get h - client_put h - 1 + ?u) mod ?u"
    using assms by (simp add: AvailableEntries_def c_rem_nonneg ring_ok_def)
  also have "\<dots> = (client_get h - client_put h - 1) mod ?u" by simp
  also have "\<dots> \<le> client_get h - client_put h - 1" using assms(2) by (intro zmod_le_nonneg_dividend) simp
  finally show ?thesis .
qed

lemma AvailableEntries_room:
  assumes "ring_ok h" "n \<le> AvailableEntries h" "client_put h \<le> i" "i < client_put h + n"
  shows "\<not> in_flight (client_get h) (client_put h) i"
  using assms AvailableEntries_wrapped [of h] by (auto simp: in_flight_def)

lemma write_entries_fields:
  "write_entries p es h = Some h' \<Longrightarrow> h' = h \<lparr> ring := overwrite (nat p) es (ring h) \<rparr> \<and>
    length (ring h') = length (ring h)"
  by (auto simp: write_entries_def overwrite_def split: if_splits)

definition helper_ok :: "(nat \<Rightarrow> 'w \<Rightarrow> bool) \<Rightarrow> 'w helper \<Rightarrow> bool" where
  "helper_ok good h \<longleftrightarrow> ring_ok h \<and> good (length (ring h)) (world h) \<and>
     0 \<le> client_get h \<and> client_get h < int (length (ring h))"

lemma to_int32_id: "0 \<le> x \<Longrightarrow> x < 2 ^ 31 \<Longrightarrow> to_int32 x = x"
  by (simp add: to_int32_def sint_sbintrunc' signed_take_bit_int_eq_self)

lemma entry_count_word:
  assumes "int k < 2 ^ 31"
  shows "sint (of_nat k :: 32 word) = int k" "uint (of_nat k :: 32 word) = int k"
  using assms by (simp_all add: signed_of_nat unsigned_of_nat signed_take_bit_int_eq_self take_bit_nat_eq_self)

locale ring_reader = command_reader +
  fixes good :: "nat \<Rightarrow> 'a \<Rightarrow> bool"
  assumes get_inside: "good n w \<Longrightarrow> 0 \<le> st_get_offset (fst (cb_GetState C w)) \<and>
      st_get_offset (fst (cb_GetState C w)) < int n"
    and good_FlushSync: "good (length entries) w \<Longrightarrow> cb_FlushSync C put entries w = Some (state, w') \<Longrightarrow>
      good (length entries) w'"
    and good_Flush: "good (length entries) w \<Longrightarrow> cb_Flush C put entries w = Some w' \<Longrightarrow> good (length entries) w'"
begin

lemma FlushSync_ok:
  assumes "helper_ok good h" "helper_FlushSync C h = Some (ok, h')"
  shows "helper_ok good h'"
proof -
  obtain state w where f: "cb_FlushSync C (client_put h) (ring h) (world h) = Some (state, w)"
    "h' = SynchronizeState state (h \<lparr> last_put_sent := client_put h, world := w \<rparr>)"
    using assms(2) by (auto simp: helper_FlushSync_def bind_eq_Some_conv)
  have "good (length (ring h)) w" using good_FlushSync [OF _ f(1)] assms(1) by (simp add: helper_ok_def)
  thus ?thesis using get_inside [of "length (ring h)" w] flush_state [OF f(1)] assms(1) f(2)
    by (simp add: helper_ok_def ring_ok_def SynchronizeState_def)
qed

text \<open>What holds after a loop that flushes until \<open>D\<close> holds or a flush fails.\<close>

definition flushed_until :: "('a helper \<Rightarrow> bool) \<Rightarrow> 'a helper \<Rightarrow> bool \<times> 'a helper \<Rightarrow> bool" where
  "flushed_until D h r \<longleftrightarrow> (helper_ok good h \<longrightarrow> helper_ok good (snd r)) \<and> same_client h (snd r) \<and>
     (if fst r then D (snd r) else reader_failed C (snd r))"

lemma flushed_until_step:
  assumes "helper_FlushSync C h = Some (ok, h1)"
  shows "\<not> ok \<Longrightarrow> flushed_until D h (False, h1)" "flushed_until D h1 r \<Longrightarrow> flushed_until D h r"
  using assms FlushSync_ok [of h ok h1] helper_FlushSync_fields [OF assms] FlushSync_failed [of h h1]
  by (auto simp: flushed_until_def intro: same_client_trans)

lemma flushed_until_loop:
  assumes "do { (ok, h) \<leftarrow> helper_FlushSync C h; if \<not> ok then Some (False, h) else g h } = Some r"
    and "\<And>h1. g h1 = Some r \<Longrightarrow> flushed_until D h1 r"
  shows "flushed_until D h r"
proof -
  obtain ok h1 where f: "helper_FlushSync C h = Some (ok, h1)" using assms(1) by (auto simp: bind_eq_Some_conv)
  show ?thesis using flushed_until_step [OF f, of D] assms f by (cases ok) auto
qed

lemma wait_for_wrap_until:
  assumes "wait_for_wrap C h = Some r"
  shows "flushed_until (\<lambda>h. client_get h \<le> client_put h \<and> client_get h \<noteq> 0) h r"
proof (rule wait_for_wrap.raw_induct [where P = "\<lambda>C' h r. C' = C \<longrightarrow>
      flushed_until (\<lambda>h. client_get h \<le> client_put h \<and> client_get h \<noteq> 0) h r", OF _ assms, THEN mp, OF _ refl])
  fix f C' h r
  assume IH: "\<And>C' h r. f C' h = Some r \<Longrightarrow> C' = C \<longrightarrow>
      flushed_until (\<lambda>h. client_get h \<le> client_put h \<and> client_get h \<noteq> 0) h r"
    and eq: "(if client_get h > client_put h \<or> client_get h = 0 then do {
       (ok, h) \<leftarrow> helper_FlushSync C' h; if \<not> ok then Some (False, h) else f C' h }
     else Some (True, h)) = Some r"
  show "C' = C \<longrightarrow> flushed_until (\<lambda>h. client_get h \<le> client_put h \<and> client_get h \<noteq> 0) h r"
  proof (cases "client_get h > client_put h \<or> client_get h = 0")
    case True
    show ?thesis
    proof (rule impI, rule flushed_until_loop [where g = "f C"])
      assume "C' = C"
      thus "do { (ok, h) \<leftarrow> helper_FlushSync C h; if \<not> ok then Some (False, h) else f C h } = Some r"
        using eq True by (simp cong: if_cong)
    qed (use IH in blast)
  next
    case False
    hence "r = (True, h)" using eq by auto
    thus ?thesis using False by (simp add: flushed_until_def)
  qed
qed

lemma wait_for_room_until:
  assumes "wait_for_room C n h = Some r"
  shows "flushed_until (\<lambda>h. n \<le> AvailableEntries h) h r"
proof (rule wait_for_room.raw_induct [where P = "\<lambda>C' n h r. C' = C \<longrightarrow>
      flushed_until (\<lambda>h. n \<le> AvailableEntries h) h r", OF _ assms, THEN mp, OF _ refl])
  fix f C' n h r
  assume IH: "\<And>C' n h r. f C' n h = Some r \<Longrightarrow> C' = C \<longrightarrow> flushed_until (\<lambda>h. n \<le> AvailableEntries h) h r"
    and eq: "(if AvailableEntries h < n then do {
       (ok, h) \<leftarrow> helper_FlushSync C' h; if \<not> ok then Some (False, h) else f C' n h }
     else Some (True, h)) = Some r"
  show "C' = C \<longrightarrow> flushed_until (\<lambda>h. n \<le> AvailableEntries h) h r"
  proof (cases "AvailableEntries h < n")
    case True
    show ?thesis
    proof (rule impI, rule flushed_until_loop [where g = "f C n"])
      assume "C' = C"
      thus "do { (ok, h) \<leftarrow> helper_FlushSync C h; if \<not> ok then Some (False, h) else f C n h } = Some r"
        using eq True by (simp cong: if_cong)
    qed (use IH in blast)
  next
    case False
    hence "r = (True, h)" using eq by auto
    thus ?thesis using False by (simp add: flushed_until_def)
  qed
qed

lemma wrap_ring_result:
  assumes "wrap_ring C n h = Some (ok, h')" "helper_ok good h" "n < usable_entry_count h"
  shows "(\<not> ok \<and> reader_failed C h') \<or>
    (ok \<and> helper_ok good h' \<and> client_put h' + n \<le> usable_entry_count h' \<and> usable_entry_count h' = usable_entry_count h)"
proof (cases "client_put h + n > usable_entry_count h")
  case False
  thus ?thesis using assms by (simp add: wrap_ring_def)
next
  case True
  obtain ok1 h1 where w: "wait_for_wrap C h = Some (ok1, h1)"
    using assms(1) True by (auto simp: wrap_ring_def bind_eq_Some_conv)
  note u = wait_for_wrap_until [OF w, unfolded flushed_until_def same_client_def]
  show ?thesis
  proof (cases ok1)
    case False
    thus ?thesis using u w assms(1) True by (simp add: wrap_ring_def)
  next
    case ok1: True
    obtain h2 where h2: "write_entries (client_put h1) Jump_entries h1 = Some h2" "ok" "h' = h2 \<lparr> client_put := 0 \<rparr>"
      using assms(1) True w ok1 by (auto simp: wrap_ring_def bind_eq_Some_conv)
    from write_entries_fields [OF h2(1)] u ok1 assms(2,3) h2(2,3) show ?thesis
      by (auto simp: helper_ok_def ring_ok_def)
  qed
qed

lemma force_flush_result:
  assumes "force_flush C h = Some h'" "helper_ok good h"
  shows "helper_ok good h' \<and> same_client h h' \<and> client_get h' = client_get h"
  using assms good_Flush [of "ring h" "world h" "client_put h"]
  by (auto simp: force_flush_def helper_Flush_def helper_ok_def ring_ok_def same_client_def Let_def
      bind_eq_Some_conv split: if_splits)

lemma WaitForAvailableEntries_result:
  assumes "WaitForAvailableEntries C n h = Some h'" "helper_ok good h"
  shows "reader_failed C h' \<or> (helper_ok good h' \<and> n \<le> AvailableEntries h' \<and> client_put h' + n \<le> usable_entry_count h')"
proof -
  have n: "n < usable_entry_count h" using assms(1) by (auto simp: WaitForAvailableEntries_def split: if_splits)
  obtain ok1 h1 where w: "wrap_ring C n h = Some (ok1, h1)"
    using assms(1) by (auto simp: WaitForAvailableEntries_def bind_eq_Some_conv split: if_splits)
  note w' = wrap_ring_result [OF w assms(2) n]
  show ?thesis
  proof (cases ok1)
    case False
    thus ?thesis using w w' assms(1) by (auto simp: WaitForAvailableEntries_def split: if_splits)
  next
    case ok1: True
    obtain ok2 h2 where r: "wait_for_room C n h1 = Some (ok2, h2)"
      using assms(1) w ok1 by (auto simp: WaitForAvailableEntries_def bind_eq_Some_conv split: if_splits)
    note u = wait_for_room_until [OF r, unfolded flushed_until_def]
    show ?thesis
    proof (cases ok2)
      case False
      thus ?thesis using w ok1 r u assms(1) by (auto simp: WaitForAvailableEntries_def split: if_splits)
    next
      case True
      hence "force_flush C h2 = Some h'"
        using w ok1 r assms(1) by (auto simp: WaitForAvailableEntries_def split: if_splits)
      from force_flush_result [OF this] u w' True ok1 show ?thesis
        by (auto simp: same_client_def AvailableEntries_def)
    qed
  qed
qed

lemma GetSpace_result:
  assumes "GetSpace C n h = Some (space, h')" "helper_ok good h" "0 \<le> sint n"
  shows "reader_failed C h' \<or>
    (helper_ok good h' \<and> 0 \<le> space \<and> space + uint n \<le> usable_entry_count h' \<and>
     (\<forall>i. space \<le> i \<and> i < space + uint n \<longrightarrow> \<not> in_flight (client_get h') space i))"
proof -
  note n = sint_nonneg [OF assms(3)]
  obtain h1 where w: "WaitForAvailableEntries C (uint n) h = Some h1"
    using assms(1) n by (auto simp: GetSpace_def bind_eq_Some_conv)
  define h2 where "h2 = h1 \<lparr> client_put := to_int32 (client_put h1 + uint n) \<rparr>"
  have space: "space = client_put h1" and world: "world h' = world h1" and get: "client_get h' = client_get h1"
    using assms(1) w n by (auto simp: GetSpace_def Let_def bind_eq_Some_conv write_entries_def split: if_splits)
  show ?thesis
  proof (cases "reader_failed C h1")
    case True
    thus ?thesis using world by (simp add: reader_failed_def)
  next
    case False
    hence r: "helper_ok good h1" "uint n \<le> AvailableEntries h1" "client_put h1 + uint n \<le> usable_entry_count h1"
      using WaitForAvailableEntries_result [OF w assms(2)] by auto
    have put: "to_int32 (client_put h1 + uint n) = client_put h1 + uint n"
      by (rule to_int32_id) (use r in \<open>auto simp: helper_ok_def ring_ok_def kJumpEntries_def\<close>)
    have h': "helper_ok good h' \<and> usable_entry_count h' = usable_entry_count h1"
    proof (cases "client_put h1 + uint n = usable_entry_count h1")
      case True
      then obtain h3 where h3: "write_entries (client_put h1 + uint n) Jump_entries (h1 \<lparr> client_put := client_put h1 + uint n \<rparr>) = Some h3"
        "h' = h3 \<lparr> client_put := 0 \<rparr>"
        using assms(1) w n put by (auto simp: GetSpace_def Let_def bind_eq_Some_conv)
      thus ?thesis using write_entries_fields [OF h3(1)] r(1) by (auto simp: helper_ok_def ring_ok_def)
    next
      case False
      hence "h' = h1 \<lparr> client_put := client_put h1 + uint n \<rparr>"
        using assms(1) w n put by (auto simp: GetSpace_def Let_def)
      thus ?thesis using r False by (auto simp: helper_ok_def ring_ok_def)
    qed
    have "\<not> in_flight (client_get h1) (client_put h1) i" if "client_put h1 \<le> i" "i < client_put h1 + uint n" for i
      using AvailableEntries_room [of h1 "uint n" i] r that by (simp add: helper_ok_def)
    thus ?thesis using h' r space get by (auto simp: helper_ok_def ring_ok_def)
  qed
qed

end

subsection \<open>The service behind the helper\<close>

definition service_buffer :: "'d gl_lib \<Rightarrow> 'd gpu command_buffer" where
  "service_buffer G = \<lparr> cb_GetState = (\<lambda>s. (svc_GetState s, s)), cb_Flush = svc_Flush G, cb_FlushSync = svc_FlushSync G \<rparr>"

definition service_good :: "'d gl_lib \<Rightarrow> nat \<Rightarrow> 'd gpu \<Rightarrow> bool" where
  "service_good G n s \<longleftrightarrow> gl_keeps G \<and> svc_ok s \<and> entry_count s = int n"

lemma service_good_FlushSync:
  "service_good G (length entries) s \<Longrightarrow> svc_FlushSync G put entries s = Some (state, s') \<Longrightarrow>
    service_good G (length entries) s'"
  using svc_FlushSync_result [of G s entries put] by (simp add: service_good_def svc_keeps_def)

lemma svc_FlushSync_state: "svc_FlushSync G put entries s = Some (state, s') \<Longrightarrow> state = svc_GetState s'"
  by (auto simp: svc_FlushSync_def Let_def split: if_splits option.splits)

interpretation svc: ring_reader "service_buffer G" "service_good G" for G
proof
  fix put entries w state w'
  assume "cb_FlushSync (service_buffer G) put entries w = Some (state, w')"
  thus "fst (cb_GetState (service_buffer G) w') = state"
    by (auto simp: service_buffer_def dest: svc_FlushSync_state)
next
  fix n w assume "service_good G n w"
  thus "0 \<le> st_get_offset (fst (cb_GetState (service_buffer G) w)) \<and>
      st_get_offset (fst (cb_GetState (service_buffer G) w)) < int n"
    by (simp add: service_good_def service_buffer_def svc_GetState_def svc_ok_def)
next
  fix entries w put state w'
  assume "service_good G (length entries) w" "cb_FlushSync (service_buffer G) put entries w = Some (state, w')"
  thus "service_good G (length entries) w'"
    using service_good_FlushSync [of G entries w put state w'] by (simp add: service_buffer_def)
next
  fix entries w put w'
  assume "service_good G (length entries) w" "cb_Flush (service_buffer G) put entries w = Some w'"
  thus "service_good G (length entries) w'"
    using service_good_FlushSync [of G entries w put _ w'] by (auto simp: service_buffer_def svc_Flush_def)
qed

end
