(* ===== verification/CommandStream.thy ===== *)
theory CommandStream
  imports CommandHelperSpec
begin

text \<open>
  The ring buffer between \<open>CommandBufferHelper\<close> and the service is a queue of commands. The
  entries from the get offset to the put offset spell out the commands that wait, with at most one
  jump to entry zero among them; the client writes only past the put offset, so nothing that
  waits is changed, and the service executes the commands in the order they were issued.

  A command here is its number and its arguments. The commands of a stream are the common
  ones that do not move the get offset.
\<close>

type_synonym cmd = "nat \<times> 32 word list"

definition enc :: "cmd \<Rightarrow> 32 word list" where
  "enc x = make_header (fst x) (Suc (length (snd x))) # snd x"

definition jump0 :: cmd where "jump0 = (2, [0])"

definition plain :: "cmd \<Rightarrow> bool" where
  "plain x \<longleftrightarrow> fst x \<in> {0, 1, 7, 8, 9, 10, 11} \<and> args_match (g_command_info ! fst x) (length (snd x)) \<and>
     Suc (length (snd x)) < 2 ^ 21"

lemma enc_jump0: "enc jump0 = Jump_entries"
  by (simp add: enc_def jump0_def Jump_entries_def eval_nat_numeral)

lemma jump0_not_plain [simp]: "\<not> plain jump0"
  by (simp add: plain_def jump0_def)

lemma length_enc [simp]: "length (enc x) = Suc (length (snd x))"
  by (simp add: enc_def)

lemma mask21: "(0x1fffff :: 32 word) = mask 21"
  by (simp add: mask_eq_exp_minus_1)

lemma header_of_make:
  assumes "c < 2 ^ 11" "n < 2 ^ 21"
  shows "header_size (make_header c n) = n" "header_command (make_header c n) = c"
proof -
  have "make_header c n AND 0x1fffff = take_bit 21 (of_nat n)"
    unfolding make_header_def mask21 take_bit_eq_mask [symmetric]
    by (simp add: take_bit_push_bit)
  moreover have "unat (take_bit 21 (of_nat n :: 32 word)) = n"
    using assms(2) by (simp add: unsigned_take_bit_eq unsigned_of_nat take_bit_nat_eq_self)
  ultimately show "header_size (make_header c n) = n" by (simp add: header_size_def)
  have "drop_bit 21 (make_header c n) = drop_bit 21 (push_bit 21 (of_nat c))"
    unfolding make_header_def mask21 take_bit_eq_mask [symmetric]
    by (simp add: drop_bit_take_bit)
  also have "\<dots> = take_bit 11 (of_nat c :: 32 word)"
    by (rule bit_word_eqI) (auto simp: bit_simps)
  finally show "header_command (make_header c n) = c"
    using assms(1) by (simp add: header_command_def unsigned_take_bit_eq unsigned_of_nat take_bit_nat_eq_self)
qed
subsection \<open>The control fields of the service\<close>

text \<open>The fields that only say where the service is in the ring.\<close>

definition at_ring :: "int \<Rightarrow> int \<Rightarrow> int \<Rightarrow> int \<Rightarrow> nat \<Rightarrow> 'd gpu \<Rightarrow> 'd gpu" where
  "at_ring g pp go po n t = t \<lparr> parser_get := g, parser_put := pp, get_offset := go, put_offset := po, scheduled_tasks := n \<rparr>"

lemma at_ring_simps [simp]:
  "parser_get (at_ring g pp go po n t) = g" "parser_put (at_ring g pp go po n t) = pp"
  "get_offset (at_ring g pp go po n t) = go" "put_offset (at_ring g pp go po n t) = po"
  "scheduled_tasks (at_ring g pp go po n t) = n"
  "registered_objects (at_ring g pp go po n t) = registered_objects t"
  "entry_count (at_ring g pp go po n t) = entry_count t"
  "num_entries (at_ring g pp go po n t) = num_entries t"
  "svc_error (at_ring g pp go po n t) = svc_error t"
  "svc_token (at_ring g pp go po n t) = svc_token t"
  "buckets (at_ring g pp go po n t) = buckets t"
  "unscheduled_count (at_ring g pp go po n t) = unscheduled_count t"
  "commands_per_update (at_ring g pp go po n t) = commands_per_update t"
  "current_decoder_error (at_ring g pp go po n t) = current_decoder_error t"
  by (simp_all add: at_ring_def)

lemma at_ring_updates:
  "(at_ring g pp go po n t) \<lparr> parser_get := g' \<rparr> = at_ring g' pp go po n t"
  "(at_ring g pp go po n t) \<lparr> parser_put := pp' \<rparr> = at_ring g pp' go po n t"
  "(at_ring g pp go po n t) \<lparr> get_offset := go' \<rparr> = at_ring g pp go' po n t"
  "(at_ring g pp go po n t) \<lparr> put_offset := po' \<rparr> = at_ring g pp go po' n t"
  "(at_ring g pp go po n t) \<lparr> scheduled_tasks := n' \<rparr> = at_ring g pp go po n' t"
  "(at_ring g pp go po n t) \<lparr> buckets := b \<rparr> = at_ring g pp go po n (t \<lparr> buckets := b \<rparr>)"
  "(at_ring g pp go po n t) \<lparr> svc_token := k \<rparr> = at_ring g pp go po n (t \<lparr> svc_token := k \<rparr>)"
  "(at_ring g pp go po n t) \<lparr> registered_objects := r \<rparr> = at_ring g pp go po n (t \<lparr> registered_objects := r \<rparr>)"
  by (simp_all add: at_ring_def)

lemma at_ring_handle:
  assumes "plain (c, args)"
  shows "handle_common c args (at_ring g pp go po n t) = apsnd (at_ring g pp go po n) (handle_common c args t)"
proof -
  have g: "GetTransferBuffer h (at_ring g pp go po n t) = GetTransferBuffer h t" for h
    by (simp add: GetTransferBuffer_def)
  have w: "write_shm a bs (at_ring g pp go po n t) = at_ring g pp go po n (write_shm a bs t)" for a bs
    by (simp add: write_shm_def g at_ring_updates split: option.splits)
  have r: "read_shm a k (at_ring g pp go po n t) = read_shm a k t" for a k
    by (simp add: read_shm_def g)
  have a: "GetAddressAndCheckSize i off sz (at_ring g pp go po n t) = GetAddressAndCheckSize i off sz t" for i off sz
    by (simp add: GetAddressAndCheckSize_def g)
  have f: "fill_bucket b src off sz (at_ring g pp go po n t) = apsnd (at_ring g pp go po n) (fill_bucket b src off sz t)" for b src off sz
    by (simp add: fill_bucket_def at_ring_updates split: option.splits)
  from assms show ?thesis
    unfolding plain_def handle_common_def
    by (auto simp: HandleSetToken_def set_token_def HandleSetBucketSize_def CreateBucket_def HandleSetBucketData_def
        HandleSetBucketDataImmediate_def HandleGetBucketSize_def HandleGetBucketData_def a f r w at_ring_updates Let_def
        split: option.splits)
qed

text \<open>What such a command leaves alone.\<close>

definition calm :: "'d gpu \<Rightarrow> bool" where
  "calm t \<longleftrightarrow> svc_error t = kNoError \<and> unscheduled_count t = 0 \<and> 0 < commands_per_update t \<and>
     current_decoder_error t = kNoError"

lemma handle_common_calm:
  assumes "plain (c, args)" "handle_common c args t = (e, t')"
  shows "calm t' = calm t" "entry_count t' = entry_count t" "num_entries t' = num_entries t"
    "commands_per_update t' = commands_per_update t"
proof -
  have w: "svc_error (write_shm a bs s) = svc_error s" "unscheduled_count (write_shm a bs s) = unscheduled_count s"
    "commands_per_update (write_shm a bs s) = commands_per_update s" "num_entries (write_shm a bs s) = num_entries s"
    "current_decoder_error (write_shm a bs s) = current_decoder_error s" "entry_count (write_shm a bs s) = entry_count s" for a bs and s :: "'d gpu"
    by (simp_all add: write_shm_def split: option.splits)
  have "calm t' = calm t \<and> entry_count t' = entry_count t \<and> num_entries t' = num_entries t \<and> commands_per_update t' = commands_per_update t"
    using assms unfolding plain_def handle_common_def calm_def
    by (auto simp: HandleSetToken_def set_token_def HandleSetBucketSize_def CreateBucket_def HandleSetBucketData_def
        HandleSetBucketDataImmediate_def HandleGetBucketSize_def HandleGetBucketData_def fill_bucket_def w Let_def
        split: option.splits if_splits)
  thus "calm t' = calm t" "entry_count t' = entry_count t" "num_entries t' = num_entries t"
    "commands_per_update t' = commands_per_update t" by simp_all
qed

subsection \<open>Commands in the ring\<close>

definition holds :: "32 word list \<Rightarrow> int \<Rightarrow> cmd \<Rightarrow> bool" where
  "holds r g x \<longleftrightarrow> 0 \<le> g \<and> take (length (enc x)) (drop (nat g) r) = enc x"

definition len :: "cmd \<Rightarrow> int" where "len x = int (length (enc x))"

lemma len_pos: "0 < len x"
  by (simp add: len_def)

lemma holds_inside: "holds r g x \<Longrightarrow> 0 \<le> g \<and> g + len x \<le> int (length r)"
proof -
  assume "holds r g x"
  hence "0 \<le> g" "length (take (length (enc x)) (drop (nat g) r)) = length (enc x)" by (simp_all add: holds_def)
  thus ?thesis by (auto simp: len_def min_def split: if_splits)
qed

lemma holds_overwrite_away:
  assumes "holds r g x" "0 \<le> a" "a + int (length es) \<le> int (length r)" "a + int (length es) \<le> g \<or> g + len x \<le> a"
  shows "holds (overwrite (nat a) es r) g x"
proof -
  have eq: "overwrite (nat a) es r ! i = r ! i" if "i < nat a \<or> nat a + length es \<le> i" "i < length r" for i
    using that by (auto simp: overwrite_def nth_append)
  have l: "length (overwrite (nat a) es r) = length r" using assms(2,3) by (intro length_overwrite) linarith
  have "take (length (enc x)) (drop (nat g) (overwrite (nat a) es r)) = take (length (enc x)) (drop (nat g) r)"
    by (rule nth_equalityI) (use assms holds_inside [OF assms(1)] l in \<open>auto simp: len_def intro!: eq\<close>)
  thus ?thesis using assms(1) by (simp add: holds_def)
qed

lemma holds_overwrite_here:
  assumes "0 \<le> g" "g + len x \<le> int (length r)"
  shows "holds (overwrite (nat g) (enc x) r) g x"
proof -
  have "nat g \<le> length r" using assms(2) len_pos [of x] by linarith
  hence "length (take (nat g) r) = nat g" by (simp add: min_absorb2)
  thus ?thesis using assms(1) unfolding holds_def overwrite_def by (simp del: length_enc)
qed

text \<open>Plain commands one after the other, all before \<open>u\<close>.\<close>

fun linear :: "32 word list \<Rightarrow> int \<Rightarrow> int \<Rightarrow> cmd list \<Rightarrow> int \<Rightarrow> bool" where
  "linear r u g [] p = (g = p)"
| "linear r u g (x # xs) p = (plain x \<and> g + len x \<le> u \<and> holds r g x \<and> linear r u (g + len x) xs p)"

lemma linear_le: "linear r u g xs p \<Longrightarrow> g \<le> p"
proof (induction xs arbitrary: g)
  case (Cons x xs)
  hence "g + len x \<le> p" using Cons.IH [of "g + len x"] by simp
  thus ?case using len_pos [of x] by simp
qed simp

lemma linear_append: "linear r u g (xs @ ys) p \<longleftrightarrow> (\<exists>m. linear r u g xs m \<and> linear r u m ys p)"
  by (induction xs arbitrary: g) auto

lemma linear_overwrite:
  assumes "linear r u g xs p" "0 \<le> a" "a + int (length es) \<le> int (length r)" "a + int (length es) \<le> g \<or> p \<le> a"
  shows "linear (overwrite (nat a) es r) u g xs p"
  using assms(1,4)
proof (induction xs arbitrary: g)
  case (Cons x xs)
  hence le: "g + len x \<le> p" using linear_le [of r u "g + len x" xs p] by simp
  have "holds (overwrite (nat a) es r) g x"
    using Cons.prems le by (intro holds_overwrite_away assms(2,3)) auto
  moreover have "linear (overwrite (nat a) es r) u (g + len x) xs p"
    using Cons.prems le len_pos [of x] by (intro Cons.IH) auto
  ultimately show ?case using Cons.prems(1) by simp
qed simp

definition cyclic :: "32 word list \<Rightarrow> int \<Rightarrow> int \<Rightarrow> cmd list \<Rightarrow> int \<Rightarrow> bool" where
  "cyclic r u g xs p \<longleftrightarrow> 0 \<le> g \<and> 0 \<le> p \<and>
     (linear r u g xs p \<or>
      (\<exists>xs1 xs2 j. xs = xs1 @ jump0 # xs2 \<and> linear r u g xs1 j \<and> j \<le> u \<and> holds r j jump0 \<and>
         linear r u 0 xs2 p \<and> p < g))"

lemma cyclic_linear: "0 \<le> g \<Longrightarrow> 0 \<le> p \<Longrightarrow> linear r u g xs p \<Longrightarrow> cyclic r u g xs p"
  by (simp add: cyclic_def)

lemma cyclic_wrapped:
  "0 \<le> g \<Longrightarrow> 0 \<le> p \<Longrightarrow> linear r u g xs1 j \<Longrightarrow> j \<le> u \<Longrightarrow> holds r j jump0 \<Longrightarrow> linear r u 0 xs2 p \<Longrightarrow> p < g \<Longrightarrow>
    cyclic r u g (xs1 @ jump0 # xs2) p"
  unfolding cyclic_def by blast

definition next_get :: "int \<Rightarrow> cmd \<Rightarrow> int" where
  "next_get g x = (if x = jump0 then 0 else g + len x)"

lemma cyclic_step:
  assumes "cyclic r u g (x # xs) p"
  shows "holds r g x \<and> (x = jump0 \<and> 0 < g \<and> g \<le> u \<or> plain x \<and> g + len x \<le> u) \<and> g \<noteq> p \<and> cyclic r u (next_get g x) xs p"
proof (cases "linear r u g (x # xs) p")
  case True
  hence "x \<noteq> jump0" "g + len x \<le> p" using linear_le [of r u "g + len x" xs p] by auto
  thus ?thesis using assms True len_pos [of x] by (auto simp: cyclic_def next_get_def)
next
  case False
  then obtain xs1 xs2 j where w: "x # xs = xs1 @ jump0 # xs2" "linear r u g xs1 j" "j \<le> u" "holds r j jump0"
    "linear r u 0 xs2 p" "p < g" "0 \<le> p" using assms by (auto simp: cyclic_def)
  show ?thesis
  proof (cases xs1)
    case Nil
    thus ?thesis using w by (auto simp: cyclic_def next_get_def)
  next
    case (Cons y ys)
    hence y: "x = y" "xs = ys @ jump0 # xs2" "plain y" using w by auto
    hence "x \<noteq> jump0" by auto
    moreover have "p < g + len x" using w(6) len_pos [of x] by linarith
    moreover have "linear r u (g + len x) ys j" "holds r g x" "g + len x \<le> u" using w(2) Cons y by auto
    moreover have "0 \<le> g" using assms by (simp add: cyclic_def)
    moreover have "cyclic r u (g + len x) xs p"
      unfolding y(2) using calculation w len_pos [of x] by (intro cyclic_wrapped [of _ _ _ _ _ j]) simp_all
    ultimately show ?thesis using w y by (simp add: next_get_def)
  qed
qed

lemma cyclic_Nil: "cyclic r u g [] p \<longleftrightarrow> g = p \<and> 0 \<le> p"
  by (auto simp: cyclic_def)

lemma cyclic_neq: "cyclic r u g xs p \<Longrightarrow> g = p \<longleftrightarrow> xs = []"
  using cyclic_step [of r u g "hd xs" "tl xs" p] by (cases xs) (auto simp: cyclic_Nil)

text \<open>The client writes at or past the put offset and before the get offset.\<close>

lemma cyclic_overwrite:
  assumes "cyclic r u g xs p" "p \<le> a" "a + int (length es) \<le> int (length r)" "g \<le> p \<or> a + int (length es) \<le> g"
  shows "cyclic (overwrite (nat a) es r) u g xs p"
proof -
  have a: "0 \<le> a" using assms(1,2) by (simp add: cyclic_def)
  show ?thesis
  proof (cases "linear r u g xs p")
    case True
    thus ?thesis using assms(1) linear_overwrite [OF True a assms(3)] assms(2) by (simp add: cyclic_def)
  next
    case False
    then obtain xs1 xs2 j where w: "xs = xs1 @ jump0 # xs2" "linear r u g xs1 j" "j \<le> u" "holds r j jump0"
      "linear r u 0 xs2 p" "p < g" "0 \<le> p" using assms(1) by (auto simp: cyclic_def)
    hence ag: "a + int (length es) \<le> g" using assms(4) by simp
    have "linear (overwrite (nat a) es r) u g xs1 j" by (rule linear_overwrite [OF w(2) a assms(3)]) (use ag in simp)
    moreover have "linear (overwrite (nat a) es r) u 0 xs2 p" by (rule linear_overwrite [OF w(5) a assms(3)]) (use assms(2) in simp)
    moreover have "holds (overwrite (nat a) es r) j jump0"
      by (rule holds_overwrite_away [OF w(4) a assms(3)]) (use ag linear_le [OF w(2)] in simp)
    ultimately show ?thesis using assms(1) w unfolding cyclic_def by blast
  qed
qed

lemma cyclic_snoc:
  assumes "cyclic r u g xs p" "plain x" "p + len x \<le> u" "holds r p x" "g \<le> p \<or> p + len x < g"
  shows "cyclic r u g (xs @ [x]) (p + len x)"
proof (cases "linear r u g xs p")
  case True
  hence "linear r u g (xs @ [x]) (p + len x)" using assms by (auto simp: linear_append)
  thus ?thesis using assms(1) len_pos [of x] by (auto simp: cyclic_def)
next
  case False
  then obtain xs1 xs2 j where w: "xs = xs1 @ jump0 # xs2" "linear r u g xs1 j" "j \<le> u" "holds r j jump0"
    "linear r u 0 xs2 p" "p < g" "0 \<le> p" using assms(1) by (auto simp: cyclic_def)
  hence "linear r u 0 (xs2 @ [x]) (p + len x)" "xs @ [x] = xs1 @ jump0 # (xs2 @ [x])" "p + len x < g"
    using assms by (auto simp: linear_append)
  moreover have "0 \<le> g" using assms(1) by (simp add: cyclic_def)
  ultimately show ?thesis using w len_pos [of x]
    by (simp only:) (intro cyclic_wrapped [of _ _ _ _ _ j]; simp)
qed

lemma cyclic_jump:
  assumes "cyclic r u g xs p" "0 < g" "g \<le> p" "p \<le> u" "holds r p jump0"
  shows "cyclic r u g (xs @ [jump0]) 0"
proof -
  have "linear r u g xs p" using assms(1,3) by (auto simp: cyclic_def)
  thus ?thesis using assms by (intro cyclic_wrapped [where j = p]) simp_all
qed

subsection \<open>Processing the stream\<close>

definition effect :: "cmd \<Rightarrow> 'd gpu \<Rightarrow> 'd gpu option" where
  "effect x t = (if x = jump0 then Some t
     else case handle_common (fst x) (snd x) t of (e, t') \<Rightarrow> if e = kNoError then Some t' else None)"

fun exec_cmds :: "cmd list \<Rightarrow> 'd gpu \<Rightarrow> 'd gpu option" where
  "exec_cmds [] t = Some t"
| "exec_cmds (x # xs) t = Option.bind (effect x t) (exec_cmds xs)"

lemma exec_cmds_append: "exec_cmds (xs @ ys) t = Option.bind (exec_cmds xs t) (exec_cmds ys)"
proof (induction xs arbitrary: t)
  case (Cons x xs)
  show ?case by (cases "effect x t") (simp_all add: Cons)
qed simp

text \<open>The states a calm service goes through.\<close>

definition calm_ring :: "32 word list \<Rightarrow> int \<Rightarrow> 'd gpu \<Rightarrow> bool" where
  "calm_ring r u t \<longleftrightarrow> calm t \<and> entry_count t = int (length r) \<and> num_entries t = int (length r) \<and>
     u + 2 \<le> int (length r)"

lemma effect_calm:
  "effect x t = Some t' \<Longrightarrow> plain x \<or> x = jump0 \<Longrightarrow> calm_ring r u t \<Longrightarrow>
    calm_ring r u t' \<and> commands_per_update t' = commands_per_update t"
  using handle_common_calm [of "fst x" "snd x" t]
  by (auto simp: effect_def calm_ring_def split: if_splits prod.splits)

lemma holds_command:
  assumes "holds r g x" "fst x < 2 ^ 11" "Suc (length (snd x)) < 2 ^ 21"
  shows "vec_at r g = Some (make_header (fst x) (Suc (length (snd x))))"
    "take (length (snd x)) (drop (nat g + 1) r) = snd x"
proof -
  obtain ys where ys: "drop (nat g) r = enc x @ ys" "0 \<le> g"
    using assms(1) unfolding holds_def by (metis append_take_drop_id)
  hence "drop (nat g) r ! 0 = make_header (fst x) (Suc (length (snd x)))" "drop (nat g) r \<noteq> []"
    by (simp_all add: enc_def)
  hence "nat g < length r \<and> r ! nat g = make_header (fst x) (Suc (length (snd x)))" by (auto simp: not_le)
  thus "vec_at r g = Some (make_header (fst x) (Suc (length (snd x))))" using ys(2) by (simp add: vec_at_eq_Some nat_less_iff)
  have "drop (nat g + 1) r = drop 1 (drop (nat g) r)" by (simp add: add.commute)
  thus "take (length (snd x)) (drop (nat g + 1) r) = snd x" using ys(1) by (simp add: enc_def)
qed

lemma plain_bounds: "plain x \<or> x = jump0 \<Longrightarrow> fst x < length g_command_info \<and> fst x < 2 ^ 11 \<and> Suc (length (snd x)) < 2 ^ 21"
  by (auto simp: plain_def jump0_def g_command_info_def)

lemma DoCommand_plain:
  assumes "plain x \<or> x = jump0" "handle_common (fst x) (snd x) s = (kNoError, s')" "current_decoder_error s' = kNoError"
  shows "DoCommand G (fst x) (snd x) s = Some (kNoError, s')"
proof -
  have c: "fst x < length g_command_info" using plain_bounds [OF assms(1)] by simp
  hence "\<not> kStartPoint < fst x" by (simp add: g_command_info_def kStartPoint_def)
  moreover have "args_match (g_command_info ! fst x) (length (snd x))"
    using assms(1) by (auto simp: plain_def jump0_def g_command_info_def args_match_def)
  ultimately show ?thesis using assms(2,3) DoCommonCommand_known [OF c, of "snd x" s] by (simp add: DoCommand_def)
qed

lemma ProcessCommand_stream:
  assumes cy: "cyclic r u g (x # xs) p" and t: "calm_ring r u t" and eff: "effect x t = Some t1"
  shows "\<exists>go'. ProcessCommand G r (at_ring g p go po n t) = Some (kNoError, at_ring (next_get g x) p go' po n t1)"
proof -
  note st = cyclic_step [OF cy]
  hence x: "plain x \<or> x = jump0" by auto
  note b = plain_bounds [OF x]
  have g: "0 \<le> g" "g + len x \<le> int (length r)" using holds_inside [of r g x] st by auto
  note hc = holds_command [OF st [THEN conjunct1] b [THEN conjunct2, THEN conjunct1] b [THEN conjunct2, THEN conjunct2]]
  note hm = header_of_make [OF b [THEN conjunct2, THEN conjunct1] b [THEN conjunct2, THEN conjunct2]]
  have t': "calm t" "entry_count t = int (length r)" "u + 2 \<le> int (length r)" using t by (simp_all add: calm_ring_def)
  have t1: "calm t1" "entry_count t1 = int (length r)" using effect_calm [OF eff x t] by (simp_all add: calm_ring_def)
  have d: "\<exists>s1 go'. DoCommand G (fst x) (snd x) (at_ring g p go po n t) = Some (kNoError, s1) \<and>
      s1 = at_ring (if x = jump0 then 0 else g) p go' po n t1"
  proof (cases "x = jump0")
    case True
    have "handle_common (fst x) (snd x) (at_ring g p go po n t) = (kNoError, at_ring 0 p 0 po n t)"
      using True t' g len_pos [of x] by (auto simp: jump0_def handle_common_def HandleJump_def SetGetOffset_def set_get_def
          bool_error_def at_ring_updates)
    from DoCommand_plain [OF x this] show ?thesis using True eff t' by (auto simp: effect_def calm_def)
  next
    case False
    hence pl: "plain (fst x, snd x)" using x by simp
    have "handle_common (fst x) (snd x) t = (kNoError, t1)"
      using eff False by (auto simp: effect_def split: prod.splits if_splits)
    hence "handle_common (fst x) (snd x) (at_ring g p go po n t) = (kNoError, at_ring g p go po n t1)"
      using at_ring_handle [OF pl, of g p go po n t] by simp
    from DoCommand_plain [OF x this] show ?thesis using False t1 by (auto simp: calm_def)
  qed
  then obtain go' where d: "DoCommand G (fst x) (snd x) (at_ring g p go po n t) =
      Some (kNoError, at_ring (if x = jump0 then 0 else g) p go' po n t1)" by blast
  have l: "len x = int (Suc (length (snd x)))" by (simp add: len_def)
  have adv: "(g + len x) mod int (length r) = g + len x" if "x \<noteq> jump0"
    using st that t'(3) g(1) len_pos [of x] by simp
  show ?thesis
    using st d hc hm g t' t1 l adv
    by (intro exI [of _ go']) (auto simp: ProcessCommand_def Let_def next_get_def at_ring_updates)
qed

text \<open>A run over the stream executes a front part of it, as long as the limit allows.\<close>

lemma process_loop_stream:
  "cyclic r u g xs p \<Longrightarrow> calm_ring r u t \<Longrightarrow> exec_cmds xs t \<noteq> None \<Longrightarrow>
   \<exists>ys zs t1 g1 go1. xs = ys @ zs \<and> length ys = min k (length xs) \<and> exec_cmds ys t = Some t1 \<and> calm_ring r u t1 \<and>
     commands_per_update t1 = commands_per_update t \<and> g1 = foldl next_get g ys \<and> cyclic r u g1 zs p \<and>
     process_loop G r k kNoError (at_ring g p go po n t) = Some (Inr (kNoError, at_ring g1 p go1 po n t1))"
proof (induction k arbitrary: g xs t go)
  case 0
  thus ?case by (intro exI [of _ "[]"] exI [of _ xs] exI [of _ t] exI [of _ g] exI [of _ go]) simp
next
  case (Suc k)
  show ?case
  proof (cases xs)
    case Nil
    hence "g = p" using Suc.prems(1) by (simp add: cyclic_Nil)
    thus ?thesis using Suc.prems Nil
      by (intro exI [of _ "[]"] exI [of _ t] exI [of _ g] exI [of _ go]) (simp add: IsEmpty_def)
  next
    case (Cons x xs')
    obtain t1 where t1: "effect x t = Some t1" "exec_cmds xs' t1 \<noteq> None"
      using Suc.prems(3) Cons by (cases "effect x t") auto
    note st = cyclic_step [OF Suc.prems(1) [unfolded Cons]]
    have c1: "calm_ring r u t1" "commands_per_update t1 = commands_per_update t"
      using effect_calm [OF t1(1) _ Suc.prems(2)] st by auto
    obtain go' where pc: "ProcessCommand G r (at_ring g p go po n t) =
        Some (kNoError, at_ring (next_get g x) p go' po n t1)"
      using ProcessCommand_stream [OF Suc.prems(1) [unfolded Cons] Suc.prems(2) t1(1)] by blast
    obtain ys zs t2 g1 go1 where IH: "xs' = ys @ zs" "length ys = min k (length xs')" "exec_cmds ys t1 = Some t2"
      "calm_ring r u t2" "commands_per_update t2 = commands_per_update t1" "g1 = foldl next_get (next_get g x) ys"
      "cyclic r u g1 zs p"
      "process_loop G r k kNoError (at_ring (next_get g x) p go' po n t1) = Some (Inr (kNoError, at_ring g1 p go1 po n t2))"
      using Suc.IH [OF _ c1(1) t1(2)] st by metis
    have "unscheduled_count t1 = 0" using c1(1) by (simp add: calm_ring_def calm_def)
    hence "process_loop G r (Suc k) kNoError (at_ring g p go po n t) = Some (Inr (kNoError, at_ring g1 p go1 po n t2))"
      using IH(8) pc st by (simp add: IsEmpty_def IsError_def)
    thus ?thesis using IH(1-7) c1(2) t1(1) Cons
      by (intro exI [of _ "x # ys"] exI [of _ zs] exI [of _ t2] exI [of _ g1] exI [of _ go1]) simp
  qed
qed

definition current_always :: "'d gl_lib \<Rightarrow> bool" where
  "current_always G \<longleftrightarrow> (\<forall>s. gl_make_current G s = (True, s))"

lemma svc_FlushSync_stream:
  assumes cy: "cyclic r u g xs p" and t: "calm_ring r u t" and ex: "exec_cmds xs t \<noteq> None"
    and G: "current_always G" and p: "p \<le> u"
  shows "\<exists>ys zs t1 g1 n1. xs = ys @ zs \<and> (xs \<noteq> [] \<longrightarrow> ys \<noteq> []) \<and> exec_cmds ys t = Some t1 \<and> calm_ring r u t1 \<and>
     g1 = foldl next_get g ys \<and> cyclic r u g1 zs p \<and>
     svc_FlushSync G p r (at_ring g pp go po n t) =
       Some (svc_GetState (at_ring g1 p g1 p n1 t1), at_ring g1 p g1 p n1 t1)"
proof -
  obtain ys zs t1 g1 go1 where l: "xs = ys @ zs" "length ys = min (commands_per_update t) (length xs)" "exec_cmds ys t = Some t1"
    "calm_ring r u t1" "g1 = foldl next_get g ys" "cyclic r u g1 zs p"
    "process_loop G r (commands_per_update t) kNoError (at_ring g p go p n t) = Some (Inr (kNoError, at_ring g1 p go1 p n t1))"
    using process_loop_stream [OF cy t ex] by metis
  have ne: "xs \<noteq> [] \<longrightarrow> ys \<noteq> []" using l(1,2) t by (auto simp: calm_ring_def calm_def min_def split: if_splits)
  have pb: "\<not> (p < 0 \<or> p > num_entries t)" using cy p t by (auto simp: cyclic_def calm_ring_def)
  have c: "svc_error t = kNoError" "unscheduled_count t = 0" "unscheduled_count t1 = 0"
    using t l(4) by (simp_all add: calm_ring_def calm_def)
  have "\<exists>n1. ProcessCommands G r (at_ring g pp go p n t) = Some (at_ring g1 p g1 p n1 t1)"
    using G c l(7) by (auto simp: ProcessCommands_def current_always_def at_ring_updates Let_def)
  then obtain n1 where "ProcessCommands G r (at_ring g pp go p n t) = Some (at_ring g1 p g1 p n1 t1)" by blast
  hence "svc_FlushSync G p r (at_ring g pp go po n t) = Some (svc_GetState (at_ring g1 p g1 p n1 t1), at_ring g1 p g1 p n1 t1)"
    using pb by (simp add: svc_FlushSync_def at_ring_updates)
  thus ?thesis using l(1-6) ne by blast
qed

end
