(* ===== verification/CommandQueue.thy ===== *)
theory CommandQueue
  imports CommandStream
begin

text \<open>
  The helper and the service as one queue: the helper's operations keep the stream of waiting
  commands, every wait ends because a synchronous flush executes at least one of them, and after
  \<open>Finish\<close> the service is in the state that executing the issued commands in order gives.
\<close>

lemma cyclic_run: "cyclic r u g (ys @ zs) p \<Longrightarrow> cyclic r u (foldl next_get g ys) zs p"
  by (induction ys arbitrary: g) (auto dest: cyclic_step)

text \<open>\<open>xs\<close> waits from the helper's point of view, and executing what the service has not executed
  of it ends in \<open>t\<close>.\<close>

definition queue_sim :: "'d gpu helper \<Rightarrow> cmd list \<Rightarrow> 'd gpu \<Rightarrow> bool" where
  "queue_sim h xs t \<longleftrightarrow> ring_ok h \<and> cyclic (ring h) (usable_entry_count h) (client_get h) xs (client_put h) \<and>
     (\<exists>ys zs t0 pp go po n. xs = ys @ zs \<and> calm_ring (ring h) (usable_entry_count h) t0 \<and>
        world h = at_ring (foldl next_get (client_get h) ys) pp go po n t0 \<and> exec_cmds zs t0 = Some t)"

lemma queue_simI:
  "ring_ok h \<Longrightarrow> cyclic (ring h) (usable_entry_count h) (client_get h) (ys @ zs) (client_put h) \<Longrightarrow>
   calm_ring (ring h) (usable_entry_count h) t0 \<Longrightarrow>
   world h = at_ring (foldl next_get (client_get h) ys) pp go po n t0 \<Longrightarrow> exec_cmds zs t0 = Some t \<Longrightarrow>
   queue_sim h (ys @ zs) t"
  unfolding queue_sim_def by blast

lemma at_ring_get: "get_offset (at_ring g pp go po n t) = go"
  by simp

lemma FlushSync_sim:
  assumes "queue_sim h xs t" "current_always G"
  shows "\<exists>h' xs'. helper_FlushSync (service_buffer G) h = Some (True, h') \<and> queue_sim h' xs' t \<and>
    (xs \<noteq> [] \<longrightarrow> length xs' < length xs) \<and> (xs = [] \<longrightarrow> xs' = []) \<and> same_client h h'"
proof -
  let ?u = "usable_entry_count h"
  obtain ys zs t0 pp go po n where s: "xs = ys @ zs" "calm_ring (ring h) ?u t0"
    "world h = at_ring (foldl next_get (client_get h) ys) pp go po n t0" "exec_cmds zs t0 = Some t"
    using assms(1) unfolding queue_sim_def by blast
  have cy: "cyclic (ring h) ?u (foldl next_get (client_get h) ys) zs (client_put h)"
    using assms(1) s(1) by (auto simp: queue_sim_def intro: cyclic_run)
  have ok: "ring_ok h" using assms(1) by (simp add: queue_sim_def)
  hence p: "client_put h \<le> ?u" by (simp add: ring_ok_def)
  have ex: "exec_cmds zs t0 \<noteq> None" using s(4) by simp
  obtain zs1 zs2 t1 g1 n1 where r: "zs = zs1 @ zs2" "zs \<noteq> [] \<longrightarrow> zs1 \<noteq> []" "exec_cmds zs1 t0 = Some t1"
    "calm_ring (ring h) ?u t1" "cyclic (ring h) ?u g1 zs2 (client_put h)"
    "svc_FlushSync G (client_put h) (ring h) (world h) =
      Some (svc_GetState (at_ring g1 (client_put h) g1 (client_put h) n1 t1), at_ring g1 (client_put h) g1 (client_put h) n1 t1)"
    using svc_FlushSync_stream [OF cy s(2) ex assms(2) p, where pp = pp and go = go and po = po and n = n, folded s(3)] by blast
  let ?h = "h \<lparr> last_put_sent := client_put h, world := at_ring g1 (client_put h) g1 (client_put h) n1 t1, client_get := g1,
    last_token_read := svc_token t1 \<rparr>"
  have "helper_FlushSync (service_buffer G) h = Some (True, ?h)"
    using r(4,6) by (simp add: helper_FlushSync_def service_buffer_def SynchronizeState_def svc_GetState_def
        calm_ring_def calm_def)
  moreover have "queue_sim ?h ([] @ zs2) t"
  proof (rule queue_simI)
    show "ring_ok ?h" using ok by (simp add: ring_ok_def)
    show "exec_cmds zs2 t1 = Some t" using s(4) r(1,3) by (simp add: exec_cmds_append)
  qed (use r in simp_all)
  moreover have "same_client h ?h" by (simp add: same_client_def)
  moreover have "(xs \<noteq> [] \<longrightarrow> length zs2 < length xs) \<and> (xs = [] \<longrightarrow> zs2 = [])"
    using s(1) r(1,2) by (cases zs1; cases ys) auto
  ultimately show ?thesis by auto
qed

lemma Flush_sim:
  assumes "queue_sim h xs t" "current_always G"
  shows "\<exists>h'. helper_Flush (service_buffer G) h = Some h' \<and> queue_sim h' xs t \<and> same_client h h' \<and> client_get h' = client_get h"
proof -
  let ?u = "usable_entry_count h"
  obtain ys zs t0 pp go po n where s: "xs = ys @ zs" "calm_ring (ring h) ?u t0"
    "world h = at_ring (foldl next_get (client_get h) ys) pp go po n t0" "exec_cmds zs t0 = Some t"
    using assms(1) unfolding queue_sim_def by blast
  have cy0: "cyclic (ring h) ?u (client_get h) (ys @ zs) (client_put h)" using assms(1) s(1) by (simp add: queue_sim_def)
  note cy = cyclic_run [OF cy0]
  have ok: "ring_ok h" using assms(1) by (simp add: queue_sim_def)
  hence p: "client_put h \<le> ?u" by (simp add: ring_ok_def)
  have ex: "exec_cmds zs t0 \<noteq> None" using s(4) by simp
  obtain zs1 zs2 t1 g1 n1 where r: "zs = zs1 @ zs2" "exec_cmds zs1 t0 = Some t1" "calm_ring (ring h) ?u t1"
    "g1 = foldl next_get (foldl next_get (client_get h) ys) zs1"
    "svc_FlushSync G (client_put h) (ring h) (world h) =
      Some (svc_GetState (at_ring g1 (client_put h) g1 (client_put h) n1 t1), at_ring g1 (client_put h) g1 (client_put h) n1 t1)"
    using svc_FlushSync_stream [OF cy s(2) ex assms(2) p, where pp = pp and go = go and po = po and n = n, folded s(3)] by blast
  let ?h = "h \<lparr> last_put_sent := client_put h, world := at_ring g1 (client_put h) g1 (client_put h) n1 t1 \<rparr>"
  have "helper_Flush (service_buffer G) h = Some ?h"
    using r(5) by (simp add: helper_Flush_def service_buffer_def svc_Flush_def)
  moreover have "queue_sim ?h ((ys @ zs1) @ zs2) t"
  proof (rule queue_simI)
    show "ring_ok ?h" using ok by (simp add: ring_ok_def)
    show "exec_cmds zs2 t1 = Some t" using s(4) r(1,2) by (simp add: exec_cmds_append)
  qed (use r cy0 in simp_all)
  moreover have "same_client h ?h" by (simp add: same_client_def)
  ultimately show ?thesis using s(1) r(1) by auto
qed

subsection \<open>Every wait ends\<close>

lemma queue_sim_facts:
  assumes "queue_sim h xs t"
  shows "ring_ok h" "cyclic (ring h) (usable_entry_count h) (client_get h) xs (client_put h)"
    "client_get h = client_put h \<longleftrightarrow> xs = []" "0 \<le> client_get h"
proof -
  show "ring_ok h" using assms by (simp add: queue_sim_def)
  show cy: "cyclic (ring h) (usable_entry_count h) (client_get h) xs (client_put h)"
    using assms by (simp add: queue_sim_def)
  show "client_get h = client_put h \<longleftrightarrow> xs = []" by (rule cyclic_neq [OF cy])
  show "0 \<le> client_get h" using cy by (simp add: cyclic_def)
qed

text \<open>A loop around \<open>FlushSync\<close> whose condition says that something waits.\<close>

definition drained :: "('d gpu helper \<Rightarrow> bool) \<Rightarrow> 'd gpu \<Rightarrow> 'd gpu helper \<Rightarrow> 'd gpu helper \<Rightarrow> bool" where
  "drained D t h h' \<longleftrightarrow> (\<exists>xs'. queue_sim h' xs' t) \<and> D h' \<and> same_client h h'"

lemma drained_trans: "same_client h h1 \<Longrightarrow> drained D t h1 h' \<Longrightarrow> drained D t h h'"
  by (auto simp: drained_def intro: same_client_trans)

lemma wait_for_wrap_sim:
  "queue_sim h xs t \<Longrightarrow> current_always G \<Longrightarrow> 0 < client_put h \<Longrightarrow>
   \<exists>h'. wait_for_wrap (service_buffer G) h = Some (True, h') \<and>
     drained (\<lambda>h. client_get h \<le> client_put h \<and> client_get h \<noteq> 0) t h h'"
proof (induction "length xs" arbitrary: h xs rule: less_induct)
  case less
  show ?case
  proof (cases "client_get h > client_put h \<or> client_get h = 0")
    case False
    thus ?thesis using less.prems(1) by (subst wait_for_wrap.simps) (auto simp: drained_def)
  next
    case True
    hence "xs \<noteq> []" using queue_sim_facts(3) [OF less.prems(1)] less.prems(3) by auto
    then obtain h1 xs1 where h1: "helper_FlushSync (service_buffer G) h = Some (True, h1)" "queue_sim h1 xs1 t"
      "length xs1 < length xs" "same_client h h1"
      using FlushSync_sim [OF less.prems(1,2)] by blast
    have "0 < client_put h1" using h1(4) less.prems(3) by (simp add: same_client_def)
    from less.hyps [OF h1(3,2) less.prems(2) this] obtain h' where
      "wait_for_wrap (service_buffer G) h1 = Some (True, h')"
      "drained (\<lambda>h. client_get h \<le> client_put h \<and> client_get h \<noteq> 0) t h1 h'" by blast
    thus ?thesis using True h1(1) drained_trans [OF h1(4)] by (subst wait_for_wrap.simps) auto
  qed
qed

lemma wait_for_room_sim:
  "queue_sim h xs t \<Longrightarrow> current_always G \<Longrightarrow> m < usable_entry_count h \<Longrightarrow>
   \<exists>h'. wait_for_room (service_buffer G) m h = Some (True, h') \<and> drained (\<lambda>h. m \<le> AvailableEntries h) t h h'"
proof (induction "length xs" arbitrary: h xs rule: less_induct)
  case less
  show ?case
  proof (cases "AvailableEntries h < m")
    case False
    thus ?thesis using less.prems(1) by (subst wait_for_room.simps) (auto simp: drained_def)
  next
    case True
    hence "xs \<noteq> []" using queue_sim_facts(1,3,4) [OF less.prems(1)] less.prems(3) AvailableEntries_straight [of h] by fastforce
    then obtain h1 xs1 where h1: "helper_FlushSync (service_buffer G) h = Some (True, h1)" "queue_sim h1 xs1 t"
      "length xs1 < length xs" "same_client h h1"
      using FlushSync_sim [OF less.prems(1,2)] by blast
    have "m < usable_entry_count h1" using h1(4) less.prems(3) by (simp add: same_client_def)
    from less.hyps [OF h1(3,2) less.prems(2) this] obtain h' where
      "wait_for_room (service_buffer G) m h1 = Some (True, h')" "drained (\<lambda>h. m \<le> AvailableEntries h) t h1 h'" by blast
    thus ?thesis using True h1(1) drained_trans [OF h1(4)] by (subst wait_for_room.simps) auto
  qed
qed

lemma Finish_sim:
  "queue_sim h xs t \<Longrightarrow> current_always G \<Longrightarrow>
   \<exists>h'. Finish (service_buffer G) h = Some (True, h') \<and> queue_sim h' [] t"
proof (induction "length xs" arbitrary: h xs rule: less_induct)
  case less
  obtain h1 xs1 where h1: "helper_FlushSync (service_buffer G) h = Some (True, h1)" "queue_sim h1 xs1 t"
    "xs \<noteq> [] \<longrightarrow> length xs1 < length xs" "xs = [] \<longrightarrow> xs1 = []"
    using FlushSync_sim [OF less.prems] by blast
  show ?case
  proof (cases "xs1 = []")
    case True
    hence "client_put h1 = client_get h1" using queue_sim_facts(3) [OF h1(2)] by simp
    thus ?thesis using h1(1,2) True by (subst Finish.simps) simp
  next
    case False
    hence "client_put h1 \<noteq> client_get h1" "length xs1 < length xs" using queue_sim_facts(3) [OF h1(2)] h1(3,4) by auto
    thus ?thesis using less.hyps [OF _ h1(2) less.prems(2)] h1(1) by (subst Finish.simps) simp
  qed
qed

text \<open>Changing the ring and the put offset.\<close>

lemma queue_sim_put:
  assumes "queue_sim h xs t" "ring_ok h'" "cyclic (ring h') (usable_entry_count h') (client_get h) (xs @ zs') (client_put h')"
    and "length (ring h') = length (ring h)" "usable_entry_count h' = usable_entry_count h" "client_get h' = client_get h"
    and "world h' = world h" "exec_cmds zs' t = Some t'"
  shows "queue_sim h' (xs @ zs') t'"
proof -
  obtain ys zs t0 pp go po n where s: "xs = ys @ zs" "calm_ring (ring h) (usable_entry_count h) t0"
    "world h = at_ring (foldl next_get (client_get h) ys) pp go po n t0" "exec_cmds zs t0 = Some t"
    using assms(1) unfolding queue_sim_def by blast
  have "queue_sim h' (ys @ (zs @ zs')) t'"
  proof (rule queue_simI)
    show "calm_ring (ring h') (usable_entry_count h') t0" using s(2) assms(4,5) by (simp add: calm_ring_def)
    show "exec_cmds (zs @ zs') t0 = Some t'" using s(4) assms(8) by (simp add: exec_cmds_append)
  qed (use assms s in simp_all)
  thus ?thesis using s(1) by simp
qed

lemma effect_jump0 [simp]: "effect jump0 t = Some t"
  by (simp add: effect_def)

lemma ring_jump_room: "ring_ok h \<Longrightarrow> usable_entry_count h + 2 \<le> int (length (ring h))"
  by (simp add: ring_ok_def kJumpEntries_def)

lemma wrap_ring_sim:
  assumes "queue_sim h xs t" "current_always G" "0 \<le> m" "m < usable_entry_count h"
  shows "\<exists>h' xs'. wrap_ring (service_buffer G) m h = Some (True, h') \<and> queue_sim h' xs' t \<and>
    client_put h' + m \<le> usable_entry_count h' \<and> usable_entry_count h' = usable_entry_count h \<and>
    length (ring h') = length (ring h)"
proof (cases "client_put h + m > usable_entry_count h")
  case False
  thus ?thesis using assms(1) by (auto simp: wrap_ring_def)
next
  case True
  obtain h1 xs1 where h1: "wait_for_wrap (service_buffer G) h = Some (True, h1)" "queue_sim h1 xs1 t"
    "client_get h1 \<le> client_put h1" "client_get h1 \<noteq> 0" "same_client h h1"
    using wait_for_wrap_sim [OF assms(1,2)] True assms(4) by (auto simp: drained_def)
  let ?p = "client_put h1"
  let ?r = "overwrite (nat ?p) Jump_entries (ring h1)"
  let ?h = "h1 \<lparr> ring := ?r, client_put := 0 \<rparr>"
  note f = queue_sim_facts [OF h1(2)]
  have p: "0 \<le> ?p" "?p < usable_entry_count h1" using f(1) by (simp_all add: ring_ok_def)
  have fits: "?p + int (length Jump_entries) \<le> int (length (ring h1))"
    using p(2) ring_jump_room [OF f(1)] by (simp add: Jump_entries_def)
  have len: "length ?r = length (ring h1)" using fits p(1) by (intro length_overwrite) linarith
  have cy: "cyclic ?r (usable_entry_count h1) (client_get h1) xs1 ?p"
    by (rule cyclic_overwrite [OF f(2) order_refl fits]) (use h1(3) in simp)
  have "holds ?r ?p jump0"
    using holds_overwrite_here [of ?p jump0 "ring h1"] p(1) fits by (simp add: enc_jump0 len_def)
  hence "cyclic ?r (usable_entry_count h1) (client_get h1) (xs1 @ [jump0]) 0"
    using cy h1(3,4) f(4) p(2) by (intro cyclic_jump) simp_all
  hence "queue_sim ?h (xs1 @ [jump0]) t"
    using f(1) len by (intro queue_sim_put [OF h1(2)]) (simp_all add: ring_ok_def)
  moreover have "wrap_ring (service_buffer G) m h = Some (True, ?h)"
    using True h1(1) fits p(1) by (simp add: wrap_ring_def write_entries_def)
  ultimately show ?thesis using h1(5) assms(3,4) len by (intro exI [of _ ?h] exI conjI) (auto simp: same_client_def)
qed

subsection \<open>Issuing commands\<close>

lemma WaitForAvailableEntries_sim:
  assumes "queue_sim h xs t" "current_always G" "0 \<le> m" "m < usable_entry_count h"
  shows "\<exists>h' xs'. WaitForAvailableEntries (service_buffer G) m h = Some h' \<and> queue_sim h' xs' t \<and>
    m \<le> AvailableEntries h' \<and> client_put h' + m \<le> usable_entry_count h' \<and>
    usable_entry_count h' = usable_entry_count h \<and> length (ring h') = length (ring h)"
proof -
  obtain h1 xs1 where h1: "wrap_ring (service_buffer G) m h = Some (True, h1)" "queue_sim h1 xs1 t"
    "client_put h1 + m \<le> usable_entry_count h1" "usable_entry_count h1 = usable_entry_count h"
    "length (ring h1) = length (ring h)"
    using wrap_ring_sim [OF assms] by blast
  obtain h2 xs2 where h2: "wait_for_room (service_buffer G) m h1 = Some (True, h2)" "queue_sim h2 xs2 t"
    "m \<le> AvailableEntries h2" "same_client h1 h2"
    using wait_for_room_sim [OF h1(2) assms(2), of m] h1(4) assms(4) by (auto simp: drained_def)
  obtain h3 where h3: "helper_Flush (service_buffer G) h2 = Some h3" "queue_sim h3 xs2 t" "same_client h2 h3"
    "client_get h3 = client_get h2"
    using Flush_sim [OF h2(2) assms(2)] by blast
  define hf where "hf = (if force_flush (service_buffer G) h2 = Some h2 then h2 else h3)"
  have "force_flush (service_buffer G) h2 = Some hf" using h3(1) by (auto simp: hf_def force_flush_def Let_def)
  hence "WaitForAvailableEntries (service_buffer G) m h = Some hf"
    using h1(1) h2(1) assms(3,4) by (simp add: WaitForAvailableEntries_def)
  moreover have "queue_sim hf xs2 t" "same_client h2 hf" "client_get hf = client_get h2"
    using h2(2) h3(2-4) by (auto simp: hf_def)
  ultimately show ?thesis using h2(3,4) h1(3-5)
    by (intro exI [of _ hf] exI [of _ xs2]) (auto simp: same_client_def AvailableEntries_def)
qed

text \<open>Room in front of the put offset.\<close>

lemma room_before_get:
  assumes "ring_ok h" "m \<le> AvailableEntries h" "client_get h > client_put h"
  shows "client_put h + m < client_get h"
  using AvailableEntries_wrapped [OF assms(1,3)] assms(2) by simp

lemma room_at_end:
  assumes "ring_ok h" "m \<le> AvailableEntries h" "client_put h + m = usable_entry_count h"
    and "0 \<le> client_get h" "client_get h \<le> usable_entry_count h"
  shows "0 < client_get h \<and> client_get h \<le> client_put h"
proof (cases "client_get h > client_put h")
  case True
  thus ?thesis using room_before_get [OF assms(1,2)] assms(3,5) by simp
next
  case False
  thus ?thesis using assms AvailableEntries_straight [of h] by simp
qed

lemma cyclic_get_le: "cyclic r u g xs p \<Longrightarrow> p \<le> u \<Longrightarrow> g \<le> u"
  by (auto simp: cyclic_def dest!: linear_le)

lemma put_command_sim:
  assumes sim: "queue_sim h xs t" and G: "current_always G" and x: "plain x" "len x < usable_entry_count h"
    and eff: "effect x t = Some t'"
  shows "\<exists>h' xs'. put_command (service_buffer G) (fst x) (snd x) h = Some h' \<and> queue_sim h' xs' t' \<and>
    usable_entry_count h' = usable_entry_count h \<and> length (ring h') = length (ring h)"
proof -
  obtain h1 xs1 where h1: "WaitForAvailableEntries (service_buffer G) (len x) h = Some h1" "queue_sim h1 xs1 t"
    "len x \<le> AvailableEntries h1" "client_put h1 + len x \<le> usable_entry_count h1"
    "usable_entry_count h1 = usable_entry_count h" "length (ring h1) = length (ring h)"
    using WaitForAvailableEntries_sim [OF sim G less_imp_le [OF len_pos] x(2)] by blast
  let ?p = "client_put h1" and ?u = "usable_entry_count h1" and ?g = "client_get h1"
  note f = queue_sim_facts [OF h1(2)]
  have p: "0 \<le> ?p" "?p < ?u" "?u < 2 ^ 30" using f(1) by (simp_all add: ring_ok_def kJumpEntries_def)
  have l: "len x = int (Suc (length (snd x)))" by (simp add: len_def)
  have "int (Suc (length (snd x))) < 2 ^ 31" using x(1) by (simp add: plain_def)
  note w = entry_count_word [OF this, folded l]
  have put: "to_int32 (?p + len x) = ?p + len x" using p h1(4) len_pos [of x] by (intro to_int32_id) simp_all
  have room: "?g \<le> ?p \<or> ?p + len x < ?g" using room_before_get [OF f(1) h1(3)] by linarith
  have fits: "?p + int (length (enc x)) \<le> int (length (ring h1))"
    using ring_jump_room [OF f(1)] h1(4) by (simp add: len_def)
  have fits': "?p + len x \<le> int (length (ring h1))" using fits by (simp add: len_def)
  show ?thesis
  proof (cases "?p + len x = ?u")
    case False
    let ?h = "h1 \<lparr> ring := overwrite (nat ?p) (enc x) (ring h1), client_put := ?p + len x \<rparr>"
    have len: "length (overwrite (nat ?p) (enc x) (ring h1)) = length (ring h1)"
      using fits p(1) by (intro length_overwrite) linarith
    have "put_command (service_buffer G) (fst x) (snd x) h = Some ?h"
      using h1(1) w put False fits p(1)
      by (simp add: put_command_def GetSpace_def Let_def write_entries_def enc_def del: of_nat_Suc)
    moreover have "queue_sim ?h (xs1 @ [x]) t'"
    proof (rule queue_sim_put [OF h1(2)])
      have "cyclic (overwrite (nat ?p) (enc x) (ring h1)) ?u ?g xs1 ?p"
        by (rule cyclic_overwrite [OF f(2) order_refl fits]) (use room in \<open>auto simp: len_def\<close>)
      from cyclic_snoc [OF this x(1) h1(4) holds_overwrite_here [OF p(1) fits'] room]
      show "cyclic (ring ?h) (usable_entry_count ?h) ?g (xs1 @ [x]) (client_put ?h)" by simp
      show "ring_ok ?h" using f(1) p h1(4) False len len_pos [of x] by (simp add: ring_ok_def)
    qed (use len eff in simp_all)
    ultimately show ?thesis using h1(5,6) len by (intro exI [of _ ?h] exI [of _ "xs1 @ [x]"]) simp
  next
    case True
    let ?r1 = "overwrite (nat ?u) Jump_entries (ring h1)"
    let ?r2 = "overwrite (nat ?p) (enc x) ?r1"
    let ?h = "h1 \<lparr> ring := ?r2, client_put := 0 \<rparr>"
    have g: "0 < ?g \<and> ?g \<le> ?p"
      by (rule room_at_end [OF f(1) h1(3) True f(4)]) (use cyclic_get_le [OF f(2)] p in simp)
    have jf: "?u + int (length Jump_entries) \<le> int (length (ring h1))" using ring_jump_room [OF f(1)] by (simp add: Jump_entries_def)
    have len1: "length ?r1 = length (ring h1)" using jf p by (intro length_overwrite) linarith
    have len2: "length ?r2 = length (ring h1)" using fits p(1) len1 length_overwrite [of "nat ?p" "enc x" ?r1] by linarith
    have nat_bounds: "nat ?p + length (enc x) \<le> length (ring h1)" "nat ?u + length Jump_entries \<le> length (ring h1)"
      using fits jf p by linarith+
    have "put_command (service_buffer G) (fst x) (snd x) h = Some ?h"
      using h1(1) w put True p len1 nat_bounds
      by (simp add: put_command_def GetSpace_def Let_def write_entries_def enc_def del: of_nat_Suc)
    moreover have "queue_sim ?h (xs1 @ [x, jump0]) t'"
    proof (rule queue_sim_put [OF h1(2)])
      have c1: "cyclic ?r1 ?u ?g xs1 ?p"
        by (rule cyclic_overwrite [OF f(2) less_imp_le [OF p(2)] jf]) (use g in simp)
      have "cyclic ?r2 ?u ?g xs1 ?p"
        by (rule cyclic_overwrite [OF c1 order_refl]) (use fits len1 g in simp_all)
      from cyclic_snoc [OF this x(1) h1(4) holds_overwrite_here [OF p(1)]] room fits' len1 True
      have c3: "cyclic ?r2 ?u ?g (xs1 @ [x]) ?u" by simp
      have "holds ?r1 ?u jump0" using holds_overwrite_here [of ?u jump0 "ring h1"] jf p by (simp add: enc_jump0 len_def)
      hence "holds ?r2 ?u jump0" by (rule holds_overwrite_away) (use p fits len1 True in \<open>auto simp: len_def\<close>)
      from cyclic_jump [OF c3 _ _ order_refl this] g p
      show "cyclic (ring ?h) (usable_entry_count ?h) ?g (xs1 @ [x, jump0]) (client_put ?h)" by simp
      show "ring_ok ?h" using f(1) len2 by (simp add: ring_ok_def)
    qed (use len2 eff in simp_all)
    ultimately show ?thesis using h1(5,6) len2 by (intro exI [of _ ?h] exI [of _ "xs1 @ [x, jump0]"]) simp
  qed
qed

subsection \<open>A run of the client\<close>

fun issue :: "'w command_buffer \<Rightarrow> cmd list \<Rightarrow> 'w helper \<Rightarrow> 'w helper option" where
  "issue C [] h = Some h"
| "issue C (x # xs) h = Option.bind (put_command C (fst x) (snd x) h) (issue C xs)"

lemma issue_sim:
  "queue_sim h xs t \<Longrightarrow> current_always G \<Longrightarrow> \<forall>x \<in> set cs. plain x \<and> len x < usable_entry_count h \<Longrightarrow>
   exec_cmds cs t = Some t' \<Longrightarrow> \<exists>h' xs'. issue (service_buffer G) cs h = Some h' \<and> queue_sim h' xs' t'"
proof (induction cs arbitrary: h xs t)
  case (Cons x cs)
  obtain t1 where t1: "effect x t = Some t1" "exec_cmds cs t1 = Some t'"
    using Cons.prems(4) by (auto simp: bind_eq_Some_conv)
  obtain h1 xs1 where h1: "put_command (service_buffer G) (fst x) (snd x) h = Some h1" "queue_sim h1 xs1 t1"
    "usable_entry_count h1 = usable_entry_count h"
    using put_command_sim [OF Cons.prems(1,2) _ _ t1(1)] Cons.prems(3) by auto
  show ?case using Cons.IH [OF h1(2) Cons.prems(2) _ t1(2)] Cons.prems(3) h1(1,3) by simp
qed auto

text \<open>A helper initialised on a service that has not started.\<close>

definition started :: "'d gl_lib \<Rightarrow> 32 word list \<Rightarrow> 'd \<Rightarrow> 'd gpu helper" where
  "started G entries d =
    snd (helper_Initialize (service_buffer G) (Some entries) (of_nat (4 * length entries))
           (new_helper (new_gpu (length entries) d)))"

lemma started_sim:
  assumes "2 < length entries" "length entries < 2 ^ 30"
  shows "queue_sim (started G entries d) [] (new_gpu (length entries) d)"
    "usable_entry_count (started G entries d) = int (length entries) - 2"
proof -
  have u: "uint (of_nat (4 * length entries) :: 32 word) = 4 * int (length entries)"
    using assms(2) by (subst unsigned_of_nat) (simp add: take_bit_nat_eq_self)
  have st: "started G entries d = \<lparr> ring = entries, total_entry_count = int (length entries),
      usable_entry_count = int (length entries) - 2, client_token = 0, last_token_read = 0, client_get = 0,
      client_put = 0, last_put_sent = 0, world = new_gpu (length entries) d \<rparr>"
    unfolding started_def helper_Initialize_def service_buffer_def new_helper_def SynchronizeState_def svc_GetState_def
    by (simp add: u new_gpu_def kJumpEntries_def Let_def del: of_nat_mult)
  show "usable_entry_count (started G entries d) = int (length entries) - 2" by (simp add: st)
  let ?t = "new_gpu (length entries) d"
  have w: "?t = at_ring (foldl next_get 0 []) 0 0 0 0 ?t" by (simp add: at_ring_def new_gpu_def)
  have "queue_sim (started G entries d) ([] @ []) ?t"
    by (rule queue_simI [where t0 = ?t, OF _ _ _ _ _])
       (use assms w in \<open>simp_all add: st ring_ok_def kJumpEntries_def cyclic_Nil calm_ring_def calm_def new_gpu_def\<close>)
  thus "queue_sim (started G entries d) [] ?t" by simp
qed

end
