(* ===== verification/GpuSpec.thy ===== *)
theory GpuSpec
  imports CommandQueue
begin

text \<open>
  The properties of the command buffer: what the service guarantees against a hostile client, what
  the client's helper guarantees to its callers, and that the two together are a queue.
\<close>

subsection \<open>The service\<close>




definition no_gl :: "unit gl_lib" where
  "no_gl = \<lparr> gl_command_info = [], gl_handle = (\<lambda>c args s. (kUnknownCommand, s)), gl_make_current = (\<lambda>s. (True, s)) \<rparr>"

lemma no_gl_keeps: "gl_keeps no_gl"
  by (simp add: gl_keeps_def no_gl_def)

lemma new_gpu_ok: "0 < n \<Longrightarrow> svc_ok (new_gpu n d) \<and> buffers_ok (new_gpu n d)"
  by (auto simp: svc_ok_def buffers_ok_def new_gpu_def)


text \<open>Registering a transfer buffer under a free handle makes that handle, and no other, name
  it. A free handle asked for is the one given. Destroying it gives the handles back as they were,
  except for handle zero, which can be asked for but never be destroyed.\<close>

theorem transfer_buffer_registry:
  assumes "buffers_ok s" "RegisterTransferBuffer b i s = (h, s')" "h \<noteq> -1"
  shows "GetTransferBuffer h s = None \<and> (\<forall>k. GetTransferBuffer k s' = (if k = h then Some b else GetTransferBuffer k s)) \<and>
    (0 \<le> i \<and> i \<le> 100 \<and> GetTransferBuffer i s = None \<longrightarrow> h = i) \<and>
    (if h = 0 then DestroyTransferBuffer h s' = s'
     else \<forall>k. GetTransferBuffer k (DestroyTransferBuffer h s') = GetTransferBuffer k s)"
proof -
  have st: "stored b s (h, s')" "0 \<le> i \<and> i \<le> 100 \<and> GetTransferBuffer i s = None \<longrightarrow> h = i"
    using RegisterTransferBuffer_stored [OF assms(1,2)] assms(3) by auto
  hence h: "0 \<le> h" "buffers_ok s'" "GetTransferBuffer h s = None"
    "\<forall>k. GetTransferBuffer k s' = (if k = h then Some b else GetTransferBuffer k s)"
    by (simp_all add: stored_def)
  moreover have "DestroyTransferBuffer 0 s' = s'" by (simp add: DestroyTransferBuffer_def)
  moreover have "\<forall>k. GetTransferBuffer k (DestroyTransferBuffer h s') = GetTransferBuffer k s" if "h \<noteq> 0"
    using DestroyTransferBuffer_spec [OF h(2), of h] h that by auto
  ultimately show ?thesis using st(2) by simp
qed

theorem transfer_buffer_registry_witness:
  "\<exists>s'. RegisterTransferBuffer [1, 2] 0 (new_gpu 4 ()) = (0, s') \<and> GetTransferBuffer 0 s' = Some [1, 2] \<and>
    DestroyTransferBuffer 0 s' = s'"
proof -
  obtain h s' where r: "RegisterTransferBuffer [1, 2] 0 (new_gpu 4 ()) = (h, s')" by fastforce
  have "h \<noteq> -1" using r by (simp add: RegisterTransferBuffer_def new_gpu_def)
  moreover have "GetTransferBuffer 0 (new_gpu 4 ()) = None" by (simp add: GetTransferBuffer_def new_gpu_def)
  ultimately show ?thesis using transfer_buffer_registry [OF _ r] new_gpu_ok [of 4 "()"] r by auto
qed

text \<open>A command whose number is past the common commands and not in the GL decoder's table makes
  the service call itself without end: no flush that reaches it returns.\<close>

theorem unknown_command_never_returns:
  assumes "header_command (entries ! nat (parser_get s)) = c" "length g_command_info \<le> c"
    and "c \<le> kStartPoint \<or> length (gl_command_info G) \<le> c - kStartPoint - 1"
    and "0 \<le> parser_get s" "parser_get s < int (length entries)" "parser_get s \<noteq> put" "0 \<le> put" "put \<le> num_entries s"
    and "0 < header_size (entries ! nat (parser_get s))"
    and "int (header_size (entries ! nat (parser_get s))) + parser_get s \<le> entry_count s"
    and "svc_error s = kNoError" "unscheduled_count s \<le> 0" "0 < commands_per_update s" "current_always G"
  shows "svc_FlushSync G put entries s = None"
proof -
  let ?s = "s \<lparr> put_offset := put, parser_put := put \<rparr>"
  obtain k where k: "commands_per_update s = Suc k" using assms(13) by (cases "commands_per_update s") auto
  have "DoCommand G c args t = None" for args and t :: "'a gpu"
    using DoCommonCommand_unknown [of c args t] assms(2,3) by (auto simp: DoCommand_def)
  hence "ProcessCommand G entries ?s = None"
    using assms by (simp add: ProcessCommand_def Let_def vec_at_def)
  hence "process_loop G entries (commands_per_update s) kNoError ?s = None"
    using assms(6) k by (simp add: IsEmpty_def)
  thus ?thesis using assms by (simp add: svc_FlushSync_def ProcessCommands_def current_always_def)
qed

theorem unknown_command_never_returns_witness:
  "svc_FlushSync no_gl 1 [make_header 12 1, 0] (new_gpu 2 ()) = None"
  by (rule unknown_command_never_returns [where c = 12])
     (simp_all add: new_gpu_def g_command_info_def kStartPoint_def current_always_def no_gl_def
       header_of_make [of 12 1, unfolded One_nat_def])

text \<open>The put offset may be set to the number of entries, which the get offset never reaches. On a
  ring of no-ops the service then goes around for ever: after any number of its posted runs it is not
  empty, there is no error, and each run has posted another.\<close>

theorem put_at_the_end_never_empties:
  assumes "0 < n" "current_always G" "0 < k"
  shows "\<exists>s s'. svc_FlushSync G (int n) (replicate n (make_header 0 1)) (new_gpu n d) = Some (svc_GetState s, s) \<and>
    run_tasks G (replicate n (make_header 0 1)) k s = Some s' \<and> svc_error s' = kNoError \<and> \<not> IsEmpty s' \<and>
    scheduled_tasks s' = scheduled_tasks s + k"
proof -
  let ?s0 = "new_gpu n d \<lparr> put_offset := int n \<rparr>"
  have G: "\<forall>s. gl_make_current G s = (True, s)" using assms(2) by (simp add: current_always_def)
  obtain g where g: "0 \<le> g" "g < int n" "ProcessCommands G (replicate n (make_header 0 1)) ?s0 =
      Some (?s0 \<lparr> parser_put := int n, parser_get := g, get_offset := g, scheduled_tasks := scheduled_tasks ?s0 + 1 \<rparr>)"
    using ProcessCommands_noop [of ?s0 n G] assms G by (auto simp: new_gpu_def)
  let ?s = "?s0 \<lparr> parser_put := int n, parser_get := g, get_offset := g, scheduled_tasks := scheduled_tasks ?s0 + 1 \<rparr>"
  have "svc_FlushSync G (int n) (replicate n (make_header 0 1)) (new_gpu n d) = Some (svc_GetState ?s, ?s)"
    using g(3) by (simp add: svc_FlushSync_def) (simp add: new_gpu_def)
  moreover obtain s' where "run_tasks G (replicate n (make_header 0 1)) k ?s = Some s'" "\<not> IsEmpty s'" "svc_error s' = kNoError"
    "scheduled_tasks s' = scheduled_tasks ?s + k"
    using run_tasks_noop [of ?s n G k] g(1,2) G assms(3) by (auto simp: new_gpu_def)
  ultimately show ?thesis by blast
qed

theorem put_at_the_end_never_empties_witness:
  "\<exists>s s'. svc_FlushSync no_gl (int 4) (replicate 4 (make_header 0 1)) (new_gpu 4 ()) = Some (svc_GetState s, s) \<and>
    run_tasks no_gl (replicate 4 (make_header 0 1)) 1000 s = Some s' \<and> svc_error s' = kNoError \<and> \<not> IsEmpty s' \<and>
    scheduled_tasks s' = scheduled_tasks s + 1000"
  by (rule put_at_the_end_never_empties) (simp_all add: current_always_def no_gl_def)

text \<open>A return goes back to the call itself, not to the command after it: the get offset is advanced
  only after a command, so the address a call stores is its own. A call and the return it jumps to
  are executed over and over.\<close>

theorem return_goes_back_to_the_call:
  assumes "holds r g (4, [word_of_int t])" "holds r t (6, [])" "entry_count s = int (length r)" "length r < 2 ^ 31"
    and "g \<noteq> t" "parser_put s \<noteq> g" "parser_put s \<noteq> t" "parser_get s = g" "length (call_stack s) < kMaxStackDepth"
    and "current_decoder_error s = kNoError" "unscheduled_count s \<le> 0" "get_offset s = g"
  shows "process_loop G r (2 * k) kNoError s = Some (Inr (kNoError, s))"
proof -
  let ?s1 = "s \<lparr> parser_get := t, get_offset := t, call_stack := word_of_int g # call_stack s \<rparr>"
  have g: "0 \<le> g" "g + 2 \<le> int (length r)" using holds_inside [OF assms(1)] by (simp_all add: len_def)
  have t: "0 \<le> t" "t + 1 \<le> int (length r)" using holds_inside [OF assms(2)] by (simp_all add: len_def)
  have i: "sint (word_of_int t :: 32 word) = t" "sint (word_of_int g :: 32 word) = g"
    using g t assms(4) by (simp_all add: sint_sbintrunc' signed_take_bit_int_eq_self)
  have c: "vec_at r g = Some (make_header 4 2)" "take 1 (drop (nat g + 1) r) = [word_of_int t]"
    using holds_command [OF assms(1)] by (simp_all add: numeral_2_eq_2 [symmetric])
  have d: "vec_at r t = Some (make_header 6 1)"
    using holds_command [OF assms(2)] by simp
  have hc: "header_size (make_header 4 2) = 2" "header_command (make_header 4 2) = 4"
    and hd: "header_size (make_header 6 1) = 1" "header_command (make_header 6 1) = 6"
    using header_of_make [of 4 2] header_of_make [of 6 1] by simp_all
  have call: "DoCommand G 4 [word_of_int t] s = Some (kNoError, ?s1)"
    using assms g t i by (simp add: DoCommand_def kStartPoint_def DoCommonCommand_known g_command_info_def args_match_def
        handle_common_def HandleCall_def PushAddress_def bool_error_def SetGetOffset_def set_get_def Let_def)
  have ret: "DoCommand G 6 [] ?s1 = Some (kNoError, s)"
    using assms g t i by (simp add: DoCommand_def kStartPoint_def DoCommonCommand_known g_command_info_def args_match_def
        handle_common_def HandleReturn_def bool_error_def SetGetOffset_def set_get_def)
  have "ProcessCommand G r s = Some (kNoError, ?s1)"
    using c hc call assms(3,5,6,8) g by (simp add: ProcessCommand_def Let_def)
  moreover have "ProcessCommand G r ?s1 = Some (kNoError, s)"
    using d hd [unfolded One_nat_def] ret assms(3,5,7,8) t by (simp add: ProcessCommand_def Let_def)
  ultimately have two: "process_loop G r (Suc (Suc n)) kNoError s = process_loop G r n kNoError s" for n
    using assms by (simp add: IsEmpty_def IsError_def)
  show ?thesis by (induction k) (use two in simp_all)
qed

theorem return_goes_back_to_the_call_witness:
  "process_loop no_gl [make_header 4 2, 4, make_header 7 2, 0, make_header 6 1, 0] (2 * 50) kNoError
     ((new_gpu 6 ()) \<lparr> parser_put := 2 \<rparr>) = Some (Inr (kNoError, (new_gpu 6 ()) \<lparr> parser_put := 2 \<rparr>))"
  by (rule return_goes_back_to_the_call [where g = 0 and t = 4])
     (simp_all add: holds_def enc_def new_gpu_def kMaxStackDepth_def numeral_2_eq_2 [symmetric])

subsection \<open>The client and the service together\<close>

text \<open>C36. The ring buffer is a queue. Whatever plain commands a client issues on a fresh command
  buffer, however often the ring wraps and the helper flushes, issuing and finishing return,
  and the service is then in the state that executing the commands one after the other gives, apart
  from its place in the ring.\<close>

theorem ring_buffer_is_a_queue:
  assumes "2 < length entries" "length entries < 2 ^ 30" "current_always G"
    and "\<forall>x \<in> set cs. plain x \<and> int (length (snd x)) + 1 < int (length entries) - 2"
    and "exec_cmds cs (new_gpu (length entries) d) = Some t"
  shows "\<exists>h h' g pp go po n. issue (service_buffer G) cs (started G entries d) = Some h \<and>
    Finish (service_buffer G) h = Some (True, h') \<and> client_get h' = client_put h' \<and>
    world h' = at_ring g pp go po n t"
proof -
  note s0 = started_sim [OF assms(1,2), of G d]
  have "\<forall>x \<in> set cs. plain x \<and> len x < usable_entry_count (started G entries d)"
    using assms(4) s0(2) by (auto simp: len_def)
  from issue_sim [OF s0(1) assms(3) this assms(5)] obtain h xs where
    h: "issue (service_buffer G) cs (started G entries d) = Some h" "queue_sim h xs t" by blast
  obtain h' where h': "Finish (service_buffer G) h = Some (True, h')" "queue_sim h' [] t"
    using Finish_sim [OF h(2) assms(3)] by blast
  have "client_get h' = client_put h'" using queue_sim_facts(3) [OF h'(2)] by simp
  moreover have "\<exists>g pp go po n. world h' = at_ring g pp go po n t"
    using h'(2) by (simp add: queue_sim_def) blast
  ultimately show ?thesis using h(1) h'(1) by blast
qed

theorem ring_buffer_is_a_queue_witness:
  "\<exists>h h' g pp go po n. issue (service_buffer no_gl) [(7, [1, 4]), (9, [1, 0, 4, 0x64636261]), (1, [5])]
       (started no_gl (replicate 8 0) ()) = Some h \<and>
    Finish (service_buffer no_gl) h = Some (True, h') \<and> client_get h' = client_put h' \<and>
    world h' = at_ring g pp go po n (new_gpu 8 () \<lparr> buckets := [1 \<mapsto> [0x61, 0x62, 0x63, 0x64]], svc_token := 5 \<rparr>)"
proof -
  let ?cs = "[(7, [1, 4]), (9, [1, 0, 4, 0x64636261]), (1, [5])] :: cmd list"
  let ?t = "new_gpu 8 () \<lparr> buckets := [1 \<mapsto> [0x61, 0x62, 0x63, 0x64]], svc_token := 5 \<rparr>"
  have b: "bytes_of_word 0x64636261 = [0x61, 0x62, 0x63, 0x64]" by (simp add: bytes_of_word_def)
  have "exec_cmds ?cs (new_gpu 8 ()) = Some ?t"
    by (simp add: effect_def jump0_def handle_common_def HandleSetBucketSize_def CreateBucket_def bucket_SetSize_def
        HandleSetBucketDataImmediate_def fill_bucket_def bucket_SetData_def OffsetSizeValid_def overwrite_def
        HandleSetToken_def set_token_def b Let_def new_gpu_def)
  moreover have "\<forall>x \<in> set ?cs. plain x \<and> int (length (snd x)) + 1 < int (length (replicate 8 (0 :: 32 word))) - 2"
    by (simp add: plain_def g_command_info_def args_match_def)
  ultimately show ?thesis
    using ring_buffer_is_a_queue [of "replicate 8 0" no_gl ?cs "()" ?t] by (simp add: current_always_def no_gl_def)
qed

text \<open>The space the helper hands out lies inside the ring, in front of the place kept for the
  closing jump, and no entry of it still waits to be read; unless a flush failed.\<close>

theorem GetSpace_is_free:
  assumes "GetSpace (service_buffer G) n h = Some (space, h')" "helper_ok (service_good G) h" "0 \<le> sint n"
    and "svc_error (world h') = kNoError"
  shows "0 \<le> space \<and> space + uint n \<le> usable_entry_count h' \<and> usable_entry_count h' + 2 \<le> int (length (ring h')) \<and>
    (\<forall>i. space \<le> i \<and> i < space + uint n \<longrightarrow> \<not> in_flight (client_get h') space i) \<and> helper_ok (service_good G) h'"
proof -
  have "\<not> reader_failed (service_buffer G) h'"
    using assms(4) by (simp add: reader_failed_def service_buffer_def svc_GetState_def)
  thus ?thesis using svc.GetSpace_result [OF assms(1,2,3)] by (auto simp: helper_ok_def ring_ok_def kJumpEntries_def)
qed

lemma started_fields:
  assumes "2 < n" "n < 2 ^ 30"
  shows "started G (replicate n 0) d = \<lparr> ring = replicate n 0, total_entry_count = int n,
      usable_entry_count = int n - 2, client_token = 0, last_token_read = 0, client_get = 0,
      client_put = 0, last_put_sent = 0, world = new_gpu n d \<rparr>"
proof -
  have u: "uint (of_nat (4 * n) :: 32 word) = 4 * int n"
    using assms(2) by (subst unsigned_of_nat) (simp add: take_bit_nat_eq_self)
  show ?thesis
    unfolding started_def helper_Initialize_def service_buffer_def new_helper_def SynchronizeState_def svc_GetState_def
    by (simp add: u new_gpu_def kJumpEntries_def Let_def del: of_nat_mult)
qed

theorem GetSpace_is_free_witness:
  "\<exists>h'. GetSpace (service_buffer no_gl) 3 (started no_gl (replicate 64 0) ()) = Some (0, h') \<and>
    usable_entry_count h' + 2 \<le> int (length (ring h'))"
proof -
  let ?h = "started no_gl (replicate 64 0) ()"
  have f: "?h = \<lparr> ring = replicate 64 0, total_entry_count = 64, usable_entry_count = 62, client_token = 0,
      last_token_read = 0, client_get = 0, client_put = 0, last_put_sent = 0, world = new_gpu 64 () \<rparr>"
    using started_fields [of 64 no_gl "()"] by simp
  have sp: "GetSpace (service_buffer no_gl) 3 ?h = Some (0, ?h \<lparr> client_put := 3 \<rparr>)"
    unfolding f by (simp add: GetSpace_def WaitForAvailableEntries_def wrap_ring_def wait_for_room.simps AvailableEntries_def
        force_flush_def c_rem_def c_div_def to_int32_def Let_def)
  have ok: "helper_ok (service_good no_gl) ?h"
    unfolding f using new_gpu_ok [of 64 "()"] by (simp add: helper_ok_def ring_ok_def kJumpEntries_def service_good_def no_gl_keeps)
       (simp add: new_gpu_def)
  show ?thesis using GetSpace_is_free [OF sp ok] sp by (simp add: f new_gpu_def)
qed

text \<open>After an error of the service the helper hands out space that is not there: a request that
  does not fit before the end of the ring returns the place of the put offset all the same, and
  the put offset moves past the entries that can be used. Putting a command there writes
  outside the ring buffer, which is \<open>None\<close>.\<close>

theorem space_past_the_end_after_an_error:
  assumes "svc_error (world h) \<noteq> kNoError" "ring_ok h" "num_entries (world h) = int (length (ring h))"
    and "usable_entry_count h < client_put h + len (c, args)" "len (c, args) < usable_entry_count h"
    and "get_offset (world h) = 0" "client_get h = 0"
  shows "\<exists>h'. GetSpace (service_buffer G) (of_nat (Suc (length args))) h = Some (client_put h, h') \<and>
      client_put h' = client_put h + len (c, args) \<and> usable_entry_count h' < client_put h' \<and>
      (int (length (ring h)) < client_put h' \<longrightarrow> put_command (service_buffer G) c args h = None)"
proof -
  let ?h1 = "h \<lparr> last_put_sent := client_put h, world := (world h) \<lparr> put_offset := client_put h \<rparr>,
      last_token_read := svc_token (world h) \<rparr>"
  have p: "0 \<le> client_put h" "client_put h < usable_entry_count h" "usable_entry_count h < 2 ^ 30"
    "usable_entry_count h + 2 \<le> int (length (ring h))"
    using assms(2) by (simp_all add: ring_ok_def kJumpEntries_def)
  have l: "len (c, args) = int (Suc (length args))" by (simp add: len_def)
  have "int (Suc (length args)) < 2 ^ 31" using assms(5) p(3) l by simp
  note w = entry_count_word [OF this, folded l]
  have fl: "helper_FlushSync (service_buffer G) h = Some (False, ?h1)"
    using assms(1,3,6,7) p by (simp add: helper_FlushSync_def service_buffer_def svc_FlushSync_def ProcessCommands_def
        svc_GetState_def SynchronizeState_def)
  have ww: "wait_for_wrap (service_buffer G) h = Some (False, ?h1)"
    using assms(7) fl by (subst wait_for_wrap.simps) simp
  have wa: "WaitForAvailableEntries (service_buffer G) (len (c, args)) h = Some ?h1"
    using assms(4,5) ww p by (simp add: WaitForAvailableEntries_def wrap_ring_def)
  have put: "to_int32 (client_put h + len (c, args)) = client_put h + len (c, args)"
    using p assms(5) len_pos [of "(c, args)"] by (intro to_int32_id) simp_all
  have gs: "GetSpace (service_buffer G) (of_nat (Suc (length args))) h =
      Some (client_put h, ?h1 \<lparr> client_put := client_put h + len (c, args) \<rparr>)"
    using wa put w assms(4) by (simp add: GetSpace_def Let_def del: of_nat_Suc)
  moreover have "put_command (service_buffer G) c args h = None" if "int (length (ring h)) < client_put h + len (c, args)"
    using gs that p(1) by (simp add: put_command_def write_entries_def len_def del: of_nat_Suc)
  ultimately show ?thesis using assms(4) by simp
qed

theorem space_past_the_end_after_an_error_witness:
  "put_command (service_buffer no_gl) 8 [1, 0, 4, 2, 0]
     (started no_gl (replicate 16 0) () \<lparr> client_put := 12, world := new_gpu 16 () \<lparr> svc_error := kLostContext \<rparr> \<rparr>) = None"
proof -
  let ?h = "started no_gl (replicate 16 0) () \<lparr> client_put := 12, world := new_gpu 16 () \<lparr> svc_error := kLostContext \<rparr> \<rparr>"
  have f: "?h = \<lparr> ring = replicate 16 0, total_entry_count = 16, usable_entry_count = 14, client_token = 0,
      last_token_read = 0, client_get = 0, client_put = 12, last_put_sent = 0,
      world = new_gpu 16 () \<lparr> svc_error := kLostContext \<rparr> \<rparr>"
    using started_fields [of 16 no_gl "()"] by simp
  have "\<exists>h'. GetSpace (service_buffer no_gl) (of_nat (Suc (length [1, 0, 4, 2, 0 :: 32 word]))) ?h = Some (client_put ?h, h') \<and>
      client_put h' = client_put ?h + len (8, [1, 0, 4, 2, 0]) \<and> usable_entry_count h' < client_put h' \<and>
      (int (length (ring ?h)) < client_put h' \<longrightarrow> put_command (service_buffer no_gl) 8 [1, 0, 4, 2, 0] ?h = None)"
    unfolding f by (rule space_past_the_end_after_an_error)
      (simp_all add: ring_ok_def kJumpEntries_def len_def new_gpu_def)
  thus ?thesis by (auto simp: f len_def)
qed

lemma noop_entries:
  assumes "k < 2 ^ 21"
  shows "(drop_bit 2 (4 + of_nat k * 4 + 3) :: 32 word) = of_nat (Suc k)"
proof -
  have e: "(4 + of_nat k * 4 + 3 :: 32 word) = of_nat (4 * k + 7)" by simp
  have "unat (4 + of_nat k * 4 + 3 :: 32 word) = 4 * k + 7"
    unfolding e using assms by (subst unsigned_of_nat) (simp add: take_bit_nat_eq_self)
  hence "unat (drop_bit 2 (4 + of_nat k * 4 + 3 :: 32 word)) = (4 * k + 7) div 4"
    by (simp only: unat_drop_bit_eq) (simp add: drop_bit_eq_div)
  hence "unat (drop_bit 2 (4 + of_nat k * 4 + 3) :: 32 word) = Suc k" by simp
  moreover have "unat (of_nat (Suc k) :: 32 word) = Suc k" using assms by (subst unsigned_of_nat) (simp add: take_bit_nat_eq_self)
  ultimately show ?thesis by (simp only: word_unat_eq_iff)
qed

lemma noop_then_zero:
  fixes d :: 'd
  assumes "0 < k" "k + 3 < n" "k < 2 ^ 21"
  defines "r \<equiv> make_header 0 k # replicate (n - 1) 0"
    and "s \<equiv> new_gpu n d \<lparr> put_offset := int (Suc k), parser_put := int (Suc k) \<rparr>"
  shows "process_loop G r 100 kNoError s = Some (Inl (s \<lparr> parser_get := int k, svc_error := kInvalidSize \<rparr>))"
proof -
  have hd: "header_size (make_header 0 k) = k" "header_command (make_header 0 k) = 0"
    using header_of_make [of 0 k] assms(3) by simp_all
  have d: "DoCommand G 0 args t = Some (kNoError, t)" if "current_decoder_error t = kNoError" for args and t :: "'d gpu"
    using that by (simp add: DoCommand_def kStartPoint_def DoCommonCommand_known g_command_info_def
        args_match_def handle_common_def)
  have len: "int (length r) = int n" using assms(2) by (simp add: r_def)
  have v0: "vec_at r 0 = Some (make_header 0 k)" and vk: "vec_at r (int k) = Some 0"
    using assms(1,2) by (simp_all add: r_def vec_at_def nth_Cons')
  have km: "int k mod int n = int k" using assms(2) by simp
  have p1: "ProcessCommand G r s = Some (kNoError, s \<lparr> parser_get := int k \<rparr>)"
    using v0 hd assms(1,2) km by (simp add: ProcessCommand_def Let_def s_def new_gpu_def d)
  have p2: "ProcessCommand G r (s \<lparr> parser_get := int k \<rparr>) = Some (kInvalidSize, s \<lparr> parser_get := int k \<rparr>)"
    using vk by (simp add: ProcessCommand_def Let_def s_def new_gpu_def header_size_def)
  have "process_loop G r (Suc (Suc m)) kNoError s = Some (Inl (s \<lparr> parser_get := int k, svc_error := kInvalidSize \<rparr>))" for m
    using p1 p2 by (simp add: IsEmpty_def s_def new_gpu_def IsError_def SetParseError_def)
  from this [of 98] show "process_loop G r 100 kNoError s = Some (Inl (s \<lparr> parser_get := int k, svc_error := kInvalidSize \<rparr>))"
    by (simp only: Suc_numeral) (simp only: semiring_norm)
qed

text \<open>\<open>Noop\<close> reserves one entry more than its header says, so the service reads the last
  reserved entry, which nothing was written to, as the next command. On a ring that was not
  used yet that entry is zero and the command buffer is lost with an error.\<close>

theorem Noop_runs_into_unwritten_entry:
  assumes "0 < k" "k + 3 < n" "k < 2 ^ 21" "n < 2 ^ 30" "current_always G"
  shows "\<exists>h h'. cmd_Noop (service_buffer G) (of_nat k) (started G (replicate n 0) d) = Some h \<and>
    Finish (service_buffer G) h = Some (False, h') \<and> svc_error (world h') = kInvalidSize"
proof -
  let ?C = "service_buffer G" and ?init = "started G (replicate n 0) d"
  let ?r = "make_header 0 k # replicate (n - 1) 0"
  have f: "?init = \<lparr> ring = replicate n 0, total_entry_count = int n, usable_entry_count = int n - 2, client_token = 0,
      last_token_read = 0, client_get = 0, client_put = 0, last_put_sent = 0, world = new_gpu n d \<rparr>"
    using assms by (intro started_fields) simp_all
  have w: "sint (of_nat (Suc k) :: 32 word) = int (Suc k)" "uint (of_nat (Suc k) :: 32 word) = int (Suc k)"
    using assms(3) by (intro entry_count_word; simp)+
  have put: "to_int32 (int (Suc k)) = int (Suc k)" using assms(3) by (intro to_int32_id) simp_all
  have "\<not> (int n - 2) div 16 < 0" using assms(2) pos_imp_zdiv_neg_iff [of 16 "int n - 2"] by simp
  hence wa: "WaitForAvailableEntries ?C (int (Suc k)) ?init = Some ?init"
    unfolding f using assms(2) by (simp add: WaitForAvailableEntries_def wrap_ring_def wait_for_room.simps AvailableEntries_def
        force_flush_def c_rem_def c_div_def Let_def)
  have gs: "GetSpace ?C (of_nat (Suc k)) ?init = Some (0, ?init \<lparr> client_put := int (Suc k) \<rparr>)"
    unfolding GetSpace_def w wa using assms(2) put by (simp add: f)
  have ov: "overwrite 0 [make_header 0 k] (replicate n 0) = ?r" by (simp add: overwrite_def)
  let ?h = "?init \<lparr> client_put := int (Suc k), ring := ?r \<rparr>"
  have noop: "cmd_Noop ?C (of_nat k) ?init = Some ?h"
  proof -
    have "cmd_Noop ?C (of_nat k) ?init = write_entries 0 [make_header 0 (unat (of_nat k :: 32 word))] (?init \<lparr> client_put := int (Suc k) \<rparr>)"
      unfolding cmd_Noop_def noop_entries [OF assms(3)] gs by simp
    also have "unat (of_nat k :: 32 word) = k" using assms(3) by (subst unsigned_of_nat) (simp add: take_bit_nat_eq_self)
    also have "write_entries 0 [make_header 0 k] (?init \<lparr> client_put := int (Suc k) \<rparr>) = Some ?h"
      using assms(2) ov by (simp add: write_entries_def f)
    finally show ?thesis .
  qed
  let ?s = "new_gpu n d \<lparr> put_offset := int (Suc k), parser_put := int (Suc k) \<rparr>"
  note pl = noop_then_zero [OF assms(1,2,3), of G d]
  have "svc_FlushSync G (int (Suc k)) ?r (new_gpu n d) =
      Some (svc_GetState (?s \<lparr> parser_get := int k, svc_error := kInvalidSize \<rparr>), ?s \<lparr> parser_get := int k, svc_error := kInvalidSize \<rparr>)"
    using pl assms(2,5) by (simp add: svc_FlushSync_def ProcessCommands_def current_always_def) (simp add: new_gpu_def)
  hence "\<exists>h'. helper_FlushSync ?C ?h = Some (False, h') \<and> svc_error (world h') = kInvalidSize"
    by (simp add: helper_FlushSync_def service_buffer_def f SynchronizeState_def) (simp add: svc_GetState_def)
  then obtain h' where h': "helper_FlushSync ?C ?h = Some (False, h')" "svc_error (world h') = kInvalidSize" by blast
  have "Finish ?C ?h = Some (False, h')" using h'(1) by (subst Finish.simps) simp
  thus ?thesis using noop h'(2) by blast
qed

theorem Noop_runs_into_unwritten_entry_witness:
  "\<exists>h h'. cmd_Noop (service_buffer no_gl) (of_nat 4) (started no_gl (replicate 64 0) ()) = Some h \<and>
    Finish (service_buffer no_gl) h = Some (False, h') \<and> svc_error (world h') = kInvalidSize"
  by (rule Noop_runs_into_unwritten_entry) (simp_all add: current_always_def no_gl_def)

end
