(* ===== verification/AllocatorSpec.thy ===== *)
theory AllocatorSpec
  imports FencedOps RingBufferSpec GpuSpec
begin

text \<open>
  The properties of the two allocators of transfer buffer memory, \<open>FencedAllocator\<close> and
  \<open>RingBuffer\<close>. What they take from the helper are the laws of \<open>token_laws\<close>, which the helper over the
  service model satisfies.
\<close>

subsection \<open>The fenced allocator\<close>

text \<open>The calls of a client, in any order and with any arguments.\<close>

inductive fenced_step :: "'h token_source \<Rightarrow> Block list \<times> 'h \<Rightarrow> Block list \<times> 'h \<Rightarrow> bool" for T where
  step_alloc: "Fenced_Alloc T sz bs h = Some (off, bs', h') \<Longrightarrow> fenced_step T (bs, h) (bs', h')"
| step_free: "Fenced_Free off bs = Some bs' \<Longrightarrow> fenced_step T (bs, h) (bs', h)"
| step_pending: "Fenced_FreePendingToken off tok bs = Some bs' \<Longrightarrow> fenced_step T (bs, h) (bs', h)"
| step_unused: "fenced_step T (bs, h) (FreeUnused T bs h, h)"
| step_reader: "fenced_step T (bs, h) (bs, h')"

inductive_simps fenced_step_simps: "fenced_step T (bs, h) (bs', h')"

lemma FreeUnused_effect:
  "fenced_ok N bs \<Longrightarrow> fenced_ok N (FreeUnused T bs h) \<and> bytes (FreeUnused T bs h) = (\<lambda>n. release (last_read T h) (bytes bs n))"
  using free_unused_loop_effect [of N bs 0 "last_read T h"] by (simp add: FreeUnused_def)

lemma fenced_step_ok: "fenced_step T s s' \<Longrightarrow> fenced_ok N (fst s) \<Longrightarrow> fenced_ok N (fst s')"
  by (induction rule: fenced_step.induct)
     (auto dest: Fenced_Alloc_effect Fenced_Free_ok Fenced_FreePendingToken_ok simp: FreeUnused_effect)

lemma new_FencedAllocator_ok: "sz \<noteq> 0 \<Longrightarrow> fenced_ok (unat sz) (new_FencedAllocator sz)"
  using unsigned_less [of sz, where 'a = nat] by (simp add: fenced_ok_def new_FencedAllocator_def unat_gt_0)

lemma fenced_steps_ok: "(fenced_step T)\<^sup>*\<^sup>* s s' \<Longrightarrow> fenced_ok N (fst s) \<Longrightarrow> fenced_ok N (fst s')"
  by (induction rule: rtranclp_induct) (auto dest: fenced_step_ok)

text \<open>C39. After any sequence of calls, with the reader moving in between, the blocks tile the buffer
  without gap or overlap, no two free blocks are neighbours, and the allocator's own consistency
  check succeeds.\<close>

theorem fenced_blocks_tile_the_buffer:
  assumes "(fenced_step T)\<^sup>*\<^sup>* (new_FencedAllocator sz, h) (bs, h')" "sz \<noteq> 0"
  shows "tiled 0 bs (unat sz) \<and> no_free_pair bs \<and> CheckConsistency bs \<and>
    (\<forall>n. bytes bs n \<noteq> None \<longleftrightarrow> n < unat sz)"
proof -
  have ok: "fenced_ok (unat sz) bs" using fenced_steps_ok [OF assms(1)] new_FencedAllocator_ok [OF assms(2)] by simp
  hence "tiled 0 bs (unat sz)" "no_free_pair bs" "unat sz < 2 ^ 32" "0 < unat sz" by (simp_all add: fenced_ok_def)
  moreover from this have "check_blocks bs" "bs \<noteq> []" by (auto intro: check_blocks_ok)
  ultimately show ?thesis using bytes_dom [of 0 bs "unat sz"] by (auto simp: CheckConsistency_def)
qed

definition ready :: "unit token_source" where
  "ready = \<lparr> wait_for_token = (\<lambda>t h. Some h), last_read = (\<lambda>h. 5) \<rparr>"

theorem fenced_blocks_tile_the_buffer_witness:
  "\<exists>bs. (fenced_step ready)\<^sup>*\<^sup>* (new_FencedAllocator 16, ()) (bs, ()) \<and> length bs = 2 \<and> CheckConsistency bs"
proof -
  obtain off bs h' where a: "Fenced_Alloc ready 4 (new_FencedAllocator 16) () = Some (off, bs, h')" "length bs = 2"
    by (simp add: Fenced_Alloc_def new_FencedAllocator_def AllocInBlock_def insert_at_def)
  have "fenced_step ready (new_FencedAllocator 16, ()) (bs, ())" using step_alloc [OF a(1)] by simp
  hence r: "(fenced_step ready)\<^sup>*\<^sup>* (new_FencedAllocator 16, ()) (bs, ())" by simp
  show ?thesis using fenced_blocks_tile_the_buffer [OF r] a(2) r by auto
qed

text \<open>C38. An allocation that returns succeeds exactly when the largest run of blocks not in use has the
  size, taking zero for one. It hands out bytes of the buffer of which each was available, or was
  fenced by a token that the reader had passed before the call returned. It changes no other byte
  than to make fenced ones available.\<close>

theorem Fenced_Alloc_hands_out_passed_bytes:
  assumes "fenced_ok N bs" "Fenced_Alloc (helper_tokens (service_buffer G)) sz bs h = Some (off, bs', h')"
  shows "(off \<noteq> kInvalidOffset \<longleftrightarrow> max 1 (unat sz) \<le> unat (GetLargestFreeOrPendingSize bs)) \<and>
    (\<forall>n. if off \<noteq> kInvalidOffset \<and> unat off \<le> n \<and> n < unat off + max 1 (unat sz) then bytes bs' n = Some Used
       else bytes bs' n = bytes bs n \<or> (\<exists>t. bytes bs n = Some (Fenced t) \<and> bytes bs' n = Some Available)) \<and>
    (off \<noteq> kInvalidOffset \<longrightarrow> unat off + max 1 (unat sz) \<le> N \<and>
       (\<forall>n. unat off \<le> n \<and> n < unat off + max 1 (unat sz) \<longrightarrow>
          bytes bs n = Some Available \<or>
          (\<exists>t h1 W. bytes bs n = Some (Fenced t) \<and> token_passed (service_buffer G) t h1 \<and>
             waited (helper_tokens (service_buffer G)) W h1 h')))"
proof -
  let ?T = "helper_tokens (service_buffer G)" and ?k = "max 1 (unat sz)"
  obtain W where W: "waited ?T W h h'" "alloc_effect N ?k W bs off bs'"
    "off \<noteq> kInvalidOffset \<longleftrightarrow> ?k \<le> max_room 0 bs"
    using Fenced_Alloc_effect [OF assms(2,1)] by blast
  obtain g where g: "frees W (bytes bs) g"
    "if off = kInvalidOffset then bytes bs' = g
     else unat off + ?k \<le> N \<and> (\<forall>n. unat off \<le> n \<and> n < unat off + ?k \<longrightarrow> g n = Some Available) \<and>
       bytes bs' = fill (unat off) ?k Used g"
    using W(2) unfolding alloc_effect_def by blast
  have other: "if off \<noteq> kInvalidOffset \<and> unat off \<le> n \<and> n < unat off + ?k then bytes bs' n = Some Used
      else bytes bs' n = bytes bs n \<or> (\<exists>t. bytes bs n = Some (Fenced t) \<and> bytes bs' n = Some Available)" for n
    using g by (auto simp: frees_def fill_def split: if_splits)
  have inside: "off \<noteq> kInvalidOffset \<longrightarrow> unat off + ?k \<le> N" using g(2) by presburger
  have safe: "bytes bs n = Some Available \<or> (\<exists>t h1 U. bytes bs n = Some (Fenced t) \<and> token_passed (service_buffer G) t h1 \<and> waited ?T U h1 h')"
    if "off \<noteq> kInvalidOffset" "unat off \<le> n" "n < unat off + ?k" for n
  proof -
    have "g n = Some Available" using g(2) that by simp
    thus ?thesis using g(1) svc.waited_passed [OF W(1)] unfolding frees_def by metis
  qed
  show ?thesis
  proof (intro conjI allI impI)
    show "off \<noteq> kInvalidOffset \<longleftrightarrow> ?k \<le> unat (GetLargestFreeOrPendingSize bs)"
      using W(3) GetLargestFreeOrPendingSize_room [OF assms(1)] by simp
    show "off \<noteq> kInvalidOffset \<Longrightarrow> unat off + ?k \<le> N" using inside by blast
    fix n
    show "if off \<noteq> kInvalidOffset \<and> unat off \<le> n \<and> n < unat off + ?k then bytes bs' n = Some Used
      else bytes bs' n = bytes bs n \<or> (\<exists>t. bytes bs n = Some (Fenced t) \<and> bytes bs' n = Some Available)" by (rule other)
    show "off \<noteq> kInvalidOffset \<Longrightarrow> unat off \<le> n \<and> n < unat off + ?k \<Longrightarrow> bytes bs n = Some Available \<or>
      (\<exists>t h1 W. bytes bs n = Some (Fenced t) \<and> token_passed (service_buffer G) t h1 \<and> waited ?T W h1 h')"
      using safe by blast
  qed
qed

theorem Fenced_Alloc_hands_out_passed_bytes_witness:
  "\<exists>bs' h'. Fenced_Alloc (helper_tokens (service_buffer no_gl)) 4 [\<lparr> b_state = FREE_PENDING_TOKEN, b_offset = 0, b_size = 16, b_token = 0 \<rparr>]
      (started no_gl (replicate 64 0) ()) = Some (0, bs', h') \<and> bytes bs' 3 = Some Used"
proof -
  let ?bs = "[\<lparr> b_state = FREE_PENDING_TOKEN, b_offset = 0, b_size = 16, b_token = 0 \<rparr>]" and ?T = "helper_tokens (service_buffer no_gl)"
  let ?h = "started no_gl (replicate 64 0) ()"
  have f: "last_token_read ?h = 0" "client_token ?h = 0" using started_fields [of 64 no_gl "()"] by simp_all
  have w: "WaitForToken (service_buffer no_gl) 0 ?h = Some ?h"
    using f by (simp add: WaitForToken_def wait_token.simps)
  have wf: "WaitForTokenAndFreeBlock ?T 0 ?bs ?h = Some (0, [\<lparr> b_state = FREE, b_offset = 0, b_size = 16, b_token = 0 \<rparr>], ?h)"
    using w by (simp add: WaitForTokenAndFreeBlock_def helper_tokens_def CollapseFreeBlock_def collapse_next_def collapse_previous_def)
  have a: "\<exists>bs'. Fenced_Alloc ?T 4 ?bs ?h = Some (0, bs', ?h)"
    using wf by (simp add: Fenced_Alloc_def alloc_pending.simps AllocInBlock_def)
  then obtain bs' where a: "Fenced_Alloc ?T 4 ?bs ?h = Some (0, bs', ?h)" by blast
  have "fenced_ok 16 ?bs" by (simp add: fenced_ok_def)
  from Fenced_Alloc_hands_out_passed_bytes [OF this a] have "bytes bs' 3 = Some Used"
    by (auto simp: kInvalidOffset_def dest: spec [of _ 3])
  thus ?thesis using a by blast
qed

text \<open>Freeing what is unused makes exactly the bytes available that were fenced by a token up to the last
  one the helper knows to be read, and changes no other byte. After the tokens have wrapped, bytes fenced before the
  wrap stay fenced.\<close>

theorem FreeUnused_releases_read_tokens:
  assumes "fenced_ok N bs"
  shows "fenced_ok N (FreeUnused T bs h) \<and>
    (\<forall>n. bytes (FreeUnused T bs h) n =
       (case bytes bs n of
          Some (Fenced t) \<Rightarrow> if t \<le> last_read T h then Some Available else Some (Fenced t)
        | b \<Rightarrow> b))"
  using FreeUnused_effect [OF assms, of T h]
  by (auto simp: release_def split: option.splits byte_status.splits)

theorem FreeUnused_releases_read_tokens_witness:
  "bytes (FreeUnused ready [\<lparr> b_state = FREE_PENDING_TOKEN, b_offset = 0, b_size = 4, b_token = 3 \<rparr>,
      \<lparr> b_state = FREE_PENDING_TOKEN, b_offset = 4, b_size = 4, b_token = 7 \<rparr>] ()) 2 = Some Available"
proof -
  have "fenced_ok 8 [\<lparr> b_state = FREE_PENDING_TOKEN, b_offset = 0, b_size = 4, b_token = 3 \<rparr>,
      \<lparr> b_state = FREE_PENDING_TOKEN, b_offset = 4, b_size = 4, b_token = 7 \<rparr>]"
    by (simp add: fenced_ok_def)
  from FreeUnused_releases_read_tokens [OF this, of ready "()"] show ?thesis
    by (simp add: covers_def status_def ready_def)
qed

subsection \<open>The ring buffer\<close>

text \<open>C40. An allocation in the ring buffer frees the oldest blocks, each after waiting for its token, and
  no more than it needs to see room; the block it returns lies in the buffer and overlaps none of
  the blocks that remain.\<close>

theorem ring_Alloc_overlaps_nothing:
  assumes "ring_buffer_ok rb" "ring_Alloc T sz rb h = Some (off, rb', h')"
  shows "ring_buffer_ok rb' \<and>
    (\<exists>gone kept b. rb_blocks rb = gone @ kept \<and> rb_blocks rb' = kept @ [b] \<and>
       waited T ((\<lambda>c. sint (rb_token c)) ` set gone) h h' \<and>
       off = rb_offset b + base_offset rb \<and> unat (rb_size b) = max 1 (unat sz) \<and>
       unat (rb_offset b) + unat (rb_size b) \<le> unat (buffer_size rb) \<and>
       (\<forall>c \<in> set kept. unat (rb_offset b) + unat (rb_size b) \<le> unat (rb_offset c) \<or>
          unat (rb_offset c) + unat (rb_size c) \<le> unat (rb_offset b)))"
proof -
  define k where "k = (if sz = 0 then 1 else sz)"
  have k: "unat k = max 1 (unat sz)" "0 < k"
    by (auto simp: k_def max_def Suc_le_eq unat_gt_0 word_neq_0_conv)
  obtain rb1 where m: "ring_make_room T k rb h = Some (rb1, h')" "ring_take k rb1 = (off, rb')"
    using assms(2) by (auto simp: ring_Alloc_def k_def Let_def split: option.splits prod.splits)
  obtain gone where g: "rb_blocks rb = gone @ rb_blocks rb1" "waited T ((\<lambda>b. sint (rb_token b)) ` set gone) h h'"
    "ring_buffer_ok rb1" "k \<le> GetLargestFreeSizeNoWaiting rb1" "buffer_size rb1 = buffer_size rb" "base_offset rb1 = base_offset rb"
    using ring_make_room_ok [OF m(1) assms(1)] by blast
  note room = ring_room(1,2) [OF g(3)]
  have le: "unat k \<le> unat (GetLargestFreeSizeNoWaiting rb1)" using g(4) by (simp add: word_le_nat_alt)
  have "ring_buffer_ok rb'" using ring_take_ok [OF g(3) k(2) g(4)] m(2) by simp
  moreover have t: "off = free_offset rb1 + base_offset rb1" "rb_blocks rb' = rb_blocks rb1 @ [new_ring_block (free_offset rb1) k]"
    using m(2) by (auto simp: ring_take_def Let_def)
  moreover have "unat (free_offset rb1) + unat k \<le> unat (buffer_size rb)" using room(1) le g(5) by simp
  moreover have "0 < unat k" using k by simp
  ultimately show ?thesis using g(1,2,6) k(1) room(2) le
    by (intro conjI exI [of _ gone] exI [of _ "rb_blocks rb1"] exI [of _ "new_ring_block (free_offset rb1) k"])
       (fastforce simp: new_ring_block_def)+
qed

text \<open>Where waiting always returns, an allocation in the ring buffer returns exactly when the size, taking
  zero for one, is at most that of the buffer. A bigger request frees every block and then
  takes the oldest block of an empty queue.\<close>

theorem ring_Alloc_returns:
  assumes "ring_buffer_ok rb" "\<forall>t h. wait_for_token T t h \<noteq> None"
  shows "ring_Alloc T sz rb h \<noteq> None \<longleftrightarrow> max 1 (unat sz) \<le> unat (buffer_size rb)"
proof -
  define k where "k = (if sz = 0 then 1 else sz)"
  have k: "unat k = max 1 (unat sz)" by (auto simp: k_def max_def Suc_le_eq unat_gt_0)
  have "ring_Alloc T sz rb h = None \<longleftrightarrow> ring_make_room T k rb h = None"
    by (auto simp: ring_Alloc_def k_def Let_def split: option.splits prod.splits)
  moreover have "ring_make_room T k rb h = None \<longleftrightarrow> \<not> k \<le> buffer_size rb"
    using ring_make_room_returns [of T k rb h] ring_make_room_too_big [OF assms(1), of k T h] assms(1,2) by force
  ultimately show ?thesis using k by (simp add: word_le_nat_alt)
qed

definition two_blocks :: ring_buffer where
  "two_blocks = snd (ring_take 8 (snd (ring_take 4 (new_RingBuffer 100 12))))"

lemma two_blocks_ok: "ring_buffer_ok two_blocks"
proof -
  have "ring_laid 12 0 0 (([new_ring_block 0 4, new_ring_block 4 8]) @ [])"
    by (rule ring_laid.around) (simp_all add: new_ring_block_def)
  thus ?thesis
    by (simp add: two_blocks_def ring_buffer_ok_def ring_take_def new_RingBuffer_def new_ring_block_def)
qed

theorem ring_Alloc_overlaps_nothing_witness:
  "\<exists>rb'. ring_Alloc ready 3 two_blocks () = Some (100, rb', ()) \<and> ring_buffer_ok rb'"
proof -
  have "\<exists>rb'. ring_Alloc ready 3 two_blocks () = Some (100, rb', ())"
    by (simp add: ring_Alloc_def two_blocks_def ring_make_room.simps GetLargestFreeSizeNoWaiting_def FreeOldestBlock_def
        ring_take_def new_RingBuffer_def new_ring_block_def ready_def advance_in_use_def)
  then obtain rb' where r: "ring_Alloc ready 3 two_blocks () = Some (100, rb', ())" by blast
  from ring_Alloc_overlaps_nothing [OF two_blocks_ok r] show ?thesis using r by blast
qed

theorem ring_Alloc_returns_witness:
  "ring_Alloc ready 12 two_blocks () \<noteq> None \<and> ring_Alloc ready 13 two_blocks () = None"
proof -
  have w: "\<forall>t h. wait_for_token ready t h \<noteq> None" by (simp add: ready_def)
  have "buffer_size two_blocks = 12" by (simp add: two_blocks_def ring_take_def new_RingBuffer_def)
  thus ?thesis using ring_Alloc_returns [OF two_blocks_ok w, of 12 "()"] ring_Alloc_returns [OF two_blocks_ok w, of 13 "()"]
    by (simp del: not_None_eq)
qed

end
