(* ===== verification/Spec2Isabelle.thy ===== *)
theory Spec2Isabelle
  imports TabSpec NavSpec SecuritySpec PickleProps ChunkedSpec JsonRoundTrip CookieSpec MessageLoopSpec AllocatorSpec
begin

text \<open>
  A verification library of the browser whose sources are under \<open>src/\<close>: Chromium of spring 2011
  with the MeeGo front end. It models parts of the browser process that keep state for the user
  or decide what less trusted processes may do.

  \<^bold>\<open>Conventions.\<close> A class is a record, an enumeration a datatype, a method a function from the state
  to the new state. A machine integer whose wrap-around matters is a word; an \<open>int\<close> that stays in
  range is an \<open>int\<close>. A call that may not return normally (a failing \<open>CHECK\<close>, a read out of range or
  after a free, a division by zero, a recursion or wait that need not end) is \<open>option\<close> valued and
  \<open>None\<close> there. A \<open>DCHECK\<close> is not compiled into a release build and is not a branch. A callback that
  other code receives is recorded in a trace. What is outside the repository (the URL library, the
  OpenGL implementation) is an argument of the definitions that use it.

  \<^bold>\<open>The tab strip\<close> (\<open>chrome/browser/tabs\<close>). \<open>TabSelection\<close> is \<open>TabStripSelectionModel\<close>; \<open>TabStripData\<close>,
  \<open>TabStrip\<close> and \<open>TabStripOps\<close> are \<open>TabStripModel\<close> (state and queries; inserting, replacing, detaching,
  activating; moving, pinning, closing, phantom tabs); \<open>TabOrder\<close> is \<open>TabStripModelOrderController\<close>,
  the strip's first observer; \<open>TabMenu\<close> is the context menu; \<open>PageTransition\<close> holds the transitions.
  \<open>TabInv\<close>, \<open>TabProps\<close> and \<open>TabSteps\<close> prove the invariant \<open>strip_wf\<close> for every operation, and
  \<open>TabSpec\<close> the properties. What the strip relies on of the order controller is the locale
  \<open>tab_order_controller\<close>, interpreted on \<open>TabOrder\<close>. The strip selects tabs and the controller
  selects indices: \<open>SetSelectedIndex\<close> and \<open>SetSelectionFromAnchorTo\<close> call each other, which ends
  unless both the anchor and the index are unset; they are a \<open>partial_function\<close>.

  \<^bold>\<open>Session history\<close> (\<open>content/browser/tab_contents\<close>). \<open>NavEntry\<close>, \<open>NavController\<close> and \<open>NavCommit\<close> are
  \<open>NavigationEntry\<close> and \<open>NavigationController\<close>, over a heap of entries, since the pending entry is
  sometimes owned by the controller and sometimes one of the list: a double free or a dangling
  pointer is \<open>None\<close>. \<open>NavInv\<close> and \<open>NavSteps\<close> prove that every call of the step relation returns and
  keeps \<open>nav_ok\<close>; \<open>NavSpec\<close> holds the properties and the calls that break the invariant.

  \<^bold>\<open>What a child process may do\<close> (\<open>content/browser/child_process_security_policy.cc\<close>). \<open>SecurityPolicy\<close>
  holds the policy and the per-child state, with the scheme table of \<open>URLRequestJobManager\<close>;
  \<open>FilePaths\<close> the part of \<open>base/file_path.cc\<close> it walks paths with; \<open>AsciiText\<close> the helpers of
  \<open>base/string_util\<close> it shares with the tab strip. \<open>SecuritySpec\<close> compares the state after any calls
  with a specification that only reads the history of the calls.

  \<^bold>\<open>The GPU command buffer\<close> (\<open>gpu/command_buffer\<close>). The client writes commands into a ring buffer in
  shared memory; the GPU process executes them. \<open>CommandHelper\<close> is the client's
  \<open>CommandBufferHelper\<close>, \<open>FencedAllocator\<close> and \<open>RingBuffer\<close> are the allocators of transfer buffer memory
  above it, \<open>GpuService\<close> the service: registered transfer buffers, the parser, the common commands,
  the scheduler. The allocators see the helper through the interface \<open>token_source\<close>, whose laws are
  the locale \<open>token_laws\<close>; the helper sees the service through \<open>command_buffer\<close>, with the locales
  \<open>command_reader\<close> and \<open>ring_reader\<close>. \<open>command_reader\<close> gives \<open>token_laws\<close> (a \<open>sublocale\<close>), and the
  service model interprets \<open>ring_reader\<close>, so the properties of the allocators and the helper hold of
  the modelled service. \<open>FencedInv\<close>, \<open>FencedOps\<close>, \<open>RingBufferSpec\<close>, \<open>CommandHelperSpec\<close>,
  \<open>GpuServiceSpec\<close> hold the invariants; \<open>CommandStream\<close> and \<open>CommandQueue\<close> the refinement of the two
  ends by a queue of commands; \<open>GpuSpec\<close> and \<open>AllocatorSpec\<close> the properties.

  \<^bold>\<open>Message loops\<close> (\<open>base/message_loop.cc\<close>, \<open>base/message_pump_default.cc\<close>). \<open>MessageLoop\<close> holds the four
  queues, the runs and the pump of a plain thread as a machine with an explicit stack of runs and
  tasks: a call is cut where it acquires the lock of the incoming queue and where a task runs, since
  other threads and the task may act there. \<open>MessageLoopSpec\<close> lets a thread, its tasks, the clock and
  other threads act in any order and proves that no task is lost, the order of tasks, and that the pump
  does not sleep while there is something to do.

  \<^bold>\<open>Data from outside\<close>. \<open>Bytes\<close> and \<open>Pickle\<close> are \<open>base/pickle.cc\<close>, the format of all messages between
  processes, on the bytes of the buffer; \<open>PickleSpec\<close> and \<open>PickleProps\<close> prove that what is written is
  read back and that no read leaves the buffer. \<open>NumberStrings\<close> is
  \<open>base/string_number_conversions.cc\<close>, with \<open>NumberSpec\<close>. \<open>ChunkedDecoder\<close> is
  \<open>net/http/http_chunked_decoder.cc\<close>, which reads chunk sizes with \<open>HexStringToInt\<close>; \<open>ChunkedSpec\<close>
  proves that the cuts of the stream do not matter and that coded bodies are decoded. \<open>Utf\<close> holds the
  Unicode conversions of \<open>base/utf_string_conversions.cc\<close> and the UTF-8 reader below them; in \<open>UtfSpec\<close>
  each form of encoding is an interpretation of the locale \<open>encoding_form\<close>, from which the conversions
  between them follow. \<open>Values\<close> is \<open>base/values.cc\<close>, the trees of preferences and messages, and
  \<open>ValuesSpec\<close> proves their order and the laws of paths. \<open>Json\<close> is \<open>base/json\<close>: the reader is a
  recursive function over jobs (a value, the rest of a list, the rest of a dictionary), a
  \<open>partial_function\<close> that \<open>JsonSpec\<close> proves total; \<open>JsonRoundTrip\<close> proves that what is written is read
  back. Conversions of doubles are a parameter of both.

  \<^bold>\<open>Cookies\<close> (\<open>net/base/cookie_monster.cc\<close>, \<open>net/base/registry_controlled_domain.cc\<close>). \<open>CookieParser\<close> is
  \<open>ParsedCookie\<close> and \<open>ParseCookieTime\<close>, with positions in the text for the iterators; \<open>RegistryDomain\<close>
  finds the registered part of a host; \<open>CookieStore\<close> is \<open>CanonicalCookie\<close> and \<open>CookieMonster\<close>: the
  multimap is a list in the order of the keys, each cookie has a number in place of its address, and
  the calls to the backing store and the delegate are a trace. What a call cannot decide itself (the
  canonical form of a host, the instant of a date, the readings of the clock, what the backing store
  loads, the rules of the registries) is in the records \<open>cookie_env\<close> and \<open>host_lib\<close>; \<open>None\<close> is a failed
  \<open>CHECK\<close>. Where \<open>std::sort\<close> leaves the order of equal elements open the model keeps it. \<open>CookieInv\<close>
  holds the invariant \<open>cm_ok\<close>, \<open>CookieSteps\<close> the calls, with the locale \<open>cookie_invariant\<close> for what all of
  them keep, interpreted for \<open>cm_ok\<close> there and for the limit of a domain in \<open>CookieEvict\<close>;
  \<open>CookieFind\<close> describes lookups, \<open>CookieParserSpec\<close> and \<open>RegistrySpec\<close> compare the parser and the walk
  over the labels with specifications, and \<open>CookieSpec\<close> holds the properties of the store.

  \<^bold>\<open>Bounds and fuel.\<close> No function takes fuel. The loops that need not end (the service on a buffer that
  jumps in a circle, the client waiting for space) are \<open>partial_function (option)\<close>; where a property
  says they return, it is proved. The history is limited by \<open>max_entry_count\<close>, the strip by the fork's
  \<open>tabs_limit\<close>, a cookie line by \<open>kMaxPairs\<close>, the cookies of a domain by \<open>kDomainMaxCookies\<close>.

  \<^bold>\<open>Not modelled.\<close> Operating system glue, vendored and generated code, the widget toolkits, databases,
  and the components that mostly forward messages; of the modelled components, locks, logging and
  statistics. Left for later, because their logic is their
  own and can be modelled the same way: the GPU client's mapped memory and id allocator, the
  other parsers and caches of \<open>net\<close>, site instances, URL patterns of
  extensions.
\<close>

end
